(* ===== verification/Treeland_Prelude.thy ===== *)
theory Treeland_Prelude
  imports Complex_Main "HOL-Library.Word"
begin

text \<open>
  Shared vocabulary of the development: the type of faulting computations (a failed
  \<^verbatim>\<open>Q_ASSERT\<close>, a null dereference, a read outside of an array, fuel that ran out), the operations of Qt's \<^verbatim>\<open>QList\<close> and
  \<^verbatim>\<open>std::forward_list\<close> the sources use, and the lemmas on lists that the component theories
  share. Collections: \<open>result_simps\<close> (the result monad), \<open>qlist_simps\<close> (list operations).
\<close>

named_theorems result_simps \<open>equations of the result monad\<close>
named_theorems qlist_simps \<open>equations of the QList operations\<close>

section \<open>Computations that may fault\<close>

datatype fault = QAssert | NullDeref | OutOfFuel | OutOfBounds

type_synonym 'a result = "fault + 'a"

definition rbind :: "'a result \<Rightarrow> ('a \<Rightarrow> 'b result) \<Rightarrow> 'b result" where
  "rbind m f = (case m of Inl e \<Rightarrow> Inl e | Inr a \<Rightarrow> f a)"

definition qassert :: "bool \<Rightarrow> unit result" where
  "qassert b = (if b then Inr () else Inl QAssert)"

definition deref :: "'a option \<Rightarrow> 'a result" where
  "deref p = (case p of None \<Rightarrow> Inl NullDeref | Some a \<Rightarrow> Inr a)"

definition is_ok :: "'a result \<Rightarrow> bool" where
  "is_ok r = (case r of Inl _ \<Rightarrow> False | Inr _ \<Rightarrow> True)"

lemma rbind_simps [simp, result_simps]:
  "rbind (Inl e) f = Inl e" "rbind (Inr a) f = f a"
  by (simp_all add: rbind_def)

lemma qassert_simps [simp, result_simps]:
  "qassert True = Inr ()" "qassert False = Inl QAssert"
  by (simp_all add: qassert_def)

lemma deref_simps [simp, result_simps]:
  "deref None = Inl NullDeref" "deref (Some a) = Inr a"
  by (simp_all add: deref_def)

lemma is_ok_simps [simp, result_simps]: "is_ok (Inr a)" "\<not> is_ok (Inl e)"
  by (simp_all add: is_ok_def)

lemma rbind_InrE:
  assumes "rbind m f = Inr b"
  obtains a where "m = Inr a" "f a = Inr b"
  using assms by (cases m) auto

lemma rbind_Inr_iff: "rbind m f = Inr b \<longleftrightarrow> (\<exists>a. m = Inr a \<and> f a = Inr b)"
  by (cases m) auto

lemma qassert_Inr_iff [simp]: "qassert b = Inr u \<longleftrightarrow> b"
  by (simp add: qassert_def)

lemma deref_Inr_iff [simp]: "deref p = Inr a \<longleftrightarrow> p = Some a"
  by (cases p) auto

section \<open>Lists as the sources use them\<close>

text \<open>
  \<open>index_of\<close> is \<^verbatim>\<open>QList::indexOf\<close> (\<open>-1\<close> when absent), \<open>list_at\<close> a range-checked
  \<^verbatim>\<open>QList::at\<close>, \<open>list_move\<close> is \<^verbatim>\<open>QList::move(from, to)\<close>: take the element at \<open>from\<close> out and
  insert it at \<open>to\<close>. \<^verbatim>\<open>QList::removeOne\<close> is \<open>remove1\<close> and \<^verbatim>\<open>std::forward_list::remove\<close>, which
  drops every equal element, is \<open>removeAll\<close>.
\<close>

definition index_of :: "'a list \<Rightarrow> 'a \<Rightarrow> int" where
  "index_of xs x =
     (if x \<in> set xs then int (length (takeWhile (\<lambda>y. y \<noteq> x) xs)) else - 1)"

definition list_at :: "'a list \<Rightarrow> int \<Rightarrow> 'a option" where
  "list_at xs i = (if 0 \<le> i \<and> i < int (length xs) then Some (xs ! nat i) else None)"

definition list_move :: "'a list \<Rightarrow> nat \<Rightarrow> nat \<Rightarrow> 'a list" where
  "list_move xs i j =
     (let ys = take i xs @ drop (Suc i) xs in take j ys @ [xs ! i] @ drop j ys)"

lemma index_of_notin [simp, qlist_simps]: "x \<notin> set xs \<Longrightarrow> index_of xs x = - 1"
  by (simp add: index_of_def)

lemma takeWhile_neq_less: "x \<in> set xs \<Longrightarrow> length (takeWhile (\<lambda>y. y \<noteq> x) xs) < length xs"
  by (induction xs) auto

lemma takeWhile_neq_nth: "x \<in> set xs \<Longrightarrow> xs ! length (takeWhile (\<lambda>y. y \<noteq> x) xs) = x"
  by (induction xs) auto

lemma index_of_bounds: "x \<in> set xs \<Longrightarrow> 0 \<le> index_of xs x \<and> index_of xs x < int (length xs)"
  by (simp add: index_of_def takeWhile_neq_less)

lemma index_of_nth: "x \<in> set xs \<Longrightarrow> xs ! nat (index_of xs x) = x"
  by (simp add: index_of_def takeWhile_neq_nth)

lemma index_of_inj: "x \<in> set xs \<Longrightarrow> index_of xs x = index_of xs y \<Longrightarrow> y \<in> set xs \<Longrightarrow> x = y"
  by (metis index_of_nth)

lemma index_of_neg_iff: "index_of xs x < 0 \<longleftrightarrow> x \<notin> set xs"
  using index_of_bounds [of x xs] by (cases "x \<in> set xs") auto

lemma index_of_distinct_nth:
  assumes "distinct xs" "i < length xs"
  shows "index_of xs (xs ! i) = int i"
proof -
  have "xs ! i \<in> set xs" using assms by simp
  then have "xs ! nat (index_of xs (xs ! i)) = xs ! i" "nat (index_of xs (xs ! i)) < length xs"
    "0 \<le> index_of xs (xs ! i)"
    using index_of_nth index_of_bounds [of "xs ! i" xs] by fastforce+
  with assms show ?thesis by (metis nat_0_le nth_eq_iff_index_eq)
qed

lemma list_at_Some_iff:
  "list_at xs i = Some x \<longleftrightarrow> 0 \<le> i \<and> i < int (length xs) \<and> xs ! nat i = x"
  by (auto simp: list_at_def)

lemma list_at_index_of: "x \<in> set xs \<Longrightarrow> list_at xs (index_of xs x) = Some x"
  by (simp add: list_at_Some_iff index_of_bounds index_of_nth)

lemma list_at_in_set: "list_at xs i = Some x \<Longrightarrow> x \<in> set xs"
  by (auto simp: list_at_Some_iff)

lemma list_move_split:
  assumes "i < length xs"
  shows "xs = take i xs @ [xs ! i] @ drop (Suc i) xs"
  using assms by (simp add: id_take_nth_drop)

lemma set_list_move [simp, qlist_simps]:
  assumes "i < length xs"
  shows "set (list_move xs i j) = set xs"
proof -
  let ?ys = "take i xs @ drop (Suc i) xs"
  have "set (list_move xs i j) = insert (xs ! i) (set (take j ?ys) \<union> set (drop j ?ys))"
    by (auto simp: list_move_def Let_def)
  also have "\<dots> = insert (xs ! i) (set ?ys)"
    by (metis append_take_drop_id set_append)
  also have "\<dots> = set xs"
    using assms by (subst (4) list_move_split [OF assms]) auto
  finally show ?thesis .
qed

lemma length_list_move [simp, qlist_simps]:
  "i < length xs \<Longrightarrow> length (list_move xs i j) = length xs"
  by (auto simp: list_move_def Let_def)

lemma distinct_list_move:
  assumes "distinct xs" "i < length xs"
  shows "distinct (list_move xs i j)"
  using assms by (metis card_distinct distinct_card length_list_move set_list_move)

lemma map_list_move: "i < length xs \<Longrightarrow> map f (list_move xs i j) = list_move (map f xs) i j"
  by (simp add: list_move_def Let_def take_map drop_map)

lemma list_move_nth_dest:
  assumes "i < length xs" "j < length xs"
  shows "list_move xs i j ! j = xs ! i"
  using assms by (auto simp: list_move_def Let_def nth_append min_def)

lemma find_in_set: "List.find P xs = Some x \<Longrightarrow> x \<in> set xs \<and> P x"
  by (auto simp: find_Some_iff)

lemma set_removeAll_iff [qlist_simps]: "y \<in> set (removeAll x xs) \<longleftrightarrow> y \<in> set xs \<and> y \<noteq> x"
  by auto

lemma distinct_remove1_set [qlist_simps]:
  "distinct xs \<Longrightarrow> set (remove1 x xs) = set xs - {x}"
  by simp

lemma remove1_append_new [qlist_simps]: "x \<notin> set xs \<Longrightarrow> remove1 x (xs @ [x]) = xs"
  by (simp add: remove1_append)

section \<open>Texts\<close>

text \<open>\<^verbatim>\<open>QString::number\<close> of a natural number, and \<^verbatim>\<open>QString::split\<close> at a character.\<close>

fun nat_digits :: "nat \<Rightarrow> string" where
  "nat_digits n = (if n < 10 then [char_of (48 + n)] else nat_digits (n div 10) @ [char_of (48 + n mod 10)])"

fun split_at :: "char \<Rightarrow> string \<Rightarrow> string list" where
    "split_at c [] = [[]]"
  | "split_at c (x # xs) = (if x = c then [] # split_at c xs
       else case split_at c xs of [] \<Rightarrow> [[x]] | l # ls \<Rightarrow> (x # l) # ls)"

section \<open>Folding an operation over a list of arguments\<close>

fun rfold :: "('x \<Rightarrow> 's \<Rightarrow> 's result) \<Rightarrow> 'x list \<Rightarrow> 's \<Rightarrow> 's result" where
  "rfold f [] s = Inr s"
| "rfold f (x # xs) s = rbind (f x s) (rfold f xs)"

lemma rfold_append: "rfold f (xs @ ys) s = rbind (rfold f xs s) (rfold f ys)"
proof (induction xs arbitrary: s)
  case Nil
  then show ?case by simp
next
  case (Cons x xs)
  then show ?case by (cases "f x s") simp_all
qed

lemma rfold_invariant:
  assumes "rfold f xs s = Inr t" "P s"
    and "\<And>x s t. x \<in> set xs \<Longrightarrow> P s \<Longrightarrow> f x s = Inr t \<Longrightarrow> P t"
  shows "P t"
  using assms
proof (induction xs arbitrary: s)
  case Nil
  then show ?case by simp
next
  case (Cons x xs)
  then obtain s' where "f x s = Inr s'" "rfold f xs s' = Inr t"
    by (auto elim: rbind_InrE)
  with Cons show ?case by (metis list.set_intros)
qed

lemma fold_invariant_set:
  assumes "P s" and "\<And>x s. x \<in> set xs \<Longrightarrow> P s \<Longrightarrow> P (f x s)"
  shows "P (fold f xs s)"
  using assms by (induction xs arbitrary: s) auto

end
