(* ===== verification/Surface_Model.thy ===== *)
theory Surface_Model
  imports Treeland_Prelude
begin

unbundle bit_operations_syntax

text \<open>
  The part of \<^verbatim>\<open>SurfaceWrapper\<close> (src/src/surface/surfacewrapper.cpp) that window management
  relies on: the fields the workspace, container and focus code read and write, with the
  setters that change them. Wrappers are identified by natural numbers (their addresses) and
  live in a store \<open>wrappers\<close>. Every Qt signal and every call into a part that is not
  modelled is appended to \<open>trace\<close>, in program order.
\<close>

type_synonym sid = nat
type_synonym cid = nat

datatype surface_type =
  XdgToplevel | XdgPopup | XWayland | Layer | InputPopup | LockScreen | SplashScreen

datatype surface_role = NormalRole | Overlay | PrivilegedOverlay

record swrapper =
  sw_type :: surface_type
  sw_role :: surface_role
  sw_workspaceId :: int
  sw_hideByWorkspace :: bool
  sw_opacity :: real
  sw_visible :: bool
  sw_container :: "cid option"
  sw_qparent :: "cid option"
  sw_parentSurface :: "sid option"
  sw_subSurfaces :: "sid list"
  sw_modal :: bool
  sw_mapped :: bool
  sw_minimized :: bool
  sw_splash :: "bool option"  \<comment> \<open>the prelaunch splash item, with its visibility\<close>
  sw_socketEnabled :: bool
  sw_hideByshowDesk :: bool
  sw_confirmHideByLockScreen :: bool
  sw_inSession :: bool
  sw_aboutToRemove :: bool
  sw_isIMCandidatePanel :: bool
  sw_isSnapMask :: bool
  sw_skipSwitcher :: bool
  sw_shellSurface :: bool
  sw_appId :: string
  sw_activeStates :: "16 word"
  sw_focusStates :: "16 word"
  sw_isActivated :: bool
  sw_attention :: bool
  sw_ownsOutput :: "nat option"

datatype effect =
    WorkspaceIdChanged sid | ShowOnAllWorkspaceChanged sid | ContainerChanged sid
  | ActivationRequested sid | InactivationRequested sid | HasInitializeContainerChanged sid
  | OpenAnimation sid | IsActivatedChanged sid | AttentionOff sid | UpdateActiveState sid
  | ListSurfaceAdded cid sid | ListSurfaceRemoved cid sid
  | ContainerSurfaceAdded cid sid | ContainerSurfaceRemoved cid sid
  | ModelSurfaceAdded int sid | ModelSurfaceRemoved int sid
  | NameChanged int | VisibleChanged int | OpaqueChanged int
  | CurrentIndexChanged | CurrentChanged | CountChanged | WorkspaceAdded
  | DismissAllPopups | CreateSwitcher | RaiseSwitcher | DeleteSwitcher | DeleteModel int
  | UpdateStackingLayer sid | EnsureAboveParent sid
  | StackToLast sid | RestackX11 sid
  | ActivatedSurfaceChanged nat "sid option"
  | OutputRemoveSurface nat sid | OutputAddSurface nat sid | OwnsOutputChanged sid
  | SetupSurfaceRequestHandlers sid | UpdateSurfaceOutputs sid
  | HasFocusCapabilityChanged sid | AbortGeometryAnimation sid | ShellSetMinimize sid bool
  | StartMinimizeAnimation sid bool | SetDesktopState bool | ShowDesktopStateChanged
  | StartShowDesktopAnimation sid bool | AttentionChanged sid | EndKeyboardGrab nat
  | DiscardPendingRect | AssociatePendingRect sid sid
  | SetFocus sid bool | SeatKeyboardFocus nat "sid option" | UpdateInteraction sid nat

record scene =
  wrappers :: "sid \<Rightarrow> swrapper"
  trace :: "effect list"

definition emit :: "effect \<Rightarrow> 'a scene_scheme \<Rightarrow> 'a scene_scheme" where
  "emit e s = s\<lparr>trace := trace s @ [e]\<rparr>"

definition mod_wrapper :: "(swrapper \<Rightarrow> swrapper) \<Rightarrow> sid \<Rightarrow> 'a scene_scheme \<Rightarrow> 'a scene_scheme" where
  "mod_wrapper f x s = s\<lparr>wrappers := (wrappers s)(x := f (wrappers s x))\<rparr>"

section \<open>Identifiers and flags\<close>

definition ShowOnAllWorkspaceId :: int where
  "ShowOnAllWorkspaceId = - 2"

definition MappedOrSplash :: "16 word" where "MappedOrSplash = 1"
definition UnMinimized :: "16 word" where "UnMinimized = 2"
definition HasInitializeContainer :: "16 word" where "HasInitializeContainer = 4"
definition HasActivateCapability :: "16 word" where "HasActivateCapability = 8"
definition FullStates :: "16 word" where "FullStates = 15"
definition AcceptKeyboardFocus :: "16 word" where "AcceptKeyboardFocus = 4"

text \<open>\<^verbatim>\<open>QFlags::setFlag\<close> and \<^verbatim>\<open>QFlags::testFlag\<close>.\<close>

definition setFlag :: "16 word \<Rightarrow> 16 word \<Rightarrow> bool \<Rightarrow> 16 word" where
  "setFlag flags f on = (if on then flags OR f else flags AND NOT f)"

definition testFlag :: "16 word \<Rightarrow> 16 word \<Rightarrow> bool" where
  "testFlag flags f = (flags AND f = f \<and> (f \<noteq> 0 \<or> flags = f))"

section \<open>Queries\<close>

definition hasActiveCapability :: "swrapper \<Rightarrow> bool" where
  "hasActiveCapability w = (sw_activeStates w = FullStates)"

definition hasFocusCapability :: "swrapper \<Rightarrow> bool" where
  "hasFocusCapability w = (sw_focusStates w = FullStates)"

definition acceptKeyboardFocus :: "swrapper \<Rightarrow> bool" where
  "acceptKeyboardFocus w = testFlag (sw_focusStates w) AcceptKeyboardFocus"

definition hasInitializeContainer :: "swrapper \<Rightarrow> bool" where
  "hasInitializeContainer w = testFlag (sw_activeStates w) HasInitializeContainer"

definition isInputPopupLike :: "swrapper \<Rightarrow> bool" where
  "isInputPopupLike w = (sw_type w = InputPopup \<or> sw_isIMCandidatePanel w)"

definition showOnAllWorkspace :: "swrapper \<Rightarrow> bool" where
  "showOnAllWorkspace w =
     (if sw_type w = Layer \<or> sw_type w = XdgPopup \<or> isInputPopupLike w \<or> sw_isSnapMask w
         \<or> sw_role w = PrivilegedOverlay
      then True
      else sw_workspaceId w = ShowOnAllWorkspaceId)"

definition showOnWorkspace :: "swrapper \<Rightarrow> int \<Rightarrow> bool" where
  "showOnWorkspace w i = (if sw_workspaceId w = i then True else showOnAllWorkspace w)"

section \<open>Setters\<close>

definition updateVisible :: "sid \<Rightarrow> 'a scene_scheme \<Rightarrow> 'a scene_scheme" where
  "updateVisible x s =
     (let w = wrappers s x in
      if sw_aboutToRemove w then s
      else mod_wrapper (\<lambda>w. w\<lparr>sw_visible :=
             (\<not> sw_hideByWorkspace w \<and> \<not> sw_minimized w
              \<and> (sw_mapped w \<or> sw_splash w = Some True)
              \<and> sw_socketEnabled w \<and> sw_hideByshowDesk w \<and> \<not> sw_confirmHideByLockScreen w
              \<and> sw_inSession w)\<rparr>) x s)"

definition setHideByWorkspace :: "bool \<Rightarrow> sid \<Rightarrow> 'a scene_scheme \<Rightarrow> 'a scene_scheme" where
  "setHideByWorkspace hide x s =
     (if sw_hideByWorkspace (wrappers s x) = hide then s
      else updateVisible x (mod_wrapper (\<lambda>w. w\<lparr>sw_hideByWorkspace := hide\<rparr>) x s))"

definition setOpacity :: "real \<Rightarrow> sid \<Rightarrow> 'a scene_scheme \<Rightarrow> 'a scene_scheme" where
  "setOpacity v x s = mod_wrapper (\<lambda>w. w\<lparr>sw_opacity := v\<rparr>) x s"

definition setWorkspaceId :: "int \<Rightarrow> sid \<Rightarrow> 'a scene_scheme \<Rightarrow> 'a scene_scheme" where
  "setWorkspaceId i x s =
     (let old = sw_workspaceId (wrappers s x) in
      if old = i then s
      else
        let changed = ((old = ShowOnAllWorkspaceId) \<noteq> (i = ShowOnAllWorkspaceId));
            s = mod_wrapper (\<lambda>w. w\<lparr>sw_workspaceId := i\<rparr>) x s;
            s = (if changed then emit (ShowOnAllWorkspaceChanged x) s else s)
        in emit (WorkspaceIdChanged x) s)"

definition setContainer :: "cid option \<Rightarrow> sid \<Rightarrow> 'a scene_scheme \<Rightarrow> 'a scene_scheme" where
  "setContainer c x s =
     (if sw_container (wrappers s x) = c then s
      else emit (ContainerChanged x) (mod_wrapper (\<lambda>w. w\<lparr>sw_container := c\<rparr>) x s))"

definition setQParent :: "cid \<Rightarrow> sid \<Rightarrow> 'a scene_scheme \<Rightarrow> 'a scene_scheme" where
  "setQParent c x s = mod_wrapper (\<lambda>w. w\<lparr>sw_qparent := Some c\<rparr>) x s"

definition updateHasActiveCapability ::
  "16 word \<Rightarrow> bool \<Rightarrow> sid \<Rightarrow> 'a scene_scheme \<Rightarrow> 'a scene_scheme" where
  "updateHasActiveCapability state v x s =
     (let old = hasActiveCapability (wrappers s x);
          s = mod_wrapper (\<lambda>w. w\<lparr>sw_activeStates := setFlag (sw_activeStates w) state v\<rparr>) x s;
          new = hasActiveCapability (wrappers s x)
      in if old = new then s
         else if new then emit (ActivationRequested x) s
         else emit (InactivationRequested x) s)"

definition setHasInitializeContainer ::
  "bool \<Rightarrow> sid \<Rightarrow> 'a scene_scheme \<Rightarrow> 'a scene_scheme result" where
  "setHasInitializeContainer v x s =
     rbind (qassert (\<not> v \<or> sw_container (wrappers s x) \<noteq> None)) (\<lambda>_.
       let s = updateHasActiveCapability HasInitializeContainer v x s;
           s = emit (HasInitializeContainerChanged x) s
       in Inr (if sw_splash (wrappers s x) \<noteq> None \<and> v then emit (OpenAnimation x) s else s))"

definition addSubSurface :: "sid \<Rightarrow> sid \<Rightarrow> 'a scene_scheme \<Rightarrow> 'a scene_scheme result" where
  "addSubSurface p x s =
     rbind (qassert (sw_parentSurface (wrappers s x) = None)) (\<lambda>_.
       let s = mod_wrapper (\<lambda>w. w\<lparr>sw_parentSurface := Some p\<rparr>) x s;
           s = emit (UpdateStackingLayer x) s;
           s = mod_wrapper (\<lambda>w. w\<lparr>sw_subSurfaces := sw_subSurfaces w @ [x]\<rparr>) p s
       in Inr (emit (EnsureAboveParent x) s))"

definition removeSubSurface :: "sid \<Rightarrow> sid \<Rightarrow> 'a scene_scheme \<Rightarrow> 'a scene_scheme result" where
  "removeSubSurface p x s =
     rbind (qassert (sw_parentSurface (wrappers s x) = Some p)) (\<lambda>_.
       let s = mod_wrapper (\<lambda>w. w\<lparr>sw_parentSurface := None\<rparr>) x s;
           s = emit (UpdateStackingLayer x) s
       in Inr (mod_wrapper (\<lambda>w. w\<lparr>sw_subSurfaces := remove1 x (sw_subSurfaces w)\<rparr>) p s))"

definition setActivate :: "bool \<Rightarrow> sid \<Rightarrow> 'a scene_scheme \<Rightarrow> 'a scene_scheme result" where
  "setActivate on x s =
     (let w = wrappers s x in
      if sw_aboutToRemove w then Inr s
      else if sw_isActivated w = on then Inr s
      else rbind (qassert (\<not> on \<or> hasActiveCapability w)) (\<lambda>_.
        let s = mod_wrapper (\<lambda>w. w\<lparr>sw_isActivated := on\<rparr>) x s;
            s = (if sw_attention w \<and> on
                 then emit (AttentionOff x) (mod_wrapper (\<lambda>w. w\<lparr>sw_attention := False\<rparr>) x s) else s);
            s = (if sw_shellSurface w then emit (UpdateActiveState x) s else s)
        in Inr (emit (IsActivatedChanged x) s)))"

definition setOwnsOutput :: "nat option \<Rightarrow> sid \<Rightarrow> 'a scene_scheme \<Rightarrow> 'a scene_scheme" where
  "setOwnsOutput out x s =
     (let w = wrappers s x in
      if sw_aboutToRemove w then s
      else if sw_ownsOutput w = out then s
      else
        let s = (case sw_ownsOutput w of None \<Rightarrow> s | Some d \<Rightarrow> emit (OutputRemoveSurface d x) s);
            s = mod_wrapper (\<lambda>w. w\<lparr>sw_ownsOutput := out\<rparr>) x s;
            s = (case out of None \<Rightarrow> s | Some d \<Rightarrow> emit (OutputAddSurface d x) s)
        in emit (OwnsOutputChanged x) s)"

text \<open>
  \<open>findModal\<close> walks the tree of transient children. The children lists are finite but the
  store does not rule out a cycle, so the walk carries fuel; \<open>findModal_enough\<close> below shows
  how much suffices. \<open>Inl OutOfFuel\<close> is the recursion that does not end.
\<close>

fun findModal :: "nat \<Rightarrow> (sid \<Rightarrow> swrapper) \<Rightarrow> sid \<Rightarrow> sid option result"
  and findModalIn :: "nat \<Rightarrow> (sid \<Rightarrow> swrapper) \<Rightarrow> sid list \<Rightarrow> sid option result" where
  "findModal 0 h x = Inl OutOfFuel"
| "findModal (Suc n) h x =
     (if sw_aboutToRemove (h x) then Inr None else findModalIn n h (sw_subSurfaces (h x)))"
| "findModalIn n h [] = Inr None"
| "findModalIn n h (c # cs) =
     (if sw_aboutToRemove (h c) then findModalIn n h cs
      else if \<not> sw_mapped (h c) then findModalIn n h cs
      else rbind (findModal n h c) (\<lambda>deep.
        case deep of
          Some m \<Rightarrow> Inr (Some m)
        | None \<Rightarrow> (if sw_modal (h c) then Inr (Some c) else findModalIn n h cs)))"

section \<open>Facts about the setters\<close>

named_theorems scene_simps \<open>what the setters do to the store\<close>

lemma wrappers_emit [simp, scene_simps]: "wrappers (emit e s) = wrappers s"
  by (simp add: emit_def)

lemma wrappers_mod_wrapper [simp, scene_simps]:
  "wrappers (mod_wrapper f x s) y = (if y = x then f (wrappers s x) else wrappers s y)"
  by (simp add: mod_wrapper_def)

lemma emit_mod_wrapper [scene_simps]: "mod_wrapper f x (emit e s) = emit e (mod_wrapper f x s)"
  by (simp add: emit_def mod_wrapper_def)

lemma mod_wrapper_twice [simp, scene_simps]:
  "mod_wrapper f x (mod_wrapper g x s) = mod_wrapper (f \<circ> g) x s"
  by (simp add: mod_wrapper_def)

lemma wrappers_updateVisible:
  "wrappers (updateVisible x s) y =
     (if y = x \<and> \<not> sw_aboutToRemove (wrappers s x)
      then (wrappers s x)\<lparr>sw_visible :=
             (\<not> sw_hideByWorkspace (wrappers s x) \<and> \<not> sw_minimized (wrappers s x)
              \<and> (sw_mapped (wrappers s x) \<or> sw_splash (wrappers s x) = Some True)
              \<and> sw_socketEnabled (wrappers s x) \<and> sw_hideByshowDesk (wrappers s x)
              \<and> \<not> sw_confirmHideByLockScreen (wrappers s x) \<and> sw_inSession (wrappers s x))\<rparr>
      else wrappers s y)"
  by (simp add: updateVisible_def Let_def)

lemma other_setHideByWorkspace [simp, scene_simps]:
  "y \<noteq> x \<Longrightarrow> wrappers (setHideByWorkspace h x s) y = wrappers s y"
  by (simp add: setHideByWorkspace_def wrappers_updateVisible)

lemma setHideByWorkspace_hide [simp, scene_simps]:
  "sw_hideByWorkspace (wrappers (setHideByWorkspace h x s) y) =
     (if y = x then h else sw_hideByWorkspace (wrappers s y))"
  by (simp add: setHideByWorkspace_def wrappers_updateVisible)

lemma setHideByWorkspace_frame [simp, scene_simps]:
  "sw_workspaceId (wrappers (setHideByWorkspace h x s) y) = sw_workspaceId (wrappers s y)"
  "sw_container (wrappers (setHideByWorkspace h x s) y) = sw_container (wrappers s y)"
  "sw_opacity (wrappers (setHideByWorkspace h x s) y) = sw_opacity (wrappers s y)"
  "sw_subSurfaces (wrappers (setHideByWorkspace h x s) y) = sw_subSurfaces (wrappers s y)"
  "sw_parentSurface (wrappers (setHideByWorkspace h x s) y) = sw_parentSurface (wrappers s y)"
  "sw_modal (wrappers (setHideByWorkspace h x s) y) = sw_modal (wrappers s y)"
  "sw_type (wrappers (setHideByWorkspace h x s) y) = sw_type (wrappers s y)"
  "sw_activeStates (wrappers (setHideByWorkspace h x s) y) = sw_activeStates (wrappers s y)"
  "sw_role (wrappers (setHideByWorkspace h x s) y) = sw_role (wrappers s y)"
  "sw_isIMCandidatePanel (wrappers (setHideByWorkspace h x s) y) = sw_isIMCandidatePanel (wrappers s y)"
  "sw_isSnapMask (wrappers (setHideByWorkspace h x s) y) = sw_isSnapMask (wrappers s y)"
  by (simp_all add: setHideByWorkspace_def wrappers_updateVisible)

text \<open>A wrapper hidden by its workspace is not visible, unless it is already being torn down.\<close>

definition hide_respected :: "(sid \<Rightarrow> swrapper) \<Rightarrow> bool" where
  "hide_respected h =
     (\<forall>x. sw_hideByWorkspace (h x) \<longrightarrow> \<not> sw_aboutToRemove (h x) \<longrightarrow> \<not> sw_visible (h x))"

lemma hide_respected_setHide:
  "hide_respected (wrappers s) \<Longrightarrow> hide_respected (wrappers (setHideByWorkspace h x s))"
  by (auto simp: hide_respected_def setHideByWorkspace_def wrappers_updateVisible)

lemma wrappers_setWorkspaceId [simp, scene_simps]:
  "wrappers (setWorkspaceId i x s) y =
     (if y = x then (wrappers s x)\<lparr>sw_workspaceId := i\<rparr> else wrappers s y)"
  by (simp add: setWorkspaceId_def Let_def)

lemma wrappers_setOpacity [simp, scene_simps]:
  "wrappers (setOpacity v x s) y =
     (if y = x then (wrappers s x)\<lparr>sw_opacity := v\<rparr> else wrappers s y)"
  by (simp add: setOpacity_def)

lemma wrappers_setContainer [simp, scene_simps]:
  "wrappers (setContainer c x s) y =
     (if y = x then (wrappers s x)\<lparr>sw_container := c\<rparr> else wrappers s y)"
  by (simp add: setContainer_def)

lemma wrappers_setQParent [simp, scene_simps]:
  "wrappers (setQParent c x s) y =
     (if y = x then (wrappers s x)\<lparr>sw_qparent := Some c\<rparr> else wrappers s y)"
  by (simp add: setQParent_def)

lemma wrappers_updateHasActiveCapability [simp, scene_simps]:
  "wrappers (updateHasActiveCapability st v x s) y =
     (if y = x then (wrappers s x)\<lparr>sw_activeStates := setFlag (sw_activeStates (wrappers s x)) st v\<rparr>
      else wrappers s y)"
  by (simp add: updateHasActiveCapability_def Let_def)

lemma wrappers_setHasInitializeContainer:
  "setHasInitializeContainer v x s = Inr t \<Longrightarrow>
   wrappers t y =
     (if y = x
      then (wrappers s x)\<lparr>sw_activeStates :=
             setFlag (sw_activeStates (wrappers s x)) HasInitializeContainer v\<rparr>
      else wrappers s y)"
  by (auto simp: setHasInitializeContainer_def Let_def rbind_Inr_iff split: if_splits)

lemma wrappers_setOwnsOutput:
  "wrappers (setOwnsOutput out x s) y =
     (if y = x \<and> \<not> sw_aboutToRemove (wrappers s x) then (wrappers s x)\<lparr>sw_ownsOutput := out\<rparr>
      else wrappers s y)"
  by (simp add: setOwnsOutput_def Let_def split: option.splits)

section \<open>What no setter touches\<close>

text \<open>The setters work on the wrappers and the trace; whatever a component adds to the scene is
  in \<open>scene.more\<close> and stays.\<close>

lemma more_setters [simp, scene_simps]:
  "scene.more (emit e s) = scene.more s"
  "scene.more (mod_wrapper f x s) = scene.more s"
  "scene.more (updateVisible x s) = scene.more s"
  "scene.more (setHideByWorkspace h x s) = scene.more s"
  "scene.more (setOpacity v x s) = scene.more s"
  "scene.more (setWorkspaceId i x s) = scene.more s"
  "scene.more (setContainer c x s) = scene.more s"
  "scene.more (setQParent d x s) = scene.more s"
  "scene.more (setOwnsOutput out x s) = scene.more s"
  "scene.more (updateHasActiveCapability st b x s) = scene.more s"
  by (simp_all add: emit_def mod_wrapper_def updateVisible_def setHideByWorkspace_def setOpacity_def
      setWorkspaceId_def setContainer_def setQParent_def setOwnsOutput_def
      updateHasActiveCapability_def Let_def split: option.splits)

lemma more_setHasInitializeContainer:
  "setHasInitializeContainer v x s = Inr t \<Longrightarrow> scene.more t = scene.more s"
  by (auto simp: setHasInitializeContainer_def Let_def rbind_Inr_iff split: if_splits)

lemma more_setActivate: "setActivate on x s = Inr t \<Longrightarrow> scene.more t = scene.more s"
  by (auto simp: setActivate_def Let_def rbind_Inr_iff split: if_splits)

lemma more_fold:
  "(\<And>x s. x \<in> set xs \<Longrightarrow> scene.more (f x s) = scene.more s) \<Longrightarrow> scene.more (fold f xs s) = scene.more s"
  by (induction xs arbitrary: s) auto

section \<open>Enough fuel for the modal search\<close>

text \<open>If the children of every wrapper have a smaller rank, a wrapper's rank plus one is
  enough fuel.\<close>

definition ranked :: "(sid \<Rightarrow> nat) \<Rightarrow> (sid \<Rightarrow> swrapper) \<Rightarrow> bool" where
  "ranked r h = (\<forall>x. \<forall>c\<in>set (sw_subSurfaces (h x)). r c < r x)"

lemma findModal_enough:
  shows "ranked r h \<Longrightarrow> r x < n \<Longrightarrow> is_ok (findModal n h x)"
    and "ranked r h \<Longrightarrow> \<forall>c\<in>set cs. r c < n \<Longrightarrow> is_ok (findModalIn n h cs)"
proof (induction n h x and n h cs rule: findModal_findModalIn.induct)
  case (2 n h x)
  then have "\<forall>c\<in>set (sw_subSurfaces (h x)). r c < n" by (fastforce simp: ranked_def)
  with 2 show ?case by simp
next
  case (4 n h c cs)
  show ?case
  proof (cases "sw_aboutToRemove (h c) \<or> \<not> sw_mapped (h c)")
    case True
    with 4 show ?thesis by auto
  next
    case False
    with 4 have "is_ok (findModal n h c)" by simp
    then obtain deep where "findModal n h c = Inr deep" by (cases "findModal n h c") auto
    with False 4 show ?thesis by (cases deep) auto
  qed
qed simp_all

end
