(* ===== verification/Surface_Container.thy ===== *)
theory Surface_Container
  imports Surface_Model
begin

text \<open>
  src/src/surface/surfacecontainer.h and .cpp: the list model every surface list is built on
  (\<^verbatim>\<open>ObjectListModel\<close>), the filtered view of such a list (\<^verbatim>\<open>SurfaceFilterModel\<close>), and the tree of
  containers in which a surface added to a container is added to every ancestor
  (\<^verbatim>\<open>SurfaceContainer::doAddSurface\<close>, \<^verbatim>\<open>doRemoveSurface\<close>).
\<close>

section \<open>ObjectListModel\<close>

definition addObject :: "'a \<Rightarrow> 'a list \<Rightarrow> bool \<times> 'a list" where
  "addObject x xs = (if x \<in> set xs then (False, xs) else (True, xs @ [x]))"

definition removeObject :: "'a \<Rightarrow> 'a list \<Rightarrow> bool \<times> 'a list" where
  "removeObject x xs =
     (let i = index_of xs x in
      if i < 0 then (False, xs)
      else (True, take (nat i) xs @ drop (Suc (nat i)) xs))"

definition hasObject :: "'a \<Rightarrow> 'a list \<Rightarrow> bool" where
  "hasObject x xs = (x \<in> set xs)"

lemma takeWhile_drop_remove1:
  "x \<in> set xs \<Longrightarrow>
   take (length (takeWhile (\<lambda>y. y \<noteq> x) xs)) xs
     @ drop (Suc (length (takeWhile (\<lambda>y. y \<noteq> x) xs))) xs = remove1 x xs"
  by (induction xs) auto

lemma removeObject_eq: "removeObject x xs = (x \<in> set xs, remove1 x xs)"
  by (cases "x \<in> set xs")
    (simp_all add: removeObject_def index_of_def takeWhile_drop_remove1 remove1_idem Let_def)

text \<open>What a list model promises to its users.\<close>

locale list_model =
  fixes add :: "'a \<Rightarrow> 'l \<Rightarrow> bool \<times> 'l"
    and remove :: "'a \<Rightarrow> 'l \<Rightarrow> bool \<times> 'l"
    and has :: "'a \<Rightarrow> 'l \<Rightarrow> bool"
    and rows :: "'l \<Rightarrow> 'a list"
  assumes add_flag: "fst (add x l) = (x \<notin> set (rows l))"
    and add_rows: "rows (snd (add x l)) = (if x \<in> set (rows l) then rows l else rows l @ [x])"
    and remove_flag: "fst (remove x l) = (x \<in> set (rows l))"
    and remove_rows: "rows (snd (remove x l)) = remove1 x (rows l)"
    and has_rows: "has x l = (x \<in> set (rows l))"
begin

lemma rows_distinct_add: "distinct (rows l) \<Longrightarrow> distinct (rows (snd (add x l)))"
  by (simp add: add_rows)

lemma rows_distinct_remove: "distinct (rows l) \<Longrightarrow> distinct (rows (snd (remove x l)))"
  by (simp add: remove_rows)

lemma rows_add_remove: "fst (add x l) \<Longrightarrow> rows (snd (remove x (snd (add x l)))) = rows l"
  by (simp add: add_flag add_rows remove_rows remove1_append_new)

lemma has_after_add: "has y (snd (add x l)) \<longleftrightarrow> y = x \<or> has y l"
  by (auto simp: has_rows add_rows)

lemma has_after_remove:
  "distinct (rows l) \<Longrightarrow> has y (snd (remove x l)) \<longleftrightarrow> y \<noteq> x \<and> has y l"
  by (auto simp: has_rows remove_rows)

lemma second_add_refused: "\<not> fst (add x (snd (add x l)))"
  by (simp add: add_flag add_rows)

end

interpretation olm: list_model addObject removeObject hasObject "\<lambda>xs. xs"
  by unfold_locales (auto simp: addObject_def removeObject_eq hasObject_def)

section \<open>SurfaceFilterModel\<close>

text \<open>
  A filter is a predicate over the current world (whatever the bound property depends on).
  \<open>f_props\<close> holds the value of each bound \<^verbatim>\<open>QProperty\<close>; binding evaluates the filter, and a
  change of value runs the notifier, which is \<open>updateSurfaceVisibility\<close>.
\<close>

record 'w filter_model =
  f_source :: "sid list"
  f_list :: "sid list"
  f_filter :: "('w \<Rightarrow> sid \<Rightarrow> bool) option"
  f_props :: "sid \<Rightarrow> bool option"

definition updateSurfaceVisibility :: "sid \<Rightarrow> 'w filter_model \<Rightarrow> 'w filter_model result" where
  "updateSurfaceVisibility x m =
     (case f_filter m of
        None \<Rightarrow> if hasObject x (f_list m) then Inr m
                else Inr (m\<lparr>f_list := snd (addObject x (f_list m))\<rparr>)
      | Some _ \<Rightarrow>
          (case f_props m x of
             None \<Rightarrow> Inl QAssert
           | Some v \<Rightarrow>
               rbind (qassert (hasObject x (f_source m))) (\<lambda>_.
                 Inr (if v then m\<lparr>f_list := snd (addObject x (f_list m))\<rparr>
                      else m\<lparr>f_list := snd (removeObject x (f_list m))\<rparr>))))"

definition bindProperty :: "'w \<Rightarrow> ('w \<Rightarrow> sid \<Rightarrow> bool) \<Rightarrow> sid \<Rightarrow> 'w filter_model \<Rightarrow> 'w filter_model result" where
  "bindProperty w f x m =
     (let old = (case f_props m x of None \<Rightarrow> False | Some v \<Rightarrow> v);
          m = m\<lparr>f_props := (f_props m)(x := Some (f w x))\<rparr>
      in if old = f w x then Inr m else updateSurfaceVisibility x m)"

definition initForSourceSurface :: "'w \<Rightarrow> sid \<Rightarrow> 'w filter_model \<Rightarrow> 'w filter_model result" where
  "initForSourceSurface w x m =
     rbind (case f_filter m of None \<Rightarrow> Inr m | Some f \<Rightarrow> bindProperty w f x m)
       (updateSurfaceVisibility x)"

definition setFilter ::
  "'w \<Rightarrow> ('w \<Rightarrow> sid \<Rightarrow> bool) option \<Rightarrow> 'w filter_model \<Rightarrow> 'w filter_model result" where
  "setFilter w f m =
     (let m = m\<lparr>f_filter := f, f_props := (\<lambda>_. None)\<rparr>
      in rfold (initForSourceSurface w) (f_source m) m)"

definition sourceSurfaceAdded :: "'w \<Rightarrow> sid \<Rightarrow> 'w filter_model \<Rightarrow> 'w filter_model result" where
  "sourceSurfaceAdded w x m =
     (let (added, src) = addObject x (f_source m); m = m\<lparr>f_source := src\<rparr>
      in if added then initForSourceSurface w x m else Inr m)"

definition sourceSurfaceRemoved :: "sid \<Rightarrow> 'w filter_model \<Rightarrow> 'w filter_model" where
  "sourceSurfaceRemoved x m =
     (let (removed, src) = removeObject x (f_source m); m = m\<lparr>f_source := src\<rparr>
      in if removed
         then m\<lparr>f_list := snd (removeObject x (f_list m)), f_props := (f_props m)(x := None)\<rparr>
         else m)"

text \<open>A property the binding of \<open>x\<close> depends on changed: Qt evaluates the binding again.\<close>

definition reevaluate :: "'w \<Rightarrow> sid \<Rightarrow> 'w filter_model \<Rightarrow> 'w filter_model result" where
  "reevaluate w x m =
     (case (f_filter m, f_props m x) of
        (Some f, Some v) \<Rightarrow> bindProperty w f x m
      | _ \<Rightarrow> Inr m)"

definition filter_shape :: "'w filter_model \<Rightarrow> bool" where
  "filter_shape m =
     (distinct (f_source m) \<and> distinct (f_list m) \<and> set (f_list m) \<subseteq> set (f_source m))"

definition shown_right :: "'w \<Rightarrow> 'w filter_model \<Rightarrow> sid \<Rightarrow> bool" where
  "shown_right w m x =
     (case f_filter m of
        None \<Rightarrow> x \<in> set (f_list m)
      | Some f \<Rightarrow> f_props m x = Some (f w x) \<and> (x \<in> set (f_list m) \<longleftrightarrow> f w x))"

definition filter_ok :: "'w \<Rightarrow> 'w filter_model \<Rightarrow> bool" where
  "filter_ok w m = (filter_shape m \<and> (\<forall>x\<in>set (f_source m). shown_right w m x))"

lemmas filter_model_defs = bindProperty_def updateSurfaceVisibility_def shown_right_def
  filter_shape_def addObject_def removeObject_eq hasObject_def Let_def

lemma initForSourceSurface_spec:
  assumes "filter_shape m" "x \<in> set (f_source m)"
  shows "\<exists>m'. initForSourceSurface w x m = Inr m' \<and> filter_shape m'
    \<and> f_source m' = f_source m \<and> f_filter m' = f_filter m \<and> shown_right w m' x
    \<and> (\<forall>y. y \<noteq> x \<longrightarrow> shown_right w m' y = shown_right w m y)"
  using assms
  by (cases "f_filter m")
    (auto simp: initForSourceSurface_def filter_model_defs split: option.splits)

lemma rfold_init_spec:
  assumes "filter_shape m" "set xs \<subseteq> set (f_source m)"
  shows "\<exists>m'. rfold (initForSourceSurface w) xs m = Inr m' \<and> filter_shape m'
    \<and> f_source m' = f_source m \<and> f_filter m' = f_filter m
    \<and> (\<forall>x\<in>set xs. shown_right w m' x)
    \<and> (\<forall>y. y \<notin> set xs \<longrightarrow> shown_right w m' y = shown_right w m y)"
  using assms
proof (induction xs arbitrary: m)
  case Nil
  then show ?case by simp
next
  case (Cons x xs)
  then have "x \<in> set (f_source m)" by simp
  from initForSourceSurface_spec [OF Cons.prems(1) this, of w]
  obtain m1 where m1: "initForSourceSurface w x m = Inr m1" "filter_shape m1"
    "f_source m1 = f_source m" "f_filter m1 = f_filter m" "shown_right w m1 x"
    "\<forall>y. y \<noteq> x \<longrightarrow> shown_right w m1 y = shown_right w m y"
    by blast
  with Cons.prems have "set xs \<subseteq> set (f_source m1)" by simp
  with Cons.IH m1(2) obtain m2 where "rfold (initForSourceSurface w) xs m1 = Inr m2"
    "filter_shape m2" "f_source m2 = f_source m1" "f_filter m2 = f_filter m1"
    "\<forall>x\<in>set xs. shown_right w m2 x"
    "\<forall>y. y \<notin> set xs \<longrightarrow> shown_right w m2 y = shown_right w m1 y" by blast
  with m1 show ?case by (intro exI [of _ m2]) auto
qed

lemma setFilter_ok:
  assumes "filter_shape m"
  shows "\<exists>m'. setFilter w f m = Inr m' \<and> filter_ok w m' \<and> f_source m' = f_source m"
proof -
  let ?m = "m\<lparr>f_filter := f, f_props := (\<lambda>_. None)\<rparr>"
  have "filter_shape ?m" using assms by (simp add: filter_shape_def)
  from rfold_init_spec [OF this, of "f_source m" w] show ?thesis
    by (auto simp: setFilter_def filter_ok_def)
qed

lemma sourceSurfaceAdded_ok:
  assumes ok: "filter_ok w m"
  shows "\<exists>m'. sourceSurfaceAdded w x m = Inr m' \<and> filter_ok w m'
    \<and> f_source m' = snd (addObject x (f_source m))"
proof (cases "x \<in> set (f_source m)")
  case True
  with ok show ?thesis by (simp add: sourceSurfaceAdded_def addObject_def)
next
  case False
  let ?m = "m\<lparr>f_source := f_source m @ [x]\<rparr>"
  have "filter_shape ?m" "x \<in> set (f_source ?m)"
    using ok False by (auto simp: filter_ok_def filter_shape_def)
  from initForSourceSurface_spec [OF this, of w]
  obtain m' where m': "initForSourceSurface w x ?m = Inr m'" "filter_shape m'"
    "f_source m' = f_source ?m" "shown_right w m' x"
    "\<forall>y. y \<noteq> x \<longrightarrow> shown_right w m' y = shown_right w ?m y"
    by blast
  moreover have "shown_right w ?m y = shown_right w m y" for y
    by (simp add: shown_right_def split: option.splits)
  ultimately have "\<forall>y\<in>set (f_source m). shown_right w m' y" using ok False
    by (metis filter_ok_def)
  with m' have "filter_ok w m'" by (simp add: filter_ok_def)
  with m' False show ?thesis by (simp add: sourceSurfaceAdded_def addObject_def)
qed

lemma sourceSurfaceRemoved_ok: "filter_ok w m \<Longrightarrow> filter_ok w (sourceSurfaceRemoved x m)"
  by (auto simp: filter_ok_def sourceSurfaceRemoved_def filter_model_defs split: option.splits)

lemma reevaluate_ok:
  assumes "filter_ok w0 m" "x \<in> set (f_source m)"
    and "\<And>f y. f_filter m = Some f \<Longrightarrow> y \<noteq> x \<Longrightarrow> f w y = f w0 y"
  shows "\<exists>m'. reevaluate w x m = Inr m' \<and> filter_ok w m'"
  using assms
  by (cases "f_filter m")
    (auto simp: reevaluate_def filter_ok_def filter_model_defs split: option.splits)

text \<open>The events a filter model lives through; \<open>WorldChange w x\<close> is a change of the state the
  filter reads that affects at most the surface \<open>x\<close>.\<close>

datatype 'w filter_event =
  SetFilter "('w \<Rightarrow> sid \<Rightarrow> bool) option" | SourceAdded sid | SourceRemoved sid | WorldChange 'w sid

definition filter_step :: "'w filter_event \<Rightarrow> 'w \<times> 'w filter_model \<Rightarrow> ('w \<times> 'w filter_model) result" where
  "filter_step e wm =
     (let (w, m) = wm in
      case e of
        SetFilter f \<Rightarrow> rbind (setFilter w f m) (\<lambda>m. Inr (w, m))
      | SourceAdded x \<Rightarrow> rbind (sourceSurfaceAdded w x m) (\<lambda>m. Inr (w, m))
      | SourceRemoved x \<Rightarrow> Inr (w, sourceSurfaceRemoved x m)
      | WorldChange w' x \<Rightarrow> rbind (reevaluate w' x m) (\<lambda>m. Inr (w', m)))"

fun local_change :: "'w filter_event \<Rightarrow> 'w \<times> 'w filter_model \<Rightarrow> bool" where
  "local_change (WorldChange w' x) (w, m) =
     (x \<in> set (f_source m) \<and> (\<forall>f y. f_filter m = Some f \<longrightarrow> y \<noteq> x \<longrightarrow> f w' y = f w y))"
| "local_change _ _ = True"

text \<open>C3: a \<^verbatim>\<open>SurfaceFilterModel\<close> always shows exactly the surfaces of its source list that pass
  the current filter (all of them when there is none): every event, including replacing the
  filter, runs without a failed assertion and keeps this.\<close>

theorem filter_model_exact:
  assumes "filter_ok w m" "local_change e (w, m)"
  shows "\<exists>w' m'. filter_step e (w, m) = Inr (w', m') \<and> filter_ok w' m'"
proof (cases e)
  case (SetFilter f)
  with assms setFilter_ok [of m w f] show ?thesis by (auto simp: filter_step_def filter_ok_def)
next
  case (SourceAdded x)
  with assms sourceSurfaceAdded_ok [of w m x] show ?thesis by (auto simp: filter_step_def)
next
  case (SourceRemoved x)
  with assms sourceSurfaceRemoved_ok [of w m x] show ?thesis by (auto simp: filter_step_def)
next
  case (WorldChange w' x)
  with assms reevaluate_ok [of w m x w'] show ?thesis by (auto simp: filter_step_def)
qed

definition demo_filter :: "nat filter_model" where
  "demo_filter = \<lparr>f_source = [1, 2, 3], f_list = [3], f_filter = Some (\<lambda>w x. w < x),
     f_props = [1 \<mapsto> False, 2 \<mapsto> False, 3 \<mapsto> True]\<rparr>"

theorem filter_model_exact_witness:
  "filter_ok 2 demo_filter
   \<and> (\<exists>w' m'. filter_step (WorldChange 1 2) (2, demo_filter) = Inr (w', m') \<and> filter_ok w' m')"
proof -
  have ok: "filter_ok 2 demo_filter"
    by (simp add: demo_filter_def filter_ok_def filter_shape_def shown_right_def)
  have lc: "local_change (WorldChange 1 2) (2, demo_filter)"
    by (auto simp: demo_filter_def)
  show ?thesis using ok filter_model_exact [OF ok lc] by simp
qed

section \<open>The container tree\<close>

record container =
  c_parent :: "cid option"
  c_surfaces :: "sid list"

record cscene = scene +
  containers :: "cid \<Rightarrow> container"

definition mod_container ::
  "(container \<Rightarrow> container) \<Rightarrow> cid \<Rightarrow> 'a cscene_scheme \<Rightarrow> 'a cscene_scheme" where
  "mod_container f c s = s\<lparr>containers := (containers s)(c := f (containers s c))\<rparr>"

abbreviation surfaces_of :: "'a cscene_scheme \<Rightarrow> cid \<Rightarrow> sid list" where
  "surfaces_of s c \<equiv> c_surfaces (containers s c)"

abbreviation parent_of :: "'a cscene_scheme \<Rightarrow> cid \<Rightarrow> cid option" where
  "parent_of s c \<equiv> c_parent (containers s c)"

text \<open>
  \<open>doAddSurface\<close> and \<open>doRemoveSurface\<close> climb to the root; the fuel counts levels, and
  \<open>doAddSurface_enough\<close> shows that the depth of the container suffices. The warning about an
  existing QObject parent is only logged and has no effect.
\<close>

fun doAddSurface ::
  "nat \<Rightarrow> cid \<Rightarrow> sid \<Rightarrow> bool \<Rightarrow> 'a cscene_scheme \<Rightarrow> (bool \<times> 'a cscene_scheme) result" where
  "doAddSurface 0 c x set_container s = Inl OutOfFuel"
| "doAddSurface (Suc n) c x set_container s =
     (if hasObject x (surfaces_of s c) then Inr (False, s)
      else
        rbind (if set_container
               then rbind (qassert (sw_container (wrappers s x) = None)) (\<lambda>_.
                      Inr (setQParent c x (setContainer (Some c) x s)))
               else Inr s) (\<lambda>s.
        let s = mod_container (\<lambda>k. k\<lparr>c_surfaces := snd (addObject x (c_surfaces k))\<rparr>) c s;
            s = emit (ListSurfaceAdded c x) s;
            s = emit (ContainerSurfaceAdded c x) s
        in case parent_of s c of
             None \<Rightarrow> Inr (True, s)
           | Some p \<Rightarrow> rbind (doAddSurface n p x False s) (\<lambda>(_, s). Inr (True, s))))"

fun doRemoveSurface ::
  "nat \<Rightarrow> cid \<Rightarrow> sid \<Rightarrow> bool \<Rightarrow> 'a cscene_scheme \<Rightarrow> (bool \<times> 'a cscene_scheme) result" where
  "doRemoveSurface 0 c x set_container s = Inl OutOfFuel"
| "doRemoveSurface (Suc n) c x set_container s =
     (if \<not> hasObject x (surfaces_of s c) then Inr (False, s)
      else
        rbind (if set_container
               then rbind (qassert (sw_container (wrappers s x) = Some c)) (\<lambda>_.
                      Inr (setContainer None x s))
               else Inr s) (\<lambda>s.
        let s = mod_container (\<lambda>k. k\<lparr>c_surfaces := snd (removeObject x (c_surfaces k))\<rparr>) c s;
            s = emit (ListSurfaceRemoved c x) s;
            s = emit (ContainerSurfaceRemoved c x) s
        in case parent_of s c of
             None \<Rightarrow> Inr (True, s)
           | Some p \<Rightarrow> rbind (doRemoveSurface n p x False s) (\<lambda>(_, s). Inr (True, s))))"

definition container_addSurface ::
  "nat \<Rightarrow> cid \<Rightarrow> sid \<Rightarrow> 'a cscene_scheme \<Rightarrow> 'a cscene_scheme result" where
  "container_addSurface n c x s = rbind (doAddSurface n c x True s) (\<lambda>(_, s). Inr s)"

definition container_removeSurface ::
  "nat \<Rightarrow> cid \<Rightarrow> sid \<Rightarrow> 'a cscene_scheme \<Rightarrow> 'a cscene_scheme result" where
  "container_removeSurface n c x s = rbind (doRemoveSurface n c x True s) (\<lambda>(_, s). Inr s)"

text \<open>The root container is reached by following parents.\<close>

fun rootContainer :: "nat \<Rightarrow> 'a cscene_scheme \<Rightarrow> cid \<Rightarrow> cid result" where
  "rootContainer 0 s c = Inl OutOfFuel"
| "rootContainer (Suc n) s c =
     (case parent_of s c of None \<Rightarrow> Inr c | Some p \<Rightarrow> rootContainer n s p)"

text \<open>Ancestors (a container is its own ancestor), and the tree discipline: a surface is in
  the lists of exactly its container and that container's ancestors, once in each.\<close>

inductive ancestor :: "(cid \<Rightarrow> container) \<Rightarrow> cid \<Rightarrow> cid \<Rightarrow> bool" for k where
  ancestor_self: "ancestor k c c"
| ancestor_up: "c_parent (k c) = Some p \<Longrightarrow> ancestor k p d \<Longrightarrow> ancestor k c d"

inductive_simps ancestor_iff: "ancestor k c d"

definition cranked :: "(cid \<Rightarrow> nat) \<Rightarrow> (cid \<Rightarrow> container) \<Rightarrow> bool" where
  "cranked r k = (\<forall>c p. c_parent (k c) = Some p \<longrightarrow> r p < r c)"

definition tree_inv :: "'a cscene_scheme \<Rightarrow> bool" where
  "tree_inv s =
     ((\<forall>c. distinct (surfaces_of s c)) \<and>
      (\<forall>x d. x \<in> set (surfaces_of s d) \<longleftrightarrow>
         (\<exists>c. sw_container (wrappers s x) = Some c \<and> ancestor (containers s) c d)))"

lemma containers_frame [simp, scene_simps]:
  "containers (emit e s) = containers s"
  "containers (mod_wrapper f x s) = containers s"
  "containers (setContainer c' x s) = containers s"
  "containers (setQParent c x s) = containers s"
  by (simp_all add: emit_def mod_wrapper_def setContainer_def setQParent_def)

lemma wrappers_mod_container [simp, scene_simps]: "wrappers (mod_container f c s) = wrappers s"
  by (simp add: mod_container_def)

lemma containers_mod_container [simp, scene_simps]:
  "containers (mod_container f c s) d = (if d = c then f (containers s c) else containers s d)"
  by (simp add: mod_container_def)

lemma ancestor_rank:
  assumes "ancestor k c d" "cranked r k"
  shows "r d \<le> r c"
  using assms
proof (induction rule: ancestor.induct)
  case (ancestor_up c p d)
  then have "r p < r c" by (simp add: cranked_def)
  with ancestor_up show ?case by simp
qed simp

lemma ancestor_congruent:
  assumes "\<And>c. c_parent (k' c) = c_parent (k c)"
  shows "ancestor k' c d = ancestor k c d"
proof -
  have "ancestor k1 c d \<Longrightarrow> \<forall>c. c_parent (k2 c) = c_parent (k1 c) \<Longrightarrow> ancestor k2 c d" for k1 k2
    by (induction rule: ancestor.induct) (auto intro: ancestor.intros)
  with assms show ?thesis by metis
qed

lemma ancestor_parent_neq:
  assumes "cranked r k" "c_parent (k c) = Some p" "ancestor k p d"
  shows "d \<noteq> c"
proof -
  have "r p < r c" using assms(1,2) by (simp add: cranked_def)
  with ancestor_rank [OF assms(3,1)] show ?thesis by auto
qed

lemma ancestor_cases_parent:
  "ancestor k c d \<longleftrightarrow> d = c \<or> (\<exists>p. c_parent (k c) = Some p \<and> ancestor k p d)"
  by (subst ancestor_iff) auto

lemma doAddSurface_step:
  fixes s :: "'a cscene_scheme"
  assumes "x \<notin> set (surfaces_of s c)" "b \<Longrightarrow> sw_container (wrappers s x) = None"
  obtains s1 where
    "doAddSurface (Suc n) c x b s =
      (case parent_of s c of None \<Rightarrow> Inr (True, s1)
       | Some p \<Rightarrow> rbind (doAddSurface n p x False s1) (\<lambda>(_, s). Inr (True, s)))"
    "\<And>d. parent_of s1 d = parent_of s d"
    "\<And>d. surfaces_of s1 d = (if d = c then surfaces_of s c @ [x] else surfaces_of s d)"
    "\<And>y. wrappers s1 y = (if y = x \<and> b
      then (wrappers s x)\<lparr>sw_container := Some c, sw_qparent := Some c\<rparr> else wrappers s y)"
proof -
  let ?w = "if b then setQParent c x (setContainer (Some c) x s) else s"
  let ?s = "emit (ContainerSurfaceAdded c x) (emit (ListSurfaceAdded c x)
    (mod_container (\<lambda>k. k\<lparr>c_surfaces := snd (addObject x (c_surfaces k))\<rparr>) c ?w))"
  show thesis
    by (rule that [of ?s]) (use assms in \<open>auto simp: hasObject_def Let_def addObject_def split: option.splits\<close>)
qed

lemma doRemoveSurface_step:
  fixes s :: "'a cscene_scheme"
  assumes "x \<in> set (surfaces_of s c)" "b \<Longrightarrow> sw_container (wrappers s x) = Some c"
  obtains s1 where
    "doRemoveSurface (Suc n) c x b s =
      (case parent_of s c of None \<Rightarrow> Inr (True, s1)
       | Some p \<Rightarrow> rbind (doRemoveSurface n p x False s1) (\<lambda>(_, s). Inr (True, s)))"
    "\<And>d. parent_of s1 d = parent_of s d"
    "\<And>d. surfaces_of s1 d = (if d = c then remove1 x (surfaces_of s c) else surfaces_of s d)"
    "\<And>y. wrappers s1 y = (if y = x \<and> b
      then (wrappers s x)\<lparr>sw_container := None\<rparr> else wrappers s y)"
proof -
  let ?w = "if b then setContainer None x s else s"
  let ?s = "emit (ContainerSurfaceRemoved c x) (emit (ListSurfaceRemoved c x)
    (mod_container (\<lambda>k. k\<lparr>c_surfaces := snd (removeObject x (c_surfaces k))\<rparr>) c ?w))"
  show thesis
    by (rule that [of ?s]) (use assms in \<open>auto simp: hasObject_def Let_def removeObject_eq split: option.splits\<close>)
qed

declare doAddSurface.simps [simp del] doRemoveSurface.simps [simp del]

lemma doAddSurface_present:
  "x \<in> set (surfaces_of s c) \<Longrightarrow> doAddSurface (Suc n) c x b s = Inr (False, s)"
  by (simp add: doAddSurface.simps hasObject_def)

text \<open>A surface that no ancestor lists is appended to every one of them; a surface that every
  ancestor lists is removed from every one of them. Nothing else changes.\<close>

lemma doAddSurface_spec:
  fixes s :: "'a cscene_scheme"
  assumes "cranked r (containers s)" "r c < n"
    and "b \<Longrightarrow> sw_container (wrappers s x) = None"
    and "\<forall>d. ancestor (containers s) c d \<longrightarrow> x \<notin> set (surfaces_of s d)"
  shows "\<exists>t. doAddSurface n c x b s = Inr (True, t)
    \<and> (\<forall>d. surfaces_of t d =
          (if ancestor (containers s) c d then surfaces_of s d @ [x] else surfaces_of s d))
    \<and> (\<forall>d. parent_of t d = parent_of s d)
    \<and> (\<forall>y. wrappers t y =
          (if y = x \<and> b
           then (wrappers s x)\<lparr>sw_container := Some c, sw_qparent := Some c\<rparr> else wrappers s y))"
  using assms
proof (induction n arbitrary: c b s)
  case 0
  then show ?case by simp
next
  case (Suc n)
  have new: "x \<notin> set (surfaces_of s c)" using Suc.prems(4) by (simp add: ancestor_self)
  obtain s1 where s1: "doAddSurface (Suc n) c x b s =
      (case parent_of s c of None \<Rightarrow> Inr (True, s1)
       | Some p \<Rightarrow> rbind (doAddSurface n p x False s1) (\<lambda>(_, s). Inr (True, s)))"
    and par: "\<And>d. parent_of s1 d = parent_of s d"
    and surf: "\<And>d. surfaces_of s1 d = (if d = c then surfaces_of s c @ [x] else surfaces_of s d)"
    and wr: "\<And>y. wrappers s1 y = (if y = x \<and> b
      then (wrappers s x)\<lparr>sw_container := Some c, sw_qparent := Some c\<rparr> else wrappers s y)"
    using doAddSurface_step [of x s c b n] new Suc.prems(3) by blast
  show ?case
  proof (cases "parent_of s c")
    case None
    then have "ancestor (containers s) c d \<longleftrightarrow> d = c" for d
      by (subst ancestor_cases_parent) simp
    with s1 surf wr par None show ?thesis by simp
  next
    case (Some p)
    have neq: "\<And>d. ancestor (containers s) p d \<Longrightarrow> d \<noteq> c"
      using ancestor_parent_neq [OF Suc.prems(1) Some] by blast
    have anc: "ancestor (containers s1) = ancestor (containers s)"
      by (intro ext ancestor_congruent par)
    have up: "ancestor (containers s) c d \<longleftrightarrow> d = c \<or> ancestor (containers s) p d" for d
      using Some by (subst ancestor_cases_parent) simp
    have "r p < r c" using Suc.prems(1) Some by (simp add: cranked_def)
    with Suc.prems have pre: "cranked r (containers s1)" "r p < n"
      "\<forall>d. ancestor (containers s1) p d \<longrightarrow> x \<notin> set (surfaces_of s1 d)"
      using neq up by (auto simp: cranked_def par anc surf)
    from Suc.IH [of s1 p False] pre
    obtain t where t: "doAddSurface n p x False s1 = Inr (True, t)"
      "\<forall>d. surfaces_of t d = (if ancestor (containers s) p d then surfaces_of s1 d @ [x] else surfaces_of s1 d)"
      "\<forall>d. parent_of t d = parent_of s d" "\<forall>y. wrappers t y = wrappers s1 y"
      unfolding anc par by auto
    show ?thesis
      by (rule exI [of _ t]) (use t s1 Some neq in \<open>auto simp: up surf wr\<close>)
  qed
qed

lemma doRemoveSurface_spec:
  fixes s :: "'a cscene_scheme"
  assumes "cranked r (containers s)" "r c < n"
    and "b \<Longrightarrow> sw_container (wrappers s x) = Some c"
    and "\<forall>d. ancestor (containers s) c d \<longrightarrow> x \<in> set (surfaces_of s d)"
  shows "\<exists>t. doRemoveSurface n c x b s = Inr (True, t)
    \<and> (\<forall>d. surfaces_of t d =
          (if ancestor (containers s) c d then remove1 x (surfaces_of s d) else surfaces_of s d))
    \<and> (\<forall>d. parent_of t d = parent_of s d)
    \<and> (\<forall>y. wrappers t y =
          (if y = x \<and> b then (wrappers s x)\<lparr>sw_container := None\<rparr> else wrappers s y))"
  using assms
proof (induction n arbitrary: c b s)
  case 0
  then show ?case by simp
next
  case (Suc n)
  have old: "x \<in> set (surfaces_of s c)" using Suc.prems(4) by (simp add: ancestor_self)
  obtain s1 where s1: "doRemoveSurface (Suc n) c x b s =
      (case parent_of s c of None \<Rightarrow> Inr (True, s1)
       | Some p \<Rightarrow> rbind (doRemoveSurface n p x False s1) (\<lambda>(_, s). Inr (True, s)))"
    and par: "\<And>d. parent_of s1 d = parent_of s d"
    and surf: "\<And>d. surfaces_of s1 d = (if d = c then remove1 x (surfaces_of s c) else surfaces_of s d)"
    and wr: "\<And>y. wrappers s1 y = (if y = x \<and> b
      then (wrappers s x)\<lparr>sw_container := None\<rparr> else wrappers s y)"
    using doRemoveSurface_step [of x s c b n] old Suc.prems(3) by blast
  show ?case
  proof (cases "parent_of s c")
    case None
    then have "ancestor (containers s) c d \<longleftrightarrow> d = c" for d
      by (subst ancestor_cases_parent) simp
    with s1 surf wr par None show ?thesis by simp
  next
    case (Some p)
    have neq: "\<And>d. ancestor (containers s) p d \<Longrightarrow> d \<noteq> c"
      using ancestor_parent_neq [OF Suc.prems(1) Some] by blast
    have anc: "ancestor (containers s1) = ancestor (containers s)"
      by (intro ext ancestor_congruent par)
    have up: "ancestor (containers s) c d \<longleftrightarrow> d = c \<or> ancestor (containers s) p d" for d
      using Some by (subst ancestor_cases_parent) simp
    have "r p < r c" using Suc.prems(1) Some by (simp add: cranked_def)
    with Suc.prems have pre: "cranked r (containers s1)" "r p < n"
      "\<forall>d. ancestor (containers s1) p d \<longrightarrow> x \<in> set (surfaces_of s1 d)"
      using neq up by (auto simp: cranked_def par anc surf)
    from Suc.IH [of s1 p False] pre
    obtain t where t: "doRemoveSurface n p x False s1 = Inr (True, t)"
      "\<forall>d. surfaces_of t d = (if ancestor (containers s) p d then remove1 x (surfaces_of s1 d) else surfaces_of s1 d)"
      "\<forall>d. parent_of t d = parent_of s d" "\<forall>y. wrappers t y = wrappers s1 y"
      unfolding anc par by auto
    show ?thesis
      by (rule exI [of _ t]) (use t s1 Some neq in \<open>auto simp: up surf wr\<close>)
  qed
qed

lemma tree_inv_ancestor_free:
  "tree_inv s \<Longrightarrow> sw_container (wrappers s x) = None \<Longrightarrow> x \<notin> set (surfaces_of s d)"
  by (simp add: tree_inv_def)

lemma tree_inv_ancestor_lists:
  "tree_inv s \<Longrightarrow> sw_container (wrappers s x) = Some c \<Longrightarrow>
   x \<in> set (surfaces_of s d) \<longleftrightarrow> ancestor (containers s) c d"
  by (simp add: tree_inv_def)

lemma container_addSurface_spec:
  fixes s :: "'a cscene_scheme"
  assumes "tree_inv s" "cranked r (containers s)" "r c < n" "sw_container (wrappers s x) = None"
  obtains t where "container_addSurface n c x s = Inr t" "tree_inv t"
    "\<And>d. surfaces_of t d =
      (if ancestor (containers s) c d then surfaces_of s d @ [x] else surfaces_of s d)"
    "\<And>d. parent_of t d = parent_of s d"
    "wrappers t = (wrappers s)(x := (wrappers s x)\<lparr>sw_container := Some c, sw_qparent := Some c\<rparr>)"
proof -
  have "\<forall>d. ancestor (containers s) c d \<longrightarrow> x \<notin> set (surfaces_of s d)"
    using tree_inv_ancestor_free [OF assms(1,4)] by blast
  with doAddSurface_spec [of r s c n True x] assms obtain t
    where t: "doAddSurface n c x True s = Inr (True, t)"
    and surf: "\<forall>d. surfaces_of t d =
      (if ancestor (containers s) c d then surfaces_of s d @ [x] else surfaces_of s d)"
    and par: "\<forall>d. parent_of t d = parent_of s d"
    and wr: "\<forall>y. wrappers t y = (if y = x
       then (wrappers s x)\<lparr>sw_container := Some c, sw_qparent := Some c\<rparr> else wrappers s y)"
    by auto
  have anc: "ancestor (containers t) = ancestor (containers s)"
    using par by (intro ext ancestor_congruent) blast
  have "tree_inv t"
    using assms(1,4) unfolding tree_inv_def anc by (auto simp: surf wr)
  moreover have "container_addSurface n c x s = Inr t"
    using t by (simp add: container_addSurface_def)
  ultimately show thesis using that surf par wr by (simp add: fun_eq_iff)
qed

lemma container_removeSurface_spec:
  fixes s :: "'a cscene_scheme"
  assumes "tree_inv s" "cranked r (containers s)" "r c < n" "sw_container (wrappers s x) = Some c"
  obtains t where "container_removeSurface n c x s = Inr t" "tree_inv t"
    "\<And>d. surfaces_of t d = remove1 x (surfaces_of s d)"
    "\<And>d. parent_of t d = parent_of s d"
    "wrappers t = (wrappers s)(x := (wrappers s x)\<lparr>sw_container := None\<rparr>)"
proof -
  note lists = tree_inv_ancestor_lists [OF assms(1,4)]
  with doRemoveSurface_spec [of r s c n True x] assms obtain t
    where t: "doRemoveSurface n c x True s = Inr (True, t)"
    and surf: "\<forall>d. surfaces_of t d =
      (if ancestor (containers s) c d then remove1 x (surfaces_of s d) else surfaces_of s d)"
    and par: "\<forall>d. parent_of t d = parent_of s d"
    and wr: "\<forall>y. wrappers t y = (if y = x
       then (wrappers s x)\<lparr>sw_container := None\<rparr> else wrappers s y)"
    by auto
  have surf': "surfaces_of t d = remove1 x (surfaces_of s d)" for d
    using surf lists [of d] by (simp add: remove1_idem)
  have anc: "ancestor (containers t) = ancestor (containers s)"
    using par by (intro ext ancestor_congruent) blast
  have "tree_inv t"
    using assms(1) unfolding tree_inv_def anc by (auto simp: surf' wr)
  moreover have "container_removeSurface n c x s = Inr t"
    using t by (simp add: container_removeSurface_def)
  ultimately show thesis using that surf' par wr by (simp add: fun_eq_iff)
qed

lemma rootContainer_enough:
  assumes "cranked r (containers s)" "r c < n"
  shows "\<exists>d. rootContainer n s c = Inr d \<and> ancestor (containers s) c d \<and> parent_of s d = None"
  using assms
proof (induction n arbitrary: c)
  case (Suc n)
  show ?case
  proof (cases "parent_of s c")
    case None
    then show ?thesis by (auto intro: ancestor_self)
  next
    case (Some p)
    with Suc.prems have "r p < r c" by (simp add: cranked_def)
    with Suc.prems have "r p < n" by simp
    with Suc Some obtain d where "rootContainer n s p = Inr d" "ancestor (containers s) p d"
      "parent_of s d = None" by blast
    with Some show ?thesis by (auto intro: ancestor_up)
  qed
qed simp

text \<open>C4: adding a surface that is in no container returns, without a failed assertion, in as many
  steps as the container is deep; the surface is then in the list of exactly the container and
  its ancestors (the root among them), and every other surface is where it was.\<close>

theorem container_add_tree:
  fixes s :: "'a cscene_scheme"
  assumes "tree_inv s" "cranked r (containers s)" "r c < n" "sw_container (wrappers s x) = None"
  shows "\<exists>t root. container_addSurface n c x s = Inr t \<and> tree_inv t
    \<and> rootContainer n t c = Inr root \<and> x \<in> set (surfaces_of t root)
    \<and> sw_container (wrappers t x) = Some c
    \<and> (\<forall>d. x \<in> set (surfaces_of t d) \<longleftrightarrow> ancestor (containers s) c d)
    \<and> (\<forall>y d. y \<noteq> x \<longrightarrow> wrappers t y = wrappers s y
          \<and> (y \<in> set (surfaces_of t d) \<longleftrightarrow> y \<in> set (surfaces_of s d)))"
proof -
  obtain t where t: "container_addSurface n c x s = Inr t" "tree_inv t"
    and surf: "\<And>d. surfaces_of t d =
      (if ancestor (containers s) c d then surfaces_of s d @ [x] else surfaces_of s d)"
    and par: "\<And>d. parent_of t d = parent_of s d"
    and wr: "wrappers t = (wrappers s)(x := (wrappers s x)\<lparr>sw_container := Some c, sw_qparent := Some c\<rparr>)"
    using container_addSurface_spec [OF assms] by metis
  have anc: "ancestor (containers t) = ancestor (containers s)"
    by (intro ext ancestor_congruent par)
  have "cranked r (containers t)" using assms(2) by (simp add: cranked_def par)
  with assms(3) obtain root where root: "rootContainer n t c = Inr root" "ancestor (containers t) c root"
    using rootContainer_enough by blast
  have "x \<in> set (surfaces_of t d) \<longleftrightarrow> ancestor (containers s) c d" for d
    using surf [of d] tree_inv_ancestor_free [OF assms(1,4), of d] by simp
  with t root wr surf show ?thesis unfolding anc by auto
qed

text \<open>Removing a surface from its container takes it out of every list of the tree, and a
  removal right after an addition gives back exactly the lists there were before.\<close>

theorem container_add_remove:
  fixes s :: "'a cscene_scheme"
  assumes "tree_inv s" "cranked r (containers s)" "r c < n" "sw_container (wrappers s x) = None"
  shows "\<exists>t u. container_addSurface n c x s = Inr t \<and> container_removeSurface n c x t = Inr u
    \<and> tree_inv u \<and> containers u = containers s \<and> (\<forall>d. x \<notin> set (surfaces_of u d))
    \<and> sw_container (wrappers u x) = None"
proof -
  obtain t where t: "container_addSurface n c x s = Inr t" "tree_inv t"
    and surf: "\<And>d. surfaces_of t d =
      (if ancestor (containers s) c d then surfaces_of s d @ [x] else surfaces_of s d)"
    and par: "\<And>d. parent_of t d = parent_of s d"
    and wr: "wrappers t = (wrappers s)(x := (wrappers s x)\<lparr>sw_container := Some c, sw_qparent := Some c\<rparr>)"
    using container_addSurface_spec [OF assms] by metis
  have rk: "cranked r (containers t)" and cont: "sw_container (wrappers t x) = Some c"
    using assms(2) wr by (simp_all add: cranked_def par)
  obtain u where u: "container_removeSurface n c x t = Inr u" "tree_inv u"
    and surf': "\<And>d. surfaces_of u d = remove1 x (surfaces_of t d)"
    and par': "\<And>d. parent_of u d = parent_of t d"
    and wr': "wrappers u = (wrappers t)(x := (wrappers t x)\<lparr>sw_container := None\<rparr>)"
    using container_removeSurface_spec [OF t(2) rk assms(3) cont] by metis
  note free = tree_inv_ancestor_free [OF assms(1,4)]
  have "surfaces_of u d = surfaces_of s d" for d
    using free [of d] by (simp add: surf surf' remove1_append_new remove1_idem)
  then have "containers u d = containers s d" for d
    using par par' by (metis (full_types) container.equality unit.exhaust)
  with t u wr' free show ?thesis by (auto simp: fun_eq_iff)
qed

definition blank_wrapper :: swrapper where
  "blank_wrapper = \<lparr>sw_type = XdgToplevel, sw_role = NormalRole, sw_workspaceId = - 1,
     sw_hideByWorkspace = False, sw_opacity = 1, sw_visible = True, sw_container = None,
     sw_qparent = None, sw_parentSurface = None, sw_subSurfaces = [], sw_modal = False,
     sw_mapped = True, sw_minimized = False, sw_splash = None, sw_socketEnabled = True,
     sw_hideByshowDesk = True, sw_confirmHideByLockScreen = False, sw_inSession = True,
     sw_aboutToRemove = False, sw_isIMCandidatePanel = False, sw_isSnapMask = False,
     sw_skipSwitcher = False, sw_shellSurface = True, sw_appId = [], sw_activeStates = 11,
     sw_focusStates = 15, sw_isActivated = False, sw_attention = False,
     sw_ownsOutput = None\<rparr>"

text \<open>A tree of three containers, 2 below 1 below 0, with surface 7 in container 1.\<close>

definition demo_tree :: cscene where
  "demo_tree = \<lparr>wrappers = (\<lambda>_. blank_wrapper)(7 := blank_wrapper\<lparr>sw_container := Some 1\<rparr>),
     trace = [],
     containers = (\<lambda>c. \<lparr>c_parent = (if c = 2 then Some 1 else if c = 1 then Some 0 else None),
       c_surfaces = (if c \<le> 1 then [7] else [])\<rparr>)\<rparr>"

lemma demo_tree_ancestor:
  "ancestor (containers demo_tree) c d \<longleftrightarrow>
   d = c \<or> c = 1 \<and> d = 0 \<or> c = 2 \<and> d \<le> 1"
  by (subst ancestor_iff, subst ancestor_iff, subst ancestor_iff) (auto simp: demo_tree_def)

lemma demo_tree_ok:
  "tree_inv demo_tree" "cranked (\<lambda>c. c) (containers demo_tree)"
  "sw_container (wrappers demo_tree 5) = None"
proof -
  show "tree_inv demo_tree"
    unfolding tree_inv_def demo_tree_ancestor by (auto simp: demo_tree_def blank_wrapper_def)
qed (simp_all add: demo_tree_def blank_wrapper_def cranked_def)

theorem container_add_tree_witness:
  "\<exists>t root. container_addSurface 3 2 5 demo_tree = Inr t \<and> tree_inv t
    \<and> rootContainer 3 t 2 = Inr root \<and> 5 \<in> set (surfaces_of t root)"
  using container_add_tree [OF demo_tree_ok(1,2) _ demo_tree_ok(3), of 2 3] by auto

theorem container_add_remove_witness:
  "\<exists>t u. container_addSurface 3 2 5 demo_tree = Inr t \<and> container_removeSurface 3 2 5 t = Inr u
    \<and> containers u = containers demo_tree"
  using container_add_remove [OF demo_tree_ok(1,2) _ demo_tree_ok(3), of 2 3] by auto

end
