(* ===== verification/Workspace_Model.thy ===== *)
theory Workspace_Model
  imports Surface_Container
begin

text \<open>
  src/src/workspace/workspacemodel.h and .cpp: one workspace, that is the list of its
  surfaces, its visibility and opacity, and the history of activations that decides which
  window gets the focus next. An operation takes the model and the scene and returns both.
  \<open>m_opaqueSlots\<close> is the list of connections from the model's \<^verbatim>\<open>opaqueChanged\<close> signal made by
  \<^verbatim>\<open>addSurface\<close>, in connection order.
\<close>

record wmodel =
  m_id :: int
  m_name :: string
  m_visible :: bool
  m_opaque :: bool
  m_surfaces :: "sid list"
  m_history :: "sid list"
  m_opaqueSlots :: "sid list"

definition newWorkspaceModel :: "int \<Rightarrow> sid list \<Rightarrow> wmodel" where
  "newWorkspaceModel i history =
     \<lparr>m_id = i, m_name = [], m_visible = False, m_opaque = True, m_surfaces = [],
      m_history = history, m_opaqueSlots = []\<rparr>"

definition wm_setName :: "string \<Rightarrow> wmodel \<Rightarrow> 'a scene_scheme \<Rightarrow> wmodel \<times> 'a scene_scheme" where
  "wm_setName n m s =
     (if m_name m = n then (m, s) else (m\<lparr>m_name := n\<rparr>, emit (NameChanged (m_id m)) s))"

definition wm_setVisible :: "bool \<Rightarrow> wmodel \<Rightarrow> 'a scene_scheme \<Rightarrow> wmodel \<times> 'a scene_scheme" where
  "wm_setVisible v m s =
     (if m_visible m = v then (m, s)
      else
        let m = m\<lparr>m_visible := v\<rparr>;
            s = fold (setHideByWorkspace (\<not> v)) (m_surfaces m) s
        in (m, emit (VisibleChanged (m_id m)) s))"

text \<open>Emitting \<^verbatim>\<open>opaqueChanged\<close> runs the connected slots.\<close>

definition emit_opaqueChanged :: "wmodel \<Rightarrow> 'a scene_scheme \<Rightarrow> 'a scene_scheme" where
  "emit_opaqueChanged m s =
     fold (setHideByWorkspace (\<not> m_visible m)) (m_opaqueSlots m) (emit (OpaqueChanged (m_id m)) s)"

definition wm_setOpaque :: "bool \<Rightarrow> wmodel \<Rightarrow> 'a scene_scheme \<Rightarrow> wmodel \<times> 'a scene_scheme" where
  "wm_setOpaque opaque m s =
     (if m_opaque m = opaque then (m, s)
      else
        let m = m\<lparr>m_opaque := opaque\<rparr>;
            s = fold (setOpacity (if opaque then 1 else 0)) (m_surfaces m) s
        in (m, emit_opaqueChanged m s))"

definition listAddSurface :: "sid \<Rightarrow> wmodel \<Rightarrow> 'a scene_scheme \<Rightarrow> wmodel \<times> 'a scene_scheme" where
  "listAddSurface x m s =
     (let (added, xs) = addObject x (m_surfaces m); m = m\<lparr>m_surfaces := xs\<rparr>
      in (m, if added then emit (ModelSurfaceAdded (m_id m) x) s else s))"

definition listRemoveSurface :: "sid \<Rightarrow> wmodel \<Rightarrow> 'a scene_scheme \<Rightarrow> wmodel \<times> 'a scene_scheme" where
  "listRemoveSurface x m s =
     (let (removed, xs) = removeObject x (m_surfaces m); m = m\<lparr>m_surfaces := xs\<rparr>
      in (m, if removed then emit (ModelSurfaceRemoved (m_id m) x) s else s))"

definition wm_addSurface :: "sid \<Rightarrow> wmodel \<Rightarrow> 'a scene_scheme \<Rightarrow> wmodel \<times> 'a scene_scheme" where
  "wm_addSurface x m s =
     (let (m, s) = listAddSurface x m s;
          (m, s) =
            (if \<not> m_opaque m
             then (m\<lparr>m_opaqueSlots := m_opaqueSlots m @ [x]\<rparr>,
                   setHideByWorkspace (m_visible m) x
                     (setOpacity (if m_opaque m then 1 else 0) x s))
             else (m, setHideByWorkspace (\<not> m_visible m) x s))
      in (m, setWorkspaceId (m_id m) x s))"

text \<open>
  \<^verbatim>\<open>surface->disconnect(this)\<close> removes the connections from the surface's signals to the model;
  the one \<^verbatim>\<open>addSurface\<close> makes goes the other way and stays.
\<close>

definition wm_removeSurface :: "sid \<Rightarrow> wmodel \<Rightarrow> 'a scene_scheme \<Rightarrow> wmodel \<times> 'a scene_scheme" where
  "wm_removeSurface x m s =
     (let (m, s) = listRemoveSurface x m s;
          s = setWorkspaceId (- 1) x s;
          s = setHideByWorkspace False x s
      in (m\<lparr>m_history := removeAll x (m_history m)\<rparr>, s))"

definition latestActiveSurface :: "wmodel \<Rightarrow> sid option" where
  "latestActiveSurface m = (case m_history m of [] \<Rightarrow> None | x # _ \<Rightarrow> Some x)"

definition activePenultimateWindow :: "wmodel \<Rightarrow> sid option" where
  "activePenultimateWindow m =
     (case m_history m of [] \<Rightarrow> None | _ # rest \<Rightarrow> (case rest of [] \<Rightarrow> None | y # _ \<Rightarrow> Some y))"

definition findNextActivedSurface :: "wmodel \<Rightarrow> sid option" where
  "findNextActivedSurface m = (case m_history m of _ # y # _ \<Rightarrow> Some y | _ \<Rightarrow> None)"

definition wm_pushActivedSurface :: "sid \<Rightarrow> wmodel \<Rightarrow> wmodel" where
  "wm_pushActivedSurface x m =
     (let m = m\<lparr>m_history := removeAll x (m_history m)\<rparr> in m\<lparr>m_history := x # m_history m\<rparr>)"

definition wm_removeActivedSurface :: "sid \<Rightarrow> wmodel \<Rightarrow> wmodel" where
  "wm_removeActivedSurface x m = m\<lparr>m_history := removeAll x (m_history m)\<rparr>"

definition wm_clearActivedSurface :: "wmodel \<Rightarrow> wmodel" where
  "wm_clearActivedSurface m = m\<lparr>m_history := []\<rparr>"

text \<open>The distance to the end of the history when the surface is not in it; the null pointer,
  which no history holds, is \<open>None\<close>.\<close>

definition activeHistoryIndex :: "sid option \<Rightarrow> wmodel \<Rightarrow> int" where
  "activeHistoryIndex x m = int (length (takeWhile (\<lambda>y. Some y \<noteq> x) (m_history m)))"

definition laterActiveThan :: "sid \<Rightarrow> sid \<Rightarrow> wmodel \<Rightarrow> bool" where
  "laterActiveThan a b m = (activeHistoryIndex (Some a) m < activeHistoryIndex (Some b) m)"

section \<open>What the operations do to the model\<close>

named_theorems wmodel_simps \<open>what the operations do to the fields of a workspace\<close>

lemma listAddSurface_model [simp, wmodel_simps]:
  "fst (listAddSurface x m s) =
     m\<lparr>m_surfaces := (if x \<in> set (m_surfaces m) then m_surfaces m else m_surfaces m @ [x])\<rparr>"
  by (simp add: listAddSurface_def addObject_def Let_def)

lemma listRemoveSurface_model [simp, wmodel_simps]:
  "fst (listRemoveSurface x m s) = m\<lparr>m_surfaces := remove1 x (m_surfaces m)\<rparr>"
  by (simp add: listRemoveSurface_def removeObject_eq Let_def)

lemma list_ops_wrappers [simp, scene_simps]:
  "wrappers (snd (listAddSurface x m s)) = wrappers s"
  "wrappers (snd (listRemoveSurface x m s)) = wrappers s"
  by (simp_all add: listAddSurface_def listRemoveSurface_def addObject_def removeObject_eq Let_def)

lemma wm_addSurface_model [simp, wmodel_simps]:
  "fst (wm_addSurface x m s) =
     m\<lparr>m_surfaces := (if x \<in> set (m_surfaces m) then m_surfaces m else m_surfaces m @ [x]),
       m_opaqueSlots := (if m_opaque m then m_opaqueSlots m else m_opaqueSlots m @ [x])\<rparr>"
  by (simp add: wm_addSurface_def Let_def split_def)

lemma wm_removeSurface_model [simp, wmodel_simps]:
  "fst (wm_removeSurface x m s) =
     m\<lparr>m_surfaces := remove1 x (m_surfaces m), m_history := removeAll x (m_history m)\<rparr>"
  by (simp add: wm_removeSurface_def Let_def split_def)

lemma wm_setVisible_model [simp, wmodel_simps]:
  "fst (wm_setVisible v m s) = m\<lparr>m_visible := v\<rparr>"
  by (auto simp: wm_setVisible_def Let_def)

lemma wm_setOpaque_model [simp, wmodel_simps]:
  "fst (wm_setOpaque v m s) = m\<lparr>m_opaque := v\<rparr>"
  by (auto simp: wm_setOpaque_def Let_def)

lemma wm_setName_model [simp, wmodel_simps]: "fst (wm_setName n m s) = m\<lparr>m_name := n\<rparr>"
  by (auto simp: wm_setName_def)

lemma wm_history_model [simp, wmodel_simps]:
  "wm_pushActivedSurface x m = m\<lparr>m_history := x # removeAll x (m_history m)\<rparr>"
  "wm_removeActivedSurface x m = m\<lparr>m_history := removeAll x (m_history m)\<rparr>"
  "wm_clearActivedSurface m = m\<lparr>m_history := []\<rparr>"
  by (simp_all add: wm_pushActivedSurface_def wm_removeActivedSurface_def wm_clearActivedSurface_def)

section \<open>What the operations do to the surfaces\<close>

lemma fold_setHide_other:
  "y \<notin> set xs \<Longrightarrow> wrappers (fold (setHideByWorkspace h) xs s) y = wrappers s y"
  by (induction xs arbitrary: s) auto

lemma fold_setHide_hide:
  "sw_hideByWorkspace (wrappers (fold (setHideByWorkspace h) xs s) y) =
     (if y \<in> set xs then h else sw_hideByWorkspace (wrappers s y))"
  by (induction xs arbitrary: s) auto

text \<open>The part of a wrapper that moving it between workspaces leaves alone.\<close>

definition core_of :: "swrapper \<Rightarrow> swrapper" where
  "core_of w = w\<lparr>sw_hideByWorkspace := False, sw_visible := False, sw_opacity := 0\<rparr>"

lemma core_of_setHide [simp, scene_simps]:
  "core_of (wrappers (setHideByWorkspace h x s) y) = core_of (wrappers s y)"
  by (simp add: core_of_def setHideByWorkspace_def wrappers_updateVisible)

lemma core_of_fold_setHide [simp, scene_simps]:
  "core_of (wrappers (fold (setHideByWorkspace h) xs s) y) = core_of (wrappers s y)"
  by (induction xs arbitrary: s) auto

lemma core_of_fold_setOpacity [simp, scene_simps]:
  "core_of (wrappers (fold (setOpacity v) xs s) y) = core_of (wrappers s y)"
  by (induction xs arbitrary: s) (auto simp: core_of_def)

lemma core_of_fields [simp, scene_simps]:
  "sw_workspaceId (core_of w) = sw_workspaceId w" "sw_container (core_of w) = sw_container w"
  "sw_subSurfaces (core_of w) = sw_subSurfaces w" "sw_parentSurface (core_of w) = sw_parentSurface w"
  "sw_modal (core_of w) = sw_modal w" "sw_activeStates (core_of w) = sw_activeStates w"
  "sw_type (core_of w) = sw_type w" "sw_aboutToRemove (core_of w) = sw_aboutToRemove w"
  "showOnAllWorkspace (core_of w) = showOnAllWorkspace w"
  by (simp_all add: core_of_def showOnAllWorkspace_def isInputPopupLike_def)

lemma core_of_eqD:
  assumes "core_of v = core_of w"
  shows "sw_workspaceId v = sw_workspaceId w" "sw_container v = sw_container w"
    "sw_subSurfaces v = sw_subSurfaces w" "sw_parentSurface v = sw_parentSurface w"
    "sw_modal v = sw_modal w" "sw_activeStates v = sw_activeStates w"
    "showOnAllWorkspace v = showOnAllWorkspace w" "sw_type v = sw_type w"
    "sw_aboutToRemove v = sw_aboutToRemove w"
  using assms by (metis core_of_fields)+

lemma wm_setVisible_wrappers:
  "core_of (wrappers (snd (wm_setVisible v m s)) y) = core_of (wrappers s y)"
  "sw_hideByWorkspace (wrappers (snd (wm_setVisible v m s)) y) =
     (if y \<in> set (m_surfaces m) \<and> m_visible m \<noteq> v then \<not> v else sw_hideByWorkspace (wrappers s y))"
  by (simp_all add: wm_setVisible_def Let_def fold_setHide_hide)

lemma wm_addSurface_core:
  "core_of (wrappers (snd (wm_addSurface x m s)) y) =
     (if y = x then core_of ((wrappers s x)\<lparr>sw_workspaceId := m_id m\<rparr>) else core_of (wrappers s y))"
  by (simp add: wm_addSurface_def Let_def split_def core_of_def setHideByWorkspace_def
      wrappers_updateVisible)

lemma wm_addSurface_hide:
  "sw_hideByWorkspace (wrappers (snd (wm_addSurface x m s)) y) =
     (if y = x then (if m_opaque m then \<not> m_visible m else m_visible m)
      else sw_hideByWorkspace (wrappers s y))"
  by (simp add: wm_addSurface_def Let_def split_def)

lemma wm_removeSurface_core:
  "core_of (wrappers (snd (wm_removeSurface x m s)) y) =
     (if y = x then core_of ((wrappers s x)\<lparr>sw_workspaceId := - 1\<rparr>) else core_of (wrappers s y))"
  by (simp add: wm_removeSurface_def Let_def split_def core_of_def setHideByWorkspace_def
      wrappers_updateVisible)

lemma wm_removeSurface_hide:
  "sw_hideByWorkspace (wrappers (snd (wm_removeSurface x m s)) y) =
     (if y = x then False else sw_hideByWorkspace (wrappers s y))"
  by (simp add: wm_removeSurface_def Let_def split_def)

lemma fold_setHide_hide_respected:
  "hide_respected (wrappers s) \<Longrightarrow> hide_respected (wrappers (fold (setHideByWorkspace h) xs s))"
  by (induction xs arbitrary: s) (auto simp: hide_respected_setHide)

lemma hide_respected_setWorkspaceId:
  "hide_respected (wrappers s) \<Longrightarrow> hide_respected (wrappers (setWorkspaceId i x s))"
  "hide_respected (wrappers s) \<Longrightarrow> hide_respected (wrappers (setOpacity v x s))"
  by (auto simp: hide_respected_def)

lemma hide_respected_list_ops:
  "hide_respected (wrappers s) \<Longrightarrow> hide_respected (wrappers (snd (wm_addSurface x m s)))"
  "hide_respected (wrappers s) \<Longrightarrow> hide_respected (wrappers (snd (wm_removeSurface x m s)))"
  "hide_respected (wrappers s) \<Longrightarrow> hide_respected (wrappers (snd (wm_setVisible v m s)))"
  by (auto simp: wm_addSurface_def wm_removeSurface_def wm_setVisible_def Let_def split_def
      hide_respected_setHide hide_respected_setWorkspaceId fold_setHide_hide_respected)

lemma more_wm [simp, scene_simps]:
  "scene.more (snd (wm_setName n m s)) = scene.more s"
  "scene.more (snd (wm_setVisible v m s)) = scene.more s"
  "scene.more (snd (wm_setOpaque v m s)) = scene.more s"
  "scene.more (snd (wm_addSurface x m s)) = scene.more s"
  "scene.more (snd (wm_removeSurface x m s)) = scene.more s"
  by (simp_all add: wm_setName_def wm_setVisible_def wm_setOpaque_def wm_addSurface_def
      wm_removeSurface_def emit_opaqueChanged_def listAddSurface_def listRemoveSurface_def
      more_fold addObject_def removeObject_eq split_def Let_def)

section \<open>The activation history\<close>

text \<open>The contract of an activation history, and what follows from it alone.\<close>

locale activation_history =
  fixes entries :: "'m \<Rightarrow> 'x list"
    and push :: "'x \<Rightarrow> 'm \<Rightarrow> 'm"
    and forget :: "'x \<Rightarrow> 'm \<Rightarrow> 'm"
    and rank :: "'x \<Rightarrow> 'm \<Rightarrow> int"
  assumes push_entries: "entries (push x m) = x # removeAll x (entries m)"
    and forget_entries: "entries (forget x m) = removeAll x (entries m)"
    and rank_entries: "rank x m = int (length (takeWhile (\<lambda>y. y \<noteq> x) (entries m)))"
begin

lemma distinct_push: "distinct (entries m) \<Longrightarrow> distinct (entries (push x m))"
  by (simp add: push_entries distinct_removeAll)

lemma distinct_forget: "distinct (entries m) \<Longrightarrow> distinct (entries (forget x m))"
  by (simp add: forget_entries distinct_removeAll)

lemma push_after_forget: "entries (push x (forget x m)) = entries (push x m)"
  by (simp add: push_entries forget_entries)

lemma forget_after_push: "entries (forget x (push x m)) = entries (forget x m)"
  by (simp add: push_entries forget_entries)

lemma rank_removeAll:
  "a \<noteq> x \<Longrightarrow> b \<noteq> x \<Longrightarrow>
   (length (takeWhile (\<lambda>y. y \<noteq> a) (removeAll x xs)) < length (takeWhile (\<lambda>y. y \<noteq> b) (removeAll x xs)))
   = (length (takeWhile (\<lambda>y. y \<noteq> a) xs) < length (takeWhile (\<lambda>y. y \<noteq> b) xs))"
  by (induction xs) auto

lemma push_rank_self: "rank x (push x m) = 0"
  by (simp add: rank_entries push_entries)

lemma push_rank_other:
  "a \<noteq> x \<Longrightarrow> b \<noteq> x \<Longrightarrow> rank a (push x m) < rank b (push x m) \<longleftrightarrow> rank a m < rank b m"
  by (simp add: rank_entries push_entries rank_removeAll)

lemma forget_rank_other:
  "a \<noteq> x \<Longrightarrow> b \<noteq> x \<Longrightarrow> rank a (forget x m) < rank b (forget x m) \<longleftrightarrow> rank a m < rank b m"
  by (simp add: rank_entries forget_entries rank_removeAll)

lemma push_beats_others: "y \<noteq> x \<Longrightarrow> rank x (push x m) < rank y (push x m)"
  by (simp add: rank_entries push_entries)

end

interpretation ah: activation_history m_history wm_pushActivedSurface wm_removeActivedSurface
  "\<lambda>x. activeHistoryIndex (Some x)"
  by unfold_locales (simp_all add: activeHistoryIndex_def)

text \<open>Activating a window puts it at the front of the workspace's history, in front of every
  other window; the window that was in front becomes the next candidate for the focus (what
  \<^verbatim>\<open>findNextActivedSurface\<close> and \<^verbatim>\<open>activePenultimateWindow\<close> return), the relative order of all others stays,
  and no window is ever listed twice.\<close>

theorem history_push:
  assumes "distinct (m_history m)"
  shows "let m' = wm_pushActivedSurface x m in
     distinct (m_history m') \<and> set (m_history m') = insert x (set (m_history m))
     \<and> latestActiveSurface m' = Some x
     \<and> findNextActivedSurface m' = activePenultimateWindow m'
     \<and> (latestActiveSurface m \<noteq> Some x \<longrightarrow> findNextActivedSurface m' = latestActiveSurface m)
     \<and> (\<forall>y. y \<noteq> x \<longrightarrow> laterActiveThan x y m')
     \<and> (\<forall>a b. a \<noteq> x \<longrightarrow> b \<noteq> x \<longrightarrow> laterActiveThan a b m' = laterActiveThan a b m)"
proof -
  let ?m = "wm_pushActivedSurface x m"
  have "findNextActivedSurface ?m = activePenultimateWindow ?m"
    by (simp add: findNextActivedSurface_def activePenultimateWindow_def split: list.splits)
  moreover have "findNextActivedSurface ?m = latestActiveSurface m" if "latestActiveSurface m \<noteq> Some x"
    using that
    by (cases "m_history m") (auto simp: latestActiveSurface_def findNextActivedSurface_def)
  moreover have "laterActiveThan x y ?m" if "y \<noteq> x" for y
    using ah.push_beats_others [OF that, of m] by (simp only: laterActiveThan_def)
  moreover have "laterActiveThan a b ?m = laterActiveThan a b m" if "a \<noteq> x" "b \<noteq> x" for a b
    using ah.push_rank_other [OF that, of m] by (simp only: laterActiveThan_def)
  ultimately show ?thesis
    using ah.distinct_push [OF assms, of x] by (auto simp: latestActiveSurface_def Let_def)
qed

definition demo_model :: wmodel where
  "demo_model = (newWorkspaceModel 4 [3, 1, 2])\<lparr>m_surfaces := [1, 2, 3]\<rparr>"

theorem history_push_witness:
  "distinct (m_history demo_model)
   \<and> latestActiveSurface (wm_pushActivedSurface 2 demo_model) = Some 2
   \<and> findNextActivedSurface (wm_pushActivedSurface 2 demo_model) = Some 3"
proof -
  have "distinct (m_history demo_model)" by (simp add: demo_model_def newWorkspaceModel_def)
  moreover have "latestActiveSurface demo_model = Some 3" "Some 3 \<noteq> Some (2 :: sid)"
    by (simp_all add: demo_model_def newWorkspaceModel_def latestActiveSurface_def)
  moreover note history_push [OF calculation(1), of 2, unfolded Let_def]
  ultimately show ?thesis by metis
qed

section \<open>Hiding and showing\<close>

text \<open>A settled workspace: opaque, nothing left connected to it by a preview, and each of its
  surfaces hidden exactly when the workspace is not visible.\<close>

definition wm_settled :: "wmodel \<Rightarrow> (sid \<Rightarrow> swrapper) \<Rightarrow> bool" where
  "wm_settled m h =
     (m_opaque m \<and> m_opaqueSlots m = [] \<and>
      (\<forall>x\<in>set (m_surfaces m). sw_hideByWorkspace (h x) = (\<not> m_visible m)))"

lemma wm_setVisible_settled:
  "wm_settled m (wrappers s) \<Longrightarrow>
   wm_settled (fst (wm_setVisible v m s)) (wrappers (snd (wm_setVisible v m s)))"
  by (auto simp: wm_settled_def wm_setVisible_wrappers)

lemma wm_addSurface_settled:
  "wm_settled m (wrappers s) \<Longrightarrow>
   wm_settled (fst (wm_addSurface x m s)) (wrappers (snd (wm_addSurface x m s)))"
  by (auto simp: wm_settled_def wm_addSurface_hide)

lemma wm_removeSurface_settled:
  "wm_settled m (wrappers s) \<Longrightarrow> distinct (m_surfaces m) \<Longrightarrow>
   wm_settled (fst (wm_removeSurface x m s)) (wrappers (snd (wm_removeSurface x m s)))"
  by (auto simp: wm_settled_def wm_removeSurface_hide)

text \<open>C13: after \<^verbatim>\<open>addSurface\<close> a settled workspace lists the surface, the surface carries the workspace's
  id and is hidden exactly when the workspace is; \<^verbatim>\<open>setVisible\<close> then hides or shows every surface
  of the workspace and no other, and \<^verbatim>\<open>removeSurface\<close> gives the surface back unhidden, without a
  workspace and forgotten by the history. A hidden surface is not visible, unless it is being
  torn down.\<close>

theorem workspace_hides_its_surfaces:
  fixes s :: "'a scene_scheme"
  assumes "wm_settled m (wrappers s)" "distinct (m_surfaces m)" "hide_respected (wrappers s)"
  shows "let (m1, s1) = wm_addSurface x m s; (m2, s2) = wm_setVisible v m1 s1;
             (m3, s3) = wm_removeSurface x m2 s2 in
     (\<forall>(mi, si)\<in>{(m1, s1), (m2, s2), (m3, s3)}.
        wm_settled mi (wrappers si) \<and> distinct (m_surfaces mi) \<and> hide_respected (wrappers si))
     \<and> x \<in> set (m_surfaces m2) \<and> sw_workspaceId (wrappers s2 x) = m_id m
     \<and> (\<forall>y\<in>set (m_surfaces m2). sw_hideByWorkspace (wrappers s2 y) = (\<not> v))
     \<and> (\<forall>y. y \<notin> set (m_surfaces m2) \<longrightarrow>
          sw_hideByWorkspace (wrappers s2 y) = sw_hideByWorkspace (wrappers s y))
     \<and> m_surfaces m3 = remove1 x (m_surfaces m2) \<and> x \<notin> set (m_surfaces m3) \<and> x \<notin> set (m_history m3)
     \<and> sw_workspaceId (wrappers s3 x) = - 1 \<and> \<not> sw_hideByWorkspace (wrappers s3 x)"
proof -
  obtain m1 s1 where 1: "wm_addSurface x m s = (m1, s1)" by fastforce
  obtain m2 s2 where 2: "wm_setVisible v m1 s1 = (m2, s2)" by fastforce
  obtain m3 s3 where 3: "wm_removeSurface x m2 s2 = (m3, s3)" by fastforce
  note at1 = 1 [THEN arg_cong, of fst, simplified] and at2 = 2 [THEN arg_cong, of fst, simplified]
    and at3 = 3 [THEN arg_cong, of fst, simplified]
  have in1: "x \<in> set (m_surfaces m1)" "distinct (m_surfaces m1)" "m_id m1 = m_id m"
    "set (m_surfaces m) \<subseteq> set (m_surfaces m1)"
    using assms(2) at1 [symmetric] by auto
  have in2: "m_surfaces m2 = m_surfaces m1" "m_visible m2 = v" using at2 [symmetric] by auto
  have in3: "m_surfaces m3 = remove1 x (m_surfaces m2)" "x \<notin> set (m_history m3)"
    using at3 [symmetric] by auto
  have set1: "wm_settled m1 (wrappers s1)" using wm_addSurface_settled [OF assms(1), of x] 1 by simp
  have set2: "wm_settled m2 (wrappers s2)" using wm_setVisible_settled [OF set1, of v] 2 by simp
  have set3: "wm_settled m3 (wrappers s3)"
    using wm_removeSurface_settled [OF set2, of x] in1 in2 3 by simp
  have hr: "hide_respected (wrappers s1)" "hide_respected (wrappers s2)" "hide_respected (wrappers s3)"
    using hide_respected_list_ops assms(3) 1 2 3 by (metis snd_conv)+
  have id2: "sw_workspaceId (wrappers s2 x) = m_id m"
    using wm_setVisible_wrappers(1) [of v m1 s1 x] wm_addSurface_core [of x m s x] 1 2
    by (metis core_of_fields(1) snd_conv swrapper.select_convs(3) swrapper.update_convs(3) swrapper.surjective)
  have id3: "sw_workspaceId (wrappers s3 x) = - 1" "\<not> sw_hideByWorkspace (wrappers s3 x)"
    using 3 by (auto simp: wm_removeSurface_def Let_def split_def)
  have others: "sw_hideByWorkspace (wrappers s2 y) = sw_hideByWorkspace (wrappers s y)"
    if "y \<notin> set (m_surfaces m2)" for y
    using that in1 in2 wm_setVisible_wrappers(2) [of v m1 s1 y] wm_addSurface_hide [of x m s y] 1 2
    by auto
  show ?thesis
    using set1 set2 set3 hr in1 in2 in3 id2 id3 others 1 2 3 by (auto simp: wm_settled_def)
qed

definition demo_scene :: scene where
  "demo_scene = \<lparr>wrappers = (\<lambda>_. blank_wrapper\<lparr>sw_hideByWorkspace := True, sw_visible := False\<rparr>),
     trace = []\<rparr>"

theorem workspace_hides_its_surfaces_witness:
  "let (m1, s1) = wm_addSurface 9 demo_model demo_scene; (m2, s2) = wm_setVisible True m1 s1 in
   9 \<in> set (m_surfaces m2) \<and> (\<forall>y\<in>set (m_surfaces m2). \<not> sw_hideByWorkspace (wrappers s2 y))"
proof -
  have "wm_settled demo_model (wrappers demo_scene)" "distinct (m_surfaces demo_model)"
    "hide_respected (wrappers demo_scene)"
    by (simp_all add: demo_model_def demo_scene_def newWorkspaceModel_def wm_settled_def
        hide_respected_def)
  from workspace_hides_its_surfaces [OF this, of 9 True] show ?thesis
    by (simp add: Let_def split_def del: wmodel_simps)
qed

end
