(* ===== verification/Workspace_Animation.thy ===== *)
theory Workspace_Animation
  imports Treeland_Prelude
begin

text \<open>
  src/src/workspace/workspaceanimationcontroller.cpp: the slide and bounce animations of a
  workspace switch. \<^verbatim>\<open>qreal\<close> is modelled by the reals. The two \<^verbatim>\<open>QSequentialAnimationGroup\<close> objects
  are represented by whether they run and by the values they interpolate between; their
  \<^verbatim>\<open>finished\<close> signals and the frames they deliver (writes of the \<^verbatim>\<open>viewportPos\<close> property) are
  events, \<open>slideFinished\<close>, \<open>bounceFinished\<close> and \<open>setViewportPos\<close>.
\<close>

datatype wdirection = WLeft | WRight

datatype anim_signal =
  RefWidthChanged | RefGapChanged | RefBounceChanged | BounceFactorChanged | RefWrapChanged
  | RunningChanged | ViewportPosChanged | AnimFinished

record wanim =
  refWidth :: real
  refGap :: real
  refBounce :: real
  bounceFactor :: real
  a_running :: bool
  viewportPos :: real
  animationInitial :: real
  animationDestination :: real
  needBounce :: bool
  initialIndex :: nat
  destinationIndex :: nat
  currentDirection :: wdirection
  slideActive :: bool
  bounceActive :: bool
  posAnimation :: "real \<times> real"
  bounceIn :: "real \<times> real"
  bounceOut :: "real \<times> real"
  a_signals :: "anim_signal list"

definition newWorkspaceAnimationController :: wanim where
  "newWorkspaceAnimationController =
     \<lparr>refWidth = 1920, refGap = 30, refBounce = 384, bounceFactor = 3 / 10, a_running = False,
      viewportPos = 0, animationInitial = 0, animationDestination = 0, needBounce = False,
      initialIndex = 0, destinationIndex = 0, currentDirection = WLeft, slideActive = False,
      bounceActive = False, posAnimation = (0, 0), bounceIn = (0, 0), bounceOut = (0, 0),
      a_signals = []\<rparr>"

definition a_emit :: "anim_signal \<Rightarrow> wanim \<Rightarrow> wanim" where
  "a_emit e a = a\<lparr>a_signals := a_signals a @ [e]\<rparr>"

definition qFuzzyCompare :: "real \<Rightarrow> real \<Rightarrow> bool" where
  "qFuzzyCompare p q = (\<bar>p - q\<bar> * 1000000000000 \<le> min \<bar>p\<bar> \<bar>q\<bar>)"

definition setRefWidth :: "real \<Rightarrow> wanim \<Rightarrow> wanim" where
  "setRefWidth v a =
     (if qFuzzyCompare (refWidth a) v then a
      else a_emit RefWrapChanged (a_emit RefWidthChanged (a\<lparr>refWidth := v\<rparr>)))"

definition setRefGap :: "real \<Rightarrow> wanim \<Rightarrow> wanim" where
  "setRefGap v a =
     (if qFuzzyCompare (refGap a) v then a
      else a_emit RefWrapChanged (a_emit RefGapChanged (a\<lparr>refGap := v\<rparr>)))"

definition setRefBounce :: "real \<Rightarrow> wanim \<Rightarrow> wanim" where
  "setRefBounce v a =
     (if qFuzzyCompare (refBounce a) v then a else a_emit RefBounceChanged (a\<lparr>refBounce := v\<rparr>))"

definition setBounceFactor :: "real \<Rightarrow> wanim \<Rightarrow> wanim" where
  "setBounceFactor v a =
     (if qFuzzyCompare (bounceFactor a) v then a
      else a_emit BounceFactorChanged (a\<lparr>bounceFactor := v\<rparr>))"

definition refWrap :: "wanim \<Rightarrow> real" where
  "refWrap a = refWidth a + refGap a"

definition setRunning :: "bool \<Rightarrow> wanim \<Rightarrow> wanim" where
  "setRunning b a = (if b = a_running a then a else a_emit RunningChanged (a\<lparr>a_running := b\<rparr>))"

definition setViewportPos :: "real \<Rightarrow> wanim \<Rightarrow> wanim" where
  "setViewportPos v a =
     (if qFuzzyCompare (viewportPos a) v then a else a_emit ViewportPosChanged (a\<lparr>viewportPos := v\<rparr>))"

definition startSlideAnimation :: "wanim \<Rightarrow> wanim" where
  "startSlideAnimation a =
     (let a = a\<lparr>posAnimation := (animationInitial a, animationDestination a)\<rparr>;
          a = a\<lparr>slideActive := True\<rparr>
      in setRunning True a)"

definition startBounceAnimation :: "wanim \<Rightarrow> wanim" where
  "startBounceAnimation a =
     (let d = animationDestination a + (if currentDirection a = WRight then refBounce a else - refBounce a);
          a = a\<lparr>bounceIn := (animationDestination a, d)\<rparr>;
          a = a\<lparr>bounceOut := (d, animationDestination a)\<rparr>;
          a = a\<lparr>bounceActive := True\<rparr>
      in setRunning True a)"

definition finishAnimation :: "wanim \<Rightarrow> wanim" where
  "finishAnimation a = setRunning False (a_emit AnimFinished a)"

text \<open>Truncation of \<^verbatim>\<open>qreal\<close> to \<^verbatim>\<open>uint\<close> (for the non-negative positions it is applied to).\<close>

definition truncate_uint :: "real \<Rightarrow> nat" where
  "truncate_uint r = nat \<lfloor>r\<rfloor>"

definition slideRunning :: "nat \<Rightarrow> wanim \<Rightarrow> wanim" where
  "slideRunning to_index a =
     (if \<not> a_running a then a
      else
        let a = a\<lparr>slideActive := False\<rparr>;
            a = a\<lparr>bounceActive := False\<rparr>;
            a = a\<lparr>animationInitial := viewportPos a\<rparr>;
            a = a\<lparr>animationDestination := refWrap a * of_nat to_index\<rparr>;
            a = a\<lparr>initialIndex := truncate_uint (viewportPos a / refWrap a)\<rparr>;
            a = a\<lparr>destinationIndex := to_index\<rparr>
        in a\<lparr>currentDirection :=
              (if animationDestination a > animationInitial a then WRight else WLeft)\<rparr>)"

definition slideNormal :: "nat \<Rightarrow> wanim \<Rightarrow> wanim" where
  "slideNormal from_index a =
     (let a = a\<lparr>slideActive := False\<rparr>;
          a = a\<lparr>bounceActive := False\<rparr>;
          a = a\<lparr>initialIndex := from_index\<rparr>;
          a = a\<lparr>destinationIndex := from_index\<rparr>;
          a = a\<lparr>animationInitial := refWrap a * of_nat from_index\<rparr>;
          a = a\<lparr>animationDestination := animationInitial a\<rparr>
      in setViewportPos (animationInitial a) a)"

definition slide :: "nat \<Rightarrow> nat \<Rightarrow> wanim \<Rightarrow> wanim" where
  "slide from_index to_index a =
     (let a = a\<lparr>needBounce := False\<rparr>;
          a = slideRunning to_index a;
          a = slideNormal from_index a;
          a = a\<lparr>destinationIndex := to_index\<rparr>;
          a = a\<lparr>animationDestination := refWrap a * of_nat to_index\<rparr>;
          a = a\<lparr>currentDirection := (if from_index < to_index then WRight else WLeft)\<rparr>
      in startSlideAnimation a)"

definition bounce :: "nat \<Rightarrow> wdirection \<Rightarrow> wanim \<Rightarrow> wanim" where
  "bounce current_index direction a =
     (if bounceActive a then a
      else if \<not> slideActive a then
        let a = a\<lparr>initialIndex := current_index\<rparr>;
            a = a\<lparr>destinationIndex := current_index\<rparr>;
            a = a\<lparr>currentDirection := direction\<rparr>;
            a = a\<lparr>animationInitial := refWrap a * of_nat (initialIndex a)\<rparr>;
            a = a\<lparr>animationDestination := refWrap a * of_nat (destinationIndex a)\<rparr>
        in startBounceAnimation a
      else a\<lparr>needBounce := True\<rparr>)"

definition gestureObstruction :: "real \<Rightarrow> wanim \<Rightarrow> real" where
  "gestureObstruction v a = (bounceFactor a / pi) * arctan (10 * v)"

definition startGestureSlide :: "real \<Rightarrow> bool \<Rightarrow> wanim \<Rightarrow> wanim" where
  "startGestureSlide cb bnc a =
     (let offset = (if bnc then gestureObstruction cb a else cb);
          pos = animationInitial a + refWrap a * offset
      in setViewportPos pos a)"

text \<open>The handlers the constructor connects to the groups' \<^verbatim>\<open>finished\<close> signals.\<close>

definition slideFinished :: "wanim \<Rightarrow> wanim" where
  "slideFinished a =
     (let a = a\<lparr>slideActive := False\<rparr>
      in if needBounce a then startBounceAnimation a else finishAnimation a)"

definition bounceFinished :: "wanim \<Rightarrow> wanim" where
  "bounceFinished a = finishAnimation (a\<lparr>bounceActive := False\<rparr>)"

section \<open>The controller as a transition system\<close>

text \<open>A group finishes only while it runs. A three-finger swipe freezes the picture
  (\<^verbatim>\<open>slideNormal\<close>, then \<^verbatim>\<open>setRunning(true)\<close>), moves it with the fingers and on release slides to the
  chosen workspace (\<^verbatim>\<open>slideRunning\<close>, then \<^verbatim>\<open>startSlideAnimation\<close>).\<close>

inductive anim_step :: "wanim \<Rightarrow> wanim \<Rightarrow> bool" where
  step_slide: "anim_step a (slide i j a)"
| step_bounce: "anim_step a (bounce i d a)"
| step_freeze: "anim_step a (setRunning True (slideNormal i a))"
| step_gesture: "anim_step a (startGestureSlide v b a)"
| step_release: "anim_step a (startSlideAnimation (slideRunning j a))"
| step_frame: "anim_step a (setViewportPos v a)"
| step_slide_done: "slideActive a \<Longrightarrow> anim_step a (slideFinished a)"
| step_bounce_done: "bounceActive a \<Longrightarrow> anim_step a (bounceFinished a)"

inductive_cases anim_stepE: "anim_step a b"

lemma a_emit_simps [simp]:
  "refWidth (a_emit e a) = refWidth a" "refGap (a_emit e a) = refGap a"
  "refBounce (a_emit e a) = refBounce a" "bounceFactor (a_emit e a) = bounceFactor a"
  "a_running (a_emit e a) = a_running a" "viewportPos (a_emit e a) = viewportPos a"
  "animationInitial (a_emit e a) = animationInitial a"
  "animationDestination (a_emit e a) = animationDestination a"
  "needBounce (a_emit e a) = needBounce a" "slideActive (a_emit e a) = slideActive a"
  "bounceActive (a_emit e a) = bounceActive a" "destinationIndex (a_emit e a) = destinationIndex a"
  "initialIndex (a_emit e a) = initialIndex a" "currentDirection (a_emit e a) = currentDirection a"
  "posAnimation (a_emit e a) = posAnimation a" "bounceIn (a_emit e a) = bounceIn a"
  "bounceOut (a_emit e a) = bounceOut a"
  by (simp_all add: a_emit_def)

lemmas anim_defs = slide_def slideRunning_def slideNormal_def startSlideAnimation_def
  startBounceAnimation_def finishAnimation_def bounce_def slideFinished_def bounceFinished_def
  setRunning_def setViewportPos_def startGestureSlide_def Let_def

text \<open>A group only runs while the controller does, both groups never run at once, and the
  destination is always the position of the destination index.\<close>

definition anim_inv :: "wanim \<Rightarrow> bool" where
  "anim_inv a =
     ((slideActive a \<or> bounceActive a \<longrightarrow> a_running a) \<and> \<not> (slideActive a \<and> bounceActive a)
      \<and> animationDestination a = refWrap a * of_nat (destinationIndex a)
      \<and> (slideActive a \<longrightarrow> posAnimation a = (animationInitial a, animationDestination a))
      \<and> (bounceActive a \<longrightarrow> snd (bounceOut a) = animationDestination a))"

lemma refWrap_simps [simp]:
  "refWrap (a_emit e a) = refWrap a" "refWrap (setViewportPos v a) = refWrap a"
  "refWrap (setRunning b a) = refWrap a" "refWrap (slideRunning j a) = refWrap a"
  "refWrap (slideNormal i a) = refWrap a" "refWrap (a\<lparr>viewportPos := p\<rparr>) = refWrap a"
  "refWrap (a\<lparr>needBounce := nb\<rparr>) = refWrap a" "refWrap (a\<lparr>slideActive := sl\<rparr>) = refWrap a"
  "refWrap (a\<lparr>bounceActive := sl\<rparr>) = refWrap a" "refWrap (a\<lparr>a_running := sl\<rparr>) = refWrap a"
  "refWrap (a\<lparr>initialIndex := n\<rparr>) = refWrap a" "refWrap (a\<lparr>destinationIndex := n\<rparr>) = refWrap a"
  "refWrap (a\<lparr>animationInitial := p\<rparr>) = refWrap a" "refWrap (a\<lparr>animationDestination := p\<rparr>) = refWrap a"
  "refWrap (a\<lparr>currentDirection := d\<rparr>) = refWrap a" "refWrap (a\<lparr>posAnimation := pq\<rparr>) = refWrap a"
  "refWrap (a\<lparr>bounceIn := pq\<rparr>) = refWrap a" "refWrap (a\<lparr>bounceOut := pq\<rparr>) = refWrap a"
  by (simp_all add: refWrap_def setViewportPos_def setRunning_def slideRunning_def slideNormal_def Let_def)

lemma setRunning_inv:
  "anim_inv a \<Longrightarrow> anim_inv (setRunning True a)"
  "\<not> slideActive a \<Longrightarrow> \<not> bounceActive a \<Longrightarrow> anim_inv a \<Longrightarrow> anim_inv (setRunning b a)"
  by (auto simp: anim_inv_def setRunning_def)

lemma setViewportPos_inv: "anim_inv a \<Longrightarrow> anim_inv (setViewportPos v a)"
  by (auto simp: anim_inv_def setViewportPos_def)

lemma slideNormal_inv: "anim_inv (slideNormal i a)"
  by (auto simp: slideNormal_def Let_def anim_inv_def setViewportPos_def)

lemma slideRunning_inv: "anim_inv a \<Longrightarrow> anim_inv (slideRunning j a)"
  by (auto simp: anim_inv_def slideRunning_def Let_def)

lemma startSlideAnimation_inv:
  "anim_inv a \<Longrightarrow> \<not> bounceActive a \<Longrightarrow> anim_inv (startSlideAnimation a)"
  unfolding startSlideAnimation_def Let_def by (auto simp: anim_inv_def setRunning_def)

lemma slideRunning_stops: "anim_inv a \<Longrightarrow> \<not> bounceActive (slideRunning j a)"
  by (auto simp: anim_inv_def slideRunning_def Let_def)

text \<open>\<^verbatim>\<open>slide\<close> calls \<^verbatim>\<open>slideRunning\<close> and then overwrites everything it computed: the result is the one of
  the same function without that call.\<close>

definition slide_direct :: "nat \<Rightarrow> nat \<Rightarrow> wanim \<Rightarrow> wanim" where
  "slide_direct i j a =
     (let a = slideNormal i (a\<lparr>needBounce := False\<rparr>)
      in startSlideAnimation
           (a\<lparr>destinationIndex := j, animationDestination := refWrap a * of_nat j,
              currentDirection := (if i < j then WRight else WLeft)\<rparr>))"

lemma slide_shape_inv:
  "w = refWrap c \<Longrightarrow> anim_inv ((slideNormal i c)\<lparr>destinationIndex := j,
     animationDestination := w * of_nat j, currentDirection := d\<rparr>)"
  "\<not> bounceActive (slideNormal i c)"
  by (auto simp: slideNormal_def Let_def anim_inv_def setViewportPos_def)

lemma anim_inv_step:
  assumes "anim_step a b" "anim_inv a"
  shows "anim_inv b"
  using assms
proof (cases rule: anim_step.cases)
  case (step_slide i j)
  then show ?thesis unfolding step_slide slide_def Let_def
    by (auto intro!: startSlideAnimation_inv slide_shape_inv(1) simp: slide_shape_inv(2))
next
  case (step_bounce i d)
  with assms(2) show ?thesis
    by (simp add: bounce_def Let_def anim_inv_def startBounceAnimation_def setRunning_def)
next
  case step_slide_done
  with assms(2) show ?thesis
    by (simp add: slideFinished_def finishAnimation_def Let_def anim_inv_def setRunning_def
        startBounceAnimation_def)
next
  case step_bounce_done
  with assms(2) show ?thesis
    by (simp add: bounceFinished_def finishAnimation_def anim_inv_def setRunning_def)
next
  case (step_release j)
  show ?thesis unfolding step_release
    using assms(2) by (intro startSlideAnimation_inv slideRunning_inv slideRunning_stops)
qed (auto simp: startGestureSlide_def Let_def
    intro: setRunning_inv slideNormal_inv setViewportPos_inv)

lemma anim_inv_reachable: "anim_step\<^sup>*\<^sup>* a b \<Longrightarrow> anim_inv a \<Longrightarrow> anim_inv b"
  by (induction rule: rtranclp_induct) (auto intro: anim_inv_step)

lemma anim_inv_new: "anim_inv newWorkspaceAnimationController"
  by (simp add: anim_inv_def newWorkspaceAnimationController_def)

text \<open>C14: in every state the controller can reach, an animation group runs only while the
  controller reports running, never both at once, and its end value is the position of the
  destination workspace. When a slide ends, the controller stops, or, when a bounce was asked
  for during the slide, starts exactly that bounce and stops at its end.\<close>

theorem animation_settles:
  assumes "anim_step\<^sup>*\<^sup>* newWorkspaceAnimationController a"
  shows "anim_inv a
    \<and> (slideActive a \<longrightarrow>
        (let b = slideFinished a; c = bounceFinished b in
         if needBounce a
         then a_running b \<and> bounceActive b \<and> \<not> slideActive b
              \<and> fst (bounceIn b) = refWrap a * of_nat (destinationIndex a)
              \<and> snd (bounceOut b) = refWrap a * of_nat (destinationIndex a)
              \<and> \<not> a_running c \<and> \<not> bounceActive c \<and> \<not> slideActive c
         else \<not> a_running b \<and> \<not> slideActive b \<and> \<not> bounceActive b))
    \<and> (bounceActive a \<longrightarrow> \<not> a_running (bounceFinished a))"
proof -
  have "anim_inv a" using anim_inv_reachable [OF assms anim_inv_new] .
  then show ?thesis
    by (auto simp: anim_inv_def slideFinished_def bounceFinished_def startBounceAnimation_def
        finishAnimation_def setRunning_def Let_def)
qed

theorem animation_settles_witness:
  "anim_inv (slide 0 1 newWorkspaceAnimationController)
   \<and> \<not> a_running (slideFinished (slide 0 1 newWorkspaceAnimationController))"
proof -
  let ?a = "slide 0 1 newWorkspaceAnimationController"
  have "anim_step\<^sup>*\<^sup>* newWorkspaceAnimationController ?a" by (blast intro: step_slide)
  from animation_settles [OF this] show ?thesis
    by (simp add: anim_defs newWorkspaceAnimationController_def a_emit_def qFuzzyCompare_def)
qed

text \<open>C15: \<^verbatim>\<open>slide\<close> always starts a slide from the position of the old workspace to that of the new
  one, whatever the controller was doing; the continuation from the current position that its
  call of \<^verbatim>\<open>slideRunning\<close> prepares has no effect on the result.\<close>

theorem slide_ignores_running:
  "slide i j a = slide_direct i j a
   \<and> (let b = slide i j a in a_running b \<and> slideActive b \<and> \<not> bounceActive b \<and> \<not> needBounce b
      \<and> posAnimation b = (refWrap a * of_nat i, refWrap a * of_nat j)
      \<and> destinationIndex b = j \<and> (currentDirection b = WRight \<longleftrightarrow> i < j))"
proof -
  have eq: "(slideNormal i (slideRunning j c))\<lparr>destinationIndex := k, animationDestination := p,
      currentDirection := d\<rparr> = (slideNormal i c)\<lparr>destinationIndex := k, animationDestination := p,
      currentDirection := d\<rparr>" for c k p d
    by (auto simp: slideNormal_def slideRunning_def Let_def setViewportPos_def refWrap_def a_emit_def)
  have "slide i j a = slide_direct i j a"
    by (simp add: slide_def slide_direct_def Let_def eq)
  moreover have "let b = slide_direct i j a in a_running b \<and> slideActive b \<and> \<not> bounceActive b \<and> \<not> needBounce b
      \<and> posAnimation b = (refWrap a * of_nat i, refWrap a * of_nat j)
      \<and> destinationIndex b = j \<and> (currentDirection b = WRight \<longleftrightarrow> i < j)"
    by (simp add: slide_direct_def slideNormal_def startSlideAnimation_def setRunning_def
        setViewportPos_def Let_def)
  ultimately show ?thesis by simp
qed

text \<open>Dragging past the first or last workspace moves the picture the way the fingers move, but
  always by less than half of the bounce factor of a workspace's width.\<close>

theorem gesture_obstruction_bounded:
  assumes "0 < bounceFactor a" "0 < refWrap a" "v < w"
  shows "\<bar>refWrap a * gestureObstruction v a\<bar> < refWrap a * (bounceFactor a / 2)
    \<and> gestureObstruction v a < gestureObstruction w a \<and> gestureObstruction 0 a = 0"
proof -
  have lt: "\<bar>arctan (10 * v)\<bar> < pi / 2" using arctan_bounded [of "10 * v"] by auto
  have "\<bar>gestureObstruction v a\<bar> = bounceFactor a / pi * \<bar>arctan (10 * v)\<bar>"
    using assms(1) by (simp add: gestureObstruction_def abs_mult)
  also have "\<dots> < bounceFactor a / pi * (pi / 2)"
    using lt assms(1) by (intro mult_strict_left_mono) auto
  finally have "\<bar>gestureObstruction v a\<bar> < bounceFactor a / 2" by simp
  moreover have "gestureObstruction v a < gestureObstruction w a"
    using assms by (simp add: gestureObstruction_def divide_strict_right_mono mult_strict_left_mono
        arctan_less_iff)
  moreover have "\<bar>refWrap a * gestureObstruction v a\<bar> = refWrap a * \<bar>gestureObstruction v a\<bar>"
    using assms(2) by (simp add: abs_mult)
  moreover have "gestureObstruction 0 a = 0" by (simp add: gestureObstruction_def)
  ultimately show ?thesis using assms(2) by simp
qed

theorem gesture_obstruction_bounded_witness:
  "\<bar>gestureObstruction 5 newWorkspaceAnimationController\<bar> < 15 / 100"
  using gesture_obstruction_bounded [of newWorkspaceAnimationController 5 6]
  by (simp add: newWorkspaceAnimationController_def refWrap_def abs_mult)

end
