(* ===== verification/Workspace.thy ===== *)
theory Workspace
  imports Workspace_Model Workspace_Animation
begin

text \<open>
  src/src/workspace/workspace.cpp: the container that distributes surfaces over workspaces.
  Workspaces are identified by their ids, which the code never reuses; a call on a
  \<^verbatim>\<open>WorkspaceModel *\<close> is \<open>on_model\<close> with the id, and \<open>Inl NullDeref\<close> is the call on a null pointer.
  This theory holds the state, the lookups, the activation history and the operations that move
  surfaces; switching and removing workspaces, which also move the focus, are in
  \<open>Workspace_Switch\<close>.
\<close>

record wstate = cscene +
  ws_cid :: cid
  models :: "wmodel list"
  allModel :: wmodel
  currentIndex :: int
  globalWorkspaceId :: int
  switcherEnabled :: bool
  switcher :: bool
  anim :: wanim
  previewingItem :: "sid option"
  cfgNumWorkspace :: int
  cfgCurrentWorkspace :: int
  multitaskview :: bool
  primaryOutput :: "nat option"
  cursorOutput :: "nat option"

abbreviation all_models :: "'a wstate_scheme \<Rightarrow> wmodel list" where
  "all_models s \<equiv> allModel s # models s"

section \<open>Lookups\<close>

definition ws_count :: "'a wstate_scheme \<Rightarrow> int" where
  "ws_count s = int (length (models s))"

definition modelAt :: "'a wstate_scheme \<Rightarrow> int \<Rightarrow> wmodel option" where
  "modelAt s i = (if i < 0 \<or> i \<ge> ws_count s then None else Some (models s ! nat i))"

definition modelFromId :: "'a wstate_scheme \<Rightarrow> int \<Rightarrow> wmodel option" where
  "modelFromId s i =
     (if i = ShowOnAllWorkspaceId then Some (allModel s)
      else List.find (\<lambda>m. m_id m = i) (models s))"

definition current :: "'a wstate_scheme \<Rightarrow> wmodel option" where
  "current s = modelAt s (currentIndex s)"

definition getLeftWorkspaceId :: "'a wstate_scheme \<Rightarrow> int \<Rightarrow> int result" where
  "getLeftWorkspaceId s i =
     (if i = ShowOnAllWorkspaceId \<or> i < 0 then Inr (- 1)
      else
        rbind (qassert (modelFromId s i \<noteq> None)) (\<lambda>_.
          let index = index_of (map m_id (models s)) i in
          if index = 0 then Inr (- 1)
          else rbind (deref (modelAt s (index - 1))) (\<lambda>m. Inr (m_id m))))"

definition getRightWorkspaceId :: "'a wstate_scheme \<Rightarrow> int \<Rightarrow> int result" where
  "getRightWorkspaceId s i =
     (if i = ShowOnAllWorkspaceId \<or> i < 0 then Inr (- 1)
      else
        rbind (qassert (modelFromId s i \<noteq> None)) (\<lambda>_.
          let index = index_of (map m_id (models s)) i in
          if index = ws_count s - 1 then Inr (- 1)
          else rbind (deref (modelAt s (index + 1))) (\<lambda>m. Inr (m_id m))))"

fun first_index_with :: "sid \<Rightarrow> int \<Rightarrow> wmodel list \<Rightarrow> int option" where
  "first_index_with x i [] = None"
| "first_index_with x i (m # ms) =
     (if hasObject x (m_surfaces m) then Some i else first_index_with x (i + 1) ms)"

definition modelIndexOfSurface :: "'a wstate_scheme \<Rightarrow> sid \<Rightarrow> int" where
  "modelIndexOfSurface s x =
     (case first_index_with x 0 (models s) of
        Some i \<Rightarrow> i
      | None \<Rightarrow> (if hasObject x (m_surfaces (allModel s)) then ShowOnAllWorkspaceId else - 1))"

section \<open>Calls on a workspace\<close>

definition put_model :: "wmodel \<Rightarrow> 'a wstate_scheme \<Rightarrow> 'a wstate_scheme" where
  "put_model m s =
     (if m_id m = ShowOnAllWorkspaceId then s\<lparr>allModel := m\<rparr>
      else s\<lparr>models := map (\<lambda>k. if m_id k = m_id m then m else k) (models s)\<rparr>)"

definition on_model ::
  "int \<Rightarrow> (wmodel \<Rightarrow> 'a wstate_scheme \<Rightarrow> wmodel \<times> 'a wstate_scheme) \<Rightarrow>
   'a wstate_scheme \<Rightarrow> 'a wstate_scheme result" where
  "on_model i f s =
     rbind (deref (modelFromId s i)) (\<lambda>m. let (m', s') = f m s in Inr (put_model m' s'))"

definition pure_op ::
  "(wmodel \<Rightarrow> wmodel) \<Rightarrow> wmodel \<Rightarrow> 'a wstate_scheme \<Rightarrow> wmodel \<times> 'a wstate_scheme" where
  "pure_op f m s = (f m, s)"

section \<open>Activation history across workspaces\<close>

definition pushActivedSurface :: "sid \<Rightarrow> 'a wstate_scheme \<Rightarrow> 'a wstate_scheme result" where
  "pushActivedSurface x s =
     (let w = wrappers s x in
      if sw_type w = XdgPopup then Inr s
      else if showOnAllWorkspace w
      then Inr (s\<lparr>models := map (wm_pushActivedSurface x) (models s),
                  allModel := wm_pushActivedSurface x (allModel s)\<rparr>)
      else
        rbind (qassert (modelFromId s (sw_workspaceId w) \<noteq> None)) (\<lambda>_.
          on_model (sw_workspaceId w) (pure_op (wm_pushActivedSurface x)) s))"

definition removeActivedSurface :: "sid \<Rightarrow> 'a wstate_scheme \<Rightarrow> 'a wstate_scheme result" where
  "removeActivedSurface x s =
     (let w = wrappers s x in
      if showOnAllWorkspace w
      then Inr (s\<lparr>models := map (wm_removeActivedSurface x) (models s),
                  allModel := wm_removeActivedSurface x (allModel s)\<rparr>)
      else
        rbind (qassert (modelFromId s (sw_workspaceId w) \<noteq> None)) (\<lambda>_.
          on_model (sw_workspaceId w) (pure_op (wm_removeActivedSurface x)) s))"

definition clearActivedSurface :: "'a wstate_scheme \<Rightarrow> 'a wstate_scheme" where
  "clearActivedSurface s =
     s\<lparr>models := map wm_clearActivedSurface (models s),
       allModel := wm_clearActivedSurface (allModel s)\<rparr>"

section \<open>Moving, adding and removing surfaces\<close>

text \<open>
  Moving a surface takes its transient children along, and a modal dialog its parent. The
  recursion ends because a surface that already carries the target id is not moved again;
  the fuel counts the depth, and one more than the number of surfaces that do not carry the id
  is enough (\<open>moveSurfaceTo_spec\<close>).
\<close>

fun moveSurfaceTo :: "nat \<Rightarrow> sid \<Rightarrow> int \<Rightarrow> 'a wstate_scheme \<Rightarrow> 'a wstate_scheme result"
  and moveSubSurfaces :: "nat \<Rightarrow> sid list \<Rightarrow> int \<Rightarrow> 'a wstate_scheme \<Rightarrow> 'a wstate_scheme result" where
  "moveSurfaceTo 0 x wid s = Inl OutOfFuel"
| "moveSurfaceTo (Suc n) x wid s =
     rbind (if wid = - 1 then rbind (deref (current s)) (\<lambda>m. Inr (m_id m)) else Inr wid) (\<lambda>wid.
     if sw_workspaceId (wrappers s x) = wid then Inr s
     else
       rbind (qassert (sw_workspaceId (wrappers s x) \<noteq> - 1)) (\<lambda>_.
       let from_id = (if showOnAllWorkspace (wrappers s x) then ShowOnAllWorkspaceId
                      else sw_workspaceId (wrappers s x)) in
       rbind (qassert (modelFromId s wid \<noteq> None)) (\<lambda>_.
       rbind (on_model from_id (wm_removeSurface x) s) (\<lambda>s.
       rbind (on_model wid (wm_addSurface x) s) (\<lambda>s.
       rbind (moveSubSurfaces n (sw_subSurfaces (wrappers s x)) wid s) (\<lambda>s.
       rbind (case sw_parentSurface (wrappers s x) of
                None \<Rightarrow> Inr s
              | Some p \<Rightarrow> if sw_modal (wrappers s x) then moveSurfaceTo n p wid s else Inr s) (\<lambda>s.
       if hasActiveCapability (wrappers s x)
       then rbind (removeActivedSurface x s) (pushActivedSurface x)
       else Inr s)))))))"
| "moveSubSurfaces n [] wid s = Inr s"
| "moveSubSurfaces n (c # cs) wid s =
     rbind (moveSurfaceTo n c wid s) (moveSubSurfaces n cs wid)"

text \<open>
  What \<^verbatim>\<open>RootSurfaceContainer::addBySubContainer\<close> does after the surface reached the root's list:
  request handlers, an owning output, the set of outputs. \<open>outputAt\<close> is wlroots'
  \<^verbatim>\<open>wlr_output_layout_output_at\<close> at the position of a popup.
\<close>

definition root_addBySubContainer ::
  "(sid \<Rightarrow> nat option) \<Rightarrow> sid \<Rightarrow> 'a wstate_scheme \<Rightarrow> 'a wstate_scheme result" where
  "root_addBySubContainer outputAt x s =
     (if sw_type (wrappers s x) = Layer then Inr s
      else
        let s = emit (SetupSurfaceRequestHandlers x) s; w = wrappers s x in
        rbind
          (if sw_ownsOutput w = None then
             let parent = sw_parentSurface w;
                 out = (case parent of Some p \<Rightarrow> sw_ownsOutput (wrappers s p) | None \<Rightarrow> cursorOutput s);
                 out = (if out = None then primaryOutput s else out)
             in rbind
                  (if sw_type w = XdgPopup \<and> sw_shellSurface w then
                     rbind (deref parent) (\<lambda>p.
                       Inr (if sw_type (wrappers s p) \<noteq> Layer \<and> outputAt x \<noteq> None
                            then outputAt x else out))
                   else Inr out) (\<lambda>out. Inr (setOwnsOutput out x s))
           else Inr s) (\<lambda>s. Inr (emit (UpdateSurfaceOutputs x) s)))"

definition addSurfaceToId ::
  "nat \<Rightarrow> (sid \<Rightarrow> nat option) \<Rightarrow> sid \<Rightarrow> int \<Rightarrow> 'a wstate_scheme \<Rightarrow> 'a wstate_scheme result" where
  "addSurfaceToId n outputAt x wid s =
     rbind (qassert (sw_container (wrappers s x) = None \<and> sw_workspaceId (wrappers s x) = - 1)) (\<lambda>_.
     rbind (qassert (modelFromId s wid \<noteq> None)) (\<lambda>_.
     rbind (container_addSurface n (ws_cid s) x s) (\<lambda>s.
     rbind (root_addBySubContainer outputAt x s) (\<lambda>s.
     rbind (qassert (sw_ownsOutput (wrappers s x) \<noteq> None \<or> primaryOutput s = None)) (\<lambda>_.
     rbind (on_model wid (wm_addSurface x) s) (setHasInitializeContainer True x))))))"

definition addSurface ::
  "nat \<Rightarrow> (sid \<Rightarrow> nat option) \<Rightarrow> sid \<Rightarrow> 'a wstate_scheme \<Rightarrow> 'a wstate_scheme result" where
  "addSurface n outputAt x s =
     rbind (deref (current s)) (\<lambda>m. addSurfaceToId n outputAt x (m_id m) s)"

definition removeSurface :: "nat \<Rightarrow> sid \<Rightarrow> 'a wstate_scheme \<Rightarrow> 'a wstate_scheme result" where
  "removeSurface n x s =
     rbind (setHasInitializeContainer False x s) (\<lambda>s.
     let from_id = (if showOnAllWorkspace (wrappers s x) then ShowOnAllWorkspaceId
                    else sw_workspaceId (wrappers s x)) in
     rbind (qassert (modelFromId s from_id \<noteq> None)) (\<lambda>_.
     rbind (on_model from_id (wm_removeSurface x) s) (\<lambda>s.
     container_removeSurface n (ws_cid s) x s)))"

section \<open>The workspace invariant\<close>

definition ws_shape :: "'a wstate_scheme \<Rightarrow> bool" where
  "ws_shape s =
     (m_id (allModel s) = ShowOnAllWorkspaceId \<and> distinct (map m_id (models s))
      \<and> (\<forall>m\<in>set (models s). 0 \<le> m_id m \<and> m_id m < globalWorkspaceId s)
      \<and> (\<forall>m\<in>set (all_models s). distinct (m_surfaces m)))"

text \<open>An ordinary window: nothing but its workspace id decides where it is shown.\<close>

definition plain :: "swrapper \<Rightarrow> bool" where
  "plain w =
     (\<not> (sw_type w = Layer \<or> sw_type w = XdgPopup \<or> isInputPopupLike w \<or> sw_isSnapMask w
         \<or> sw_role w = PrivilegedOverlay))"

text \<open>A surface is listed by a workspace exactly when it carries that workspace's id; an id
  other than \<open>-1\<close> is that of a workspace, and only ordinary windows have one.\<close>

definition ws_members :: "'a wstate_scheme \<Rightarrow> bool" where
  "ws_members s =
     ((\<forall>m\<in>set (all_models s). \<forall>x. x \<in> set (m_surfaces m) \<longleftrightarrow> sw_workspaceId (wrappers s x) = m_id m)
      \<and> (\<forall>x. sw_workspaceId (wrappers s x) \<noteq> - 1 \<longrightarrow>
           sw_workspaceId (wrappers s x) \<in> m_id ` set (all_models s) \<and> plain (wrappers s x)))"

definition ws_settled :: "'a wstate_scheme \<Rightarrow> bool" where
  "ws_settled s = (\<forall>m\<in>set (all_models s). wm_settled m (wrappers s))"

definition ws_inv :: "'a wstate_scheme \<Rightarrow> bool" where
  "ws_inv s = (ws_shape s \<and> ws_members s)"

lemma more_eqD:
  fixes s t :: "'a wstate_scheme"
  assumes "scene.more s = scene.more t"
  shows "containers s = containers t" "ws_cid s = ws_cid t" "models s = models t"
    "allModel s = allModel t" "currentIndex s = currentIndex t"
    "globalWorkspaceId s = globalWorkspaceId t" "switcherEnabled s = switcherEnabled t"
    "switcher s = switcher t" "anim s = anim t" "previewingItem s = previewingItem t"
    "cfgNumWorkspace s = cfgNumWorkspace t" "cfgCurrentWorkspace s = cfgCurrentWorkspace t"
    "multitaskview s = multitaskview t" "primaryOutput s = primaryOutput t"
    "cursorOutput s = cursorOutput t"
  using assms by (cases s; cases t; simp)+

lemma put_model_frame [simp, scene_simps]:
  "wrappers (put_model m s) = wrappers s" "containers (put_model m s) = containers s"
  "ws_cid (put_model m s) = ws_cid s" "currentIndex (put_model m s) = currentIndex s"
  "globalWorkspaceId (put_model m s) = globalWorkspaceId s" "length (models (put_model m s)) = length (models s)"
  "primaryOutput (put_model m s) = primaryOutput s" "multitaskview (put_model m s) = multitaskview s"
  by (simp_all add: put_model_def)

lemma all_models_put_model:
  assumes "ws_shape s"
  shows "all_models (put_model m s) = map (\<lambda>k. if m_id k = m_id m then m else k) (all_models s)"
proof -
  have "map (\<lambda>k. if m_id k = ShowOnAllWorkspaceId then m else k) (models s) = models s"
    using assms by (intro map_idI) (fastforce simp: ws_shape_def ShowOnAllWorkspaceId_def)
  with assms show ?thesis by (auto simp: ws_shape_def put_model_def)
qed

lemma modelFromId_Some: "modelFromId s i = Some m \<Longrightarrow> ws_shape s \<Longrightarrow> m \<in> set (all_models s) \<and> m_id m = i"
  by (auto simp: modelFromId_def ws_shape_def split: if_splits dest: find_in_set)

lemma ws_shape_ids: "ws_shape s \<Longrightarrow> distinct (map m_id (all_models s))"
  by (auto simp: ws_shape_def ShowOnAllWorkspaceId_def)

lemma ids_distinct:
  assumes "ws_shape s" "m \<in> set (all_models s)" "k \<in> set (all_models s)" "m_id m = m_id k"
  shows "m = k"
  using ws_shape_ids [OF assms(1)] assms(2-4) by (meson distinct_map inj_onD)

lemma modelFromId_member:
  assumes "ws_shape s" "m \<in> set (all_models s)"
  shows "modelFromId s (m_id m) = Some m"
proof (cases "m_id m = ShowOnAllWorkspaceId")
  case True
  then have "m_id m = m_id (allModel s)" using assms(1) by (simp add: ws_shape_def)
  then have "m = allModel s" by (intro ids_distinct [OF assms]) simp_all
  with True show ?thesis by (simp add: modelFromId_def)
next
  case False
  with assms have m: "m \<in> set (models s)" by (auto simp: ws_shape_def)
  then obtain k where k: "List.find (\<lambda>k. m_id k = m_id m) (models s) = Some k"
    by (cases "List.find (\<lambda>k. m_id k = m_id m) (models s)") (auto simp: find_None_iff)
  then have "k \<in> set (all_models s)" "m_id m = m_id k" by (auto dest: find_in_set)
  then have "m = k" by (rule ids_distinct [OF assms])
  with False k show ?thesis by (simp add: modelFromId_def)
qed

lemma modelFromId_valid:
  "ws_shape s \<Longrightarrow> modelFromId s i \<noteq> None \<longleftrightarrow> i \<in> m_id ` set (all_models s)"
  by (metis (no_types, lifting) image_iff modelFromId_Some modelFromId_member not_Some_eq)

text \<open>A call on a workspace that changes neither its id nor, of the scene, anything but the
  wrappers and the trace.\<close>

lemma on_model_spec:
  fixes s :: "'a wstate_scheme"
  assumes "ws_shape s" "m \<in> set (all_models s)"
    and "m_id (fst (f m s)) = m_id m" "scene.more (snd (f m s)) = scene.more s"
  shows "\<exists>t. on_model (m_id m) f s = Inr t
     \<and> all_models t = map (\<lambda>k. if m_id k = m_id m then fst (f m s) else k) (all_models s)
     \<and> wrappers t = wrappers (snd (f m s)) \<and> containers t = containers s \<and> ws_cid t = ws_cid s
     \<and> currentIndex t = currentIndex s \<and> globalWorkspaceId t = globalWorkspaceId s
     \<and> primaryOutput t = primaryOutput s \<and> multitaskview t = multitaskview s"
proof -
  obtain m' s' where f: "f m s = (m', s')" by fastforce
  with assms have id: "m_id m' = m_id m" and more: "scene.more s' = scene.more s" by auto
  note fr = more_eqD [OF more]
  have shape: "ws_shape s'" using assms(1) by (simp add: ws_shape_def fr)
  show ?thesis
    using modelFromId_member [OF assms(1,2)] all_models_put_model [OF shape, of m'] f id fr
    by (simp add: on_model_def)
qed

section \<open>One surface in or out of a workspace\<close>

text \<open>The part of a wrapper no workspace operation changes, and the part of the state that moving
  surfaces leaves alone.\<close>

definition kernel_of :: "swrapper \<Rightarrow> swrapper" where
  "kernel_of w = (core_of w)\<lparr>sw_workspaceId := 0\<rparr>"

definition model_frame :: "wmodel \<Rightarrow> int \<times> bool \<times> bool" where
  "model_frame m = (m_id m, m_visible m, m_opaque m)"

definition ws_frame :: "'a wstate_scheme \<Rightarrow> 'a wstate_scheme \<Rightarrow> bool" where
  "ws_frame s t =
     (map model_frame (all_models t) = map model_frame (all_models s)
      \<and> containers t = containers s \<and> ws_cid t = ws_cid s \<and> currentIndex t = currentIndex s
      \<and> globalWorkspaceId t = globalWorkspaceId s \<and> primaryOutput t = primaryOutput s
      \<and> multitaskview t = multitaskview s
      \<and> (\<forall>y. kernel_of (wrappers t y) = kernel_of (wrappers s y)))"

lemma ws_frame_refl [simp]: "ws_frame s s"
  by (simp add: ws_frame_def)

lemma ws_frame_trans: "ws_frame s t \<Longrightarrow> ws_frame t u \<Longrightarrow> ws_frame s u"
  by (simp add: ws_frame_def)

lemma kernel_of_fields [simp, scene_simps]:
  "sw_container (kernel_of w) = sw_container w"
  "sw_subSurfaces (kernel_of w) = sw_subSurfaces w" "sw_parentSurface (kernel_of w) = sw_parentSurface w"
  "sw_modal (kernel_of w) = sw_modal w" "sw_activeStates (kernel_of w) = sw_activeStates w"
  "sw_type (kernel_of w) = sw_type w" "plain (kernel_of w) = plain w"
  by (simp_all add: kernel_of_def core_of_def plain_def isInputPopupLike_def)

lemma kernel_of_eqD:
  assumes "kernel_of v = kernel_of w"
  shows "sw_container v = sw_container w" "sw_subSurfaces v = sw_subSurfaces w"
    "sw_parentSurface v = sw_parentSurface w" "sw_modal v = sw_modal w"
    "sw_activeStates v = sw_activeStates w" "plain v = plain w" "sw_type v = sw_type w"
  using assms by (metis kernel_of_fields)+

lemma kernel_of_core: "core_of v = core_of w \<Longrightarrow> kernel_of v = kernel_of w"
  by (simp add: kernel_of_def)

lemma kernel_of_id [simp]: "kernel_of (w\<lparr>sw_workspaceId := i\<rparr>) = kernel_of w"
  by (cases w) (simp add: kernel_of_def core_of_def)

lemma model_frame_ids: "ws_frame s t \<Longrightarrow> map m_id (all_models t) = map m_id (all_models s)"
  unfolding ws_frame_def model_frame_def by (auto dest!: arg_cong [of _ _ "map fst"] simp: comp_def)

lemma ws_frame_id_set: "ws_frame s t \<Longrightarrow> m_id ` set (all_models t) = m_id ` set (all_models s)"
  by (metis model_frame_ids set_map)

lemma plain_showOnAll: "plain w \<Longrightarrow> showOnAllWorkspace w \<longleftrightarrow> sw_workspaceId w = ShowOnAllWorkspaceId"
  by (auto simp: plain_def showOnAllWorkspace_def)

lemma ws_membersD:
  "ws_members s \<Longrightarrow> m \<in> set (all_models s) \<Longrightarrow>
   x \<in> set (m_surfaces m) \<longleftrightarrow> sw_workspaceId (wrappers s x) = m_id m"
  unfolding ws_members_def by blast

lemma ws_inv_id_neq: "ws_shape s \<Longrightarrow> m \<in> set (all_models s) \<Longrightarrow> m_id m \<noteq> - 1"
  by (auto simp: ws_shape_def ShowOnAllWorkspaceId_def)

text \<open>Exchanging one workspace for another version of it.\<close>

definition exchanged :: "wmodel \<Rightarrow> 'a wstate_scheme \<Rightarrow> 'a wstate_scheme \<Rightarrow> bool" where
  "exchanged m' s t =
     (all_models t = map (\<lambda>k. if m_id k = m_id m' then m' else k) (all_models s)
      \<and> globalWorkspaceId t = globalWorkspaceId s)"

lemma exchanged_ids: "exchanged m' s t \<Longrightarrow> map m_id (all_models t) = map m_id (all_models s)"
  by (simp add: exchanged_def comp_def)

lemma exchanged_cases:
  assumes "exchanged m' s t" "k \<in> set (all_models t)"
  shows "k = m' \<or> k \<in> set (all_models s) \<and> m_id k \<noteq> m_id m'"
proof -
  have "k \<in> (\<lambda>k. if m_id k = m_id m' then m' else k) ` set (all_models s)"
    using assms unfolding exchanged_def by (metis set_map)
  then obtain k0 where "k0 \<in> set (all_models s)" "k = (if m_id k0 = m_id m' then m' else k0)"
    by blast
  then show ?thesis by (cases "m_id k0 = m_id m'") auto
qed

lemma exchanged_id_set: "exchanged m' s t \<Longrightarrow> m_id ` set (all_models t) = m_id ` set (all_models s)"
  by (metis exchanged_ids set_map)

lemma exchanged_shape:
  assumes "exchanged m' s t" "ws_shape s" "distinct (m_surfaces m')"
  shows "ws_shape t"
proof -
  note ids = exchanged_ids [OF assms(1)]
  have "distinct (map m_id (models t))" "m_id (allModel t) = ShowOnAllWorkspaceId"
    using ids assms(2) by (simp_all add: ws_shape_def)
  moreover have "0 \<le> m_id k \<and> m_id k < globalWorkspaceId t" if "k \<in> set (models t)" for k
  proof -
    have "map m_id (models t) = map m_id (models s)" using ids by simp
    with that have "m_id k \<in> m_id ` set (models s)" by (metis imageI set_map)
    with assms(1,2) show ?thesis by (auto simp: ws_shape_def exchanged_def)
  qed
  moreover have "distinct (m_surfaces k)" if "k \<in> set (all_models t)" for k
    using exchanged_cases [OF assms(1) that] assms(2,3) by (auto simp: ws_shape_def)
  ultimately show ?thesis by (simp add: ws_shape_def)
qed

text \<open>The exchanged workspace differs by the surface \<open>x\<close>, which gets the id \<open>i\<close>.\<close>

lemma exchanged_members:
  fixes s t :: "'a wstate_scheme"
  assumes ex: "exchanged m' s t" and inv: "ws_inv s"
    and m: "m \<in> set (all_models s)" "m_id m' = m_id m"
    and mem: "\<And>y. y \<in> set (m_surfaces m') \<longleftrightarrow> (if y = x then i = m_id m else y \<in> set (m_surfaces m))"
    and wid: "\<And>y. sw_workspaceId (wrappers t y) = (if y = x then i else sw_workspaceId (wrappers s y))"
    and pl: "\<And>y. plain (wrappers t y) = plain (wrappers s y)"
    and i: "i = - 1 \<or> i = m_id m \<and> plain (wrappers s x)"
    and old: "sw_workspaceId (wrappers s x) = m_id m \<or> sw_workspaceId (wrappers s x) = - 1"
  shows "ws_members t"
proof -
  have shape: "ws_shape s" and mb: "ws_members s" using inv by (auto simp: ws_inv_def)
  have "y \<in> set (m_surfaces k) \<longleftrightarrow> sw_workspaceId (wrappers t y) = m_id k"
    if k: "k \<in> set (all_models t)" for k y
    using exchanged_cases [OF ex k]
  proof
    assume "k = m'"
    then show ?thesis using mem [of y] ws_membersD [OF mb m(1), of y] m(2) by (simp add: wid)
  next
    assume "k \<in> set (all_models s) \<and> m_id k \<noteq> m_id m'"
    moreover from this have "m_id k \<noteq> - 1" using ws_inv_id_neq [OF shape] by blast
    moreover from calculation have "y \<in> set (m_surfaces k) \<longleftrightarrow> sw_workspaceId (wrappers s y) = m_id k"
      using ws_membersD [OF mb] by blast
    ultimately show ?thesis using i old m(2) by (auto simp: wid)
  qed
  moreover have "sw_workspaceId (wrappers t y) \<in> m_id ` set (all_models t) \<and> plain (wrappers t y)"
    if "sw_workspaceId (wrappers t y) \<noteq> - 1" for y
  proof (cases "y = x")
    case True
    with that i m show ?thesis unfolding exchanged_id_set [OF ex] by (auto simp: wid pl)
  next
    case False
    with that mb show ?thesis unfolding exchanged_id_set [OF ex] by (simp add: wid pl ws_members_def)
  qed
  ultimately show ?thesis unfolding ws_members_def by blast
qed

lemma exchanged_settled:
  assumes ex: "exchanged m' s t" and set: "ws_settled s" and m': "wm_settled m' (wrappers t)"
    and mb: "ws_members s"
    and x: "sw_workspaceId (wrappers s x) = m_id m' \<or> sw_workspaceId (wrappers s x) = - 1" and shape: "ws_shape s"
    and hide: "\<And>y. y \<noteq> x \<Longrightarrow> sw_hideByWorkspace (wrappers t y) = sw_hideByWorkspace (wrappers s y)"
  shows "ws_settled t"
  unfolding ws_settled_def
proof
  fix k assume "k \<in> set (all_models t)"
  from exchanged_cases [OF ex this] show "wm_settled k (wrappers t)"
  proof
    assume k: "k \<in> set (all_models s) \<and> m_id k \<noteq> m_id m'"
    then have "m_id k \<noteq> - 1" using ws_inv_id_neq [OF shape] by blast
    with k x ws_membersD [OF mb, of k x] have "x \<notin> set (m_surfaces k)" by auto
    moreover have "wm_settled k (wrappers s)" using k set unfolding ws_settled_def by blast
    ultimately show ?thesis using hide unfolding wm_settled_def by metis
  qed (simp add: m')
qed

lemma ws_frame_exchanged:
  assumes "exchanged m' s t" "m \<in> set (all_models s)" "model_frame m' = model_frame m" "ws_shape s"
    and "containers t = containers s" "ws_cid t = ws_cid s" "currentIndex t = currentIndex s"
    "primaryOutput t = primaryOutput s" "multitaskview t = multitaskview s"
    and "\<And>y. kernel_of (wrappers t y) = kernel_of (wrappers s y)"
  shows "ws_frame s t"
proof -
  have "(\<lambda>k. model_frame (if m_id k = m_id m' then m' else k)) k = model_frame k"
    if "k \<in> set (all_models s)" for k
    using assms(3) ids_distinct [OF assms(4) that assms(2)] by (auto simp: model_frame_def)
  then have "map model_frame (map (\<lambda>k. if m_id k = m_id m' then m' else k) (all_models s))
     = map model_frame (all_models s)"
    unfolding map_map comp_def by (intro map_cong refl) blast
  then show ?thesis using assms unfolding ws_frame_def exchanged_def by metis
qed

lemma exchanged_remove:
  fixes s t :: "'a wstate_scheme" and s0 :: "'b scene_scheme"
  assumes inv: "ws_inv s" and m: "m \<in> set (all_models s)" and x: "x \<in> set (m_surfaces m)"
    and ex: "exchanged (fst (wm_removeSurface x m s0)) s t"
    and w0: "wrappers s0 = wrappers s" and wr: "wrappers t = wrappers (snd (wm_removeSurface x m s0))"
  shows "ws_inv t" "\<And>y. kernel_of (wrappers t y) = kernel_of (wrappers s y)"
    "\<And>y. sw_workspaceId (wrappers t y) = (if y = x then - 1 else sw_workspaceId (wrappers s y))"
    "ws_settled s \<Longrightarrow> ws_settled t"
proof -
  have shape: "ws_shape s" and mb: "ws_members s" using inv by (auto simp: ws_inv_def)
  let ?m = "fst (wm_removeSurface x m s0)"
  have dist: "distinct (m_surfaces m)" using shape m by (auto simp: ws_shape_def)
  have core: "core_of (wrappers t y) = (if y = x then core_of ((wrappers s x)\<lparr>sw_workspaceId := - 1\<rparr>)
      else core_of (wrappers s y))" for y by (simp add: wr wm_removeSurface_core w0)
  show ker: "kernel_of (wrappers t y) = kernel_of (wrappers s y)" for y
    using core [of y] kernel_of_core kernel_of_id by (metis (full_types))
  show wid: "sw_workspaceId (wrappers t y) = (if y = x then - 1 else sw_workspaceId (wrappers s y))" for y
    using core [of y] core_of_eqD(1) [of "wrappers t y"] by (auto split: if_splits)
  have old: "sw_workspaceId (wrappers s x) = m_id m" using ws_membersD [OF mb m] x by blast
  have "ws_members t"
    by (rule exchanged_members [OF ex inv m _ _ wid])
      (use dist old kernel_of_eqD(6) [OF ker] ws_inv_id_neq [OF shape m] in auto)
  moreover have "ws_shape t" using dist by (intro exchanged_shape [OF ex shape]) simp
  ultimately show "ws_inv t" by (simp add: ws_inv_def)
  show "ws_settled t" if "ws_settled s"
  proof (rule exchanged_settled [OF ex that _ mb _ shape])
    have "wm_settled m (wrappers s0)" using that m unfolding ws_settled_def w0 by blast
    from wm_removeSurface_settled [OF this dist, of x]
    show "wm_settled ?m (wrappers t)" by (simp only: wr)
    show "sw_hideByWorkspace (wrappers t y) = sw_hideByWorkspace (wrappers s y)" if "y \<noteq> x" for y
      using that by (simp add: wr wm_removeSurface_hide w0)
  qed (use old in simp)
qed

lemma exchanged_add:
  fixes s t :: "'a wstate_scheme" and s0 :: "'b scene_scheme"
  assumes inv: "ws_inv s" and m: "m \<in> set (all_models s)" and x: "sw_workspaceId (wrappers s x) = - 1"
    and pl: "plain (wrappers s x)"
    and ex: "exchanged (fst (wm_addSurface x m s0)) s t"
    and w0: "wrappers s0 = wrappers s" and wr: "wrappers t = wrappers (snd (wm_addSurface x m s0))"
  shows "ws_inv t" "\<And>y. kernel_of (wrappers t y) = kernel_of (wrappers s y)"
    "\<And>y. sw_workspaceId (wrappers t y) = (if y = x then m_id m else sw_workspaceId (wrappers s y))"
    "ws_settled s \<Longrightarrow> ws_settled t"
proof -
  have shape: "ws_shape s" and mb: "ws_members s" using inv by (auto simp: ws_inv_def)
  let ?m = "fst (wm_addSurface x m s0)"
  have dist: "distinct (m_surfaces m)" using shape m by (auto simp: ws_shape_def)
  have core: "core_of (wrappers t y) = (if y = x then core_of ((wrappers s x)\<lparr>sw_workspaceId := m_id m\<rparr>)
      else core_of (wrappers s y))" for y by (simp add: wr wm_addSurface_core w0)
  show ker: "kernel_of (wrappers t y) = kernel_of (wrappers s y)" for y
    using core [of y] kernel_of_core kernel_of_id by (metis (full_types))
  show wid: "sw_workspaceId (wrappers t y) = (if y = x then m_id m else sw_workspaceId (wrappers s y))" for y
    using core [of y] core_of_eqD(1) [of "wrappers t y"] by (auto split: if_splits)
  have "ws_members t"
    by (rule exchanged_members [OF ex inv m _ _ wid])
      (use x pl kernel_of_eqD(6) [OF ker] in auto)
  moreover have "ws_shape t" using dist by (intro exchanged_shape [OF ex shape]) simp
  ultimately show "ws_inv t" by (simp add: ws_inv_def)
  show "ws_settled t" if "ws_settled s"
  proof (rule exchanged_settled [OF ex that _ mb _ shape])
    have "wm_settled m (wrappers s0)" using that m unfolding ws_settled_def w0 by blast
    from wm_addSurface_settled [OF this, of x]
    show "wm_settled ?m (wrappers t)" by (simp only: wr)
    show "sw_hideByWorkspace (wrappers t y) = sw_hideByWorkspace (wrappers s y)" if "y \<noteq> x" for y
      using that by (simp add: wr wm_addSurface_hide w0)
  qed (use x in simp)
qed

lemma remove_step:
  fixes s :: "'a wstate_scheme"
  assumes inv: "ws_inv s" and m: "m \<in> set (all_models s)" and x: "x \<in> set (m_surfaces m)"
  obtains t where "on_model (m_id m) (wm_removeSurface x) s = Inr t" "ws_inv t" "ws_frame s t"
    "exchanged (fst (wm_removeSurface x m s)) s t"
    "\<And>y. sw_workspaceId (wrappers t y) = (if y = x then - 1 else sw_workspaceId (wrappers s y))"
    "ws_settled s \<Longrightarrow> ws_settled t"
proof -
  have shape: "ws_shape s" using inv by (simp add: ws_inv_def)
  let ?m = "fst (wm_removeSurface x m s)"
  obtain t where t: "on_model (m_id m) (wm_removeSurface x) s = Inr t"
    "all_models t = map (\<lambda>k. if m_id k = m_id m then ?m else k) (all_models s)"
    and wr: "wrappers t = wrappers (snd (wm_removeSurface x m s))"
    and fr: "containers t = containers s" "ws_cid t = ws_cid s" "currentIndex t = currentIndex s"
      "globalWorkspaceId t = globalWorkspaceId s" "primaryOutput t = primaryOutput s"
      "multitaskview t = multitaskview s"
    using on_model_spec [OF shape m, of "wm_removeSurface x"] by auto
  have ex: "exchanged ?m s t" using t(2) fr(4) by (simp add: exchanged_def)
  note facts = exchanged_remove [OF inv m x ex refl wr]
  have "ws_frame s t"
    by (rule ws_frame_exchanged [OF ex m _ shape]) (simp_all add: model_frame_def fr facts(2))
  with that [OF t(1) facts(1) _ ex facts(3,4)] show thesis by blast
qed

lemma add_step:
  fixes s :: "'a wstate_scheme"
  assumes inv: "ws_inv s" and m: "m \<in> set (all_models s)" and x: "sw_workspaceId (wrappers s x) = - 1"
    and pl: "plain (wrappers s x)"
  obtains t where "on_model (m_id m) (wm_addSurface x) s = Inr t" "ws_inv t" "ws_frame s t"
    "exchanged (fst (wm_addSurface x m s)) s t"
    "\<And>y. sw_workspaceId (wrappers t y) = (if y = x then m_id m else sw_workspaceId (wrappers s y))"
    "ws_settled s \<Longrightarrow> ws_settled t"
proof -
  have shape: "ws_shape s" using inv by (simp add: ws_inv_def)
  let ?m = "fst (wm_addSurface x m s)"
  obtain t where t: "on_model (m_id m) (wm_addSurface x) s = Inr t"
    "all_models t = map (\<lambda>k. if m_id k = m_id m then ?m else k) (all_models s)"
    and wr: "wrappers t = wrappers (snd (wm_addSurface x m s))"
    and fr: "containers t = containers s" "ws_cid t = ws_cid s" "currentIndex t = currentIndex s"
      "globalWorkspaceId t = globalWorkspaceId s" "primaryOutput t = primaryOutput s"
      "multitaskview t = multitaskview s"
    using on_model_spec [OF shape m, of "wm_addSurface x"] by auto
  have ex: "exchanged ?m s t" using t(2) fr(4) by (simp add: exchanged_def)
  note facts = exchanged_add [OF inv m x pl ex refl wr]
  have "ws_frame s t"
    by (rule ws_frame_exchanged [OF ex m _ shape]) (simp_all add: model_frame_def fr facts(2))
  with that [OF t(1) facts(1) _ ex facts(3,4)] show thesis by blast
qed

section \<open>History operations\<close>

text \<open>A step that changes nothing but activation histories.\<close>

definition hist_only :: "'a wstate_scheme \<Rightarrow> 'a wstate_scheme \<Rightarrow> (wmodel \<Rightarrow> sid list) \<Rightarrow> bool" where
  "hist_only s t h =
     (all_models t = map (\<lambda>m. m\<lparr>m_history := h m\<rparr>) (all_models s) \<and> wrappers t = wrappers s
      \<and> containers t = containers s \<and> ws_cid t = ws_cid s \<and> currentIndex t = currentIndex s
      \<and> globalWorkspaceId t = globalWorkspaceId s \<and> primaryOutput t = primaryOutput s
      \<and> multitaskview t = multitaskview s)"

lemma hist_only_shape:
  assumes "hist_only s t h" "ws_shape s"
  shows "ws_shape t"
  using assms by (simp add: hist_only_def ws_shape_def comp_def)

lemma hist_only_inv:
  assumes "hist_only s t h" "ws_inv s"
  shows "ws_inv t"
proof -
  have im: "m_id ` set (all_models t) = m_id ` set (all_models s)"
    using assms(1) unfolding hist_only_def by (simp add: image_image)
  have "x \<in> set (m_surfaces m) \<longleftrightarrow> sw_workspaceId (wrappers t x) = m_id m"
    if m: "m \<in> set (all_models t)" for m x
  proof -
    have "m \<in> (\<lambda>m. m\<lparr>m_history := h m\<rparr>) ` set (all_models s)"
      using m assms(1) unfolding hist_only_def by (metis set_map)
    then obtain k where "k \<in> set (all_models s)" "m = k\<lparr>m_history := h k\<rparr>" by blast
    with assms ws_membersD [of s k x] show ?thesis by (simp add: hist_only_def ws_inv_def)
  qed
  then have "ws_members t"
    using assms unfolding ws_members_def ws_inv_def im by (simp add: hist_only_def)
  with hist_only_shape [OF assms(1)] assms(2) show ?thesis by (simp add: ws_inv_def)
qed

lemma hist_only_frame: "hist_only s t h \<Longrightarrow> ws_frame s t"
  by (simp add: hist_only_def ws_frame_def model_frame_def comp_def)

lemma hist_only_settled: "hist_only s t h \<Longrightarrow> ws_settled s \<Longrightarrow> ws_settled t"
  by (simp add: hist_only_def ws_settled_def wm_settled_def)

lemma on_model_history:
  assumes "ws_shape s" "m \<in> set (all_models s)" "\<And>k. f k = k\<lparr>m_history := h k\<rparr>"
  shows "\<exists>t. on_model (m_id m) (pure_op f) s = Inr t
     \<and> hist_only s t (\<lambda>k. if m_id k = m_id m then h k else m_history k)"
proof -
  obtain t where t: "on_model (m_id m) (pure_op f) s = Inr t"
    "all_models t = map (\<lambda>k. if m_id k = m_id m then f m else k) (all_models s)"
    and fr: "wrappers t = wrappers s" "containers t = containers s" "ws_cid t = ws_cid s"
      "currentIndex t = currentIndex s" "globalWorkspaceId t = globalWorkspaceId s"
      "primaryOutput t = primaryOutput s" "multitaskview t = multitaskview s"
    using on_model_spec [OF assms(1,2), of "pure_op f"] assms(3) by (auto simp: pure_op_def)
  have "(if m_id k = m_id m then f m else k) =
      k\<lparr>m_history := if m_id k = m_id m then h k else m_history k\<rparr>" if "k \<in> set (all_models s)" for k
    using ids_distinct [OF assms(1) that assms(2)] assms(3) by auto
  then have "all_models t = map (\<lambda>k. k\<lparr>m_history := if m_id k = m_id m then h k else m_history k\<rparr>) (all_models s)"
    unfolding t(2) by (intro map_cong refl) blast
  with fr t(1) show ?thesis by (simp add: hist_only_def)
qed

lemma ws_home:
  assumes "ws_inv s" "sw_workspaceId (wrappers s x) \<noteq> - 1"
  obtains m where "m \<in> set (all_models s)" "m_id m = sw_workspaceId (wrappers s x)"
    "x \<in> set (m_surfaces m)" "plain (wrappers s x)"
proof -
  have "sw_workspaceId (wrappers s x) \<in> m_id ` set (all_models s)" and pl: "plain (wrappers s x)"
    and mb: "ws_members s"
    using assms unfolding ws_inv_def ws_members_def by blast+
  then obtain m where m: "m \<in> set (all_models s)" "m_id m = sw_workspaceId (wrappers s x)"
    by (metis imageE)
  with ws_membersD [OF mb m(1), of x] pl show thesis by (intro that) auto
qed

text \<open>Which histories an operation on the surface \<open>x\<close> reaches.\<close>

definition history_scope :: "'a wstate_scheme \<Rightarrow> sid \<Rightarrow> wmodel \<Rightarrow> bool" where
  "history_scope s x k =
     (showOnAllWorkspace (wrappers s x) \<or> m_id k = sw_workspaceId (wrappers s x))"

lemma pushActivedSurface_spec:
  assumes "ws_inv s" "sw_workspaceId (wrappers s x) \<noteq> - 1"
  shows "\<exists>t. pushActivedSurface x s = Inr t
    \<and> hist_only s t (\<lambda>k. if history_scope s x k then x # removeAll x (m_history k) else m_history k)"
proof -
  obtain m where m: "m \<in> set (all_models s)" "m_id m = sw_workspaceId (wrappers s x)"
    and pl: "plain (wrappers s x)" using ws_home [OF assms] by metis
  have shape: "ws_shape s" using assms by (simp add: ws_inv_def)
  have "sw_type (wrappers s x) \<noteq> XdgPopup" using pl by (simp add: plain_def)
  moreover have "modelFromId s (sw_workspaceId (wrappers s x)) \<noteq> None"
    using modelFromId_member [OF shape m(1)] m(2) by simp
  ultimately show ?thesis
    using on_model_history [OF shape m(1), of "wm_pushActivedSurface x" "\<lambda>k. x # removeAll x (m_history k)"] m(2)
    by (cases "showOnAllWorkspace (wrappers s x)")
      (simp_all add: pushActivedSurface_def history_scope_def hist_only_def)
qed

lemma removeActivedSurface_spec:
  assumes "ws_inv s" "sw_workspaceId (wrappers s x) \<noteq> - 1"
  shows "\<exists>t. removeActivedSurface x s = Inr t
    \<and> hist_only s t (\<lambda>k. if history_scope s x k then removeAll x (m_history k) else m_history k)"
proof -
  obtain m where m: "m \<in> set (all_models s)" "m_id m = sw_workspaceId (wrappers s x)"
    using ws_home [OF assms] by metis
  have shape: "ws_shape s" using assms by (simp add: ws_inv_def)
  have "modelFromId s (sw_workspaceId (wrappers s x)) \<noteq> None"
    using modelFromId_member [OF shape m(1)] m(2) by simp
  then show ?thesis
    using on_model_history [OF shape m(1), of "wm_removeActivedSurface x" "\<lambda>k. removeAll x (m_history k)"] m(2)
    by (cases "showOnAllWorkspace (wrappers s x)")
      (simp_all add: removeActivedSurface_def history_scope_def hist_only_def)
qed

section \<open>Moving a surface and its family\<close>

abbreviation wsid :: "'a wstate_scheme \<Rightarrow> sid \<Rightarrow> int" where
  "wsid s x \<equiv> sw_workspaceId (wrappers s x)"

text \<open>The surfaces that have to go where \<open>y\<close> goes.\<close>

definition followers :: "swrapper \<Rightarrow> sid set" where
  "followers w =
     set (sw_subSurfaces w) \<union> (if sw_modal w then set_option (sw_parentSurface w) else {})"

text \<open>The effect of moving surfaces to the workspace \<open>wid\<close>: a surface stays where it is or goes
  there, and one that goes there (other than those in \<open>X\<close>) takes its followers along.\<close>

definition move_rel :: "int \<Rightarrow> sid set \<Rightarrow> 'a wstate_scheme \<Rightarrow> 'a wstate_scheme \<Rightarrow> bool" where
  "move_rel wid X s t =
     (ws_inv t \<and> ws_frame s t \<and> (ws_settled s \<longrightarrow> ws_settled t)
      \<and> (\<forall>y. wsid t y = wsid s y \<or> wsid t y = wid)
      \<and> (\<forall>y. y \<notin> X \<longrightarrow> wsid s y \<noteq> wid \<longrightarrow> wsid t y = wid \<longrightarrow>
            (\<forall>z\<in>followers (wrappers s y). wsid t z = wid)))"

lemma followers_frame: "ws_frame s t \<Longrightarrow> followers (wrappers t y) = followers (wrappers s y)"
  using kernel_of_eqD [of "wrappers t y" "wrappers s y"] by (simp add: ws_frame_def followers_def)

lemma move_rel_refl: "ws_inv s \<Longrightarrow> move_rel wid X s s"
  by (simp add: move_rel_def)

lemma move_rel_trans:
  assumes "move_rel wid X s t" "move_rel wid Y t u"
  shows "move_rel wid (X \<union> Y) s u"
proof -
  have fr: "ws_frame s u" "ws_frame s t" using assms ws_frame_trans by (auto simp: move_rel_def)
  have stay: "wsid u y = wid" if "wsid t y = wid" for y
    using assms(2) that unfolding move_rel_def by metis
  have "\<forall>z\<in>followers (wrappers s y). wsid u z = wid"
    if "y \<notin> X \<union> Y" "wsid s y \<noteq> wid" "wsid u y = wid" for y
  proof (cases "wsid t y = wid")
    case True
    with that assms(1) stay show ?thesis unfolding move_rel_def by blast
  next
    case False
    with that assms(2) show ?thesis
      unfolding move_rel_def followers_frame [OF fr(2), symmetric] by blast
  qed
  moreover have "wsid u y = wsid s y \<or> wsid u y = wid" for y
    using assms unfolding move_rel_def by metis
  ultimately show ?thesis using assms fr by (auto simp: move_rel_def)
qed

lemma move_rel_close:
  assumes "move_rel wid {x} s t" "\<forall>z\<in>followers (wrappers s x). wsid t z = wid"
  shows "move_rel wid {} s t"
proof -
  have "\<forall>z\<in>followers (wrappers s y). wsid t z = wid" if "wsid s y \<noteq> wid" "wsid t y = wid" for y
    using assms that by (cases "y = x") (auto simp: move_rel_def)
  with assms show ?thesis by (simp add: move_rel_def)
qed

lemma hist_only_move_rel: "hist_only s t h \<Longrightarrow> ws_inv s \<Longrightarrow> move_rel wid {} s t"
  using hist_only_inv [of s t h] hist_only_frame [of s t h] hist_only_settled [of s t h]
  by (auto simp: move_rel_def hist_only_def)

text \<open>A family: a set of surfaces, each in a workspace, that contains everyone's followers.\<close>

definition family :: "sid set \<Rightarrow> 'a wstate_scheme \<Rightarrow> bool" where
  "family F s = (finite F \<and> (\<forall>y\<in>F. wsid s y \<noteq> - 1 \<and> followers (wrappers s y) \<subseteq> F))"

definition to_move :: "int \<Rightarrow> sid set \<Rightarrow> 'a wstate_scheme \<Rightarrow> nat" where
  "to_move wid F s = card {y \<in> F. wsid s y \<noteq> wid}"

definition movable :: "int \<Rightarrow> sid set \<Rightarrow> 'a wstate_scheme \<Rightarrow> bool" where
  "movable wid F s = (ws_inv s \<and> family F s \<and> wid \<in> m_id ` set (all_models s))"

lemma movable_wid: "movable wid F s \<Longrightarrow> wid \<noteq> - 1"
  unfolding movable_def ws_inv_def using ws_inv_id_neq [of s] by (metis imageE)

lemma movable_move_rel:
  assumes "movable wid F s" "move_rel wid X s t"
  shows "movable wid F t" "to_move wid F t \<le> to_move wid F s"
proof -
  have fr: "ws_frame s t" and ids: "\<And>y. wsid t y = wsid s y \<or> wsid t y = wid"
    using assms(2) by (auto simp: move_rel_def)
  have "wsid t y \<noteq> - 1 \<and> followers (wrappers t y) \<subseteq> F" if "y \<in> F" for y
    using assms(1) that ids [of y] movable_wid [OF assms(1)] followers_frame [OF fr, of y]
    by (auto simp: movable_def family_def)
  then show "movable wid F t"
    using assms ws_frame_id_set [OF fr] by (simp add: movable_def family_def move_rel_def)
  have "finite F" using assms(1) by (simp add: movable_def family_def)
  then show "to_move wid F t \<le> to_move wid F s"
    unfolding to_move_def by (intro card_mono Collect_mono) (simp, metis ids)
qed

lemma moveSubSurfaces_spec:
  fixes s :: "'a wstate_scheme"
  assumes step: "\<And>x (s :: 'a wstate_scheme). x \<in> F \<Longrightarrow> movable wid F s \<Longrightarrow> to_move wid F s < n \<Longrightarrow>
      \<exists>t. moveSurfaceTo n x wid s = Inr t \<and> move_rel wid {} s t \<and> wsid t x = wid"
    and "set cs \<subseteq> F" "movable wid F s" "to_move wid F s < n"
  shows "\<exists>t. moveSubSurfaces n cs wid s = Inr t \<and> move_rel wid {} s t \<and> (\<forall>c\<in>set cs. wsid t c = wid)"
  using assms(2-)
proof (induction cs arbitrary: s)
  case Nil
  then show ?case by (auto simp: movable_def intro: move_rel_refl)
next
  case (Cons c cs)
  then obtain t where t: "moveSurfaceTo n c wid s = Inr t" "move_rel wid {} s t" "wsid t c = wid"
    using step [of c s] by auto
  note m = movable_move_rel [OF Cons.prems(2) t(2)]
  then obtain u where u: "moveSubSurfaces n cs wid t = Inr u" "move_rel wid {} t u"
    "\<forall>c\<in>set cs. wsid u c = wid"
    using Cons.IH [of t] Cons.prems by auto
  have "wsid u c = wid" using u(2) t(3) unfolding move_rel_def by metis
  with t(1) u move_rel_trans [OF t(2) u(2)] show ?case by simp
qed

lemma moveParent_spec:
  fixes s :: "'a wstate_scheme"
  assumes step: "\<And>x (s :: 'a wstate_scheme). x \<in> F \<Longrightarrow> movable wid F s \<Longrightarrow> to_move wid F s < n \<Longrightarrow>
      \<exists>t. moveSurfaceTo n x wid s = Inr t \<and> move_rel wid {} s t \<and> wsid t x = wid"
    and fol: "followers (wrappers s x) \<subseteq> F" and mv: "movable wid F s" "to_move wid F s < n"
    and subs: "\<forall>c\<in>set (sw_subSurfaces (wrappers s x)). wsid s c = wid"
  shows "\<exists>t. (case sw_parentSurface (wrappers s x) of None \<Rightarrow> Inr s
       | Some p \<Rightarrow> if sw_modal (wrappers s x) then moveSurfaceTo n p wid s else Inr s) = Inr t
     \<and> move_rel wid {} s t \<and> (\<forall>z\<in>followers (wrappers s x). wsid t z = wid)"
proof (cases "sw_modal (wrappers s x) \<and> sw_parentSurface (wrappers s x) \<noteq> None")
  case True
  then obtain p where p: "sw_parentSurface (wrappers s x) = Some p" "p \<in> F" "sw_modal (wrappers s x)"
    using fol by (auto simp: followers_def)
  then obtain t where t: "moveSurfaceTo n p wid s = Inr t" "move_rel wid {} s t" "wsid t p = wid"
    using step mv by blast
  have "wsid t c = wid" if "wsid s c = wid" for c using t(2) that unfolding move_rel_def by metis
  with t p subs show ?thesis by (auto simp: followers_def)
next
  case False
  then show ?thesis using subs mv(1)
    by (auto simp: followers_def movable_def intro: move_rel_refl split: option.splits)
qed

lemma history_refresh:
  assumes "ws_inv s" "wsid s x \<noteq> - 1"
  shows "\<exists>t. (if hasActiveCapability (wrappers s x)
      then rbind (removeActivedSurface x s) (pushActivedSurface x) else Inr s) = Inr t
    \<and> move_rel wid {} s t \<and> wrappers t = wrappers s"
proof (cases "hasActiveCapability (wrappers s x)")
  case True
  obtain t h where t: "removeActivedSurface x s = Inr t" "hist_only s t h"
    using removeActivedSurface_spec [OF assms] by blast
  have "ws_inv t" "wsid t x \<noteq> - 1" using hist_only_inv [OF t(2) assms(1)] assms(2) t(2)
    by (auto simp: hist_only_def)
  from pushActivedSurface_spec [OF this] obtain u g where u: "pushActivedSurface x t = Inr u" "hist_only t u g"
    by blast
  have "move_rel wid ({} \<union> {}) s u"
    using move_rel_trans hist_only_move_rel [OF t(2) assms(1)] hist_only_move_rel [OF u(2) \<open>ws_inv t\<close>] by blast
  with True t u show ?thesis by (auto simp: hist_only_def)
qed (use assms in \<open>auto intro: move_rel_refl\<close>)

text \<open>Taking a surface out of its workspace and putting it into another.\<close>

lemma transfer_step:
  fixes s :: "'a wstate_scheme"
  assumes mv: "movable wid F s" and x: "x \<in> F" "wsid s x \<noteq> wid"
  obtains m t u where "m \<in> set (all_models s)" "m_id m = wsid s x"
    "(if showOnAllWorkspace (wrappers s x) then ShowOnAllWorkspaceId else wsid s x) = m_id m"
    "on_model (m_id m) (wm_removeSurface x) s = Inr t" "on_model wid (wm_addSurface x) t = Inr u"
    "move_rel wid {x} s u" "wsid u x = wid" "to_move wid F u < to_move wid F s"
proof -
  have inv: "ws_inv s" and fam: "family F s" and wid: "wid \<in> m_id ` set (all_models s)"
    using mv by (auto simp: movable_def)
  have "wsid s x \<noteq> - 1" using fam x(1) by (simp add: family_def)
  from ws_home [OF inv this] obtain m where m: "m \<in> set (all_models s)" "m_id m = wsid s x"
    "x \<in> set (m_surfaces m)" "plain (wrappers s x)" by metis
  have from_id: "(if showOnAllWorkspace (wrappers s x) then ShowOnAllWorkspaceId else wsid s x) = m_id m"
    using m plain_showOnAll by auto
  from remove_step [OF inv m(1,3)] obtain t where t: "on_model (m_id m) (wm_removeSurface x) s = Inr t"
    "ws_inv t" "ws_frame s t" "\<And>y. wsid t y = (if y = x then - 1 else wsid s y)"
    "ws_settled s \<Longrightarrow> ws_settled t" by metis
  have pl: "plain (wrappers t x)" using m(4) t(3) kernel_of_eqD(6) by (metis ws_frame_def)
  have "wid \<in> m_id ` set (all_models t)" using wid ws_frame_id_set [OF t(3)] by simp
  then obtain k where k: "k \<in> set (all_models t)" "m_id k = wid" by (metis imageE)
  have "wsid t x = - 1" using t(4) by simp
  from add_step [OF t(2) k(1) this pl] obtain u where u: "on_model wid (wm_addSurface x) t = Inr u"
    "ws_inv u" "ws_frame t u" "\<And>y. wsid u y = (if y = x then wid else wsid t y)"
    "ws_settled t \<Longrightarrow> ws_settled u" unfolding k(2) by metis
  have ids: "wsid u y = (if y = x then wid else wsid s y)" for y by (simp add: u(4) t(4))
  have "move_rel wid {x} s u"
    using u(2,5) t(5) ws_frame_trans [OF t(3) u(3)] by (auto simp: move_rel_def ids)
  moreover have "to_move wid F u < to_move wid F s"
    unfolding to_move_def using fam x by (intro psubset_card_mono) (auto simp: ids family_def)
  ultimately show thesis using that [OF m(1,2) from_id t(1) u(1)] ids by simp
qed

lemma moveSurfaceTo_here: "wid \<noteq> - 1 \<Longrightarrow> wsid s x = wid \<Longrightarrow> moveSurfaceTo (Suc n) x wid s = Inr s"
  by simp

lemma moveSurfaceTo_away:
  assumes "wid \<noteq> - 1" "wsid s x \<noteq> wid" "wsid s x \<noteq> - 1" "modelFromId s wid \<noteq> None"
    and "(if showOnAllWorkspace (wrappers s x) then ShowOnAllWorkspaceId else wsid s x) = from_id"
    and "on_model from_id (wm_removeSurface x) s = Inr s1" "on_model wid (wm_addSurface x) s1 = Inr s2"
    and "moveSubSurfaces n (sw_subSurfaces (wrappers s2 x)) wid s2 = Inr s3"
    and "(case sw_parentSurface (wrappers s3 x) of None \<Rightarrow> Inr s3
          | Some p \<Rightarrow> if sw_modal (wrappers s3 x) then moveSurfaceTo n p wid s3 else Inr s3) = Inr s4"
  shows "moveSurfaceTo (Suc n) x wid s =
    (if hasActiveCapability (wrappers s4 x)
     then rbind (removeActivedSurface x s4) (pushActivedSurface x) else Inr s4)"
  using assms(1-4) by (simp add: Let_def assms(5-9))

declare moveSurfaceTo.simps [simp del] moveSubSurfaces.simps [simp del]

lemma moveSurfaceTo_spec:
  assumes "x \<in> F" "movable wid F s" "to_move wid F s < n"
  shows "\<exists>t. moveSurfaceTo n x wid s = Inr t \<and> move_rel wid {} s t \<and> wsid t x = wid"
  using assms
proof (induction n arbitrary: x s)
  case 0
  then show ?case by simp
next
  case (Suc n)
  have wid: "wid \<noteq> - 1" using movable_wid [OF Suc.prems(2)] .
  show ?case
  proof (cases "wsid s x = wid")
    case True
    moreover have "ws_inv s" using Suc.prems(2) by (simp add: movable_def)
    ultimately show ?thesis
      using moveSurfaceTo_here [OF wid, of s x n] move_rel_refl [of s wid "{}"] by blast
  next
    case False
    obtain m s1 s2 where "m \<in> set (all_models s)" and m: "m_id m = wsid s x"
      "(if showOnAllWorkspace (wrappers s x) then ShowOnAllWorkspaceId else wsid s x) = m_id m"
      "on_model (m_id m) (wm_removeSurface x) s = Inr s1" "on_model wid (wm_addSurface x) s1 = Inr s2"
      "move_rel wid {x} s s2" "wsid s2 x = wid" "to_move wid F s2 < to_move wid F s"
      by (rule transfer_step [OF Suc.prems(2,1) False])
    have "family F s" using Suc.prems(2) by (simp add: movable_def)
    then have nn: "wsid s x \<noteq> - 1" and fol: "followers (wrappers s x) \<subseteq> F"
      using Suc.prems(1) by (simp_all add: family_def)
    have to: "modelFromId s wid \<noteq> None"
      using Suc.prems(2) modelFromId_valid [of s wid] by (simp add: movable_def ws_inv_def)
    have fr2: "ws_frame s s2" using m(5) by (simp add: move_rel_def)
    note ker = kernel_of_eqD [of "wrappers s2 x" "wrappers s x"]
    note mv2 = movable_move_rel [OF Suc.prems(2) m(5)]
    have lt2: "to_move wid F s2 < n" using m(7) Suc.prems(3) by simp
    have "set (sw_subSurfaces (wrappers s2 x)) \<subseteq> F"
      using fol ker(2) fr2 by (auto simp: ws_frame_def followers_def)
    from moveSubSurfaces_spec [OF Suc.IH this mv2(1) lt2] obtain s3
      where s3: "moveSubSurfaces n (sw_subSurfaces (wrappers s2 x)) wid s2 = Inr s3"
        "move_rel wid {} s2 s3" "\<forall>c\<in>set (sw_subSurfaces (wrappers s2 x)). wsid s3 c = wid" by blast
    note mv3 = movable_move_rel [OF mv2(1) s3(2)]
    have fr3: "ws_frame s2 s3" using s3(2) by (simp add: move_rel_def)
    then have sub3: "sw_subSurfaces (wrappers s3 x) = sw_subSurfaces (wrappers s2 x)"
      using kernel_of_eqD(2) by (metis ws_frame_def)
    have fol3: "followers (wrappers s3 x) = followers (wrappers s x)"
      using followers_frame fr2 fr3 by metis
    have lt3: "to_move wid F s3 < n" using mv3(2) lt2 by simp
    have fol3': "followers (wrappers s3 x) \<subseteq> F" using fol fol3 by simp
    have subs3: "\<forall>c\<in>set (sw_subSurfaces (wrappers s3 x)). wsid s3 c = wid"
      unfolding sub3 by (rule s3(3))
    from moveParent_spec [OF Suc.IH fol3' mv3(1) lt3 subs3] obtain s4
      where s4: "(case sw_parentSurface (wrappers s3 x) of None \<Rightarrow> Inr s3
          | Some p \<Rightarrow> if sw_modal (wrappers s3 x) then moveSurfaceTo n p wid s3 else Inr s3) = Inr s4"
        "move_rel wid {} s3 s4" "\<forall>z\<in>followers (wrappers s x). wsid s4 z = wid"
      unfolding fol3 by blast
    have "move_rel wid {x} s s4"
      using move_rel_trans [OF move_rel_trans [OF m(5) s3(2)] s4(2)] by simp
    then have r4: "move_rel wid {} s s4" using s4(3) by (rule move_rel_close)
    have x4: "wsid s4 x = wid" using m(6) s3(2) s4(2) unfolding move_rel_def by metis
    have "ws_inv s4" "wsid s4 x \<noteq> - 1" using r4 x4 wid by (auto simp: move_rel_def)
    from history_refresh [OF this] obtain s5 where s5: "(if hasActiveCapability (wrappers s4 x)
        then rbind (removeActivedSurface x s4) (pushActivedSurface x) else Inr s4) = Inr s5"
      "move_rel wid {} s4 s5" "wrappers s5 = wrappers s4" by blast
    have "moveSurfaceTo (Suc n) x wid s = Inr s5"
      using moveSurfaceTo_away [OF wid False nn to m(2-4) s3(1) s4(1)] s5(1) by simp
    with x4 s5 move_rel_trans [OF r4 s5(2)] show ?thesis by simp
  qed
qed

end
