(* ===== verification/Workspace_Surfaces.thy ===== *)
theory Workspace_Surfaces
  imports Workspace
begin

text \<open>
  What adding, moving and removing surfaces promises (src/src/workspace/workspace.cpp): the
  properties of \<^verbatim>\<open>moveSurfaceTo\<close>, \<^verbatim>\<open>addSurface\<close>, \<^verbatim>\<open>removeSurface\<close>, the neighbour lookups and the
  activation history across workspaces.
\<close>

section \<open>Frames of the container operations\<close>

lemma cmore_simps [simp]:
  "cscene.more (emit e s) = cscene.more s" "cscene.more (mod_wrapper f x s) = cscene.more s"
  "cscene.more (mod_container g c s) = cscene.more s"
  "cscene.more (setContainer d x s) = cscene.more s" "cscene.more (setQParent e' x s) = cscene.more s"
  by (simp_all add: emit_def mod_wrapper_def mod_container_def setContainer_def setQParent_def)

lemma doAddSurface_more: "doAddSurface n c x b s = Inr (r, t) \<Longrightarrow> cscene.more t = cscene.more s"
proof (induction n arbitrary: c b s r)
  case (Suc n)
  then show ?case
    by (fastforce simp: doAddSurface.simps rbind_Inr_iff Let_def split: if_splits option.splits)
qed (simp add: doAddSurface.simps)

lemma doRemoveSurface_more: "doRemoveSurface n c x b s = Inr (r, t) \<Longrightarrow> cscene.more t = cscene.more s"
proof (induction n arbitrary: c b s r)
  case (Suc n)
  then show ?case
    by (fastforce simp: doRemoveSurface.simps rbind_Inr_iff Let_def split: if_splits option.splits)
qed (simp add: doRemoveSurface.simps)

lemma container_ops_more:
  "container_addSurface n c x s = Inr t \<Longrightarrow> cscene.more t = cscene.more s"
  "container_removeSurface n c x s = Inr t \<Longrightarrow> cscene.more t = cscene.more s"
  by (auto simp: container_addSurface_def container_removeSurface_def rbind_Inr_iff
      dest: doAddSurface_more doRemoveSurface_more)

lemma cmore_eqD:
  fixes s t :: "'a wstate_scheme"
  assumes "cscene.more s = cscene.more t"
  shows "ws_cid s = ws_cid t" "models s = models t" "allModel s = allModel t"
    "currentIndex s = currentIndex t" "globalWorkspaceId s = globalWorkspaceId t"
    "primaryOutput s = primaryOutput t" "cursorOutput s = cursorOutput t"
  using assms by (cases s; cases t; simp)+

text \<open>The invariant only looks at the workspaces and at the ids and kinds of the surfaces.\<close>

lemma ws_inv_cong:
  assumes "ws_inv s" "allModel t = allModel s" "models t = models s"
    "globalWorkspaceId t = globalWorkspaceId s"
    "\<And>y. wsid t y = wsid s y" "\<And>y. plain (wrappers t y) = plain (wrappers s y)"
  shows "ws_inv t"
proof -
  have "ws_shape t" using assms(1-4) by (simp add: ws_inv_def ws_shape_def)
  moreover have "ws_members t" using assms(1) unfolding ws_inv_def ws_members_def assms(2,3,5,6) by simp
  ultimately show ?thesis by (simp add: ws_inv_def)
qed

lemma tree_inv_cong:
  assumes "tree_inv s" "containers t = containers s"
    "\<And>y. sw_container (wrappers t y) = sw_container (wrappers s y)"
  shows "tree_inv t"
  using assms by (simp add: tree_inv_def)

lemma plain_updates [simp]:
  "plain (w\<lparr>sw_container := c\<rparr>) = plain w" "plain (w\<lparr>sw_qparent := q\<rparr>) = plain w"
  "plain (w\<lparr>sw_ownsOutput := out\<rparr>) = plain w" "plain (w\<lparr>sw_activeStates := st\<rparr>) = plain w"
  by (simp_all add: plain_def isInputPopupLike_def)

section \<open>Adding and removing\<close>

lemma root_addBySubContainer_spec:
  fixes s :: "'a wstate_scheme"
  assumes "plain (wrappers s x)" "\<not> sw_aboutToRemove (wrappers s x)"
  obtains t where "root_addBySubContainer outputAt x s = Inr t" "scene.more t = scene.more s"
    "\<And>y. wrappers t y = wrappers s y \<or> (\<exists>out. wrappers t y = (wrappers s y)\<lparr>sw_ownsOutput := out\<rparr>)"
    "sw_ownsOutput (wrappers t x) \<noteq> None \<or> primaryOutput t = None"
proof -
  have ty: "sw_type (wrappers s x) \<noteq> Layer" "sw_type (wrappers s x) \<noteq> XdgPopup"
    using assms(1) by (auto simp: plain_def)
  let ?o = "case sw_parentSurface (wrappers s x) of Some p \<Rightarrow> sw_ownsOutput (wrappers s p)
    | None \<Rightarrow> cursorOutput s"
  let ?o' = "if ?o = None then primaryOutput s else ?o"
  let ?s = "emit (SetupSurfaceRequestHandlers x) s"
  let ?t = "emit (UpdateSurfaceOutputs x)
    (if sw_ownsOutput (wrappers s x) = None then setOwnsOutput ?o' x ?s else ?s)"
  have cur: "cursorOutput ?s = cursorOutput s" "primaryOutput ?s = primaryOutput s"
    by (rule more_eqD, simp)+
  have "root_addBySubContainer outputAt x s = Inr ?t"
    using ty cur by (cases "sw_parentSurface (wrappers s x)") (simp_all add: root_addBySubContainer_def Let_def)
  moreover have m: "scene.more ?t = scene.more s" by simp
  moreover have "wrappers ?t y = wrappers s y \<or> (\<exists>out. wrappers ?t y = (wrappers s y)\<lparr>sw_ownsOutput := out\<rparr>)" for y
    by (auto simp: wrappers_setOwnsOutput)
  moreover have "sw_ownsOutput (wrappers ?t x) \<noteq> None \<or> primaryOutput ?t = None"
    using more_eqD(14) [OF m] assms(2) by (auto simp: wrappers_setOwnsOutput)
  ultimately show thesis by (rule that)
qed

lemma setHasInitializeContainer_spec:
  fixes s :: "'a wstate_scheme"
  assumes "v \<longrightarrow> sw_container (wrappers s x) \<noteq> None"
  obtains t where "setHasInitializeContainer v x s = Inr t" "scene.more t = scene.more s"
    "\<And>y. \<exists>st. wrappers t y = (wrappers s y)\<lparr>sw_activeStates := st\<rparr>"
proof -
  obtain t where t: "setHasInitializeContainer v x s = Inr t"
    using assms by (auto simp: setHasInitializeContainer_def Let_def)
  moreover have "\<exists>st. wrappers t y = (wrappers s y)\<lparr>sw_activeStates := st\<rparr>" for y
    using wrappers_setHasInitializeContainer [OF t, of y]
    by (cases "y = x") (auto intro: exI [of _ "sw_activeStates (wrappers s y)"])
  ultimately show thesis using that more_setHasInitializeContainer [OF t] by blast
qed

lemma addSurfaceToId_spec:
  fixes s :: "'a wstate_scheme"
  assumes inv: "ws_inv s" and tree: "tree_inv s" and rk: "cranked r (containers s)" "r (ws_cid s) < n"
    and x: "sw_container (wrappers s x) = None" "wsid s x = - 1" "plain (wrappers s x)"
      "\<not> sw_aboutToRemove (wrappers s x)"
    and m: "m \<in> set (all_models s)"
  obtains t where "addSurfaceToId n outputAt x (m_id m) s = Inr t" "ws_inv t" "tree_inv t"
    "\<And>y. wsid t y = (if y = x then m_id m else wsid s y)"
    "sw_container (wrappers t x) = Some (ws_cid s)"
    "\<And>d. parent_of t d = parent_of s d" "ws_cid t = ws_cid s" "currentIndex t = currentIndex s"
    "plain (wrappers t x)"
proof -
  obtain s1 where s1: "container_addSurface n (ws_cid s) x s = Inr s1" "tree_inv s1"
    and par1: "\<And>d. parent_of s1 d = parent_of s d"
    and wr1: "wrappers s1 = (wrappers s)(x := (wrappers s x)\<lparr>sw_container := Some (ws_cid s),
      sw_qparent := Some (ws_cid s)\<rparr>)"
    using container_addSurface_spec [OF tree rk x(1)] by metis
  note fr1 = cmore_eqD [OF container_ops_more(1) [OF s1(1)]]
  have inv1: "ws_inv s1" by (rule ws_inv_cong [OF inv]) (simp_all add: fr1 wr1)
  have x1: "plain (wrappers s1 x)" "\<not> sw_aboutToRemove (wrappers s1 x)" using x by (simp_all add: wr1)
  obtain s2 where s2: "root_addBySubContainer outputAt x s1 = Inr s2" "scene.more s2 = scene.more s1"
    and wr2: "\<And>y. wrappers s2 y = wrappers s1 y \<or> (\<exists>out. wrappers s2 y = (wrappers s1 y)\<lparr>sw_ownsOutput := out\<rparr>)"
    and own: "sw_ownsOutput (wrappers s2 x) \<noteq> None \<or> primaryOutput s2 = None"
    using root_addBySubContainer_spec [OF x1] by metis
  note fr2 = more_eqD [OF s2(2)]
  have same2: "wsid s2 y = wsid s1 y" "plain (wrappers s2 y) = plain (wrappers s1 y)"
    "sw_container (wrappers s2 y) = sw_container (wrappers s1 y)" for y
    using wr2 [of y] by auto
  have inv2: "ws_inv s2" by (rule ws_inv_cong [OF inv1]) (simp_all add: fr2 same2)
  have m2: "m \<in> set (all_models s2)" using m by (simp add: fr1 fr2)
  have x2: "wsid s2 x = - 1" "plain (wrappers s2 x)" using x x1 by (simp_all add: same2 wr1)
  obtain s3 where s3: "on_model (m_id m) (wm_addSurface x) s2 = Inr s3" "ws_inv s3" "ws_frame s2 s3"
    "\<And>y. wsid s3 y = (if y = x then m_id m else wsid s2 y)"
    using add_step [OF inv2 m2 x2] by metis
  have ker: "kernel_of (wrappers s3 y) = kernel_of (wrappers s2 y)" for y using s3(3) by (simp add: ws_frame_def)
  have c3: "sw_container (wrappers s3 y) = sw_container (wrappers s1 y)" for y
    using kernel_of_eqD(1) [OF ker] same2 by simp
  have fr3: "containers s3 = containers s2" "ws_cid s3 = ws_cid s2" "currentIndex s3 = currentIndex s2"
    using s3(3) by (simp_all add: ws_frame_def)
  obtain t where t: "setHasInitializeContainer True x s3 = Inr t" "scene.more t = scene.more s3"
    and wr4: "\<And>y. \<exists>st. wrappers t y = (wrappers s3 y)\<lparr>sw_activeStates := st\<rparr>"
    using setHasInitializeContainer_spec [of True s3 x] c3 wr1 by auto
  note fr4 = more_eqD [OF t(2)]
  have same4: "wsid t y = wsid s3 y" "plain (wrappers t y) = plain (wrappers s3 y)"
    "sw_container (wrappers t y) = sw_container (wrappers s3 y)" for y
    using wr4 [of y] by auto
  show thesis
  proof (rule that)
    have "modelFromId s (m_id m) \<noteq> None" using modelFromId_member [OF _ m] inv by (simp add: ws_inv_def)
    then show "addSurfaceToId n outputAt x (m_id m) s = Inr t"
      using x(1,2) s1(1) s2(1) own s3(1) t(1) by (simp add: addSurfaceToId_def)
    show "ws_inv t" by (rule ws_inv_cong [OF s3(2)]) (simp_all add: fr4 same4)
    show "tree_inv t"
      by (rule tree_inv_cong [OF s1(2)]) (simp_all add: fr4 fr3 fr2 same4 c3)
    show "wsid t y = (if y = x then m_id m else wsid s y)" for y
      by (simp add: same4 s3(4) same2 wr1)
    show "sw_container (wrappers t x) = Some (ws_cid s)" by (simp add: same4 c3 wr1)
    show "parent_of t d = parent_of s d" for d by (simp add: fr4 fr3 fr2 par1)
    show "ws_cid t = ws_cid s" "currentIndex t = currentIndex s" by (simp_all add: fr4 fr3 fr2 fr1)
    show "plain (wrappers t x)" using kernel_of_eqD(6) [OF ker, of x] x2 by (simp add: same4)
  qed
qed

lemma removeSurface_spec:
  fixes s :: "'a wstate_scheme"
  assumes inv: "ws_inv s" and tree: "tree_inv s" and rk: "cranked r (containers s)" "r (ws_cid s) < n"
    and x: "sw_container (wrappers s x) = Some (ws_cid s)" "wsid s x \<noteq> - 1"
  obtains t where "removeSurface n x s = Inr t" "ws_inv t" "tree_inv t"
    "\<And>y. wsid t y = (if y = x then - 1 else wsid s y)" "sw_container (wrappers t x) = None"
    "\<And>d. surfaces_of t d = remove1 x (surfaces_of s d)"
proof -
  obtain s1 where s1: "setHasInitializeContainer False x s = Inr s1" "scene.more s1 = scene.more s"
    and wr1: "\<And>y. \<exists>st. wrappers s1 y = (wrappers s y)\<lparr>sw_activeStates := st\<rparr>"
    using setHasInitializeContainer_spec [of False s x] by auto
  note fr1 = more_eqD [OF s1(2)]
  have same1: "wsid s1 y = wsid s y" "plain (wrappers s1 y) = plain (wrappers s y)"
    "sw_container (wrappers s1 y) = sw_container (wrappers s y)" for y
    using wr1 [of y] by auto
  have inv1: "ws_inv s1" by (rule ws_inv_cong [OF inv]) (simp_all add: fr1 same1)
  have nn: "wsid s1 x \<noteq> - 1" using x(2) by (simp add: same1)
  obtain m where m: "m \<in> set (all_models s1)" "m_id m = wsid s1 x" "x \<in> set (m_surfaces m)"
    "plain (wrappers s1 x)" using ws_home [OF inv1 nn] by metis
  have from_id: "(if showOnAllWorkspace (wrappers s1 x) then ShowOnAllWorkspaceId else wsid s1 x) = m_id m"
    using m plain_showOnAll by auto
  obtain s2 where s2: "on_model (m_id m) (wm_removeSurface x) s1 = Inr s2" "ws_inv s2" "ws_frame s1 s2"
    "\<And>y. wsid s2 y = (if y = x then - 1 else wsid s1 y)"
    using remove_step [OF inv1 m(1,3)] by metis
  have fr2: "containers s2 = containers s1" "ws_cid s2 = ws_cid s1" using s2(3) by (simp_all add: ws_frame_def)
  have c2: "sw_container (wrappers s2 y) = sw_container (wrappers s y)" for y
    using s2(3) kernel_of_eqD(1) [of "wrappers s2 y" "wrappers s1 y"] same1 by (simp add: ws_frame_def)
  have pre: "tree_inv s2" "cranked r (containers s2)" "r (ws_cid s2) < n"
    "sw_container (wrappers s2 x) = Some (ws_cid s2)"
    using tree_inv_cong [OF tree, of s2] rk x(1) by (simp_all add: fr2 fr1 c2)
  obtain t where t: "container_removeSurface n (ws_cid s2) x s2 = Inr t" "tree_inv t"
    "\<And>d. surfaces_of t d = remove1 x (surfaces_of s2 d)"
    "wrappers t = (wrappers s2)(x := (wrappers s2 x)\<lparr>sw_container := None\<rparr>)"
    using container_removeSurface_spec [OF pre] by metis
  note fr3 = cmore_eqD [OF container_ops_more(2) [OF t(1)]]
  show thesis
  proof (rule that)
    have "modelFromId s1 (m_id m) \<noteq> None" using modelFromId_member [OF _ m(1)] inv1 by (simp add: ws_inv_def)
    then show "removeSurface n x s = Inr t"
      using s1(1) s2(1) t(1) from_id by (simp add: removeSurface_def Let_def)
    show "ws_inv t" by (rule ws_inv_cong [OF s2(2)]) (simp_all add: fr3 t(4))
    show "wsid t y = (if y = x then - 1 else wsid s y)" for y by (simp add: t(4) s2(4) same1)
    show "surfaces_of t d = remove1 x (surfaces_of s d)" for d by (simp add: t(3) fr2 fr1)
  qed (simp_all add: t)
qed

section \<open>Neighbours\<close>

lemma current_in_models: "current s = Some m \<Longrightarrow> m \<in> set (all_models s)"
  by (auto simp: current_def modelAt_def ws_count_def split: if_splits)

lemma modelAt_nth:
  "modelAt s (int i) = (if i < length (models s) then Some (models s ! i) else None)"
  by (simp add: modelAt_def ws_count_def)

lemma index_of_model:
  assumes "ws_shape s" "i < length (models s)"
  shows "index_of (map m_id (models s)) (m_id (models s ! i)) = int i"
  using assms index_of_distinct_nth [of "map m_id (models s)" i] by (simp add: ws_shape_def)

lemma neighbour_ids:
  assumes "ws_shape s" "i < length (models s)"
  shows "getLeftWorkspaceId s (m_id (models s ! i)) =
      Inr (if i = 0 then - 1 else m_id (models s ! (i - 1)))"
    and "getRightWorkspaceId s (m_id (models s ! i)) =
      Inr (if Suc i = length (models s) then - 1 else m_id (models s ! Suc i))"
proof -
  have mem: "models s ! i \<in> set (all_models s)" using assms(2) by simp
  have id: "0 \<le> m_id (models s ! i)" using assms by (simp add: ws_shape_def)
  have from_id: "modelFromId s (m_id (models s ! i)) \<noteq> None" using modelFromId_member [OF assms(1) mem] by simp
  note ix = index_of_model [OF assms]
  show "getLeftWorkspaceId s (m_id (models s ! i)) = Inr (if i = 0 then - 1 else m_id (models s ! (i - 1)))"
    using id from_id ix assms(2) modelAt_nth [of s "i - 1"]
    by (cases "i = 0") (simp_all add: getLeftWorkspaceId_def ShowOnAllWorkspaceId_def of_nat_diff)
  show "getRightWorkspaceId s (m_id (models s ! i)) =
      Inr (if Suc i = length (models s) then - 1 else m_id (models s ! Suc i))"
    using id from_id ix assms(2) modelAt_nth [of s "Suc i"]
    by (cases "Suc i = length (models s)")
      (auto simp: getRightWorkspaceId_def ShowOnAllWorkspaceId_def ws_count_def add.commute)
qed

section \<open>Properties\<close>


text \<open>Two workspaces with ids 0 and 1; window 1 with the modal dialog 2, which has the child 3, is on
  workspace 0, window 4 on workspace 1, window 5 on all workspaces.\<close>

definition demo_wrapper :: "int \<Rightarrow> sid list \<Rightarrow> sid option \<Rightarrow> bool \<Rightarrow> swrapper" where
  "demo_wrapper i subs parent modal =
     blank_wrapper\<lparr>sw_workspaceId := i, sw_container := Some 1, sw_subSurfaces := subs,
       sw_parentSurface := parent, sw_modal := modal, sw_hideByWorkspace := (i = 1),
       sw_visible := (i \<noteq> 1), sw_activeStates := 15\<rparr>"

definition demo_ws :: wstate where
  "demo_ws = \<lparr>wrappers = (\<lambda>_. blank_wrapper)(1 := demo_wrapper 0 [2] None False,
       2 := demo_wrapper 0 [3] (Some 1) True, 3 := demo_wrapper 0 [] (Some 2) False,
       4 := demo_wrapper 1 [] None False, 5 := demo_wrapper (- 2) [] None False),
     trace = [],
     containers = (\<lambda>c. \<lparr>c_parent = (if c = 1 then Some 0 else None),
       c_surfaces = (if c \<le> 1 then [1, 2, 3, 4, 5] else [])\<rparr>),
     ws_cid = 1,
     models = [(newWorkspaceModel 0 [5, 1])\<lparr>m_visible := True, m_surfaces := [1, 2, 3]\<rparr>,
               (newWorkspaceModel 1 [5, 4])\<lparr>m_surfaces := [4]\<rparr>],
     allModel = (newWorkspaceModel (- 2) [5])\<lparr>m_visible := True, m_surfaces := [5]\<rparr>,
     currentIndex = 0, globalWorkspaceId = 2, switcherEnabled = True, switcher = False,
     anim = newWorkspaceAnimationController, previewingItem = None, cfgNumWorkspace = 2,
     cfgCurrentWorkspace = 0, multitaskview = False, primaryOutput = None, cursorOutput = None\<rparr>"

lemma demo_wrapper_simps [simp]:
  "sw_workspaceId (demo_wrapper i a p b) = i" "sw_container (demo_wrapper i a p b) = Some 1"
  "sw_subSurfaces (demo_wrapper i a p b) = a" "sw_parentSurface (demo_wrapper i a p b) = p"
  "sw_modal (demo_wrapper i a p b) = b" "plain (demo_wrapper i a p b)"
  "sw_hideByWorkspace (demo_wrapper i a p b) = (i = 1)" "hasActiveCapability (demo_wrapper i a p b)"
  by (simp_all add: demo_wrapper_def plain_def isInputPopupLike_def blank_wrapper_def
      hasActiveCapability_def FullStates_def)

lemma blank_wrapper_simps [simp]:
  "sw_workspaceId blank_wrapper = - 1" "sw_container blank_wrapper = None" "plain blank_wrapper"
  "\<not> sw_aboutToRemove blank_wrapper"
  by (simp_all add: blank_wrapper_def plain_def isInputPopupLike_def)

lemma demo_ws_inv: "ws_inv demo_ws"
  by (auto simp: ws_inv_def ws_shape_def ws_members_def demo_ws_def newWorkspaceModel_def
      ShowOnAllWorkspaceId_def)

lemma demo_ws_settled: "ws_settled demo_ws"
  by (simp add: ws_settled_def wm_settled_def demo_ws_def newWorkspaceModel_def)


text \<open>A window added to the workspace container gets an owning output when there is one, is
  listed by the current workspace, by the workspace container and its ancestors and by nothing
  else, and carries the current workspace's id; removing it afterwards takes it out of every
  list and leaves all other windows where they were.\<close>

theorem surface_add_then_remove:
  fixes s :: "'a wstate_scheme"
  assumes inv: "ws_inv s" and tree: "tree_inv s" and rk: "cranked r (containers s)" "r (ws_cid s) < n"
    and x: "sw_container (wrappers s x) = None" "wsid s x = - 1" "plain (wrappers s x)"
      "\<not> sw_aboutToRemove (wrappers s x)"
    and cur: "current s = Some m"
  shows "\<exists>t u. addSurface n outputAt x s = Inr t \<and> ws_inv t \<and> tree_inv t \<and> wsid t x = m_id m
    \<and> (\<forall>d. x \<in> set (surfaces_of t d) \<longleftrightarrow> ancestor (containers s) (ws_cid s) d)
    \<and> removeSurface n x t = Inr u \<and> ws_inv u \<and> tree_inv u \<and> (\<forall>y. wsid u y = wsid s y)
    \<and> (\<forall>d. x \<notin> set (surfaces_of u d)) \<and> x \<notin> (\<Union>k\<in>set (all_models u). set (m_surfaces k))"
proof -
  obtain t where t: "addSurfaceToId n outputAt x (m_id m) s = Inr t" "ws_inv t" "tree_inv t"
    "\<And>y. wsid t y = (if y = x then m_id m else wsid s y)" "sw_container (wrappers t x) = Some (ws_cid s)"
    "\<And>d. parent_of t d = parent_of s d" "ws_cid t = ws_cid s"
    using addSurfaceToId_spec [OF inv tree rk x current_in_models [OF cur]] by metis
  have anc: "ancestor (containers t) = ancestor (containers s)" by (intro ext ancestor_congruent t(6))
  have rkt: "cranked r (containers t)" "r (ws_cid t) < n" using rk t(6,7) by (simp_all add: cranked_def)
  have "wsid t x \<noteq> - 1" using t(4) ws_inv_id_neq [OF _ current_in_models [OF cur]] inv by (simp add: ws_inv_def)
  moreover have "sw_container (wrappers t x) = Some (ws_cid t)" using t(5,7) by simp
  ultimately obtain u where u: "removeSurface n x t = Inr u" "ws_inv u" "tree_inv u"
    "\<And>y. wsid u y = (if y = x then - 1 else wsid t y)" "sw_container (wrappers u x) = None"
    using removeSurface_spec [OF t(2,3) rkt] by metis
  have "x \<notin> set (m_surfaces k)" if "k \<in> set (all_models u)" for k
    using ws_membersD [of u k x] ws_inv_id_neq [of u k] u(2,4) that by (auto simp: ws_inv_def)
  moreover have "\<forall>d. x \<notin> set (surfaces_of u d)" using tree_inv_ancestor_free [OF u(3,5)] by blast
  moreover have "\<forall>y. wsid u y = wsid s y" using u(4) t(4) x(2) by simp
  moreover have "addSurface n outputAt x s = Inr t" using t(1) cur by (simp add: addSurface_def)
  moreover have "\<forall>d. x \<in> set (surfaces_of t d) \<longleftrightarrow> ancestor (containers s) (ws_cid s) d"
    using tree_inv_ancestor_lists [OF t(3,5)] unfolding anc by blast
  ultimately show ?thesis using t(2,3,4) u(1-3) by auto
qed

lemma demo_ws_ancestor:
  "ancestor (containers demo_ws) c d \<longleftrightarrow> d = c \<or> c = 1 \<and> d = 0"
  by (subst ancestor_iff, subst ancestor_iff) (auto simp: demo_ws_def)

lemma demo_ws_tree: "tree_inv demo_ws"
  unfolding tree_inv_def demo_ws_ancestor by (auto simp: demo_ws_def)

theorem surface_add_then_remove_witness:
  "\<exists>t u. addSurface 2 (\<lambda>_. None) 6 demo_ws = Inr t \<and> wsid t 6 = 0 \<and> removeSurface 2 6 t = Inr u \<and> wsid u 6 = - 1"
proof -
  have c: "current demo_ws = Some (models demo_ws ! 0)" "cranked (\<lambda>c. c) (containers demo_ws)"
    "ws_cid demo_ws < 2" "sw_container (wrappers demo_ws 6) = None" "wsid demo_ws 6 = - 1"
    "plain (wrappers demo_ws 6)" "\<not> sw_aboutToRemove (wrappers demo_ws 6)" "m_id (models demo_ws ! 0) = 0"
    by (simp_all add: current_def modelAt_def ws_count_def cranked_def demo_ws_def newWorkspaceModel_def)
  show ?thesis
    using surface_add_then_remove [OF demo_ws_inv demo_ws_tree c(2,3,4,5,6,7,1), of "\<lambda>_. None"] c(5,8)
    by auto
qed

text \<open>The left and the right neighbour of a workspace are inverse to each other, and only the
  first workspace has no left and only the last no right neighbour (\<open>-1\<close>).\<close>

theorem neighbours_inverse:
  assumes "ws_inv s" "m \<in> set (models s)"
  shows "\<exists>l r. getLeftWorkspaceId s (m_id m) = Inr l \<and> getRightWorkspaceId s (m_id m) = Inr r
    \<and> (l = - 1 \<longleftrightarrow> m = hd (models s)) \<and> (r = - 1 \<longleftrightarrow> m = last (models s))
    \<and> (l \<noteq> - 1 \<longrightarrow> getRightWorkspaceId s l = Inr (m_id m))
    \<and> (r \<noteq> - 1 \<longrightarrow> getLeftWorkspaceId s r = Inr (m_id m))"
proof -
  have shape: "ws_shape s" using assms(1) by (simp add: ws_inv_def)
  obtain i where i: "i < length (models s)" "m = models s ! i" using assms(2) by (metis in_set_conv_nth)
  have dist: "distinct (models s)" using shape by (simp add: ws_shape_def distinct_map)
  have pos: "0 \<le> m_id (models s ! j)" if "j < length (models s)" for j
    using shape that by (simp add: ws_shape_def)
  have hd: "m = hd (models s) \<longleftrightarrow> i = 0"
    using i dist by (cases "models s") (auto simp: nth_Cons')
  have last: "m = last (models s) \<longleftrightarrow> Suc i = length (models s)"
    using i dist nth_eq_iff_index_eq [OF dist i(1), of "length (models s) - 1"]
    by (cases "models s = []") (auto simp: last_conv_nth)
  have i1: "i - 1 < length (models s)" using i(1) by simp
  show ?thesis
    using neighbour_ids [OF shape i(1)] neighbour_ids [OF shape i1] neighbour_ids [OF shape, of "Suc i"]
      pos [OF i1] pos [of "Suc i"] i hd last
    by (cases "i = 0"; cases "Suc i = length (models s)") auto
qed

theorem neighbours_inverse_witness:
  "\<exists>r. getRightWorkspaceId demo_ws 0 = Inr r \<and> (r \<noteq> - 1 \<longrightarrow> getLeftWorkspaceId demo_ws r = Inr 0)"
  using neighbours_inverse [OF demo_ws_inv, of "models demo_ws ! 0"]
  by (auto simp: demo_ws_def newWorkspaceModel_def)

lemma exchanged_keeps:
  "exchanged m' s t \<Longrightarrow> k \<in> set (all_models s) \<Longrightarrow> m_id k \<noteq> m_id m' \<Longrightarrow> k \<in> set (all_models t)"
  unfolding exchanged_def by (auto simp: image_iff)

lemma hist_only_keeps:
  assumes "hist_only s t h" "k \<in> set (all_models s)" "h k = m_history k"
  shows "k \<in> set (all_models t)"
proof -
  have "k = k\<lparr>m_history := h k\<rparr>" using assms(3) by simp
  then have "k \<in> (\<lambda>m. m\<lparr>m_history := h m\<rparr>) ` set (all_models s)" using assms(2) by (rule image_eqI)
  moreover have "all_models t = map (\<lambda>m. m\<lparr>m_history := h m\<rparr>) (all_models s)"
    using assms(1) by (simp add: hist_only_def)
  ultimately show ?thesis by (simp only: set_map)
qed

lemma refresh_keeps_history:
  assumes inv: "ws_inv s" and x: "wsid s x = wid" "wid \<noteq> - 1" "wid \<noteq> ShowOnAllWorkspaceId"
    and k: "k \<in> set (all_models s)" "m_id k \<noteq> wid"
  shows "\<exists>t. (if hasActiveCapability (wrappers s x)
      then rbind (removeActivedSurface x s) (pushActivedSurface x) else Inr s) = Inr t
    \<and> k \<in> set (all_models t) \<and> wsid t x = wid"
proof (cases "hasActiveCapability (wrappers s x)")
  case True
  have pl: "plain (wrappers s x)" using inv x by (auto simp: ws_inv_def ws_members_def)
  have sc: "\<not> history_scope s x k" using pl x k(2) by (simp add: history_scope_def plain_showOnAll)
  obtain t where t: "removeActivedSurface x s = Inr t" "hist_only s t (\<lambda>k. if history_scope s x k
      then removeAll x (m_history k) else m_history k)"
    using removeActivedSurface_spec [OF inv, of x] x by auto
  have kt: "k \<in> set (all_models t)" using hist_only_keeps [OF t(2) k(1)] sc by simp
  have tw: "wrappers t = wrappers s" using t(2) by (simp add: hist_only_def)
  have "ws_inv t" using hist_only_inv [OF t(2) inv] .
  with pushActivedSurface_spec [of t x] obtain u where u: "pushActivedSurface x t = Inr u"
    "hist_only t u (\<lambda>k. if history_scope t x k then x # removeAll x (m_history k) else m_history k)"
    using x tw by auto
  have "k \<in> set (all_models u)" using hist_only_keeps [OF u(2) kt] sc tw by (simp add: history_scope_def)
  moreover have "wrappers u = wrappers s" using u(2) tw by (simp add: hist_only_def)
  ultimately show ?thesis using True t(1) u(1) x(1) by simp
qed (use k x in simp)

text \<open>A window that was shown on all workspaces and is moved to one of them stays in the
  activation history of every other workspace, which may then give the focus to a window it
  neither lists nor shows.\<close>

theorem moved_window_stays_in_history:
  fixes s :: "'a wstate_scheme"
  assumes inv: "ws_inv s" and x: "wsid s x = ShowOnAllWorkspaceId" "sw_subSurfaces (wrappers s x) = []"
      "sw_parentSurface (wrappers s x) = None"
    and wid: "modelFromId s wid \<noteq> None" "wid \<noteq> ShowOnAllWorkspaceId"
    and k: "k \<in> set (models s)" "m_id k \<noteq> wid" "latestActiveSurface k = Some x"
  shows "\<exists>t k'. moveSurfaceTo (Suc n) x wid s = Inr t \<and> wsid t x = wid
    \<and> k' \<in> set (all_models t) \<and> m_id k' = m_id k \<and> latestActiveSurface k' = Some x
    \<and> x \<notin> set (m_surfaces k')"
proof -
  have shape: "ws_shape s" using inv by (simp add: ws_inv_def)
  have vid: "wid \<in> m_id ` set (all_models s)" using modelFromId_valid [OF shape] wid(1) by blast
  have "family {x} s" using x by (simp add: family_def followers_def ShowOnAllWorkspaceId_def)
  then have mv: "movable wid {x} s" using inv vid by (simp add: movable_def)
  note wid1 = movable_wid [OF mv]
  have nn: "wsid s x \<noteq> - 1" "wsid s x \<noteq> wid" using x(1) wid(2) by (auto simp: ShowOnAllWorkspaceId_def)
  obtain m where m: "m \<in> set (all_models s)" "m_id m = wsid s x" "x \<in> set (m_surfaces m)"
    "plain (wrappers s x)" using ws_home [OF inv nn(1)] by metis
  have from_id: "(if showOnAllWorkspace (wrappers s x) then ShowOnAllWorkspaceId else wsid s x) = m_id m"
    using m plain_showOnAll by auto
  obtain s1 where s1: "on_model (m_id m) (wm_removeSurface x) s = Inr s1" "ws_inv s1" "ws_frame s s1"
    "exchanged (fst (wm_removeSurface x m s)) s s1" "\<And>y. wsid s1 y = (if y = x then - 1 else wsid s y)"
    using remove_step [OF inv m(1,3)] by metis
  have "m_id k \<noteq> m_id m" using k(1) shape m(2) x(1) by (auto simp: ws_shape_def ShowOnAllWorkspaceId_def)
  then have k1: "k \<in> set (all_models s1)" using exchanged_keeps [OF s1(4)] k(1) by simp
  have "plain (wrappers s1 x)" using m(4) s1(3) kernel_of_eqD(6) by (metis ws_frame_def)
  moreover obtain w where w: "w \<in> set (all_models s1)" "m_id w = wid"
    using vid ws_frame_id_set [OF s1(3)] by (metis imageE)
  moreover have "wsid s1 x = - 1" using s1(5) by simp
  ultimately obtain s2 where s2: "on_model wid (wm_addSurface x) s1 = Inr s2" "ws_inv s2" "ws_frame s1 s2"
    "exchanged (fst (wm_addSurface x w s1)) s1 s2" "\<And>y. wsid s2 y = (if y = x then wid else wsid s1 y)"
    using add_step [OF s1(2) w(1)] by metis
  have k2: "k \<in> set (all_models s2)" using exchanged_keeps [OF s2(4) k1] k(2) w(2) by simp
  have "sw_subSurfaces (wrappers s2 x) = []" "sw_parentSurface (wrappers s2 x) = None"
    using x(2,3) kernel_of_eqD(2,3) [of "wrappers s2 x" "wrappers s x"] s1(3) s2(3) by (simp_all add: ws_frame_def)
  then have "moveSubSurfaces n (sw_subSurfaces (wrappers s2 x)) wid s2 = Inr s2"
    "(case sw_parentSurface (wrappers s2 x) of None \<Rightarrow> Inr s2
      | Some p \<Rightarrow> if sw_modal (wrappers s2 x) then moveSurfaceTo n p wid s2 else Inr s2) = Inr s2"
    by (simp_all add: moveSubSurfaces.simps)
  then have mv2: "moveSurfaceTo (Suc n) x wid s = (if hasActiveCapability (wrappers s2 x)
      then rbind (removeActivedSurface x s2) (pushActivedSurface x) else Inr s2)"
    by (rule moveSurfaceTo_away [OF wid1 nn(2,1) wid(1) from_id s1(1) s2(1)])
  have "wsid s2 x = wid" using s2(5) by simp
  from refresh_keeps_history [OF s2(2) this wid1 wid(2) k2 k(2)] obtain t
    where "moveSurfaceTo (Suc n) x wid s = Inr t" "k \<in> set (all_models t)" "wsid t x = wid" unfolding mv2 by blast
  moreover have "x \<notin> set (m_surfaces k)"
    using ws_membersD [of s k x] inv k(1) x(1) shape by (auto simp: ws_inv_def ws_shape_def ShowOnAllWorkspaceId_def)
  ultimately show ?thesis using k(3) by blast
qed

theorem moved_window_stays_in_history_witness:
  "\<exists>t k'. moveSurfaceTo 1 5 0 demo_ws = Inr t \<and> wsid t 5 = 0 \<and> k' \<in> set (all_models t)
     \<and> m_id k' = 1 \<and> latestActiveSurface k' = Some 5 \<and> 5 \<notin> set (m_surfaces k')"
proof -
  have c: "wsid demo_ws 5 = ShowOnAllWorkspaceId" "sw_subSurfaces (wrappers demo_ws 5) = []"
    "sw_parentSurface (wrappers demo_ws 5) = None" "modelFromId demo_ws 0 \<noteq> None"
    "0 \<noteq> ShowOnAllWorkspaceId" "models demo_ws ! 1 \<in> set (models demo_ws)"
    "m_id (models demo_ws ! 1) \<noteq> 0" "latestActiveSurface (models demo_ws ! 1) = Some 5"
    "m_id (models demo_ws ! 1) = 1"
    by (simp_all add: demo_ws_def newWorkspaceModel_def ShowOnAllWorkspaceId_def modelFromId_def
        latestActiveSurface_def)
  show ?thesis using moved_window_stays_in_history [OF demo_ws_inv c(1-8), of 0] c(9) by simp
qed

end
