(* ===== verification/Workspace_Switch.thy ===== *)
theory Workspace_Switch
  imports Workspace_Surfaces
begin

text \<open>
  src/src/workspace/workspace.cpp: switching, creating, removing and reordering workspaces,
  the preview of a window and the task switcher's list (with
  src/src/surface/surfacefilterproxymodel.cpp). \<open>act\<close> stands for
  \<^verbatim>\<open>WaylandServer::activateSurface\<close>, which the theory \<open>Focus\<close> provides; what these operations
  rely on it for is the locale \<open>focus_provider\<close>.
\<close>

type_synonym 'a activator = "sid option \<Rightarrow> 'a wstate_scheme \<Rightarrow> 'a wstate_scheme result"

section \<open>The current workspace\<close>

definition doSetCurrentIndex :: "int \<Rightarrow> 'a wstate_scheme \<Rightarrow> 'a wstate_scheme" where
  "doSetCurrentIndex i s = s\<lparr>currentIndex := i, cfgCurrentWorkspace := i\<rparr>"

definition setVisibleAt :: "nat \<Rightarrow> 'a wstate_scheme \<Rightarrow> 'a wstate_scheme result" where
  "setVisibleAt i s =
     rbind (deref (modelAt s (int i))) (\<lambda>m.
       on_model (m_id m) (wm_setVisible (int i = currentIndex s)) s)"

definition updateModelVisibility :: "'a wstate_scheme \<Rightarrow> 'a wstate_scheme result" where
  "updateModelVisibility s = rfold setVisibleAt [0..<length (models s)] s"

definition setCurrentIndex :: "int \<Rightarrow> 'a wstate_scheme \<Rightarrow> 'a wstate_scheme result" where
  "setCurrentIndex i s =
     (if i < 0 \<or> i \<ge> ws_count s then Inr s
      else if currentIndex s = i then Inr s
      else
        rbind (updateModelVisibility (doSetCurrentIndex i s)) (\<lambda>s.
          Inr (emit CurrentChanged (emit CurrentIndexChanged s))))"

definition createSwitcher :: "'a wstate_scheme \<Rightarrow> 'a wstate_scheme" where
  "createSwitcher s =
     (if switcherEnabled s \<and> \<not> switcher s then emit CreateSwitcher (s\<lparr>switcher := True\<rparr>) else s)"

text \<open>The switcher item is visible while the animation runs (WorkspaceSwitcher.qml) and is
  deleted when it becomes invisible.\<close>

definition switcherVisibleChanged :: "'a wstate_scheme \<Rightarrow> 'a wstate_scheme" where
  "switcherVisibleChanged s =
     (if switcher s \<and> \<not> a_running (anim s) then emit DeleteSwitcher (s\<lparr>switcher := False\<rparr>) else s)"

definition switchTo :: "'a activator \<Rightarrow> int \<Rightarrow> bool \<Rightarrow> 'a wstate_scheme \<Rightarrow> 'a wstate_scheme result" where
  "switchTo act index animated s =
     (if index < 0 \<or> index \<ge> ws_count s \<or> index = currentIndex s then Inr s
      else
        let s = emit DismissAllPopups s; old = currentIndex s in
        rbind (setCurrentIndex index s) (\<lambda>s.
        rbind (if \<not> multitaskview s
               then rbind (deref (current s)) (\<lambda>m. act (latestActiveSurface m) s)
               else Inr s) (\<lambda>s.
        if animated
        then let s = createSwitcher s in
             Inr (s\<lparr>anim := slide (nat old) (nat (currentIndex s)) (anim s)\<rparr>)
        else if switcher s \<and> a_running (anim s) then Inr (emit RaiseSwitcher s)
        else Inr s)))"

definition switchToNext :: "'a activator \<Rightarrow> 'a wstate_scheme \<Rightarrow> 'a wstate_scheme result" where
  "switchToNext act s =
     (if currentIndex s < ws_count s - 1 then switchTo act (currentIndex s + 1) True s
      else let s = createSwitcher s in
           Inr (s\<lparr>anim := bounce (nat (currentIndex s)) WRight (anim s)\<rparr>))"

definition switchToPrev :: "'a activator \<Rightarrow> 'a wstate_scheme \<Rightarrow> 'a wstate_scheme result" where
  "switchToPrev act s =
     (if currentIndex s > 0 then switchTo act (currentIndex s - 1) True s
      else let s = createSwitcher s in
           Inr (s\<lparr>anim := bounce (nat (currentIndex s)) WLeft (anim s)\<rparr>))"

definition setCurrent :: "int \<Rightarrow> 'a wstate_scheme \<Rightarrow> 'a wstate_scheme result" where
  "setCurrent model_id s =
     (let index = index_of (map m_id (models s)) model_id in
      if index < 0 then Inr s else setCurrentIndex index s)"

definition setSwitcherEnabled :: "bool \<Rightarrow> 'a wstate_scheme \<Rightarrow> 'a wstate_scheme" where
  "setSwitcherEnabled b s = s\<lparr>switcherEnabled := b\<rparr>"

section \<open>Creating and reordering\<close>

definition workspace_name :: "int \<Rightarrow> string" where
  "workspace_name i = ''workspace-'' @ (if i < 0 then ''-'' else []) @ nat_digits (nat \<bar>i\<bar>)"

definition nextWorkspaceId :: "'a wstate_scheme \<Rightarrow> int \<times> 'a wstate_scheme" where
  "nextWorkspaceId s = (globalWorkspaceId s, s\<lparr>globalWorkspaceId := globalWorkspaceId s + 1\<rparr>)"

definition doCreateModel :: "string \<Rightarrow> bool \<Rightarrow> 'a wstate_scheme \<Rightarrow> int \<times> 'a wstate_scheme" where
  "doCreateModel name visible s =
     (let (i, s) = nextWorkspaceId s;
          m = newWorkspaceModel i (m_history (allModel s));
          (m, s) = wm_setName (if name = [] then workspace_name (m_id m) else name) m s;
          (m, s) = wm_setVisible visible m s
      in (m_id m, s\<lparr>models := models s @ [m]\<rparr>))"

definition createModel :: "string \<Rightarrow> bool \<Rightarrow> 'a wstate_scheme \<Rightarrow> int \<times> 'a wstate_scheme" where
  "createModel name visible s =
     (let (i, s) = doCreateModel name visible s;
          s = s\<lparr>cfgNumWorkspace := ws_count s\<rparr>
      in (i, emit WorkspaceAdded (emit CountChanged s)))"

text \<open>\<^verbatim>\<open>beginMoveRows\<close> refuses a move to the row itself, and asserts that the rows are in range.\<close>

definition moveRows :: "int \<Rightarrow> int \<Rightarrow> 'a wstate_scheme \<Rightarrow> 'a wstate_scheme result" where
  "moveRows source_row dest s =
     (if dest = source_row then Inr s
      else
        rbind (qassert (0 \<le> source_row \<and> source_row < ws_count s \<and> 0 \<le> dest \<and> dest < ws_count s)) (\<lambda>_.
          Inr (s\<lparr>models := list_move (models s) (nat source_row) (nat dest)\<rparr>)))"

definition moveModelTo :: "int \<Rightarrow> int \<Rightarrow> 'a wstate_scheme \<Rightarrow> 'a wstate_scheme result" where
  "moveModelTo wid dest s =
     (let oldCurrent = current s;
          fromIndex = (if wid \<in> set (map m_id (models s)) then index_of (map m_id (models s)) wid
                       else ws_count s)
      in rbind (qassert (fromIndex < ws_count s)) (\<lambda>_.
         rbind (moveRows fromIndex dest s) (\<lambda>s.
           let i = (case oldCurrent of None \<Rightarrow> - 1 | Some m \<Rightarrow> index_of (map m_id (models s)) (m_id m))
           in Inr (emit CurrentIndexChanged (doSetCurrentIndex i s)))))"

definition newWorkspace :: "'a wstate_scheme \<Rightarrow> 'a wstate_scheme" where
  "newWorkspace s =
     (let s = s\<lparr>currentIndex := cfgCurrentWorkspace s, models := []\<rparr>;
          m = newWorkspaceModel ShowOnAllWorkspaceId [];
          (m, s) = wm_setName ''show-on-all-workspace'' m s;
          (m, s) = wm_setVisible True m s;
          s = s\<lparr>allModel := m\<rparr>
      in fold (\<lambda>i s. snd (doCreateModel (workspace_name (int i)) (int i = cfgCurrentWorkspace s) s))
           [0..<nat (cfgNumWorkspace s)] s)"

section \<open>Removing\<close>

text \<open>One window of the removed workspace goes to the target.\<close>

definition evacuate ::
  "int \<Rightarrow> sid \<Rightarrow> wmodel \<times> 'a wstate_scheme \<Rightarrow> (wmodel \<times> 'a wstate_scheme) result" where
  "evacuate target_id x ms =
     (let (m, s) = wm_removeSurface x (fst ms) (snd ms) in
      rbind (on_model target_id (wm_addSurface x) s) (\<lambda>s.
      rbind (if hasActiveCapability (wrappers s x) \<and> \<not> showOnAllWorkspace (wrappers s x)
             then on_model target_id (pure_op (wm_pushActivedSurface x)) s else Inr s) (\<lambda>s.
      Inr (m, s))))"

definition doRemoveModel :: "'a activator \<Rightarrow> int \<Rightarrow> 'a wstate_scheme \<Rightarrow> 'a wstate_scheme result" where
  "doRemoveModel act index s =
     (let oldCurrent = current s; oldCurrentIndex = currentIndex s;
          target = modelAt s (if index > 0 then index - 1 else 1) in
      rbind (qassert (target \<noteq> None)) (\<lambda>_.
      rbind (deref (modelAt s index)) (\<lambda>model.
      rbind (deref target) (\<lambda>target.
      let s = s\<lparr>models := filter (\<lambda>k. m_id k \<noteq> m_id model) (models s)\<rparr>;
          s = (if map_option m_id oldCurrent = Some (m_id model)
               then doSetCurrentIndex (index_of (map m_id (models s)) (m_id target)) s
               else doSetCurrentIndex
                 (case oldCurrent of None \<Rightarrow> - 1 | Some k \<Rightarrow> index_of (map m_id (models s)) (m_id k)) s) in
      rbind (qassert (current s \<noteq> None)) (\<lambda>_.
      rbind (rfold (evacuate (m_id target)) (m_surfaces model) (model, s)) (\<lambda>(_, s).
      rbind (deref (current s)) (\<lambda>cur.
      rbind (if \<not> multitaskview s then act (latestActiveSurface cur) s else Inr s) (\<lambda>s.
      let s = (if switcher s then emit DeleteSwitcher (s\<lparr>switcher := False\<rparr>) else s) in
      rbind (updateModelVisibility s) (\<lambda>s.
      let s = emit (DeleteModel (m_id model)) s;
          s = (if oldCurrentIndex \<noteq> currentIndex s then emit CurrentIndexChanged s else s) in
      Inr (if map_option m_id oldCurrent \<noteq> Some (m_id cur) then emit CurrentChanged s else s))))))))))"

definition removeModel :: "'a activator \<Rightarrow> int \<Rightarrow> 'a wstate_scheme \<Rightarrow> 'a wstate_scheme result" where
  "removeModel act index s =
     rbind (qassert (ws_count s > 1)) (\<lambda>_.
     rbind (qassert (index \<ge> 0 \<and> index < ws_count s)) (\<lambda>_.
     rbind (doRemoveModel act index s) (\<lambda>s.
       Inr (emit CountChanged (s\<lparr>cfgNumWorkspace := ws_count s\<rparr>)))))"

fun createModels :: "nat \<Rightarrow> 'a wstate_scheme \<Rightarrow> 'a wstate_scheme" where
  "createModels 0 s = s"
| "createModels (Suc n) s = createModels n (snd (doCreateModel (workspace_name (ws_count s)) False s))"

fun removeModels :: "'a activator \<Rightarrow> nat \<Rightarrow> 'a wstate_scheme \<Rightarrow> 'a wstate_scheme result" where
  "removeModels act 0 s = Inr s"
| "removeModels act (Suc n) s = rbind (doRemoveModel act (ws_count s - 1) s) (removeModels act n)"

definition reloadFromConfig :: "'a activator \<Rightarrow> 'a wstate_scheme \<Rightarrow> 'a wstate_scheme result" where
  "reloadFromConfig act s =
     (let targetCount = cfgNumWorkspace s;
          s = (if targetCount < 1 then s\<lparr>cfgNumWorkspace := 1\<rparr> else s);
          targetCount = (if targetCount < 1 then 1 else targetCount);
          targetIndex = cfgCurrentWorkspace s;
          s = createModels (nat (targetCount - ws_count s)) s in
      rbind (removeModels act (nat (ws_count s - targetCount)) s) (\<lambda>s.
        let targetIndex = (if targetIndex \<ge> ws_count s then ws_count s - 1 else targetIndex);
            targetIndex = (if targetIndex < 0 then 0 else targetIndex)
        in setCurrentIndex targetIndex s))"

section \<open>Previewing a window\<close>

definition restorePreviewed :: "sid \<Rightarrow> 'a wstate_scheme \<Rightarrow> 'a wstate_scheme result" where
  "restorePreviewed x s =
     rbind (deref (modelFromId s (sw_workspaceId (wrappers s x)))) (\<lambda>m.
       Inr (setHideByWorkspace (\<not> m_visible m) x (setOpacity (if m_opaque m then 1 else 0) x s)))"

definition startPreviewing :: "sid \<Rightarrow> 'a wstate_scheme \<Rightarrow> 'a wstate_scheme result" where
  "startPreviewing x s =
     rbind (case previewingItem s of
              Some y \<Rightarrow> if sw_shellSurface (wrappers s y) then restorePreviewed y s else Inr s
            | None \<Rightarrow> Inr s) (\<lambda>s.
     let s = s\<lparr>previewingItem := Some x\<rparr> in
     rbind (deref (current s)) (\<lambda>m.
     rbind (on_model (m_id m) (wm_setOpaque False) s) (\<lambda>s.
       Inr (setHideByWorkspace False x (setOpacity 1 x s)))))"

definition stopPreviewing :: "'a wstate_scheme \<Rightarrow> 'a wstate_scheme result" where
  "stopPreviewing s =
     rbind (deref (current s)) (\<lambda>m.
     rbind (on_model (m_id m) (wm_setOpaque True) s) (\<lambda>s.
       case previewingItem s of
         Some y \<Rightarrow>
           if sw_shellSurface (wrappers s y)
           then rbind (restorePreviewed y s) (\<lambda>s. Inr (s\<lparr>previewingItem := None\<rparr>))
           else Inr s
       | None \<Rightarrow> Inr s))"

section \<open>The task switcher's list\<close>

definition filterAcceptsRow :: "string \<Rightarrow> swrapper \<Rightarrow> bool" where
  "filterAcceptsRow filterAppId w =
     (if sw_skipSwitcher w then False
      else if filterAppId = [] then True
      else sw_appId w = filterAppId)"

text \<open>The rows of the proxy model: the accepted surfaces, sorted stably by \<^verbatim>\<open>laterActiveThan\<close>, and
  the active index.\<close>

definition currentFilter :: "string \<Rightarrow> 'a wstate_scheme \<Rightarrow> (sid list \<times> int) result" where
  "currentFilter filterAppId s =
     rbind (deref (current s)) (\<lambda>m.
       Inr (sort_key (\<lambda>x. activeHistoryIndex (Some x) m)
              (filter (\<lambda>x. filterAcceptsRow filterAppId (wrappers s x)) (m_surfaces m)),
            activeHistoryIndex (latestActiveSurface m) m))"

section \<open>Visibility of the workspaces\<close>

definition vis_ok :: "'a wstate_scheme \<Rightarrow> bool" where
  "vis_ok s = (\<forall>i < length (models s). m_visible (models s ! i) = (int i = currentIndex s))"

definition index_ok :: "'a wstate_scheme \<Rightarrow> bool" where
  "index_ok s = (0 \<le> currentIndex s \<and> currentIndex s < ws_count s)"

text \<open>Only the visibility of workspaces and, with it, of surfaces changes.\<close>

definition vis_rel :: "'a wstate_scheme \<Rightarrow> 'a wstate_scheme \<Rightarrow> bool" where
  "vis_rel s t =
     (ws_inv t \<and> allModel t = allModel s
      \<and> map (\<lambda>m. m\<lparr>m_visible := False\<rparr>) (models t) = map (\<lambda>m. m\<lparr>m_visible := False\<rparr>) (models s)
      \<and> (\<forall>y. core_of (wrappers t y) = core_of (wrappers s y))
      \<and> containers t = containers s \<and> ws_cid t = ws_cid s \<and> currentIndex t = currentIndex s
      \<and> globalWorkspaceId t = globalWorkspaceId s \<and> primaryOutput t = primaryOutput s
      \<and> multitaskview t = multitaskview s \<and> (ws_settled s \<longrightarrow> ws_settled t))"

lemma vis_rel_refl: "ws_inv s \<Longrightarrow> vis_rel s s"
  by (simp add: vis_rel_def)

lemma vis_rel_trans: "vis_rel s t \<Longrightarrow> vis_rel t u \<Longrightarrow> vis_rel s u"
  by (simp add: vis_rel_def)

lemma vis_rel_length: "vis_rel s t \<Longrightarrow> length (models t) = length (models s)"
  unfolding vis_rel_def by (metis length_map)

lemma vis_rel_ids: "vis_rel s t \<Longrightarrow> map m_id (models t) = map m_id (models s)"
  unfolding vis_rel_def by (auto simp: comp_def dest!: arg_cong [of _ _ "map m_id"])

lemma vis_rel_wsid: "vis_rel s t \<Longrightarrow> wsid t y = wsid s y"
  using core_of_eqD(1) [of "wrappers t y" "wrappers s y"] by (simp add: vis_rel_def)

lemma map_replace_nth:
  assumes "distinct (map f xs)" "i < length xs"
  shows "map (\<lambda>k. if f k = f (xs ! i) then y else k) xs = xs[i := y]"
proof (rule nth_equalityI)
  fix j assume "j < length (map (\<lambda>k. if f k = f (xs ! i) then y else k) xs)"
  then have j: "j < length xs" by simp
  with assms have "f (xs ! j) = f (xs ! i) \<longleftrightarrow> j = i"
    using nth_eq_iff_index_eq [OF assms(1), of j i] by simp
  with j show "map (\<lambda>k. if f k = f (xs ! i) then y else k) xs ! j = xs[i := y] ! j"
    by (simp add: nth_list_update)
qed simp

lemma setVisibleAt_spec:
  fixes s :: "'a wstate_scheme"
  assumes inv: "ws_inv s" and i: "i < length (models s)"
  shows "\<exists>t. setVisibleAt i s = Inr t \<and> vis_rel s t
    \<and> models t = (models s)[i := (models s ! i)\<lparr>m_visible := (int i = currentIndex s)\<rparr>]"
proof -
  let ?m = "models s ! i" and ?v = "int i = currentIndex s"
  have shape: "ws_shape s" and mb: "ws_members s" using inv by (auto simp: ws_inv_def)
  have m: "?m \<in> set (all_models s)" using i by simp
  obtain t where t: "on_model (m_id ?m) (wm_setVisible ?v) s = Inr t"
    "all_models t = map (\<lambda>k. if m_id k = m_id ?m then ?m\<lparr>m_visible := ?v\<rparr> else k) (all_models s)"
    and wr: "wrappers t = wrappers (snd (wm_setVisible ?v ?m s))"
    and fr: "containers t = containers s" "ws_cid t = ws_cid s" "currentIndex t = currentIndex s"
      "globalWorkspaceId t = globalWorkspaceId s" "primaryOutput t = primaryOutput s"
      "multitaskview t = multitaskview s"
    using on_model_spec [OF shape m, of "wm_setVisible ?v"] by auto
  have ex: "exchanged (?m\<lparr>m_visible := ?v\<rparr>) s t" using t(2) fr(4) by (simp add: exchanged_def)
  have core: "core_of (wrappers t y) = core_of (wrappers s y)" for y by (simp add: wr wm_setVisible_wrappers)
  have same: "wsid t y = wsid s y" "plain (wrappers t y) = plain (wrappers s y)" for y
    using core_of_eqD(1) [OF core] kernel_of_eqD(6) [OF kernel_of_core [OF core]] by auto
  have mods: "models t = (models s)[i := ?m\<lparr>m_visible := ?v\<rparr>]"
    using t(2) map_replace_nth [of m_id "models s" i] shape i by (simp add: ws_shape_def)
  have "m_id ?m \<noteq> ShowOnAllWorkspaceId" using shape i by (auto simp: ws_shape_def ShowOnAllWorkspaceId_def dest!: nth_mem)
  then have all: "allModel t = allModel s" using t(2) shape by (simp add: ws_shape_def)
  have shape': "ws_shape t" using shape m by (intro exchanged_shape [OF ex shape]) (auto simp: ws_shape_def)
  have "x \<in> set (m_surfaces k) \<longleftrightarrow> wsid t x = m_id k" if "k \<in> set (all_models t)" for k x
    using exchanged_cases [OF ex that] ws_membersD [OF mb m, of x] ws_membersD [OF mb, of k x] same by auto
  then have "ws_members t" using mb unfolding ws_members_def exchanged_id_set [OF ex] same by blast
  moreover have "ws_settled t" if set: "ws_settled s"
    unfolding ws_settled_def
  proof
    fix k assume "k \<in> set (all_models t)"
    from exchanged_cases [OF ex this] show "wm_settled k (wrappers t)"
    proof
      assume "k = ?m\<lparr>m_visible := ?v\<rparr>"
      moreover have "wm_settled ?m (wrappers s)" using set m unfolding ws_settled_def by blast
      ultimately show ?thesis using wm_setVisible_settled [of ?m s ?v] by (simp add: wr)
    next
      assume k: "k \<in> set (all_models s) \<and> m_id k \<noteq> m_id (?m\<lparr>m_visible := ?v\<rparr>)"
      then have "y \<notin> set (m_surfaces ?m)" if "y \<in> set (m_surfaces k)" for y
        using that ws_membersD [OF mb m, of y] ws_membersD [OF mb, of k y] by simp
      moreover have "wm_settled k (wrappers s)" using k set unfolding ws_settled_def by blast
      ultimately show ?thesis unfolding wm_settled_def wr wm_setVisible_wrappers by simp
    qed
  qed
  moreover have "map (\<lambda>m. m\<lparr>m_visible := False\<rparr>) (models t) = map (\<lambda>m. m\<lparr>m_visible := False\<rparr>) (models s)"
    unfolding mods map_update using i by (simp add: list_update_same_conv)
  ultimately have "vis_rel s t" using shape' all core fr by (simp add: vis_rel_def ws_inv_def)
  moreover have "setVisibleAt i s = Inr t"
    using t(1) i by (simp add: setVisibleAt_def modelAt_nth)
  ultimately show ?thesis using mods by blast
qed

lemma updateModelVisibility_prefix:
  assumes "ws_inv s" "n \<le> length (models s)"
  shows "\<exists>t. rfold setVisibleAt [0..<n] s = Inr t \<and> vis_rel s t
    \<and> (\<forall>i < n. m_visible (models t ! i) = (int i = currentIndex s))"
  using assms(2)
proof (induction n)
  case 0
  then show ?case using assms(1) by (simp add: vis_rel_refl)
next
  case (Suc n)
  then obtain t where t: "rfold setVisibleAt [0..<n] s = Inr t" "vis_rel s t"
    "\<forall>i < n. m_visible (models t ! i) = (int i = currentIndex s)" by auto
  have len: "n < length (models t)" using vis_rel_length [OF t(2)] Suc.prems by simp
  obtain u where u: "setVisibleAt n t = Inr u" "vis_rel t u"
    "models u = (models t)[n := (models t ! n)\<lparr>m_visible := (int n = currentIndex t)\<rparr>]"
    using setVisibleAt_spec [OF _ len] t(2) by (auto simp: vis_rel_def)
  have "currentIndex t = currentIndex s" using t(2) by (simp add: vis_rel_def)
  then have "m_visible (models u ! i) = (int i = currentIndex s)" if "i < Suc n" for i
    using that t(3) u(3) len by (cases "i = n") (auto simp: less_Suc_eq)
  moreover have "rfold setVisibleAt [0..<Suc n] s = Inr u" using t(1) u(1) by (simp add: rfold_append)
  ultimately show ?case using vis_rel_trans [OF t(2) u(2)] by blast
qed

lemma updateModelVisibility_spec:
  assumes "ws_inv s"
  obtains t where "updateModelVisibility s = Inr t" "vis_rel s t" "vis_ok t"
proof -
  obtain t where t: "rfold setVisibleAt [0..<length (models s)] s = Inr t" "vis_rel s t"
    "\<forall>i < length (models s). m_visible (models t ! i) = (int i = currentIndex s)"
    using updateModelVisibility_prefix [OF assms order.refl] by blast
  then have "vis_ok t" using vis_rel_length [OF t(2)] by (simp add: vis_ok_def vis_rel_def)
  with t show thesis using that by (simp add: updateModelVisibility_def)
qed

text \<open>What a change of the current workspace keeps: everything but the index, the visibility of
  workspaces and surfaces, and the switcher.\<close>

definition switch_rel :: "'a wstate_scheme \<Rightarrow> 'a wstate_scheme \<Rightarrow> bool" where
  "switch_rel s t =
     (ws_inv t \<and> allModel t = allModel s
      \<and> map (\<lambda>m. m\<lparr>m_visible := False\<rparr>) (models t) = map (\<lambda>m. m\<lparr>m_visible := False\<rparr>) (models s)
      \<and> (\<forall>y. core_of (wrappers t y) = core_of (wrappers s y)) \<and> containers t = containers s
      \<and> ws_cid t = ws_cid s \<and> globalWorkspaceId t = globalWorkspaceId s
      \<and> multitaskview t = multitaskview s \<and> (ws_settled s \<longrightarrow> ws_settled t))"

lemma switch_rel_length: "switch_rel s t \<Longrightarrow> length (models t) = length (models s)"
  unfolding switch_rel_def by (metis length_map)

lemma ws_settled_cong:
  "ws_settled s \<Longrightarrow> allModel t = allModel s \<Longrightarrow> models t = models s \<Longrightarrow>
   (\<And>y. sw_hideByWorkspace (wrappers t y) = sw_hideByWorkspace (wrappers s y)) \<Longrightarrow> ws_settled t"
  by (simp add: ws_settled_def wm_settled_def)

lemma emit_ws [simp, scene_simps]:
  "models (emit e s) = models s" "allModel (emit e s) = allModel s" "currentIndex (emit e s) = currentIndex s"
  "globalWorkspaceId (emit e s) = globalWorkspaceId s" "multitaskview (emit e s) = multitaskview s"
  "ws_cid (emit e s) = ws_cid s" "anim (emit e s) = anim s" "switcher (emit e s) = switcher s"
  "cfgNumWorkspace (emit e s) = cfgNumWorkspace s" "cfgCurrentWorkspace (emit e s) = cfgCurrentWorkspace s"
  for s :: "'a wstate_scheme"
  by (simp_all add: emit_def)

lemma vis_rel_switch_rel:
  assumes "vis_rel t u" "allModel t = allModel s" "models t = models s" "wrappers t = wrappers s"
    "containers t = containers s" "ws_cid t = ws_cid s" "globalWorkspaceId t = globalWorkspaceId s"
    "multitaskview t = multitaskview s"
  shows "switch_rel s u"
proof -
  have "ws_settled s \<Longrightarrow> ws_settled t" using assms(2-4) ws_settled_cong [of s t] by simp
  with assms show ?thesis by (simp add: switch_rel_def vis_rel_def)
qed

lemma setCurrentIndex_spec:
  fixes s :: "'a wstate_scheme"
  assumes inv: "ws_inv s" and i: "0 \<le> i" "i < ws_count s" "currentIndex s \<noteq> i"
  obtains t where "setCurrentIndex i s = Inr t" "switch_rel s t" "vis_ok t" "currentIndex t = i"
proof -
  let ?s = "doSetCurrentIndex i s"
  have "ws_inv ?s" by (rule ws_inv_cong [OF inv]) (simp_all add: doSetCurrentIndex_def)
  then obtain u where u: "updateModelVisibility ?s = Inr u" "vis_rel ?s u" "vis_ok u"
    by (rule updateModelVisibility_spec)
  let ?t = "emit CurrentChanged (emit CurrentIndexChanged u)"
  have r: "switch_rel s u" by (rule vis_rel_switch_rel [OF u(2)]) (simp_all add: doSetCurrentIndex_def)
  show thesis
  proof (rule that)
    show "setCurrentIndex i s = Inr ?t" using i u(1) by (simp add: setCurrentIndex_def)
    have "ws_inv ?t" using r ws_inv_cong [of u ?t] by (simp add: switch_rel_def)
    moreover have "ws_settled u \<Longrightarrow> ws_settled ?t" using ws_settled_cong [of u ?t] by simp
    ultimately show "switch_rel s ?t" using r by (simp add: switch_rel_def)
    show "vis_ok ?t" using u(3) by (simp add: vis_ok_def)
    show "currentIndex ?t = i" using u(2) by (simp add: vis_rel_def doSetCurrentIndex_def)
  qed
qed

section \<open>Emptying a workspace that left the list\<close>

text \<open>While a workspace is being removed it is no longer in the list but still holds surfaces;
  \<open>with_detached\<close> is the state with it put back.\<close>

definition with_detached :: "wmodel \<Rightarrow> 'a wstate_scheme \<Rightarrow> 'a wstate_scheme" where
  "with_detached m s = s\<lparr>models := m # models s\<rparr>"

lemma with_detached_simps [simp]:
  "all_models (with_detached m s) = allModel s # m # models s" "wrappers (with_detached m s) = wrappers s"
  "globalWorkspaceId (with_detached m s) = globalWorkspaceId s" "models (with_detached m s) = m # models s"
  "allModel (with_detached m s) = allModel s"
  by (simp_all add: with_detached_def)

lemma detached_shape: "ws_shape (with_detached m s) \<Longrightarrow> ws_shape s"
  by (simp add: ws_shape_def)

lemma detached_drop:
  assumes "ws_inv (with_detached m s)" "m_surfaces m = []"
  shows "ws_inv s"
proof -
  have mb: "ws_members (with_detached m s)" and shape: "ws_shape s"
    using assms(1) detached_shape by (auto simp: ws_inv_def)
  have "wsid s x \<noteq> m_id m" for x using ws_membersD [OF mb, of m x] assms(2) by simp
  with mb have "ws_members s" by (auto simp: ws_members_def)
  with shape show ?thesis by (simp add: ws_inv_def)
qed

lemma detached_ids:
  assumes "ws_shape (with_detached m s)" "k \<in> set (all_models s)"
  shows "m_id k \<noteq> m_id m"
  using ws_shape_ids [OF assms(1)] assms(2) by (auto simp del: list.map simp: list.map(2) image_iff)

lemma exchange_detached:
  assumes "ws_shape (with_detached m s)" "m_id m' = m_id m" "allModel t = allModel s" "models t = models s"
    "globalWorkspaceId t = globalWorkspaceId s"
  shows "exchanged m' (with_detached m s) (with_detached m' t)"
proof -
  have "map (\<lambda>k. if m_id k = m_id m' then m' else k) (all_models s) = all_models s"
    using detached_ids [OF assms(1)] assms(2) by (intro map_idI) auto
  then show ?thesis using assms by (simp add: exchanged_def)
qed

lemma exchange_attached:
  assumes "exchanged k' s t" "m_id k' \<noteq> m_id m"
  shows "exchanged k' (with_detached m s) (with_detached m t)"
  using assms by (auto simp: exchanged_def)

lemma hist_only_detached:
  assumes "hist_only s t h" "h m = m_history m"
  shows "hist_only (with_detached m s) (with_detached m t) h"
  using assms by (auto simp: hist_only_def with_detached_def)

lemma evacuate_spec:
  fixes s :: "'a wstate_scheme"
  assumes inv: "ws_inv (with_detached m s)" and x: "x \<in> set (m_surfaces m)" and k: "k \<in> set (models s)"
  obtains m' s' where "evacuate (m_id k) x (m, s) = Inr (m', s')" "ws_inv (with_detached m' s')"
    "m_surfaces m' = remove1 x (m_surfaces m)" "m_id m' = m_id m" "ws_frame s s'"
    "\<And>y. wsid s' y = (if y = x then m_id k else wsid s y)"
    "ws_settled (with_detached m s) \<Longrightarrow> ws_settled (with_detached m' s')"
proof -
  have shape: "ws_shape (with_detached m s)" using inv by (simp add: ws_inv_def)
  obtain m1 s1 where r: "wm_removeSurface x m s = (m1, s1)" by fastforce
  have m1: "m1 = m\<lparr>m_surfaces := remove1 x (m_surfaces m), m_history := removeAll x (m_history m)\<rparr>"
    using wm_removeSurface_model [of x m s] r by simp
  have "scene.more s1 = scene.more s" using more_wm(5) [of x m s] r by simp
  note fr1 = more_eqD [OF this]
  have ex1: "exchanged (fst (wm_removeSurface x m s)) (with_detached m s) (with_detached m1 s1)"
    using exchange_detached [OF shape, of m1 s1] by (simp add: r m1 fr1)
  note rem = exchanged_remove [OF inv _ x ex1, simplified r, simplified]
  have inv1: "ws_inv (with_detached m1 s1)" using rem(1) by simp
  have wid1: "wsid s1 y = (if y = x then - 1 else wsid s y)" for y using rem(3) [of y] by simp
  have ker1: "kernel_of (wrappers s1 y) = kernel_of (wrappers s y)" for y using rem(2) [of y] by simp
  have shape1: "ws_shape s1" using detached_shape inv1 by (auto simp: ws_inv_def)
  have k1: "k \<in> set (all_models s1)" using k by (simp add: fr1)
  have kid: "m_id k \<noteq> m_id m1" using detached_ids [OF shape, of k] k by (simp add: m1)
  obtain s2 where s2: "on_model (m_id k) (wm_addSurface x) s1 = Inr s2"
    "all_models s2 = map (\<lambda>j. if m_id j = m_id k then fst (wm_addSurface x k s1) else j) (all_models s1)"
    and wr2: "wrappers s2 = wrappers (snd (wm_addSurface x k s1))"
    and fr2: "containers s2 = containers s1" "ws_cid s2 = ws_cid s1" "currentIndex s2 = currentIndex s1"
      "globalWorkspaceId s2 = globalWorkspaceId s1" "primaryOutput s2 = primaryOutput s1"
      "multitaskview s2 = multitaskview s1"
    using on_model_spec [OF shape1 k1, of "wm_addSurface x"] by auto
  have ex2: "exchanged (fst (wm_addSurface x k s1)) s1 s2" using s2(2) fr2(4) by (simp add: exchanged_def)
  have ex2': "exchanged (fst (wm_addSurface x k s1)) (with_detached m1 s1) (with_detached m1 s2)"
    by (rule exchange_attached [OF ex2]) (simp add: kid)
  have x1: "wsid (with_detached m1 s1) x = - 1" using wid1 by simp
  have pl1: "plain (wrappers (with_detached m1 s1) x)"
  proof -
    have "wsid s x \<noteq> - 1" using ws_membersD [of "with_detached m s" m x] x inv ws_inv_id_neq [OF shape, of m]
      by (simp add: ws_inv_def)
    then have "plain (wrappers s x)" using inv by (auto simp: ws_inv_def ws_members_def)
    then show ?thesis using kernel_of_eqD(6) [OF ker1] by simp
  qed
  have k1': "k \<in> set (all_models (with_detached m1 s1))" using k1 by auto
  note add = exchanged_add [OF inv1 k1' x1 pl1 ex2' _ , simplified, OF wr2]
  have frame: "ws_frame s s2"
  proof -
    have "ws_frame s s1" using fr1 ker1 by (simp add: ws_frame_def)
    moreover have "ws_frame s1 s2" using add(2)
      by (intro ws_frame_exchanged [OF ex2 k1 _ shape1]) (simp_all add: model_frame_def fr2 wr2)
    ultimately show ?thesis by (rule ws_frame_trans)
  qed
  have shape2: "ws_shape s2" using detached_shape add(1) by (auto simp: ws_inv_def)
  have push: "\<exists>s3 h. (if hasActiveCapability (wrappers s2 x) \<and> \<not> showOnAllWorkspace (wrappers s2 x)
      then on_model (m_id k) (pure_op (wm_pushActivedSurface x)) s2 else Inr s2) = Inr s3
    \<and> hist_only s2 s3 h \<and> h m1 = m_history m1"
  proof (cases "hasActiveCapability (wrappers s2 x) \<and> \<not> showOnAllWorkspace (wrappers s2 x)")
    case True
    have "m_id k \<in> m_id ` set (all_models s2)"
      using exchanged_id_set [OF ex2] k1 by (metis imageI)
    then obtain j where j: "j \<in> set (all_models s2)" "m_id j = m_id k" by (metis imageE)
    from on_model_history [OF shape2 j(1), of "wm_pushActivedSurface x" "\<lambda>k. x # removeAll x (m_history k)"]
    obtain s3 where "on_model (m_id k) (pure_op (wm_pushActivedSurface x)) s2 = Inr s3"
      "hist_only s2 s3 (\<lambda>i. if m_id i = m_id k then x # removeAll x (m_history i) else m_history i)"
      using j(2) by auto
    then show ?thesis
      using True kid by (intro exI [of _ s3]
          exI [of _ "\<lambda>i. if m_id i = m_id k then x # removeAll x (m_history i) else m_history i"]) auto
  next
    case False
    moreover have "hist_only s2 s2 m_history" by (simp add: hist_only_def)
    ultimately show ?thesis by auto
  qed
  then obtain s3 h where s3: "(if hasActiveCapability (wrappers s2 x) \<and> \<not> showOnAllWorkspace (wrappers s2 x)
      then on_model (m_id k) (pure_op (wm_pushActivedSurface x)) s2 else Inr s2) = Inr s3"
    "hist_only s2 s3 h" "h m1 = m_history m1" by blast
  note ho = hist_only_detached [OF s3(2,3)]
  have w3: "wrappers s3 = wrappers s2" using s3(2) by (simp add: hist_only_def)
  show thesis
  proof (rule that)
    show "evacuate (m_id k) x (m, s) = Inr (m1, s3)" by (simp add: evacuate_def r s2(1) s3(1))
    show "ws_inv (with_detached m1 s3)" using hist_only_inv [OF ho] add(1) by simp
    show "ws_frame s s3" using ws_frame_trans [OF frame hist_only_frame [OF s3(2)]] .
    show "wsid s3 y = (if y = x then m_id k else wsid s y)" for y using add(3) [of y] wid1 by (simp add: w3 wr2)
    show "ws_settled (with_detached m1 s3)" if "ws_settled (with_detached m s)"
      using hist_only_settled [OF ho] add(4) rem(4) that by simp
  qed (simp_all add: m1)
qed

lemma evacuate_all:
  fixes s :: "'a wstate_scheme"
  assumes "ws_inv (with_detached m s)" "k \<in> m_id ` set (models s)" "xs = m_surfaces m"
  shows "\<exists>m' s'. rfold (evacuate k) xs (m, s) = Inr (m', s') \<and> ws_inv s' \<and> ws_frame s s'
    \<and> (\<forall>y. wsid s' y = (if y \<in> set xs then k else wsid s y))
    \<and> (ws_settled (with_detached m s) \<longrightarrow> ws_settled s')"
  using assms
proof (induction xs arbitrary: m s)
  case Nil
  then have "ws_inv s" using detached_drop by (metis)
  moreover have "ws_settled (with_detached m s) \<Longrightarrow> ws_settled s" by (simp add: ws_settled_def)
  ultimately show ?case by simp
next
  case (Cons x xs)
  then obtain j where j: "j \<in> set (models s)" "m_id j = k" by auto
  have x: "x \<in> set (m_surfaces m)" by (simp flip: Cons.prems(3))
  obtain m1 s1 where e: "evacuate k x (m, s) = Inr (m1, s1)" "ws_inv (with_detached m1 s1)"
    "m_surfaces m1 = remove1 x (m_surfaces m)" "ws_frame s s1"
    "\<And>y. wsid s1 y = (if y = x then k else wsid s y)"
    "ws_settled (with_detached m s) \<Longrightarrow> ws_settled (with_detached m1 s1)"
    using evacuate_spec [OF Cons.prems(1) x j(1)] unfolding j(2) by metis
  have "map m_id (models s1) = map m_id (models s)" using model_frame_ids [OF e(4)] by simp
  then have "k \<in> m_id ` set (models s1)" using Cons.prems(2) by (metis set_map)
  moreover have "xs = m_surfaces m1" using e(3) by (simp flip: Cons.prems(3))
  ultimately obtain m' s' where f: "rfold (evacuate k) xs (m1, s1) = Inr (m', s')" "ws_inv s'" "ws_frame s1 s'"
    "\<forall>y. wsid s' y = (if y \<in> set xs then k else wsid s1 y)"
    "ws_settled (with_detached m1 s1) \<longrightarrow> ws_settled s'"
    using Cons.IH [OF e(2)] by blast
  show ?case
    using e(1,6) f ws_frame_trans [OF e(4) f(3)] by (intro exI [of _ m'] exI [of _ s']) (auto simp: e(5))
qed

section \<open>Removing a workspace\<close>

text \<open>What an activation leaves alone: the workspaces, their order and visibility and the
  containers; it may change the activation state of windows and the histories.\<close>

definition list_frame :: "'a wstate_scheme \<Rightarrow> 'a wstate_scheme \<Rightarrow> bool" where
  "list_frame s t =
     (map model_frame (all_models t) = map model_frame (all_models s)
      \<and> containers t = containers s \<and> ws_cid t = ws_cid s \<and> currentIndex t = currentIndex s
      \<and> globalWorkspaceId t = globalWorkspaceId s \<and> primaryOutput t = primaryOutput s
      \<and> multitaskview t = multitaskview s)"

lemma list_frame_refl [simp]: "list_frame s s"
  by (simp add: list_frame_def)

lemma list_frame_trans: "list_frame s t \<Longrightarrow> list_frame t u \<Longrightarrow> list_frame s u"
  by (simp add: list_frame_def)

lemma list_frame_ids: "list_frame s t \<Longrightarrow> map m_id (models t) = map m_id (models s)"
  unfolding list_frame_def model_frame_def by (auto dest!: arg_cong [of _ _ "map fst"] simp: comp_def)

text \<open>An activation that always returns and leaves alone what the workspaces are about.\<close>

definition act_safe :: "'a activator \<Rightarrow> bool" where
  "act_safe act =
     (\<forall>x s. ws_inv s \<longrightarrow> (\<exists>t. act x s = Inr t \<and> ws_inv t \<and> list_frame s t \<and> (ws_settled s \<longrightarrow> ws_settled t)
        \<and> (\<forall>y. wsid t y = - 1 \<longleftrightarrow> wsid s y = - 1)))"

lemma filter_other_ids:
  assumes "distinct (map f xs)" "i < length xs"
  shows "map f (filter (\<lambda>k. f k \<noteq> f (xs ! i)) xs) = remove1 (f (xs ! i)) (map f xs)"
  using assms
proof (induction xs arbitrary: i)
  case (Cons a xs)
  show ?case
  proof (cases i)
    case 0
    with Cons.prems have "\<forall>k\<in>set xs. f k \<noteq> f a" by (auto simp: image_iff)
    then have "filter (\<lambda>k. f k \<noteq> f a) xs = xs" by (simp add: filter_id_conv)
    with 0 show ?thesis by simp
  next
    case (Suc j)
    moreover from this Cons.prems have "f a \<noteq> f (xs ! j)" by (auto simp: image_iff)
    ultimately show ?thesis using Cons by simp
  qed
qed simp

definition removed_ids :: "int \<Rightarrow> 'a wstate_scheme \<Rightarrow> int list" where
  "removed_ids i s = remove1 (m_id (models s ! nat i)) (map m_id (models s))"

definition evac_target :: "int \<Rightarrow> 'a wstate_scheme \<Rightarrow> wmodel" where
  "evac_target i s = models s ! nat (if i > 0 then i - 1 else 1)"

definition detached_state :: "int \<Rightarrow> int \<Rightarrow> 'a wstate_scheme \<Rightarrow> 'a wstate_scheme" where
  "detached_state c i s =
     doSetCurrentIndex c (s\<lparr>models := filter (\<lambda>k. m_id k \<noteq> m_id (models s ! nat i)) (models s)\<rparr>)"

lemma detached_state_simps [simp]:
  "models (detached_state c i s) = filter (\<lambda>k. m_id k \<noteq> m_id (models s ! nat i)) (models s)"
  "allModel (detached_state c i s) = allModel s" "wrappers (detached_state c i s) = wrappers s"
  "globalWorkspaceId (detached_state c i s) = globalWorkspaceId s" "currentIndex (detached_state c i s) = c"
  "multitaskview (detached_state c i s) = multitaskview s"
  by (simp_all add: detached_state_def doSetCurrentIndex_def)

lemma detached_set:
  assumes "ws_shape s" "n < length (models s)"
  shows "insert (models s ! n) {k \<in> set (models s). m_id k \<noteq> m_id (models s ! n)} = set (models s)"
proof -
  have "models s ! n \<in> set (all_models s)" using assms(2) by simp
  then have "k = models s ! n" if "k \<in> set (models s)" "m_id k = m_id (models s ! n)" for k
    using that by (intro ids_distinct [OF assms(1)]) simp_all
  then show ?thesis using nth_mem [OF assms(2)] by blast
qed

lemma detached_ids_eq:
  assumes "ws_shape s" "0 \<le> i" "i < ws_count s"
  shows "map m_id (models (detached_state c i s)) = removed_ids i s"
  using filter_other_ids [of m_id "models s" "nat i"] assms
  by (simp add: removed_ids_def ws_shape_def ws_count_def)

lemma detach_shape:
  assumes shape: "ws_shape s" and i: "0 \<le> i" "i < ws_count s"
  shows "ws_shape (with_detached (models s ! nat i) (detached_state c i s))"
proof -
  let ?m = "models s ! nat i"
  have m: "?m \<in> set (models s)" using i by (simp add: ws_count_def)
  have "distinct (map m_id (models s))" using shape by (simp add: ws_shape_def)
  then have "distinct (removed_ids i s)" "m_id ?m \<notin> set (removed_ids i s)" by (simp_all add: removed_ids_def)
  then have "distinct (map m_id (?m # models (detached_state c i s)))"
    unfolding list.map distinct.simps detached_ids_eq [OF assms] by blast
  moreover have "0 \<le> m_id k \<and> m_id k < globalWorkspaceId s \<and> distinct (m_surfaces k)"
    if "k \<in> set (?m # models (detached_state c i s))" for k
    using that m shape by (auto simp: ws_shape_def)
  moreover have "m_id (allModel s) = ShowOnAllWorkspaceId \<and> distinct (m_surfaces (allModel s))"
    using shape by (simp add: ws_shape_def)
  ultimately show ?thesis
    unfolding ws_shape_def with_detached_simps detached_state_simps(2,4) by (simp only: list.set) blast
qed

lemma detach_step:
  fixes s :: "'a wstate_scheme"
  assumes inv: "ws_inv s" and i: "0 \<le> i" "i < ws_count s"
  shows "ws_inv (with_detached (models s ! nat i) (detached_state c i s))"
    "ws_settled s \<Longrightarrow> ws_settled (with_detached (models s ! nat i) (detached_state c i s))"
proof -
  have shape: "ws_shape s" and mb: "ws_members s" using inv by (auto simp: ws_inv_def)
  have "nat i < length (models s)" using i by (simp add: ws_count_def)
  from detached_set [OF shape this]
  have set: "set (all_models (with_detached (models s ! nat i) (detached_state c i s))) = set (all_models s)"
    unfolding with_detached_simps detached_state_simps list.set set_filter by blast
  have wr: "wrappers (with_detached (models s ! nat i) (detached_state c i s)) = wrappers s" by simp
  have "ws_members (with_detached (models s ! nat i) (detached_state c i s))"
    using mb unfolding ws_members_def set wr .
  then show "ws_inv (with_detached (models s ! nat i) (detached_state c i s))"
    using detach_shape [OF shape i] by (simp add: ws_inv_def)
  show "ws_settled s \<Longrightarrow> ws_settled (with_detached (models s ! nat i) (detached_state c i s))"
    unfolding ws_settled_def set wr .
qed

lemma current_by_id:
  assumes "map m_id (models s) = ids" "j \<in> set ids" "currentIndex s = index_of ids j"
  obtains m where "current s = Some m" "m_id m = j" "m \<in> set (models s)" "index_ok s"
proof -
  have "length ids = length (models s)" using assms(1) by auto
  then have b: "0 \<le> currentIndex s" "currentIndex s < int (length (models s))"
    using index_of_bounds [OF assms(2)] assms(3) by auto
  have "ids ! nat (currentIndex s) = j" using index_of_nth [OF assms(2)] assms(3) by simp
  then have "m_id (models s ! nat (currentIndex s)) = j" using b assms(1) by auto
  with b show thesis
    by (intro that [of "models s ! nat (currentIndex s)"]) (simp_all add: current_def modelAt_def ws_count_def index_ok_def)
qed

text \<open>The workspace that is current after the removal.\<close>

definition new_current :: "int \<Rightarrow> 'a wstate_scheme \<Rightarrow> wmodel" where
  "new_current i s = (if i = currentIndex s then evac_target i s else models s ! nat (currentIndex s))"

lemma removal_lookups:
  assumes "index_ok s" "0 \<le> i" "i < ws_count s" "1 < ws_count s"
  shows "modelAt s i = Some (models s ! nat i)" "modelAt s (if i > 0 then i - 1 else 1) = Some (evac_target i s)"
    "current s = Some (models s ! nat (currentIndex s))"
    "nat i < length (models s)" "nat (if i > 0 then i - 1 else 1) < length (models s)"
    "nat (currentIndex s) < length (models s)"
  using assms by (auto simp: modelAt_def ws_count_def evac_target_def current_def index_ok_def)

lemma removal_ids:
  assumes shape: "ws_shape s" and idx: "index_ok s" and i: "0 \<le> i" "i < ws_count s" "1 < ws_count s"
  shows "m_id (evac_target i s) \<in> set (removed_ids i s)" "m_id (new_current i s) \<in> set (removed_ids i s)"
    "m_id (models s ! nat (currentIndex s)) = m_id (models s ! nat i) \<longleftrightarrow> i = currentIndex s"
proof -
  have dist: "distinct (map m_id (models s))" using shape by (simp add: ws_shape_def)
  note len = removal_lookups(4-6) [OF idx i]
  have same: "m_id (models s ! a) = m_id (models s ! b) \<longleftrightarrow> a = b"
    if "a < length (models s)" "b < length (models s)" for a b
    using nth_eq_iff_index_eq [OF dist, of a b] that by simp
  have rid: "set (removed_ids i s) = m_id ` set (models s) - {m_id (models s ! nat i)}"
    using dist by (simp add: removed_ids_def)
  show t: "m_id (evac_target i s) \<in> set (removed_ids i s)"
    unfolding rid evac_target_def using len(1,2) same [OF len(2,1)] i by auto
  show o: "m_id (models s ! nat (currentIndex s)) = m_id (models s ! nat i) \<longleftrightarrow> i = currentIndex s"
    using same [OF len(3,1)] i idx by (auto simp: index_ok_def)
  show "m_id (new_current i s) \<in> set (removed_ids i s)"
    using t o len(3) by (cases "i = currentIndex s") (auto simp: new_current_def rid)
qed

lemma act_safe_step:
  assumes "ws_inv s" "multitaskview s \<or> act_safe act"
  obtains t where "(if \<not> multitaskview s then act x s else Inr s) = Inr t" "ws_inv t" "list_frame s t"
    "ws_settled s \<longrightarrow> ws_settled t" "\<forall>y. wsid t y = - 1 \<longleftrightarrow> wsid s y = - 1" "multitaskview s \<longrightarrow> t = s"
proof (cases "multitaskview s")
  case True
  with assms that [of s] show thesis by simp
next
  case False
  with assms that show thesis unfolding act_safe_def by metis
qed

text \<open>The signals at the end of a removal.\<close>

definition announce_removal :: "int \<Rightarrow> wmodel \<Rightarrow> 'a wstate_scheme \<Rightarrow> 'a wstate_scheme \<Rightarrow> 'a wstate_scheme" where
  "announce_removal i cur s t =
     (let t = emit (DeleteModel (m_id (models s ! nat i))) t;
          t = (if currentIndex s \<noteq> currentIndex t then emit CurrentIndexChanged t else t)
      in if map_option m_id (current s) \<noteq> Some (m_id cur) then emit CurrentChanged t else t)"

lemma announce_removal_simps [simp]:
  "models (announce_removal i cur s t) = models t" "allModel (announce_removal i cur s t) = allModel t"
  "wrappers (announce_removal i cur s t) = wrappers t" "currentIndex (announce_removal i cur s t) = currentIndex t"
  "globalWorkspaceId (announce_removal i cur s t) = globalWorkspaceId t"
  "multitaskview (announce_removal i cur s t) = multitaskview t"
  by (simp_all add: announce_removal_def Let_def)

lemma doRemoveModel_eval:
  assumes ok: "ws_shape s" "index_ok s" "0 \<le> i" "i < ws_count s" "1 < ws_count s"
    and s1: "s1 = detached_state (index_of (removed_ids i s) (m_id (new_current i s))) i s" "current s1 \<noteq> None"
    and s2: "rfold (evacuate (m_id (evac_target i s))) (m_surfaces (models s ! nat i)) (models s ! nat i, s1) = Inr (m', s2)"
    and cur: "current s2 = Some cur"
    and s3: "(if \<not> multitaskview s2 then act (latestActiveSurface cur) s2 else Inr s2) = Inr s3"
    and s5: "updateModelVisibility (if switcher s3 then emit DeleteSwitcher (s3\<lparr>switcher := False\<rparr>) else s3) = Inr s5"
  shows "doRemoveModel act i s = Inr (announce_removal i cur s s5)"
proof -
  note look = removal_lookups [OF ok(2-5)]
  have ids: "map m_id (filter (\<lambda>k. m_id k \<noteq> m_id (models s ! nat i)) (models s)) = removed_ids i s"
    using detached_ids_eq [OF ok(1,3,4), of 0] by simp
  let ?f = "s\<lparr>models := filter (\<lambda>k. m_id k \<noteq> m_id (models s ! nat i)) (models s)\<rparr>"
  show ?thesis
  proof (cases "i = currentIndex s")
    case True
    then have "map_option m_id (current s) = Some (m_id (models s ! nat i))" using look(3) by simp
    moreover have "doSetCurrentIndex (index_of (removed_ids i s) (m_id (evac_target i s))) ?f = s1"
      using True by (simp add: s1(1) detached_state_def new_current_def)
    ultimately show ?thesis
      using look(1,2) s1(2) s2 cur s3 s5 by (simp add: doRemoveModel_def Let_def ids announce_removal_def)
  next
    case False
    then have "m_id (models s ! nat (currentIndex s)) \<noteq> m_id (models s ! nat i)"
      using removal_ids(3) [OF ok] by simp
    moreover have "doSetCurrentIndex (index_of (removed_ids i s) (m_id (models s ! nat (currentIndex s)))) ?f = s1"
      using False by (simp add: s1(1) detached_state_def new_current_def)
    ultimately show ?thesis
      using look(1-3) s1(2) s2 cur s3 s5 by (simp add: doRemoveModel_def Let_def ids announce_removal_def)
  qed
qed

lemma doRemoveModel_spec:
  fixes s :: "'a wstate_scheme" and act :: "'a activator"
  assumes inv: "ws_inv s" and idx: "index_ok s" and i: "0 \<le> i" "i < ws_count s" "1 < ws_count s"
    and act: "multitaskview s \<or> act_safe act"
  obtains t cur where "doRemoveModel act i s = Inr t" "ws_inv t" "index_ok t" "vis_ok t"
    "ws_settled s \<longrightarrow> ws_settled t" "map m_id (models t) = removed_ids i s"
    "current t = Some cur" "m_id cur = m_id (new_current i s)" "multitaskview t = multitaskview s"
    "\<forall>y. wsid t y = - 1 \<longleftrightarrow> wsid s y = - 1"
    "multitaskview s \<longrightarrow> (\<forall>y. wsid t y =
          (if wsid s y = m_id (models s ! nat i) then m_id (evac_target i s) else wsid s y))"
proof -
  have shape: "ws_shape s" and mb: "ws_members s" using inv by (auto simp: ws_inv_def)
  note ids = removal_ids [OF shape idx i] and look = removal_lookups [OF idx i]
  let ?model = "models s ! nat i" and ?new = "m_id (new_current i s)"
  define s1 where "s1 = detached_state (index_of (removed_ids i s) ?new) i s"
  have ids1: "map m_id (models s1) = removed_ids i s" using detached_ids_eq [OF shape i(1,2)] by (simp only: s1_def)
  obtain c1 where c1: "current s1 = Some c1"
    by (rule current_by_id [OF ids1 ids(2)]) (simp_all add: s1_def)
  have tin: "m_id (evac_target i s) \<in> m_id ` set (models s1)" using ids(1) ids1 by (metis set_map)
  have inv1: "ws_inv (with_detached ?model s1)" and set1: "ws_settled s \<Longrightarrow> ws_settled (with_detached ?model s1)"
    using detach_step [OF inv i(1,2)] by (simp_all add: s1_def)
  from evacuate_all [OF inv1 tin refl]
  obtain m' s2 where s2: "rfold (evacuate (m_id (evac_target i s))) (m_surfaces ?model) (?model, s1) = Inr (m', s2)"
    "ws_inv s2" "ws_frame s1 s2"
    "\<forall>y. wsid s2 y = (if y \<in> set (m_surfaces ?model) then m_id (evac_target i s) else wsid s1 y)"
    "ws_settled (with_detached ?model s1) \<longrightarrow> ws_settled s2" by blast
  have ids2: "map m_id (models s2) = removed_ids i s" using model_frame_ids [OF s2(3)] ids1 by simp
  have c2: "currentIndex s2 = index_of (removed_ids i s) ?new" "multitaskview s2 = multitaskview s"
    using s2(3) by (simp_all add: ws_frame_def s1_def)
  obtain cur where cur: "current s2 = Some cur" "m_id cur = ?new"
    by (rule current_by_id [OF ids2 ids(2) c2(1)])
  have "multitaskview s2 \<or> act_safe act" using act c2 by simp
  then obtain s3 where s3: "(if \<not> multitaskview s2 then act (latestActiveSurface cur) s2 else Inr s2) = Inr s3"
    "ws_inv s3" "list_frame s2 s3" "ws_settled s2 \<longrightarrow> ws_settled s3" "\<forall>y. wsid s3 y = - 1 \<longleftrightarrow> wsid s2 y = - 1"
    "multitaskview s2 \<longrightarrow> s3 = s2" by (rule act_safe_step [OF s2(2)])
  let ?s4 = "if switcher s3 then emit DeleteSwitcher (s3\<lparr>switcher := False\<rparr>) else s3"
  have inv4: "ws_inv ?s4" by (rule ws_inv_cong [OF s3(2)]) simp_all
  have set4: "ws_settled s3 \<Longrightarrow> ws_settled ?s4" using ws_settled_cong [of s3 ?s4] by simp
  obtain s5 where s5: "updateModelVisibility ?s4 = Inr s5" "vis_rel ?s4 s5" "vis_ok s5"
    by (rule updateModelVisibility_spec [OF inv4])
  let ?t = "announce_removal i cur s s5"
  have f3: "map m_id (models s3) = removed_ids i s" "currentIndex s3 = currentIndex s2"
    "multitaskview s3 = multitaskview s2"
    using list_frame_ids [OF s3(3)] ids2 s3(3) by (simp_all add: list_frame_def)
  have f5: "map m_id (models s5) = map m_id (models s3)" "\<And>y. wsid s5 y = wsid s3 y"
    using vis_rel_ids [OF s5(2)] vis_rel_wsid [OF s5(2)] by simp_all
  have r5: "currentIndex s5 = currentIndex s3" "ws_inv s5" "ws_settled ?s4 \<Longrightarrow> ws_settled s5"
    "multitaskview s5 = multitaskview s3" using s5(2) by (simp_all add: vis_rel_def)
  have idt: "map m_id (models ?t) = removed_ids i s" by (simp add: f5 f3)
  have ct: "currentIndex ?t = index_of (removed_ids i s) ?new" by (simp add: r5 f3 c2)
  obtain k where k: "current ?t = Some k" "m_id k = ?new" "index_ok ?t" by (rule current_by_id [OF idt ids(2) ct])
  show thesis
  proof (rule that [of ?t k])
    show "doRemoveModel act i s = Inr ?t"
      by (rule doRemoveModel_eval [OF shape idx i s1_def _ s2(1) cur(1), where act = act])
        (use c1 s3(1) s5(1) in simp_all)
    show "ws_inv ?t" by (rule ws_inv_cong [OF r5(2)]) simp_all
    show "vis_ok ?t" using s5(3) by (simp add: vis_ok_def)
    show "ws_settled s \<longrightarrow> ws_settled ?t"
      using set1 s2(5) s3(4) set4 r5(3) ws_settled_cong [of s5 ?t] by simp
    have step: "wsid ?t y = wsid s3 y" for y by (simp add: f5)
    have surf: "y \<in> set (m_surfaces ?model) \<longleftrightarrow> wsid s y = m_id ?model" for y
      using ws_membersD [OF mb, of ?model y] look(4) by simp
    have w2: "wsid s2 y = (if wsid s y = m_id ?model then m_id (evac_target i s) else wsid s y)" for y
      using s2(4) surf by (simp add: s1_def)
    have pos: "m_id (evac_target i s) \<noteq> - 1" "m_id ?model \<noteq> - 1"
      using ws_inv_id_neq [OF shape] look(4,5) by (simp_all add: evac_target_def)
    show "\<forall>y. wsid ?t y = - 1 \<longleftrightarrow> wsid s y = - 1"
      using s3(5) pos unfolding step w2 by simp
    show "multitaskview s \<longrightarrow> (\<forall>y. wsid ?t y =
        (if wsid s y = m_id ?model then m_id (evac_target i s) else wsid s y))"
      using s3(6) c2(2) w2 unfolding step by simp
    show "multitaskview ?t = multitaskview s" by (simp add: r5 f3 c2)
  qed (use k idt in simp_all)
qed

section \<open>Switching\<close>

text \<open>What switching relies on the focus code for: for a window that may be activated in a
  state, activation returns and changes neither the workspaces (apart from their histories and
  from where modal dialogs are) nor which of them is current.\<close>

locale focus_provider =
  fixes act :: "sid option \<Rightarrow> 'a wstate_scheme \<Rightarrow> 'a wstate_scheme result"
    and admissible :: "sid option \<Rightarrow> 'a wstate_scheme \<Rightarrow> bool"
  assumes act_returns: "ws_inv s \<Longrightarrow> admissible x s \<Longrightarrow>
      \<exists>t. act x s = Inr t \<and> ws_inv t \<and> list_frame s t \<and> (ws_settled s \<longrightarrow> ws_settled t)"
begin

lemma activated_current:
  assumes "ws_inv s" "admissible x s" "vis_ok s" "act x s = Inr t"
  shows "vis_ok t" "currentIndex t = currentIndex s" "length (models t) = length (models s)"
    "map m_id (models t) = map m_id (models s)" "ws_inv t" "ws_settled s \<Longrightarrow> ws_settled t"
proof -
  from act_returns [OF assms(1,2)] assms(4)
  have fr: "list_frame s t" and inv: "ws_inv t" and set: "ws_settled s \<longrightarrow> ws_settled t" by auto
  have frames: "map model_frame (models t) = map model_frame (models s)" using fr by (simp add: list_frame_def)
  then show len: "length (models t) = length (models s)" by (metis length_map)
  show "currentIndex t = currentIndex s" using fr by (simp add: list_frame_def)
  moreover have "model_frame (models t ! i) = model_frame (models s ! i)" if "i < length (models s)" for i
    using that frames len by (metis nth_map)
  ultimately show "vis_ok t" using assms(3) len by (auto simp: vis_ok_def model_frame_def)
  show "map m_id (models t) = map m_id (models s)" using list_frame_ids [OF fr] by simp
  show "ws_inv t" using inv .
  show "ws_settled s \<Longrightarrow> ws_settled t" using set by blast
qed

lemma switchTo_returns:
  assumes inv: "ws_inv s" and i: "0 \<le> i" "i < ws_count s" "currentIndex s \<noteq> i"
    and adm: "\<And>s1. setCurrentIndex i (emit DismissAllPopups s) = Inr s1 \<Longrightarrow> \<not> multitaskview s \<Longrightarrow>
      admissible (latestActiveSurface (models s1 ! nat i)) s1"
  shows "\<exists>t. switchTo act i animated s = Inr t \<and> ws_inv t \<and> currentIndex t = i \<and> vis_ok t
     \<and> map m_id (models t) = map m_id (models s) \<and> (ws_settled s \<longrightarrow> ws_settled t)
     \<and> (animated \<longrightarrow> a_running (anim t) \<and> destinationIndex (anim t) = nat i)
     \<and> (\<not> multitaskview s \<longrightarrow> (\<exists>s1 s2. setCurrentIndex i (emit DismissAllPopups s) = Inr s1
           \<and> act (latestActiveSurface (models s1 ! nat i)) s1 = Inr s2
           \<and> models t = models s2 \<and> wrappers t = wrappers s2 \<and> wstate.more t = wstate.more s2))"
proof -
  let ?s = "emit DismissAllPopups s"
  have inv0: "ws_inv ?s" by (rule ws_inv_cong [OF inv]) simp_all
  have set0: "ws_settled s \<Longrightarrow> ws_settled ?s" using ws_settled_cong [of s ?s] by simp
  obtain s1 where s1: "setCurrentIndex i ?s = Inr s1" "switch_rel ?s s1" "vis_ok s1" "currentIndex s1 = i"
    using setCurrentIndex_spec [OF inv0 i(1)] i by (auto simp: ws_count_def)
  have len1: "length (models s1) = length (models s)" using switch_rel_length [OF s1(2)] by simp
  have inv1: "ws_inv s1" and set1: "ws_settled s \<Longrightarrow> ws_settled s1"
    using s1(2) set0 by (auto simp: switch_rel_def)
  have ids1: "map m_id (models s1) = map m_id (models s)"
    using s1(2) by (auto simp: switch_rel_def comp_def dest!: arg_cong [of _ _ "map m_id"])
  have cur1: "current s1 = Some (models s1 ! nat i)"
    using s1(4) i len1 by (simp add: current_def modelAt_def ws_count_def)
  let ?act = "if \<not> multitaskview s1 then rbind (deref (current s1)) (\<lambda>m. act (latestActiveSurface m) s1) else Inr s1"
  have "\<exists>s2. ?act = Inr s2 \<and> ws_inv s2 \<and> vis_ok s2 \<and> currentIndex s2 = i
     \<and> map m_id (models s2) = map m_id (models s) \<and> (ws_settled s \<longrightarrow> ws_settled s2)
     \<and> (\<not> multitaskview s \<longrightarrow> act (latestActiveSurface (models s1 ! nat i)) s1 = Inr s2)"
  proof (cases "multitaskview s")
    case True
    then show ?thesis using inv1 s1 ids1 set1 by (simp add: switch_rel_def)
  next
    case False
    then have a: "admissible (latestActiveSurface (models s1 ! nat i)) s1" using adm [OF s1(1)] by simp
    from act_returns [OF inv1 a] obtain s2 where s2: "act (latestActiveSurface (models s1 ! nat i)) s1 = Inr s2" by blast
    show ?thesis using activated_current [OF inv1 a s1(3) s2] s2 False s1(2,4) cur1 ids1 set1
      by (simp add: switch_rel_def)
  qed
  then obtain s2 where s2: "?act = Inr s2" "ws_inv s2" "vis_ok s2" "currentIndex s2 = i"
    "map m_id (models s2) = map m_id (models s)" "ws_settled s \<longrightarrow> ws_settled s2"
    "\<not> multitaskview s \<longrightarrow> act (latestActiveSurface (models s1 ! nat i)) s1 = Inr s2" by blast
  define fin where "fin = (if animated then let s = createSwitcher s2 in
      s\<lparr>anim := slide (nat (currentIndex ?s)) (nat (currentIndex s)) (anim s)\<rparr>
    else if switcher s2 \<and> a_running (anim s2) then emit RaiseSwitcher s2 else s2)"
  have fin: "switchTo act i animated s = Inr fin"
    using i s1(1) s2(1) by (simp add: switchTo_def Let_def fin_def)
  have eq: "models fin = models s2" "allModel fin = allModel s2" "wrappers fin = wrappers s2"
    "currentIndex fin = currentIndex s2" "globalWorkspaceId fin = globalWorkspaceId s2"
    "wstate.more fin = wstate.more s2"
    by (simp_all add: fin_def Let_def createSwitcher_def emit_def)
  have "ws_inv fin" by (rule ws_inv_cong [OF s2(2)]) (simp_all add: eq)
  moreover have "ws_settled s2 \<Longrightarrow> ws_settled fin" using ws_settled_cong [of s2 fin] eq by simp
  moreover have "animated \<Longrightarrow> a_running (anim fin) \<and> destinationIndex (anim fin) = nat i"
    using s2(4) by (simp add: fin_def Let_def createSwitcher_def slide_def startSlideAnimation_def setRunning_def)
  moreover have "\<not> multitaskview s \<longrightarrow> (\<exists>s1 s2. setCurrentIndex i ?s = Inr s1
      \<and> act (latestActiveSurface (models s1 ! nat i)) s1 = Inr s2
      \<and> models fin = models s2 \<and> wrappers fin = wrappers s2 \<and> wstate.more fin = wstate.more s2)"
    using s1(1) s2(7) eq by blast
  ultimately show ?thesis using fin s2(1-6) eq by (intro exI [of _ fin]) (simp add: vis_ok_def)
qed

end

section \<open>Properties\<close>



end
