(* ===== verification/Workspace_Config.thy ===== *)
theory Workspace_Config
  imports Workspace_Switch "HOL-Library.Multiset"
begin

text \<open>
  src/src/workspace/workspace.cpp, continued: the properties of creating and reordering
  workspaces, of \<^verbatim>\<open>reloadFromConfig\<close>, of the task switcher's list and of the window preview.
\<close>

section \<open>Creating\<close>

lemmas create_defs = doCreateModel_def nextWorkspaceId_def newWorkspaceModel_def wm_setName_def
  wm_setVisible_def Let_def

lemma doCreateModel_fields:
  "fst (doCreateModel name visible s) = globalWorkspaceId s"
  "allModel (snd (doCreateModel name visible s)) = allModel s"
  "wrappers (snd (doCreateModel name visible s)) = wrappers s"
  "currentIndex (snd (doCreateModel name visible s)) = currentIndex s"
  "multitaskview (snd (doCreateModel name visible s)) = multitaskview s"
  "globalWorkspaceId (snd (doCreateModel name visible s)) = globalWorkspaceId s + 1"
  by (simp_all add: create_defs)

lemma doCreateModel_models:
  "\<exists>m. models (snd (doCreateModel name visible s)) = models s @ [m] \<and> m_id m = globalWorkspaceId s
     \<and> m_surfaces m = [] \<and> m_visible m = visible \<and> m_opaque m \<and> m_opaqueSlots m = []
     \<and> m_history m = m_history (allModel s)"
  by (simp add: create_defs)

lemma doCreateModel_spec:
  assumes inv: "ws_inv s" and g: "0 \<le> globalWorkspaceId s"
  obtains t m where "doCreateModel name visible s = (globalWorkspaceId s, t)" "ws_inv t"
    "models t = models s @ [m]" "m_id m = globalWorkspaceId s" "m_visible m = visible"
    "wrappers t = wrappers s" "currentIndex t = currentIndex s" "multitaskview t = multitaskview s"
    "globalWorkspaceId t = globalWorkspaceId s + 1" "ws_settled s \<longrightarrow> ws_settled t"
    "m_surfaces m = []" "m_history m = m_history (allModel s)"
proof -
  let ?t = "snd (doCreateModel name visible s)"
  note f = doCreateModel_fields [of name visible s]
  obtain m where m: "models ?t = models s @ [m]" "m_id m = globalWorkspaceId s" "m_surfaces m = []"
    "m_visible m = visible" "m_opaque m" "m_opaqueSlots m = []" "m_history m = m_history (allModel s)"
    using doCreateModel_models [of name visible s] by blast
  have shape: "ws_shape s" and mb: "ws_members s" using inv by (auto simp: ws_inv_def)
  have less: "0 \<le> m_id k \<and> m_id k < globalWorkspaceId s" if "k \<in> set (models s)" for k
    using shape that by (simp add: ws_shape_def)
  then have fresh: "globalWorkspaceId s \<notin> m_id ` set (all_models s)"
    using g shape by (force simp: ws_shape_def ShowOnAllWorkspaceId_def)
  have "globalWorkspaceId s \<noteq> - 1" using g by simp
  then have nowin: "wsid s y \<noteq> globalWorkspaceId s" for y
    using mb fresh unfolding ws_members_def by metis
  have "ws_shape ?t"
    using shape less fresh m(1-3) g f by (auto simp: ws_shape_def less_imp_le)
  moreover have "ws_members ?t"
    using mb nowin m(1-3) f by (auto simp: ws_members_def)
  ultimately have "ws_inv ?t" by (simp add: ws_inv_def)
  moreover have "ws_settled s \<longrightarrow> ws_settled ?t"
    using m f by (simp add: ws_settled_def wm_settled_def)
  moreover have "doCreateModel name visible s = (globalWorkspaceId s, ?t)" using f(1) by (metis prod.collapse)
  ultimately show thesis using m f by (intro that [of ?t m])
qed

text \<open>What every workspace operation keeps.\<close>

definition ws_good :: "'a wstate_scheme \<Rightarrow> bool" where
  "ws_good s = (ws_inv s \<and> index_ok s \<and> vis_ok s \<and> 0 \<le> globalWorkspaceId s)"

lemma createModels_spec:
  assumes "ws_good s"
  shows "ws_good (createModels n s) \<and> ws_count (createModels n s) = ws_count s + int n
    \<and> wrappers (createModels n s) = wrappers s \<and> multitaskview (createModels n s) = multitaskview s
    \<and> (ws_settled s \<longrightarrow> ws_settled (createModels n s))"
  using assms
proof (induction n arbitrary: s)
  case (Suc n)
  let ?t = "snd (doCreateModel (workspace_name (ws_count s)) False s)"
  obtain t m where t: "doCreateModel (workspace_name (ws_count s)) False s = (globalWorkspaceId s, t)" "ws_inv t"
    "models t = models s @ [m]" "\<not> m_visible m" "wrappers t = wrappers s" "currentIndex t = currentIndex s"
    "multitaskview t = multitaskview s" "globalWorkspaceId t = globalWorkspaceId s + 1"
    "ws_settled s \<longrightarrow> ws_settled t"
    using doCreateModel_spec [of s "workspace_name (ws_count s)" False] Suc.prems
    by (metis (full_types) ws_good_def)
  have "vis_ok t" using Suc.prems t(3,4,6) by (auto simp: ws_good_def vis_ok_def index_ok_def ws_count_def nth_append)
  then have "ws_good t" "ws_count t = ws_count s + 1"
    using Suc.prems t by (auto simp: ws_good_def index_ok_def ws_count_def)
  with Suc.IH [of t] t show ?case by simp
qed simp

section \<open>Following the configuration\<close>

lemma ids_count: "map m_id (models t) = removed_ids i s \<Longrightarrow> 0 \<le> i \<Longrightarrow> i < ws_count s \<Longrightarrow>
   ws_count t = ws_count s - 1"
proof -
  assume a: "map m_id (models t) = removed_ids i s" "0 \<le> i" "i < ws_count s"
  then have "m_id (models s ! nat i) \<in> set (map m_id (models s))" by (simp add: ws_count_def)
  then have "length (removed_ids i s) = length (models s) - 1" by (simp add: removed_ids_def length_remove1)
  moreover have "length (models t) = length (removed_ids i s)" using a(1) by (metis length_map)
  ultimately show "ws_count t = ws_count s - 1" using a by (simp add: ws_count_def)
qed

lemma removeModels_spec:
  fixes s :: "'a wstate_scheme" and act :: "'a activator"
  assumes "ws_inv s" "index_ok s" "vis_ok s" "int n < ws_count s" "multitaskview s \<or> act_safe act"
  shows "\<exists>t. removeModels act n s = Inr t \<and> ws_inv t \<and> index_ok t \<and> vis_ok t
    \<and> ws_count t = ws_count s - int n \<and> (ws_settled s \<longrightarrow> ws_settled t)
    \<and> (\<forall>y. wsid t y = - 1 \<longleftrightarrow> wsid s y = - 1)"
  using assms
proof (induction n arbitrary: s)
  case (Suc n)
  have two: "0 \<le> ws_count s - 1" "ws_count s - 1 < ws_count s" "1 < ws_count s" using Suc.prems(4) by auto
  obtain u cur where u: "doRemoveModel act (ws_count s - 1) s = Inr u" "ws_inv u" "index_ok u" "vis_ok u"
    "ws_settled s \<longrightarrow> ws_settled u" "map m_id (models u) = removed_ids (ws_count s - 1) s"
    "multitaskview u = multitaskview s" "\<forall>y. wsid u y = - 1 \<longleftrightarrow> wsid s y = - 1"
    using doRemoveModel_spec [OF Suc.prems(1,2) two Suc.prems(5)] by metis
  have n: "ws_count u = ws_count s - 1" using ids_count [OF u(6) two(1,2)] .
  obtain t where "removeModels act n u = Inr t" "ws_inv t" "index_ok t" "vis_ok t"
    "ws_count t = ws_count u - int n" "ws_settled u \<longrightarrow> ws_settled t"
    "\<forall>y. wsid t y = - 1 \<longleftrightarrow> wsid u y = - 1"
    using Suc.IH [OF u(2-4)] n Suc.prems(4,5) u(7) by auto
  with u n show ?case by simp
qed simp

lemma setCurrentIndex_total:
  fixes s :: "'a wstate_scheme"
  assumes "ws_inv s" "vis_ok s" and i: "0 \<le> i" "i < ws_count s"
  shows "\<exists>t. setCurrentIndex i s = Inr t \<and> ws_inv t \<and> index_ok t \<and> vis_ok t \<and> ws_count t = ws_count s
     \<and> currentIndex t = i \<and> (ws_settled s \<longrightarrow> ws_settled t) \<and> (\<forall>y. wsid t y = wsid s y)"
proof (cases "currentIndex s = i")
  case True
  then have "setCurrentIndex i s = Inr s" using i by (simp add: setCurrentIndex_def)
  moreover have "index_ok s" using True i by (simp add: index_ok_def)
  ultimately show ?thesis using True assms(1,2) by blast
next
  case False
  obtain t where t: "setCurrentIndex i s = Inr t" "switch_rel s t" "vis_ok t" "currentIndex t = i"
    by (rule setCurrentIndex_spec [OF assms(1) i False])
  have "wsid t y = wsid s y" for y
    using t(2) core_of_eqD(1) [of "wrappers t y" "wrappers s y"] by (simp add: switch_rel_def)
  moreover have "ws_count t = ws_count s" using switch_rel_length [OF t(2)] by (simp add: ws_count_def)
  ultimately show ?thesis using t i by (simp add: switch_rel_def index_ok_def)
qed


lemma demo_ws_good: "ws_good demo_ws"
  using demo_ws_inv
  by (auto simp: ws_good_def index_ok_def vis_ok_def ws_count_def demo_ws_def newWorkspaceModel_def
      less_Suc_eq numeral_2_eq_2)


section \<open>Reordering\<close>

text \<open>Moving a workspace to another position returns, puts it there, reorders the others
  without losing any, and the same workspace stays current.\<close>

theorem moveModelTo_keeps_current:
  fixes s :: "'a wstate_scheme"
  assumes inv: "ws_inv s" and idx: "index_ok s" and wid: "wid \<in> m_id ` set (models s)"
    and dest: "0 \<le> dest" "dest < ws_count s"
  shows "\<exists>t c k. moveModelTo wid dest s = Inr t \<and> ws_inv t \<and> index_ok t
    \<and> mset (models t) = mset (models s) \<and> modelAt t dest = Some k \<and> m_id k = wid
    \<and> current s = Some c \<and> current t = Some c \<and> (ws_settled s \<longrightarrow> ws_settled t)"
proof -
  let ?ids = "map m_id (models s)"
  have shape: "ws_shape s" using inv by (simp add: ws_inv_def)
  have win: "wid \<in> set ?ids" using wid by simp
  define i where "i = nat (index_of ?ids wid)"
  have i: "i < length (models s)" "m_id (models s ! i) = wid" "index_of ?ids wid = int i"
    using index_of_bounds [OF win] index_of_nth [OF win] by (auto simp: i_def)
  define ms' where "ms' = (if dest = int i then models s else list_move (models s) i (nat dest))"
  have ms: "set ms' = set (models s)" "length ms' = length (models s)" "mset ms' = mset (models s)"
    "distinct (map m_id ms')" "ms' ! nat dest = models s ! i"
  proof -
    have dist: "distinct (models s)" using shape by (simp add: ws_shape_def distinct_map)
    show st: "set ms' = set (models s)" "length ms' = length (models s)" using i(1) by (simp_all add: ms'_def)
    have "distinct ms'" using dist distinct_list_move [OF dist i(1)] by (simp add: ms'_def)
    then show "mset ms' = mset (models s)" using dist st(1) by (metis set_eq_iff_mset_eq_distinct)
    show "distinct (map m_id ms')"
      using shape distinct_list_move [of ?ids i "nat dest"] map_list_move [OF i(1), of m_id] i(1)
      by (auto simp: ws_shape_def ms'_def)
    show "ms' ! nat dest = models s ! i"
      using dest i(1) list_move_nth_dest [of i "models s" "nat dest"] by (auto simp: ws_count_def ms'_def)
  qed
  obtain c where c: "current s = Some c" "c \<in> set (models s)"
    using idx by (auto simp: current_def modelAt_def index_ok_def ws_count_def)
  define t where "t = emit CurrentIndexChanged (doSetCurrentIndex (index_of (map m_id ms') (m_id c)) (s\<lparr>models := ms'\<rparr>))"
  have mv: "moveModelTo wid dest s = Inr t"
    using win i dest c(1) by (auto simp: t_def ms'_def moveModelTo_def moveRows_def Let_def ws_count_def)
  have f: "models t = ms'" "allModel t = allModel s" "wrappers t = wrappers s"
    "globalWorkspaceId t = globalWorkspaceId s" "currentIndex t = index_of (map m_id ms') (m_id c)"
    by (simp_all add: t_def doSetCurrentIndex_def)
  have "ws_shape t"
    using shape ms(1,4) unfolding ws_shape_def f(2,4) list.set f(1) by simp
  moreover have "ws_members t"
    using inv unfolding ws_inv_def ws_members_def f(2,3) list.set f(1) ms(1) by simp
  ultimately have inv': "ws_inv t" by (simp add: ws_inv_def)
  have "m_id c \<in> set (map m_id ms')" using c(2) ms(1) by auto
  then obtain d where d: "current t = Some d" "m_id d = m_id c" "d \<in> set (models t)" "index_ok t"
    using f(5) by (auto intro: current_by_id [of t "map m_id ms'" "m_id c"] simp: f(1))
  have "d = c" using d(2,3) c(2) ms(1) by (intro ids_distinct [OF shape]) (simp_all add: f(1))
  moreover have "modelAt t dest = Some (models s ! i)"
    using dest ms(2,5) by (simp add: modelAt_def ws_count_def f(1))
  moreover have "ws_settled s \<longrightarrow> ws_settled t"
    using ms(1) unfolding ws_settled_def f(2,3) list.set f(1) by simp
  ultimately have "mset (models t) = mset (models s) \<and> modelAt t dest = Some (models s ! i)
    \<and> current t = Some c \<and> (ws_settled s \<longrightarrow> ws_settled t)"
    using d(1) ms(3) f(1) by simp
  then show ?thesis using mv inv' d(4) c(1) i(2) by blast
qed

theorem moveModelTo_keeps_current_witness:
  "\<exists>t c. moveModelTo 0 1 demo_ws = Inr t \<and> ws_inv t \<and> current demo_ws = Some c \<and> current t = Some c"
proof -
  have "(0 :: int) \<in> m_id ` set (models demo_ws)" "index_ok demo_ws" "(1 :: int) < ws_count demo_ws"
    using demo_ws_good by (simp_all add: demo_ws_def newWorkspaceModel_def ws_count_def ws_good_def)
  then show ?thesis using moveModelTo_keeps_current [OF demo_ws_inv, of 0 1] by auto
qed

section \<open>The task switcher\<close>

lemma activeHistoryIndex_latest: "activeHistoryIndex (latestActiveSurface m) m = 0"
  by (simp add: activeHistoryIndex_def latestActiveSurface_def split: list.splits)

lemma activeHistoryIndex_zero:
  "latestActiveSurface m = Some x \<Longrightarrow> activeHistoryIndex (Some y) m = 0 \<longleftrightarrow> y = x"
  by (auto simp: activeHistoryIndex_def latestActiveSurface_def split: list.splits)

lemma sort_key_first:
  assumes "x \<in> set xs" "\<forall>y\<in>set xs. key y = 0 \<longleftrightarrow> y = x" "\<forall>y. 0 \<le> (key y :: int)"
  shows "sort_key key xs \<noteq> []" "sort_key key xs ! 0 = x"
proof -
  show ne: "sort_key key xs \<noteq> []" using assms(1) by (metis length_pos_if_in_set length_sort list.size(3) not_less0)
  then obtain z zs where z: "sort_key key xs = z # zs" by (cases "sort_key key xs") auto
  have "x \<in> set (sort_key key xs)" "z \<in> set xs" "key x = 0"
    using assms(1,2) z set_sort [of key xs] by auto
  moreover have "key z \<le> key x"
    using sorted_sort_key [of key xs] calculation(1) z by auto
  ultimately have "key z = 0" using assms(3) by (simp add: order_antisym)
  then show "sort_key key xs ! 0 = x" using assms(2) \<open>z \<in> set xs\<close> z by simp
qed

text \<open>The list of the task switcher (\<^verbatim>\<open>Workspace::currentFilter\<close>) holds exactly the surfaces of
  the current workspace that the switcher does not skip and that match the application filter,
  each once, so ordered that no row was active later than a row above it. Its active index is
  always 0, and when the latest activated window passes the filter it is row 0.\<close>

theorem currentFilter_rows:
  assumes "current s = Some m" "distinct (m_surfaces m)"
  shows "\<exists>rows. currentFilter app s = Inr (rows, 0) \<and> distinct rows
     \<and> set rows = {x \<in> set (m_surfaces m). filterAcceptsRow app (wrappers s x)}
     \<and> (\<forall>i j. i < j \<longrightarrow> j < length rows \<longrightarrow> \<not> laterActiveThan (rows ! j) (rows ! i) m)
     \<and> (\<forall>x. latestActiveSurface m = Some x \<longrightarrow> x \<in> set rows \<longrightarrow> rows ! 0 = x)"
proof -
  define key where "key x = activeHistoryIndex (Some x) m" for x
  define xs where "xs = filter (\<lambda>x. filterAcceptsRow app (wrappers s x)) (m_surfaces m)"
  define rows where "rows = sort_key key xs"
  have "currentFilter app s = Inr (rows, 0)"
    using assms(1)
    by (simp add: currentFilter_def activeHistoryIndex_latest rows_def xs_def key_def [abs_def])
  moreover have "distinct rows" "set rows = set xs" using assms(2) by (simp_all add: rows_def xs_def)
  moreover have "\<not> laterActiveThan (rows ! j) (rows ! i) m" if "i < j" "j < length rows" for i j
  proof -
    have "sorted (map key rows)" by (simp add: rows_def)
    then have "map key rows ! i \<le> map key rows ! j" using that by (intro sorted_nth_mono) simp_all
    then show ?thesis using that by (simp add: laterActiveThan_def key_def)
  qed
  moreover have "rows ! 0 = x" if "latestActiveSurface m = Some x" "x \<in> set rows" for x
    unfolding rows_def
  proof (rule sort_key_first)
    show "x \<in> set xs" using that(2) calculation(3) by simp
    show "\<forall>y\<in>set xs. key y = 0 \<longleftrightarrow> y = x" using activeHistoryIndex_zero [OF that(1)] by (simp add: key_def)
    show "\<forall>y. 0 \<le> key y" by (simp add: key_def activeHistoryIndex_def)
  qed
  ultimately show ?thesis by (auto simp: xs_def)
qed

theorem currentFilter_rows_witness:
  "\<exists>rows. currentFilter [] demo_ws = Inr (rows, 0) \<and> set rows = {1, 2, 3}"
proof -
  have "current demo_ws = Some (models demo_ws ! 0)" "distinct (m_surfaces (models demo_ws ! 0))"
    "{x \<in> set (m_surfaces (models demo_ws ! 0)). filterAcceptsRow [] (wrappers demo_ws x)} = {1, 2, 3}"
    by (auto simp: demo_ws_def newWorkspaceModel_def current_def modelAt_def ws_count_def
        filterAcceptsRow_def demo_wrapper_def blank_wrapper_def)
  then show ?thesis using currentFilter_rows [of demo_ws "models demo_ws ! 0" "[]"] by auto
qed

section \<open>Preview\<close>

text \<open>A window added to a workspace while a preview makes the workspace transparent stays
  connected to the workspace after it is removed from it: when the preview ends the workspace
  hides or shows the window by its own visibility, whatever state the window has reached in
  between.\<close>

theorem preview_slot_survives_removal:
  fixes s :: "'a scene_scheme"
  assumes "\<not> m_opaque m" "distinct (m_surfaces m)" "x \<notin> set (m_surfaces m)"
    "wm_removeSurface x (fst (wm_addSurface x m s)) (snd (wm_addSurface x m s)) = (m', s')"
  shows "x \<notin> set (m_surfaces m') \<and> \<not> sw_hideByWorkspace (wrappers s' x)
     \<and> (\<forall>u :: 'a scene_scheme.
          sw_hideByWorkspace (wrappers (snd (wm_setOpaque True m' u)) x) = (\<not> m_visible m))"
proof -
  have m': "m' = (fst (wm_removeSurface x (fst (wm_addSurface x m s)) (snd (wm_addSurface x m s))))"
    using assms(4) by simp
  have f: "m_opaqueSlots m' = m_opaqueSlots m @ [x]" "m_opaque m' = m_opaque m"
    "m_visible m' = m_visible m" "m_surfaces m' = m_surfaces m"
    unfolding m' using assms(1-3) by (simp_all add: remove1_append)
  have "\<not> sw_hideByWorkspace (wrappers s' x)"
    using wm_removeSurface_hide [of x "fst (wm_addSurface x m s)" "snd (wm_addSurface x m s)" x] assms(4)
    by simp
  moreover have "sw_hideByWorkspace (wrappers (snd (wm_setOpaque True m' u)) x) = (\<not> m_visible m)"
    for u :: "'a scene_scheme"
    using assms(1) f by (simp add: wm_setOpaque_def emit_opaqueChanged_def Let_def)
  ultimately show ?thesis using assms(3) f(4) by simp
qed

theorem preview_slot_survives_removal_witness:
  "sw_hideByWorkspace (wrappers (snd (wm_setOpaque True
     (fst (wm_removeSurface 9 (fst (wm_addSurface 9 (demo_model\<lparr>m_opaque := False\<rparr>) demo_scene))
        (snd (wm_addSurface 9 (demo_model\<lparr>m_opaque := False\<rparr>) demo_scene)))) demo_scene)) 9)"
  using preview_slot_survives_removal [of "demo_model\<lparr>m_opaque := False\<rparr>" 9 demo_scene, OF _ _ _ prod.collapse [symmetric]]
  by (simp add: demo_model_def newWorkspaceModel_def del: wmodel_simps)

end
