(* ===== verification/QMap.thy ===== *)
theory QMap
  imports Treeland_Prelude
begin

text \<open>
  Qt's ordered dictionary \<^verbatim>\<open>QMap\<close> as an association list whose keys are strictly increasing,
  so that iteration order is the order of the list. \<open>qget\<close> is \<^verbatim>\<open>constFind\<close>, \<open>qput\<close> is
  assignment through \<^verbatim>\<open>operator[]\<close>, \<open>qdel\<close> is \<^verbatim>\<open>remove\<close>, \<open>qhas\<close> is \<^verbatim>\<open>contains\<close>. The locale
  \<open>dictionary\<close> states what the clients rely on and is interpreted on these operations.
\<close>

named_theorems qmap_simps \<open>lookup equations of QMap\<close>

type_synonym ('k, 'v) qmap = "('k \<times> 'v) list"

fun qget :: "('k, 'v) qmap \<Rightarrow> 'k \<Rightarrow> 'v option" where
  "qget [] k = None"
| "qget (e # m) k = (if fst e = k then Some (snd e) else qget m k)"

definition qhas :: "('k, 'v) qmap \<Rightarrow> 'k \<Rightarrow> bool" where
  "qhas m k = (case qget m k of None \<Rightarrow> False | Some _ \<Rightarrow> True)"

fun qput :: "'k::linorder \<Rightarrow> 'v \<Rightarrow> ('k, 'v) qmap \<Rightarrow> ('k, 'v) qmap" where
  "qput k v [] = [(k, v)]"
| "qput k v (e # m) =
     (if fst e < k then e # qput k v m
      else if fst e = k then (k, v) # m
      else (k, v) # e # m)"

definition qdel :: "'k \<Rightarrow> ('k, 'v) qmap \<Rightarrow> ('k, 'v) qmap" where
  "qdel k m = filter (\<lambda>e. fst e \<noteq> k) m"

text \<open>\<open>qval m k d\<close> is \<^verbatim>\<open>QMap::value(k, d)\<close>; reading through \<^verbatim>\<open>operator[]\<close> also inserts the
  default, which \<open>qtouch\<close> makes explicit.\<close>

definition qval :: "('k, 'v) qmap \<Rightarrow> 'k \<Rightarrow> 'v \<Rightarrow> 'v" where
  "qval m k d = (case qget m k of None \<Rightarrow> d | Some v \<Rightarrow> v)"

definition qtouch :: "'k::linorder \<Rightarrow> 'v \<Rightarrow> ('k, 'v) qmap \<Rightarrow> ('k, 'v) qmap" where
  "qtouch k d m = (if qhas m k then m else qput k d m)"

definition qok :: "('k::linorder, 'v) qmap \<Rightarrow> bool" where
  "qok m = sorted_wrt (\<lambda>a b. fst a < fst b) m"

lemma qhas_iff: "qhas m k \<longleftrightarrow> (\<exists>v. qget m k = Some v)"
  by (auto simp: qhas_def split: option.splits)

lemma qhas_set: "qhas m k \<longleftrightarrow> k \<in> fst ` set m"
  unfolding qhas_iff by (induction m) auto

lemma qget_in_set: "qget m k = Some v \<Longrightarrow> (k, v) \<in> set m"
  by (induction m) (auto split: if_splits)

lemma keys_qput: "fst ` set (qput k v m) = insert k (fst ` set m)"
  by (induction m) auto

lemma qget_qput [simp, qmap_simps]: "qget (qput k v m) j = (if j = k then Some v else qget m j)"
  by (induction m) auto

lemma qget_qdel [simp, qmap_simps]: "qget (qdel k m) j = (if j = k then None else qget m j)"
  unfolding qdel_def by (induction m) auto

lemma qok_Nil [simp]: "qok []"
  by (simp add: qok_def)

lemma qok_qput [simp]: "qok m \<Longrightarrow> qok (qput k v m)"
proof (induction m)
  case Nil
  then show ?case by (simp add: qok_def)
next
  case (Cons e m)
  then have "qok m" "\<forall>x\<in>fst ` set m. fst e < x" by (auto simp: qok_def)
  moreover have "\<forall>x\<in>fst ` set (qput k v m). fst e < x" if "fst e < k"
    using calculation(2) that by (auto simp: keys_qput)
  ultimately show ?case using Cons.IH
    by (fastforce simp: qok_def)
qed

lemma qok_qdel [simp]: "qok m \<Longrightarrow> qok (qdel k m)"
  by (simp add: qok_def qdel_def sorted_wrt_filter)

lemma qok_distinct: "qok m \<Longrightarrow> distinct (map fst m)"
  by (induction m) (fastforce simp: qok_def)+

lemma qget_iff_in_set: "qok m \<Longrightarrow> qget m k = Some v \<longleftrightarrow> (k, v) \<in> set m"
proof (induction m)
  case Nil
  then show ?case by simp
next
  case (Cons e m)
  then have "qok m" "\<forall>x\<in>set m. fst e < fst x" by (auto simp: qok_def)
  with Cons.IH show ?case by (cases e) auto
qed

lemma qhas_qput [simp, qmap_simps]: "qhas (qput k v m) j \<longleftrightarrow> j = k \<or> qhas m j"
  by (auto simp: qhas_iff)

lemma qhas_qdel [simp, qmap_simps]: "qhas (qdel k m) j \<longleftrightarrow> j \<noteq> k \<and> qhas m j"
  by (auto simp: qhas_iff)

lemma qhas_Nil [simp]: "\<not> qhas [] k"
  by (simp add: qhas_def)

lemma qval_simps [simp, qmap_simps]:
  "qval [] k d = d"
  "qval (qput k v m) j d = (if j = k then v else qval m j d)"
  "qval (qdel k m) j d = (if j = k then d else qval m j d)"
  by (simp_all add: qval_def)

lemma qget_qtouch [qmap_simps]:
  "qget (qtouch k d m) j = (if j = k \<and> \<not> qhas m k then Some d else qget m j)"
  by (auto simp: qtouch_def qhas_iff)

lemma qval_qtouch [simp, qmap_simps]: "qval (qtouch k d m) j d = qval m j d"
  by (auto simp: qval_def qget_qtouch qhas_iff)

lemma qok_qtouch [simp]: "qok m \<Longrightarrow> qok (qtouch k d m)"
  by (simp add: qtouch_def)

lemma qget_None_iff: "qget m k = None \<longleftrightarrow> \<not> qhas m k"
  by (auto simp: qhas_iff)

section \<open>The interface the clients use\<close>

locale dictionary =
  fixes lookup :: "'m \<Rightarrow> 'k \<Rightarrow> 'v option"
    and store :: "'k \<Rightarrow> 'v \<Rightarrow> 'm \<Rightarrow> 'm"
    and erase :: "'k \<Rightarrow> 'm \<Rightarrow> 'm"
    and okay :: "'m \<Rightarrow> bool"
  assumes lookup_store: "lookup (store k v m) j = (if j = k then Some v else lookup m j)"
    and lookup_erase: "lookup (erase k m) j = (if j = k then None else lookup m j)"
    and okay_store: "okay m \<Longrightarrow> okay (store k v m)"
    and okay_erase: "okay m \<Longrightarrow> okay (erase k m)"
begin

lemma erase_store_same: "lookup m k = None \<Longrightarrow> lookup (erase k (store k v m)) = lookup m"
  by (rule ext) (simp add: lookup_store lookup_erase)

lemma store_other: "j \<noteq> k \<Longrightarrow> lookup (store k v m) j = lookup m j"
  by (simp add: lookup_store)

lemma erase_all_lookup:
  "lookup (fold erase ks m) j = (if j \<in> set ks then None else lookup m j)"
  by (induction ks arbitrary: m) (auto simp: lookup_erase)

lemma erase_all_okay: "okay m \<Longrightarrow> okay (fold erase ks m)"
  by (induction ks arbitrary: m) (auto intro: okay_erase)

end

interpretation qm: dictionary qget qput qdel qok
  by unfold_locales auto

end
