(* ===== verification/Seat_Surfaces.thy ===== *)
theory Seat_Surfaces
  imports Workspace_Config QMap
begin

text \<open>
  src/src/surface/seatsurfacemanager.cpp without the interactive move and resize: for every
  seat the surface that is activated, the surface that has the keyboard and the popup grab,
  and the map of these managers in \<^verbatim>\<open>RootSurfaceContainer\<close>. The compositor state \<open>fstate\<close> extends
  the workspace state by the seats, the show-desktop state and what the focus code reads of
  surfaces through waylib: their keyboard focus priority, the seat of a popup's grab, whether an
  X11 window bypasses the window manager, the layer of a layer surface.
  \<^verbatim>\<open>WaylandServer::instance()\<close> and its seat manager are taken to exist. The focus reason of Qt
  reaches only the items' own focus handling and is dropped, except where the code branches on it.
\<close>

record seat_mgr =
  ss_activated :: "sid option"
  ss_keyboardFocus :: "sid option"
  ss_hasPopupGrab :: bool
  ss_popupRestoreFocusTarget :: "sid option"
  ss_moveResize :: "(sid \<times> bool) option"  \<comment> \<open>the surface, and whether edges are dragged\<close>

definition newSeatSurfaceManager :: seat_mgr where
  "newSeatSurfaceManager =
     \<lparr>ss_activated = None, ss_keyboardFocus = None, ss_hasPopupGrab = False,
      ss_popupRestoreFocusTarget = None, ss_moveResize = None\<rparr>"

record fstate = wstate +
  rootPresent :: bool
  seats :: "nat list"
  fallbackSeat :: "nat option"
  primarySeat :: "nat option"
  seatContainers :: "(nat, seat_mgr) qmap"
  blockActivate :: bool
  desktopShown :: bool
  paintOrder :: "sid list"
  desktopLayer :: "sid option"  \<comment> \<open>the first desktop surface of the background container\<close>
  isDesktop :: "sid \<Rightarrow> bool"
  focusPriority :: "sid \<Rightarrow> int"
  popupSeat :: "sid \<Rightarrow> nat option"
  bypassManager :: "sid \<Rightarrow> bool"
  layerTakesFocus :: "sid \<Rightarrow> bool"
  lastInteractingSeat :: "sid \<Rightarrow> nat option"
  pendingActivation :: "sid \<Rightarrow> nat option option"

section \<open>The managers of the root container\<close>

definition getSeatContainer :: "'a fstate_scheme \<Rightarrow> nat \<Rightarrow> seat_mgr option" where
  "getSeatContainer s k = qget (seatContainers s) k"

definition getDefaultSeat :: "'a fstate_scheme \<Rightarrow> nat option" where
  "getDefaultSeat s =
     (case fallbackSeat s of
        Some k \<Rightarrow> Some k
      | None \<Rightarrow> (case seats s of [] \<Rightarrow> None | k # _ \<Rightarrow> Some k))"

text \<open>The result names the manager by its seat.\<close>

definition getSeatContainerOrDefault :: "'a fstate_scheme \<Rightarrow> nat option \<Rightarrow> nat option" where
  "getSeatContainerOrDefault s seat =
     (case (case seat of None \<Rightarrow> getDefaultSeat s | Some k \<Rightarrow> Some k) of
        None \<Rightarrow> None
      | Some k \<Rightarrow> if getSeatContainer s k = None then None else Some k)"

definition onSeatAdded :: "nat \<Rightarrow> 'a fstate_scheme \<Rightarrow> 'a fstate_scheme" where
  "onSeatAdded k s =
     (if qhas (seatContainers s) k then s
      else s\<lparr>seatContainers := qput k newSeatSurfaceManager (seatContainers s)\<rparr>)"

definition onSeatRemoved :: "nat \<Rightarrow> 'a fstate_scheme \<Rightarrow> 'a fstate_scheme" where
  "onSeatRemoved k s = s\<lparr>seatContainers := qdel k (seatContainers s)\<rparr>"

definition mod_seat :: "(seat_mgr \<Rightarrow> seat_mgr) \<Rightarrow> nat \<Rightarrow> 'a fstate_scheme \<Rightarrow> 'a fstate_scheme" where
  "mod_seat f k s =
     (case getSeatContainer s k of
        None \<Rightarrow> s
      | Some m \<Rightarrow> s\<lparr>seatContainers := qput k (f m) (seatContainers s)\<rparr>)"

section \<open>One seat\<close>

text \<open>The operations of the manager of seat \<open>k\<close>; they do nothing when there is no such manager,
  which their callers rule out.\<close>

definition ssm_setActivatedSurface :: "nat \<Rightarrow> sid option \<Rightarrow> 'a fstate_scheme \<Rightarrow> 'a fstate_scheme" where
  "ssm_setActivatedSurface k x s =
     (case getSeatContainer s k of
        None \<Rightarrow> s
      | Some m \<Rightarrow>
          if (case x of None \<Rightarrow> False | Some y \<Rightarrow> \<not> acceptKeyboardFocus (wrappers s y)) then s
          else if ss_activated m = x then s
          else emit (ActivatedSurfaceChanged k x) (mod_seat (\<lambda>m. m\<lparr>ss_activated := x\<rparr>) k s))"

definition priority_of :: "'a fstate_scheme \<Rightarrow> sid \<Rightarrow> int" where
  "priority_of s x = (if sw_shellSurface (wrappers s x) then focusPriority s x else 0)"

definition otherSeatHasFocus :: "'a fstate_scheme \<Rightarrow> nat \<Rightarrow> sid \<Rightarrow> bool" where
  "otherSeatHasFocus s k old =
     list_ex (\<lambda>j. j \<noteq> k \<and> (case getSeatContainer s j of
                              None \<Rightarrow> False | Some m \<Rightarrow> ss_keyboardFocus m = Some old)) (seats s)"

definition ssm_setKeyboardFocusSurface :: "nat \<Rightarrow> sid option \<Rightarrow> 'a fstate_scheme \<Rightarrow> 'a fstate_scheme" where
  "ssm_setKeyboardFocusSurface k x s =
     (case getSeatContainer s k of
        None \<Rightarrow> s
      | Some m \<Rightarrow>
          if ss_keyboardFocus m = x then s
          else if (case (ss_keyboardFocus m, x) of
                     (Some old, Some new) \<Rightarrow> priority_of s old > priority_of s new
                   | _ \<Rightarrow> False) then s
          else
            let s = (case ss_keyboardFocus m of
                       None \<Rightarrow> s
                     | Some old \<Rightarrow> if otherSeatHasFocus s k old then s else emit (SetFocus old False) s);
                s = mod_seat (\<lambda>m. m\<lparr>ss_keyboardFocus := x\<rparr>) k s;
                s = emit (SeatKeyboardFocus k x) s
            in case x of
                 None \<Rightarrow> s
               | Some y \<Rightarrow>
                   let s = emit (SetFocus y True) s;
                       s = s\<lparr>lastInteractingSeat := (lastInteractingSeat s)(y := Some k)\<rparr>
                   in emit (UpdateInteraction y k) s)"

definition ssm_restoreShowDesktopFocus :: "nat \<Rightarrow> 'a fstate_scheme \<Rightarrow> 'a fstate_scheme" where
  "ssm_restoreShowDesktopFocus k s =
     (case getSeatContainer s k of
        None \<Rightarrow> s
      | Some m \<Rightarrow>
          (case ss_activated m of
             None \<Rightarrow> s
           | Some x \<Rightarrow>
               if \<not> hasFocusCapability (wrappers s x) then s
               else ssm_setKeyboardFocusSurface k (Some x) s))"

section \<open>Popup grabs\<close>

definition ssm_givePopupFocus :: "nat \<Rightarrow> sid \<Rightarrow> 'a fstate_scheme \<Rightarrow> 'a fstate_scheme" where
  "ssm_givePopupFocus k x s =
     (case getSeatContainer s k of
        None \<Rightarrow> s
      | Some m \<Rightarrow>
          if \<not> ss_hasPopupGrab m then s
          else if \<not> (sw_shellSurface (wrappers s x) \<and> sw_type (wrappers s x) = XdgPopup) then s
          else if popupSeat s x \<noteq> Some k then s
          else ssm_setKeyboardFocusSurface k (Some x) s)"

text \<open>\<^verbatim>\<open>RootSurfaceContainer::givePopupFocus\<close> routes to the seat of the popup's grab.\<close>

definition givePopupFocus :: "sid \<Rightarrow> 'a fstate_scheme \<Rightarrow> 'a fstate_scheme" where
  "givePopupFocus x s =
     (if \<not> (sw_shellSurface (wrappers s x) \<and> sw_type (wrappers s x) = XdgPopup) then s
      else case popupSeat s x of
             None \<Rightarrow> s
           | Some k \<Rightarrow> if qhas (seatContainers s) k then ssm_givePopupFocus k x s else s)"

text \<open>Ending the grab is wlroots' doing; it answers by \<open>onKeyboardGrabEnd\<close>.\<close>

definition dismissPopups :: "nat \<Rightarrow> 'a fstate_scheme \<Rightarrow> 'a fstate_scheme" where
  "dismissPopups k s =
     (case getSeatContainer s k of
        None \<Rightarrow> s
      | Some m \<Rightarrow> if \<not> ss_hasPopupGrab m then s else emit (EndKeyboardGrab k) s)"

text \<open>\<open>grab\<close>: the seat has a keyboard grab; \<open>ime\<close>: it belongs to the input method.\<close>

definition onKeyboardGrabBegin :: "bool \<Rightarrow> bool \<Rightarrow> nat \<Rightarrow> 'a fstate_scheme \<Rightarrow> 'a fstate_scheme" where
  "onKeyboardGrabBegin grab ime k s =
     (case getSeatContainer s k of
        None \<Rightarrow> s
      | Some m \<Rightarrow>
          if ss_hasPopupGrab m then s
          else if \<not> grab then s
          else if ime then s
          else mod_seat (\<lambda>m. m\<lparr>ss_popupRestoreFocusTarget := ss_keyboardFocus m,
                                ss_hasPopupGrab := True\<rparr>) k s)"

definition onKeyboardGrabEnd :: "nat \<Rightarrow> 'a fstate_scheme \<Rightarrow> 'a fstate_scheme" where
  "onKeyboardGrabEnd k s =
     (case getSeatContainer s k of
        None \<Rightarrow> s
      | Some m \<Rightarrow>
          if \<not> ss_hasPopupGrab m then s
          else
            let restore = ss_popupRestoreFocusTarget m;
                s = mod_seat (\<lambda>m. m\<lparr>ss_hasPopupGrab := False, ss_popupRestoreFocusTarget := None\<rparr>) k s
            in if (case ss_keyboardFocus m of
                     None \<Rightarrow> False | Some f \<Rightarrow> sw_type (wrappers s f) \<noteq> XdgPopup) then s
               else
                 let restore = (case restore of
                                  None \<Rightarrow> ss_activated m
                                | Some r \<Rightarrow> if hasFocusCapability (wrappers s r) then Some r
                                           else ss_activated m)
                 in if desktopShown s \<and> (case restore of None \<Rightarrow> True | Some r \<Rightarrow> \<not> isDesktop s r) then s
                    else case restore of
                           None \<Rightarrow> s
                         | Some r \<Rightarrow> if hasFocusCapability (wrappers s r)
                                    then ssm_setKeyboardFocusSurface k (Some r) s else s)"

section \<open>What the operations touch\<close>

named_theorems seat_simps \<open>what the seat operations do to the state\<close>

lemma getSeatContainer_emit [simp, seat_simps]: "getSeatContainer (emit e s) k = getSeatContainer s k"
  by (simp add: getSeatContainer_def emit_def)

lemma getSeatContainer_mod_seat [simp, seat_simps]:
  "getSeatContainer (mod_seat f k s) j =
     (if j = k then map_option f (getSeatContainer s k) else getSeatContainer s j)"
  by (auto simp: getSeatContainer_def mod_seat_def split: option.splits)

lemma getSeatContainer_interacting [simp, seat_simps]:
  "getSeatContainer (s\<lparr>lastInteractingSeat := f\<rparr>) k = getSeatContainer s k"
  by (simp add: getSeatContainer_def)

text \<open>The keyboard focus an operation leaves a seat with.\<close>

definition takes_focus :: "'a fstate_scheme \<Rightarrow> seat_mgr \<Rightarrow> sid option \<Rightarrow> bool" where
  "takes_focus s m x =
     (case (ss_keyboardFocus m, x) of
        (Some old, Some new) \<Rightarrow> old = new \<or> priority_of s old \<le> priority_of s new
      | _ \<Rightarrow> True)"

lemma takes_focus_None [simp]: "takes_focus s m None"
  by (simp add: takes_focus_def split: option.splits)

lemma setKeyboardFocus_seats:
  "getSeatContainer (ssm_setKeyboardFocusSurface k x s) j =
     (if j = k
      then map_option (\<lambda>m. if takes_focus s m x then m\<lparr>ss_keyboardFocus := x\<rparr> else m) (getSeatContainer s k)
      else getSeatContainer s j)"
  by (auto simp: ssm_setKeyboardFocusSurface_def takes_focus_def Let_def
      split: option.splits)

text \<open>All but the seats, the interaction record and the trace.\<close>

definition seat_erase :: "'a fstate_scheme \<Rightarrow> 'a fstate_scheme" where
  "seat_erase s = s\<lparr>trace := [], seatContainers := [], lastInteractingSeat := (\<lambda>_. None)\<rparr>"

definition seat_frame :: "'a fstate_scheme \<Rightarrow> 'a fstate_scheme \<Rightarrow> bool" where
  "seat_frame s t = (seat_erase t = seat_erase s)"

lemma seat_frame_refl [simp]: "seat_frame s s"
  by (simp add: seat_frame_def)

lemma seat_frame_trans: "seat_frame s t \<Longrightarrow> seat_frame t u \<Longrightarrow> seat_frame s u"
  by (simp add: seat_frame_def)

lemma seat_frameD:
  fixes s t :: "'a fstate_scheme"
  assumes "seat_frame s t"
  shows "wrappers t = wrappers s" "containers t = containers s" "ws_cid t = ws_cid s"
    "models t = models s" "allModel t = allModel s" "currentIndex t = currentIndex s"
    "globalWorkspaceId t = globalWorkspaceId s" "multitaskview t = multitaskview s"
    "primaryOutput t = primaryOutput s" "rootPresent t = rootPresent s" "seats t = seats s"
    "fallbackSeat t = fallbackSeat s" "primarySeat t = primarySeat s" "blockActivate t = blockActivate s"
    "desktopShown t = desktopShown s" "focusPriority t = focusPriority s" "popupSeat t = popupSeat s"
    "isDesktop t = isDesktop s" "bypassManager t = bypassManager s"
  using assms by (cases s; cases t; simp add: seat_frame_def seat_erase_def)+

lemma seat_frame_emit [simp, seat_simps]: "seat_frame s (emit e t) = seat_frame s t"
  by (simp add: seat_frame_def seat_erase_def emit_def)

lemma seat_frame_mod_seat [simp, seat_simps]: "seat_frame s (mod_seat f k t) = seat_frame s t"
  by (simp add: seat_frame_def seat_erase_def mod_seat_def split: option.splits)

lemma seat_frame_interacting [simp, seat_simps]:
  "seat_frame s (t\<lparr>lastInteractingSeat := f\<rparr>) = seat_frame s t"
  by (simp add: seat_frame_def seat_erase_def)

lemma seat_frame_ops [simp, seat_simps]:
  "seat_frame s (ssm_setActivatedSurface k x s)"
  "seat_frame s (ssm_setKeyboardFocusSurface k x s)"
  by (simp_all add: ssm_setActivatedSurface_def ssm_setKeyboardFocusSurface_def Let_def
      split: option.splits)

lemma seat_frame_more [simp, seat_simps]:
  "seat_frame s (ssm_restoreShowDesktopFocus k s)" "seat_frame s (ssm_givePopupFocus k p s)"
  "seat_frame s (givePopupFocus p s)" "seat_frame s (onKeyboardGrabBegin grab ime k s)"
  by (simp_all add: ssm_restoreShowDesktopFocus_def ssm_givePopupFocus_def givePopupFocus_def
      onKeyboardGrabBegin_def Let_def split: option.splits)

lemma priority_frame: "seat_frame s t \<Longrightarrow> priority_of t x = priority_of s x"
  by (simp add: priority_of_def seat_frameD)

lemma setActivated_seats:
  "getSeatContainer (ssm_setActivatedSurface k x s) j =
     (if j = k
      then map_option (\<lambda>m. if (case x of None \<Rightarrow> True | Some y \<Rightarrow> acceptKeyboardFocus (wrappers s y))
                           then m\<lparr>ss_activated := x\<rparr> else m) (getSeatContainer s k)
      else getSeatContainer s j)"
  by (auto simp: ssm_setActivatedSurface_def split: option.splits)

section \<open>The keyboard returns from popups\<close>

definition grabbing_popup :: "'a fstate_scheme \<Rightarrow> nat \<Rightarrow> sid \<Rightarrow> bool" where
  "grabbing_popup s k p =
     (sw_shellSurface (wrappers s p) \<and> sw_type (wrappers s p) = XdgPopup \<and> popupSeat s p = Some k)"

lemma grabbing_frame: "seat_frame s t \<Longrightarrow> grabbing_popup t k p = grabbing_popup s k p"
  by (simp add: grabbing_popup_def seat_frameD)

lemma givePopupFocus_seat:
  assumes "getSeatContainer s k = Some m" "ss_hasPopupGrab m" "grabbing_popup s k p"
  shows "getSeatContainer (givePopupFocus p s) j =
     (if j = k then Some (if takes_focus s m (Some p) then m\<lparr>ss_keyboardFocus := Some p\<rparr> else m)
      else getSeatContainer s j)"
proof -
  have "qhas (seatContainers s) k" using assms(1) by (simp add: qhas_iff getSeatContainer_def)
  then have "givePopupFocus p s = ssm_setKeyboardFocusSurface k (Some p) s"
    using assms by (simp add: givePopupFocus_def ssm_givePopupFocus_def grabbing_popup_def)
  then show ?thesis using assms(1) by (simp add: setKeyboardFocus_seats)
qed

text \<open>While popups come and go the seat remembers who had the keyboard.\<close>

lemma givePopupFocus_all:
  assumes "getSeatContainer s k = Some m" "ss_hasPopupGrab m" "\<forall>p\<in>set ps. grabbing_popup s k p"
  shows "seat_frame s (fold givePopupFocus ps s)
    \<and> (\<exists>f. getSeatContainer (fold givePopupFocus ps s) k = Some (m\<lparr>ss_keyboardFocus := f\<rparr>)
        \<and> (f = ss_keyboardFocus m \<or> f \<in> Some ` set ps))
    \<and> (\<forall>j. j \<noteq> k \<longrightarrow> getSeatContainer (fold givePopupFocus ps s) j = getSeatContainer s j)"
  using assms
proof (induction ps arbitrary: s m)
  case Nil
  then show ?case by simp
next
  case (Cons p ps)
  define s1 where "s1 = givePopupFocus p s"
  define m1 where "m1 = (if takes_focus s m (Some p) then m\<lparr>ss_keyboardFocus := Some p\<rparr> else m)"
  have fr: "seat_frame s s1" by (simp add: s1_def)
  have g: "getSeatContainer s1 k = Some m1" "\<forall>j. j \<noteq> k \<longrightarrow> getSeatContainer s1 j = getSeatContainer s j"
    using givePopupFocus_seat [OF Cons.prems(1,2), of p] Cons.prems(3) by (auto simp: s1_def m1_def)
  have "ss_hasPopupGrab m1" "\<forall>q\<in>set ps. grabbing_popup s1 k q"
    using Cons.prems grabbing_frame [OF fr] by (auto simp: m1_def)
  note IH = Cons.IH [OF g(1) this]
  then show ?case
    using g(2) seat_frame_trans [OF fr, of "fold givePopupFocus ps s1"]
    by (auto simp: s1_def [symmetric] m1_def split: if_splits)
qed

lemma onKeyboardGrabEnd_restores:
  assumes "getSeatContainer s k = Some m" "ss_hasPopupGrab m" "ss_popupRestoreFocusTarget m = Some x"
    "hasFocusCapability (wrappers s x)" "\<not> desktopShown s \<or> isDesktop s x"
    "ss_keyboardFocus m = Some f" "sw_type (wrappers s f) = XdgPopup \<or> f = x"
    "priority_of s f \<le> priority_of s x"
  shows "getSeatContainer (onKeyboardGrabEnd k s) k =
     Some (m\<lparr>ss_hasPopupGrab := False, ss_popupRestoreFocusTarget := None, ss_keyboardFocus := Some x\<rparr>)"
proof -
  define s' where "s' = mod_seat (\<lambda>m. m\<lparr>ss_hasPopupGrab := False, ss_popupRestoreFocusTarget := None\<rparr>) k s"
  have fr: "seat_frame s s'" by (simp add: s'_def)
  note pr = priority_frame [OF fr] and eq = seat_frameD [OF fr]
  have "onKeyboardGrabEnd k s =
      (if sw_type (wrappers s f) \<noteq> XdgPopup then s' else ssm_setKeyboardFocusSurface k (Some x) s')"
    using assms by (auto simp: onKeyboardGrabEnd_def Let_def s'_def [symmetric] eq)
  then show ?thesis
    using assms by (auto simp: setKeyboardFocus_seats s'_def takes_focus_def pr [unfolded s'_def])
qed

text \<open>C17: A popup grab borrows the keyboard. When a grab begins on a seat whose keyboard is with a
  window, any sequence of the grab's popups then takes the focus, and the grab ends, the keyboard
  is with that window again and the grab is forgotten, whatever popups were shown; no other seat
  is affected. This needs the window to be still able to take the focus, the desktop not to be
  shown, and no popup with a higher focus priority than the window.\<close>

theorem popup_grab_returns_keyboard:
  assumes "getSeatContainer s k = Some m" "\<not> ss_hasPopupGrab m" "ss_keyboardFocus m = Some x"
    "hasFocusCapability (wrappers s x)" "\<not> desktopShown s"
    "\<forall>p\<in>set ps. grabbing_popup s k p \<and> priority_of s p \<le> priority_of s x"
  shows "let t = onKeyboardGrabEnd k (fold givePopupFocus ps (onKeyboardGrabBegin True False k s)) in
     getSeatContainer t k = Some (m\<lparr>ss_popupRestoreFocusTarget := None\<rparr>)
     \<and> (\<forall>j. j \<noteq> k \<longrightarrow> getSeatContainer t j = getSeatContainer s j)"
proof -
  define s1 where "s1 = onKeyboardGrabBegin True False k s"
  define m1 where "m1 = m\<lparr>ss_popupRestoreFocusTarget := Some x, ss_hasPopupGrab := True\<rparr>"
  define s2 where "s2 = fold givePopupFocus ps s1"
  have fr1: "seat_frame s s1" by (simp add: s1_def)
  have g1: "getSeatContainer s1 k = Some m1" "\<forall>j. j \<noteq> k \<longrightarrow> getSeatContainer s1 j = getSeatContainer s j"
    using assms(1-3) by (simp_all add: s1_def m1_def onKeyboardGrabBegin_def)
  have "ss_hasPopupGrab m1" "\<forall>p\<in>set ps. grabbing_popup s1 k p"
    using assms(6) grabbing_frame [OF fr1] by (simp_all add: m1_def)
  from givePopupFocus_all [OF g1(1) this] obtain f where
    fr2: "seat_frame s1 s2" and f: "getSeatContainer s2 k = Some (m1\<lparr>ss_keyboardFocus := f\<rparr>)"
      "f = Some x \<or> f \<in> Some ` set ps" and oth: "\<forall>j. j \<noteq> k \<longrightarrow> getSeatContainer s2 j = getSeatContainer s1 j"
    using assms(3) by (auto simp: s2_def m1_def)
  from f(2) obtain y where y: "f = Some y" "y = x \<or> y \<in> set ps" by auto
  have fr: "seat_frame s s2" using fr1 fr2 by (rule seat_frame_trans)
  note eq = seat_frameD [OF fr] and pr = priority_frame [OF fr]
  have "getSeatContainer (onKeyboardGrabEnd k s2) k =
      Some ((m1\<lparr>ss_keyboardFocus := f\<rparr>)\<lparr>ss_hasPopupGrab := False, ss_popupRestoreFocusTarget := None,
        ss_keyboardFocus := Some x\<rparr>)"
    using assms(4-6) y
    by (intro onKeyboardGrabEnd_restores [OF f(1), of x y]) (auto simp: m1_def eq pr grabbing_popup_def)
  moreover have "getSeatContainer (onKeyboardGrabEnd k s2) j = getSeatContainer s2 j" if "j \<noteq> k" for j
    using that by (simp add: onKeyboardGrabEnd_def Let_def setKeyboardFocus_seats split: option.splits)
  ultimately show ?thesis
    using assms(2,3) oth g1(2) by (auto simp: Let_def m1_def s2_def [symmetric] s1_def [symmetric])
qed

text \<open>The demonstration state: two seats, window 5 active on the first, popup 6 with its grab.\<close>

definition demo_fstate :: fstate where
  "demo_fstate = wstate.extend
     (demo_ws\<lparr>wrappers := (wrappers demo_ws)(5 := (wrappers demo_ws 5)\<lparr>sw_isActivated := True\<rparr>,
        6 := blank_wrapper\<lparr>sw_type := XdgPopup\<rparr>)\<rparr>)
     \<lparr>rootPresent = True, seats = [0, 1], fallbackSeat = Some 0, primarySeat = Some 0,
      seatContainers = [(0, newSeatSurfaceManager\<lparr>ss_activated := Some 5, ss_keyboardFocus := Some 5\<rparr>),
                        (1, newSeatSurfaceManager)],
      blockActivate = False, desktopShown = False, paintOrder = [1, 2, 3, 4, 5], desktopLayer = None,
      isDesktop = (\<lambda>_. False), focusPriority = (\<lambda>_. 0), popupSeat = (\<lambda>x. if x = 6 then Some 0 else None),
      bypassManager = (\<lambda>_. False), layerTakesFocus = (\<lambda>_. False), lastInteractingSeat = (\<lambda>_. None),
      pendingActivation = (\<lambda>_. None)\<rparr>"

theorem popup_grab_returns_keyboard_witness:
  "let t = onKeyboardGrabEnd 0 (fold givePopupFocus [6] (onKeyboardGrabBegin True False 0 demo_fstate)) in
   map_option ss_keyboardFocus (getSeatContainer (fold givePopupFocus [6]
       (onKeyboardGrabBegin True False 0 demo_fstate)) 0) = Some (Some 6)
   \<and> map_option ss_keyboardFocus (getSeatContainer t 0) = Some (Some 5)"
proof -
  let ?m = "newSeatSurfaceManager\<lparr>ss_activated := Some 5, ss_keyboardFocus := Some 5\<rparr>"
  have m: "getSeatContainer demo_fstate 0 = Some ?m" "\<not> ss_hasPopupGrab ?m" "ss_keyboardFocus ?m = Some 5"
    "hasFocusCapability (wrappers demo_fstate 5)" "\<not> desktopShown demo_fstate"
    "\<forall>p\<in>set [6]. grabbing_popup demo_fstate 0 p \<and> priority_of demo_fstate p \<le> priority_of demo_fstate 5"
    by (simp_all add: demo_fstate_def wstate.defs demo_ws_def getSeatContainer_def newSeatSurfaceManager_def
        hasFocusCapability_def FullStates_def demo_wrapper_def blank_wrapper_def grabbing_popup_def priority_of_def)
  have prio: "priority_of demo_fstate x = 0" for x
    by (simp add: demo_fstate_def wstate.defs demo_ws_def priority_of_def)
  have "getSeatContainer (onKeyboardGrabBegin True False 0 demo_fstate) 0 =
      Some (?m\<lparr>ss_popupRestoreFocusTarget := Some 5, ss_hasPopupGrab := True\<rparr>)"
    using m(1-3) by (simp add: onKeyboardGrabBegin_def)
  moreover have "grabbing_popup (onKeyboardGrabBegin True False 0 demo_fstate) 0 6"
    "takes_focus (onKeyboardGrabBegin True False 0 demo_fstate)
       (?m\<lparr>ss_popupRestoreFocusTarget := Some 5, ss_hasPopupGrab := True\<rparr>) (Some 6)"
    using m(6) prio by (simp_all add: grabbing_frame [OF seat_frame_more(4)] takes_focus_def
        priority_frame [OF seat_frame_more(4)])
  ultimately have "map_option ss_keyboardFocus (getSeatContainer (fold givePopupFocus [6]
       (onKeyboardGrabBegin True False 0 demo_fstate)) 0) = Some (Some 6)"
    by (simp add: givePopupFocus_seat)
  then show ?thesis using popup_grab_returns_keyboard [OF m] by (simp add: Let_def)
qed

end
