(* ===== verification/Focus.thy ===== *)
theory Focus
  imports Seat_Surfaces
begin

text \<open>
  Which window is active and which has the keyboard: src/src/core/focuscontroller.cpp,
  src/src/showdesktop/showdesktop.cpp, \<^verbatim>\<open>minimize\<close> and \<^verbatim>\<open>restoreFromMinimized\<close> of
  src/src/surface/surfacewrapper.cpp and the focus slots of src/src/core/shellhandler.cpp.
  These call each other through Qt's direct connections: activating a window while the desktop is
  shown minimizes the others, minimizing makes a window lose its active capability, and the
  slot of that signal activates another window. Each operation is therefore a definition over a
  \<open>call\<close> that performs the operations it calls, and \<open>perform\<close> ties the knot with fuel;
  \<open>Inl OutOfFuel\<close> is the recursion that does not end. The walks over parents and transient
  children get the same fuel.
\<close>

section \<open>Small steps\<close>

definition setHideByShowDesk :: "bool \<Rightarrow> sid \<Rightarrow> 'a scene_scheme \<Rightarrow> 'a scene_scheme" where
  "setHideByShowDesk v x s =
     (if sw_hideByshowDesk (wrappers s x) = v then s
      else mod_wrapper (\<lambda>w. w\<lparr>sw_hideByshowDesk := v\<rparr>) x s)"

definition setAttention :: "bool \<Rightarrow> sid \<Rightarrow> 'a scene_scheme \<Rightarrow> bool \<times> 'a scene_scheme" where
  "setAttention v x s =
     (if sw_attention (wrappers s x) = v then (True, s)
      else if v \<and> sw_isActivated (wrappers s x) then (False, s)
      else (True, emit (AttentionChanged x) (mod_wrapper (\<lambda>w. w\<lparr>sw_attention := v\<rparr>) x s)))"

definition activatedSurface :: "'a fstate_scheme \<Rightarrow> sid option" where
  "activatedSurface s =
     (if \<not> rootPresent s then None
      else case getSeatContainerOrDefault s (primarySeat s) of
             None \<Rightarrow> None
           | Some k \<Rightarrow> (case getSeatContainer s k of None \<Rightarrow> None | Some m \<Rightarrow> ss_activated m))"

text \<open>The loop of \<^verbatim>\<open>requestKeyboardFocus\<close>: an ungrabbed popup stands for its parent.\<close>

fun popup_owner :: "nat \<Rightarrow> 'a fstate_scheme \<Rightarrow> sid \<Rightarrow> sid option result" where
  "popup_owner 0 s x = Inl OutOfFuel"
| "popup_owner (Suc n) s x =
     (if \<not> (sw_shellSurface (wrappers s x) \<and> sw_type (wrappers s x) = XdgPopup) then Inr (Some x)
      else if popupSeat s x \<noteq> None then Inr (Some x)
      else case sw_parentSurface (wrappers s x) of
             None \<Rightarrow> Inr None
           | Some p \<Rightarrow> popup_owner n s p)"

definition requestKeyboardFocus ::
  "nat \<Rightarrow> sid option \<Rightarrow> nat option \<Rightarrow> 'a fstate_scheme \<Rightarrow> 'a fstate_scheme result" where
  "requestKeyboardFocus n x seat s =
     rbind (case x of
              None \<Rightarrow> Inr (True, None)
            | Some y \<Rightarrow> rbind (popup_owner n s y) (\<lambda>z.
                case z of
                  None \<Rightarrow> Inr (False, None)
                | Some z \<Rightarrow> Inr (hasFocusCapability (wrappers s z), Some z))) (\<lambda>(able, x).
     if \<not> able then Inr s
     else
       rbind (if rootPresent s then Inr () else Inl NullDeref) (\<lambda>_.
         case (case seat of None \<Rightarrow> primarySeat s | Some k \<Rightarrow> Some k) of
           None \<Rightarrow> Inl QAssert
         | Some k \<Rightarrow> rbind (qassert (getSeatContainer s k \<noteq> None)) (\<lambda>_.
             Inr (ssm_setKeyboardFocusSurface k x s))))"

definition onActivatedSurfaceFocusCapabilityChanged ::
  "nat \<Rightarrow> nat \<Rightarrow> 'a fstate_scheme \<Rightarrow> 'a fstate_scheme result" where
  "onActivatedSurfaceFocusCapabilityChanged n k s =
     (case (case getSeatContainer s k of None \<Rightarrow> None | Some m \<Rightarrow> ss_activated m) of
        None \<Rightarrow> Inr s
      | Some x \<Rightarrow>
          if desktopShown s then Inr s
          else if hasFocusCapability (wrappers s x) then requestKeyboardFocus n (Some x) (Some k) s
          else requestKeyboardFocus n None (Some k) s)"

definition raiseActivated :: "sid \<Rightarrow> 'a fstate_scheme \<Rightarrow> 'a fstate_scheme result" where
  "raiseActivated x s =
     (let s = emit (StackToLast x) s in
      if sw_type (wrappers s x) = XWayland
      then rbind (qassert (\<not> bypassManager s x)) (\<lambda>_. Inr (emit (RestackX11 x) s))
      else Inr s)"

definition filterSurfaceStateChange :: "nat \<Rightarrow> sid \<Rightarrow> 'a fstate_scheme \<Rightarrow> bool result" where
  "filterSurfaceStateChange n x s =
     rbind (deref (sw_container (wrappers s x))) (\<lambda>c.
     rbind (rootContainer n s c) (\<lambda>_.
       Inr (list_ex (\<lambda>e. ss_moveResize (snd e) = Some (x, True)) (seatContainers s))))"

definition workspaceSurfaces :: "'a fstate_scheme \<Rightarrow> sid list result" where
  "workspaceSurfaces s =
     (if paintOrder s = [] then Inr []
      else rbind (deref (current s)) (\<lambda>c.
        Inr (filter (\<lambda>x. showOnWorkspace (wrappers s x) (m_id c)) (paintOrder s))))"

definition restoreShowDesktopFocus :: "'a fstate_scheme \<Rightarrow> 'a fstate_scheme" where
  "restoreShowDesktopFocus s =
     fold (\<lambda>k s. if getSeatContainer s k = None then s else ssm_restoreShowDesktopFocus k s) (seats s) s"

text \<open>The slots that \<^verbatim>\<open>setupSurfaceActiveWatcher\<close> connects exist for windows, not for popups and
  layer surfaces.\<close>

definition watched :: "swrapper \<Rightarrow> bool" where
  "watched w = (sw_type w \<noteq> XdgPopup \<and> sw_type w \<noteq> Layer)"

definition opt_seat :: "nat option \<Rightarrow> 'a fstate_scheme \<Rightarrow> nat option" where
  "opt_seat seat s = (case seat of None \<Rightarrow> primarySeat s | Some k \<Rightarrow> Some k)"

section \<open>Activation\<close>

text \<open>The calls that can come back to the caller, with their arguments.\<close>

datatype request =
    ActivateSurface "sid option" "nat option" bool
  | SetActivatedSurface "sid option" "nat option" bool
  | CancelShowDesktop "sid option"
  | Minimize bool sid
  | ChangeActiveState "16 word" bool sid
  | ChangeFocusState "16 word" bool sid
  | SurfaceInactivationRequested sid

type_synonym 'a caller = "request \<Rightarrow> 'a fstate_scheme \<Rightarrow> 'a fstate_scheme result"

text \<open>The window that is activated instead of one that has a modal dialog, after the dialog was
  brought to its workspace; none when the dialog is minimized.\<close>

definition resolveModal ::
  "nat \<Rightarrow> sid \<Rightarrow> 'a fstate_scheme \<Rightarrow> (sid option \<times> 'a fstate_scheme) result" where
  "resolveModal n x s =
     rbind (findModal n (wrappers s) x) (\<lambda>modal.
       case modal of
         None \<Rightarrow> Inr (Some x, s)
       | Some m \<Rightarrow>
           if m = x then Inr (Some x, s)
           else
             rbind (if sw_workspaceId (wrappers s m) \<noteq> sw_workspaceId (wrappers s x)
                       \<and> sw_workspaceId (wrappers s x) \<noteq> - 1
                    then moveSurfaceTo n m (sw_workspaceId (wrappers s x)) s else Inr s) (\<lambda>s.
               if sw_minimized (wrappers s m) then Inr (None, s)
               else Inr (Some m, emit (StackToLast x) s)))"

definition activateSurface ::
  "nat \<Rightarrow> 'a caller \<Rightarrow> sid option \<Rightarrow> nat option \<Rightarrow> bool \<Rightarrow> 'a fstate_scheme \<Rightarrow> 'a fstate_scheme result" where
  "activateSurface n call wrapper seat raise s =
     (case wrapper of
        None \<Rightarrow>
          rbind (call (SetActivatedSurface None seat raise) s) (requestKeyboardFocus n None seat)
      | Some x \<Rightarrow>
          if sw_isIMCandidatePanel (wrappers s x) then Inr s
          else if \<not> acceptKeyboardFocus (wrappers s x)
          then Inr (if raise then emit (StackToLast x) s else s)
          else
            rbind (resolveModal n x s) (\<lambda>(target, s).
            case target of
              None \<Rightarrow> Inr s
            | Some y \<Rightarrow>
                if blockActivate s \<and> sw_type (wrappers s y) \<noteq> LockScreen
                then (if hasActiveCapability (wrappers s y) then pushActivedSurface y s else Inr s)
                else
                  rbind (if hasActiveCapability (wrappers s y)
                         then call (SetActivatedSurface (Some y) seat raise) s
                         else Inr s) (\<lambda>s.
                    if hasFocusCapability (wrappers s y) then requestKeyboardFocus n (Some y) seat s
                    else Inr s)))"

text \<open>The part of \<^verbatim>\<open>setActivatedSurface\<close> that concerns the new surface.\<close>

definition activateNew ::
  "'a caller \<Rightarrow> nat \<Rightarrow> sid \<Rightarrow> bool \<Rightarrow> bool \<Rightarrow> 'a fstate_scheme \<Rightarrow> 'a fstate_scheme result" where
  "activateNew call k y isPrimarySeat raise s =
     rbind (deref (current s)) (\<lambda>c.
     rbind (qassert (showOnWorkspace (wrappers s y) (m_id c))) (\<lambda>_.
     rbind (if raise then raiseActivated y s else Inr s) (\<lambda>s.
     rbind (if desktopShown s
            then rbind (call (CancelShowDesktop (Some y)) s) (\<lambda>s. Inr (True, setHideByShowDesk True y s))
            else Inr (False, s)) (\<lambda>(wasShowing, s).
     rbind (qassert (hasActiveCapability (wrappers s y))) (\<lambda>_.
     rbind (pushActivedSurface y s) (\<lambda>s.
     let s = ssm_setActivatedSurface k (Some y) s;
         s = (if wasShowing then restoreShowDesktopFocus s else s) in
     if isPrimarySeat
     then rbind (qassert (hasActiveCapability (wrappers s y))) (\<lambda>_. setActivate True y s)
     else Inr s))))))"

definition setActivatedSurface ::
  "'a caller \<Rightarrow> sid option \<Rightarrow> nat option \<Rightarrow> bool \<Rightarrow> 'a fstate_scheme \<Rightarrow> 'a fstate_scheme result" where
  "setActivatedSurface call x seat raise s =
     (if \<not> rootPresent s then Inr s
      else case getSeatContainerOrDefault s (opt_seat seat s) of
        None \<Rightarrow> Inr s
      | Some k \<Rightarrow>
          rbind (deref (getSeatContainer s k)) (\<lambda>m.
          if ss_activated m = x then Inr s
          else
            let isPrimarySeat = (opt_seat seat s = primarySeat s);
                old = (if isPrimarySeat then activatedSurface s else None) in
            rbind (case old of None \<Rightarrow> Inr s | Some z \<Rightarrow> setActivate False z s) (\<lambda>s.
            case x of
              None \<Rightarrow> Inr (ssm_setActivatedSurface k None s)
            | Some y \<Rightarrow> activateNew call k y isPrimarySeat raise s)))"

definition cancelShowDesktop ::
  "'a caller \<Rightarrow> sid option \<Rightarrow> 'a fstate_scheme \<Rightarrow> 'a fstate_scheme result" where
  "cancelShowDesktop call exclude s =
     (if \<not> desktopShown s then Inr s
      else
        let s = emit (SetDesktopState False) (s\<lparr>desktopShown := False\<rparr>) in
        rbind (workspaceSurfaces s) (\<lambda>xs.
          rfold (\<lambda>x s.
            if Some x = exclude then Inr s
            else if \<not> sw_minimized (wrappers s x) \<and> \<not> sw_visible (wrappers s x)
            then call (Minimize False x) (setHideByShowDesk True x s)
            else Inr s) xs s))"

definition minimize ::
  "nat \<Rightarrow> 'a caller \<Rightarrow> bool \<Rightarrow> sid \<Rightarrow> 'a fstate_scheme \<Rightarrow> 'a fstate_scheme result" where
  "minimize n call onAnim x s =
     (if sw_aboutToRemove (wrappers s x) then Inr s
      else if sw_minimized (wrappers s x) then Inr s
      else
        rbind (filterSurfaceStateChange n x s) (\<lambda>blocked.
        if blocked then Inr s
        else
          let s = emit (AbortGeometryAnimation x) s;
              s = mod_wrapper (\<lambda>w. w\<lparr>sw_minimized := True\<rparr>) x s in
          if \<not> sw_shellSurface (wrappers s x) then Inr (updateVisible x s)
          else
            rbind (case (if sw_modal (wrappers s x) then sw_parentSurface (wrappers s x) else None) of
                     None \<Rightarrow> Inr s
                   | Some p \<Rightarrow> if sw_minimized (wrappers s p) then Inr s
                              else call (Minimize False p) s) (\<lambda>s.
            let s = emit (ShellSetMinimize x True) s in
            rbind (call (ChangeActiveState UnMinimized False x) s) (\<lambda>s.
            rbind (call (ChangeFocusState UnMinimized False x) s) (\<lambda>s.
            let s = updateVisible x s in
            rbind (rfold (\<lambda>c s.
                     if sw_modal (wrappers s c) then Inr s
                     else if \<not> sw_minimized (wrappers s c) then call (Minimize False c) s
                     else Inr s) (sw_subSurfaces (wrappers s x)) s) (\<lambda>s.
            Inr (if onAnim then emit (StartMinimizeAnimation x False) s else s)))))))"

text \<open>\<^verbatim>\<open>updateHasActiveCapability\<close> with the slots of its two signals, and
  \<^verbatim>\<open>updateFocusControlState\<close> with those of \<^verbatim>\<open>hasFocusCapabilityChanged\<close>: first the shell handler's,
  then those of the seats on which the surface is activated.\<close>

definition changeActiveState ::
  "'a caller \<Rightarrow> 16 word \<Rightarrow> bool \<Rightarrow> sid \<Rightarrow> 'a fstate_scheme \<Rightarrow> 'a fstate_scheme result" where
  "changeActiveState call st v x s =
     (let old = hasActiveCapability (wrappers s x);
          s = updateHasActiveCapability st v x s;
          new = hasActiveCapability (wrappers s x) in
      if old = new \<or> \<not> watched (wrappers s x) then Inr s
      else if new
      then (if \<not> acceptKeyboardFocus (wrappers s x) then Inr s
            else rbind (deref (current s)) (\<lambda>c.
              if showOnWorkspace (wrappers s x) (m_id c) then call (ActivateSurface (Some x) None True) s
              else pushActivedSurface x s))
      else call (SurfaceInactivationRequested x) s)"

definition changeFocusState ::
  "nat \<Rightarrow> 'a caller \<Rightarrow> 16 word \<Rightarrow> bool \<Rightarrow> sid \<Rightarrow> 'a fstate_scheme \<Rightarrow> 'a fstate_scheme result" where
  "changeFocusState n call st v x s =
     (let old = hasFocusCapability (wrappers s x);
          s = mod_wrapper (\<lambda>w. w\<lparr>sw_focusStates := setFlag (sw_focusStates w) st v\<rparr>) x s;
          new = hasFocusCapability (wrappers s x) in
      if old = new then Inr s
      else
        let s = emit (HasFocusCapabilityChanged x) s in
        rbind (if sw_type (wrappers s x) = XdgPopup
               then Inr (if new then givePopupFocus x s else s)
               else if sw_type (wrappers s x) = Layer
               then (if new
                     then (if layerTakesFocus s x
                           then rbind (call (CancelShowDesktop None) s) (requestKeyboardFocus n (Some x) None)
                           else Inr s)
                     else call (SurfaceInactivationRequested x) s)
               else Inr s) (\<lambda>s.
        rfold (onActivatedSurfaceFocusCapabilityChanged n)
          (map fst (filter (\<lambda>e. ss_activated (snd e) = Some x) (seatContainers s))) s))"

definition inactivateOnSeat ::
  "nat \<Rightarrow> 'a caller \<Rightarrow> sid \<Rightarrow> nat \<Rightarrow> 'a fstate_scheme \<Rightarrow> 'a fstate_scheme result" where
  "inactivateOnSeat n call x k s =
     rbind (deref (getSeatContainer s k)) (\<lambda>m.
     if ss_keyboardFocus m = Some x
     then
       rbind (call (SetActivatedSurface None (Some k) True) s) (\<lambda>s.
       rbind (if Some k = primarySeat s
              then rbind (deref (current s)) (\<lambda>c.
                call (ActivateSurface (latestActiveSurface c) (Some k) False) s)
              else requestKeyboardFocus n None (Some k) s) (\<lambda>s.
       rbind (deref (getSeatContainer s k)) (\<lambda>m.
         if ss_keyboardFocus m = Some x then requestKeyboardFocus n None (Some k) s else Inr s)))
     else if ss_activated m = Some x then call (SetActivatedSurface None (Some k) True) s
     else Inr s)"

definition onSurfaceInactivationRequested ::
  "nat \<Rightarrow> 'a caller \<Rightarrow> sid \<Rightarrow> 'a fstate_scheme \<Rightarrow> 'a fstate_scheme result" where
  "onSurfaceInactivationRequested n call x s =
     rbind (if sw_type (wrappers s x) \<noteq> Layer then removeActivedSurface x s else Inr s) (\<lambda>s.
       rfold (inactivateOnSeat n call x) (seats s) s)"

primrec perform :: "nat \<Rightarrow> 'a caller" where
  "perform 0 = (\<lambda>r s. Inl OutOfFuel)"
| "perform (Suc n) = (\<lambda>r s.
     case r of
       ActivateSurface x seat raise \<Rightarrow> activateSurface n (perform n) x seat raise s
     | SetActivatedSurface x seat raise \<Rightarrow> setActivatedSurface (perform n) x seat raise s
     | CancelShowDesktop exclude \<Rightarrow> cancelShowDesktop (perform n) exclude s
     | Minimize onAnim x \<Rightarrow> minimize n (perform n) onAnim x s
     | ChangeActiveState st v x \<Rightarrow> changeActiveState (perform n) st v x s
     | ChangeFocusState st v x \<Rightarrow> changeFocusState n (perform n) st v x s
     | SurfaceInactivationRequested x \<Rightarrow> onSurfaceInactivationRequested n (perform n) x s)"

section \<open>Restoring and forced activation\<close>

fun restoreFromMinimized :: "nat \<Rightarrow> bool \<Rightarrow> sid \<Rightarrow> 'a fstate_scheme \<Rightarrow> 'a fstate_scheme result" where
  "restoreFromMinimized 0 onAnim x s = Inl OutOfFuel"
| "restoreFromMinimized (Suc n) onAnim x s =
     (if sw_aboutToRemove (wrappers s x) then Inr s
      else if \<not> sw_minimized (wrappers s x) \<and> sw_hideByshowDesk (wrappers s x) then Inr s
      else
        let s = (if \<not> sw_hideByshowDesk (wrappers s x) then setHideByShowDesk True x s else s);
            s = mod_wrapper (\<lambda>w. w\<lparr>sw_minimized := False\<rparr>) x s in
        rbind (if \<not> sw_shellSurface (wrappers s x) then Inr (updateVisible x s)
               else
                 rbind (case (if sw_modal (wrappers s x) then sw_parentSurface (wrappers s x) else None) of
                          None \<Rightarrow> Inr s
                        | Some p \<Rightarrow> if sw_minimized (wrappers s p) then restoreFromMinimized n False p s
                                   else Inr s) (\<lambda>s.
                 rbind (perform n (ChangeFocusState UnMinimized True x) s) (\<lambda>s.
                 rbind (perform n (ChangeActiveState UnMinimized True x) s) (\<lambda>s.
                 let s = updateVisible x (emit (ShellSetMinimize x False) s) in
                 rfold (\<lambda>c s. if sw_minimized (wrappers s c) then restoreFromMinimized n False c s
                               else Inr s) (sw_subSurfaces (wrappers s x)) s)))) (\<lambda>s.
        Inr (if onAnim then emit (StartMinimizeAnimation x True) s else s)))"

definition restoreFromShowDesktop ::
  "nat \<Rightarrow> sid option \<Rightarrow> 'a fstate_scheme \<Rightarrow> 'a fstate_scheme result" where
  "restoreFromShowDesktop n active s =
     (if \<not> desktopShown s then Inr s
      else
        rbind (perform n (CancelShowDesktop active) s) (\<lambda>s.
        rbind (case active of None \<Rightarrow> Inr s | Some x \<Rightarrow> restoreFromMinimized n True x s) (\<lambda>s.
        Inr (restoreShowDesktopFocus s))))"

definition forceModal ::
  "nat \<Rightarrow> bool \<Rightarrow> sid \<Rightarrow> 'a fstate_scheme \<Rightarrow> (sid \<times> 'a fstate_scheme) result" where
  "forceModal n restoreAnimation x s =
     rbind (findModal n (wrappers s) x) (\<lambda>modal.
       case modal of
         None \<Rightarrow> Inr (x, s)
       | Some m \<Rightarrow>
           if m = x then Inr (x, s)
           else
             rbind (if sw_workspaceId (wrappers s m) \<noteq> sw_workspaceId (wrappers s x)
                       \<and> sw_workspaceId (wrappers s x) \<noteq> - 1
                    then moveSurfaceTo n m (sw_workspaceId (wrappers s x)) s else Inr s) (\<lambda>s.
             rbind (if sw_minimized (wrappers s x) then restoreFromMinimized n restoreAnimation x s
                    else Inr s) (\<lambda>s.
               Inr (m, emit (StackToLast x) s))))"

text \<open>\<open>tab\<close>: the reason is \<^verbatim>\<open>TabFocusReason\<close> or \<^verbatim>\<open>BacktabFocusReason\<close>.\<close>

definition forceActivateSurface ::
  "nat \<Rightarrow> sid option \<Rightarrow> bool \<Rightarrow> nat option \<Rightarrow> 'a fstate_scheme \<Rightarrow> 'a fstate_scheme result" where
  "forceActivateSurface n wrapper tab seat s =
     (case wrapper of
        None \<Rightarrow> Inr s
      | Some x \<Rightarrow>
          if \<not> sw_shellSurface (wrappers s x) then Inr s
          else
            rbind (forceModal n (\<not> tab) x s) (\<lambda>(x, s).
            rbind (restoreFromShowDesktop n (Some x) s) (\<lambda>s.
            rbind (if sw_minimized (wrappers s x) then restoreFromMinimized n (\<not> tab) x s else Inr s) (\<lambda>s.
            if \<not> sw_mapped (wrappers s x) then Inr s
            else
              rbind (deref (current s)) (\<lambda>c.
              rbind (if \<not> showOnWorkspace (wrappers s x) (m_id c)
                     then switchTo (\<lambda>y. perform n (ActivateSurface y None True))
                            (modelIndexOfSurface s x) True s
                     else Inr s) (\<lambda>s.
              perform n (ActivateSurface (Some x) seat True) s))))))"

section \<open>Showing the desktop\<close>

datatype desktop_state = DesktopNormal | DesktopShow

definition focusDesktop :: "nat \<Rightarrow> nat \<Rightarrow> 'a fstate_scheme \<Rightarrow> 'a fstate_scheme result" where
  "focusDesktop n k s =
     (if getSeatContainer s k = None then Inr s
      else requestKeyboardFocus n (desktopLayer s) (Some k) (dismissPopups k s))"

definition onShowDesktop :: "nat \<Rightarrow> desktop_state \<Rightarrow> 'a fstate_scheme \<Rightarrow> 'a fstate_scheme result" where
  "onShowDesktop n st s =
     (if desktopShown s = (st = DesktopShow) then Inr s
      else
        let s = emit ShowDesktopStateChanged (s\<lparr>desktopShown := (st = DesktopShow)\<rparr>) in
        rbind (workspaceSurfaces s) (\<lambda>xs.
        let s = fold (\<lambda>x s. if sw_minimized (wrappers s x) then s
                            else emit (StartShowDesktopAnimation x (st = DesktopNormal))
                                   (setHideByShowDesk (st = DesktopNormal) x s)) xs s in
        if st = DesktopShow then rfold (focusDesktop n) (seats s) s
        else Inr (restoreShowDesktopFocus s)))"

section \<open>Slots of the shell handler\<close>

definition loseKeyboardOnSeat :: "nat \<Rightarrow> sid \<Rightarrow> nat \<Rightarrow> 'a fstate_scheme \<Rightarrow> 'a fstate_scheme result" where
  "loseKeyboardOnSeat n x k s =
     (case getSeatContainer s k of
        None \<Rightarrow> Inr s
      | Some m \<Rightarrow>
          let isActivated = (ss_activated m = Some x); hasKeyboardFocus = (ss_keyboardFocus m = Some x) in
          if \<not> isActivated \<and> \<not> hasKeyboardFocus then Inr s
          else if Some k \<noteq> primarySeat s
          then
            rbind (if isActivated then perform n (SetActivatedSurface None (Some k) True) s else Inr s) (\<lambda>s.
              if hasKeyboardFocus then requestKeyboardFocus n None (Some k) s else Inr s)
          else
            rbind (case ss_keyboardFocus m of
                     Some f \<Rightarrow> if f = x \<or> \<not> acceptKeyboardFocus (wrappers s f)
                               then rbind (deref (current s)) (\<lambda>c. Inr (latestActiveSurface c))
                               else Inr (Some f)
                   | None \<Rightarrow> rbind (deref (current s)) (\<lambda>c. Inr (latestActiveSurface c))) (\<lambda>fallback.
            let fallback = (case fallback of
                              Some f \<Rightarrow> if acceptKeyboardFocus (wrappers s f) then Some f else None
                            | None \<Rightarrow> None) in
            if isActivated then perform n (ActivateSurface fallback (Some k) False) s
            else requestKeyboardFocus n fallback (Some k) s))"

definition setAcceptKeyboardFocus ::
  "nat \<Rightarrow> bool \<Rightarrow> sid \<Rightarrow> 'a fstate_scheme \<Rightarrow> 'a fstate_scheme result" where
  "setAcceptKeyboardFocus n accept x s =
     (if acceptKeyboardFocus (wrappers s x) = accept then Inr s
      else perform n (ChangeFocusState AcceptKeyboardFocus accept x) s)"

definition updateSurfaceAcceptKeyboardFocus ::
  "nat \<Rightarrow> sid \<Rightarrow> bool \<Rightarrow> 'a fstate_scheme \<Rightarrow> 'a fstate_scheme result" where
  "updateSurfaceAcceptKeyboardFocus n x accept s =
     (if accept then setAcceptKeyboardFocus n True x s
      else
        rbind (if sw_type (wrappers s x) \<noteq> Layer \<and> sw_workspaceId (wrappers s x) \<noteq> - 1
               then removeActivedSurface x s else Inr s) (\<lambda>s.
        rbind (rfold (loseKeyboardOnSeat n x) (seats s) s) (setAcceptKeyboardFocus n False x)))"

text \<open>The last part of \<^verbatim>\<open>setupSurfaceActiveWatcher\<close>: a window that can be active already.\<close>

definition setupSurfaceActiveWatcher ::
  "nat \<Rightarrow> sid \<Rightarrow> 'a fstate_scheme \<Rightarrow> 'a fstate_scheme result" where
  "setupSurfaceActiveWatcher n x s =
     rbind (qassert (sw_container (wrappers s x) \<noteq> None)) (\<lambda>_.
       if \<not> watched (wrappers s x) then Inr s
       else if hasActiveCapability (wrappers s x) \<and> acceptKeyboardFocus (wrappers s x)
       then rbind (deref (current s)) (\<lambda>c.
              if showOnWorkspace (wrappers s x) (m_id c) then perform n (ActivateSurface (Some x) None True) s
              else pushActivedSurface x s)
       else Inr s)"

section \<open>Activation requests of clients\<close>

definition getLastInteractingSeat :: "'a fstate_scheme \<Rightarrow> sid option \<Rightarrow> nat option" where
  "getLastInteractingSeat s x =
     (case x of
        None \<Rightarrow> None
      | Some y \<Rightarrow> (case lastInteractingSeat s y of
                    None \<Rightarrow> None
                  | Some k \<Rightarrow> if k \<in> set (seats s) then Some k else None))"

definition updateSurfaceSeatInteraction ::
  "sid option \<Rightarrow> nat option \<Rightarrow> 'a fstate_scheme \<Rightarrow> 'a fstate_scheme" where
  "updateSurfaceSeatInteraction x seat s =
     (case (x, seat) of
        (Some y, Some k) \<Rightarrow>
          emit (UpdateInteraction y k) (s\<lparr>lastInteractingSeat := (lastInteractingSeat s)(y := Some k)\<rparr>)
      | _ \<Rightarrow> s)"

text \<open>\<open>kb\<close> and \<open>ptr\<close> are the surfaces the seat itself has the keyboard and the pointer on;
  \<open>valid\<close> is \<^verbatim>\<open>seat->isValid()\<close>. The surface is \<open>None\<close> when no wrapper has it.\<close>

definition canTransferActivation ::
  "bool \<Rightarrow> sid option \<Rightarrow> sid option \<Rightarrow> 'a fstate_scheme \<Rightarrow> sid option \<Rightarrow> nat option \<Rightarrow> bool" where
  "canTransferActivation valid kb ptr s surface seat =
     (case (seat, surface) of
        (Some k, Some x) \<Rightarrow>
          valid \<and> (kb = Some x \<or> ptr = Some x
                    \<or> sw_isActivated (wrappers s x) \<and> getLastInteractingSeat s (Some x) = Some k)
      | _ \<Rightarrow> False)"

datatype disposition = Active | Attention | Invalid

text \<open>The window transition: \<open>pending\<close> tells whether a rectangle waits under the request's token,
  \<open>origin\<close> is the originating surface, if there is one, with its wrapper, if it has one.\<close>

definition windowTransition ::
  "bool \<Rightarrow> sid option option \<Rightarrow> sid \<Rightarrow> 'a fstate_scheme \<Rightarrow> 'a fstate_scheme" where
  "windowTransition pending origin x s =
     (if \<not> pending then s
      else case origin of
             None \<Rightarrow> emit DiscardPendingRect s
           | Some originWrapper \<Rightarrow>
               if sw_mapped (wrappers s x) then emit DiscardPendingRect s
               else case originWrapper of
                      Some w \<Rightarrow> emit (AssociatePendingRect x w) s
                    | None \<Rightarrow> emit DiscardPendingRect s)"

definition onActivationRequested ::
  "nat \<Rightarrow> bool \<Rightarrow> sid option option \<Rightarrow> disposition \<Rightarrow> sid option \<Rightarrow> nat option \<Rightarrow>
   'a fstate_scheme \<Rightarrow> 'a fstate_scheme result" where
  "onActivationRequested n pending origin d surface seat s =
     (case surface of
        None \<Rightarrow> Inr s
      | Some x \<Rightarrow>
          let s = windowTransition pending origin x s in
          if \<not> sw_mapped (wrappers s x)
          then Inr (if d = Active then s\<lparr>pendingActivation := (pendingActivation s)(x := Some seat)\<rparr> else s)
          else if \<not> hasInitializeContainer (wrappers s x) then Inr s
          else (case d of
                  Active \<Rightarrow> forceActivateSurface n (Some x) False seat s
                | Attention \<Rightarrow> Inr (snd (setAttention True x s))
                | Invalid \<Rightarrow> Inr (snd (setAttention True x s))))"

definition onRenderWindowActiveFocusItemChanged :: "bool \<Rightarrow> 'a fstate_scheme \<Rightarrow> 'a fstate_scheme" where
  "onRenderWindowActiveFocusItemChanged onSurface s =
     (if onSurface then s
      else fold (\<lambda>k s. case getSeatContainer s k of
                         None \<Rightarrow> s
                       | Some m \<Rightarrow> if ss_keyboardFocus m = None then s
                                  else ssm_setKeyboardFocusSurface k None s) (seats s) s)"

end
