(* ===== verification/Focus_Activation.thy ===== *)
theory Focus_Activation
  imports Focus
begin

text \<open>
  The properties of activation: what \<^verbatim>\<open>FocusController::activateSurface\<close> does to the seats, to the
  windows and to the activation history, and when it refuses. The theory provides the
  activation that \<open>Workspace_Switch\<close> relies on: the locale \<open>focus_provider\<close> is interpreted here.
\<close>

section \<open>What activation leaves alone\<close>

text \<open>Activating changes two fields of a window.\<close>

definition calm :: "swrapper \<Rightarrow> swrapper" where
  "calm w = w\<lparr>sw_isActivated := False, sw_attention := False\<rparr>"

lemma calm_eqD:
  assumes "calm v = calm w"
  shows "sw_type v = sw_type w" "sw_workspaceId v = sw_workspaceId w" "plain v = plain w"
    "hasActiveCapability v = hasActiveCapability w" "hasFocusCapability v = hasFocusCapability w"
    "acceptKeyboardFocus v = acceptKeyboardFocus w" "showOnWorkspace v i = showOnWorkspace w i"
    "sw_aboutToRemove v = sw_aboutToRemove w" "sw_hideByWorkspace v = sw_hideByWorkspace w"
    "showOnAllWorkspace v = showOnAllWorkspace w" "sw_shellSurface v = sw_shellSurface w"
    "sw_subSurfaces v = sw_subSurfaces w" "sw_mapped v = sw_mapped w" "sw_modal v = sw_modal w"
  using assms by (cases v; cases w; simp add: calm_def plain_def hasActiveCapability_def
      hasFocusCapability_def acceptKeyboardFocus_def showOnWorkspace_def showOnAllWorkspace_def
      isInputPopupLike_def)+

text \<open>The state of the seats and of the workspaces behind the scene.\<close>

lemma more_focusD:
  fixes s t :: "'a fstate_scheme"
  assumes "wstate.more t = wstate.more s"
  shows "rootPresent t = rootPresent s" "seats t = seats s" "fallbackSeat t = fallbackSeat s"
    "primarySeat t = primarySeat s" "seatContainers t = seatContainers s"
    "blockActivate t = blockActivate s" "desktopShown t = desktopShown s"
    "focusPriority t = focusPriority s" "popupSeat t = popupSeat s" "bypassManager t = bypassManager s"
    "getSeatContainer t k = getSeatContainer s k"
  using assms by (cases s; cases t; simp add: getSeatContainer_def)+

lemma scene_more_wstate:
  fixes s t :: "'a wstate_scheme"
  shows "scene.more t = scene.more s \<Longrightarrow> wstate.more t = wstate.more s"
  by (cases s; cases t) simp

lemma pushActivedSurface_more:
  "pushActivedSurface x s = Inr t \<Longrightarrow> wstate.more t = wstate.more s"
  by (auto simp: pushActivedSurface_def Let_def on_model_def rbind_Inr_iff put_model_def pure_op_def
      split: if_splits)

text \<open>\<open>calm_step s t\<close>: the scene changed only by activation states, the workspaces and seats not.\<close>

definition calm_step :: "'a fstate_scheme \<Rightarrow> 'a fstate_scheme \<Rightarrow> bool" where
  "calm_step s t =
     (scene.more t = scene.more s \<and> (\<forall>y. calm (wrappers t y) = calm (wrappers s y)))"

lemma calm_step_refl [simp]: "calm_step s s"
  by (simp add: calm_step_def)

lemma calm_step_trans: "calm_step s t \<Longrightarrow> calm_step t u \<Longrightarrow> calm_step s u"
  by (simp add: calm_step_def)

lemma calm_step_emit [simp]: "calm_step s (emit e t) = calm_step s t"
  by (simp add: calm_step_def)

lemma setActivate_step:
  assumes "on \<Longrightarrow> hasActiveCapability (wrappers s x)"
  obtains t where "setActivate on x s = Inr t" "calm_step s t"
    "\<forall>y. sw_isActivated (wrappers t y) =
       (if y = x \<and> \<not> sw_aboutToRemove (wrappers s x) then on else sw_isActivated (wrappers s y))"
proof -
  have "\<not> on \<or> hasActiveCapability (wrappers s x)" using assms by blast
  then have "\<exists>t. setActivate on x s = Inr t" by (simp add: setActivate_def Let_def)
  then obtain t where t: "setActivate on x s = Inr t" ..
  have "calm (wrappers t y) = calm (wrappers s y)" for y
    using t by (auto simp: setActivate_def Let_def rbind_Inr_iff calm_def split: if_splits)
  then have "calm_step s t" using more_setActivate [OF t] by (simp add: calm_step_def)
  moreover have "sw_isActivated (wrappers t y) =
       (if y = x \<and> \<not> sw_aboutToRemove (wrappers s x) then on else sw_isActivated (wrappers s y))" for y
    using t by (auto simp: setActivate_def Let_def rbind_Inr_iff split: if_splits)
  ultimately show thesis using that t by blast
qed

lemma calm_stepD:
  fixes s t :: "'a fstate_scheme"
  assumes "calm_step s t"
  shows "calm (wrappers t y) = calm (wrappers s y)" "wstate.more t = wstate.more s"
    "models t = models s" "allModel t = allModel s" "currentIndex t = currentIndex s"
    "containers t = containers s" "ws_cid t = ws_cid s" "globalWorkspaceId t = globalWorkspaceId s"
    "primaryOutput t = primaryOutput s" "multitaskview t = multitaskview s"
  using assms more_eqD [of t s] scene_more_wstate [of t s] by (simp_all add: calm_step_def)

lemma calm_step_inv:
  assumes "calm_step s t" "ws_inv s"
  shows "ws_inv t"
  by (rule ws_inv_cong [OF assms(2)])
    (simp_all add: calm_stepD [OF assms(1)] calm_eqD [OF calm_stepD(1) [OF assms(1)]])

lemma calm_step_settled: "calm_step s t \<Longrightarrow> ws_settled s \<Longrightarrow> ws_settled t"
  by (rule ws_settled_cong [of s]) (simp_all add: calm_stepD calm_eqD [OF calm_stepD(1)])

text \<open>\<open>act_step s t\<close>: what a whole activation may do: activation states, histories and seats.\<close>

definition act_step :: "'a fstate_scheme \<Rightarrow> 'a fstate_scheme \<Rightarrow> bool" where
  "act_step s t =
     (list_frame s t \<and> (\<forall>y. calm (wrappers t y) = calm (wrappers s y))
      \<and> map m_surfaces (all_models t) = map m_surfaces (all_models s)
      \<and> rootPresent t = rootPresent s \<and> seats t = seats s \<and> fallbackSeat t = fallbackSeat s
      \<and> primarySeat t = primarySeat s \<and> blockActivate t = blockActivate s
      \<and> desktopShown t = desktopShown s \<and> focusPriority t = focusPriority s \<and> popupSeat t = popupSeat s
      \<and> bypassManager t = bypassManager s \<and> (ws_inv s \<longrightarrow> ws_inv t) \<and> (ws_settled s \<longrightarrow> ws_settled t))"

lemma act_step_refl [simp]: "act_step s s"
  by (simp add: act_step_def)

lemma act_step_trans: "act_step s t \<Longrightarrow> act_step t u \<Longrightarrow> act_step s u"
  using list_frame_trans [of s t u] by (simp add: act_step_def)

lemma calm_act: "calm_step s t \<Longrightarrow> act_step s t"
  using calm_step_inv [of s t] calm_step_settled [of s t]
  by (simp add: act_step_def list_frame_def calm_stepD more_focusD [OF calm_stepD(2)])

lemma seat_act:
  assumes "seat_frame s t"
  shows "act_step s t"
proof -
  note f = seat_frameD [OF assms]
  have "ws_inv s \<Longrightarrow> ws_inv t" by (rule ws_inv_cong) (simp_all add: f)
  moreover have "ws_settled s \<Longrightarrow> ws_settled t" by (rule ws_settled_cong) (simp_all add: f)
  ultimately show ?thesis by (simp add: act_step_def list_frame_def f)
qed

lemma push_act:
  fixes s :: "'a fstate_scheme"
  assumes "ws_inv s" "sw_workspaceId (wrappers s x) \<noteq> - 1"
  obtains t where "pushActivedSurface x s = Inr t" "act_step s t" "wstate.more t = wstate.more s"
    "wrappers t = wrappers s"
    "\<forall>c. current s = Some c \<longrightarrow> history_scope s x c \<longrightarrow>
       (\<exists>d. current t = Some d \<and> m_id d = m_id c \<and> m_history d = x # removeAll x (m_history c))"
proof -
  from pushActivedSurface_spec [OF assms] obtain t where t: "pushActivedSurface x s = Inr t"
    "hist_only s t (\<lambda>k. if history_scope s x k then x # removeAll x (m_history k) else m_history k)" by blast
  note more = pushActivedSurface_more [OF t(1)]
  have fr: "ws_frame s t" by (rule hist_only_frame [OF t(2)])
  have m: "models t = map (\<lambda>k. k\<lparr>m_history :=
       (if history_scope s x k then x # removeAll x (m_history k) else m_history k)\<rparr>) (models s)"
    and a: "map m_surfaces (all_models t) = map m_surfaces (all_models s)"
    and w: "wrappers t = wrappers s" and i: "currentIndex t = currentIndex s"
    using t(2) by (simp_all add: hist_only_def comp_def)
  have "act_step s t"
    using fr a w hist_only_inv [OF t(2)] hist_only_settled [OF t(2)]
    unfolding act_step_def by (simp add: list_frame_def ws_frame_def more_focusD [OF more])
  moreover have "\<exists>d. current t = Some d \<and> m_id d = m_id c \<and> m_history d = x # removeAll x (m_history c)"
    if "current s = Some c" "history_scope s x c" for c
    using that m i by (auto simp: current_def modelAt_def ws_count_def split: if_splits)
  ultimately show thesis using that t(1) more w by blast
qed

section \<open>Activating a window\<close>

text \<open>A window of the current workspace that can be active and have the keyboard.\<close>

definition ready :: "'a fstate_scheme \<Rightarrow> sid \<Rightarrow> bool" where
  "ready s x =
     (sw_workspaceId (wrappers s x) \<noteq> - 1
      \<and> (case current s of None \<Rightarrow> False | Some c \<Rightarrow> showOnWorkspace (wrappers s x) (m_id c))
      \<and> hasActiveCapability (wrappers s x) \<and> hasFocusCapability (wrappers s x)
      \<and> \<not> sw_aboutToRemove (wrappers s x) \<and> \<not> bypassManager s x)"

lemma readyE:
  assumes "ready s x"
  obtains c where "current s = Some c" "showOnWorkspace (wrappers s x) (m_id c)"
    "sw_workspaceId (wrappers s x) \<noteq> - 1" "hasActiveCapability (wrappers s x)"
    "hasFocusCapability (wrappers s x)" "\<not> sw_aboutToRemove (wrappers s x)" "\<not> bypassManager s x"
  using assms by (auto simp: ready_def split: option.splits)

lemma focus_accepts: "hasFocusCapability w \<Longrightarrow> acceptKeyboardFocus w"
  by (simp add: hasFocusCapability_def acceptKeyboardFocus_def testFlag_def FullStates_def
      AcceptKeyboardFocus_def)

lemma history_scope_current:
  assumes "ws_inv s" "sw_workspaceId (wrappers s x) \<noteq> - 1" "showOnWorkspace (wrappers s x) (m_id c)"
  shows "history_scope s x c"
  using assms by (auto simp: history_scope_def showOnWorkspace_def split: if_splits)

lemma raise_step:
  assumes "\<not> bypassManager s x"
  obtains t where "(if raise then raiseActivated x s else Inr s) = Inr t" "calm_step s t" "wrappers t = wrappers s"
proof (cases raise)
  case True
  have "bypassManager (emit e s) = bypassManager s" for e by (simp add: emit_def)
  then have "\<exists>t. raiseActivated x s = Inr t \<and> calm_step s t \<and> wrappers t = wrappers s"
    using assms by (simp add: raiseActivated_def Let_def)
  with True that show thesis by auto
qed (use that in auto)

lemma mono_current: "calm_step s t \<Longrightarrow> current t = current s"
  by (simp add: current_def modelAt_def ws_count_def calm_stepD)

lemma seat_frame_current: "seat_frame s t \<Longrightarrow> current t = current s"
  by (simp add: current_def modelAt_def ws_count_def seat_frameD)

text \<open>The new active window is recorded in the seat, in the history and, on the primary seat,
  in the window itself.\<close>

lemma activateNew_step:
  fixes s :: "'a fstate_scheme"
  assumes inv: "ws_inv s" and r: "ready s x" and nd: "\<not> desktopShown s"
    and m: "getSeatContainer s k = Some m" and c: "current s = Some c"
  obtains t d where "activateNew call k x prim raise s = Inr t" "act_step s t"
    "\<forall>j. getSeatContainer t j = (if j = k then Some (m\<lparr>ss_activated := Some x\<rparr>) else getSeatContainer s j)"
    "current t = Some d" "m_id d = m_id c" "m_history d = x # removeAll x (m_history c)"
    "\<forall>y. sw_isActivated (wrappers t y) = (if y = x \<and> prim then True else sw_isActivated (wrappers s y))"
proof -
  from r c have w: "showOnWorkspace (wrappers s x) (m_id c)" "sw_workspaceId (wrappers s x) \<noteq> - 1"
    "hasActiveCapability (wrappers s x)" "hasFocusCapability (wrappers s x)"
    "\<not> sw_aboutToRemove (wrappers s x)" "\<not> bypassManager s x" by (auto simp: ready_def)
  obtain s1 where s1: "(if raise then raiseActivated x s else Inr s) = Inr s1" "calm_step s s1"
    "wrappers s1 = wrappers s" by (rule raise_step [OF w(6)])
  have inv1: "ws_inv s1" by (rule calm_step_inv [OF s1(2) inv])
  note more1 = more_focusD [OF calm_stepD(2) [OF s1(2)]]
  have "sw_workspaceId (wrappers s1 x) \<noteq> - 1" using w(2) s1(3) by simp
  then obtain s2 where s2: "pushActivedSurface x s1 = Inr s2" "act_step s1 s2"
    "wstate.more s2 = wstate.more s1" "wrappers s2 = wrappers s1"
    "\<forall>c. current s1 = Some c \<longrightarrow> history_scope s1 x c \<longrightarrow>
       (\<exists>d. current s2 = Some d \<and> m_id d = m_id c \<and> m_history d = x # removeAll x (m_history c))"
    by (rule push_act [OF inv1])
  have "history_scope s1 x c" using w(1,2) s1(3) by (intro history_scope_current [OF inv1]) simp_all
  then obtain d where d: "current s2 = Some d" "m_id d = m_id c" "m_history d = x # removeAll x (m_history c)"
    using s2(5) c mono_current [OF s1(2)] by auto
  define s3 where "s3 = ssm_setActivatedSurface k (Some x) s2"
  have fr3: "seat_frame s2 s3" by (simp add: s3_def)
  have eq3: "wrappers s3 = wrappers s" using seat_frameD(1) [OF fr3] s2(4) s1(3) by simp
  have g3: "getSeatContainer s3 j = (if j = k then Some (m\<lparr>ss_activated := Some x\<rparr>) else getSeatContainer s j)" for j
    using m s2(4) s1(3) focus_accepts [OF w(4)]
    by (simp add: s3_def setActivated_seats more_focusD [OF s2(3)] more1)
  have a3: "act_step s s3"
    using act_step_trans [OF act_step_trans [OF calm_act [OF s1(2)] s2(2)] seat_act [OF fr3]] .
  have cap3: "hasActiveCapability (wrappers s3 x)" using w(3) eq3 by simp
  obtain t where t: "(if prim then setActivate True x s3 else Inr s3) = Inr t" "calm_step s3 t"
    "\<forall>y. sw_isActivated (wrappers t y) = (if y = x \<and> prim then True else sw_isActivated (wrappers s y))"
  proof (cases prim)
    case True
    obtain t where "setActivate True x s3 = Inr t" "calm_step s3 t"
      "\<forall>y. sw_isActivated (wrappers t y) =
         (if y = x \<and> \<not> sw_aboutToRemove (wrappers s3 x) then True else sw_isActivated (wrappers s3 y))"
      by (rule setActivate_step [of True s3 x]) (use cap3 in simp_all)
    with True w(5) eq3 that show thesis by simp
  qed (use that eq3 in simp)
  have "activateNew call k x prim raise s = (if prim then setActivate True x s3 else Inr s3)"
    using c w(1,3) s1 s2(1,4) nd more1(7) cap3
    by (simp add: activateNew_def Let_def s3_def [symmetric])
  moreover have "current t = Some d"
    using d(1) mono_current [OF t(2)] seat_frame_current [OF fr3] by simp
  moreover have "getSeatContainer t j = getSeatContainer s3 j" for j
    using more_focusD(11) [OF calm_stepD(2) [OF t(2)]] .
  ultimately show thesis
    using that [of t d] t(1,3) act_step_trans [OF a3 calm_act [OF t(2)]] d(2,3) g3 by simp
qed

lemma calm_ready: "calm_step s t \<Longrightarrow> ready t x = ready s x"
  by (simp add: ready_def mono_current calm_eqD [OF calm_stepD(1)] more_focusD [OF calm_stepD(2)]
      split: option.splits)

lemma seat_given:
  "getSeatContainer s k = Some m \<Longrightarrow> getSeatContainerOrDefault s (Some k) = Some k"
  by (simp add: getSeatContainerOrDefault_def)

lemma activatedSurface_primary:
  "rootPresent s \<Longrightarrow> primarySeat s = Some k \<Longrightarrow> getSeatContainer s k = Some m \<Longrightarrow>
   activatedSurface s = ss_activated m"
  by (simp add: activatedSurface_def seat_given)

text \<open>Who counts as active after the active window of seat \<open>k\<close>, whose manager was \<open>m\<close>, became \<open>x\<close>.\<close>

definition active_after :: "'a fstate_scheme \<Rightarrow> nat \<Rightarrow> seat_mgr \<Rightarrow> sid option \<Rightarrow> sid \<Rightarrow> bool" where
  "active_after s k m x y =
     (if ss_activated m = x \<or> primarySeat s \<noteq> Some k then sw_isActivated (wrappers s y)
      else x = Some y
        \<or> sw_isActivated (wrappers s y) \<and> (ss_activated m \<noteq> Some y \<or> sw_aboutToRemove (wrappers s y)))"

lemma deactivate_old:
  fixes s :: "'a fstate_scheme"
  assumes "rootPresent s" "getSeatContainer s k = Some m"
  obtains t where
    "(case if Some k = primarySeat s then activatedSurface s else None of
        None \<Rightarrow> Inr s | Some z \<Rightarrow> setActivate False z s) = Inr t" "calm_step s t"
    "\<forall>y. sw_isActivated (wrappers t y) =
       (sw_isActivated (wrappers s y)
        \<and> (primarySeat s = Some k \<longrightarrow> ss_activated m \<noteq> Some y \<or> sw_aboutToRemove (wrappers s y)))"
proof (cases "primarySeat s = Some k \<and> ss_activated m \<noteq> None")
  case True
  then obtain z where z: "ss_activated m = Some z" by blast
  obtain t where t: "setActivate False z s = Inr t" "calm_step s t"
    "\<forall>y. sw_isActivated (wrappers t y) =
       (if y = z \<and> \<not> sw_aboutToRemove (wrappers s z) then False else sw_isActivated (wrappers s y))"
    by (rule setActivate_step [of False s z]) simp_all
  show thesis
  proof (rule that [OF _ t(2)])
    show "(case if Some k = primarySeat s then activatedSurface s else None of
        None \<Rightarrow> Inr s | Some z \<Rightarrow> setActivate False z s) = Inr t"
      using True z t(1) activatedSurface_primary [OF assms(1) _ assms(2)] by simp
  qed (use True z t(3) in auto)
next
  case False
  with that [of s] activatedSurface_primary [OF assms(1) _ assms(2)] show thesis by (auto split: option.splits)
qed

lemma setActivatedSurface_step:
  fixes s :: "'a fstate_scheme"
  assumes inv: "ws_inv s" and r: "ready s x" and nd: "\<not> desktopShown s" and rp: "rootPresent s"
    and seat: "opt_seat seat s = Some k" and m: "getSeatContainer s k = Some m" and c: "current s = Some c"
  obtains t where "setActivatedSurface call (Some x) seat raise s = Inr t" "act_step s t"
    "\<forall>j. getSeatContainer t j = (if j = k then Some (m\<lparr>ss_activated := Some x\<rparr>) else getSeatContainer s j)"
    "ss_activated m \<noteq> Some x \<longrightarrow>
       (\<exists>d. current t = Some d \<and> m_id d = m_id c \<and> m_history d = x # removeAll x (m_history c))"
    "\<forall>y. sw_isActivated (wrappers t y) = active_after s k m (Some x) y"
proof (cases "ss_activated m = Some x")
  case True
  then have "setActivatedSurface call (Some x) seat raise s = Inr s"
    using rp seat m by (simp add: setActivatedSurface_def seat_given)
  with that [of s] True m show thesis by (auto simp: active_after_def)
next
  case False
  obtain s1 where s1: "(case if Some k = primarySeat s then activatedSurface s else None of
        None \<Rightarrow> Inr s | Some z \<Rightarrow> setActivate False z s) = Inr s1" "calm_step s s1"
    "\<forall>y. sw_isActivated (wrappers s1 y) = (sw_isActivated (wrappers s y)
        \<and> (primarySeat s = Some k \<longrightarrow> ss_activated m \<noteq> Some y \<or> sw_aboutToRemove (wrappers s y)))"
    by (rule deactivate_old [OF rp m])
  note more1 = more_focusD [OF calm_stepD(2) [OF s1(2)]]
  have "ready s1 x" "\<not> desktopShown s1" "getSeatContainer s1 k = Some m" "current s1 = Some c"
    using r nd m c calm_ready [OF s1(2)] mono_current [OF s1(2)] by (simp_all add: more1)
  then obtain t d where t: "activateNew call k x (Some k = primarySeat s) raise s1 = Inr t" "act_step s1 t"
    "\<forall>j. getSeatContainer t j = (if j = k then Some (m\<lparr>ss_activated := Some x\<rparr>) else getSeatContainer s1 j)"
    "current t = Some d" "m_id d = m_id c" "m_history d = x # removeAll x (m_history c)"
    "\<forall>y. sw_isActivated (wrappers t y) =
       (if y = x \<and> Some k = primarySeat s then True else sw_isActivated (wrappers s1 y))"
    by (rule activateNew_step [OF calm_step_inv [OF s1(2) inv]])
  have "setActivatedSurface call (Some x) seat raise s = Inr t"
    using rp seat m False s1(1) t(1) by (simp add: setActivatedSurface_def seat_given Let_def)
  moreover have "sw_isActivated (wrappers t y) = active_after s k m (Some x) y" for y
    using t(7) s1(3) False by (auto simp: active_after_def)
  ultimately show thesis
    using that [of t] act_step_trans [OF calm_act [OF s1(2)] t(2)] t(3-6) more1(11) by auto
qed

lemma setActivatedSurface_none:
  fixes s :: "'a fstate_scheme"
  assumes rp: "rootPresent s" and seat: "opt_seat seat s = Some k" and m: "getSeatContainer s k = Some m"
  obtains t where "setActivatedSurface call None seat raise s = Inr t" "act_step s t"
    "\<forall>j. getSeatContainer t j = (if j = k then Some (m\<lparr>ss_activated := None\<rparr>) else getSeatContainer s j)"
    "current t = current s" "\<forall>y. sw_isActivated (wrappers t y) = active_after s k m None y"
proof (cases "ss_activated m = None")
  case True
  then have "setActivatedSurface call None seat raise s = Inr s"
    using rp seat m by (simp add: setActivatedSurface_def seat_given)
  with that [of s] True m show thesis by (auto simp: active_after_def)
next
  case False
  obtain s1 where s1: "(case if Some k = primarySeat s then activatedSurface s else None of
        None \<Rightarrow> Inr s | Some z \<Rightarrow> setActivate False z s) = Inr s1" "calm_step s s1"
    "\<forall>y. sw_isActivated (wrappers s1 y) = (sw_isActivated (wrappers s y)
        \<and> (primarySeat s = Some k \<longrightarrow> ss_activated m \<noteq> Some y \<or> sw_aboutToRemove (wrappers s y)))"
    by (rule deactivate_old [OF rp m])
  note more1 = more_focusD [OF calm_stepD(2) [OF s1(2)]]
  define t where "t = ssm_setActivatedSurface k None s1"
  have fr: "seat_frame s1 t" by (simp add: t_def)
  have "setActivatedSurface call None seat raise s = Inr t"
    using rp seat m False s1(1) by (auto simp: setActivatedSurface_def seat_given Let_def t_def)
  moreover have "sw_isActivated (wrappers t y) = active_after s k m None y" for y
    using s1(3) False seat_frameD(1) [OF fr] by (auto simp: active_after_def)
  ultimately show thesis
    using that [of t] act_step_trans [OF calm_act [OF s1(2)] seat_act [OF fr]] m
      seat_frame_current [OF fr] mono_current [OF s1(2)] by (simp add: t_def setActivated_seats more1)
qed

lemma act_stepD:
  assumes "act_step s t"
  shows "calm (wrappers t y) = calm (wrappers s y)" "list_frame s t" "rootPresent t = rootPresent s"
    "seats t = seats s" "primarySeat t = primarySeat s" "blockActivate t = blockActivate s"
    "desktopShown t = desktopShown s" "focusPriority t = focusPriority s" "popupSeat t = popupSeat s"
    "ws_inv s \<Longrightarrow> ws_inv t" "ws_settled s \<Longrightarrow> ws_settled t" "fallbackSeat t = fallbackSeat s"
    "bypassManager t = bypassManager s"
  using assms by (simp_all add: act_step_def)

lemma act_takes_focus: "act_step s t \<Longrightarrow> takes_focus t m x = takes_focus s m x"
  by (simp add: takes_focus_def priority_of_def act_stepD calm_eqD [OF act_stepD(1)] split: option.splits)

lemma opt_seat_cong: "primarySeat t = primarySeat s \<Longrightarrow> opt_seat seat t = opt_seat seat s"
  by (simp add: opt_seat_def split: option.splits)

lemma request_window:
  assumes "hasFocusCapability (wrappers s x)" "sw_type (wrappers s x) \<noteq> XdgPopup" "rootPresent s"
    "opt_seat seat s = Some k" "getSeatContainer s k = Some m"
  shows "requestKeyboardFocus (Suc n) (Some x) seat s = Inr (ssm_setKeyboardFocusSurface k (Some x) s)"
  using assms by (simp add: requestKeyboardFocus_def opt_seat_def)

lemma request_none:
  assumes "rootPresent s" "opt_seat seat s = Some k" "getSeatContainer s k = Some m"
  shows "requestKeyboardFocus n None seat s = Inr (ssm_setKeyboardFocusSurface k None s)"
  using assms by (simp add: requestKeyboardFocus_def opt_seat_def)

text \<open>The window that is activated for \<open>x\<close>: \<open>x\<close> itself, or its modal dialog on the same workspace.\<close>

definition stands_for :: "nat \<Rightarrow> 'a fstate_scheme \<Rightarrow> sid \<Rightarrow> sid \<Rightarrow> bool" where
  "stands_for n s x y =
     (\<not> sw_isIMCandidatePanel (wrappers s x) \<and> acceptKeyboardFocus (wrappers s x)
      \<and> (case findModal n (wrappers s) x of
           Inl _ \<Rightarrow> False
         | Inr None \<Rightarrow> y = x
         | Inr (Some z) \<Rightarrow> z = y \<and> y \<noteq> x \<and> \<not> sw_minimized (wrappers s y)
             \<and> sw_workspaceId (wrappers s y) = sw_workspaceId (wrappers s x)))"

lemma stands_for_cong:
  assumes "wrappers t = wrappers s"
  shows "stands_for n t x y = stands_for n s x y"
  unfolding stands_for_def assms ..

lemma ready_cong:
  assumes "wrappers t = wrappers s" "models t = models s" "currentIndex t = currentIndex s"
    "bypassManager t = bypassManager s"
  shows "ready t x = ready s x"
  unfolding ready_def current_def modelAt_def ws_count_def assms ..

lemma resolveModal_stands:
  assumes "stands_for n s x y"
  obtains t where "resolveModal n x s = Inr (Some y, t)" "calm_step s t" "wrappers t = wrappers s"
proof -
  have "\<exists>t. resolveModal n x s = Inr (Some y, t) \<and> calm_step s t \<and> wrappers t = wrappers s"
    using assms by (auto simp: stands_for_def resolveModal_def split: sum.splits option.splits)
  then show thesis using that by blast
qed

text \<open>At most one window is active: the one of the primary seat.\<close>

definition one_active :: "'a fstate_scheme \<Rightarrow> bool" where
  "one_active s =
     (\<forall>k m y. primarySeat s = Some k \<longrightarrow> getSeatContainer s k = Some m \<longrightarrow>
        sw_isActivated (wrappers s y) \<longrightarrow> \<not> sw_aboutToRemove (wrappers s y) \<longrightarrow> ss_activated m = Some y)"

lemma one_active_after:
  assumes "one_active s" "act_step s t" "getSeatContainer s k = Some m"
    "getSeatContainer t k = Some m'" "ss_activated m' = x"
    "\<forall>j. j \<noteq> k \<longrightarrow> getSeatContainer t j = getSeatContainer s j"
    "\<forall>y. sw_isActivated (wrappers t y) = active_after s k m x y"
  shows "one_active t"
proof -
  have "ss_activated n = Some y"
    if "primarySeat t = Some j" "getSeatContainer t j = Some n" "sw_isActivated (wrappers t y)"
      "\<not> sw_aboutToRemove (wrappers t y)" for j n y
  proof (cases "j = k")
    case True
    with that assms show ?thesis
      by (auto simp: one_active_def active_after_def act_stepD calm_eqD [OF act_stepD(1) [OF assms(2)]]
          split: if_splits)
  next
    case False
    with that assms show ?thesis
      by (auto simp: one_active_def active_after_def act_stepD calm_eqD [OF act_stepD(1) [OF assms(2)]])
  qed
  then show ?thesis by (auto simp: one_active_def)
qed

lemma ws_inv_plain: "ws_inv s \<Longrightarrow> sw_workspaceId (wrappers s x) \<noteq> - 1 \<Longrightarrow> plain (wrappers s x)"
  by (simp add: ws_inv_def ws_members_def)

lemma activateSurface_step:
  fixes s :: "'a fstate_scheme"
  assumes inv: "ws_inv s" and y: "stands_for (Suc n) s x y" "ready s y"
    and g: "\<not> blockActivate s" "\<not> desktopShown s" "rootPresent s"
    and seat: "opt_seat seat s = Some k" "getSeatContainer s k = Some m" and c: "current s = Some c"
  obtains t m' where "perform (Suc (Suc n)) (ActivateSurface (Some x) seat raise) s = Inr t" "act_step s t"
    "getSeatContainer t k = Some m'" "ss_activated m' = Some y"
    "ss_keyboardFocus m' = (if takes_focus s m (Some y) then Some y else ss_keyboardFocus m)"
    "\<forall>j. j \<noteq> k \<longrightarrow> getSeatContainer t j = getSeatContainer s j"
    "ss_activated m \<noteq> Some y \<longrightarrow>
       (\<exists>d. current t = Some d \<and> m_id d = m_id c \<and> m_history d = y # removeAll y (m_history c))"
    "\<forall>z. sw_isActivated (wrappers t z) = active_after s k m (Some y) z"
proof -
  obtain s1 where s1: "resolveModal (Suc n) x s = Inr (Some y, s1)" "calm_step s s1" "wrappers s1 = wrappers s"
    by (rule resolveModal_stands [OF y(1)])
  note more1 = more_focusD [OF calm_stepD(2) [OF s1(2)]]
  have inv1: "ws_inv s1" by (rule calm_step_inv [OF s1(2) inv])
  have r1: "ready s1 y" using y(2) calm_ready [OF s1(2)] by simp
  have h1: "\<not> desktopShown s1" "rootPresent s1" "opt_seat seat s1 = Some k" "getSeatContainer s1 k = Some m"
    "current s1 = Some c" "\<not> blockActivate s1"
    using g seat c mono_current [OF s1(2)] opt_seat_cong [OF more1(4)] by (simp_all add: more1)
  obtain s2 where s2: "setActivatedSurface (perform n) (Some y) seat raise s1 = Inr s2" "act_step s1 s2"
    "\<forall>j. getSeatContainer s2 j = (if j = k then Some (m\<lparr>ss_activated := Some y\<rparr>) else getSeatContainer s1 j)"
    "ss_activated m \<noteq> Some y \<longrightarrow>
       (\<exists>d. current s2 = Some d \<and> m_id d = m_id c \<and> m_history d = y # removeAll y (m_history c))"
    "\<forall>z. sw_isActivated (wrappers s2 z) = active_after s1 k m (Some y) z"
    by (rule setActivatedSurface_step [OF inv1 r1 h1(1-5)])
  have a2: "act_step s s2" by (rule act_step_trans [OF calm_act [OF s1(2)] s2(2)])
  have cap: "hasActiveCapability (wrappers s y)" "hasFocusCapability (wrappers s y)"
    "sw_workspaceId (wrappers s y) \<noteq> - 1" using y(2) by (auto simp: ready_def)
  have w2: "hasFocusCapability (wrappers s2 y)" "sw_type (wrappers s2 y) \<noteq> XdgPopup" "rootPresent s2"
    "opt_seat seat s2 = Some k"
    using cap(2) ws_inv_plain [OF inv cap(3)] g(3) seat(1) opt_seat_cong [OF act_stepD(5) [OF a2]]
    by (simp_all add: calm_eqD [OF act_stepD(1) [OF a2]] act_stepD [OF a2] plain_def)
  define t where "t = ssm_setKeyboardFocusSurface k (Some y) s2"
  have fr: "seat_frame s2 t" by (simp add: t_def)
  have act: "act_step s t" using act_step_trans [OF a2 seat_act [OF fr]] .
  have "perform (Suc (Suc n)) (ActivateSurface (Some x) seat raise) s = Inr t"
    using y(1) s1 h1(6) cap s2(1,3) w2
    by (simp add: activateSurface_def stands_for_def request_window t_def)
  moreover have "getSeatContainer t k =
      Some (if takes_focus s m (Some y) then m\<lparr>ss_activated := Some y, ss_keyboardFocus := Some y\<rparr>
            else m\<lparr>ss_activated := Some y\<rparr>)"
    using s2(3) act_takes_focus [OF a2]
    by (simp add: t_def setKeyboardFocus_seats) (simp add: takes_focus_def)
  moreover have "getSeatContainer t j = getSeatContainer s j" if "j \<noteq> k" for j
    using that s2(3) more1(11) by (simp add: t_def setKeyboardFocus_seats)
  moreover have "active_after s1 k m (Some y) z = active_after s k m (Some y) z" for z
    using s1(3) more1(4) by (simp add: active_after_def)
  ultimately show thesis
    using that [of t "if takes_focus s m (Some y) then m\<lparr>ss_activated := Some y, ss_keyboardFocus := Some y\<rparr>
            else m\<lparr>ss_activated := Some y\<rparr>"] act s2(4,5) seat_frame_current [OF fr] seat_frameD(1) [OF fr] by simp
qed

text \<open>C1: Activating a window of the current workspace returns without a failed assertion. The
  window, or its modal dialog in its place, becomes the active window of the seat and gets the
  seat's keyboard unless a surface with a higher focus priority has it; it goes to the front of
  the current workspace's history; the window that was active before is no longer marked active,
  so that at most one window is; other seats, the workspaces and their lists stay as they are.\<close>

theorem activation_focuses_window:
  fixes s :: "'a fstate_scheme"
  assumes inv: "ws_inv s" and y: "stands_for (Suc n) s x y" "ready s y"
    and g: "\<not> blockActivate s" "\<not> desktopShown s" "rootPresent s"
    and seat: "opt_seat seat s = Some k" "getSeatContainer s k = Some m"
  shows "\<exists>t m'. perform (Suc (Suc n)) (ActivateSurface (Some x) seat raise) s = Inr t
     \<and> ws_inv t \<and> list_frame s t \<and> (ws_settled s \<longrightarrow> ws_settled t) \<and> (one_active s \<longrightarrow> one_active t)
     \<and> getSeatContainer t k = Some m' \<and> ss_activated m' = Some y
     \<and> ss_keyboardFocus m' = (if takes_focus s m (Some y) then Some y else ss_keyboardFocus m)
     \<and> (\<forall>j. j \<noteq> k \<longrightarrow> getSeatContainer t j = getSeatContainer s j)
     \<and> (ss_activated m \<noteq> Some y \<longrightarrow> (\<exists>d. current t = Some d \<and> latestActiveSurface d = Some y))
     \<and> (primarySeat s = Some k \<longrightarrow> ss_activated m \<noteq> Some y \<longrightarrow> sw_isActivated (wrappers t y))"
proof -
  obtain c where c: "current s = Some c" using y(2) by (rule readyE)
  obtain t m' where t: "perform (Suc (Suc n)) (ActivateSurface (Some x) seat raise) s = Inr t" "act_step s t"
    "getSeatContainer t k = Some m'" "ss_activated m' = Some y"
    "ss_keyboardFocus m' = (if takes_focus s m (Some y) then Some y else ss_keyboardFocus m)"
    "\<forall>j. j \<noteq> k \<longrightarrow> getSeatContainer t j = getSeatContainer s j"
    "ss_activated m \<noteq> Some y \<longrightarrow>
       (\<exists>d. current t = Some d \<and> m_id d = m_id c \<and> m_history d = y # removeAll y (m_history c))"
    "\<forall>z. sw_isActivated (wrappers t z) = active_after s k m (Some y) z"
    by (rule activateSurface_step [OF inv y g seat c])
  have "one_active s \<longrightarrow> one_active t" using one_active_after [OF _ t(2) seat(2) t(3,4,6,8)] by blast
  moreover have "ss_activated m \<noteq> Some y \<longrightarrow> (\<exists>d. current t = Some d \<and> latestActiveSurface d = Some y)"
    using t(7) by (auto simp: latestActiveSurface_def)
  moreover have "primarySeat s = Some k \<longrightarrow> ss_activated m \<noteq> Some y \<longrightarrow> sw_isActivated (wrappers t y)"
    using t(8) by (simp add: active_after_def)
  ultimately show ?thesis using t(1,3-6) act_stepD(2,10,11) [OF t(2)] inv by blast
qed

text \<open>The demonstration state: window 1 has the modal dialog 2.\<close>

lemma demo_fstate_simps:
  "wrappers demo_fstate = (wrappers demo_ws)(5 := (wrappers demo_ws 5)\<lparr>sw_isActivated := True\<rparr>,
        6 := blank_wrapper\<lparr>sw_type := XdgPopup\<rparr>)"
  "models demo_fstate = models demo_ws" "allModel demo_fstate = allModel demo_ws"
  "currentIndex demo_fstate = 0" "rootPresent demo_fstate" "primarySeat demo_fstate = Some 0"
  "\<not> blockActivate demo_fstate" "\<not> desktopShown demo_fstate" "bypassManager demo_fstate = (\<lambda>_. False)"
  "globalWorkspaceId demo_fstate = 2" "seats demo_fstate = [0, 1]" "multitaskview demo_fstate = False"
  "getSeatContainer demo_fstate 0 = Some (newSeatSurfaceManager\<lparr>ss_activated := Some 5, ss_keyboardFocus := Some 5\<rparr>)"
  by (simp_all add: demo_fstate_def wstate.defs demo_ws_def getSeatContainer_def)

lemma demo_fstate_inv: "ws_inv demo_fstate"
proof -
  have "ws_shape demo_fstate"
    using demo_ws_inv by (simp add: ws_inv_def ws_shape_def demo_fstate_simps) (simp add: demo_ws_def)
  moreover have "ws_members demo_fstate"
    by (auto simp: ws_members_def demo_fstate_simps demo_ws_def newWorkspaceModel_def blank_wrapper_def
        demo_wrapper_def plain_def isInputPopupLike_def)
  ultimately show ?thesis by (simp add: ws_inv_def)
qed

lemma demo_current: "current demo_fstate = Some (models demo_ws ! 0)"
  by (simp add: current_def modelAt_def ws_count_def demo_fstate_simps) (simp add: demo_ws_def)

lemma demo_stands: "stands_for 3 demo_fstate 1 2"
  by (simp add: stands_for_def demo_fstate_simps demo_ws_def demo_wrapper_def blank_wrapper_def
      acceptKeyboardFocus_def testFlag_def AcceptKeyboardFocus_def numeral_3_eq_3)

lemma demo_ready: "ready demo_fstate 2"
  by (simp add: ready_def demo_current demo_fstate_simps)
    (simp add: demo_ws_def newWorkspaceModel_def showOnWorkspace_def demo_wrapper_def blank_wrapper_def
      hasFocusCapability_def hasActiveCapability_def FullStates_def)

theorem activation_focuses_window_witness:
  "\<exists>t m'. perform 4 (ActivateSurface (Some 1) None True) demo_fstate = Inr t
     \<and> getSeatContainer t 0 = Some m' \<and> ss_activated m' = Some 2 \<and> sw_isActivated (wrappers t 2)"
proof -
  have 3: "stands_for (Suc 2) demo_fstate 1 2" using demo_stands by (simp add: numeral_3_eq_3 numeral_2_eq_2)
  have "opt_seat None demo_fstate = Some 0" by (simp add: opt_seat_def demo_fstate_simps)
  from activation_focuses_window [OF demo_fstate_inv 3 demo_ready demo_fstate_simps(7,8,5) this demo_fstate_simps(13), of True]
  show ?thesis by (auto simp: numeral_eq_Suc demo_fstate_simps(6))
qed

section \<open>Refused activation\<close>

text \<open>An activation is refused without any effect on focus: activating the candidate panel of an
  input method, a window that does not take the keyboard, or a window whose modal dialog is
  minimized returns and changes neither seats nor windows nor workspaces; at most it restacks.\<close>

theorem activation_refused:
  fixes s :: "'a fstate_scheme"
  assumes "sw_isIMCandidatePanel (wrappers s x) \<or> \<not> acceptKeyboardFocus (wrappers s x)
    \<or> (\<exists>y. findModal n (wrappers s) x = Inr (Some y) \<and> y \<noteq> x \<and> sw_minimized (wrappers s y)
          \<and> sw_workspaceId (wrappers s y) = sw_workspaceId (wrappers s x))"
  shows "\<exists>es. perform (Suc n) (ActivateSurface (Some x) seat raise) s = Inr (s\<lparr>trace := trace s @ es\<rparr>)
     \<and> set es \<subseteq> {StackToLast x}"
proof -
  have "perform (Suc n) (ActivateSurface (Some x) seat raise) s = Inr s
      \<or> perform (Suc n) (ActivateSurface (Some x) seat raise) s = Inr (emit (StackToLast x) s)"
    using assms by (auto simp: activateSurface_def resolveModal_def)
  then show ?thesis
  proof
    assume "perform (Suc n) (ActivateSurface (Some x) seat raise) s = Inr s"
    then show ?thesis by (intro exI [of _ "[]"]) simp
  next
    assume "perform (Suc n) (ActivateSurface (Some x) seat raise) s = Inr (emit (StackToLast x) s)"
    then show ?thesis by (intro exI [of _ "[StackToLast x]"]) (simp add: emit_def)
  qed
qed

theorem activation_refused_witness:
  "\<exists>es. perform 4 (ActivateSurface (Some 7) None True)
       (demo_fstate\<lparr>wrappers := (wrappers demo_fstate)(7 := blank_wrapper\<lparr>sw_focusStates := 11\<rparr>)\<rparr>) =
     Inr (demo_fstate\<lparr>wrappers := (wrappers demo_fstate)(7 := blank_wrapper\<lparr>sw_focusStates := 11\<rparr>),
            trace := es\<rparr>)"
proof -
  let ?s = "demo_fstate\<lparr>wrappers := (wrappers demo_fstate)(7 := blank_wrapper\<lparr>sw_focusStates := 11\<rparr>)\<rparr>"
  have "\<not> acceptKeyboardFocus (wrappers ?s 7)"
    by (simp add: acceptKeyboardFocus_def testFlag_def AcceptKeyboardFocus_def)
  then show ?thesis using activation_refused [of ?s 7 3 None True] by (auto simp: numeral_eq_Suc)
qed

text \<open>While activation is blocked (as during the lock screen), activating a window only records
  it: it goes to the front of its workspace's history so that it can be activated afterwards, and
  neither the seats nor the windows change.\<close>

theorem blocked_activation_is_recorded:
  fixes s :: "'a fstate_scheme"
  assumes "ws_inv s" "stands_for n s x y" "ready s y" "blockActivate s" "sw_type (wrappers s y) \<noteq> LockScreen"
  shows "\<exists>t d. perform (Suc n) (ActivateSurface (Some x) seat raise) s = Inr t \<and> ws_inv t
     \<and> wrappers t = wrappers s \<and> seatContainers t = seatContainers s \<and> list_frame s t
     \<and> current t = Some d \<and> latestActiveSurface d = Some y"
proof -
  obtain c where c: "current s = Some c" "showOnWorkspace (wrappers s y) (m_id c)"
    "sw_workspaceId (wrappers s y) \<noteq> - 1" "hasActiveCapability (wrappers s y)" using assms(3) by (rule readyE)
  obtain s1 where s1: "resolveModal n x s = Inr (Some y, s1)" "calm_step s s1" "wrappers s1 = wrappers s"
    by (rule resolveModal_stands [OF assms(2)])
  note more1 = more_focusD [OF calm_stepD(2) [OF s1(2)]]
  have inv1: "ws_inv s1" by (rule calm_step_inv [OF s1(2) assms(1)])
  have "sw_workspaceId (wrappers s1 y) \<noteq> - 1" using c(3) s1(3) by simp
  then obtain t where t: "pushActivedSurface y s1 = Inr t" "act_step s1 t" "wstate.more t = wstate.more s1"
    "wrappers t = wrappers s1"
    "\<forall>c. current s1 = Some c \<longrightarrow> history_scope s1 y c \<longrightarrow>
       (\<exists>d. current t = Some d \<and> m_id d = m_id c \<and> m_history d = y # removeAll y (m_history c))"
    by (rule push_act [OF inv1])
  have "history_scope s1 y c" using c s1(3) by (intro history_scope_current [OF inv1]) simp_all
  then obtain d where d: "current t = Some d" "m_history d = y # removeAll y (m_history c)"
    using t(5) c(1) mono_current [OF s1(2)] by auto
  have "perform (Suc n) (ActivateSurface (Some x) seat raise) s = Inr t"
    using assms(2,4,5) s1 t(1) c(4) more1(6) by (simp add: activateSurface_def stands_for_def)
  moreover have "seatContainers t = seatContainers s" using more_focusD(5) [OF t(3)] more1(5) by simp
  moreover have "list_frame s t"
    using act_stepD(2) [OF act_step_trans [OF calm_act [OF s1(2)] t(2)]] .
  ultimately show ?thesis
    using t(4) s1(3) d act_stepD(10) [OF t(2) inv1] by (auto simp: latestActiveSurface_def)
qed

theorem blocked_activation_is_recorded_witness:
  "\<exists>t d. perform 4 (ActivateSurface (Some 1) None True) (demo_fstate\<lparr>blockActivate := True\<rparr>) = Inr t
     \<and> seatContainers t = seatContainers demo_fstate \<and> current t = Some d \<and> latestActiveSurface d = Some 2"
proof -
  let ?s = "demo_fstate\<lparr>blockActivate := True\<rparr>"
  have "ws_inv ?s" by (rule ws_inv_cong [OF demo_fstate_inv]) simp_all
  moreover have "stands_for 3 ?s 1 2" "ready ?s 2"
    using demo_stands demo_ready stands_for_cong [of ?s demo_fstate] ready_cong [of ?s demo_fstate] by simp_all
  moreover have "sw_type (wrappers ?s 2) \<noteq> LockScreen"
    by (simp add: demo_fstate_simps demo_ws_def demo_wrapper_def blank_wrapper_def)
  ultimately show ?thesis using blocked_activation_is_recorded [of ?s 3 1 2 None True]
    by (auto simp: numeral_eq_Suc)
qed

section \<open>Losing the active capability\<close>

lemma act_ready:
  "act_step s t \<Longrightarrow> current t = current s \<Longrightarrow> ready t x = ready s x"
  by (simp add: ready_def act_stepD calm_eqD [OF act_stepD(1)] split: option.splits)

lemma findModal_cong:
  assumes "\<forall>y. sw_subSurfaces (h' y) = sw_subSurfaces (h y) \<and> sw_aboutToRemove (h' y) = sw_aboutToRemove (h y)
    \<and> sw_mapped (h' y) = sw_mapped (h y) \<and> sw_modal (h' y) = sw_modal (h y)"
  shows "findModal n h' x = findModal n h x" and "findModalIn n h' cs = findModalIn n h cs"
  using assms
proof (induction n h x and n h cs rule: findModal_findModalIn.induct)
  case (4 n h c cs)
  then show ?case by (cases "findModal n h c") (auto split: option.splits)
qed simp_all

lemma act_stands:
  assumes "act_step s t"
  shows "stands_for n t x y = stands_for n s x y"
proof -
  note c = act_stepD(1) [OF assms]
  have m: "sw_minimized (wrappers t z) = sw_minimized (wrappers s z)"
    "sw_isIMCandidatePanel (wrappers t z) = sw_isIMCandidatePanel (wrappers s z)" for z
    using c [of z] by (cases "wrappers t z"; cases "wrappers s z"; simp add: calm_def)+
  have "findModal n (wrappers t) x = findModal n (wrappers s) x"
    by (rule findModal_cong) (simp add: calm_eqD [OF c])
  then show ?thesis by (simp add: stands_for_def calm_eqD [OF c] m split: sum.splits option.splits)
qed

text \<open>No surface to activate: the seat loses both its active window and its keyboard.\<close>

lemma activate_none:
  fixes s :: "'a fstate_scheme"
  assumes "rootPresent s" "opt_seat seat s = Some k" "getSeatContainer s k = Some m"
  obtains t where "perform (Suc (Suc n)) (ActivateSurface None seat raise) s = Inr t" "act_step s t"
    "\<forall>j. getSeatContainer t j =
       (if j = k then Some (m\<lparr>ss_activated := None, ss_keyboardFocus := None\<rparr>) else getSeatContainer s j)"
    "\<forall>y. sw_isActivated (wrappers t y) = active_after s k m None y"
proof -
  obtain s1 where s1: "setActivatedSurface (perform n) None seat raise s = Inr s1" "act_step s s1"
    "\<forall>j. getSeatContainer s1 j = (if j = k then Some (m\<lparr>ss_activated := None\<rparr>) else getSeatContainer s j)"
    "\<forall>y. sw_isActivated (wrappers s1 y) = active_after s k m None y"
    by (rule setActivatedSurface_none [OF assms])
  define t where "t = ssm_setKeyboardFocusSurface k None s1"
  have fr: "seat_frame s1 t" by (simp add: t_def)
  have h: "rootPresent s1" "opt_seat seat s1 = Some k" "getSeatContainer s1 k = Some (m\<lparr>ss_activated := None\<rparr>)"
    using assms(1,2) s1(3) opt_seat_cong [OF act_stepD(5) [OF s1(2)]] by (simp_all add: act_stepD [OF s1(2)])
  have "perform (Suc (Suc n)) (ActivateSurface None seat raise) s = Inr t"
    using s1(1) by (simp add: activateSurface_def request_none [OF h] t_def)
  moreover have "getSeatContainer t j =
       (if j = k then Some (m\<lparr>ss_activated := None, ss_keyboardFocus := None\<rparr>) else getSeatContainer s j)" for j
    using s1(3) by (simp add: t_def setKeyboardFocus_seats)
  ultimately show thesis
    using that [of t] act_step_trans [OF s1(2) seat_act [OF fr]] s1(4) seat_frameD(1) [OF fr] by simp
qed

text \<open>A seat has let go of a surface.\<close>

definition released :: "'a fstate_scheme \<Rightarrow> sid \<Rightarrow> nat \<Rightarrow> bool" where
  "released s x k =
     (case getSeatContainer s k of
        None \<Rightarrow> False
      | Some m \<Rightarrow> ss_keyboardFocus m \<noteq> Some x \<and> ss_activated m \<noteq> Some x)"

lemma inactivate_other_seat:
  fixes s :: "'a fstate_scheme"
  assumes rp: "rootPresent s" and k: "primarySeat s \<noteq> Some k" and m: "getSeatContainer s k = Some m"
  obtains t where "inactivateOnSeat (Suc (Suc n)) (perform (Suc (Suc n))) x k s = Inr t" "act_step s t" "released t x k"
    "\<forall>j. j \<noteq> k \<longrightarrow> getSeatContainer t j = getSeatContainer s j" "current t = current s"
proof -
  have seat: "opt_seat (Some k) s' = Some k" for s' :: "'a fstate_scheme" by (simp add: opt_seat_def)
  obtain s1 where s1: "setActivatedSurface (perform (Suc n)) None (Some k) True s = Inr s1" "act_step s s1"
    "\<forall>j. getSeatContainer s1 j = (if j = k then Some (m\<lparr>ss_activated := None\<rparr>) else getSeatContainer s j)"
    "current s1 = current s"
    by (rule setActivatedSurface_none [OF rp seat m])
  define t where "t = ssm_setKeyboardFocusSurface k None s1"
  have fr: "seat_frame s1 t" by (simp add: t_def)
  have g: "getSeatContainer t j =
       (if j = k then Some (m\<lparr>ss_activated := None, ss_keyboardFocus := None\<rparr>) else getSeatContainer s j)" for j
    using s1(3) by (simp add: t_def setKeyboardFocus_seats)
  have rq: "requestKeyboardFocus (Suc (Suc n)) None (Some k) s1 = Inr t"
    using s1(3) rp by (simp add: t_def request_none [OF _ seat] act_stepD [OF s1(2)])
  show thesis
  proof (cases "ss_keyboardFocus m = Some x")
    case True
    then have "inactivateOnSeat (Suc (Suc n)) (perform (Suc (Suc n))) x k s = Inr t"
      using m k s1(1) rq g by (simp add: inactivateOnSeat_def act_stepD [OF s1(2)])
    then show thesis
      using that [of t] act_step_trans [OF s1(2) seat_act [OF fr]] g s1(4) seat_frame_current [OF fr]
      by (simp add: released_def)
  next
    case False
    show thesis
    proof (cases "ss_activated m = Some x")
      case True
      with False have "inactivateOnSeat (Suc (Suc n)) (perform (Suc (Suc n))) x k s = Inr s1"
        using m s1(1) by (simp add: inactivateOnSeat_def)
      with False show thesis using that [of s1] s1 by (simp add: released_def)
    next
      case F: False
      with False have "inactivateOnSeat (Suc (Suc n)) (perform (Suc (Suc n))) x k s = Inr s"
        using m by (simp add: inactivateOnSeat_def)
      with False F show thesis using that [of s] m by (simp add: released_def)
    qed
  qed
qed

lemma inactivate_primary_seat:
  fixes s :: "'a fstate_scheme"
  assumes inv: "ws_inv s" and g: "\<not> blockActivate s" "\<not> desktopShown s" "rootPresent s"
    and k: "primarySeat s = Some k" and m: "getSeatContainer s k = Some m" and c: "current s = Some c"
    and fb: "\<forall>f. latestActiveSurface c = Some f \<longrightarrow> (\<exists>y. y \<noteq> x \<and> stands_for (Suc n) s f y \<and> ready s y)"
  obtains t where "inactivateOnSeat (Suc (Suc n)) (perform (Suc (Suc n))) x k s = Inr t" "act_step s t" "released t x k"
    "\<forall>j. j \<noteq> k \<longrightarrow> getSeatContainer t j = getSeatContainer s j"
proof -
  have seat: "opt_seat (Some k) s' = Some k" for s' :: "'a fstate_scheme" by (simp add: opt_seat_def)
  obtain s1 where s1: "setActivatedSurface (perform (Suc n)) None (Some k) True s = Inr s1" "act_step s s1"
    "\<forall>j. getSeatContainer s1 j = (if j = k then Some (m\<lparr>ss_activated := None\<rparr>) else getSeatContainer s j)"
    "current s1 = current s"
    by (rule setActivatedSurface_none [OF g(3) seat m])
  have h1: "ws_inv s1" "\<not> blockActivate s1" "\<not> desktopShown s1" "rootPresent s1" "primarySeat s1 = Some k"
    "current s1 = Some c" "getSeatContainer s1 k = Some (m\<lparr>ss_activated := None\<rparr>)"
    using inv g k c s1(3,4) by (simp_all add: act_stepD [OF s1(2)])
  obtain s2 m2 where s2: "perform (Suc (Suc n)) (ActivateSurface (latestActiveSurface c) (Some k) False) s1 = Inr s2"
    "act_step s1 s2" "getSeatContainer s2 k = Some m2" "ss_activated m2 \<noteq> Some x"
    "\<forall>j. j \<noteq> k \<longrightarrow> getSeatContainer s2 j = getSeatContainer s1 j"
  proof (cases "latestActiveSurface c")
    case None
    obtain t where "perform (Suc (Suc n)) (ActivateSurface None (Some k) False) s1 = Inr t" "act_step s1 t"
      "\<forall>j. getSeatContainer t j = (if j = k then Some ((m\<lparr>ss_activated := None\<rparr>)\<lparr>ss_activated := None,
         ss_keyboardFocus := None\<rparr>) else getSeatContainer s1 j)"
      by (rule activate_none [OF h1(4) seat h1(7)])
    with None that show thesis by simp
  next
    case (Some f)
    with fb obtain y where y: "y \<noteq> x" "stands_for (Suc n) s f y" "ready s y" by blast
    have y1: "stands_for (Suc n) s1 f y" "ready s1 y"
      using y(2,3) act_stands [OF s1(2)] act_ready [OF s1(2,4)] by simp_all
    obtain t m' where "perform (Suc (Suc n)) (ActivateSurface (Some f) (Some k) False) s1 = Inr t" "act_step s1 t"
      "getSeatContainer t k = Some m'" "ss_activated m' = Some y"
      "\<forall>j. j \<noteq> k \<longrightarrow> getSeatContainer t j = getSeatContainer s1 j"
      by (rule activateSurface_step [OF h1(1) y1 h1(2-4) seat h1(7) h1(6)])
    with Some y(1) that show thesis by simp
  qed
  define t where "t = ssm_setKeyboardFocusSurface k None s2"
  have fr: "seat_frame s2 t" by (simp add: t_def)
  have a2: "act_step s s2" by (rule act_step_trans [OF s1(2) s2(2)])
  have rq: "requestKeyboardFocus (Suc (Suc n)) None (Some k) s2 = Inr t"
    using s2(3) g(3) by (simp add: t_def request_none [OF _ seat] act_stepD [OF a2])
  have gt: "getSeatContainer t j = (if j = k then Some (m2\<lparr>ss_keyboardFocus := None\<rparr>) else getSeatContainer s j)" for j
    using s2(3,5) s1(3) by (simp add: t_def setKeyboardFocus_seats)
  show thesis
  proof (cases "ss_keyboardFocus m = Some x")
    case True
    then have "inactivateOnSeat (Suc (Suc n)) (perform (Suc (Suc n))) x k s =
        (if ss_keyboardFocus m2 = Some x then Inr t else Inr s2)"
      using m s1(1) h1(5,6) s2(1,3) rq by (simp add: inactivateOnSeat_def del: perform.simps) simp
    then show thesis
      using that [of "if ss_keyboardFocus m2 = Some x then t else s2"] a2 act_step_trans [OF a2 seat_act [OF fr]]
        gt s2(3-5) s1(3) by (auto simp: released_def split: if_splits)
  next
    case False
    show thesis
    proof (cases "ss_activated m = Some x")
      case True
      with False have "inactivateOnSeat (Suc (Suc n)) (perform (Suc (Suc n))) x k s = Inr s1"
        using m s1(1) by (simp add: inactivateOnSeat_def)
      with False show thesis using that [of s1] s1 by (simp add: released_def)
    next
      case F: False
      with False have "inactivateOnSeat (Suc (Suc n)) (perform (Suc (Suc n))) x k s = Inr s"
        using m by (simp add: inactivateOnSeat_def)
      with False F show thesis using that [of s] m by (simp add: released_def)
    qed
  qed
qed

definition fallback_ok :: "nat \<Rightarrow> 'a fstate_scheme \<Rightarrow> sid \<Rightarrow> bool" where
  "fallback_ok n s x =
     (case current s of
        None \<Rightarrow> False
      | Some c \<Rightarrow> \<forall>f. latestActiveSurface c = Some f \<longrightarrow> (\<exists>y. y \<noteq> x \<and> stands_for n s f y \<and> ready s y))"

lemma fallback_ok_step:
  "act_step s t \<Longrightarrow> current t = current s \<Longrightarrow> fallback_ok n t x = fallback_ok n s x"
  by (simp add: fallback_ok_def act_stands act_ready split: option.splits)

lemma perform_inactivation:
  "perform (Suc n) (SurfaceInactivationRequested x) s = onSurfaceInactivationRequested n (perform n) x s"
  by simp

lemma inactivate_seats:
  fixes s :: "'a fstate_scheme"
  assumes "distinct ks" "\<forall>k\<in>set ks. getSeatContainer s k \<noteq> None" "ws_inv s" "\<not> blockActivate s"
    "\<not> desktopShown s" "rootPresent s" "primarySeat s \<in> Some ` set ks \<longrightarrow> fallback_ok (Suc n) s x"
  shows "\<exists>t. rfold (inactivateOnSeat (Suc (Suc n)) (perform (Suc (Suc n))) x) ks s = Inr t \<and> act_step s t
    \<and> (\<forall>k\<in>set ks. released t x k) \<and> (\<forall>j. j \<notin> set ks \<longrightarrow> getSeatContainer t j = getSeatContainer s j)"
  using assms
proof (induction ks arbitrary: s)
  case Nil
  then show ?case by simp
next
  case (Cons k ks)
  then obtain m where m: "getSeatContainer s k = Some m" by auto
  obtain s1 where s1: "inactivateOnSeat (Suc (Suc n)) (perform (Suc (Suc n))) x k s = Inr s1" "act_step s s1"
    "released s1 x k" "\<forall>j. j \<noteq> k \<longrightarrow> getSeatContainer s1 j = getSeatContainer s j"
    "primarySeat s = Some k \<or> current s1 = current s"
  proof (cases "primarySeat s = Some k")
    case True
    with Cons.prems(7) obtain c where c: "current s = Some c"
      "\<forall>f. latestActiveSurface c = Some f \<longrightarrow> (\<exists>y. y \<noteq> x \<and> stands_for (Suc n) s f y \<and> ready s y)"
      by (auto simp: fallback_ok_def split: option.splits)
    show thesis
      by (rule inactivate_primary_seat [OF Cons.prems(3-6) True m c]) (use True in \<open>blast intro: that\<close>)
  next
    case False
    show thesis
      by (rule inactivate_other_seat [OF Cons.prems(6) False m]) (blast intro: that)
  qed
  have "\<forall>k\<in>set ks. getSeatContainer s1 k \<noteq> None" using Cons.prems(1,2) s1(4) by auto
  moreover have "primarySeat s1 \<in> Some ` set ks \<longrightarrow> fallback_ok (Suc n) s1 x"
    using Cons.prems(1,7) s1(5) fallback_ok_step [OF s1(2)] by (auto simp: act_stepD [OF s1(2)])
  moreover have "ws_inv s1" "\<not> blockActivate s1" "\<not> desktopShown s1" "rootPresent s1" "distinct ks"
    using Cons.prems by (simp_all add: act_stepD [OF s1(2)])
  ultimately obtain t where t: "rfold (inactivateOnSeat (Suc (Suc n)) (perform (Suc (Suc n))) x) ks s1 = Inr t"
    "act_step s1 t" "\<forall>k\<in>set ks. released t x k" "\<forall>j. j \<notin> set ks \<longrightarrow> getSeatContainer t j = getSeatContainer s1 j"
    using Cons.IH [of s1] by blast
  have "released t x k" using s1(3) t(4) Cons.prems(1) by (simp add: released_def)
  then show ?case
    using s1(1,4) t act_step_trans [OF s1(2) t(2)] by (auto simp del: perform.simps)
qed

lemma remove_act:
  fixes s :: "'a fstate_scheme"
  assumes "ws_inv s" "sw_workspaceId (wrappers s x) \<noteq> - 1" "current s = Some c"
    "showOnWorkspace (wrappers s x) (m_id c) \<or> x \<notin> set (m_history c)"
  obtains t d where "removeActivedSurface x s = Inr t" "act_step s t" "seatContainers t = seatContainers s"
    "wrappers t = wrappers s" "current t = Some d" "m_id d = m_id c" "m_history d = removeAll x (m_history c)"
proof -
  from removeActivedSurface_spec [OF assms(1,2)] obtain t where t: "removeActivedSurface x s = Inr t"
    "hist_only s t (\<lambda>k. if history_scope s x k then removeAll x (m_history k) else m_history k)" by blast
  have more: "wstate.more t = wstate.more s"
    using t(1) by (auto simp: removeActivedSurface_def Let_def on_model_def rbind_Inr_iff put_model_def
        pure_op_def split: if_splits)
  have fr: "ws_frame s t" by (rule hist_only_frame [OF t(2)])
  have m: "models t = map (\<lambda>k. k\<lparr>m_history :=
       (if history_scope s x k then removeAll x (m_history k) else m_history k)\<rparr>) (models s)"
    and a: "map m_surfaces (all_models t) = map m_surfaces (all_models s)"
    and w: "wrappers t = wrappers s" and i: "currentIndex t = currentIndex s"
    using t(2) by (simp_all add: hist_only_def comp_def)
  have "act_step s t"
    using fr a w hist_only_inv [OF t(2)] hist_only_settled [OF t(2)]
    unfolding act_step_def by (simp add: list_frame_def ws_frame_def more_focusD [OF more])
  moreover have "\<exists>d. current t = Some d \<and> m_id d = m_id c \<and> m_history d = removeAll x (m_history c)"
    using assms(3,4) m i history_scope_current [OF assms(1,2)]
    by (auto simp: current_def modelAt_def ws_count_def split: if_splits)
  ultimately show thesis using that t(1) w more_focusD(5) [OF more] by blast
qed



end
