(* ===== verification/Focus_Switch.thy ===== *)
theory Focus_Switch
  imports Focus_Activation
begin

text \<open>
  The workspace switch with the real activation: \<open>Focus_Activation\<close> provides what the locale
  \<open>focus_provider\<close> of \<open>Workspace_Switch\<close> asks for, and the switch then activates the window the
  target workspace remembers.
\<close>

section \<open>The provider\<close>

definition can_activate :: "nat \<Rightarrow> sid option \<Rightarrow> 'a fstate_scheme \<Rightarrow> bool" where
  "can_activate n x s =
     (\<not> blockActivate s \<and> \<not> desktopShown s \<and> rootPresent s
      \<and> (\<exists>k m. primarySeat s = Some k \<and> getSeatContainer s k = Some m)
      \<and> (\<forall>f. x = Some f \<longrightarrow> (\<exists>y. stands_for (Suc n) s f y \<and> ready s y)))"

text \<open>The outcome on the primary seat.\<close>

lemma activate_outcome:
  fixes s :: "'a fstate_scheme"
  assumes inv: "ws_inv s" and can: "can_activate n x s" and k: "primarySeat s = Some k"
  obtains t m' where "perform (Suc (Suc n)) (ActivateSurface x None True) s = Inr t" "act_step s t"
    "getSeatContainer t k = Some m'"
    "case x of None \<Rightarrow> ss_activated m' = None \<and> ss_keyboardFocus m' = None
     | Some f \<Rightarrow> \<exists>y. stands_for (Suc n) s f y \<and> ss_activated m' = Some y"
proof -
  from can k obtain m where m: "getSeatContainer s k = Some m" by (auto simp: can_activate_def)
  have g: "\<not> blockActivate s" "\<not> desktopShown s" "rootPresent s" using can by (simp_all add: can_activate_def)
  have seat: "opt_seat None s = Some k" using k by (simp add: opt_seat_def)
  show thesis
  proof (cases x)
    case None
    obtain t where "perform (Suc (Suc n)) (ActivateSurface None None True) s = Inr t" "act_step s t"
      "\<forall>j. getSeatContainer t j =
         (if j = k then Some (m\<lparr>ss_activated := None, ss_keyboardFocus := None\<rparr>) else getSeatContainer s j)"
      by (rule activate_none [OF g(3) seat m])
    with None that show thesis by (simp del: perform.simps)
  next
    case (Some f)
    with can obtain y where y: "stands_for (Suc n) s f y" "ready s y" by (auto simp: can_activate_def)
    obtain c where c: "current s = Some c" using y(2) by (rule readyE)
    obtain t m' where "perform (Suc (Suc n)) (ActivateSurface (Some f) None True) s = Inr t" "act_step s t"
      "getSeatContainer t k = Some m'" "ss_activated m' = Some y"
      by (rule activateSurface_step [OF inv y g seat m c])
    with Some y(1) that show thesis by (auto simp del: perform.simps)
  qed
qed

interpretation fp: focus_provider "\<lambda>x. perform (Suc (Suc n)) (ActivateSurface x None True)" "can_activate n" for n
proof
  fix s :: "'a fstate_scheme" and x
  assume "ws_inv s" "can_activate n x s"
  moreover from this(2) obtain k where "primarySeat s = Some k" by (auto simp: can_activate_def)
  ultimately obtain t where "perform (Suc (Suc n)) (ActivateSurface x None True) s = Inr t" "act_step s t"
    by (rule activate_outcome)
  with \<open>ws_inv s\<close> show "\<exists>t. perform (Suc (Suc n)) (ActivateSurface x None True) s = Inr t \<and> ws_inv t
      \<and> list_frame s t \<and> (ws_settled s \<longrightarrow> ws_settled t)"
    using act_stepD(2,10,11) by blast
qed

section \<open>Switching\<close>

lemma setCurrentIndex_more:
  "setCurrentIndex i s = Inr t \<Longrightarrow> wstate.more t = wstate.more (s :: 'a wstate_scheme)"
proof -
  have step: "setVisibleAt j u = Inr v \<Longrightarrow> wstate.more v = wstate.more u" for j and u v :: "'a wstate_scheme"
  proof -
    assume "setVisibleAt j u = Inr v"
    then obtain m where v: "v = put_model (fst (wm_setVisible (int j = currentIndex u) m u))
        (snd (wm_setVisible (int j = currentIndex u) m u))"
      by (auto simp: setVisibleAt_def on_model_def rbind_Inr_iff Let_def split_def)
    have "wstate.more (put_model k w) = wstate.more w" for k and w :: "'a wstate_scheme"
      by (simp add: put_model_def)
    moreover have "wstate.more (snd (wm_setVisible b k u)) = wstate.more u" for b k
      by (rule scene_more_wstate) simp
    ultimately show ?thesis by (simp only: v)
  qed
  have vis: "wstate.more v = wstate.more u" if "rfold setVisibleAt js u = Inr v" for js and u v :: "'a wstate_scheme"
    using rfold_invariant [OF that, of "\<lambda>w. wstate.more w = wstate.more u"] step by simp
  assume "setCurrentIndex i s = Inr t"
  then show ?thesis
    by (auto simp: setCurrentIndex_def updateModelVisibility_def rbind_Inr_iff doSetCurrentIndex_def emit_def
        dest!: vis split: if_splits)
qed

lemma core_of_queries:
  assumes "core_of v = core_of w"
  shows "sw_type v = sw_type w" "sw_workspaceId v = sw_workspaceId w"
    "hasActiveCapability v = hasActiveCapability w" "hasFocusCapability v = hasFocusCapability w"
    "acceptKeyboardFocus v = acceptKeyboardFocus w" "showOnWorkspace v i = showOnWorkspace w i"
    "sw_aboutToRemove v = sw_aboutToRemove w" "sw_minimized v = sw_minimized w"
    "sw_isIMCandidatePanel v = sw_isIMCandidatePanel w"
    "sw_subSurfaces v = sw_subSurfaces w" "sw_mapped v = sw_mapped w" "sw_modal v = sw_modal w"
  using assms by (cases v; cases w; simp add: core_of_def hasActiveCapability_def
      hasFocusCapability_def acceptKeyboardFocus_def showOnWorkspace_def showOnAllWorkspace_def
      isInputPopupLike_def)+

lemma core_stands:
  assumes "\<forall>y. core_of (wrappers t y) = core_of (wrappers s y)"
  shows "stands_for n t x y = stands_for n s x y"
proof -
  note c = core_of_queries [OF assms [rule_format]]
  have "findModal n (wrappers t) x = findModal n (wrappers s) x"
    by (rule findModal_cong) (simp add: c)
  then show ?thesis by (simp add: stands_for_def c split: sum.splits option.splits)
qed

text \<open>Ready to be active once workspace \<open>c\<close> is the current one.\<close>

definition ready_on :: "'a fstate_scheme \<Rightarrow> wmodel \<Rightarrow> sid \<Rightarrow> bool" where
  "ready_on s c x =
     (sw_workspaceId (wrappers s x) \<noteq> - 1 \<and> showOnWorkspace (wrappers s x) (m_id c)
      \<and> hasActiveCapability (wrappers s x) \<and> hasFocusCapability (wrappers s x)
      \<and> \<not> sw_aboutToRemove (wrappers s x) \<and> \<not> bypassManager s x)"

text \<open>The state in which the switch activates.\<close>

lemma switched_state:
  fixes s :: "'a fstate_scheme"
  assumes inv: "ws_inv s" and i: "0 \<le> i" "i < ws_count s" "currentIndex s \<noteq> i"
    and sc: "setCurrentIndex i (emit DismissAllPopups s) = Inr s1"
  shows "ws_inv s1" "wstate.more s1 = wstate.more s" "\<forall>y. core_of (wrappers s1 y) = core_of (wrappers s y)"
    "current s1 = Some (models s1 ! nat i)" "m_id (models s1 ! nat i) = m_id (models s ! nat i)"
    "latestActiveSurface (models s1 ! nat i) = latestActiveSurface (models s ! nat i)"
    "multitaskview s1 = multitaskview s"
proof -
  let ?s = "emit DismissAllPopups s"
  have inv0: "ws_inv ?s" by (rule ws_inv_cong [OF inv]) simp_all
  obtain u where u: "setCurrentIndex i ?s = Inr u" "switch_rel ?s u" "currentIndex u = i"
    using setCurrentIndex_spec [OF inv0 i(1)] i by (auto simp: ws_count_def)
  with sc have r: "switch_rel ?s s1" "currentIndex s1 = i" by simp_all
  show "wstate.more s1 = wstate.more s" using setCurrentIndex_more [OF sc] by (simp add: emit_def)
  show "\<forall>y. core_of (wrappers s1 y) = core_of (wrappers s y)" "ws_inv s1" "multitaskview s1 = multitaskview s"
    using r(1) by (simp_all add: switch_rel_def)
  have len: "length (models s1) = length (models s)" using switch_rel_length [OF r(1)] by simp
  have "(models s1 ! nat i)\<lparr>m_visible := False\<rparr> = (models s ! nat i)\<lparr>m_visible := False\<rparr>"
    using r(1) i(1,2) len nth_map [of "nat i" "models s1" "\<lambda>m. m\<lparr>m_visible := False\<rparr>"]
      nth_map [of "nat i" "models s" "\<lambda>m. m\<lparr>m_visible := False\<rparr>"]
    by (simp add: switch_rel_def ws_count_def)
  then have md: "m_history (models s1 ! nat i) = m_history (models s ! nat i)"
    "m_id (models s1 ! nat i) = m_id (models s ! nat i)"
    by (cases "models s1 ! nat i"; cases "models s ! nat i"; simp)+
  then show "latestActiveSurface (models s1 ! nat i) = latestActiveSurface (models s ! nat i)"
    "m_id (models s1 ! nat i) = m_id (models s ! nat i)" by (simp_all add: latestActiveSurface_def)
  show "current s1 = Some (models s1 ! nat i)"
    using r(2) i len by (simp add: current_def modelAt_def ws_count_def)
qed



section \<open>A remembered window that has left\<close>

lemma activate_absent:
  fixes s :: "'a fstate_scheme"
  assumes "stands_for (Suc n) s f f" "hasActiveCapability (wrappers s f)" "\<not> blockActivate s" "rootPresent s"
    "primarySeat s = Some k" "getSeatContainer s k = Some m" "ss_activated m \<noteq> Some f" "current s = Some c"
    "\<not> showOnWorkspace (wrappers s f) (m_id c)"
  shows "perform (Suc (Suc n)) (ActivateSurface (Some f) None raise) s = Inl QAssert"
proof -
  obtain s1 where s1: "resolveModal (Suc n) f s = Inr (Some f, s1)" "calm_step s s1" "wrappers s1 = wrappers s"
    by (rule resolveModal_stands [OF assms(1)])
  note more1 = more_focusD [OF calm_stepD(2) [OF s1(2)]]
  have h: "rootPresent s1" "getSeatContainer s1 k = Some m" using assms(4,6) by (simp_all add: more1)
  obtain s2 where s2: "(case if Some k = primarySeat s1 then activatedSurface s1 else None of
        None \<Rightarrow> Inr s1 | Some z \<Rightarrow> setActivate False z s1) = Inr s2" "calm_step s1 s2"
    by (rule deactivate_old [OF h])
  have "current s2 = Some c" "\<not> showOnWorkspace (wrappers s2 f) (m_id c)"
    using assms(8,9) s1(3) mono_current [OF s1(2)] mono_current [OF s2(2)]
    by (simp_all add: calm_eqD [OF calm_stepD(1) [OF s2(2)]])
  then have "activateNew (perform n) k f True raise s2 = Inl QAssert" by (simp add: activateNew_def)
  moreover have "opt_seat None s1 = Some k" using assms(5) by (simp add: opt_seat_def more1)
  ultimately have "setActivatedSurface (perform n) (Some f) None raise s1 = Inl QAssert"
    using h assms(5,7) s2(1) by (simp add: setActivatedSurface_def seat_given Let_def more1)
  then show ?thesis using assms(1-3) s1 by (simp add: activateSurface_def stands_for_def more1)
qed

text \<open>When the window a workspace remembers as the latest active one has since moved to another
  workspace, switching to that workspace fails an assertion: the switch asks for the activation of
  a window that is not shown on the current workspace. Histories are left in this condition by
  moving a window that was shown on all workspaces.\<close>

theorem switchTo_stale_history_asserts:
  fixes s :: "'a fstate_scheme"
  assumes inv: "ws_inv s" and i: "0 \<le> i" "i < ws_count s" "currentIndex s \<noteq> i"
    and g: "\<not> multitaskview s" "\<not> blockActivate s" "rootPresent s"
    and k: "primarySeat s = Some k" "getSeatContainer s k = Some m" "ss_activated m \<noteq> Some f"
    and f: "latestActiveSurface (models s ! nat i) = Some f" "stands_for (Suc n) s f f"
      "hasActiveCapability (wrappers s f)" "\<not> showOnWorkspace (wrappers s f) (m_id (models s ! nat i))"
  shows "switchTo (\<lambda>x. perform (Suc (Suc n)) (ActivateSurface x None True)) i animated s = Inl QAssert"
proof -
  let ?s = "emit DismissAllPopups s"
  have inv0: "ws_inv ?s" by (rule ws_inv_cong [OF inv]) simp_all
  obtain s1 where sc: "setCurrentIndex i ?s = Inr s1"
    using setCurrentIndex_spec [OF inv0 i(1)] i by (auto simp: ws_count_def)
  note w = switched_state [OF inv i sc]
  note e = more_focusD [OF w(2)] and core = core_of_queries [OF w(3) [rule_format]]
  have "perform (Suc (Suc n)) (ActivateSurface (Some f) None True) s1 = Inl QAssert"
    by (rule activate_absent [OF _ _ _ _ _ _ _ w(4)])
      (use f g k w(5) in \<open>simp_all add: core_stands [OF w(3)] core e\<close>)
  then show ?thesis using i sc w f(1) g(1) by (simp add: switchTo_def Let_def del: perform.simps)
qed

text \<open>Window 3 of workspace 0 at the front of the history of workspace 1.\<close>

definition demo_stale :: fstate where
  "demo_stale = demo_fstate\<lparr>models := map (\<lambda>m. if m_id m = 1 then m\<lparr>m_history := [3]\<rparr> else m) (models demo_fstate)\<rparr>"

theorem switchTo_stale_history_asserts_witness:
  "switchTo (\<lambda>x. perform (Suc (Suc 2)) (ActivateSurface x None True)) 1 True demo_stale = Inl QAssert"
proof -
  have "hist_only demo_fstate demo_stale (\<lambda>m. if m_id m = 1 then [3] else m_history m)"
    by (simp add: hist_only_def demo_stale_def demo_fstate_simps) (simp add: demo_ws_def newWorkspaceModel_def)
  then have inv: "ws_inv demo_stale" by (rule hist_only_inv) (rule demo_fstate_inv)
  have ms: "models demo_stale = [models demo_ws ! 0, (models demo_ws ! 1)\<lparr>m_history := [3]\<rparr>]"
    by (simp add: demo_stale_def demo_fstate_simps) (simp add: demo_ws_def newWorkspaceModel_def)
  have w: "wrappers demo_stale = wrappers demo_fstate" by (simp add: demo_stale_def)
  have g: "\<not> multitaskview demo_stale" "\<not> blockActivate demo_stale" "rootPresent demo_stale"
    "primarySeat demo_stale = Some 0" "currentIndex demo_stale \<noteq> 1" "1 < ws_count demo_stale"
    using ms by (simp_all add: demo_stale_def demo_fstate_simps ws_count_def)
  have k: "getSeatContainer demo_stale 0 = Some (newSeatSurfaceManager\<lparr>ss_activated := Some 5, ss_keyboardFocus := Some 5\<rparr>)"
    using demo_fstate_simps(13) by (simp add: demo_stale_def getSeatContainer_def)
  have f: "latestActiveSurface (models demo_stale ! nat 1) = Some 3"
    "m_id (models demo_stale ! nat 1) = 1" by (simp_all add: ms latestActiveSurface_def) (simp add: demo_ws_def newWorkspaceModel_def)
  have s: "stands_for (Suc 2) demo_stale 3 3" "hasActiveCapability (wrappers demo_stale 3)"
    "\<not> showOnWorkspace (wrappers demo_stale 3) (m_id (models demo_stale ! nat 1))"
    unfolding f(2) stands_for_def w
    by (simp_all add: demo_fstate_simps demo_ws_def demo_wrapper_def blank_wrapper_def
        acceptKeyboardFocus_def testFlag_def AcceptKeyboardFocus_def numeral_3_eq_3 hasActiveCapability_def
        FullStates_def showOnWorkspace_def showOnAllWorkspace_def isInputPopupLike_def ShowOnAllWorkspaceId_def)
  show ?thesis
    by (rule switchTo_stale_history_asserts [OF inv _ g(6,5,1,2,3,4) k _ f(1) s]) simp_all
qed

end
