(* ===== verification/Gestures.thy ===== *)
theory Gestures
  imports Treeland_Prelude
begin

text \<open>
  src/src/input/swipegesture.cpp and holdgesture.cpp: the gestures a touchpad can make. Gestures
  are identified by natural numbers; their signals are values of \<open>gsignal\<close>. A \<^verbatim>\<open>qreal\<close> is a real
  number, and where the code can compute 0/0 the value is \<open>None\<close> for NaN.
\<close>

type_synonym gid = nat
type_synonym point = "real \<times> real"

datatype direction = SwipeInvalid | SwipeDown | SwipeLeft | SwipeUp | SwipeRight

datatype gsignal =
    Started gid | Triggered gid | Cancelled gid | Progress gid "real option" | DeltaProgress gid point
  | LongPressed gid

section \<open>Swipes\<close>

record swipe_gesture =
  minimumFingerCountIsRelevant :: bool
  minimumFingerCount :: nat
  maximumFingerCountIsRelevant :: bool
  maximumFingerCount :: nat
  direction :: direction
  minimumXIsRelevant :: bool
  minimumX :: int
  minimumYIsRelevant :: bool
  minimumY :: int
  maximumXIsRelevant :: bool
  maximumX :: int
  maximumYIsRelevant :: bool
  maximumY :: int
  minimumDeltaRelevant :: bool
  minimumDelta :: point

definition newSwipeGesture :: swipe_gesture where
  "newSwipeGesture =
     \<lparr>minimumFingerCountIsRelevant = False, minimumFingerCount = 0,
      maximumFingerCountIsRelevant = False, maximumFingerCount = 0, direction = SwipeDown,
      minimumXIsRelevant = False, minimumX = 0, minimumYIsRelevant = False, minimumY = 0,
      maximumXIsRelevant = False, maximumX = 0, maximumYIsRelevant = False, maximumY = 0,
      minimumDeltaRelevant = False, minimumDelta = (0, 0)\<rparr>"

definition sw_setMinimumFingerCount :: "nat \<Rightarrow> swipe_gesture \<Rightarrow> swipe_gesture" where
  "sw_setMinimumFingerCount n g = g\<lparr>minimumFingerCount := n, minimumFingerCountIsRelevant := True\<rparr>"

definition sw_setMaximumFingerCount :: "nat \<Rightarrow> swipe_gesture \<Rightarrow> swipe_gesture" where
  "sw_setMaximumFingerCount n g = g\<lparr>maximumFingerCount := n, maximumFingerCountIsRelevant := True\<rparr>"

definition setDirection :: "direction \<Rightarrow> swipe_gesture \<Rightarrow> swipe_gesture" where
  "setDirection d g = g\<lparr>direction := d\<rparr>"

definition setMinimumX :: "int \<Rightarrow> swipe_gesture \<Rightarrow> swipe_gesture" where
  "setMinimumX x g = g\<lparr>minimumX := x, minimumXIsRelevant := True\<rparr>"

definition setMinimumY :: "int \<Rightarrow> swipe_gesture \<Rightarrow> swipe_gesture" where
  "setMinimumY y g = g\<lparr>minimumY := y, minimumYIsRelevant := True\<rparr>"

definition setMaximumX :: "int \<Rightarrow> swipe_gesture \<Rightarrow> swipe_gesture" where
  "setMaximumX x g = g\<lparr>maximumX := x, maximumXIsRelevant := True\<rparr>"

definition setMaximumY :: "int \<Rightarrow> swipe_gesture \<Rightarrow> swipe_gesture" where
  "setMaximumY y g = g\<lparr>maximumY := y, maximumYIsRelevant := True\<rparr>"

text \<open>\<^verbatim>\<open>QRect::right()\<close> is \<open>x + width - 1\<close> and \<^verbatim>\<open>bottom()\<close> is \<open>y + height - 1\<close>.\<close>

definition setStartGeometry :: "int \<Rightarrow> int \<Rightarrow> int \<Rightarrow> int \<Rightarrow> swipe_gesture \<Rightarrow> swipe_gesture result" where
  "setStartGeometry x y w h g =
     (let g = setMinimumX x g; g = setMinimumY y g;
          g = setMaximumX (x + w - 1) g; g = setMaximumY (y + h - 1) g in
      rbind (qassert (maximumX g \<ge> minimumX g)) (\<lambda>_.
      rbind (qassert (maximumY g \<ge> minimumY g)) (\<lambda>_. Inr g)))"

definition setMinimumDelta :: "point \<Rightarrow> swipe_gesture \<Rightarrow> swipe_gesture" where
  "setMinimumDelta d g = g\<lparr>minimumDelta := d, minimumDeltaRelevant := True\<rparr>"

text \<open>\<^verbatim>\<open>std::min(std::abs(d) / std::abs(m), 1.0)\<close> of IEEE numbers: a division of a nonzero number by
  zero gives infinity and the minimum is 1; 0/0 is NaN and \<^verbatim>\<open>std::min\<close> returns it.\<close>

definition ratio :: "real \<Rightarrow> real \<Rightarrow> real option" where
  "ratio d m = (if m = 0 then (if d = 0 then None else Some 1) else Some (min (\<bar>d\<bar> / \<bar>m\<bar>) 1))"

definition deltaToProgress :: "swipe_gesture \<Rightarrow> point \<Rightarrow> real option result" where
  "deltaToProgress g delta =
     (if \<not> minimumDeltaRelevant g \<and> minimumDelta g = (0, 0) then Inr (Some 1)
      else case direction g of
             SwipeUp \<Rightarrow> Inr (ratio (snd delta) (snd (minimumDelta g)))
           | SwipeDown \<Rightarrow> Inr (ratio (snd delta) (snd (minimumDelta g)))
           | SwipeLeft \<Rightarrow> Inr (ratio (fst delta) (fst (minimumDelta g)))
           | SwipeRight \<Rightarrow> Inr (ratio (fst delta) (fst (minimumDelta g)))
           | SwipeInvalid \<Rightarrow> Inl QAssert)"

definition minimumDeltaReached :: "swipe_gesture \<Rightarrow> point \<Rightarrow> bool result" where
  "minimumDeltaReached g delta =
     rbind (deltaToProgress g delta) (\<lambda>p. Inr (case p of None \<Rightarrow> False | Some v \<Rightarrow> v \<ge> 1))"

definition opposite :: "direction \<Rightarrow> direction" where
  "opposite d =
     (case d of
        SwipeInvalid \<Rightarrow> SwipeInvalid | SwipeDown \<Rightarrow> SwipeUp | SwipeUp \<Rightarrow> SwipeDown
      | SwipeLeft \<Rightarrow> SwipeRight | SwipeRight \<Rightarrow> SwipeLeft)"

section \<open>Holds\<close>

text \<open>\<open>h_timerActive\<close> is the state of the single-shot timer.\<close>

record hold_gesture =
  h_minimumFingerCountIsRelevant :: bool
  h_minimumFingerCount :: nat
  h_maximumFingerCountIsRelevant :: bool
  h_maximumFingerCount :: nat
  h_interval :: int
  h_timerActive :: bool

definition newHoldGesture :: hold_gesture where
  "newHoldGesture =
     \<lparr>h_minimumFingerCountIsRelevant = False, h_minimumFingerCount = 0,
      h_maximumFingerCountIsRelevant = False, h_maximumFingerCount = 0,
      h_interval = 0, h_timerActive = False\<rparr>"

definition hold_setMinimumFingerCount :: "nat \<Rightarrow> hold_gesture \<Rightarrow> hold_gesture" where
  "hold_setMinimumFingerCount n g =
     (if n = h_minimumFingerCount g then g
      else g\<lparr>h_minimumFingerCount := n, h_minimumFingerCountIsRelevant := True\<rparr>)"

definition hold_setMaximumFingerCount :: "nat \<Rightarrow> hold_gesture \<Rightarrow> hold_gesture" where
  "hold_setMaximumFingerCount n g =
     (if n = h_maximumFingerCount g then g
      else g\<lparr>h_maximumFingerCount := n, h_maximumFingerCountIsRelevant := True\<rparr>)"

definition hold_setInterval :: "int \<Rightarrow> hold_gesture \<Rightarrow> hold_gesture" where
  "hold_setInterval msec g = g\<lparr>h_interval := msec\<rparr>"

definition startTimer :: "hold_gesture \<Rightarrow> hold_gesture" where
  "startTimer g = g\<lparr>h_timerActive := True\<rparr>"

definition stopTimer :: "hold_gesture \<Rightarrow> hold_gesture" where
  "stopTimer g = g\<lparr>h_timerActive := False\<rparr>"

text \<open>The timer expires.\<close>

definition holdTimeout :: "gid \<Rightarrow> hold_gesture \<Rightarrow> hold_gesture \<times> gsignal list" where
  "holdTimeout i g = (if h_timerActive g then (g\<lparr>h_timerActive := False\<rparr>, [LongPressed i]) else (g, []))"

section \<open>Progress\<close>

lemma opposite_opposite [simp]: "opposite (opposite d) = d"
  by (cases d) (simp_all add: opposite_def)

lemma opposite_neq: "d \<noteq> SwipeInvalid \<Longrightarrow> opposite d \<noteq> d"
  by (cases d) (simp_all add: opposite_def)

lemma opposite_invalid [simp]: "opposite d = SwipeInvalid \<longleftrightarrow> d = SwipeInvalid"
  by (cases d) (simp_all add: opposite_def)

definition along :: "direction \<Rightarrow> point \<Rightarrow> real" where
  "along d p = (if d \<in> {SwipeLeft, SwipeRight} then fst p else snd p)"

lemma deltaToProgress_relevant:
  "minimumDeltaRelevant g \<Longrightarrow> direction g \<noteq> SwipeInvalid \<Longrightarrow>
   deltaToProgress g p = Inr (ratio (along (direction g) p) (along (direction g) (minimumDelta g)))"
  by (cases "direction g") (simp_all add: deltaToProgress_def along_def)

lemma ratio_bounds: "ratio d m = Some v \<Longrightarrow> 0 \<le> v \<and> v \<le> 1"
  by (auto simp: ratio_def split: if_splits)

lemma ratio_mono: "m \<noteq> 0 \<Longrightarrow> \<bar>d\<bar> \<le> \<bar>e\<bar> \<Longrightarrow> the (ratio d m) \<le> the (ratio e m)"
proof -
  assume "m \<noteq> 0" "\<bar>d\<bar> \<le> \<bar>e\<bar>"
  then have "\<bar>d\<bar> / \<bar>m\<bar> \<le> \<bar>e\<bar> / \<bar>m\<bar>" by (simp add: divide_right_mono)
  with \<open>m \<noteq> 0\<close> show ?thesis by (simp add: ratio_def min_le_iff_disj)
qed

lemma ratio_full: "m \<noteq> 0 \<Longrightarrow> ratio d m = Some 1 \<longleftrightarrow> \<bar>m\<bar> \<le> \<bar>d\<bar>"
  by (auto simp: ratio_def min_def field_simps)

text \<open>The progress of a swipe with a nonzero minimum distance along its direction is a number
  between 0 and 1 that grows with the distance and is 1, so that the swipe triggers, exactly when
  the distance reaches the minimum; the direction of travel does not matter.\<close>

theorem progress_bounded:
  assumes "minimumDeltaRelevant g" "direction g \<noteq> SwipeInvalid" "along (direction g) (minimumDelta g) \<noteq> 0"
    "\<bar>along (direction g) p\<bar> \<le> \<bar>along (direction g) q\<bar>"
  shows "\<exists>v w. deltaToProgress g p = Inr (Some v) \<and> deltaToProgress g q = Inr (Some w)
     \<and> 0 \<le> v \<and> v \<le> w \<and> w \<le> 1
     \<and> minimumDeltaReached g q = Inr (\<bar>along (direction g) (minimumDelta g)\<bar> \<le> \<bar>along (direction g) q\<bar>)"
proof -
  let ?m = "along (direction g) (minimumDelta g)"
  obtain v w where vw: "ratio (along (direction g) p) ?m = Some v" "ratio (along (direction g) q) ?m = Some w"
    using assms(3) by (simp add: ratio_def)
  have "v \<le> w" using ratio_mono [OF assms(3,4)] vw by simp
  moreover have "w \<ge> 1 \<longleftrightarrow> \<bar>?m\<bar> \<le> \<bar>along (direction g) q\<bar>"
    using ratio_full [OF assms(3), of "along (direction g) q"] ratio_bounds [OF vw(2)] vw(2) by auto
  ultimately show ?thesis
    using vw ratio_bounds [OF vw(1)] ratio_bounds [OF vw(2)] deltaToProgress_relevant [OF assms(1,2)]
    by (simp add: minimumDeltaReached_def)
qed

theorem progress_bounded_witness:
  "\<exists>v. deltaToProgress (setMinimumDelta (200, 200) newSwipeGesture) (0, - 50) = Inr (Some v) \<and> 0 \<le> v \<and> v \<le> 1"
proof -
  let ?g = "setMinimumDelta (200, 200) newSwipeGesture"
  have "minimumDeltaRelevant ?g" "direction ?g \<noteq> SwipeInvalid" "along (direction ?g) (minimumDelta ?g) \<noteq> 0"
    "\<bar>along (direction ?g) (0, - 50)\<bar> \<le> \<bar>along (direction ?g) (0, - 50)\<bar>"
    by (simp_all add: setMinimumDelta_def newSwipeGesture_def along_def)
  from progress_bounded [OF this] show ?thesis by auto
qed

end
