(* ===== verification/Gesture_Recognizer.thy ===== *)
theory Gesture_Recognizer
  imports Gestures
begin

text \<open>
  src/src/input/gesturerecognizer.cpp: which of the registered gestures the fingers are making. The
  gesture objects live in the stores \<open>swipe\<close> and \<open>hold\<close>; the signals they emit are appended to
  \<open>signals\<close>. The slots of these signals do not call back into the recognizer.
\<close>

datatype axis = Horizontal | Vertical | NoAxis

datatype start_position_behavior = Relevant | Irrelevant

record recognizer =
  swipe :: "gid \<Rightarrow> swipe_gesture"
  hold :: "gid \<Rightarrow> hold_gesture"
  swipeGestures :: "gid list"
  activeSwipeGestures :: "gid list"
  holdGestures :: "gid list"
  activeHoldGestures :: "gid list"
  currentDelta :: point
  currentFingerCount :: nat
  holdInterval :: int
  currentSwipeAxis :: axis
  signals :: "gsignal list"

definition newGestureRecognizer :: recognizer where
  "newGestureRecognizer =
     \<lparr>swipe = (\<lambda>_. newSwipeGesture), hold = (\<lambda>_. newHoldGesture), swipeGestures = [],
      activeSwipeGestures = [], holdGestures = [], activeHoldGestures = [], currentDelta = (0, 0),
      currentFingerCount = 0, holdInterval = 0, currentSwipeAxis = NoAxis, signals = []\<rparr>"

definition send :: "gsignal list \<Rightarrow> recognizer \<Rightarrow> recognizer" where
  "send es r = r\<lparr>signals := signals r @ es\<rparr>"

section \<open>Swipes\<close>

definition registerSwipeGesture :: "gid \<Rightarrow> recognizer \<Rightarrow> recognizer result" where
  "registerSwipeGesture g r =
     rbind (qassert (g \<notin> set (swipeGestures r))) (\<lambda>_.
       Inr (r\<lparr>swipeGestures := swipeGestures r @ [g]\<rparr>))"

text \<open>The slot connected to the gesture's \<^verbatim>\<open>destroyed\<close> signal.\<close>

definition swipeDestroyed :: "gid \<Rightarrow> recognizer \<Rightarrow> recognizer" where
  "swipeDestroyed g r =
     r\<lparr>swipeGestures := remove1 g (swipeGestures r),
       activeSwipeGestures := remove1 g (activeSwipeGestures r)\<rparr>"

definition unregisterSwipeGesture :: "gid \<Rightarrow> recognizer \<Rightarrow> recognizer" where
  "unregisterSwipeGesture g r =
     (let r = r\<lparr>swipeGestures := remove1 g (swipeGestures r)\<rparr> in
      if g \<in> set (activeSwipeGestures r)
      then send [Cancelled g] (r\<lparr>activeSwipeGestures := remove1 g (activeSwipeGestures r)\<rparr>)
      else r)"

definition admits :: "nat \<Rightarrow> swipe_gesture \<Rightarrow> bool" where
  "admits fingerCount g =
     (\<not> (minimumFingerCountIsRelevant g \<and> minimumFingerCount g > fingerCount
         \<or> maximumFingerCountIsRelevant g \<and> maximumFingerCount g < fingerCount))"

definition starts_within :: "point \<Rightarrow> swipe_gesture \<Rightarrow> bool" where
  "starts_within pos g =
     (\<not> (minimumXIsRelevant g \<and> real_of_int (minimumX g) > fst pos
         \<or> maximumXIsRelevant g \<and> real_of_int (maximumX g) < fst pos
         \<or> minimumYIsRelevant g \<and> real_of_int (minimumY g) > snd pos
         \<or> maximumYIsRelevant g \<and> real_of_int (maximumY g) < snd pos))"

definition on_axis :: "axis \<Rightarrow> direction \<Rightarrow> bool" where
  "on_axis a d =
     (case d of
        SwipeUp \<Rightarrow> a \<noteq> Horizontal | SwipeDown \<Rightarrow> a \<noteq> Horizontal
      | SwipeLeft \<Rightarrow> a \<noteq> Vertical | SwipeRight \<Rightarrow> a \<noteq> Vertical
      | SwipeInvalid \<Rightarrow> False)"

definition startOne ::
  "nat \<Rightarrow> point \<Rightarrow> start_position_behavior \<Rightarrow> gid \<Rightarrow> int \<times> recognizer \<Rightarrow> int \<times> recognizer" where
  "startOne fingerCount pos behavior i cr =
     (let (count, r) = cr; g = swipe r i in
      if \<not> admits fingerCount g then (count, r)
      else if behavior = Relevant \<and> \<not> starts_within pos g then (count, r)
      else if currentSwipeAxis r = NoAxis then (count, r)
      else if \<not> on_axis (currentSwipeAxis r) (direction g) then (count, r)
      else (count + 1, send [Started i] (r\<lparr>activeSwipeGestures := activeSwipeGestures r @ [i]\<rparr>)))"

definition startSwipeGestureAt ::
  "nat \<Rightarrow> point \<Rightarrow> start_position_behavior \<Rightarrow> recognizer \<Rightarrow> int \<times> recognizer" where
  "startSwipeGestureAt fingerCount pos behavior r =
     (let r = r\<lparr>currentFingerCount := fingerCount\<rparr> in
      if activeSwipeGestures r \<noteq> [] then (0, r)
      else fold (startOne fingerCount pos behavior) (swipeGestures r) (0, r))"

definition startSwipeGesture :: "nat \<Rightarrow> recognizer \<Rightarrow> int \<times> recognizer" where
  "startSwipeGesture fingerCount r = startSwipeGestureAt fingerCount (0, 0) Irrelevant r"

definition startSwipeGesturePos :: "point \<Rightarrow> recognizer \<Rightarrow> int \<times> recognizer" where
  "startSwipeGesturePos startPos r = startSwipeGestureAt 1 startPos Relevant r"

definition SWIPE_MINIMUM_DELTA :: real where "SWIPE_MINIMUM_DELTA = 5"

definition dominant_axis :: "point \<Rightarrow> axis" where
  "dominant_axis p = (if \<bar>fst p\<bar> \<ge> \<bar>snd p\<bar> then Horizontal else Vertical)"

definition swipe_direction :: "axis \<Rightarrow> point \<Rightarrow> direction" where
  "swipe_direction a p =
     (case a of
        Vertical \<Rightarrow> if snd p < 0 then SwipeUp else SwipeDown
      | Horizontal \<Rightarrow> if fst p < 0 then SwipeLeft else SwipeRight
      | NoAxis \<Rightarrow> SwipeInvalid)"

definition lock_axis :: "axis \<Rightarrow> point \<Rightarrow> axis" where
  "lock_axis a p =
     (if a \<noteq> NoAxis then a
      else if \<bar>fst p\<bar> \<ge> SWIPE_MINIMUM_DELTA \<or> \<bar>snd p\<bar> \<ge> SWIPE_MINIMUM_DELTA then dominant_axis p
      else NoAxis)"

definition eliminate :: "direction \<Rightarrow> recognizer \<Rightarrow> recognizer" where
  "eliminate d r =
     (let r = (if activeSwipeGestures r = [] then snd (startSwipeGesture (currentFingerCount r) r) else r)
      in r\<lparr>activeSwipeGestures := filter (\<lambda>i. direction (swipe r i) = d) (activeSwipeGestures r)\<rparr>)"

definition reportProgress :: "gid \<Rightarrow> recognizer \<Rightarrow> recognizer result" where
  "reportProgress i r =
     rbind (deltaToProgress (swipe r i) (currentDelta r)) (\<lambda>p.
       Inr (send [Progress i p, DeltaProgress i (currentDelta r)] r))"

definition updateSwipeGesture :: "point \<Rightarrow> recognizer \<Rightarrow> recognizer result" where
  "updateSwipeGesture delta r =
     (let r = r\<lparr>currentDelta := (fst (currentDelta r) + fst delta, snd (currentDelta r) + snd delta)\<rparr>;
          swipeAxis = (if currentSwipeAxis r = NoAxis then dominant_axis (currentDelta r)
                       else currentSwipeAxis r);
          r = r\<lparr>currentSwipeAxis := lock_axis (currentSwipeAxis r) (currentDelta r)\<rparr>;
          d = swipe_direction swipeAxis (currentDelta r);
          r = eliminate d (eliminate d r)
      in rfold reportProgress (activeSwipeGestures r) r)"

definition cancelSwipeActiveGestures :: "recognizer \<Rightarrow> recognizer" where
  "cancelSwipeActiveGestures r =
     (let r = send (map Cancelled (activeSwipeGestures r)) r
      in r\<lparr>activeSwipeGestures := [], currentDelta := (0, 0), currentSwipeAxis := NoAxis\<rparr>)"

definition cancelSwipeGesture :: "recognizer \<Rightarrow> recognizer" where
  "cancelSwipeGesture r =
     (cancelSwipeActiveGestures r)
       \<lparr>currentFingerCount := 0, currentDelta := (0, 0), currentSwipeAxis := NoAxis\<rparr>"

definition finishOne :: "point \<Rightarrow> gid \<Rightarrow> recognizer \<Rightarrow> recognizer result" where
  "finishOne delta i r =
     rbind (minimumDeltaReached (swipe r i) delta) (\<lambda>reached.
       Inr (send [if reached then Triggered i else Cancelled i] r))"

definition endSwipeGesture :: "recognizer \<Rightarrow> recognizer result" where
  "endSwipeGesture r =
     rbind (rfold (finishOne (currentDelta r)) (activeSwipeGestures r) r) (\<lambda>r.
       Inr (r\<lparr>activeSwipeGestures := [], currentFingerCount := 0, currentDelta := (0, 0),
              currentSwipeAxis := NoAxis\<rparr>))"

section \<open>Holds\<close>

definition mod_hold :: "(hold_gesture \<Rightarrow> hold_gesture) \<Rightarrow> gid \<Rightarrow> recognizer \<Rightarrow> recognizer" where
  "mod_hold f i r = r\<lparr>hold := (hold r)(i := f (hold r i))\<rparr>"

definition registerHoldGesture :: "gid \<Rightarrow> recognizer \<Rightarrow> recognizer result" where
  "registerHoldGesture g r =
     rbind (qassert (g \<notin> set (holdGestures r))) (\<lambda>_.
       let r = mod_hold (hold_setInterval (holdInterval r)) g r
       in Inr (r\<lparr>holdGestures := holdGestures r @ [g]\<rparr>))"

definition setHoldTimeout :: "int \<Rightarrow> recognizer \<Rightarrow> recognizer" where
  "setHoldTimeout msec r =
     fold (mod_hold (hold_setInterval msec)) (holdGestures r) (r\<lparr>holdInterval := msec\<rparr>)"

definition unregisterHoldGesture :: "gid \<Rightarrow> recognizer \<Rightarrow> recognizer" where
  "unregisterHoldGesture g r =
     (let r = r\<lparr>holdGestures := remove1 g (holdGestures r)\<rparr> in
      if g \<in> set (activeHoldGestures r)
      then send [Cancelled g] (r\<lparr>activeHoldGestures := remove1 g (activeHoldGestures r)\<rparr>)
      else r)"

definition startHoldOne :: "nat \<Rightarrow> gid \<Rightarrow> recognizer \<Rightarrow> recognizer" where
  "startHoldOne fingerCount i r =
     (let g = hold r i in
      if h_timerActive g then r
      else if h_minimumFingerCountIsRelevant g \<and> h_minimumFingerCount g > fingerCount
              \<or> h_maximumFingerCountIsRelevant g \<and> h_maximumFingerCount g < fingerCount then r
      else (mod_hold startTimer i r)\<lparr>activeHoldGestures := activeHoldGestures r @ [i]\<rparr>)"

definition startHoldGesture :: "nat \<Rightarrow> recognizer \<Rightarrow> recognizer" where
  "startHoldGesture fingerCount r =
     fold (startHoldOne fingerCount) (holdGestures r) (r\<lparr>currentFingerCount := fingerCount\<rparr>)"

definition endHoldOne :: "gid \<Rightarrow> recognizer \<Rightarrow> recognizer" where
  "endHoldOne i r =
     (let r = (if h_timerActive (hold r i) then mod_hold stopTimer i r else r) in send [Cancelled i] r)"

definition endHoldGesture :: "recognizer \<Rightarrow> recognizer" where
  "endHoldGesture r =
     (fold endHoldOne (activeHoldGestures r) r)\<lparr>activeHoldGestures := [], currentFingerCount := 0\<rparr>"

definition holdTimerFires :: "gid \<Rightarrow> recognizer \<Rightarrow> recognizer" where
  "holdTimerFires i r =
     (let (g, es) = holdTimeout i (hold r i) in send es (r\<lparr>hold := (hold r)(i := g)\<rparr>))"

section \<open>Selecting the gestures of a swipe\<close>

lemma send_simps [simp]:
  "swipe (send es r) = swipe r" "swipeGestures (send es r) = swipeGestures r"
  "activeSwipeGestures (send es r) = activeSwipeGestures r" "currentDelta (send es r) = currentDelta r"
  "currentFingerCount (send es r) = currentFingerCount r" "currentSwipeAxis (send es r) = currentSwipeAxis r"
  "signals (send es r) = signals r @ es" "hold (send es r) = hold r"
  "holdGestures (send es r) = holdGestures r" "activeHoldGestures (send es r) = activeHoldGestures r"
  "holdInterval (send es r) = holdInterval r"
  by (simp_all add: send_def)

definition startable :: "nat \<Rightarrow> point \<Rightarrow> start_position_behavior \<Rightarrow> axis \<Rightarrow> swipe_gesture \<Rightarrow> bool" where
  "startable f pos b a g =
     (admits f g \<and> (b = Relevant \<longrightarrow> starts_within pos g) \<and> a \<noteq> NoAxis \<and> on_axis a (direction g))"

lemma startOne_eq:
  "startOne f pos b i (n, r) =
     (if startable f pos b (currentSwipeAxis r) (swipe r i)
      then (n + 1, r\<lparr>activeSwipeGestures := activeSwipeGestures r @ [i], signals := signals r @ [Started i]\<rparr>)
      else (n, r))"
  by (auto simp: startOne_def startable_def send_def Let_def)

lemma fold_startOne:
  "fold (startOne f pos b) xs (n, r) =
     (let ys = filter (\<lambda>i. startable f pos b (currentSwipeAxis r) (swipe r i)) xs in
      (n + int (length ys),
       r\<lparr>activeSwipeGestures := activeSwipeGestures r @ ys, signals := signals r @ map Started ys\<rparr>))"
proof (induction xs arbitrary: n r)
  case Nil
  then show ?case by simp
next
  case (Cons x xs)
  then show ?case by (simp add: startOne_eq Let_def)
qed

lemma startSwipeGestureAt_idle:
  "activeSwipeGestures r = [] \<Longrightarrow>
   startSwipeGestureAt f pos b r =
     (let ys = filter (\<lambda>i. startable f pos b (currentSwipeAxis r) (swipe r i)) (swipeGestures r) in
      (int (length ys),
       r\<lparr>currentFingerCount := f, activeSwipeGestures := ys, signals := signals r @ map Started ys\<rparr>))"
  by (simp add: startSwipeGestureAt_def fold_startOne Let_def)

text \<open>The registered gestures a swipe with \<open>f\<close> fingers in direction \<open>d\<close> makes.\<close>

definition matching :: "recognizer \<Rightarrow> nat \<Rightarrow> direction \<Rightarrow> gid list" where
  "matching r f d = filter (\<lambda>i. admits f (swipe r i) \<and> direction (swipe r i) = d) (swipeGestures r)"

lemma swipe_direction_valid:
  "a \<noteq> NoAxis \<Longrightarrow> swipe_direction a p \<noteq> SwipeInvalid \<and> on_axis a (swipe_direction a p)"
  by (cases a) (simp_all add: swipe_direction_def on_axis_def)

lemma dominant_axis_locked [simp]: "dominant_axis p \<noteq> NoAxis"
  by (simp add: dominant_axis_def)

lemma eliminate_idle:
  assumes "activeSwipeGestures r = []" "currentSwipeAxis r \<noteq> NoAxis \<Longrightarrow> on_axis (currentSwipeAxis r) d"
  shows "\<exists>es. eliminate d r = r\<lparr>signals := signals r @ map Started es, activeSwipeGestures :=
     (if currentSwipeAxis r = NoAxis then [] else matching r (currentFingerCount r) d)\<rparr>"
proof -
  let ?ys = "filter (\<lambda>i. startable (currentFingerCount r) (0, 0) Irrelevant (currentSwipeAxis r) (swipe r i)) (swipeGestures r)"
  have "eliminate d r = r\<lparr>signals := signals r @ map Started ?ys,
      activeSwipeGestures := filter (\<lambda>i. direction (swipe r i) = d) ?ys\<rparr>"
    using assms(1) by (simp add: eliminate_def startSwipeGesture_def startSwipeGestureAt_idle Let_def)
  moreover have "filter (\<lambda>i. direction (swipe r i) = d) ?ys =
      (if currentSwipeAxis r = NoAxis then [] else matching r (currentFingerCount r) d)"
  proof (cases "currentSwipeAxis r = NoAxis")
    case True
    then show ?thesis by (simp add: startable_def)
  next
    case False
    have "(startable (currentFingerCount r) (0, 0) Irrelevant (currentSwipeAxis r) g \<and> direction g = d) =
        (admits (currentFingerCount r) g \<and> direction g = d)" for g
      using assms(2) False by (auto simp: startable_def)
    with False show ?thesis by (simp add: matching_def)
  qed
  ultimately show ?thesis by (intro exI [of _ ?ys]) (simp del: filter_filter)
qed

lemma eliminate_busy:
  assumes "activeSwipeGestures r = matching r (currentFingerCount r) d0" "activeSwipeGestures r \<noteq> []"
  shows "eliminate d r = r\<lparr>activeSwipeGestures := (if d = d0 then matching r (currentFingerCount r) d0 else [])\<rparr>"
proof -
  have "filter (\<lambda>i. direction (swipe r i) = d) (matching r (currentFingerCount r) d0) =
      (if d = d0 then matching r (currentFingerCount r) d0 else [])"
  proof (cases "d = d0")
    case True
    then show ?thesis by (auto simp: matching_def intro: filter_cong)
  next
    case False
    then show ?thesis by (auto simp: matching_def filter_empty_conv)
  qed
  with assms show ?thesis by (simp add: eliminate_def)
qed

text \<open>The active gestures are those of one direction, and there are none before the axis is locked.\<close>

definition selected :: "recognizer \<Rightarrow> bool" where
  "selected r =
     ((currentSwipeAxis r = NoAxis \<longrightarrow> activeSwipeGestures r = [])
      \<and> (activeSwipeGestures r = [] \<or> (\<exists>d. activeSwipeGestures r = matching r (currentFingerCount r) d)))"

lemma matching_signals [simp]:
  "matching (r\<lparr>signals := x\<rparr>) f d = matching r f d"
  "matching (r\<lparr>activeSwipeGestures := y\<rparr>) f d = matching r f d"
  "matching (r\<lparr>currentDelta := z\<rparr>) f d = matching r f d"
  "matching (r\<lparr>currentSwipeAxis := a\<rparr>) f d = matching r f d"
  "matching (r\<lparr>currentFingerCount := n\<rparr>) f d = matching r f d"
  by (simp_all add: matching_def)

lemma eliminate_twice:
  assumes "selected r" "currentSwipeAxis r \<noteq> NoAxis \<Longrightarrow> on_axis (currentSwipeAxis r) d"
  shows "\<exists>es. eliminate d (eliminate d r) = r\<lparr>signals := signals r @ map Started es, activeSwipeGestures :=
     (if currentSwipeAxis r = NoAxis then [] else matching r (currentFingerCount r) d)\<rparr>"
proof (cases "activeSwipeGestures r = []")
  case True
  obtain es where e: "eliminate d r = r\<lparr>signals := signals r @ map Started es, activeSwipeGestures :=
     (if currentSwipeAxis r = NoAxis then [] else matching r (currentFingerCount r) d)\<rparr>"
    using eliminate_idle [OF True assms(2)] by blast
  let ?r = "eliminate d r"
  show ?thesis
  proof (cases "activeSwipeGestures ?r = []")
    case True
    have "currentSwipeAxis ?r \<noteq> NoAxis \<Longrightarrow> on_axis (currentSwipeAxis ?r) d" using assms(2) e by simp
    from eliminate_idle [OF True this] obtain fs where
      "eliminate d ?r = ?r\<lparr>signals := signals ?r @ map Started fs, activeSwipeGestures :=
         (if currentSwipeAxis ?r = NoAxis then [] else matching ?r (currentFingerCount ?r) d)\<rparr>" by blast
    then show ?thesis by (intro exI [of _ "es @ fs"]) (simp add: e)
  next
    case False
    then have "eliminate d ?r = ?r\<lparr>activeSwipeGestures := matching ?r (currentFingerCount ?r) d\<rparr>"
      using e by (subst eliminate_busy [of _ d]) (auto split: if_splits)
    with False show ?thesis by (intro exI [of _ es]) (auto simp: e split: if_splits)
  qed
next
  case False
  then obtain d0 where d0: "activeSwipeGestures r = matching r (currentFingerCount r) d0"
    and ax: "currentSwipeAxis r \<noteq> NoAxis" using assms(1) by (auto simp: selected_def)
  note b = eliminate_busy [OF d0 False, of d]
  show ?thesis
  proof (cases "d = d0")
    case True
    then have "eliminate d r = r" using b d0 by simp
    with True d0 ax show ?thesis by (intro exI [of _ "[]"]) simp
  next
    case F: False
    let ?r = "eliminate d r"
    have e: "?r = r\<lparr>activeSwipeGestures := []\<rparr>" using b F by simp
    have "activeSwipeGestures ?r = []" "currentSwipeAxis ?r \<noteq> NoAxis \<Longrightarrow> on_axis (currentSwipeAxis ?r) d"
      using e assms(2) by simp_all
    from eliminate_idle [OF this] obtain fs where
      "eliminate d ?r = ?r\<lparr>signals := signals ?r @ map Started fs, activeSwipeGestures :=
         (if currentSwipeAxis ?r = NoAxis then [] else matching ?r (currentFingerCount ?r) d)\<rparr>" by blast
    then show ?thesis by (intro exI [of _ fs]) (simp add: e ax)
  qed
qed


section \<open>A whole swipe\<close>

definition padd :: "point \<Rightarrow> point \<Rightarrow> point" where
  "padd p q = (fst p + fst q, snd p + snd q)"

text \<open>The axis a movement locks, from the axis and the distance so far, and the whole distance.\<close>

fun axis_after :: "axis \<Rightarrow> point \<Rightarrow> point list \<Rightarrow> axis" where
  "axis_after a p [] = a"
| "axis_after a p (d # ds) = axis_after (lock_axis a (padd p d)) (padd p d) ds"

definition travelled :: "point \<Rightarrow> point list \<Rightarrow> point" where
  "travelled p ds = fold (\<lambda>d q. padd q d) ds p"

definition final :: "gsignal \<Rightarrow> bool" where
  "final e = (case e of Triggered _ \<Rightarrow> True | Cancelled _ \<Rightarrow> True | LongPressed _ \<Rightarrow> True | _ \<Rightarrow> False)"

lemma final_simps [simp]:
  "final (Triggered i)" "final (Cancelled i)" "\<not> final (Started i)" "\<not> final (Progress i p)"
  "\<not> final (DeltaProgress i q)" "final (LongPressed i)"
  by (simp_all add: final_def)

definition quiet :: "gsignal list \<Rightarrow> bool" where
  "quiet es = (\<forall>e \<in> set es. \<not> final e)"

lemma quiet_simps [simp]:
  "quiet []" "quiet (xs @ ys) \<longleftrightarrow> quiet xs \<and> quiet ys" "quiet (map Started is)"
  "quiet [Progress i p, DeltaProgress i q]"
  by (auto simp: quiet_def)

definition selection :: "recognizer \<Rightarrow> nat \<Rightarrow> axis \<Rightarrow> point \<Rightarrow> gid list" where
  "selection r f a p = (if a = NoAxis then [] else matching r f (swipe_direction a p))"

lemma selection_simps [simp]:
  "selection (r\<lparr>signals := x\<rparr>) f a p = selection r f a p"
  "selection (r\<lparr>activeSwipeGestures := y\<rparr>) f a p = selection r f a p"
  "selection (r\<lparr>currentDelta := z\<rparr>) f a p = selection r f a p"
  "selection (r\<lparr>currentSwipeAxis := b\<rparr>) f a p = selection r f a p"
  "selection (r\<lparr>currentFingerCount := n\<rparr>) f a p = selection r f a p"
  by (simp_all add: selection_def)

text \<open>The progress among signals, and the progress a gesture reports at a distance.\<close>

definition progresses :: "gsignal list \<Rightarrow> gsignal list" where
  "progresses es = filter (\<lambda>e. case e of Progress _ _ \<Rightarrow> True | _ \<Rightarrow> False) es"

lemma progresses_simps [simp]:
  "progresses [] = []" "progresses (xs @ ys) = progresses xs @ progresses ys"
  "progresses (map Started is) = []" "progresses (Progress i p # es) = Progress i p # progresses es"
  "progresses (DeltaProgress i q # es) = progresses es"
  by (auto simp: progresses_def filter_empty_conv)

definition reported :: "recognizer \<Rightarrow> point \<Rightarrow> gid \<Rightarrow> gsignal" where
  "reported r p i = Progress i (case deltaToProgress (swipe r i) p of Inr v \<Rightarrow> v | Inl _ \<Rightarrow> None)"

fun progress_log :: "recognizer \<Rightarrow> nat \<Rightarrow> axis \<Rightarrow> point \<Rightarrow> point list \<Rightarrow> gsignal list" where
  "progress_log r f a p [] = []"
| "progress_log r f a p (d # ds) =
     map (reported r (padd p d)) (selection r f (lock_axis a (padd p d)) (padd p d))
     @ progress_log r f (lock_axis a (padd p d)) (padd p d) ds"

lemma reported_cong: "swipe r = swipe s \<Longrightarrow> reported r = reported s"
  by (intro ext) (simp add: reported_def)

lemma progress_log_cong:
  "swipe r = swipe s \<Longrightarrow> swipeGestures r = swipeGestures s \<Longrightarrow> progress_log r f a p ds = progress_log s f a p ds"
  by (induction ds arbitrary: a p) (simp_all add: reported_def selection_def matching_def)

text \<open>While the fingers move the active gestures are those of the present direction.\<close>

definition tracks :: "recognizer \<Rightarrow> bool" where
  "tracks r =
     (activeSwipeGestures r =
        selection r (currentFingerCount r) (currentSwipeAxis r) (currentDelta r))"

lemma tracks_selected: "tracks r \<Longrightarrow> selected r"
  by (auto simp: tracks_def selected_def selection_def)

lemma matching_direction: "i \<in> set (matching r f d) \<Longrightarrow> direction (swipe r i) = d"
  by (simp add: matching_def)

lemma selection_valid: "i \<in> set (selection r f a p) \<Longrightarrow> direction (swipe r i) \<noteq> SwipeInvalid"
  using swipe_direction_valid [of a p] by (auto simp: selection_def dest: matching_direction split: if_splits)

lemma deltaToProgress_returns: "direction g \<noteq> SwipeInvalid \<Longrightarrow> \<exists>p. deltaToProgress g d = Inr p"
  by (cases "direction g") (simp_all add: deltaToProgress_def)

lemma minimumDeltaReached_returns: "direction g \<noteq> SwipeInvalid \<Longrightarrow> \<exists>b. minimumDeltaReached g d = Inr b"
  using deltaToProgress_returns [of g d] by (auto simp: minimumDeltaReached_def)

lemma rfold_reportProgress:
  "\<forall>i \<in> set is. direction (swipe r i) \<noteq> SwipeInvalid \<Longrightarrow>
   \<exists>es. rfold reportProgress is r = Inr (r\<lparr>signals := signals r @ es\<rparr>) \<and> quiet es
     \<and> progresses es = map (reported r (currentDelta r)) is"
proof (induction "is" arbitrary: r)
  case Nil
  show ?case by (intro exI [of _ "[]"]) simp
next
  case (Cons i "is")
  obtain p where p: "deltaToProgress (swipe r i) (currentDelta r) = Inr p"
    using Cons.prems deltaToProgress_returns [of "swipe r i" "currentDelta r"] by auto
  let ?s = "send [Progress i p, DeltaProgress i (currentDelta r)] r"
  have "\<forall>i \<in> set is. direction (swipe ?s i) \<noteq> SwipeInvalid" using Cons.prems by simp
  from Cons.IH [OF this] obtain es where
    "rfold reportProgress is ?s = Inr (?s\<lparr>signals := signals ?s @ es\<rparr>)" "quiet es"
    "progresses es = map (reported ?s (currentDelta ?s)) is" by blast
  moreover have "reported ?s = reported r" by (rule reported_cong) simp
  moreover have "reported r (currentDelta r) i = Progress i p" by (simp add: reported_def p)
  ultimately show ?case using p
    by (intro exI [of _ "[Progress i p, DeltaProgress i (currentDelta r)] @ es"])
       (simp add: reportProgress_def [of i] send_def quiet_def)
qed

lemma updateSwipeGesture_selects:
  fixes r :: recognizer and delta :: point
  defines "p \<equiv> padd (currentDelta r) delta"
  defines "a \<equiv> lock_axis (currentSwipeAxis r) p"
  assumes "selected r"
  shows "\<exists>es. updateSwipeGesture delta r = Inr (r\<lparr>currentDelta := p, currentSwipeAxis := a,
      activeSwipeGestures := selection r (currentFingerCount r) a p,
      signals := signals r @ es\<rparr>) \<and> quiet es
      \<and> progresses es = map (reported r p) (selection r (currentFingerCount r) a p)"
proof -
  define b where "b = (if currentSwipeAxis r = NoAxis then dominant_axis p else currentSwipeAxis r)"
  define d where "d = swipe_direction b p"
  have ab: "a \<noteq> NoAxis \<Longrightarrow> a = b" by (cases "currentSwipeAxis r = NoAxis") (auto simp: a_def b_def lock_axis_def)
  have bn: "b \<noteq> NoAxis" by (simp add: b_def)
  let ?r = "r\<lparr>currentDelta := p, currentSwipeAxis := a\<rparr>"
  have sel: "selected ?r" using assms(3) by (auto simp: selected_def a_def lock_axis_def split: if_splits)
  have on: "currentSwipeAxis ?r \<noteq> NoAxis \<Longrightarrow> on_axis (currentSwipeAxis ?r) d"
    using ab swipe_direction_valid [OF bn] by (auto simp: d_def)
  let ?as = "if a = NoAxis then [] else matching r (currentFingerCount r) d"
  obtain es where es: "eliminate d (eliminate d ?r) =
      ?r\<lparr>signals := signals ?r @ map Started es, activeSwipeGestures := ?as\<rparr>"
    using eliminate_twice [OF sel on] by (auto cong: if_cong)
  let ?s = "eliminate d (eliminate d ?r)"
  have "\<forall>i \<in> set (activeSwipeGestures ?s). direction (swipe ?s i) \<noteq> SwipeInvalid"
    using swipe_direction_valid [OF bn, of p, folded d_def]
    by (auto simp: es dest: matching_direction split: if_splits)
  from rfold_reportProgress [OF this] obtain fs where
    "rfold reportProgress (activeSwipeGestures ?s) ?s = Inr (?s\<lparr>signals := signals ?s @ fs\<rparr>)" "quiet fs"
    "progresses fs = map (reported ?s (currentDelta ?s)) (activeSwipeGestures ?s)" by blast
  moreover have "reported ?s = reported r" by (rule reported_cong) (simp add: es)
  moreover have "updateSwipeGesture delta r = rfold reportProgress (activeSwipeGestures ?s) ?s"
    by (simp add: updateSwipeGesture_def Let_def a_def b_def d_def p_def padd_def)
  moreover have "?as = selection r (currentFingerCount r) a p" using ab by (auto simp: selection_def d_def)
  ultimately show ?thesis
    by (intro exI [of _ "map Started es @ fs"]) (simp add: es)
qed

lemma tracks_moves:
  "tracks r \<Longrightarrow>
   \<exists>es. rfold updateSwipeGesture ds r = Inr (r\<lparr>
      currentDelta := travelled (currentDelta r) ds,
      currentSwipeAxis := axis_after (currentSwipeAxis r) (currentDelta r) ds,
      activeSwipeGestures := selection r (currentFingerCount r)
         (axis_after (currentSwipeAxis r) (currentDelta r) ds) (travelled (currentDelta r) ds),
      signals := signals r @ es\<rparr>) \<and> quiet es
      \<and> progresses es = progress_log r (currentFingerCount r) (currentSwipeAxis r) (currentDelta r) ds"
proof (induction ds arbitrary: r)
  case Nil
  then show ?case by (intro exI [of _ "[]"]) (simp add: tracks_def travelled_def Let_def)
next
  case (Cons d ds)
  let ?p = "padd (currentDelta r) d"
  let ?a = "lock_axis (currentSwipeAxis r) ?p"
  obtain es where es: "updateSwipeGesture d r = Inr (r\<lparr>currentDelta := ?p, currentSwipeAxis := ?a,
      activeSwipeGestures := selection r (currentFingerCount r) ?a ?p,
      signals := signals r @ es\<rparr>)" "quiet es"
      "progresses es = map (reported r ?p) (selection r (currentFingerCount r) ?a ?p)"
    using updateSwipeGesture_selects [OF tracks_selected [OF Cons.prems]] by blast
  define s where "s = r\<lparr>currentDelta := ?p, currentSwipeAxis := ?a,
      activeSwipeGestures := selection r (currentFingerCount r) ?a ?p,
      signals := signals r @ es\<rparr>"
  have "tracks s" by (simp add: tracks_def s_def del: selection_simps) (simp add: selection_def)
  from Cons.IH [OF this] obtain fs where "rfold updateSwipeGesture ds s = Inr (s\<lparr>
      currentDelta := travelled ?p ds, currentSwipeAxis := axis_after ?a ?p ds,
      activeSwipeGestures := selection r (currentFingerCount r) (axis_after ?a ?p ds) (travelled ?p ds),
      signals := signals s @ fs\<rparr>)" "quiet fs" "progresses fs = progress_log s (currentFingerCount r) ?a ?p ds"
    by (auto simp: s_def)
  moreover have "progress_log s (currentFingerCount r) ?a ?p ds = progress_log r (currentFingerCount r) ?a ?p ds"
    by (rule progress_log_cong) (simp_all add: s_def)
  ultimately show ?case using es
    by (intro exI [of _ "es @ fs"]) (simp add: s_def travelled_def)
qed

definition verdict :: "recognizer \<Rightarrow> point \<Rightarrow> gid \<Rightarrow> gsignal" where
  "verdict r p i = (if minimumDeltaReached (swipe r i) p = Inr True then Triggered i else Cancelled i)"

lemma rfold_finishOne:
  "\<forall>i \<in> set is. direction (swipe r i) \<noteq> SwipeInvalid \<Longrightarrow>
   rfold (finishOne p) is r = Inr (r\<lparr>signals := signals r @ map (verdict r p) is\<rparr>)"
proof (induction "is" arbitrary: r)
  case Nil
  show ?case by simp
next
  case (Cons i "is")
  obtain b where b: "minimumDeltaReached (swipe r i) p = Inr b"
    using Cons.prems minimumDeltaReached_returns [of "swipe r i" p] by auto
  let ?s = "send [verdict r p i] r"
  have "finishOne p i r = Inr ?s" using b by (simp add: finishOne_def verdict_def)
  moreover have "verdict ?s p = verdict r p" by (intro ext) (simp add: verdict_def)
  moreover have "rfold (finishOne p) is ?s = Inr (?s\<lparr>signals := signals ?s @ map (verdict ?s p) is\<rparr>)"
    using Cons.prems by (intro Cons.IH) simp
  ultimately show ?case by (simp add: send_def)
qed

definition idle :: "recognizer \<Rightarrow> bool" where
  "idle r = (activeSwipeGestures r = [] \<and> currentSwipeAxis r = NoAxis \<and> currentDelta r = (0, 0))"

text \<open>The gestures a swipe of \<open>f\<close> fingers along \<open>ds\<close> makes.\<close>

definition recognised :: "recognizer \<Rightarrow> nat \<Rightarrow> point list \<Rightarrow> gid list" where
  "recognised r f ds =
     selection r f (axis_after NoAxis (0, 0) ds) (travelled (0, 0) ds)"

text \<open>C6: A whole swipe on an idle recognizer, a start with \<open>f\<close> fingers, any sequence of movements
  and the end, never fails; it triggers exactly the registered gestures for \<open>f\<close> fingers in the
  direction of the total movement along the axis the movement locked that have reached their minimum
  distance, cancels the other gestures of that direction, gives no verdict to any other gesture and
  none before the end, and leaves the recognizer idle with the same gestures.\<close>

theorem complete_swipe:
  assumes "idle r"
  shows "\<exists>r' es. rbind (rfold updateSwipeGesture ds (snd (startSwipeGesture f r))) endSwipeGesture = Inr r'
     \<and> signals r' = signals r @ es @ map (verdict r (travelled (0, 0) ds)) (recognised r f ds)
     \<and> quiet es \<and> idle r' \<and> swipe r' = swipe r \<and> swipeGestures r' = swipeGestures r"
proof -
  let ?r = "snd (startSwipeGesture f r)"
  have r: "?r = r\<lparr>currentFingerCount := f\<rparr>"
    using assms by (simp add: idle_def startSwipeGesture_def startSwipeGestureAt_idle startable_def Let_def)
  have "tracks ?r" "currentDelta ?r = (0, 0)" "currentSwipeAxis ?r = NoAxis"
    using assms by (simp_all add: r tracks_def idle_def selection_def)
  with tracks_moves [of ?r ds] obtain s es where
    s: "rfold updateSwipeGesture ds ?r = Inr s" "signals s = signals r @ es" "quiet es"
      "activeSwipeGestures s = recognised r f ds" "currentDelta s = travelled (0, 0) ds"
      "swipe s = swipe r" "swipeGestures s = swipeGestures r"
    by (auto simp: r recognised_def)
  have "\<forall>i \<in> set (activeSwipeGestures s). direction (swipe s i) \<noteq> SwipeInvalid"
    using s selection_valid by (auto simp: recognised_def)
  from rfold_finishOne [OF this] have
    "rfold (finishOne (currentDelta s)) (activeSwipeGestures s) s =
       Inr (s\<lparr>signals := signals s @ map (verdict s (currentDelta s)) (activeSwipeGestures s)\<rparr>)" .
  moreover have "verdict s = verdict r" using s by (intro ext) (simp add: verdict_def)
  ultimately show ?thesis
    using s by (simp add: endSwipeGesture_def idle_def)
qed

theorem complete_swipe_witness:
  "\<exists>r'. rbind (rfold updateSwipeGesture [(0, - 3), (8, - 120), (0, - 90)]
       (snd (startSwipeGesture 3 (newGestureRecognizer\<lparr>swipeGestures := [0],
         swipe := (\<lambda>_. setMinimumDelta (200, 200) (setDirection SwipeUp newSwipeGesture))\<rparr>)))) endSwipeGesture = Inr r'
     \<and> Triggered 0 \<in> set (signals r') \<and> idle r'"
proof -
  let ?g = "setMinimumDelta (200, 200) (setDirection SwipeUp newSwipeGesture)"
  let ?r = "newGestureRecognizer\<lparr>swipeGestures := [0], swipe := (\<lambda>_. ?g)\<rparr>"
  let ?ds = "[(0, - 3), (8, - 120), (0, - 90)]"
  have "idle ?r" by (simp add: idle_def newGestureRecognizer_def)
  note c = complete_swipe [OF this, of ?ds 3]
  have "travelled (0, 0) ?ds = (8, - 213)" by (simp add: travelled_def padd_def)
  moreover have "recognised ?r 3 ?ds = [0]"
    by (simp add: recognised_def selection_def matching_def travelled_def padd_def lock_axis_def
        SWIPE_MINIMUM_DELTA_def dominant_axis_def swipe_direction_def admits_def setMinimumDelta_def
        setDirection_def newSwipeGesture_def)
  moreover have "verdict ?r (8, - 213) 0 = Triggered 0"
    by (simp add: verdict_def minimumDeltaReached_def deltaToProgress_def ratio_def setMinimumDelta_def
        setDirection_def newSwipeGesture_def)
  ultimately show ?thesis using c by auto
qed

section \<open>The states a recognizer can reach\<close>

inductive recognizer_reach :: "recognizer \<Rightarrow> bool" where
  rr_new: "recognizer_reach newGestureRecognizer"
| rr_register: "recognizer_reach r \<Longrightarrow>
    registerSwipeGesture g (r\<lparr>swipe := (swipe r)(g := s)\<rparr>) = Inr r' \<Longrightarrow> recognizer_reach r'"
| rr_unregister: "recognizer_reach r \<Longrightarrow> recognizer_reach (unregisterSwipeGesture g r)"
| rr_destroyed: "recognizer_reach r \<Longrightarrow> recognizer_reach (swipeDestroyed g r)"
| rr_start: "recognizer_reach r \<Longrightarrow> recognizer_reach (snd (startSwipeGesture f r))"
| rr_startPos: "recognizer_reach r \<Longrightarrow> recognizer_reach (snd (startSwipeGesturePos pos r))"
| rr_update: "recognizer_reach r \<Longrightarrow> updateSwipeGesture d r = Inr r' \<Longrightarrow> recognizer_reach r'"
| rr_cancel: "recognizer_reach r \<Longrightarrow> recognizer_reach (cancelSwipeGesture r)"
| rr_end: "recognizer_reach r \<Longrightarrow> endSwipeGesture r = Inr r' \<Longrightarrow> recognizer_reach r'"
| rr_registerHold: "recognizer_reach r \<Longrightarrow> registerHoldGesture g r = Inr r' \<Longrightarrow> recognizer_reach r'"
| rr_unregisterHold: "recognizer_reach r \<Longrightarrow> recognizer_reach (unregisterHoldGesture g r)"
| rr_setHoldTimeout: "recognizer_reach r \<Longrightarrow> recognizer_reach (setHoldTimeout msec r)"
| rr_startHold: "recognizer_reach r \<Longrightarrow> recognizer_reach (startHoldGesture f r)"
| rr_endHold: "recognizer_reach r \<Longrightarrow> recognizer_reach (endHoldGesture r)"
| rr_timer: "recognizer_reach r \<Longrightarrow> recognizer_reach (holdTimerFires g r)"

text \<open>The active gestures are registered gestures along the locked axis, each once.\<close>

definition recognizer_inv :: "recognizer \<Rightarrow> bool" where
  "recognizer_inv r =
     (distinct (swipeGestures r) \<and> distinct (activeSwipeGestures r)
      \<and> set (activeSwipeGestures r) \<subseteq> set (swipeGestures r)
      \<and> (\<forall>i \<in> set (activeSwipeGestures r). direction (swipe r i) \<noteq> SwipeInvalid
           \<and> on_axis (currentSwipeAxis r) (direction (swipe r i)))
      \<and> (currentSwipeAxis r = NoAxis \<longrightarrow> activeSwipeGestures r = []))"

definition swipe_part where
  "swipe_part r = (swipe r, swipeGestures r, activeSwipeGestures r, currentSwipeAxis r)"

lemma recognizer_inv_cong: "swipe_part r = swipe_part s \<Longrightarrow> recognizer_inv r = recognizer_inv s"
  by (simp add: swipe_part_def recognizer_inv_def)

lemma swipe_part_simps [simp]:
  "swipe_part (send es r) = swipe_part r" "swipe_part (mod_hold h i r) = swipe_part r"
  "swipe_part (r\<lparr>signals := x\<rparr>) = swipe_part r" "swipe_part (r\<lparr>currentFingerCount := f\<rparr>) = swipe_part r"
  "swipe_part (r\<lparr>currentDelta := d\<rparr>) = swipe_part r" "swipe_part (r\<lparr>hold := k\<rparr>) = swipe_part r"
  "swipe_part (r\<lparr>holdGestures := xs\<rparr>) = swipe_part r" "swipe_part (r\<lparr>activeHoldGestures := ys\<rparr>) = swipe_part r"
  "swipe_part (r\<lparr>holdInterval := n\<rparr>) = swipe_part r"
  by (simp_all add: swipe_part_def mod_hold_def)

lemma swipe_part_fold: "(\<And>x s. swipe_part (h x s) = swipe_part s) \<Longrightarrow> swipe_part (fold h xs r) = swipe_part r"
  by (induction xs arbitrary: r) simp_all

lemma swipe_part_hold [simp]:
  "swipe_part (unregisterHoldGesture g r) = swipe_part r"
  "swipe_part (setHoldTimeout msec r) = swipe_part r"
  "swipe_part (startHoldGesture f r) = swipe_part r"
  "swipe_part (endHoldGesture r) = swipe_part r"
  "swipe_part (holdTimerFires g r) = swipe_part r"
  by (simp_all add: unregisterHoldGesture_def setHoldTimeout_def startHoldGesture_def endHoldGesture_def
      startHoldOne_def endHoldOne_def holdTimerFires_def Let_def swipe_part_fold split_def)

lemma swipe_part_registerHold: "registerHoldGesture g r = Inr r' \<Longrightarrow> swipe_part r' = swipe_part r"
  by (auto simp: registerHoldGesture_def Let_def elim!: rbind_InrE)

lemma rfold_reportProgress_part:
  "rfold reportProgress is r = Inr r' \<Longrightarrow> swipe_part r' = swipe_part r"
  by (erule rfold_invariant) (auto simp: reportProgress_def elim!: rbind_InrE)

lemma startSwipeGestureAt_inv:
  assumes "recognizer_inv r"
  shows "recognizer_inv (snd (startSwipeGestureAt f pos b r))"
proof (cases "activeSwipeGestures r = []")
  case True
  then show ?thesis
    using assms by (auto simp: startSwipeGestureAt_idle Let_def recognizer_inv_def startable_def on_axis_def)
next
  case False
  then show ?thesis using assms by (simp add: startSwipeGestureAt_def recognizer_inv_def)
qed

lemma eliminate_inv: "recognizer_inv r \<Longrightarrow> recognizer_inv (eliminate d r)"
proof -
  assume r: "recognizer_inv r"
  define s where "s = (if activeSwipeGestures r = [] then snd (startSwipeGesture (currentFingerCount r) r) else r)"
  have "recognizer_inv s" using r startSwipeGestureAt_inv by (simp add: s_def startSwipeGesture_def)
  moreover have "eliminate d r = s\<lparr>activeSwipeGestures := filter (\<lambda>i. direction (swipe s i) = d) (activeSwipeGestures s)\<rparr>"
    by (simp add: eliminate_def s_def Let_def)
  ultimately show ?thesis by (auto simp: recognizer_inv_def)
qed

lemma lock_axis_inv:
  "recognizer_inv r \<Longrightarrow> recognizer_inv (r\<lparr>currentDelta := p, currentSwipeAxis := lock_axis (currentSwipeAxis r) q\<rparr>)"
  by (auto simp: recognizer_inv_def lock_axis_def)

lemma updateSwipeGesture_inv:
  fixes d :: point
  assumes "recognizer_inv r"
  shows "\<exists>r'. updateSwipeGesture d r = Inr r' \<and> recognizer_inv r'"
proof -
  define s where "s = (let p = padd (currentDelta r) d;
      e = swipe_direction (if currentSwipeAxis r = NoAxis then dominant_axis p else currentSwipeAxis r) p
    in eliminate e (eliminate e (r\<lparr>currentDelta := p, currentSwipeAxis := lock_axis (currentSwipeAxis r) p\<rparr>)))"
  have u: "updateSwipeGesture d r = rfold reportProgress (activeSwipeGestures s) s"
    by (simp add: updateSwipeGesture_def s_def Let_def padd_def)
  have s: "recognizer_inv s" using assms by (simp add: s_def Let_def eliminate_inv lock_axis_inv)
  then have "\<forall>i \<in> set (activeSwipeGestures s). direction (swipe s i) \<noteq> SwipeInvalid"
    by (simp add: recognizer_inv_def)
  from rfold_reportProgress [OF this] obtain es where
    e: "rfold reportProgress (activeSwipeGestures s) s = Inr (s\<lparr>signals := signals s @ es\<rparr>)" by blast
  with s show ?thesis by (auto simp: u intro: recognizer_inv_cong [THEN iffD1])
qed

lemma endSwipeGesture_inv:
  assumes "recognizer_inv r"
  shows "\<exists>r'. endSwipeGesture r = Inr r' \<and> recognizer_inv r'"
proof -
  have "\<forall>i \<in> set (activeSwipeGestures r). direction (swipe r i) \<noteq> SwipeInvalid"
    using assms by (simp add: recognizer_inv_def)
  from rfold_finishOne [OF this] show ?thesis
    using assms by (simp add: endSwipeGesture_def recognizer_inv_def)
qed

lemma registerSwipeGesture_inv:
  "recognizer_inv r \<Longrightarrow> registerSwipeGesture g (r\<lparr>swipe := (swipe r)(g := s)\<rparr>) = Inr r' \<Longrightarrow> recognizer_inv r'"
  by (auto simp: registerSwipeGesture_def recognizer_inv_def subset_iff elim!: rbind_InrE split: if_splits)

lemma removal_inv:
  "recognizer_inv r \<Longrightarrow> recognizer_inv (unregisterSwipeGesture g r)"
  "recognizer_inv r \<Longrightarrow> recognizer_inv (swipeDestroyed g r)"
  by (auto simp: recognizer_inv_def unregisterSwipeGesture_def swipeDestroyed_def Let_def)

lemma recognizer_reach_inv: "recognizer_reach r \<Longrightarrow> recognizer_inv r"
proof (induction rule: recognizer_reach.induct)
  case (rr_update r d r')
  then show ?case using updateSwipeGesture_inv [of r d] by auto
next
  case (rr_end r r')
  then show ?case using endSwipeGesture_inv [of r] by auto
next
  case (rr_registerHold r g r')
  then show ?case using recognizer_inv_cong swipe_part_registerHold by blast
qed (simp_all add: removal_inv registerSwipeGesture_inv startSwipeGesture_def startSwipeGesturePos_def
    startSwipeGestureAt_inv recognizer_inv_cong [OF swipe_part_hold(1)] recognizer_inv_cong [OF swipe_part_hold(2)]
    recognizer_inv_cong [OF swipe_part_hold(3)] recognizer_inv_cong [OF swipe_part_hold(4)]
    recognizer_inv_cong [OF swipe_part_hold(5)],
    simp_all add: recognizer_inv_def newGestureRecognizer_def cancelSwipeGesture_def cancelSwipeActiveGestures_def)

text \<open>C19: In every state a recognizer reaches by registering, unregistering and destroying gestures
  and by the events of swipes and holds, in any order, the active gestures are registered ones along
  the locked axis, none twice and none before an axis is locked, and neither a movement nor the end
  of a swipe runs into an assertion.\<close>

theorem recognizer_never_asserts:
  assumes "recognizer_reach r"
  shows "distinct (activeSwipeGestures r) \<and> set (activeSwipeGestures r) \<subseteq> set (swipeGestures r)
     \<and> list_all (\<lambda>i. currentSwipeAxis r \<noteq> NoAxis \<and> on_axis (currentSwipeAxis r) (direction (swipe r i)))
          (activeSwipeGestures r)
     \<and> is_ok (updateSwipeGesture d r) \<and> is_ok (endSwipeGesture r)"
proof -
  note inv = recognizer_reach_inv [OF assms]
  have "is_ok (updateSwipeGesture d r) \<and> is_ok (endSwipeGesture r)"
    using updateSwipeGesture_inv [OF inv, of d] endSwipeGesture_inv [OF inv] by (auto simp: is_ok_def)
  with inv show ?thesis by (auto simp: recognizer_inv_def list_all_iff)
qed

theorem recognizer_never_asserts_witness:
  "is_ok (updateSwipeGesture (3, 4) (snd (startSwipeGesture 3 newGestureRecognizer)))"
  using recognizer_never_asserts [OF rr_start [OF rr_new, of 3], of "(3, 4)"] by blast

end
