(* ===== verification/Gesture_Manager.thy ===== *)
theory Gesture_Manager
  imports Gesture_Recognizer
begin

text \<open>
  src/src/input/gesturemanager.cpp and togglablegesture.cpp: the manager that feeds the touchpad's
  events to the recognizer, and the two-state switch a swipe moves.

  A \<^verbatim>\<open>std::function\<close> of a feedback is a function on the state \<open>'w\<close> of the manager's clients. The
  slots of a gesture's signals are these functions; they do not touch the recognizer, so that
  running them after the recognizer's step, in the order of the signals, is what the code's
  synchronous emission does. A new gesture object gets the next unused identifier.
\<close>

section \<open>The manager\<close>

record 'w swipe_feedback =
  fb_direction :: direction
  fb_fingerCount :: nat
  actionCallback :: "(bool \<Rightarrow> 'w \<Rightarrow> 'w) option"
  fb_progressCallback :: "(real option \<Rightarrow> 'w \<Rightarrow> 'w) option"

record 'w hold_feedback =
  hfb_fingerCount :: nat
  h_actionCallback :: "('w \<Rightarrow> 'w) option"
  longProcessCallback :: "('w \<Rightarrow> 'w) option"

datatype 'w slot = SwipeSlot "'w swipe_feedback" | HoldSlot "'w hold_feedback"

record 'w manager =
  touchpadRecognizer :: recognizer
  touchpadFingerCount :: nat
  slots :: "gid \<Rightarrow> 'w slot option"
  nextGesture :: gid

definition newGestureManager :: "'w manager" where
  "newGestureManager =
     \<lparr>touchpadRecognizer = newGestureRecognizer, touchpadFingerCount = 0, slots = (\<lambda>_. None),
      nextGesture = 0\<rparr>"

definition MIN_SWIPE_FINGERS :: nat where "MIN_SWIPE_FINGERS = 3"

definition fire :: "('a \<Rightarrow> 'w \<Rightarrow> 'w) option \<Rightarrow> 'a \<Rightarrow> 'w \<Rightarrow> 'w" where
  "fire cb x w = (case cb of None \<Rightarrow> w | Some f \<Rightarrow> f x w)"

text \<open>The slots connected to the gestures' signals.\<close>

definition deliver :: "'w manager \<Rightarrow> gsignal \<Rightarrow> 'w \<Rightarrow> 'w" where
  "deliver m e w =
     (case e of
        Triggered i \<Rightarrow>
          (case slots m i of Some (SwipeSlot fb) \<Rightarrow> fire (actionCallback fb) True w | _ \<Rightarrow> w)
      | Cancelled i \<Rightarrow>
          (case slots m i of
             Some (SwipeSlot fb) \<Rightarrow> fire (actionCallback fb) False w
           | Some (HoldSlot fb) \<Rightarrow> fire (map_option (\<lambda>f _. f) (h_actionCallback fb)) () w
           | None \<Rightarrow> w)
      | Progress i p \<Rightarrow>
          (case slots m i of Some (SwipeSlot fb) \<Rightarrow> fire (fb_progressCallback fb) p w | _ \<Rightarrow> w)
      | LongPressed i \<Rightarrow>
          (case slots m i of
             Some (HoldSlot fb) \<Rightarrow> fire (map_option (\<lambda>f _. f) (longProcessCallback fb)) () w | _ \<Rightarrow> w)
      | Started i \<Rightarrow> w
      | DeltaProgress i d \<Rightarrow> w)"

definition run :: "(recognizer \<Rightarrow> recognizer result) \<Rightarrow> 'w manager \<times> 'w \<Rightarrow> ('w manager \<times> 'w) result" where
  "run op mw =
     (let (m, w) = mw in
      rbind (op ((touchpadRecognizer m)\<lparr>signals := []\<rparr>)) (\<lambda>r.
        Inr (m\<lparr>touchpadRecognizer := r\<rparr>, fold (deliver m) (signals r) w)))"

definition registerTouchpadSwipe :: "'w swipe_feedback \<Rightarrow> 'w manager \<Rightarrow> (gid \<times> 'w manager) result" where
  "registerTouchpadSwipe feed_back m =
     (let g = nextGesture m;
          sg = setDirection (fb_direction feed_back) newSwipeGesture;
          sg = setMinimumDelta (200, 200) sg;
          sg = sw_setMaximumFingerCount (fb_fingerCount feed_back) sg;
          sg = sw_setMinimumFingerCount (fb_fingerCount feed_back) sg;
          r = touchpadRecognizer m
      in rbind (registerSwipeGesture g (r\<lparr>swipe := (swipe r)(g := sg)\<rparr>)) (\<lambda>r.
           Inr (g, m\<lparr>touchpadRecognizer := r, slots := (slots m)(g \<mapsto> SwipeSlot feed_back),
                     nextGesture := g + 1\<rparr>)))"

definition registerTouchpadHold :: "'w hold_feedback \<Rightarrow> 'w manager \<Rightarrow> (gid \<times> 'w manager) result" where
  "registerTouchpadHold feed m =
     (let g = nextGesture m;
          hg = hold_setMinimumFingerCount (hfb_fingerCount feed) newHoldGesture;
          hg = hold_setMaximumFingerCount (hfb_fingerCount feed) hg;
          r = touchpadRecognizer m
      in rbind (registerHoldGesture g (r\<lparr>hold := (hold r)(g := hg)\<rparr>)) (\<lambda>r.
           Inr (g, m\<lparr>touchpadRecognizer := r, slots := (slots m)(g \<mapsto> HoldSlot feed),
                     nextGesture := g + 1\<rparr>)))"

definition unregisterTouchpadSwipe :: "gid \<Rightarrow> 'w manager \<times> 'w \<Rightarrow> ('w manager \<times> 'w) result" where
  "unregisterTouchpadSwipe g = run (\<lambda>r. Inr (unregisterSwipeGesture g r))"

definition unregisterTouchpadHold :: "gid \<Rightarrow> 'w manager \<times> 'w \<Rightarrow> ('w manager \<times> 'w) result" where
  "unregisterTouchpadHold g = run (\<lambda>r. Inr (unregisterHoldGesture g r))"

definition processSwipeStart :: "nat \<Rightarrow> 'w manager \<times> 'w \<Rightarrow> ('w manager \<times> 'w) result" where
  "processSwipeStart finger mw =
     (let m = (fst mw)\<lparr>touchpadFingerCount := finger\<rparr> in
      if touchpadFingerCount m \<ge> MIN_SWIPE_FINGERS
      then run (\<lambda>r. Inr (snd (startSwipeGesture finger r))) (m, snd mw)
      else Inr (m, snd mw))"

definition processSwipeUpdate :: "point \<Rightarrow> 'w manager \<times> 'w \<Rightarrow> ('w manager \<times> 'w) result" where
  "processSwipeUpdate delta mw =
     (if touchpadFingerCount (fst mw) \<ge> MIN_SWIPE_FINGERS then run (updateSwipeGesture delta) mw else Inr mw)"

definition processSwipeCancel :: "'w manager \<times> 'w \<Rightarrow> ('w manager \<times> 'w) result" where
  "processSwipeCancel mw =
     (if touchpadFingerCount (fst mw) \<ge> MIN_SWIPE_FINGERS then run (\<lambda>r. Inr (cancelSwipeGesture r)) mw
      else Inr mw)"

definition processSwipeEnd :: "'w manager \<times> 'w \<Rightarrow> ('w manager \<times> 'w) result" where
  "processSwipeEnd mw =
     (if touchpadFingerCount (fst mw) \<ge> MIN_SWIPE_FINGERS then run endSwipeGesture mw else Inr mw)"

definition processHoldStart :: "nat \<Rightarrow> 'w manager \<times> 'w \<Rightarrow> ('w manager \<times> 'w) result" where
  "processHoldStart finger mw =
     (let m = (fst mw)\<lparr>touchpadFingerCount := finger\<rparr> in
      if touchpadFingerCount m \<ge> MIN_SWIPE_FINGERS
      then run (\<lambda>r. Inr (startHoldGesture finger r)) (m, snd mw)
      else Inr (m, snd mw))"

definition processHoldEnd :: "'w manager \<times> 'w \<Rightarrow> ('w manager \<times> 'w) result" where
  "processHoldEnd mw =
     (if touchpadFingerCount (fst mw) \<ge> MIN_SWIPE_FINGERS then run (\<lambda>r. Inr (endHoldGesture r)) mw
      else Inr mw)"

definition gm_setHoldTimeout :: "int \<Rightarrow> 'w manager \<times> 'w \<Rightarrow> ('w manager \<times> 'w) result" where
  "gm_setHoldTimeout msec = run (\<lambda>r. Inr (setHoldTimeout msec r))"

section \<open>The switch\<close>

text \<open>\<open>t_factor\<close> is \<open>None\<close> for NaN. The constructor leaves \<^verbatim>\<open>m_partialGestureFactor\<close> uninitialised:
  its first value is the argument of \<open>newTogglableGesture\<close>.\<close>

datatype tstatus = Inactive | Activating | Deactivating | Active | Stopped

datatype tsignal =
    InProgressChanged | PartialGestureFactorChanged "real option" | Activated | Deactivated
  | HoldSignal | LongPressedSignal | StatusChanged tstatus

record togglable =
  t_status :: tstatus
  t_inProgress :: bool
  t_factor :: "real option"
  t_signals :: "tsignal list"

definition newTogglableGesture :: "real option \<Rightarrow> togglable" where
  "newTogglableGesture garbage =
     \<lparr>t_status = Inactive, t_inProgress = False, t_factor = garbage, t_signals = []\<rparr>"

definition temit :: "tsignal \<Rightarrow> togglable \<Rightarrow> togglable" where
  "temit e t = t\<lparr>t_signals := t_signals t @ [e]\<rparr>"

definition setInProgress :: "bool \<Rightarrow> togglable \<Rightarrow> togglable" where
  "setInProgress g t =
     (if t_inProgress t \<noteq> g then temit InProgressChanged (t\<lparr>t_inProgress := g\<rparr>) else t)"

definition setPartialGestureFactor :: "real option \<Rightarrow> togglable \<Rightarrow> togglable" where
  "setPartialGestureFactor factor t =
     (if factor = None \<or> t_factor t = None \<or> t_factor t \<noteq> factor
      then temit (PartialGestureFactorChanged factor) (t\<lparr>t_factor := factor\<rparr>) else t)"

definition setStatus :: "tstatus \<Rightarrow> bool \<Rightarrow> togglable \<Rightarrow> togglable" where
  "setStatus s on t =
     (if t_status t \<noteq> s
      then (let t = t\<lparr>t_status := s\<rparr> in if on then temit (StatusChanged s) t else t)
      else t)"

definition activate :: "bool \<Rightarrow> togglable \<Rightarrow> togglable" where
  "activate on t = setStatus Active on (setPartialGestureFactor (Some 1) (setInProgress False t))"

definition deactivate :: "bool \<Rightarrow> togglable \<Rightarrow> togglable" where
  "deactivate on t = setStatus Inactive on (setPartialGestureFactor (Some 0) (setInProgress False t))"

definition toggle :: "bool \<Rightarrow> togglable \<Rightarrow> togglable" where
  "toggle on t =
     (if t_status t \<noteq> Active
      then (let t = activate on t in if on then temit Activated t else t)
      else (let t = deactivate on t in if on then temit Deactivated t else t))"

definition stop :: "togglable \<Rightarrow> togglable" where
  "stop t = setStatus Stopped True (setPartialGestureFactor (Some 0) (setInProgress False t))"

definition setProgress :: "real option \<Rightarrow> togglable \<Rightarrow> togglable" where
  "setProgress progress t =
     (if t_status t = Stopped then t
      else case t_status t of
             Inactive \<Rightarrow> setPartialGestureFactor progress (setInProgress True (setStatus Activating True t))
           | Activating \<Rightarrow> setPartialGestureFactor progress (setInProgress True (setStatus Activating True t))
           | _ \<Rightarrow> t)"

definition setRegress :: "real option \<Rightarrow> togglable \<Rightarrow> togglable" where
  "setRegress regress t =
     (if t_status t = Stopped then t
      else case t_status t of
             Active \<Rightarrow> setPartialGestureFactor (map_option (\<lambda>x. 1 - x) regress)
                         (setInProgress True (setStatus Deactivating True t))
           | Deactivating \<Rightarrow> setPartialGestureFactor (map_option (\<lambda>x. 1 - x) regress)
                         (setInProgress True (setStatus Deactivating True t))
           | _ \<Rightarrow> t)"

definition factor_above :: "real option \<Rightarrow> bool" where
  "factor_above f = (case f of None \<Rightarrow> False | Some x \<Rightarrow> x > 1 / 2)"

definition factor_below :: "real option \<Rightarrow> bool" where
  "factor_below f = (case f of None \<Rightarrow> False | Some x \<Rightarrow> x < 1 / 2)"

definition activeTriggered :: "togglable \<Rightarrow> togglable" where
  "activeTriggered t =
     (if t_status t = Activating
      then (if factor_above (t_factor t) then temit Activated (activate True t)
            else temit Deactivated (deactivate True t))
      else t)"

definition deactivateTriggered :: "togglable \<Rightarrow> togglable" where
  "deactivateTriggered t =
     (if t_status t = Deactivating
      then (if factor_below (t_factor t) then temit Deactivated (deactivate True t)
            else temit Activated (activate True t))
      else t)"

text \<open>The switches of the session, and the callbacks one of them gives to the manager.\<close>

type_synonym tid = nat
type_synonym togglables = "tid \<Rightarrow> togglable"

definition on_toggle :: "(togglable \<Rightarrow> togglable) \<Rightarrow> tid \<Rightarrow> togglables \<Rightarrow> togglables" where
  "on_toggle f i w = w(i := f (w i))"

definition progressCallback :: "tid \<Rightarrow> real option \<Rightarrow> togglables \<Rightarrow> togglables" where
  "progressCallback i p = on_toggle (setProgress p) i"

definition regressCallback :: "tid \<Rightarrow> real option \<Rightarrow> togglables \<Rightarrow> togglables" where
  "regressCallback i p = on_toggle (setRegress p) i"

definition activeTriggeredCallback :: "tid \<Rightarrow> bool \<Rightarrow> togglables \<Rightarrow> togglables" where
  "activeTriggeredCallback i b = on_toggle activeTriggered i"

definition deactivateTriggeredCallback :: "tid \<Rightarrow> bool \<Rightarrow> togglables \<Rightarrow> togglables" where
  "deactivateTriggeredCallback i b = on_toggle deactivateTriggered i"

definition addTouchpadSwipeGesture ::
  "tid \<Rightarrow> direction \<Rightarrow> nat \<Rightarrow> togglables manager \<Rightarrow> togglables manager result" where
  "addTouchpadSwipeGesture i d finger m =
     (if d = SwipeInvalid then Inr m
      else rbind (registerTouchpadSwipe
                    \<lparr>fb_direction = d, fb_fingerCount = finger,
                     actionCallback = Some (activeTriggeredCallback i),
                     fb_progressCallback = Some (progressCallback i)\<rparr> m) (\<lambda>(_, m).
           rbind (registerTouchpadSwipe
                    \<lparr>fb_direction = opposite d, fb_fingerCount = finger,
                     actionCallback = Some (deactivateTriggeredCallback i),
                     fb_progressCallback = Some (regressCallback i)\<rparr> m) (\<lambda>(_, m). Inr m)))"

definition addTouchpadHoldGesture :: "tid \<Rightarrow> nat \<Rightarrow> togglables manager \<Rightarrow> togglables manager result" where
  "addTouchpadHoldGesture i finger m =
     rbind (registerTouchpadHold
              \<lparr>hfb_fingerCount = finger, h_actionCallback = Some (on_toggle (temit HoldSignal) i),
               longProcessCallback = Some (on_toggle (temit LongPressedSignal) i)\<rparr> m) (\<lambda>(_, m). Inr m)"

section \<open>The states of a switch\<close>

inductive toggle_step :: "togglable \<Rightarrow> togglable \<Rightarrow> bool" where
  "toggle_step t (activate on t)"
| "toggle_step t (deactivate on t)"
| "toggle_step t (toggle on t)"
| "toggle_step t (stop t)"
| "toggle_step t (setProgress p t)"
| "toggle_step t (setRegress p t)"
| "toggle_step t (activeTriggered t)"
| "toggle_step t (deactivateTriggered t)"

inductive_cases toggle_stepE: "toggle_step t u"

lemma togglable_fields [simp]:
  "t_status (temit e t) = t_status t" "t_inProgress (temit e t) = t_inProgress t"
  "t_factor (temit e t) = t_factor t"
  "t_status (setInProgress b t) = t_status t" "t_inProgress (setInProgress b t) = b"
  "t_factor (setInProgress b t) = t_factor t"
  "t_status (setPartialGestureFactor f t) = t_status t"
  "t_inProgress (setPartialGestureFactor f t) = t_inProgress t"
  "t_factor (setPartialGestureFactor f t) = f"
  "t_status (setStatus s on t) = s" "t_inProgress (setStatus s on t) = t_inProgress t"
  "t_factor (setStatus s on t) = t_factor t"
  by (auto simp: temit_def setInProgress_def setPartialGestureFactor_def setStatus_def Let_def)

lemmas toggle_ops = activate_def deactivate_def toggle_def stop_def setProgress_def setRegress_def
  activeTriggered_def deactivateTriggered_def Let_def

definition toggle_inv :: "togglable \<Rightarrow> bool" where
  "toggle_inv t =
     ((t_inProgress t \<longleftrightarrow> t_status t \<in> {Activating, Deactivating})
      \<and> (t_status t = Active \<longrightarrow> t_factor t = Some 1) \<and> (t_status t = Stopped \<longrightarrow> t_factor t = Some 0))"

lemma toggle_step_inv: "toggle_step t u \<Longrightarrow> toggle_inv t \<Longrightarrow> toggle_inv u"
  by (erule toggle_stepE) (auto simp: toggle_ops toggle_inv_def split: tstatus.splits)

text \<open>However a switch is operated, by its swipes, by \<^verbatim>\<open>toggle\<close>, \<^verbatim>\<open>activate\<close>, \<^verbatim>\<open>deactivate\<close> or
  \<^verbatim>\<open>stop\<close>, a gesture is in progress exactly while the status is Activating or Deactivating, an
  active switch has factor 1 and a stopped one factor 0, whatever the uninitialised first factor.\<close>

theorem toggle_consistent:
  assumes "toggle_step\<^sup>*\<^sup>* (newTogglableGesture garbage) t"
  shows "(t_inProgress t \<longleftrightarrow> t_status t = Activating \<or> t_status t = Deactivating)
     \<and> (t_status t = Active \<longrightarrow> t_factor t = Some 1) \<and> (t_status t = Stopped \<longrightarrow> t_factor t = Some 0)"
proof -
  have "toggle_inv t" using assms
  proof (induction rule: rtranclp_induct)
    case base
    show ?case by (simp add: toggle_inv_def newTogglableGesture_def)
  next
    case (step t u)
    then show ?case by (simp add: toggle_step_inv)
  qed
  then show ?thesis by (auto simp: toggle_inv_def)
qed

theorem toggle_consistent_witness:
  "t_inProgress (setProgress (Some (1/4)) (newTogglableGesture None))"
proof -
  let ?t = "setProgress (Some (1/4)) (newTogglableGesture None)"
  have "toggle_step (newTogglableGesture None) ?t" by (rule toggle_step.intros)
  moreover have "t_status ?t = Activating" by (simp add: setProgress_def newTogglableGesture_def)
  ultimately show ?thesis using toggle_consistent [of None ?t] by blast
qed

end
