(* ===== verification/Gesture_Toggle.thy ===== *)
theory Gesture_Toggle
  imports Gesture_Manager
begin

text \<open>
  What a whole touchpad swipe does to a switch: the touchpad events go through
  \<open>processSwipeStart\<close>, \<open>processSwipeUpdate\<close> and \<open>processSwipeEnd\<close> of the manager, the recognizer
  selects gestures and their slots move the switch registered by \<open>addTouchpadSwipeGesture\<close>.
\<close>

section \<open>A swipe seen from the manager\<close>

definition processSwipe :: "nat \<Rightarrow> point list \<Rightarrow> 'w manager \<times> 'w \<Rightarrow> ('w manager \<times> 'w) result" where
  "processSwipe finger ds mw =
     rbind (processSwipeStart finger mw) (\<lambda>mw.
     rbind (rfold processSwipeUpdate ds mw) processSwipeEnd)"

lemma deliver_quiet: "\<not> final e \<Longrightarrow> fold (deliver m) (progresses [e]) w = deliver m e w"
  by (cases e) (simp_all add: deliver_def progresses_def)

lemma fold_deliver_quiet: "quiet es \<Longrightarrow> fold (deliver m) es w = fold (deliver m) (progresses es) w"
proof (induction es arbitrary: w)
  case Nil
  show ?case by simp
next
  case (Cons e es)
  then have e: "\<not> final e" "quiet es" by (simp_all add: quiet_def)
  have "progresses (e # es) = progresses [e] @ progresses es"
    using progresses_simps(2) [of "[e]" es] by simp
  with e Cons.IH show ?case by (simp add: deliver_quiet)
qed

lemma deliver_cong: "slots m = slots m' \<Longrightarrow> deliver m = deliver m'"
  by (intro ext) (simp add: deliver_def split: gsignal.splits)

lemma tracks_unsignalled: "tracks r \<Longrightarrow> tracks (r\<lparr>signals := []\<rparr>)"
  by (simp add: tracks_def)

definition moved_to :: "recognizer \<Rightarrow> axis \<Rightarrow> point \<Rightarrow> recognizer \<Rightarrow> bool" where
  "moved_to r a p r' =
     (swipe r' = swipe r \<and> swipeGestures r' = swipeGestures r \<and> currentFingerCount r' = currentFingerCount r
      \<and> currentDelta r' = p \<and> currentSwipeAxis r' = a \<and> activeSwipeGestures r' = selection r (currentFingerCount r) a p)"

lemma selection_cong:
  "swipe r = swipe s \<Longrightarrow> swipeGestures r = swipeGestures s \<Longrightarrow> selection r f a p = selection s f a p"
  by (simp add: selection_def matching_def)

lemma processSwipeUpdates:
  assumes "tracks (touchpadRecognizer m)" "touchpadFingerCount m \<ge> MIN_SWIPE_FINGERS"
  shows "\<exists>r'. rfold processSwipeUpdate ds (m, w) =
        Inr (m\<lparr>touchpadRecognizer := r'\<rparr>, fold (deliver m) (progress_log (touchpadRecognizer m)
          (currentFingerCount (touchpadRecognizer m)) (currentSwipeAxis (touchpadRecognizer m))
          (currentDelta (touchpadRecognizer m)) ds) w)
     \<and> moved_to (touchpadRecognizer m)
          (axis_after (currentSwipeAxis (touchpadRecognizer m)) (currentDelta (touchpadRecognizer m)) ds)
          (travelled (currentDelta (touchpadRecognizer m)) ds) r'"
  using assms
proof (induction ds arbitrary: m w)
  case Nil
  then show ?case
    by (intro exI [of _ "touchpadRecognizer m"]) (simp add: moved_to_def tracks_def travelled_def)
next
  case (Cons d ds)
  let ?r = "touchpadRecognizer m"
  let ?p = "padd (currentDelta ?r) d"
  let ?a = "lock_axis (currentSwipeAxis ?r) ?p"
  have "selected (?r\<lparr>signals := []\<rparr>)" using Cons.prems(1) by (simp add: tracks_selected tracks_unsignalled)
  from updateSwipeGesture_selects [OF this, of d] obtain s es where
    s: "updateSwipeGesture d (?r\<lparr>signals := []\<rparr>) = Inr s" "moved_to ?r ?a ?p s" "signals s = es" "quiet es"
      "progresses es = map (reported ?r ?p) (selection ?r (currentFingerCount ?r) ?a ?p)"
    using reported_cong [of "?r\<lparr>signals := []\<rparr>" ?r] by (auto simp: moved_to_def)
  let ?m = "m\<lparr>touchpadRecognizer := s\<rparr>"
  let ?w = "fold (deliver m) (map (reported ?r ?p) (selection ?r (currentFingerCount ?r) ?a ?p)) w"
  have step: "processSwipeUpdate d (m, w) = Inr (?m, ?w)"
    using s Cons.prems(2) by (simp add: processSwipeUpdate_def run_def fold_deliver_quiet)
  have "tracks s" using s(2) selection_cong [of s ?r] by (simp add: moved_to_def tracks_def)
  with Cons.IH [of ?m ?w] Cons.prems(2) obtain r' where
    "rfold processSwipeUpdate ds (?m, ?w) = Inr (?m\<lparr>touchpadRecognizer := r'\<rparr>,
        fold (deliver ?m) (progress_log s (currentFingerCount s) (currentSwipeAxis s) (currentDelta s) ds) ?w)"
    "moved_to s (axis_after (currentSwipeAxis s) (currentDelta s) ds) (travelled (currentDelta s) ds) r'"
    by auto
  moreover have "deliver ?m = deliver m" by (rule deliver_cong) simp
  moreover have "progress_log s (currentFingerCount ?r) ?a ?p ds = progress_log ?r (currentFingerCount ?r) ?a ?p ds"
    using s(2) by (intro progress_log_cong) (simp_all add: moved_to_def)
  ultimately show ?case
    using s(2) selection_cong [of s ?r] step by (auto simp: moved_to_def travelled_def)
qed

lemma processSwipe_world:
  fixes m :: "'w manager"
  defines "r \<equiv> touchpadRecognizer m"
  assumes "idle r" "finger \<ge> MIN_SWIPE_FINGERS"
  shows "\<exists>m'. processSwipe finger ds (m, w) = Inr (m',
       fold (deliver m) (map (verdict r (travelled (0, 0) ds)) (recognised r finger ds))
         (fold (deliver m) (progress_log r finger NoAxis (0, 0) ds) w))
     \<and> idle (touchpadRecognizer m') \<and> slots m' = slots m"
proof -
  let ?s = "r\<lparr>signals := [], currentFingerCount := finger\<rparr>"
  let ?m = "m\<lparr>touchpadFingerCount := finger, touchpadRecognizer := ?s\<rparr>"
  have start: "processSwipeStart finger (m, w) = Inr (?m, w)"
    using assms(2,3) by (simp add: processSwipeStart_def run_def r_def idle_def startSwipeGesture_def
        startSwipeGestureAt_idle startable_def Let_def)
  have "tracks (touchpadRecognizer ?m)" using assms(2) by (simp add: tracks_def idle_def selection_def)
  with processSwipeUpdates [of ?m ds w] obtain r' where
    u: "rfold processSwipeUpdate ds (?m, w) =
        Inr (?m\<lparr>touchpadRecognizer := r'\<rparr>, fold (deliver ?m) (progress_log ?s finger NoAxis (0, 0) ds) w)"
    and mv: "moved_to ?s (axis_after NoAxis (0, 0) ds) (travelled (0, 0) ds) r'"
    using assms(2,3) by (auto simp: idle_def)
  have v: "verdict r' = verdict r" "activeSwipeGestures r' = recognised r finger ds" "swipe r' = swipe r"
    using mv by (auto simp: moved_to_def verdict_def [abs_def] recognised_def)
  have "\<forall>i \<in> set (activeSwipeGestures (r'\<lparr>signals := []\<rparr>)). direction (swipe (r'\<lparr>signals := []\<rparr>) i) \<noteq> SwipeInvalid"
    using v selection_valid by (auto simp: recognised_def)
  from rfold_finishOne [OF this] have
    e: "rfold (finishOne (currentDelta r')) (activeSwipeGestures r') (r'\<lparr>signals := []\<rparr>) =
       Inr (r'\<lparr>signals := map (verdict r (travelled (0, 0) ds)) (recognised r finger ds)\<rparr>)"
    using v mv by (simp add: moved_to_def verdict_def)
  have "progress_log ?s finger NoAxis (0, 0) ds = progress_log r finger NoAxis (0, 0) ds"
    by (rule progress_log_cong) simp_all
  moreover have "deliver ?m = deliver m" "deliver (?m\<lparr>touchpadRecognizer := r'\<rparr>) = deliver m"
    by (rule deliver_cong, simp)+
  ultimately show ?thesis
    using start u e assms(3)
    by (simp add: processSwipe_def processSwipeEnd_def run_def endSwipeGesture_def idle_def)
qed

section \<open>The two halves of a switch\<close>

text \<open>The directions the recognizer sees at each movement once the axis is locked, with the progress
  a gesture with minimum distance 200 reports.\<close>

fun head_log :: "axis \<Rightarrow> point \<Rightarrow> point list \<Rightarrow> (direction \<times> real option) list" where
  "head_log a p [] = []"
| "head_log a p (x # ds) =
     (let q = padd p x; b = lock_axis a q; e = swipe_direction b q in
      (if b = NoAxis then [] else [(e, ratio (along e q) 200)]) @ head_log b q ds)"

definition drive where
  "drive prog regr d ex = (if fst ex = d then prog (snd ex) else if fst ex = opposite d then regr (snd ex) else id)"

text \<open>A half of the switch: from \<open>rest\<close>, movements along \<open>d\<close> put it into \<open>moving\<close> with the factor of
  the last of them, and movements the other way do nothing.\<close>

locale switch_half =
  fixes rest moving :: tstatus
    and prog regr :: "real option \<Rightarrow> togglable \<Rightarrow> togglable"
    and conv :: "real \<Rightarrow> real"
  assumes rest_moving: "rest \<noteq> moving"
    and prog_moves: "t_status t \<in> {rest, moving} \<Longrightarrow>
      t_status (prog x t) = moving \<and> t_factor (prog x t) = map_option conv x"
    and regr_ignored: "t_status t \<in> {rest, moving} \<Longrightarrow> regr x t = t"
begin

lemma drive_status:
  "t_status t \<in> {rest, moving} \<Longrightarrow>
   t_status (fold (drive prog regr d) xs t) = (if d \<in> fst ` set xs then moving else t_status t)"
proof (induction xs arbitrary: t)
  case Nil
  then show ?case by simp
next
  case (Cons x xs)
  have "t_status (drive prog regr d x t) = (if fst x = d then moving else t_status t)"
    using Cons.prems prog_moves regr_ignored by (auto simp: drive_def)
  with Cons show ?case by auto
qed

lemma drive_factor:
  assumes "t_status t \<in> {rest, moving}" "xs \<noteq> []" "last xs = (d, x)"
  shows "t_status (fold (drive prog regr d) xs t) = moving
     \<and> t_factor (fold (drive prog regr d) xs t) = map_option conv x"
proof -
  let ?t = "fold (drive prog regr d) (butlast xs) t"
  have "t_status ?t \<in> {rest, moving}" using drive_status [OF assms(1)] assms(1) by auto
  moreover have "fold (drive prog regr d) xs t = prog x ?t"
    using assms(2,3) by (subst append_butlast_last_id [OF assms(2), symmetric]) (simp add: drive_def del: append_butlast_last_id)
  ultimately show ?thesis using prog_moves by simp
qed

end

interpretation up: switch_half Inactive Activating setProgress setRegress "\<lambda>x. x"
  by unfold_locales (auto simp: setProgress_def setRegress_def option.map_ident)

interpretation down: switch_half Active Deactivating setRegress setProgress "\<lambda>x. 1 - x"
  by unfold_locales (auto simp: setProgress_def setRegress_def)

lemma head_log_last:
  "ds \<noteq> [] \<Longrightarrow> axis_after a p ds \<noteq> NoAxis \<Longrightarrow>
   head_log a p ds \<noteq> [] \<and> last (head_log a p ds) =
     (let e = swipe_direction (axis_after a p ds) (travelled p ds) in (e, ratio (along e (travelled p ds)) 200))"
proof (induction ds arbitrary: a p)
  case Nil
  then show ?case by simp
next
  case (Cons x ds)
  show ?case
  proof (cases "ds = []")
    case True
    with Cons.prems show ?thesis by (simp add: travelled_def Let_def)
  next
    case False
    with Cons.prems Cons.IH [of "lock_axis a (padd p x)" "padd p x"] show ?thesis
      by (auto simp: travelled_def Let_def)
  qed
qed

section \<open>The gestures of one switch\<close>

definition swipe_for :: "direction \<Rightarrow> nat \<Rightarrow> swipe_gesture" where
  "swipe_for d f =
     sw_setMinimumFingerCount f (sw_setMaximumFingerCount f (setMinimumDelta (200, 200) (setDirection d newSwipeGesture)))"

lemma swipe_for_simps [simp]:
  "direction (swipe_for d f) = d" "admits f (swipe_for d f)" "minimumDelta (swipe_for d f) = (200, 200)"
  "minimumDeltaRelevant (swipe_for d f)"
  by (simp_all add: swipe_for_def sw_setMinimumFingerCount_def sw_setMaximumFingerCount_def
      setMinimumDelta_def setDirection_def newSwipeGesture_def admits_def)

definition fresh_ids :: "'w manager \<Rightarrow> bool" where
  "fresh_ids m = (\<forall>i \<in> set (swipeGestures (touchpadRecognizer m)). i < nextGesture m)"

definition spares :: "tid \<Rightarrow> togglables manager \<Rightarrow> bool" where
  "spares i m = (\<forall>e w. deliver m e w i = w i)"

lemma addTouchpadSwipeGesture_eq:
  fixes m :: "togglables manager"
  defines "g \<equiv> nextGesture m" and "r \<equiv> touchpadRecognizer m"
  assumes "d \<noteq> SwipeInvalid" "fresh_ids m"
  shows "addTouchpadSwipeGesture i d f m = Inr (m\<lparr>
      touchpadRecognizer := r\<lparr>swipe := (swipe r)(g := swipe_for d f, g + 1 := swipe_for (opposite d) f),
        swipeGestures := swipeGestures r @ [g, g + 1]\<rparr>,
      slots := (slots m)(
        g \<mapsto> SwipeSlot \<lparr>fb_direction = d, fb_fingerCount = f,
          actionCallback = Some (activeTriggeredCallback i), fb_progressCallback = Some (progressCallback i)\<rparr>,
        g + 1 \<mapsto> SwipeSlot \<lparr>fb_direction = opposite d, fb_fingerCount = f,
          actionCallback = Some (deactivateTriggeredCallback i), fb_progressCallback = Some (regressCallback i)\<rparr>),
      nextGesture := g + 2\<rparr>)"
proof -
  have n: "g \<notin> set (swipeGestures r)" "g + 1 \<notin> set (swipeGestures r)"
    using assms(4) by (auto simp: fresh_ids_def g_def r_def)
  show ?thesis
    using assms(3) n
    by (simp add: addTouchpadSwipeGesture_def registerTouchpadSwipe_def registerSwipeGesture_def Let_def
        swipe_for_def g_def r_def)
qed

text \<open>What a signal does to the switch whose gestures are \<open>g\<close> and \<open>g + 1\<close>.\<close>

definition effect :: "gid \<Rightarrow> gsignal \<Rightarrow> togglable \<Rightarrow> togglable" where
  "effect g e t =
     (case e of
        Progress j p \<Rightarrow> if j = g then setProgress p t else if j = g + 1 then setRegress p t else t
      | Triggered j \<Rightarrow> if j = g then activeTriggered t else if j = g + 1 then deactivateTriggered t else t
      | Cancelled j \<Rightarrow> if j = g then activeTriggered t else if j = g + 1 then deactivateTriggered t else t
      | _ \<Rightarrow> t)"

lemma deliver_effect:
  assumes "addTouchpadSwipeGesture i d f m = Inr m'" "d \<noteq> SwipeInvalid" "fresh_ids m" "spares i m"
  shows "deliver m' e w i = effect (nextGesture m) e (w i)"
proof -
  have m': "slots m' = (slots m)(
        nextGesture m \<mapsto> SwipeSlot \<lparr>fb_direction = d, fb_fingerCount = f,
          actionCallback = Some (activeTriggeredCallback i), fb_progressCallback = Some (progressCallback i)\<rparr>,
        nextGesture m + 1 \<mapsto> SwipeSlot \<lparr>fb_direction = opposite d, fb_fingerCount = f,
          actionCallback = Some (deactivateTriggeredCallback i), fb_progressCallback = Some (regressCallback i)\<rparr>)"
    using assms(1) addTouchpadSwipeGesture_eq [OF assms(2,3)] by auto
  have "deliver m e w i = w i" using assms(4) by (simp add: spares_def)
  then show ?thesis
    by (cases e) (auto simp: deliver_def effect_def m' fire_def on_toggle_def activeTriggeredCallback_def
        deactivateTriggeredCallback_def progressCallback_def regressCallback_def)
qed

lemma fold_deliver_effect:
  assumes "\<And>e w. deliver m' e w i = effect g e (w i)"
  shows "fold (deliver m') es w i = fold (effect g) es (w i)"
  by (induction es arbitrary: w) (simp_all add: assms)

definition added :: "gid \<Rightarrow> direction \<Rightarrow> nat \<Rightarrow> recognizer \<Rightarrow> recognizer" where
  "added g d f r = r\<lparr>swipe := (swipe r)(g := swipe_for d f, g + 1 := swipe_for (opposite d) f),
     swipeGestures := swipeGestures r @ [g, g + 1]\<rparr>"

lemma matching_added:
  assumes "\<forall>i \<in> set (swipeGestures r). i < g"
  shows "matching (added g d f r) f e =
    matching r f e @ (if e = d then [g] else []) @ (if e = opposite d then [g + 1] else [])"
proof -
  let ?P = "\<lambda>i. admits f (swipe (added g d f r) i) \<and> direction (swipe (added g d f r) i) = e"
  have "filter ?P (swipeGestures r) = matching r f e"
    unfolding matching_def using assms by (intro filter_cong) (auto simp: added_def)
  moreover have "matching (added g d f r) f e = filter ?P (swipeGestures r @ [g, g + 1])"
    by (simp add: matching_def added_def)
  moreover have "?P g \<longleftrightarrow> e = d" "?P (g + 1) \<longleftrightarrow> e = opposite d" by (auto simp: added_def)
  ultimately have "matching (added g d f r) f e =
      matching r f e @ (if e = d then g # (if e = opposite d then [g + 1] else [])
        else if e = opposite d then [g + 1] else [])"
    by (simp only: filter_append filter.simps)
  then show ?thesis by simp
qed

lemma fold_effect_others:
  assumes "\<And>j. j \<in> set is \<Longrightarrow> j < g \<and> h j \<in> {Triggered j, Cancelled j} \<union> range (Progress j)"
  shows "fold (effect g) (map h is) t = t"
  using assms
proof (induction "is" arbitrary: t)
  case Nil
  show ?case by simp
next
  case (Cons j js)
  from Cons.prems [of j] have "effect g (h j) t = t" by (auto simp: effect_def)
  with Cons show ?case by simp
qed

lemma fold_effect_selection:
  assumes "\<forall>i \<in> set (swipeGestures r). i < g" "d \<noteq> SwipeInvalid"
    and h: "\<And>j. h j \<in> {Triggered j, Cancelled j} \<union> range (Progress j)"
  shows "fold (effect g) (map h (selection (added g d f r) f a p)) t =
    (if a = NoAxis then t
     else if swipe_direction a p = d then effect g (h g) t
     else if swipe_direction a p = opposite d then effect g (h (g + 1)) t else t)"
proof -
  have "fold (effect g) (map h (matching r f e)) t = t" for e t
    using assms(1) h by (intro fold_effect_others) (auto simp: matching_def)
  then show ?thesis
    using opposite_neq [OF assms(2)] by (simp add: selection_def matching_added [OF assms(1)])
qed

lemma reported_added:
  "d \<noteq> SwipeInvalid \<Longrightarrow> reported (added g d f r) p g = Progress g (ratio (along d p) 200)"
  "d \<noteq> SwipeInvalid \<Longrightarrow> reported (added g d f r) p (g + 1) = Progress (g + 1) (ratio (along (opposite d) p) 200)"
  by (simp_all add: reported_def added_def deltaToProgress_relevant) (simp_all add: along_def)

lemma fold_effect_log:
  assumes "\<forall>i \<in> set (swipeGestures r). i < g" "d \<noteq> SwipeInvalid"
  shows "fold (effect g) (progress_log (added g d f r) f a p ds) t =
    fold (drive setProgress setRegress d) (head_log a p ds) t"
proof (induction ds arbitrary: a p t)
  case Nil
  show ?case by simp
next
  case (Cons x ds)
  let ?q = "padd p x"
  let ?b = "lock_axis a ?q"
  let ?e = "swipe_direction ?b ?q"
  have "reported (added g d f r) ?q j \<in> {Triggered j, Cancelled j} \<union> range (Progress j)" for j
    by (simp add: reported_def)
  note sel = fold_effect_selection [OF assms this, of f ?b ?q t]
  have "fold (effect g) (map (reported (added g d f r) ?q) (selection (added g d f r) f ?b ?q)) t =
      fold (drive setProgress setRegress d) (if ?b = NoAxis then [] else [(?e, ratio (along ?e ?q) 200)]) t"
    using opposite_neq [OF assms(2)] reported_added [OF assms(2), of g f r ?q]
    by (auto simp: sel drive_def effect_def)
  then show ?case by (simp add: Cons.IH Let_def)
qed

lemma fold_effect_verdict:
  assumes "\<forall>i \<in> set (swipeGestures r). i < g" "d \<noteq> SwipeInvalid"
  shows "fold (effect g) (map (verdict (added g d f r) p) (selection (added g d f r) f a p)) t =
    (if a = NoAxis then t
     else if swipe_direction a p = d then activeTriggered t
     else if swipe_direction a p = opposite d then deactivateTriggered t else t)"
proof -
  have v: "verdict (added g d f r) p j \<in> {Triggered j, Cancelled j} \<union> range (Progress j)" for j
    by (simp add: verdict_def)
  have "effect g (verdict (added g d f r) p g) t = activeTriggered t"
    "effect g (verdict (added g d f r) p (g + 1)) t = deactivateTriggered t"
    by (simp_all add: verdict_def effect_def)
  then show ?thesis by (simp only: fold_effect_selection [OF assms v])
qed

text \<open>The direction the fingers have gone in when they leave the touchpad, if any.\<close>

definition final_direction :: "point list \<Rightarrow> direction" where
  "final_direction ds = swipe_direction (axis_after NoAxis (0, 0) ds) (travelled (0, 0) ds)"

definition settle :: "direction \<Rightarrow> direction \<Rightarrow> togglable \<Rightarrow> togglable" where
  "settle d e t =
     (if e = d then activeTriggered t else if e = opposite d then deactivateTriggered t else t)"

lemma swipe_on_switch:
  assumes add: "addTouchpadSwipeGesture i d f m = Inr m'" and d: "d \<noteq> SwipeInvalid"
    and m: "fresh_ids m" "spares i m" "idle (touchpadRecognizer m)" and f: "f \<ge> MIN_SWIPE_FINGERS"
  shows "\<exists>m'' w'. processSwipe f ds (m', w) = Inr (m'', w')
     \<and> w' i = settle d (final_direction ds) (fold (drive setProgress setRegress d) (head_log NoAxis (0, 0) ds) (w i))"
proof -
  let ?g = "nextGesture m" and ?r = "touchpadRecognizer m"
  have r': "touchpadRecognizer m' = added ?g d f ?r"
    using add addTouchpadSwipeGesture_eq [OF d m(1)] by (auto simp: added_def)
  have "idle (touchpadRecognizer m')" using m(3) by (simp add: r' added_def idle_def)
  from processSwipe_world [OF this f, of ds w] obtain m'' where
    p: "processSwipe f ds (m', w) = Inr (m'',
       fold (deliver m') (map (verdict (added ?g d f ?r) (travelled (0, 0) ds)) (recognised (added ?g d f ?r) f ds))
         (fold (deliver m') (progress_log (added ?g d f ?r) f NoAxis (0, 0) ds) w))"
    by (auto simp: r')
  have lt: "\<forall>i \<in> set (swipeGestures ?r). i < ?g" using m(1) by (simp add: fresh_ids_def)
  note fd = fold_deliver_effect [OF deliver_effect [OF add d m(1,2)]]
  have "swipe_direction NoAxis q \<noteq> d \<and> swipe_direction NoAxis q \<noteq> opposite d" for q
    using d opposite_invalid [of d] by (auto simp: swipe_direction_def simp del: opposite_invalid)
  then show ?thesis
    by (simp add: p fd recognised_def fold_effect_log [OF lt d] fold_effect_verdict [OF lt d]
        settle_def final_direction_def)
qed

lemma head_log_final:
  assumes "final_direction ds = e" "e \<noteq> SwipeInvalid"
  shows "head_log NoAxis (0, 0) ds \<noteq> []
    \<and> last (head_log NoAxis (0, 0) ds) = (e, ratio (along e (travelled (0, 0) ds)) 200)"
proof -
  have "axis_after NoAxis (0, 0) ds \<noteq> NoAxis"
    using assms by (auto simp: final_direction_def swipe_direction_def)
  moreover from this have "ds \<noteq> []" by auto
  ultimately show ?thesis using head_log_last [of ds NoAxis "(0, 0)"] assms by (simp add: final_direction_def Let_def)
qed

lemma settle_fields:
  "t_status (activeTriggered t) =
     (if t_status t = Activating then if factor_above (t_factor t) then Active else Inactive else t_status t)"
  "t_status (deactivateTriggered t) =
     (if t_status t = Deactivating then if factor_below (t_factor t) then Inactive else Active else t_status t)"
  by (simp_all add: activeTriggered_def deactivateTriggered_def activate_def deactivate_def)

lemma ratio_200:
  "factor_above (map_option (\<lambda>x. x) (ratio v 200)) \<longleftrightarrow> \<bar>v\<bar> > 100"
  "factor_below (map_option (\<lambda>x. 1 - x) (ratio v 200)) \<longleftrightarrow> \<bar>v\<bar> > 100"
  by (auto simp: ratio_def factor_above_def factor_below_def min_def)

text \<open>A manager without gestures.\<close>

lemma fresh_ids_new: "fresh_ids newGestureManager"
  by (simp add: fresh_ids_def newGestureManager_def newGestureRecognizer_def)

lemma spares_new: "spares i newGestureManager"
  by (simp add: spares_def newGestureManager_def deliver_def split: gsignal.splits)

lemma idle_new: "idle (touchpadRecognizer newGestureManager)"
  by (simp add: idle_def newGestureManager_def newGestureRecognizer_def)

lemma three_fingers: "3 \<ge> MIN_SWIPE_FINGERS"
  by (simp add: MIN_SWIPE_FINGERS_def)

definition the_ok :: "'a result \<Rightarrow> 'a" where
  "the_ok x = projr x"

lemmas swipe_evaluation = final_direction_def along_def travelled_def padd_def lock_axis_def
  SWIPE_MINIMUM_DELTA_def dominant_axis_def swipe_direction_def

text \<open>A swipe of \<open>f\<close> fingers over a touchpad whose manager has a switch for direction \<open>d\<close>: if it
  starts with the switch inactive and ends in direction \<open>d\<close>, the switch ends active when the fingers
  went more than half of the 200 units of the gesture and inactive otherwise. If it ends in another
  direction the switch is left as the movements put it: Activating if they ever went in direction
  \<open>d\<close> after the axis was locked, and inactive otherwise.\<close>

theorem swipe_activates:
  assumes "addTouchpadSwipeGesture i d f m = Inr m'" "d \<noteq> SwipeInvalid"
    "fresh_ids m" "spares i m" "idle (touchpadRecognizer m)" "f \<ge> MIN_SWIPE_FINGERS"
    "t_status (w i) = Inactive"
  shows "\<exists>m'' w'. processSwipe f ds (m', w) = Inr (m'', w') \<and> t_status (w' i) =
     (if final_direction ds = d then if \<bar>along d (travelled (0, 0) ds)\<bar> > 100 then Active else Inactive
      else if d \<in> fst ` set (head_log NoAxis (0, 0) ds) then Activating else Inactive)"
proof -
  let ?t = "fold (drive setProgress setRegress d) (head_log NoAxis (0, 0) ds) (w i)"
  have w: "t_status (w i) \<in> {Inactive, Activating}" using assms(7) by simp
  have "t_status ?t \<in> {Inactive, Activating}" using up.drive_status [OF w] assms(7) by auto
  moreover have "final_direction ds = d \<Longrightarrow> t_status ?t = Activating
      \<and> (factor_above (t_factor ?t) \<longleftrightarrow> \<bar>along d (travelled (0, 0) ds)\<bar> > 100)"
    using up.drive_factor [OF w] head_log_final assms(2) ratio_200(1) by fastforce
  ultimately show ?thesis
    using swipe_on_switch [OF assms(1-6), of ds w] up.drive_status [OF w, of d "head_log NoAxis (0, 0) ds"] assms(7)
    by (auto simp: settle_def settle_fields split: if_splits)
qed

theorem swipe_activates_witness:
  "\<exists>m'' w'. processSwipe 3 [(0, - 4), (1, - 110)] (the_ok (addTouchpadSwipeGesture 0 SwipeUp 3 newGestureManager),
       \<lambda>_. newTogglableGesture None) = Inr (m'', w') \<and> t_status (w' 0) = Active"
proof -
  obtain m' where m': "addTouchpadSwipeGesture 0 SwipeUp 3 newGestureManager = Inr m'"
    using addTouchpadSwipeGesture_eq [OF _ fresh_ids_new] by blast
  let ?ds = "[(0, - 4), (1, - 110)]"
  have "final_direction ?ds = SwipeUp" "\<bar>along SwipeUp (travelled (0, 0) ?ds)\<bar> > 100"
    by (simp_all add: swipe_evaluation)
  with swipe_activates [OF m' _ fresh_ids_new spares_new idle_new three_fingers, of "\<lambda>_. newTogglableGesture None" ?ds] m'
  show ?thesis by (simp add: newTogglableGesture_def the_ok_def)
qed

text \<open>The same for a switch that is active: a swipe that ends against \<open>d\<close> makes it inactive when
  the fingers went more than half of the 200 units and leaves it active otherwise; one that ends in
  another direction leaves it Deactivating if the movements ever went against \<open>d\<close> after the axis was
  locked, and active otherwise.\<close>

theorem swipe_deactivates:
  assumes "addTouchpadSwipeGesture i d f m = Inr m'" "d \<noteq> SwipeInvalid"
    "fresh_ids m" "spares i m" "idle (touchpadRecognizer m)" "f \<ge> MIN_SWIPE_FINGERS"
    "t_status (w i) = Active"
  shows "\<exists>m'' w'. processSwipe f ds (m', w) = Inr (m'', w') \<and> t_status (w' i) =
     (if final_direction ds = opposite d then if \<bar>along d (travelled (0, 0) ds)\<bar> > 100 then Inactive else Active
      else if opposite d \<in> fst ` set (head_log NoAxis (0, 0) ds) then Deactivating else Active)"
proof -
  let ?l = "head_log NoAxis (0, 0) ds"
  let ?t = "fold (drive setRegress setProgress (opposite d)) ?l (w i)"
  have sym: "drive setProgress setRegress d = drive setRegress setProgress (opposite d)"
    using opposite_neq [OF assms(2)] by (intro ext) (auto simp: drive_def)
  have al: "along (opposite d) p = along d p" for p
    by (cases d) (simp_all add: along_def opposite_def)
  have w: "t_status (w i) \<in> {Active, Deactivating}" using assms(7) by simp
  have "t_status ?t \<in> {Active, Deactivating}" using down.drive_status [OF w] assms(7) by auto
  moreover have "final_direction ds = opposite d \<Longrightarrow> t_status ?t = Deactivating
      \<and> (factor_below (t_factor ?t) \<longleftrightarrow> \<bar>along d (travelled (0, 0) ds)\<bar> > 100)"
    using down.drive_factor [OF w, of ?l "opposite d"] head_log_final [of ds "opposite d"] assms(2) ratio_200(2) al
    by fastforce
  ultimately show ?thesis
    using swipe_on_switch [OF assms(1-6), of ds w] down.drive_status [OF w, of "opposite d" ?l] assms(7)
      opposite_neq [OF assms(2)]
    by (auto simp: sym settle_def settle_fields split: if_splits)
qed

theorem swipe_deactivates_witness:
  "\<exists>m'' w'. processSwipe 3 [(0, 4), (1, 110)] (the_ok (addTouchpadSwipeGesture 0 SwipeUp 3 newGestureManager),
       \<lambda>_. activate True (newTogglableGesture None)) = Inr (m'', w') \<and> t_status (w' 0) = Inactive"
proof -
  obtain m' where m': "addTouchpadSwipeGesture 0 SwipeUp 3 newGestureManager = Inr m'"
    using addTouchpadSwipeGesture_eq [OF _ fresh_ids_new] by blast
  let ?ds = "[(0, 4), (1, 110)]"
  have "final_direction ?ds = opposite SwipeUp" "\<bar>along SwipeUp (travelled (0, 0) ?ds)\<bar> > 100"
    by (simp_all add: swipe_evaluation opposite_def)
  with swipe_deactivates [OF m' _ fresh_ids_new spares_new idle_new three_fingers,
      of "\<lambda>_. activate True (newTogglableGesture None)" ?ds] m'
  show ?thesis by (simp add: activate_def the_ok_def)
qed

text \<open>A three-finger swipe that goes 60 units up and then 80 down, so that it ends below its
  start, leaves an inactive switch for swipes up Activating with its gesture in progress after the
  fingers have left the touchpad: the recognizer drops the gesture it had started from its active
  list when the direction turns, without cancelling it.\<close>

theorem reversed_swipe_stays_in_progress:
  "\<exists>m'' w'. processSwipe 3 [(0, - 60), (0, 80)] (the_ok (addTouchpadSwipeGesture 0 SwipeUp 3 newGestureManager),
       \<lambda>_. newTogglableGesture None) = Inr (m'', w')
     \<and> t_status (w' 0) = Activating \<and> t_inProgress (w' 0) \<and> idle (touchpadRecognizer m'')"
proof -
  obtain m' where m': "addTouchpadSwipeGesture 0 SwipeUp 3 newGestureManager = Inr m'" "idle (touchpadRecognizer m')"
    using addTouchpadSwipeGesture_eq [OF _ fresh_ids_new, of SwipeUp 0 3] idle_new by (auto simp: idle_def)
  let ?ds = "[(0, - 60), (0, 80)]" and ?t = "newTogglableGesture None"
  have "\<exists>m''. (\<exists>w'. processSwipe 3 ?ds (m', \<lambda>_. ?t) = Inr (m'', w')) \<and> idle (touchpadRecognizer m'')"
    using processSwipe_world [OF m'(2) three_fingers, of ?ds "\<lambda>_. ?t"] by blast
  moreover have "\<exists>m'' w'. processSwipe 3 ?ds (m', \<lambda>_. ?t) = Inr (m'', w')
     \<and> w' 0 = settle SwipeUp (final_direction ?ds) (fold (drive setProgress setRegress SwipeUp) (head_log NoAxis (0, 0) ?ds) ?t)"
    by (rule swipe_on_switch [OF m'(1) _ fresh_ids_new spares_new idle_new three_fingers]) simp
  moreover have "final_direction ?ds = SwipeDown"
    "head_log NoAxis (0, 0) ?ds = [(SwipeUp, Some (3 / 10)), (SwipeDown, Some (1 / 10))]"
    by (simp_all add: swipe_evaluation Let_def ratio_def)
  ultimately show ?thesis
    by (auto simp: m' the_ok_def settle_def drive_def opposite_def setProgress_def setRegress_def
        newTogglableGesture_def deactivateTriggered_def)
qed

end
