(* ===== verification/Shortcut_Keys.thy ===== *)
theory Shortcut_Keys
  imports Treeland_Prelude
begin

text \<open>
  Key combinations of src/src/modules/shortcut/shortcutcontroller.cpp. A \<^verbatim>\<open>QKeyCombination\<close> is its
  32-bit integer: the bits of \<open>KeyboardModifierMask\<close> are the modifiers, the others the \<^verbatim>\<open>Qt::Key\<close>.
  Every \<^verbatim>\<open>Qt::Key\<close> is below \<open>0x02000000\<close>, so that the comparisons of the sources agree with the
  unsigned ones used here. \<^verbatim>\<open>QKeySequence::fromString\<close> belongs to Qt and is the parameter \<open>parse\<close>,
  from a text to the combinations of the sequence.
\<close>

unbundle bit_operations_syntax

type_synonym keycomb = "32 word"

section \<open>Keys and modifiers of Qt\<close>

definition KeyboardModifierMask :: keycomb where "KeyboardModifierMask = 0xfe000000"
definition ShiftModifier :: keycomb where "ShiftModifier = 0x02000000"
definition ControlModifier :: keycomb where "ControlModifier = 0x04000000"
definition AltModifier :: keycomb where "AltModifier = 0x08000000"
definition MetaModifier :: keycomb where "MetaModifier = 0x10000000"

definition Key_Space :: keycomb where "Key_Space = 0x20"
definition Key_Escape :: keycomb where "Key_Escape = 0x01000000"
definition Key_Tab :: keycomb where "Key_Tab = 0x01000001"
definition Key_Backspace :: keycomb where "Key_Backspace = 0x01000003"
definition Key_Insert :: keycomb where "Key_Insert = 0x01000006"
definition Key_Delete :: keycomb where "Key_Delete = 0x01000007"
definition Key_Pause :: keycomb where "Key_Pause = 0x01000008"
definition Key_Print :: keycomb where "Key_Print = 0x01000009"
definition Key_Home :: keycomb where "Key_Home = 0x01000010"
definition Key_Left :: keycomb where "Key_Left = 0x01000012"
definition Key_Down :: keycomb where "Key_Down = 0x01000015"
definition Key_PageDown :: keycomb where "Key_PageDown = 0x01000017"
definition Key_Shift :: keycomb where "Key_Shift = 0x01000020"
definition Key_Control :: keycomb where "Key_Control = 0x01000021"
definition Key_Meta :: keycomb where "Key_Meta = 0x01000022"
definition Key_Alt :: keycomb where "Key_Alt = 0x01000023"
definition Key_CapsLock :: keycomb where "Key_CapsLock = 0x01000024"
definition Key_NumLock :: keycomb where "Key_NumLock = 0x01000025"
definition Key_ScrollLock :: keycomb where "Key_ScrollLock = 0x01000026"
definition Key_F1 :: keycomb where "Key_F1 = 0x01000030"
definition Key_F35 :: keycomb where "Key_F35 = 0x01000052"
definition Key_Super_L :: keycomb where "Key_Super_L = 0x01000053"
definition Key_Super_R :: keycomb where "Key_Super_R = 0x01000054"
definition Key_Menu :: keycomb where "Key_Menu = 0x01000055"
definition Key_Hyper_L :: keycomb where "Key_Hyper_L = 0x01000056"
definition Key_Hyper_R :: keycomb where "Key_Hyper_R = 0x01000057"
definition Key_Help :: keycomb where "Key_Help = 0x01000058"
definition Key_Back :: keycomb where "Key_Back = 0x01000061"
definition Key_MediaPlay :: keycomb where "Key_MediaPlay = 0x01000080"
definition Key_LaunchMail :: keycomb where "Key_LaunchMail = 0x010000a0"
definition Key_Launch9 :: keycomb where "Key_Launch9 = 0x010000ab"
definition Key_KeyboardBrightnessDown :: keycomb where "Key_KeyboardBrightnessDown = 0x010000b6"
definition Key_AltGr :: keycomb where "Key_AltGr = 0x01001103"
definition Key_MediaLast :: keycomb where "Key_MediaLast = 0x0100ffff"
definition Key_Cancel :: keycomb where "Key_Cancel = 0x01020001"
definition Key_unknown :: keycomb where "Key_unknown = 0x01ffffff"

lemmas modifier_defs = KeyboardModifierMask_def ShiftModifier_def ControlModifier_def AltModifier_def
  MetaModifier_def

lemmas key_defs = Key_Space_def Key_Escape_def Key_Tab_def Key_Backspace_def Key_Insert_def
  Key_Delete_def Key_Pause_def Key_Print_def Key_Home_def Key_Left_def Key_Down_def Key_PageDown_def
  Key_Shift_def Key_Control_def Key_Meta_def Key_Alt_def Key_CapsLock_def Key_NumLock_def
  Key_ScrollLock_def Key_F1_def Key_F35_def Key_Super_L_def Key_Super_R_def Key_Menu_def Key_Hyper_L_def
  Key_Hyper_R_def Key_Help_def Key_Back_def Key_MediaPlay_def Key_LaunchMail_def Key_Launch9_def
  Key_KeyboardBrightnessDown_def Key_AltGr_def Key_MediaLast_def Key_Cancel_def Key_unknown_def

definition keyboardModifiers :: "keycomb \<Rightarrow> keycomb" where
  "keyboardModifiers c = c AND KeyboardModifierMask"

definition key_of :: "keycomb \<Rightarrow> keycomb" where
  "key_of c = c AND NOT KeyboardModifierMask"

definition mkcomb :: "keycomb \<Rightarrow> keycomb \<Rightarrow> keycomb" where
  "mkcomb mods key = mods OR key"

section \<open>Operations\<close>

definition normalizeKeyCombination :: "keycomb \<Rightarrow> keycomb" where
  "normalizeKeyCombination c =
     (let mods = keyboardModifiers c; key = key_of c in
      if key = Key_Control then mkcomb (mods OR ControlModifier) Key_unknown
      else if key = Key_Shift then mkcomb (mods OR ShiftModifier) Key_unknown
      else if key = Key_Alt then mkcomb (mods OR AltModifier) Key_unknown
      else if key = Key_Meta \<or> key = Key_Super_L \<or> key = Key_Super_R
           then mkcomb (mods OR MetaModifier) Key_unknown
      else mkcomb mods key)"

definition isValidShortcutCombination :: "keycomb \<Rightarrow> bool" where
  "isValidShortcutCombination combination =
     (let normalized = normalizeKeyCombination combination;
          mods = keyboardModifiers normalized
                   AND (ControlModifier OR AltModifier OR MetaModifier OR ShiftModifier);
          key = key_of normalized
      in if key = Key_unknown then mods = MetaModifier
         else if mods AND (ControlModifier OR AltModifier OR MetaModifier) \<noteq> 0 then True
         else if key \<ge> Key_F1 \<and> key \<le> Key_F35 then True
         else if key \<in> {Key_Delete, Key_Backspace, Key_Pause, Key_Print, Key_Insert, Key_Help,
                        Key_Menu, Key_Cancel} then True
         else if mods = ShiftModifier
                 \<and> (key \<in> {Key_Space, Key_Escape, Key_Tab}
                    \<or> key \<ge> Key_Home \<and> key \<le> Key_PageDown \<or> key \<ge> Key_Left \<and> key \<le> Key_Down) then True
         else mods = 0
              \<and> (key \<ge> Key_Back \<and> key \<le> Key_KeyboardBrightnessDown
                 \<or> key \<ge> Key_LaunchMail \<and> key \<le> Key_Launch9
                 \<or> key \<ge> Key_MediaPlay \<and> key \<le> Key_MediaLast))"

definition endsWith :: "string \<Rightarrow> string \<Rightarrow> bool" where
  "endsWith s t = (length t \<le> length s \<and> drop (length s - length t) s = t)"

definition normalizedKeyCombinedFor :: "(string \<Rightarrow> keycomb list) \<Rightarrow> string \<Rightarrow> keycomb" where
  "normalizedKeyCombinedFor parse key =
     (let seq = parse (if endsWith key ''+Ctrl'' then key @ ''+Control'' else key) in
      if length seq \<noteq> 1 then 0 else normalizeKeyCombination (seq ! 0))"

definition isPureModifierKey :: "keycomb \<Rightarrow> bool" where
  "isPureModifierKey key =
     (key \<in> {Key_Shift, Key_Control, Key_Alt, Key_Hyper_L, Key_Hyper_R, Key_AltGr, Key_CapsLock,
             Key_NumLock, Key_ScrollLock})"

section \<open>Normal forms\<close>

lemma mkcomb_parts [simp]:
  "keyboardModifiers (mkcomb (keyboardModifiers m) (key_of k)) = keyboardModifiers m"
  "key_of (mkcomb (keyboardModifiers m) (key_of k)) = key_of k"
  by (rule bit_word_eqI; auto simp: keyboardModifiers_def key_of_def mkcomb_def bit_simps)+

lemma mkcomb_split [simp]: "mkcomb (keyboardModifiers c) (key_of c) = c"
  by (rule bit_word_eqI) (auto simp: keyboardModifiers_def key_of_def mkcomb_def bit_simps)

lemma modifiers_or:
  "keyboardModifiers (keyboardModifiers c OR d) = keyboardModifiers c OR keyboardModifiers d"
  by (rule bit_word_eqI) (auto simp: keyboardModifiers_def bit_simps)

lemma modifier_constants [simp]:
  "keyboardModifiers ControlModifier = ControlModifier" "keyboardModifiers ShiftModifier = ShiftModifier"
  "keyboardModifiers AltModifier = AltModifier" "keyboardModifiers MetaModifier = MetaModifier"
  by (simp_all add: keyboardModifiers_def modifier_defs)

lemma key_unknown [simp]: "key_of Key_unknown = Key_unknown"
  by (simp add: key_of_def modifier_defs key_defs)

text \<open>The modifier a modifier key stands for.\<close>

definition own_modifier :: "keycomb \<Rightarrow> keycomb option" where
  "own_modifier key =
     (if key = Key_Control then Some ControlModifier else if key = Key_Shift then Some ShiftModifier
      else if key = Key_Alt then Some AltModifier
      else if key = Key_Meta \<or> key = Key_Super_L \<or> key = Key_Super_R then Some MetaModifier else None)"

lemma own_modifier_modifier: "own_modifier k = Some m \<Longrightarrow> keyboardModifiers m = m"
  by (auto simp: own_modifier_def split: if_splits)

lemma own_modifier_unknown [simp]: "own_modifier Key_unknown = None"
  by (simp add: own_modifier_def key_defs)

lemma normalize_cases:
  "normalizeKeyCombination c =
     (case own_modifier (key_of c) of
        None \<Rightarrow> c
      | Some m \<Rightarrow> mkcomb (keyboardModifiers (keyboardModifiers c OR m)) Key_unknown)"
proof (cases "own_modifier (key_of c)")
  case None
  then show ?thesis by (auto simp: normalizeKeyCombination_def own_modifier_def Let_def split: if_splits)
next
  case (Some m)
  then have "normalizeKeyCombination c = mkcomb (keyboardModifiers c OR m) Key_unknown"
    by (auto simp: normalizeKeyCombination_def own_modifier_def Let_def split: if_splits)
  moreover have "keyboardModifiers c OR m = keyboardModifiers (keyboardModifiers c OR m)"
    using own_modifier_modifier [OF Some] by (simp add: modifiers_or)
  ultimately show ?thesis using Some by simp
qed

lemma key_of_normalize:
  "key_of (normalizeKeyCombination c) = (if own_modifier (key_of c) = None then key_of c else Key_unknown)"
  using mkcomb_parts(2) [of _ Key_unknown] by (auto simp: normalize_cases split: option.splits)

lemma normalize_normalize [simp]:
  "normalizeKeyCombination (normalizeKeyCombination c) = normalizeKeyCombination c"
  by (subst normalize_cases) (simp add: key_of_normalize split: option.splits)

text \<open>Normalising a key combination gives a canonical form: it never has a modifier key as its
  key, normalising again changes nothing, and a combination is accepted as a shortcut exactly when
  its canonical form is.\<close>

theorem normalize_canonical:
  "normalizeKeyCombination (normalizeKeyCombination c) = normalizeKeyCombination c
   \<and> key_of (normalizeKeyCombination c) \<notin> {Key_Control, Key_Shift, Key_Alt, Key_Meta, Key_Super_L, Key_Super_R}
   \<and> isValidShortcutCombination (normalizeKeyCombination c) = isValidShortcutCombination c"
proof -
  have "own_modifier (key_of (normalizeKeyCombination c)) = None" by (simp add: key_of_normalize)
  then have "key_of (normalizeKeyCombination c) \<notin> {Key_Control, Key_Shift, Key_Alt, Key_Meta, Key_Super_L, Key_Super_R}"
    by (auto simp: own_modifier_def split: if_splits)
  then show ?thesis by (simp add: isValidShortcutCombination_def)
qed

text \<open>The keys of characters are below \<open>Key_Escape\<close>.\<close>

lemma character_key:
  assumes "k < Key_Escape"
  shows "own_modifier k = None" "k \<noteq> Key_unknown" "\<not> k \<ge> Key_F1" "\<not> k \<ge> Key_Home" "\<not> k \<ge> Key_Left"
    "\<not> k \<ge> Key_Back" "\<not> k \<ge> Key_LaunchMail" "\<not> k \<ge> Key_MediaPlay"
    "k \<notin> {Key_Delete, Key_Backspace, Key_Pause, Key_Print, Key_Insert, Key_Help, Key_Menu, Key_Cancel}"
    "k \<noteq> Key_Escape" "k \<noteq> Key_Tab"
  using assms
  by (auto simp: own_modifier_def key_defs not_le intro: less_trans [of _ "0x01000000"])

lemma and_single_bit: "(c :: keycomb) AND 2 ^ n = (if bit c n then 2 ^ n else 0)"
  by (rule bit_word_eqI) (auto simp: bit_simps)

text \<open>Typing is never taken for a shortcut: a character key without Control, Alt and Meta is
  accepted only if it is the space bar with Shift.\<close>

theorem typing_is_not_a_shortcut:
  assumes "key_of c < Key_Escape" "c AND (ControlModifier OR AltModifier OR MetaModifier) = 0"
  shows "isValidShortcutCombination c \<longleftrightarrow> key_of c = Key_Space \<and> c AND ShiftModifier \<noteq> 0"
proof -
  let ?all = "ControlModifier OR AltModifier OR MetaModifier OR ShiftModifier"
  have n: "normalizeKeyCombination c = c" using character_key(1) [OF assms(1)] by (simp add: normalize_cases)
  have "keyboardModifiers c AND ?all = c AND ?all"
    by (simp add: keyboardModifiers_def modifier_defs and.assoc)
  also have "\<dots> = c AND ShiftModifier"
  proof -
    have "?all = (ControlModifier OR AltModifier OR MetaModifier) OR ShiftModifier" by (simp add: or.assoc)
    then have "c AND ?all = (c AND (ControlModifier OR AltModifier OR MetaModifier)) OR (c AND ShiftModifier)"
      by (simp only: bit.conj_disj_distrib)
    then show ?thesis by (simp only: assms(2) or.left_neutral)
  qed
  finally have m: "keyboardModifiers c AND ?all = c AND ShiftModifier" .
  have "(c AND ShiftModifier) AND (ControlModifier OR AltModifier OR MetaModifier) = 0"
    by (simp add: modifier_defs and.assoc)
  moreover have "c AND ShiftModifier = ShiftModifier \<longleftrightarrow> c AND ShiftModifier \<noteq> 0"
  proof -
    have "c AND ShiftModifier = (if bit c 25 then ShiftModifier else 0)"
      using and_single_bit [of c 25] by (simp add: ShiftModifier_def)
    then show ?thesis by (simp add: ShiftModifier_def)
  qed
  ultimately show ?thesis
    using character_key [OF assms(1)] by (simp add: isValidShortcutCombination_def Let_def n m)
qed

theorem typing_is_not_a_shortcut_witness:
  "\<not> isValidShortcutCombination 0x41 \<and> isValidShortcutCombination 0x02000020"
proof -
  have "key_of 0x41 < Key_Escape" "0x41 AND (ControlModifier OR AltModifier OR MetaModifier) = 0"
    "key_of 0x02000020 < Key_Escape" "0x02000020 AND (ControlModifier OR AltModifier OR MetaModifier) = 0"
    "key_of 0x41 \<noteq> Key_Space" "key_of 0x02000020 = Key_Space" "0x02000020 AND ShiftModifier \<noteq> 0"
    by (simp_all add: key_of_def modifier_defs key_defs)
  then show ?thesis
    using typing_is_not_a_shortcut [of "0x41"] typing_is_not_a_shortcut [of "0x02000020"] by blast
qed

end
