(* ===== verification/Shortcut_Controller.thy ===== *)
theory Shortcut_Controller
  imports Shortcut_Keys Gesture_Toggle QMap "HOL-Library.List_Lexorder" "HOL-Library.Char_ord"
    "HOL-Library.Product_Lexorder"
begin

text \<open>
  src/src/modules/shortcut/shortcutcontroller.cpp: the bindings of keys and touchpad gestures to
  actions. The controller registers its gestures with the gesture manager, whose callbacks run on
  the controller; the pair of both is the state \<open>shortcut_system\<close>. The functions stored in
  \<^verbatim>\<open>m_deleters\<close> are values of \<open>deleter\<close>, run by \<open>run_deleter\<close>. An action is the 32-bit number the
  protocol gives it. The logging of the sources is left out.
\<close>

type_synonym action = "32 word"
type_synonym keyflags = "32 word"
type_synonym gesture_key = "nat \<times> direction"

fun direction_rank :: "direction \<Rightarrow> nat" where
  "direction_rank SwipeInvalid = 0"
| "direction_rank SwipeDown = 1"
| "direction_rank SwipeLeft = 2"
| "direction_rank SwipeUp = 3"
| "direction_rank SwipeRight = 4"

lemma direction_rank_inj: "direction_rank d = direction_rank e \<Longrightarrow> d = e"
  by (cases d; cases e) simp_all

instantiation direction :: linorder
begin

definition less_eq_direction :: "direction \<Rightarrow> direction \<Rightarrow> bool" where
  "less_eq_direction d e = (direction_rank d \<le> direction_rank e)"

definition less_direction :: "direction \<Rightarrow> direction \<Rightarrow> bool" where
  "less_direction d e = (direction_rank d < direction_rank e)"

instance
  by standard (auto simp: less_eq_direction_def less_direction_def direction_rank_inj)

end

datatype bind_error = NameConflict | DuplicateBinding | InvalidArgument | InternalError

datatype csignal =
    ActionTriggered action string bool keyflags
  | ActionProgress action "real option" string
  | ActionFinished action string bool

datatype deleter = DelKey keycomb action | DelSwipe gesture_key action | DelHold gesture_key action

datatype gesture_ref = SwipeRef gid | HoldRef gid

record shortcut_controller =
  keyMap :: "(keycomb, (action, string \<times> keyflags) qmap) qmap"
  gesturemap :: "(gesture_key, (action, string) qmap) qmap"
  gestures :: "(gesture_key, gesture_ref) qmap"
  deleters :: "(string, deleter) qmap"
  actionCombinedMap :: "(action, keycomb) qmap"
  c_signals :: "csignal list"

type_synonym shortcut_system = "shortcut_controller manager \<times> shortcut_controller"

definition newShortcutController :: shortcut_controller where
  "newShortcutController =
     \<lparr>keyMap = [], gesturemap = [], gestures = [], deleters = [], actionCombinedMap = [], c_signals = []\<rparr>"

definition KF_KeyPress :: keyflags where "KF_KeyPress = 1"
definition KF_KeyRelease :: keyflags where "KF_KeyRelease = 2"
definition KF_Repeat :: keyflags where "KF_Repeat = 4"
definition KF_All :: keyflags where "KF_All = KF_KeyPress OR KF_KeyRelease OR KF_Repeat"

section \<open>Binding\<close>

definition bindKey :: "string \<Rightarrow> keycomb \<Rightarrow> keyflags \<Rightarrow> action \<Rightarrow> shortcut_controller \<Rightarrow> shortcut_controller" where
  "bindKey name combined fl a c =
     c\<lparr>keyMap := qput combined (qput a (name, fl) (qval (keyMap c) combined [])) (keyMap c),
       actionCombinedMap := qput a combined (actionCombinedMap c),
       deleters := qput name (DelKey combined a) (deleters c)\<rparr>"

definition registerKey ::
  "(string \<Rightarrow> keycomb list) \<Rightarrow> string \<Rightarrow> string \<Rightarrow> keyflags \<Rightarrow> action \<Rightarrow> shortcut_controller
     \<Rightarrow> bind_error option \<times> shortcut_controller" where
  "registerKey parse name key fl a c =
     (let combined = normalizedKeyCombinedFor parse key in
      if combined = 0 then (Some InvalidArgument, c)
      else if \<not> isValidShortcutCombination combined then (Some InvalidArgument, c)
      else if fl AND NOT KF_All \<noteq> 0 then (Some InvalidArgument, c)
      else
        let c = c\<lparr>keyMap := qtouch combined [] (keyMap c)\<rparr>;
            entry = qval (keyMap c) combined []
        in case qget entry a of
             Some (prevName, flags) \<Rightarrow>
               if name \<noteq> prevName \<and> qhas (deleters c) name then (Some NameConflict, c)
               else (None, bindKey name combined fl a (c\<lparr>deleters := qdel prevName (deleters c)\<rparr>))
           | None \<Rightarrow>
               if qhas (deleters c) name then (Some NameConflict, c)
               else (None, bindKey name combined fl a c))"

text \<open>The callbacks of a gesture: every action bound to the gesture at the time of the call.\<close>

definition with_entry ::
  "gesture_key \<Rightarrow> (action \<times> string \<Rightarrow> csignal) \<Rightarrow> shortcut_controller \<Rightarrow> shortcut_controller" where
  "with_entry g f c =
     (let c = c\<lparr>gesturemap := qtouch g [] (gesturemap c)\<rparr>
      in c\<lparr>c_signals := c_signals c @ map f (qval (gesturemap c) g [])\<rparr>)"

definition swipeFeedback :: "gesture_key \<Rightarrow> shortcut_controller swipe_feedback" where
  "swipeFeedback g =
     \<lparr>fb_direction = snd g, fb_fingerCount = fst g,
      actionCallback = Some (\<lambda>triggered. with_entry g (\<lambda>(act, nm). ActionFinished act nm triggered)),
      fb_progressCallback = Some (\<lambda>progress. with_entry g (\<lambda>(act, nm). ActionProgress act progress nm))\<rparr>"

definition holdFeedback :: "gesture_key \<Rightarrow> shortcut_controller hold_feedback" where
  "holdFeedback g =
     \<lparr>hfb_fingerCount = fst g, h_actionCallback = None,
      longProcessCallback = Some (with_entry g (\<lambda>(act, nm). ActionTriggered act nm True 0))\<rparr>"

definition bindGesture ::
  "deleter \<Rightarrow> string \<Rightarrow> gesture_key \<Rightarrow> action \<Rightarrow> shortcut_system \<Rightarrow> bind_error option \<times> shortcut_system" where
  "bindGesture del name g a s =
     (let (m, c) = s;
          c = c\<lparr>gesturemap := qtouch g [] (gesturemap c)\<rparr>;
          entry = qval (gesturemap c) g []
      in if qhas entry a then (Some DuplicateBinding, (m, c))
         else (None, (m, c\<lparr>gesturemap := qput g (qput a name entry) (gesturemap c),
                           deleters := qput name del (deleters c)\<rparr>)))"

definition sc_registerSwipeGesture ::
  "string \<Rightarrow> nat \<Rightarrow> direction \<Rightarrow> action \<Rightarrow> shortcut_system \<Rightarrow> (bind_error option \<times> shortcut_system) result" where
  "sc_registerSwipeGesture name finger d a s =
     (let (m, c) = s; g = (finger, d) in
      if qhas (deleters c) name then Inr (Some NameConflict, s)
      else if d = SwipeInvalid \<or> finger = 0 then Inr (Some InvalidArgument, s)
      else rbind (if qhas (gestures c) g then Inr (m, c)
                  else rbind (registerTouchpadSwipe (swipeFeedback g) m) (\<lambda>(i, m).
                         Inr (m, c\<lparr>gestures := qput g (SwipeRef i) (gestures c)\<rparr>)))
             (\<lambda>s. Inr (bindGesture (DelSwipe g a) name g a s)))"

definition sc_registerHoldGesture ::
  "string \<Rightarrow> nat \<Rightarrow> action \<Rightarrow> shortcut_system \<Rightarrow> (bind_error option \<times> shortcut_system) result" where
  "sc_registerHoldGesture name finger a s =
     (let (m, c) = s; g = (finger, SwipeInvalid) in
      if qhas (deleters c) name then Inr (Some NameConflict, s)
      else if finger = 0 then Inr (Some InvalidArgument, s)
      else rbind (if qhas (gestures c) g then Inr (m, c)
                  else rbind (registerTouchpadHold (holdFeedback g) m) (\<lambda>(i, m).
                         Inr (m, c\<lparr>gestures := qput g (HoldRef i) (gestures c)\<rparr>)))
             (\<lambda>s. Inr (bindGesture (DelHold g a) name g a s)))"

section \<open>Unbinding\<close>

text \<open>\<^verbatim>\<open>qobject_cast\<close> of a gesture of the other kind is null.\<close>

definition dropGesture :: "gesture_key \<Rightarrow> action \<Rightarrow> (gesture_ref \<Rightarrow> shortcut_system \<Rightarrow> shortcut_system result)
     \<Rightarrow> shortcut_system \<Rightarrow> shortcut_system result" where
  "dropGesture g a unregister s =
     (let (m, c) = s; entry = qdel a (qval (gesturemap c) g []);
          c = c\<lparr>gesturemap := qput g entry (gesturemap c)\<rparr>
      in if entry = []
         then (let c' = c\<lparr>gestures := qdel g (gestures c)\<rparr> in
               case qget (gestures c) g of None \<Rightarrow> Inr (m, c') | Some gesture \<Rightarrow> unregister gesture (m, c'))
         else Inr (m, c))"

fun run_deleter :: "deleter \<Rightarrow> shortcut_system \<Rightarrow> shortcut_system result" where
  "run_deleter (DelKey combined a) (m, c) =
     Inr (m, c\<lparr>keyMap := qput combined (qdel a (qval (keyMap c) combined [])) (keyMap c),
               actionCombinedMap := qdel a (actionCombinedMap c)\<rparr>)"
| "run_deleter (DelSwipe g a) s =
     dropGesture g a (\<lambda>gesture s. case gesture of SwipeRef i \<Rightarrow> unregisterTouchpadSwipe i s | HoldRef _ \<Rightarrow> Inr s) s"
| "run_deleter (DelHold g a) s =
     dropGesture g a (\<lambda>gesture s. case gesture of HoldRef i \<Rightarrow> unregisterTouchpadHold i s | SwipeRef _ \<Rightarrow> Inr s) s"

definition unregisterShortcut :: "string \<Rightarrow> shortcut_system \<Rightarrow> shortcut_system result" where
  "unregisterShortcut name s =
     (let (m, c) = s in
      case qget (deleters c) name of
        None \<Rightarrow> Inr s
      | Some del \<Rightarrow> run_deleter del (m, c\<lparr>deleters := qdel name (deleters c)\<rparr>))"

definition sc_clear :: "shortcut_system \<Rightarrow> shortcut_system result" where
  "sc_clear s =
     rbind (rfold run_deleter (map snd (deleters (snd s))) s) (\<lambda>(m, c).
       Inr (m, c\<lparr>deleters := [], actionCombinedMap := []\<rparr>))"

section \<open>Key events\<close>

datatype event_type = KeyPressEvent | KeyReleaseEvent | MouseButtonPress | MouseButtonRelease | WheelEvent | OtherEvent

text \<open>\<open>ke_combination\<close> is the key with the modifiers of the event.\<close>

record key_event =
  ke_type :: event_type
  ke_combination :: keycomb
  ke_autoRepeat :: bool

definition eventFlags :: "key_event \<Rightarrow> keyflags" where
  "eventFlags e =
     (if ke_autoRepeat e then KF_Repeat else 0)
     OR (if ke_type e = KeyPressEvent then KF_KeyPress else 0)
     OR (if ke_type e = KeyReleaseEvent then KF_KeyRelease else 0)"

definition matchesShortcut :: "key_event \<Rightarrow> shortcut_controller \<Rightarrow> bool" where
  "matchesShortcut e c = qhas (keyMap c) (normalizeKeyCombination (ke_combination e))"

definition dispatchKeyEvent :: "key_event \<Rightarrow> shortcut_controller \<Rightarrow> bool \<times> shortcut_controller" where
  "dispatchKeyEvent e c =
     (let combined = normalizeKeyCombination (ke_combination e); keyFlags = eventFlags e in
      if \<not> matchesShortcut e c then (False, c)
      else (True, c\<lparr>c_signals := c_signals c @
              concat (map (\<lambda>(a, name, bindFlags).
                if bindFlags AND keyFlags \<noteq> keyFlags then [] else [ActionTriggered a name False keyFlags])
                (qval (keyMap c) combined []))\<rparr>))"

definition modifierForAction :: "action \<Rightarrow> shortcut_controller \<Rightarrow> keycomb" where
  "modifierForAction a c =
     (case qget (actionCombinedMap c) a of
        Some combined \<Rightarrow> keyboardModifiers combined
          AND (AltModifier OR MetaModifier OR ControlModifier OR ShiftModifier)
      | None \<Rightarrow> 0)"

end
