(* ===== verification/Shortcut_Registry.thy ===== *)
theory Shortcut_Registry
  imports Shortcut_Controller
begin

text \<open>
  What the shortcut controller promises: its five dictionaries implement one dictionary from names
  to bindings. \<open>bindings\<close> is the abstraction, \<open>spec_bind_key\<close> and \<open>spec_bind_gesture\<close> the
  operations on it, and the theorems show that the operations of the controller implement them.
\<close>

section \<open>Looking up bindings\<close>

definition klook :: "shortcut_controller \<Rightarrow> keycomb \<Rightarrow> action \<Rightarrow> (string \<times> keyflags) option" where
  "klook c k a = qget (qval (keyMap c) k []) a"

definition glook :: "shortcut_controller \<Rightarrow> gesture_key \<Rightarrow> action \<Rightarrow> string option" where
  "glook c g a = qget (qval (gesturemap c) g []) a"

text \<open>What the callbacks of gestures leave alone.\<close>

definition same_core :: "shortcut_controller \<Rightarrow> shortcut_controller \<Rightarrow> bool" where
  "same_core c c' =
     (keyMap c' = keyMap c \<and> gestures c' = gestures c \<and> deleters c' = deleters c
      \<and> actionCombinedMap c' = actionCombinedMap c
      \<and> (\<forall>g. qval (gesturemap c') g [] = qval (gesturemap c) g []))"

definition slots_ok :: "shortcut_controller manager \<Rightarrow> bool" where
  "slots_ok m =
     (\<forall>i s. slots m i = Some s \<longrightarrow> (\<exists>g. s = SwipeSlot (swipeFeedback g)) \<or> (\<exists>g. s = HoldSlot (holdFeedback g)))"

lemma same_core_refl [simp]: "same_core c c"
  by (simp add: same_core_def)

lemma same_core_trans: "same_core a b \<Longrightarrow> same_core b c \<Longrightarrow> same_core a c"
  by (simp add: same_core_def)

lemma with_entry_core: "same_core c (with_entry g f c)"
  by (simp add: same_core_def with_entry_def Let_def)

lemma deliver_core: "slots_ok m \<Longrightarrow> same_core c (deliver m e c)"
proof -
  assume "slots_ok m"
  then have "slots m i = Some s \<Longrightarrow> (\<exists>g. s = SwipeSlot (swipeFeedback g)) \<or> (\<exists>g. s = HoldSlot (holdFeedback g))" for i s
    by (simp add: slots_ok_def)
  note this [of "case e of Started i \<Rightarrow> i | Triggered i \<Rightarrow> i | Cancelled i \<Rightarrow> i | Progress i p \<Rightarrow> i
      | DeltaProgress i d \<Rightarrow> i | LongPressed i \<Rightarrow> i"]
  then show ?thesis
    by (cases e) (auto simp: deliver_def fire_def swipeFeedback_def holdFeedback_def with_entry_core
        split: option.splits slot.splits)
qed

lemma fold_deliver_core: "slots_ok m \<Longrightarrow> same_core c (fold (deliver m) es c)"
  by (induction es arbitrary: c) (auto intro: same_core_trans deliver_core)

lemma run_core:
  assumes "run op (m, c) = Inr (m', c')" "slots_ok m"
  shows "same_core c c' \<and> slots m' = slots m \<and> nextGesture m' = nextGesture m"
  using assms fold_deliver_core by (auto simp: run_def elim!: rbind_InrE)

lemma klook_core: "same_core c c' \<Longrightarrow> klook c' = klook c"
  by (intro ext) (simp add: same_core_def klook_def)

lemma glook_core: "same_core c c' \<Longrightarrow> glook c' = glook c"
  by (intro ext) (simp add: same_core_def glook_def split_paired_all)

lemma look_simps [simp]:
  "klook (c\<lparr>deleters := x\<rparr>) = klook c" "klook (c\<lparr>gesturemap := y\<rparr>) = klook c" "klook (c\<lparr>gestures := z\<rparr>) = klook c"
  "klook (c\<lparr>actionCombinedMap := u\<rparr>) = klook c" "klook (c\<lparr>c_signals := v\<rparr>) = klook c"
  "glook (c\<lparr>deleters := x\<rparr>) = glook c" "glook (c\<lparr>keyMap := w\<rparr>) = glook c" "glook (c\<lparr>gestures := z\<rparr>) = glook c"
  "glook (c\<lparr>actionCombinedMap := u\<rparr>) = glook c" "glook (c\<lparr>c_signals := v\<rparr>) = glook c"
  by (intro ext, simp add: klook_def glook_def)+

section \<open>Deleters\<close>

definition deleted :: "deleter set \<Rightarrow> shortcut_controller \<Rightarrow> shortcut_controller \<Rightarrow> bool" where
  "deleted D c c' =
     (deleters c' = deleters c
      \<and> (\<forall>k a. klook c' k a = (if DelKey k a \<in> D then None else klook c k a))
      \<and> (\<forall>g a. glook c' g a = (if DelSwipe g a \<in> D \<or> DelHold g a \<in> D then None else glook c g a)))"

lemma deletedD:
  assumes "deleted D c c'"
  shows "deleters c' = deleters c" "klook c' k a = (if DelKey k a \<in> D then None else klook c k a)"
    "glook c' g a = (if DelSwipe g a \<in> D \<or> DelHold g a \<in> D then None else glook c g a)"
  using assms unfolding deleted_def by blast+

lemma deleted_core: "deleted D c c' \<Longrightarrow> same_core c' c'' \<Longrightarrow> deleted D c c''"
  using klook_core [of c' c''] glook_core [of c' c''] by (auto simp: deleted_def same_core_def)

text \<open>The manager after gestures were unregistered.\<close>

definition shrunk :: "shortcut_controller manager \<Rightarrow> shortcut_controller manager \<Rightarrow> bool" where
  "shrunk m m' =
     (slots m' = slots m \<and> nextGesture m' = nextGesture m
      \<and> set (swipeGestures (touchpadRecognizer m')) \<subseteq> set (swipeGestures (touchpadRecognizer m))
      \<and> set (holdGestures (touchpadRecognizer m')) \<subseteq> set (holdGestures (touchpadRecognizer m)))"

lemma shrunk_refl: "shrunk m m"
  by (simp add: shrunk_def)

lemma dropGesture_effect:
  assumes "slots_ok m" "D = {DelSwipe g a} \<or> D = {DelHold g a}"
    and unreg: "\<And>gesture c. \<exists>m' c'. unregister gesture (m, c) = Inr (m', c') \<and> same_core c c' \<and> shrunk m m'"
  shows "\<exists>m' c'. dropGesture g a unregister (m, c) = Inr (m', c') \<and> deleted D c c' \<and> shrunk m m'"
proof -
  let ?entry = "qdel a (qval (gesturemap c) g [])"
  let ?c = "c\<lparr>gesturemap := qput g ?entry (gesturemap c)\<rparr>"
  have d: "deleted D c ?c" "deleted D c (?c\<lparr>gestures := qdel g (gestures c)\<rparr>)"
    using assms(2) by (auto simp: deleted_def klook_def glook_def)
  show ?thesis
  proof (cases "?entry = [] \<and> qhas (gestures c) g")
    case True
    then obtain gesture where ge: "qget (gestures c) g = Some gesture" by (auto simp: qhas_iff)
    obtain m' c' where u: "unregister gesture (m, ?c\<lparr>gestures := qdel g (gestures c)\<rparr>) = Inr (m', c')"
      "same_core (?c\<lparr>gestures := qdel g (gestures c)\<rparr>) c'" "shrunk m m'"
      using unreg by blast
    with True ge have "dropGesture g a unregister (m, c) = Inr (m', c')" by (simp add: dropGesture_def Let_def)
    with u deleted_core [OF d(2)] show ?thesis by blast
  next
    case False
    then show ?thesis using d by (auto simp: dropGesture_def Let_def qhas_iff shrunk_def split: option.splits)
  qed
qed

lemma unregister_effect:
  "slots_ok m \<Longrightarrow> \<exists>m' c'. unregisterTouchpadSwipe i (m, c) = Inr (m', c') \<and> same_core c c' \<and> shrunk m m'"
  "slots_ok m \<Longrightarrow> \<exists>m' c'. unregisterTouchpadHold i (m, c) = Inr (m', c') \<and> same_core c c' \<and> shrunk m m'"
  using set_remove1_subset
  by (fastforce simp: unregisterTouchpadSwipe_def unregisterTouchpadHold_def run_def fold_deliver_core
      shrunk_def unregisterSwipeGesture_def unregisterHoldGesture_def Let_def)+

lemma run_deleter_effect:
  assumes "slots_ok m"
  shows "\<exists>m' c'. run_deleter d (m, c) = Inr (m', c') \<and> deleted {d} c c' \<and> shrunk m m'"
proof (cases d)
  case (DelKey k a)
  then show ?thesis by (auto simp: deleted_def klook_def glook_def shrunk_def)
next
  case (DelSwipe g a)
  show ?thesis unfolding DelSwipe run_deleter.simps
    by (rule dropGesture_effect [OF assms]) (auto simp: unregister_effect [OF assms] shrunk_refl split: gesture_ref.splits)
next
  case (DelHold g a)
  show ?thesis unfolding DelHold run_deleter.simps
    by (rule dropGesture_effect [OF assms]) (auto simp: unregister_effect [OF assms] shrunk_refl split: gesture_ref.splits)
qed

lemma run_deleters_effect:
  "slots_ok m \<Longrightarrow>
   \<exists>m' c'. rfold run_deleter ds (m, c) = Inr (m', c') \<and> deleted (set ds) c c' \<and> shrunk m m'"
proof (induction ds arbitrary: m c)
  case Nil
  then show ?case by (simp add: deleted_def shrunk_def)
next
  case (Cons d ds)
  obtain m1 c1 where 1: "run_deleter d (m, c) = Inr (m1, c1)" "deleted {d} c c1" "shrunk m m1"
    using run_deleter_effect [OF Cons.prems] by blast
  then have "slots_ok m1" using Cons.prems by (simp add: slots_ok_def shrunk_def)
  from Cons.IH [OF this, of c1] obtain m' c' where
    "rfold run_deleter ds (m1, c1) = Inr (m', c')" "deleted (set ds) c1 c'" "shrunk m1 m'" by blast
  with 1 show ?case by (auto simp: deleted_def shrunk_def)
qed

section \<open>The abstract registry\<close>

datatype binding = KeyBinding keycomb action keyflags | SwipeBinding nat direction action | HoldBinding nat action

definition bindings :: "shortcut_controller \<Rightarrow> string \<Rightarrow> binding option" where
  "bindings c n =
     (case qget (deleters c) n of
        None \<Rightarrow> None
      | Some (DelKey k a) \<Rightarrow> map_option (\<lambda>(_, fl). KeyBinding k a fl) (klook c k a)
      | Some (DelSwipe g a) \<Rightarrow> Some (SwipeBinding (fst g) (snd g) a)
      | Some (DelHold g a) \<Rightarrow> Some (HoldBinding (fst g) a))"

definition registry_ok :: "shortcut_controller \<Rightarrow> bool" where
  "registry_ok c =
     ((\<forall>n k a. qget (deleters c) n = Some (DelKey k a) \<longleftrightarrow> (\<exists>fl. klook c k a = Some (n, fl)))
      \<and> (\<forall>n g a. qget (deleters c) n = Some (DelSwipe g a) \<longleftrightarrow> snd g \<noteq> SwipeInvalid \<and> glook c g a = Some n)
      \<and> (\<forall>n g a. qget (deleters c) n = Some (DelHold g a) \<longleftrightarrow> snd g = SwipeInvalid \<and> glook c g a = Some n))"

definition binds_key :: "keycomb \<Rightarrow> action \<Rightarrow> binding option \<Rightarrow> bool" where
  "binds_key k a b = (case b of Some (KeyBinding k' a' _) \<Rightarrow> k' = k \<and> a' = a | _ \<Rightarrow> False)"

text \<open>A key binding replaces a binding of the same key and action; its name may be that binding's
  but no other binding's.\<close>

definition spec_bind_key ::
  "string \<Rightarrow> keycomb \<Rightarrow> keyflags \<Rightarrow> action \<Rightarrow> (string \<Rightarrow> binding option) \<Rightarrow> bind_error option \<times> (string \<Rightarrow> binding option)" where
  "spec_bind_key name k fl a B =
     (if B name \<noteq> None \<and> \<not> binds_key k a (B name) then (Some NameConflict, B)
      else (None, \<lambda>n. if n = name then Some (KeyBinding k a fl) else if binds_key k a (B n) then None else B n))"

text \<open>A gesture binding never replaces another.\<close>

definition spec_bind_gesture ::
  "string \<Rightarrow> binding \<Rightarrow> bool \<Rightarrow> (string \<Rightarrow> binding option) \<Rightarrow> bind_error option \<times> (string \<Rightarrow> binding option)" where
  "spec_bind_gesture name b valid B =
     (if B name \<noteq> None then (Some NameConflict, B)
      else if \<not> valid then (Some InvalidArgument, B)
      else if (\<exists>n. B n = Some b) then (Some DuplicateBinding, B)
      else (None, B(name \<mapsto> b)))"

lemma registry_okD:
  assumes "registry_ok c"
  shows "qget (deleters c) n = Some (DelKey k a) \<longleftrightarrow> (\<exists>fl. klook c k a = Some (n, fl))"
    "qget (deleters c) n = Some (DelSwipe g a) \<longleftrightarrow> snd g \<noteq> SwipeInvalid \<and> glook c g a = Some n"
    "qget (deleters c) n = Some (DelHold g a) \<longleftrightarrow> snd g = SwipeInvalid \<and> glook c g a = Some n"
  using assms unfolding registry_ok_def by blast+

lemma bindings_None:
  assumes "registry_ok c"
  shows "bindings c n = None \<longleftrightarrow> \<not> qhas (deleters c) n"
  using registry_okD(1) [OF assms, of n]
  by (auto simp: bindings_def qhas_iff split: option.splits deleter.splits)

lemma bindings_key_iff:
  assumes "registry_ok c"
  shows "bindings c n = Some (KeyBinding k a fl) \<longleftrightarrow> klook c k a = Some (n, fl)"
proof
  assume "bindings c n = Some (KeyBinding k a fl)"
  then obtain n' where "qget (deleters c) n = Some (DelKey k a)" "klook c k a = Some (n', fl)"
    by (auto simp: bindings_def split: option.splits deleter.splits)
  then show "klook c k a = Some (n, fl)" using registry_okD(1) [OF assms] by auto
next
  assume k: "klook c k a = Some (n, fl)"
  then have "qget (deleters c) n = Some (DelKey k a)" using registry_okD(1) [OF assms] by blast
  with k show "bindings c n = Some (KeyBinding k a fl)" by (simp add: bindings_def)
qed

lemma bindings_swipe_iff:
  assumes "registry_ok c"
  shows "bindings c n = Some (SwipeBinding f d a) \<longleftrightarrow> d \<noteq> SwipeInvalid \<and> glook c (f, d) a = Some n"
  using registry_okD(2) [OF assms, of n "(f, d)" a]
  by (auto simp: bindings_def split: option.splits deleter.splits)

lemma bindings_hold_iff:
  assumes "registry_ok c"
  shows "bindings c n = Some (HoldBinding f a) \<longleftrightarrow> glook c (f, SwipeInvalid) a = Some n"
proof -
  have "bindings c n = Some (HoldBinding f a) \<longleftrightarrow> (\<exists>d. qget (deleters c) n = Some (DelHold (f, d) a))"
    by (auto simp: bindings_def split: option.splits deleter.splits)
  then show ?thesis using registry_okD(3) [OF assms] by auto
qed

section \<open>Keys\<close>

text \<open>Binding a key and action whose former holder gives up its name.\<close>

lemma key_bound:
  assumes ok: "registry_ok c"
    and free: "bindings c name = None \<or> binds_key k a (bindings c name)"
    and kl: "\<And>k' a'. klook c' k' a' = (if k' = k \<and> a' = a then Some (name, fl) else klook c k' a')"
    and gl: "glook c' = glook c"
    and dl: "\<And>n. qget (deleters c') n = (if n = name then Some (DelKey k a)
               else if \<exists>fl. klook c k a = Some (n, fl) then None else qget (deleters c) n)"
  shows "registry_ok c'" "bindings c' = snd (spec_bind_key name k fl a (bindings c))"
proof -
  note D = registry_okD [OF ok]
  have name: "qget (deleters c) name = None \<or> qget (deleters c) name = Some (DelKey k a)"
    using free bindings_None [OF ok] D(1) [of name]
    by (auto simp: binds_key_def qhas_iff bindings_key_iff [OF ok] split: option.splits binding.splits)
  have holder: "(\<exists>fl. klook c k a = Some (n, fl)) \<longleftrightarrow> qget (deleters c) n = Some (DelKey k a)" for n
    using D(1) by blast
  have "qget (deleters c') n = Some (DelKey k' a') \<longleftrightarrow> (\<exists>fl. klook c' k' a' = Some (n, fl))" for n k' a'
    using D(1) [of n k' a'] name by (auto simp: kl dl holder)
  moreover have "qget (deleters c') n = Some (DelSwipe g a') \<longleftrightarrow> snd g \<noteq> SwipeInvalid \<and> glook c' g a' = Some n" for n g a'
    using D(2) [of n g a'] name by (auto simp: gl dl holder)
  moreover have "qget (deleters c') n = Some (DelHold g a') \<longleftrightarrow> snd g = SwipeInvalid \<and> glook c' g a' = Some n" for n g a'
    using D(3) [of n g a'] name by (auto simp: gl dl holder)
  ultimately show ok': "registry_ok c'" unfolding registry_ok_def by blast
  have "bindings c' n = (if n = name then Some (KeyBinding k a fl)
      else if binds_key k a (bindings c n) then None else bindings c n)" for n
  proof -
    have "binds_key k a (bindings c n) \<longleftrightarrow> (\<exists>fl. klook c k a = Some (n, fl))"
      by (auto simp: binds_key_def bindings_key_iff [OF ok, symmetric] split: option.splits binding.splits)
    then show ?thesis
      by (auto simp: bindings_def dl kl holder split: option.splits deleter.splits)
  qed
  with free show "bindings c' = snd (spec_bind_key name k fl a (bindings c))"
    by (auto simp: spec_bind_key_def)
qed

lemma touched_key [simp]:
  "klook (c\<lparr>keyMap := qtouch k [] (keyMap c)\<rparr>) = klook c"
  by (intro ext) (simp add: klook_def)

lemma bindings_cong: "klook c' = klook c \<Longrightarrow> deleters c' = deleters c \<Longrightarrow> bindings c' = bindings c"
  by (intro ext) (simp add: bindings_def split: option.splits deleter.splits)

lemma registry_ok_cong:
  "klook c' = klook c \<Longrightarrow> glook c' = glook c \<Longrightarrow> deleters c' = deleters c \<Longrightarrow> registry_ok c' = registry_ok c"
  by (simp add: registry_ok_def)

lemma bindKey_simps:
  "klook (bindKey name k fl a c) k' a' = (if k' = k \<and> a' = a then Some (name, fl) else klook c k' a')"
  "glook (bindKey name k fl a c) = glook c"
  "deleters (bindKey name k fl a c) = qput name (DelKey k a) (deleters c)"
  by (auto simp: bindKey_def klook_def glook_def [abs_def])

definition key_args_ok :: "keycomb \<Rightarrow> keyflags \<Rightarrow> bool" where
  "key_args_ok k fl = (k \<noteq> 0 \<and> isValidShortcutCombination k \<and> fl AND NOT KF_All = 0)"

lemma registerKey_invalid:
  "\<not> key_args_ok (normalizedKeyCombinedFor parse key) fl \<Longrightarrow>
   registerKey parse name key fl a c = (Some InvalidArgument, c)"
  by (auto simp: registerKey_def key_args_ok_def Let_def)

lemma registerKey_refines:
  assumes ok: "registry_ok c" and args: "key_args_ok (normalizedKeyCombinedFor parse key) fl"
    and r: "registerKey parse name key fl a c = (e, c')"
  shows "registry_ok c'"
    "(e, bindings c') = spec_bind_key name (normalizedKeyCombinedFor parse key) fl a (bindings c)"
proof -
  let ?k = "normalizedKeyCombinedFor parse key"
  let ?c = "c\<lparr>keyMap := qtouch ?k [] (keyMap c)\<rparr>"
  let ?S = "spec_bind_key name ?k fl a (bindings c)"
  have args': "?k \<noteq> 0" "isValidShortcutCombination ?k" "fl AND NOT KF_All = 0"
    using args by (simp_all add: key_args_ok_def)
  have r': "(e, c') = (case klook c ?k a of
       Some (prevName, flags) \<Rightarrow>
         if name \<noteq> prevName \<and> qhas (deleters c) name then (Some NameConflict, ?c)
         else (None, bindKey name ?k fl a (?c\<lparr>deleters := qdel prevName (deleters c)\<rparr>))
     | None \<Rightarrow>
         if qhas (deleters c) name then (Some NameConflict, ?c) else (None, bindKey name ?k fl a ?c))"
    using args' by (auto simp: r [symmetric] registerKey_def Let_def klook_def split: option.splits)
  have has: "qhas (deleters c) name \<longleftrightarrow> bindings c name \<noteq> None" using bindings_None [OF ok, of name] by simp
  have bk: "binds_key ?k a (bindings c n) \<longleftrightarrow> (\<exists>fl. klook c ?k a = Some (n, fl))" for n
    by (auto simp: binds_key_def bindings_key_iff [OF ok, symmetric] split: option.splits binding.splits)
  have "registry_ok c' \<and> (e, bindings c') = ?S"
  proof (cases "bindings c name \<noteq> None \<and> \<not> binds_key ?k a (bindings c name)")
    case True
    then have "(e, c') = (Some NameConflict, ?c)"
      using r' has bk [of name] by (auto split: option.splits if_splits)
    then show ?thesis
      using True ok registry_ok_cong [of ?c c] bindings_cong [of ?c c] by (simp add: spec_bind_key_def)
  next
    case False
    then have free: "bindings c name = None \<or> binds_key ?k a (bindings c name)" by blast
    have e: "e = None" and c': "\<And>k' a'. klook c' k' a' = (if k' = ?k \<and> a' = a then Some (name, fl) else klook c k' a')"
      "glook c' = glook c"
      "\<And>n. qget (deleters c') n = (if n = name then Some (DelKey ?k a)
               else if \<exists>fl. klook c ?k a = Some (n, fl) then None else qget (deleters c) n)"
      using r' free has bk [of name]
      by (auto simp: bindKey_simps split: option.splits if_splits)
    show ?thesis using key_bound [OF ok free c'] e False by (simp add: spec_bind_key_def)
  qed
  then show "registry_ok c'" "(e, bindings c') = ?S" by simp_all
qed

section \<open>Gestures\<close>

definition gesture_deleter :: "gesture_key \<Rightarrow> action \<Rightarrow> deleter" where
  "gesture_deleter g a = (if snd g = SwipeInvalid then DelHold g a else DelSwipe g a)"

definition gesture_binding :: "gesture_key \<Rightarrow> action \<Rightarrow> binding" where
  "gesture_binding g a = (if snd g = SwipeInvalid then HoldBinding (fst g) a else SwipeBinding (fst g) (snd g) a)"

lemma gesture_binding_iff:
  "registry_ok c \<Longrightarrow> bindings c n = Some (gesture_binding g a) \<longleftrightarrow> glook c g a = Some n"
  by (cases g) (auto simp: gesture_binding_def bindings_swipe_iff bindings_hold_iff)

lemma gesture_bound:
  assumes ok: "registry_ok c" and free: "\<not> qhas (deleters c) name" "glook c g a = None"
    and kl: "klook c' = klook c"
    and gl: "\<And>g' a'. glook c' g' a' = (if g' = g \<and> a' = a then Some name else glook c g' a')"
    and dl: "deleters c' = qput name (gesture_deleter g a) (deleters c)"
  shows "registry_ok c'" "bindings c' = (bindings c)(name \<mapsto> gesture_binding g a)"
proof -
  note D = registry_okD [OF ok]
  have name: "qget (deleters c) name = None" using free(1) by (simp add: qget_None_iff)
  have "qget (deleters c') n = Some (DelKey k' a') \<longleftrightarrow> (\<exists>fl. klook c' k' a' = Some (n, fl))" for n k' a'
    using D(1) [of n k' a'] name by (auto simp: kl dl gesture_deleter_def)
  moreover have "qget (deleters c') n = Some (DelSwipe g' a') \<longleftrightarrow> snd g' \<noteq> SwipeInvalid \<and> glook c' g' a' = Some n" for n g' a'
    using D(2) [of n g' a'] name free(2) by (auto simp: gl dl gesture_deleter_def)
  moreover have "qget (deleters c') n = Some (DelHold g' a') \<longleftrightarrow> snd g' = SwipeInvalid \<and> glook c' g' a' = Some n" for n g' a'
    using D(3) [of n g' a'] name free(2) by (auto simp: gl dl gesture_deleter_def)
  ultimately show "registry_ok c'" unfolding registry_ok_def by blast
  show "bindings c' = (bindings c)(name \<mapsto> gesture_binding g a)"
    by (intro ext) (auto simp: bindings_def kl dl gesture_deleter_def gesture_binding_def
        split: option.splits deleter.splits)
qed

lemma bindGesture_refines:
  assumes ok: "registry_ok c" and name: "bindings c name = None"
    and b: "bindGesture (gesture_deleter g a) name g a (m, c) = (e, (m', c'))"
  shows "registry_ok c' \<and> m' = m \<and> (e, bindings c') = spec_bind_gesture name (gesture_binding g a) True (bindings c)"
proof (cases "glook c g a")
  case None
  let ?c = "c\<lparr>gesturemap := qtouch g [] (gesturemap c)\<rparr>"
  have e: "e = None" "m' = m"
    and c': "c' = ?c\<lparr>gesturemap := qput g (qput a name (qval (gesturemap ?c) g [])) (gesturemap ?c),
                 deleters := qput name (gesture_deleter g a) (deleters c)\<rparr>"
    using b None by (auto simp: bindGesture_def glook_def qhas_def Let_def split: if_splits)
  have "\<not> qhas (deleters c) name" using name bindings_None [OF ok] by simp
  note gb = gesture_bound [OF ok this None, of c']
  have "klook c' = klook c" "deleters c' = qput name (gesture_deleter g a) (deleters c)" by (simp_all add: c')
  moreover have "glook c' g' a' = (if g' = g \<and> a' = a then Some name else glook c g' a')" for g' a'
    by (auto simp: c' glook_def)
  ultimately have "registry_ok c'" "bindings c' = (bindings c)(name \<mapsto> gesture_binding g a)" using gb by blast+
  moreover have "\<nexists>n. bindings c n = Some (gesture_binding g a)" using None by (simp add: gesture_binding_iff [OF ok])
  ultimately show ?thesis using e name by (simp add: spec_bind_gesture_def)
next
  case (Some n)
  let ?c = "c\<lparr>gesturemap := qtouch g [] (gesturemap c)\<rparr>"
  have e: "e = Some DuplicateBinding" "m' = m" "c' = ?c"
    using b Some by (auto simp: bindGesture_def glook_def qhas_def Let_def split: if_splits)
  have "glook ?c = glook c" by (intro ext) (simp add: glook_def)
  then have "registry_ok ?c" "bindings ?c = bindings c"
    using ok registry_ok_cong [of ?c c] bindings_cong [of ?c c] by simp_all
  moreover have "\<exists>n. bindings c n = Some (gesture_binding g a)" using Some gesture_binding_iff [OF ok] by blast
  ultimately show ?thesis using e name by (simp add: spec_bind_gesture_def)
qed

text \<open>The states of the controller with its manager.\<close>

definition ids_fresh :: "shortcut_controller manager \<Rightarrow> bool" where
  "ids_fresh m =
     (\<forall>i \<in> set (swipeGestures (touchpadRecognizer m)) \<union> set (holdGestures (touchpadRecognizer m)). i < nextGesture m)"

definition system_ok :: "shortcut_system \<Rightarrow> bool" where
  "system_ok s = (slots_ok (fst s) \<and> ids_fresh (fst s) \<and> registry_ok (snd s))"

lemma shrunk_ok: "shrunk m m' \<Longrightarrow> slots_ok m \<and> ids_fresh m \<Longrightarrow> slots_ok m' \<and> ids_fresh m'"
  by (auto simp: shrunk_def slots_ok_def ids_fresh_def subset_iff)

lemma registerTouchpad_returns:
  assumes "slots_ok m" "ids_fresh m"
  shows "\<exists>i m'. registerTouchpadSwipe (swipeFeedback g) m = Inr (i, m') \<and> slots_ok m' \<and> ids_fresh m'"
    "\<exists>i m'. registerTouchpadHold (holdFeedback g) m = Inr (i, m') \<and> slots_ok m' \<and> ids_fresh m'"
proof -
  obtain f d where g: "g = (f, d)" by (cases g)
  have "nextGesture m \<notin> set (swipeGestures (touchpadRecognizer m))" "nextGesture m \<notin> set (holdGestures (touchpadRecognizer m))"
    using assms(2) by (auto simp: ids_fresh_def)
  with assms show "\<exists>i m'. registerTouchpadSwipe (swipeFeedback g) m = Inr (i, m') \<and> slots_ok m' \<and> ids_fresh m'"
    "\<exists>i m'. registerTouchpadHold (holdFeedback g) m = Inr (i, m') \<and> slots_ok m' \<and> ids_fresh m'"
    by (auto simp: g registerTouchpadSwipe_def registerTouchpadHold_def registerSwipeGesture_def registerHoldGesture_def
        mod_hold_def slots_ok_def ids_fresh_def Let_def less_SucI)
qed

lemma gestures_update_ok:
  "registry_ok (c\<lparr>gestures := x\<rparr>) = registry_ok c" "bindings (c\<lparr>gestures := x\<rparr>) = bindings c"
  by (rule registry_ok_cong, simp_all) (rule bindings_cong, simp_all)

lemma sc_registerSwipeGesture_refines:
  assumes "system_ok (m, c)"
  shows "\<exists>e m' c'. sc_registerSwipeGesture name f d a (m, c) = Inr (e, m', c') \<and> system_ok (m', c')
     \<and> (e, bindings c') = spec_bind_gesture name (SwipeBinding f d a) (d \<noteq> SwipeInvalid \<and> f \<noteq> 0) (bindings c)"
proof (cases "bindings c name = None \<and> d \<noteq> SwipeInvalid \<and> f \<noteq> 0")
  case False
  then show ?thesis
    using assms bindings_None [of c name]
    by (auto simp: sc_registerSwipeGesture_def spec_bind_gesture_def system_ok_def)
next
  case True
  have ok: "slots_ok m" "ids_fresh m" "registry_ok c" using assms by (simp_all add: system_ok_def)
  obtain m1 c1 where 1: "(if qhas (gestures c) (f, d) then Inr (m, c)
        else rbind (registerTouchpadSwipe (swipeFeedback (f, d)) m) (\<lambda>(i, m).
               Inr (m, c\<lparr>gestures := qput (f, d) (SwipeRef i) (gestures c)\<rparr>))) = Inr (m1, c1)"
    "slots_ok m1" "ids_fresh m1" "registry_ok c1" "bindings c1 = bindings c"
  proof (cases "qhas (gestures c) (f, d)")
    case True
    then show ?thesis using that [of m c] ok by simp
  next
    case False
    obtain i m0 where "registerTouchpadSwipe (swipeFeedback (f, d)) m = Inr (i, m0)" "slots_ok m0" "ids_fresh m0"
      using registerTouchpad_returns(1) [OF ok(1,2)] by blast
    then show ?thesis
      using that [of m0 "c\<lparr>gestures := qput (f, d) (SwipeRef i) (gestures c)\<rparr>"] ok False
      by (simp add: gestures_update_ok)
  qed
  obtain e m' c' where b: "bindGesture (gesture_deleter (f, d) a) name (f, d) a (m1, c1) = (e, m', c')"
    by (rule prod_cases3)
  have "bindings c1 name = None" using True 1 by simp
  note r = bindGesture_refines [OF 1(4) this b]
  have "\<not> qhas (deleters c) name" using True bindings_None [OF ok(3), of name] by simp
  then have "sc_registerSwipeGesture name f d a (m, c) = Inr (e, m', c')"
    using True 1(1) b by (simp add: sc_registerSwipeGesture_def gesture_deleter_def)
  moreover have "(e, bindings c') = spec_bind_gesture name (SwipeBinding f d a) (d \<noteq> SwipeInvalid \<and> f \<noteq> 0) (bindings c)"
    using r 1(5) True by (simp add: gesture_binding_def spec_bind_gesture_def)
  moreover have "system_ok (m', c')" using r 1(2,3) by (simp add: system_ok_def)
  ultimately show ?thesis by blast
qed

lemma sc_registerHoldGesture_refines:
  assumes "system_ok (m, c)"
  shows "\<exists>e m' c'. sc_registerHoldGesture name f a (m, c) = Inr (e, m', c') \<and> system_ok (m', c')
     \<and> (e, bindings c') = spec_bind_gesture name (HoldBinding f a) (f \<noteq> 0) (bindings c)"
proof (cases "bindings c name = None \<and> f \<noteq> 0")
  case False
  then show ?thesis
    using assms bindings_None [of c name]
    by (auto simp: sc_registerHoldGesture_def spec_bind_gesture_def system_ok_def)
next
  case True
  have ok: "slots_ok m" "ids_fresh m" "registry_ok c" using assms by (simp_all add: system_ok_def)
  obtain m1 c1 where 1: "(if qhas (gestures c) (f, SwipeInvalid) then Inr (m, c)
        else rbind (registerTouchpadHold (holdFeedback (f, SwipeInvalid)) m) (\<lambda>(i, m).
               Inr (m, c\<lparr>gestures := qput (f, SwipeInvalid) (HoldRef i) (gestures c)\<rparr>))) = Inr (m1, c1)"
    "slots_ok m1" "ids_fresh m1" "registry_ok c1" "bindings c1 = bindings c"
  proof (cases "qhas (gestures c) (f, SwipeInvalid)")
    case True
    then show ?thesis using that [of m c] ok by simp
  next
    case False
    obtain i m0 where "registerTouchpadHold (holdFeedback (f, SwipeInvalid)) m = Inr (i, m0)" "slots_ok m0" "ids_fresh m0"
      using registerTouchpad_returns(2) [OF ok(1,2)] by blast
    then show ?thesis
      using that [of m0 "c\<lparr>gestures := qput (f, SwipeInvalid) (HoldRef i) (gestures c)\<rparr>"] ok False
      by (simp add: gestures_update_ok)
  qed
  obtain e m' c' where b: "bindGesture (gesture_deleter (f, SwipeInvalid) a) name (f, SwipeInvalid) a (m1, c1) = (e, m', c')"
    by (rule prod_cases3)
  have "bindings c1 name = None" using True 1 by simp
  note r = bindGesture_refines [OF 1(4) this b]
  have "\<not> qhas (deleters c) name" using True bindings_None [OF ok(3), of name] by simp
  then have "sc_registerHoldGesture name f a (m, c) = Inr (e, m', c')"
    using True 1(1) b by (simp add: sc_registerHoldGesture_def gesture_deleter_def)
  moreover have "(e, bindings c') = spec_bind_gesture name (HoldBinding f a) (f \<noteq> 0) (bindings c)"
    using r 1(5) True by (simp add: gesture_binding_def spec_bind_gesture_def)
  moreover have "system_ok (m', c')" using r 1(2,3) by (simp add: system_ok_def)
  ultimately show ?thesis by blast
qed

section \<open>Unbinding\<close>

lemma unregisterShortcut_refines:
  assumes "system_ok (m, c)"
  shows "\<exists>m' c'. unregisterShortcut name (m, c) = Inr (m', c') \<and> system_ok (m', c')
     \<and> bindings c' = (bindings c)(name := None)"
proof (cases "qget (deleters c) name")
  case None
  then have "bindings c name = None" by (simp add: bindings_def)
  with None assms show ?thesis by (auto simp: unregisterShortcut_def)
next
  case (Some del)
  let ?c = "c\<lparr>deleters := qdel name (deleters c)\<rparr>"
  have ok: "slots_ok m" "ids_fresh m" "registry_ok c" using assms by (simp_all add: system_ok_def)
  note D = registry_okD [OF ok(3)]
  obtain m' c' where r: "run_deleter del (m, ?c) = Inr (m', c')" "deleted {del} ?c c'" "shrunk m m'"
    using run_deleter_effect [OF ok(1)] by blast
  have d: "deleters c' = qdel name (deleters c)"
    and k: "\<And>k a. klook c' k a = (if del = DelKey k a then None else klook c k a)"
    and g: "\<And>g a. glook c' g a = (if del = DelSwipe g a \<or> del = DelHold g a then None else glook c g a)"
    using r(2) by (auto simp: deleted_def)
  have 1: "qget (deleters c') n = Some (DelKey k' a') \<longleftrightarrow> (\<exists>fl. klook c' k' a' = Some (n, fl))" for n k' a'
    using D(1) [of n k' a'] D(1) [of name k' a'] Some by (auto simp: d k)
  have 2: "qget (deleters c') n = Some (DelSwipe g' a') \<longleftrightarrow> snd g' \<noteq> SwipeInvalid \<and> glook c' g' a' = Some n" for n g' a'
    using D(2) [of n g' a'] D(2) [of name g' a'] D(3) [of name g' a'] Some by (auto simp: d g)
  have 3: "qget (deleters c') n = Some (DelHold g' a') \<longleftrightarrow> snd g' = SwipeInvalid \<and> glook c' g' a' = Some n" for n g' a'
    using D(3) [of n g' a'] D(3) [of name g' a'] D(2) [of name g' a'] Some by (auto simp: d g)
  have "registry_ok c'" unfolding registry_ok_def using 1 2 3 by blast
  moreover have "bindings c' = (bindings c)(name := None)"
  proof (rule ext)
    fix n
    have "klook c' k a = klook c k a" if "qget (deleters c) n = Some (DelKey k a)" "n \<noteq> name" for k a
      using that D(1) [of n k a] D(1) [of name k a] Some by (auto simp: k)
    then show "bindings c' n = ((bindings c)(name := None)) n"
      by (auto simp: bindings_def d split: option.splits deleter.splits)
  qed
  moreover have "slots_ok m'" "ids_fresh m'" using shrunk_ok [OF r(3)] ok by blast+
  moreover have "unregisterShortcut name (m, c) = Inr (m', c')" using r(1) Some by (simp add: unregisterShortcut_def)
  ultimately show ?thesis by (auto simp: system_ok_def)
qed

lemma sc_clear_refines:
  assumes "system_ok (m, c)"
  shows "\<exists>m' c'. sc_clear (m, c) = Inr (m', c') \<and> system_ok (m', c') \<and> bindings c' = (\<lambda>_. None)
     \<and> (\<forall>k a. klook c' k a = None) \<and> deleters c' = []"
proof -
  have ok: "slots_ok m" "ids_fresh m" "registry_ok c" using assms by (simp_all add: system_ok_def)
  note D = registry_okD [OF ok(3)]
  obtain m' c' where r: "rfold run_deleter (map snd (deleters c)) (m, c) = Inr (m', c')"
    "deleted (snd ` set (deleters c)) c c'" "shrunk m m'"
    using run_deleters_effect [OF ok(1), of "map snd (deleters c)" c] by auto
  have mem: "qget (deleters c) n = Some del \<Longrightarrow> del \<in> snd ` set (deleters c)" for n del
    by (drule qget_in_set) force
  have k: "klook c' k a = None" for k a
  proof (cases "klook c k a")
    case None
    then show ?thesis by (simp add: deletedD [OF r(2)])
  next
    case (Some nf)
    then have "qget (deleters c) (fst nf) = Some (DelKey k a)" using D(1) [of "fst nf" k a] by (cases nf) simp
    from mem [OF this] show ?thesis by (simp add: deletedD [OF r(2)])
  qed
  have g: "glook c' g a = None" for g a
  proof (cases "glook c g a")
    case None
    then show ?thesis by (simp add: deletedD [OF r(2)])
  next
    case (Some n)
    then have "qget (deleters c) n = Some (DelSwipe g a) \<or> qget (deleters c) n = Some (DelHold g a)"
      using D(2) [of n g a] D(3) [of n g a] by blast
    then have "DelSwipe g a \<in> snd ` set (deleters c) \<or> DelHold g a \<in> snd ` set (deleters c)" using mem by blast
    then show ?thesis by (simp add: deletedD [OF r(2)])
  qed
  let ?c = "c'\<lparr>deleters := [], actionCombinedMap := []\<rparr>"
  have "registry_ok ?c" by (simp add: registry_ok_def k g)
  moreover have "bindings ?c = (\<lambda>_. None)" by (intro ext) (simp add: bindings_def)
  moreover have "slots_ok m'" "ids_fresh m'" using shrunk_ok [OF r(3)] ok by blast+
  moreover have "sc_clear (m, c) = Inr (m', ?c)" using r(1) by (simp add: sc_clear_def)
  ultimately show ?thesis using k by (auto simp: system_ok_def)
qed

end
