(* ===== verification/Shortcut_Reach.thy ===== *)
theory Shortcut_Reach
  imports Shortcut_Registry
begin

text \<open>
  The states the shortcut controller reaches with its gesture manager, and what its operations do
  there: they implement the abstract registry, key events trigger exactly the bound actions.
\<close>

inductive shortcut_reach :: "(string \<Rightarrow> keycomb list) \<Rightarrow> shortcut_system \<Rightarrow> bool" for parse where
  sr_new: "shortcut_reach parse (newGestureManager, newShortcutController)"
| sr_key: "shortcut_reach parse (m, c) \<Longrightarrow> shortcut_reach parse (m, snd (registerKey parse name key fl a c))"
| sr_swipe: "shortcut_reach parse s \<Longrightarrow> sc_registerSwipeGesture name f d a s = Inr (e, s') \<Longrightarrow> shortcut_reach parse s'"
| sr_hold: "shortcut_reach parse s \<Longrightarrow> sc_registerHoldGesture name f a s = Inr (e, s') \<Longrightarrow> shortcut_reach parse s'"
| sr_unregister: "shortcut_reach parse s \<Longrightarrow> unregisterShortcut name s = Inr s' \<Longrightarrow> shortcut_reach parse s'"
| sr_clear: "shortcut_reach parse s \<Longrightarrow> sc_clear s = Inr s' \<Longrightarrow> shortcut_reach parse s'"
| sr_dispatch: "shortcut_reach parse (m, c) \<Longrightarrow> shortcut_reach parse (m, snd (dispatchKeyEvent ev c))"
| sr_swipeStart: "shortcut_reach parse s \<Longrightarrow> processSwipeStart n s = Inr s' \<Longrightarrow> shortcut_reach parse s'"
| sr_swipeUpdate: "shortcut_reach parse s \<Longrightarrow> processSwipeUpdate p s = Inr s' \<Longrightarrow> shortcut_reach parse s'"
| sr_swipeCancel: "shortcut_reach parse s \<Longrightarrow> processSwipeCancel s = Inr s' \<Longrightarrow> shortcut_reach parse s'"
| sr_swipeEnd: "shortcut_reach parse s \<Longrightarrow> processSwipeEnd s = Inr s' \<Longrightarrow> shortcut_reach parse s'"
| sr_holdStart: "shortcut_reach parse s \<Longrightarrow> processHoldStart n s = Inr s' \<Longrightarrow> shortcut_reach parse s'"
| sr_holdEnd: "shortcut_reach parse s \<Longrightarrow> processHoldEnd s = Inr s' \<Longrightarrow> shortcut_reach parse s'"

section \<open>Touchpad events\<close>

text \<open>What the events of a touchpad leave alone in the recognizer.\<close>

definition same_gestures :: "recognizer \<Rightarrow> recognizer \<Rightarrow> bool" where
  "same_gestures r r' = (swipe r' = swipe r \<and> swipeGestures r' = swipeGestures r \<and> holdGestures r' = holdGestures r)"

lemma same_gestures_refl [simp]: "same_gestures r r"
  by (simp add: same_gestures_def)

lemma same_gestures_trans: "same_gestures a b \<Longrightarrow> same_gestures b c \<Longrightarrow> same_gestures a c"
  by (simp add: same_gestures_def)

lemma same_gestures_updates [simp]:
  "same_gestures r (r'\<lparr>signals := x\<rparr>) = same_gestures r r'" "same_gestures (r\<lparr>signals := x\<rparr>) r' = same_gestures r r'"
  "same_gestures r (r'\<lparr>activeSwipeGestures := y\<rparr>) = same_gestures r r'"
  "same_gestures r (r'\<lparr>currentDelta := p\<rparr>) = same_gestures r r'"
  "same_gestures r (r'\<lparr>currentSwipeAxis := a\<rparr>) = same_gestures r r'"
  "same_gestures r (r'\<lparr>currentFingerCount := n\<rparr>) = same_gestures r r'"
  "same_gestures r (r'\<lparr>activeHoldGestures := z\<rparr>) = same_gestures r r'"
  "same_gestures r (send es r') = same_gestures r r'"
  "same_gestures r (mod_hold h i r') = same_gestures r r'"
  by (auto simp: same_gestures_def send_def mod_hold_def)

lemma start_same: "same_gestures r (snd (startSwipeGesture n r))"
  by (simp add: startSwipeGesture_def startSwipeGestureAt_def fold_startOne Let_def)

lemma eliminate_same: "same_gestures r (eliminate d r)"
  using start_same by (auto simp: eliminate_def Let_def)

lemma update_same: "updateSwipeGesture p r = Inr r' \<Longrightarrow> same_gestures r r'"
proof -
  assume u: "updateSwipeGesture p r = Inr r'"
  have rep: "rfold reportProgress is s = Inr s' \<Longrightarrow> same_gestures r s \<Longrightarrow> same_gestures r s'" for "is" s s'
    by (erule rfold_invariant) (auto simp: reportProgress_def elim!: rbind_InrE)
  show ?thesis
    using u unfolding updateSwipeGesture_def Let_def
    by (rule rep) (intro same_gestures_trans [OF _ eliminate_same], simp)
qed

lemma end_same: "endSwipeGesture r = Inr r' \<Longrightarrow> same_gestures r r'"
proof -
  assume e: "endSwipeGesture r = Inr r'"
  then obtain s where s: "rfold (finishOne (currentDelta r)) (activeSwipeGestures r) r = Inr s" "same_gestures s r'"
    by (auto simp: endSwipeGesture_def elim!: rbind_InrE)
  from s(1) have "same_gestures r s"
    by (rule rfold_invariant) (auto simp: finishOne_def elim!: rbind_InrE)
  from same_gestures_trans [OF this s(2)] show ?thesis .
qed

lemma hold_same: "same_gestures r (startHoldGesture n r)" "same_gestures r (endHoldGesture r)"
proof -
  show "same_gestures r (startHoldGesture n r)" unfolding startHoldGesture_def
    by (rule fold_invariant_set) (auto simp: startHoldOne_def Let_def)
  have "same_gestures r (fold endHoldOne (activeHoldGestures r) r)"
    by (rule fold_invariant_set) (auto simp: endHoldOne_def Let_def)
  then show "same_gestures r (endHoldGesture r)" by (simp add: endHoldGesture_def)
qed

text \<open>A step of the touchpad changes neither the bindings nor the registered gestures.\<close>

definition touched :: "shortcut_system \<Rightarrow> shortcut_system \<Rightarrow> bool" where
  "touched s s' =
     (same_core (snd s) (snd s') \<and> slots (fst s') = slots (fst s) \<and> nextGesture (fst s') = nextGesture (fst s)
      \<and> same_gestures (touchpadRecognizer (fst s)) (touchpadRecognizer (fst s')))"

lemma touched_refl [simp]: "touched s s"
  by (simp add: touched_def)

lemma run_touched:
  assumes "run op s = Inr s'" "slots_ok (fst s)" "\<And>r r'. op r = Inr r' \<Longrightarrow> same_gestures r r'"
  shows "touched s s'"
proof -
  obtain m c where s: "s = (m, c)" by (cases s)
  obtain r where r: "op ((touchpadRecognizer m)\<lparr>signals := []\<rparr>) = Inr r"
    "s' = (m\<lparr>touchpadRecognizer := r\<rparr>, fold (deliver m) (signals r) c)"
    using assms(1) by (auto simp: run_def s elim!: rbind_InrE)
  have "same_gestures ((touchpadRecognizer m)\<lparr>signals := []\<rparr>) r" using assms(3) r(1) by blast
  then show ?thesis using assms(2) fold_deliver_core by (auto simp: touched_def s r(2))
qed

lemma touched_fingers: "touched (m\<lparr>touchpadFingerCount := n\<rparr>, c) s' = touched (m, c) s'"
  by (simp add: touched_def)

lemma process_touched:
  assumes "slots_ok (fst s)"
  shows "processSwipeStart n s = Inr s' \<Longrightarrow> touched s s'" "processSwipeUpdate p s = Inr s' \<Longrightarrow> touched s s'"
    "processSwipeCancel s = Inr s' \<Longrightarrow> touched s s'" "processSwipeEnd s = Inr s' \<Longrightarrow> touched s s'"
    "processHoldStart n s = Inr s' \<Longrightarrow> touched s s'" "processHoldEnd s = Inr s' \<Longrightarrow> touched s s'"
proof -
  obtain m c where s: "s = (m, c)" by (cases s)
  have ok: "slots_ok m" "slots_ok (m\<lparr>touchpadFingerCount := n\<rparr>)" using assms by (simp_all add: s slots_ok_def)
  have t: "touched (m, c) (m\<lparr>touchpadFingerCount := n\<rparr>, c)" by (simp add: touched_def)
  show "processSwipeStart n s = Inr s' \<Longrightarrow> touched s s'"
    using run_touched [of "\<lambda>r. Inr (snd (startSwipeGesture n r))" "(m\<lparr>touchpadFingerCount := n\<rparr>, c)" s'] ok t start_same
    by (auto simp: processSwipeStart_def s touched_fingers Let_def split: if_splits)
  show "processSwipeUpdate p s = Inr s' \<Longrightarrow> touched s s'"
    using run_touched [of "updateSwipeGesture p" s s'] assms update_same by (auto simp: processSwipeUpdate_def split: if_splits)
  show "processSwipeCancel s = Inr s' \<Longrightarrow> touched s s'"
    using run_touched [of "\<lambda>r. Inr (cancelSwipeGesture r)" s s'] assms
    by (auto simp: processSwipeCancel_def cancelSwipeGesture_def cancelSwipeActiveGestures_def Let_def split: if_splits)
  show "processSwipeEnd s = Inr s' \<Longrightarrow> touched s s'"
    using run_touched [of endSwipeGesture s s'] assms end_same by (auto simp: processSwipeEnd_def split: if_splits)
  show "processHoldStart n s = Inr s' \<Longrightarrow> touched s s'"
    using run_touched [of "\<lambda>r. Inr (startHoldGesture n r)" "(m\<lparr>touchpadFingerCount := n\<rparr>, c)" s'] ok t hold_same(1)
    by (auto simp: processHoldStart_def s touched_fingers Let_def split: if_splits)
  show "processHoldEnd s = Inr s' \<Longrightarrow> touched s s'"
    using run_touched [of "\<lambda>r. Inr (endHoldGesture r)" s s'] assms hold_same(2)
    by (auto simp: processHoldEnd_def split: if_splits)
qed

lemma touched_system_ok: "touched s s' \<Longrightarrow> system_ok s \<Longrightarrow> system_ok s'"
  using registry_ok_cong [OF klook_core glook_core, of "snd s" "snd s'"]
  by (auto simp: touched_def system_ok_def slots_ok_def ids_fresh_def same_gestures_def same_core_def)

section \<open>Invariants of the reachable states\<close>

definition maps_ok :: "shortcut_controller \<Rightarrow> bool" where
  "maps_ok c = ((\<forall>k. qok (qval (keyMap c) k [])) \<and> (\<forall>g. qok (qval (gesturemap c) g [])))"

lemma maps_ok_core: "same_core c c' \<Longrightarrow> maps_ok c' = maps_ok c"
  by (simp add: maps_ok_def same_core_def)

lemma maps_ok_updates [simp]:
  "maps_ok (c\<lparr>deleters := x\<rparr>) = maps_ok c" "maps_ok (c\<lparr>gestures := y\<rparr>) = maps_ok c"
  "maps_ok (c\<lparr>actionCombinedMap := z\<rparr>) = maps_ok c" "maps_ok (c\<lparr>c_signals := w\<rparr>) = maps_ok c"
  "maps_ok (c\<lparr>keyMap := qtouch k [] (keyMap c)\<rparr>) = maps_ok c"
  "maps_ok (c\<lparr>gesturemap := qtouch g [] (gesturemap c)\<rparr>) = maps_ok c"
  by (simp_all add: maps_ok_def)

lemma registerKey_maps: "maps_ok c \<Longrightarrow> maps_ok (snd (registerKey parse name key fl a c))"
proof -
  have b: "maps_ok c \<Longrightarrow> maps_ok (bindKey name k fl a c)" for k c
    by (simp add: bindKey_def maps_ok_def)
  assume "maps_ok c"
  then show ?thesis by (auto simp: registerKey_def Let_def intro!: b split: option.splits)
qed

lemma bindGesture_maps: "maps_ok c \<Longrightarrow> bindGesture del name g a (m, c) = (e, m', c') \<Longrightarrow> maps_ok c'"
  by (auto simp: bindGesture_def Let_def maps_ok_def split: if_splits)

lemma register_gesture_maps:
  assumes "maps_ok (snd s)"
  shows "sc_registerSwipeGesture name f d a s = Inr (e, s') \<Longrightarrow> maps_ok (snd s')"
    "sc_registerHoldGesture name f a s = Inr (e, s') \<Longrightarrow> maps_ok (snd s')"
proof -
  obtain m c m' c' where s: "s = (m, c)" "s' = (m', c')" by (cases s; cases s') blast
  show "sc_registerSwipeGesture name f d a s = Inr (e, s') \<Longrightarrow> maps_ok (snd s')"
    using assms by (auto simp: s sc_registerSwipeGesture_def Let_def elim!: rbind_InrE split: if_splits prod.splits
        dest: bindGesture_maps [rotated])
  show "sc_registerHoldGesture name f a s = Inr (e, s') \<Longrightarrow> maps_ok (snd s')"
    using assms by (auto simp: s sc_registerHoldGesture_def Let_def elim!: rbind_InrE split: if_splits prod.splits
        dest: bindGesture_maps [rotated])
qed

lemma run_deleter_maps:
  assumes "slots_ok m" "maps_ok c" "run_deleter d (m, c) = Inr (m', c')"
  shows "maps_ok c'"
proof -
  have drop: "maps_ok c'" if "dropGesture g a unregister (m, c) = Inr (m', c')"
    "\<And>gesture c m' c'. unregister gesture (m, c) = Inr (m', c') \<Longrightarrow> same_core c c'" for g a unregister
  proof -
    let ?entry = "qdel a (qval (gesturemap c) g [])"
    let ?c = "c\<lparr>gesturemap := qput g ?entry (gesturemap c)\<rparr>"
    have c: "maps_ok ?c" "maps_ok (?c\<lparr>gestures := qdel g (gestures c)\<rparr>)"
      using assms(2) unfolding maps_ok_def by (cases g; auto)+
    have "c' = ?c \<or> same_core (?c\<lparr>gestures := qdel g (gestures c)\<rparr>) c'"
      using that by (auto simp: dropGesture_def Let_def split: if_splits option.splits)
    then show ?thesis using c maps_ok_core by blast
  qed
  note core = unregister_effect [OF assms(1)]
  show ?thesis
  proof (cases d)
    case (DelKey k a)
    then show ?thesis using assms(2,3) by (auto simp: maps_ok_def)
  next
    case (DelSwipe g a)
    then show ?thesis
      using assms(3) core(1) by (auto elim!: drop split: gesture_ref.splits) (metis Inr_inject prod.inject)
  next
    case (DelHold g a)
    then show ?thesis
      using assms(3) core(2) by (auto elim!: drop split: gesture_ref.splits) (metis Inr_inject prod.inject)
  qed
qed

lemma run_deleters_maps:
  "slots_ok m \<Longrightarrow> maps_ok c \<Longrightarrow> rfold run_deleter ds (m, c) = Inr (m', c') \<Longrightarrow> maps_ok c'"
proof (induction ds arbitrary: m c)
  case Nil
  then show ?case by simp
next
  case (Cons d ds)
  obtain m1 c1 where 1: "run_deleter d (m, c) = Inr (m1, c1)" "shrunk m m1"
    using run_deleter_effect [OF Cons.prems(1)] by blast
  moreover have "slots_ok m1" using 1(2) Cons.prems(1) by (simp add: shrunk_def slots_ok_def)
  moreover have "rfold run_deleter ds (m1, c1) = Inr (m', c')" using Cons.prems(3) 1 by simp
  ultimately show ?case using Cons.IH [of m1 c1] run_deleter_maps [OF Cons.prems(1,2)] by blast
qed

lemma dispatch_core: "same_core c (snd (dispatchKeyEvent ev c))"
  by (simp add: dispatchKeyEvent_def same_core_def Let_def)

lemma system_new: "system_ok (newGestureManager, newShortcutController)" "maps_ok newShortcutController"
  by (simp_all add: system_ok_def slots_ok_def ids_fresh_def registry_ok_def klook_def glook_def newGestureManager_def
      newGestureRecognizer_def newShortcutController_def maps_ok_def)

lemma system_ok_core: "same_core c c' \<Longrightarrow> system_ok (m, c) \<Longrightarrow> system_ok (m, c')"
  using touched_system_ok [of "(m, c)" "(m, c')"] by (simp add: touched_def)

lemma registerKey_system_ok:
  assumes "system_ok (m, c)"
  shows "system_ok (m, snd (registerKey parse name key fl a c))"
proof (cases "key_args_ok (normalizedKeyCombinedFor parse key) fl")
  case True
  obtain e c' where "registerKey parse name key fl a c = (e, c')" by (cases "registerKey parse name key fl a c")
  with registerKey_refines(1) [OF _ True this] assms show ?thesis by (simp add: system_ok_def)
next
  case False
  then show ?thesis using assms by (simp add: registerKey_invalid)
qed

lemma touched_maps_ok: "touched s s' \<Longrightarrow> maps_ok (snd s) \<Longrightarrow> maps_ok (snd s')"
  using maps_ok_core by (auto simp: touched_def)

lemma shortcut_reach_ok: "shortcut_reach parse s \<Longrightarrow> system_ok s \<and> maps_ok (snd s)"
proof (induction rule: shortcut_reach.induct)
  case sr_new
  then show ?case by (simp add: system_new)
next
  case (sr_key m c name key fl a)
  then show ?case by (simp add: registerKey_system_ok registerKey_maps)
next
  case (sr_swipe s name f d a e s')
  then show ?case
    using sc_registerSwipeGesture_refines [of "fst s" "snd s" name f d a] register_gesture_maps(1) [of s] by auto
next
  case (sr_hold s name f a e s')
  then show ?case
    using sc_registerHoldGesture_refines [of "fst s" "snd s" name f a] register_gesture_maps(2) [of s] by auto
next
  case (sr_unregister s name s')
  obtain m c m' c' where s: "s = (m, c)" "s' = (m', c')" by (cases s; cases s') blast
  have "system_ok s'" using sr_unregister unregisterShortcut_refines [of m c name] by (auto simp: s)
  moreover have "maps_ok c'"
  proof -
    have "slots_ok m" "maps_ok c" using sr_unregister by (simp_all add: s system_ok_def)
    then show ?thesis
      using sr_unregister.hyps(2) run_deleter_maps [of m "c\<lparr>deleters := qdel name (deleters c)\<rparr>"]
      by (auto simp: s unregisterShortcut_def split: option.splits)
  qed
  ultimately show ?case by (simp add: s)
next
  case (sr_clear s s')
  obtain m c m' c' where s: "s = (m, c)" "s' = (m', c')" by (cases s; cases s') blast
  have "system_ok s'" using sr_clear sc_clear_refines [of m c] by (auto simp: s)
  moreover have "maps_ok c'"
    using sr_clear run_deleters_maps [of m c "map snd (deleters c)"]
    by (auto simp: s sc_clear_def system_ok_def elim!: rbind_InrE)
  ultimately show ?case by (simp add: s)
next
  case (sr_dispatch m c ev)
  then show ?case using system_ok_core dispatch_core maps_ok_core by (metis snd_conv)
next
  case (sr_swipeStart s n s')
  then show ?case using process_touched(1) touched_system_ok touched_maps_ok by (metis system_ok_def)
next
  case (sr_swipeUpdate s p s')
  then show ?case using process_touched(2) touched_system_ok touched_maps_ok by (metis system_ok_def)
next
  case (sr_swipeCancel s s')
  then show ?case using process_touched(3) touched_system_ok touched_maps_ok by (metis system_ok_def)
next
  case (sr_swipeEnd s s')
  then show ?case using process_touched(4) touched_system_ok touched_maps_ok by (metis system_ok_def)
next
  case (sr_holdStart s n s')
  then show ?case using process_touched(5) touched_system_ok touched_maps_ok by (metis system_ok_def)
next
  case (sr_holdEnd s s')
  then show ?case using process_touched(6) touched_system_ok touched_maps_ok by (metis system_ok_def)
qed

section \<open>What the operations do in reachable states\<close>

text \<open>C2: In every reachable state the controller implements one dictionary from names to bindings.
  Binding a key rejects invalid keys and flags, rejects a name that another binding has, and
  otherwise stores the binding in place of the one for the same key and action; binding a gesture
  rejects used names, invalid fingers or directions and duplicates; unbinding removes the name;
  clearing removes every name. No operation fails an assertion.\<close>

theorem shortcut_registry_refined:
  assumes "shortcut_reach parse (m, c)"
  shows "(\<lambda>(e, c'). (e, bindings c')) (registerKey parse name key fl a c) =
       (if key_args_ok (normalizedKeyCombinedFor parse key) fl
        then spec_bind_key name (normalizedKeyCombinedFor parse key) fl a (bindings c)
        else (Some InvalidArgument, bindings c))
   \<and> (\<exists>e m' c'. sc_registerSwipeGesture name f d a (m, c) = Inr (e, m', c')
        \<and> (e, bindings c') = spec_bind_gesture name (SwipeBinding f d a) (d \<noteq> SwipeInvalid \<and> f \<noteq> 0) (bindings c))
   \<and> (\<exists>e m' c'. sc_registerHoldGesture name f a (m, c) = Inr (e, m', c')
        \<and> (e, bindings c') = spec_bind_gesture name (HoldBinding f a) (f \<noteq> 0) (bindings c))
   \<and> (\<exists>m' c'. unregisterShortcut name (m, c) = Inr (m', c') \<and> bindings c' = (bindings c)(name := None))
   \<and> (\<exists>m' c'. sc_clear (m, c) = Inr (m', c') \<and> bindings c' = (\<lambda>_. None))"
proof -
  have ok: "system_ok (m, c)" "registry_ok c"
    using shortcut_reach_ok [OF assms] by (simp_all add: system_ok_def)
  have "(\<lambda>(e, c'). (e, bindings c')) (registerKey parse name key fl a c) =
       (if key_args_ok (normalizedKeyCombinedFor parse key) fl
        then spec_bind_key name (normalizedKeyCombinedFor parse key) fl a (bindings c)
        else (Some InvalidArgument, bindings c))"
    using registerKey_refines(2) [OF ok(2), of parse key fl name a] registerKey_invalid [of parse key fl name a c]
    by (cases "registerKey parse name key fl a c") auto
  then show ?thesis
    using sc_registerSwipeGesture_refines [OF ok(1), of name f d a] sc_registerHoldGesture_refines [OF ok(1), of name f a]
      unregisterShortcut_refines [OF ok(1), of name] sc_clear_refines [OF ok(1)] by blast
qed

text \<open>A parser of two texts for the examples: Meta+X and Ctrl+X.\<close>

definition example_parse :: "string \<Rightarrow> keycomb list" where
  "example_parse s = (if s = ''Meta+X'' then [0x10000058] else if s = ''Ctrl+X'' then [0x04000058] else [])"

lemma example_keys:
  "normalizedKeyCombinedFor example_parse ''Meta+X'' = 0x10000058" "key_args_ok 0x10000058 1"
  "normalizedKeyCombinedFor example_parse ''Ctrl+X'' = 0x04000058" "key_args_ok 0x04000058 1"
  by (simp_all add: normalizedKeyCombinedFor_def endsWith_def example_parse_def normalizeKeyCombination_def
      keyboardModifiers_def key_of_def mkcomb_def modifier_defs key_defs Let_def key_args_ok_def
      isValidShortcutCombination_def KF_All_def KF_KeyPress_def KF_KeyRelease_def KF_Repeat_def)

lemma example_normal: "normalizeKeyCombination 0x10000058 = 0x10000058"
  by (simp add: normalizeKeyCombination_def keyboardModifiers_def key_of_def mkcomb_def modifier_defs key_defs Let_def)

lemma example_bound:
  "registerKey example_parse ''cut'' ''Meta+X'' 1 7 newShortcutController =
     (None, bindKey ''cut'' 0x10000058 1 7 (newShortcutController\<lparr>keyMap := [(0x10000058, [])]\<rparr>))"
  using example_keys(1,2)
  by (simp add: registerKey_def key_args_ok_def newShortcutController_def Let_def qtouch_def qval_def)

theorem shortcut_registry_refined_witness:
  "fst (registerKey example_parse ''cut'' ''Meta+X'' 1 7 newShortcutController) = None"
proof -
  have "bindings newShortcutController ''cut'' = None"
    by (simp add: bindings_def newShortcutController_def)
  then show ?thesis
    using shortcut_registry_refined [OF sr_new, of example_parse "''cut''" "''Meta+X''" 1 7 1 SwipeUp, THEN conjunct1]
      example_keys(1,2)
    by (cases "registerKey example_parse ''cut'' ''Meta+X'' 1 7 newShortcutController") (simp add: spec_bind_key_def)
qed

text \<open>A key event whose key is bound or was bound triggers, in order of the actions, exactly the
  bindings of its key whose flags contain the flags of the event, each once, and nothing else; other
  key events are left to the windows. No key event changes a binding.\<close>

theorem dispatch_exact:
  assumes "shortcut_reach parse (m, c)"
  shows "\<exists>es. c_signals (snd (dispatchKeyEvent ev c)) = c_signals c @ es \<and> distinct es
     \<and> set es = {ActionTriggered a n False (eventFlags ev) | a n.
          \<exists>fl. bindings c n = Some (KeyBinding (normalizeKeyCombination (ke_combination ev)) a fl)
               \<and> fl AND eventFlags ev = eventFlags ev}
     \<and> bindings (snd (dispatchKeyEvent ev c)) = bindings c
     \<and> (es \<noteq> [] \<longrightarrow> fst (dispatchKeyEvent ev c))"
proof -
  let ?k = "normalizeKeyCombination (ke_combination ev)" and ?f = "eventFlags ev"
  let ?sel = "\<lambda>(a, n, fl). if fl AND ?f \<noteq> ?f then [] else [ActionTriggered a n False ?f]"
  let ?entry = "qval (keyMap c) ?k []"
  have ok: "registry_ok c" "qok ?entry" using shortcut_reach_ok [OF assms] by (simp_all add: system_ok_def maps_ok_def)
  define es where "es = concat (map ?sel ?entry)"
  have in_entry: "(a, n, fl) \<in> set ?entry \<longleftrightarrow> bindings c n = Some (KeyBinding ?k a fl)" for a n fl
    using qget_iff_in_set [OF ok(2)] bindings_key_iff [OF ok(1)] by (simp add: klook_def)
  have "\<not> matchesShortcut ev c \<Longrightarrow> ?entry = []"
    by (auto simp: matchesShortcut_def qval_def qhas_def split: option.splits)
  then have es: "c_signals (snd (dispatchKeyEvent ev c)) = c_signals c @ es" "es \<noteq> [] \<Longrightarrow> fst (dispatchKeyEvent ev c)"
    by (cases "matchesShortcut ev c"; simp add: dispatchKeyEvent_def es_def Let_def)+
  have "set es = {ActionTriggered a n False ?f | a n. \<exists>fl. (a, n, fl) \<in> set ?entry \<and> fl AND ?f = ?f}"
    by (force simp: es_def split: if_splits)
  moreover have "distinct es"
  proof -
    have "concat (map ?sel xs) = map (\<lambda>(a, n, fl). ActionTriggered a n False ?f) (filter (\<lambda>(a, n, fl). fl AND ?f = ?f) xs)" for xs
      by (induction xs) auto
    then have "es = map (\<lambda>(a, n, fl). ActionTriggered a n False ?f) (filter (\<lambda>(a, n, fl). fl AND ?f = ?f) ?entry)"
      unfolding es_def .
    moreover have "distinct (map fst (filter (\<lambda>(a, n, fl). fl AND ?f = ?f) ?entry))"
      using qok_distinct [OF ok(2)] by (rule distinct_map_filter)
    then have "distinct (map (\<lambda>(a, n, fl). ActionTriggered a n False ?f) (filter (\<lambda>(a, n, fl). fl AND ?f = ?f) ?entry))"
      by (auto simp: distinct_map inj_on_def)
    ultimately show ?thesis by simp
  qed
  moreover have "bindings (snd (dispatchKeyEvent ev c)) = bindings c"
    using dispatch_core by (intro bindings_cong klook_core) (auto simp: same_core_def)
  ultimately show ?thesis using es in_entry by auto
qed

theorem dispatch_exact_witness:
  "c_signals (snd (dispatchKeyEvent \<lparr>ke_type = KeyPressEvent, ke_combination = 0x10000058, ke_autoRepeat = False\<rparr>
      (snd (registerKey example_parse ''cut'' ''Meta+X'' 1 7 newShortcutController))))
    = [ActionTriggered 7 ''cut'' False 1]"
proof -
  let ?c = "snd (registerKey example_parse ''cut'' ''Meta+X'' 1 7 newShortcutController)"
  let ?ev = "\<lparr>ke_type = KeyPressEvent, ke_combination = 0x10000058, ke_autoRepeat = False\<rparr>"
  have r: "shortcut_reach example_parse (newGestureManager, ?c)" by (rule sr_key [OF sr_new])
  have c: "?c = bindKey ''cut'' 0x10000058 1 7 (newShortcutController\<lparr>keyMap := [(0x10000058, [])]\<rparr>)"
    by (simp only: example_bound snd_conv)
  have n: "normalizeKeyCombination 0x10000058 = 0x10000058" "eventFlags ?ev = 1"
    by (simp_all add: normalizeKeyCombination_def keyboardModifiers_def key_of_def mkcomb_def modifier_defs key_defs
        Let_def eventFlags_def KF_KeyPress_def)
  have b: "bindings ?c k = (if k = ''cut'' then Some (KeyBinding 0x10000058 7 1) else None)" for k
    unfolding c by (simp add: bindings_def bindKey_simps) (simp add: newShortcutController_def)
  have s: "c_signals ?c = []" unfolding c by (simp add: bindKey_def newShortcutController_def)
  obtain es where es: "c_signals (snd (dispatchKeyEvent ?ev ?c)) = c_signals ?c @ es" "distinct es"
    "set es = {ActionTriggered a n False (eventFlags ?ev) | a n.
          \<exists>fl. bindings ?c n = Some (KeyBinding (normalizeKeyCombination (ke_combination ?ev)) a fl)
               \<and> fl AND eventFlags ?ev = eventFlags ?ev}"
    using dispatch_exact [OF r, of ?ev] by blast
  have "set es = {ActionTriggered 7 ''cut'' False 1}" unfolding es(3) by (auto simp: n b split: if_splits)
  moreover from this have "length es = 1" using distinct_card [OF es(2)] by simp
  ultimately have "es = [ActionTriggered 7 ''cut'' False 1]" by (cases es) simp_all
  with es(1) s show ?thesis by (simp only: append_Nil)
qed

section \<open>What unbinding leaves behind\<close>

lemma bindKey_has: "qhas (keyMap (bindKey name k fl a c)) k"
  by (simp add: bindKey_def)

lemma registerKey_has:
  "registerKey parse name key fl a c = (None, c') \<Longrightarrow> qhas (keyMap c') (normalizedKeyCombinedFor parse key)"
  by (auto simp: registerKey_def Let_def bindKey_has split: if_splits option.splits)

lemma run_deleter_keeps:
  assumes "slots_ok m" "run_deleter d (m, c) = Inr (m', c')" "qhas (keyMap c) k"
  shows "qhas (keyMap c') k"
proof (cases d)
  case (DelKey k' a)
  then show ?thesis using assms(2,3) by auto
next
  case (DelSwipe g a)
  have "unregisterTouchpadSwipe i (m, c0) = Inr (m', c') \<Longrightarrow> keyMap c' = keyMap c0" for i c0
    using unregister_effect(1) [OF assms(1), of i c0] by (auto simp: same_core_def)
  then show ?thesis using assms(2,3) DelSwipe
    by (fastforce simp: dropGesture_def Let_def split: if_splits option.splits gesture_ref.splits)
next
  case (DelHold g a)
  have "unregisterTouchpadHold i (m, c0) = Inr (m', c') \<Longrightarrow> keyMap c' = keyMap c0" for i c0
    using unregister_effect(2) [OF assms(1), of i c0] by (auto simp: same_core_def)
  then show ?thesis using assms(2,3) DelHold
    by (fastforce simp: dropGesture_def Let_def split: if_splits option.splits gesture_ref.splits)
qed

text \<open>A key that has been bound stays taken after it is unbound: the key event is still consumed
  by the compositor, so that no window gets it, although nothing is triggered when no other binding
  of the key is left.\<close>

theorem unbound_key_stays_consumed:
  assumes "shortcut_reach parse (m, c)"
    "registerKey parse name key fl a c = (None, c')" "unregisterShortcut name (m, c') = Inr (m'', c'')"
    "normalizeKeyCombination (ke_combination ev) = normalizedKeyCombinedFor parse key"
    "\<And>n a fl. bindings c n \<noteq> Some (KeyBinding (normalizedKeyCombinedFor parse key) a fl)"
  shows "fst (dispatchKeyEvent ev c'') \<and> c_signals (snd (dispatchKeyEvent ev c'')) = c_signals c''"
proof -
  let ?k = "normalizedKeyCombinedFor parse key"
  have reach: "shortcut_reach parse (m, c')" using sr_key [OF assms(1), of name key fl a] assms(2) by simp
  then have ok: "system_ok (m, c')" "slots_ok m" using shortcut_reach_ok by (auto simp: system_ok_def)
  have reach'': "shortcut_reach parse (m'', c'')" using sr_unregister [OF reach assms(3)] .
  have "qhas (keyMap c'') ?k"
    using assms(3) registerKey_has [OF assms(2)] run_deleter_keeps [OF ok(2), of _ "c'\<lparr>deleters := qdel name (deleters c')\<rparr>"]
    by (auto simp: unregisterShortcut_def split: option.splits)
  then have m: "matchesShortcut ev c''" by (simp add: matchesShortcut_def assms(4))
  have args: "key_args_ok ?k fl" using assms(2) registerKey_invalid [of parse key fl name a c] by auto
  have "registry_ok c" using shortcut_reach_ok [OF assms(1)] by (simp add: system_ok_def)
  from registerKey_refines(2) [OF this args assms(2)] have
    "bindings c' = (\<lambda>n. if n = name then Some (KeyBinding ?k a fl) else if binds_key ?k a (bindings c n) then None else bindings c n)"
    by (simp add: spec_bind_key_def split: if_splits)
  moreover have "bindings c'' = (bindings c')(name := None)"
    using unregisterShortcut_refines [OF ok(1), of name] assms(3) by auto
  ultimately have none: "bindings c'' n \<noteq> Some (KeyBinding ?k b fl')" for n b fl'
    using assms(5) by (auto split: if_splits)
  have "registry_ok c''" using shortcut_reach_ok [OF reach''] by (simp add: system_ok_def)
  with none have "klook c'' ?k b = None" for b
    using bindings_key_iff [of c''] by (metis option.exhaust surj_pair)
  then have "qval (keyMap c'') ?k [] = []"
    unfolding klook_def by (metis option.simps(3) qget.simps(2) neq_Nil_conv)
  with m show ?thesis by (simp add: dispatchKeyEvent_def Let_def assms(4))
qed

theorem unbound_key_stays_consumed_witness:
  "\<exists>c' m'' c''. registerKey example_parse ''cut'' ''Meta+X'' 1 7 newShortcutController = (None, c')
     \<and> unregisterShortcut ''cut'' (newGestureManager, c') = Inr (m'', c'') \<and> bindings c'' ''cut'' = None
     \<and> fst (dispatchKeyEvent \<lparr>ke_type = KeyPressEvent, ke_combination = 0x10000058, ke_autoRepeat = False\<rparr> c'')"
proof -
  let ?ev = "\<lparr>ke_type = KeyPressEvent, ke_combination = 0x10000058, ke_autoRepeat = False\<rparr>"
  obtain c' where c': "registerKey example_parse ''cut'' ''Meta+X'' 1 7 newShortcutController = (None, c')"
    using example_bound by blast
  have "shortcut_reach example_parse (newGestureManager, c')"
    using sr_key [OF sr_new, of example_parse "''cut''" "''Meta+X''" 1 7] c' by simp
  then have "system_ok (newGestureManager, c')" using shortcut_reach_ok by blast
  from unregisterShortcut_refines [OF this, of "''cut''"] obtain m'' c'' where
    u: "unregisterShortcut ''cut'' (newGestureManager, c') = Inr (m'', c'')" "bindings c'' = (bindings c')(''cut'' := None)"
    by blast
  have "bindings newShortcutController n \<noteq> Some x" for n x
    by (simp add: bindings_def newShortcutController_def)
  then have "fst (dispatchKeyEvent ?ev c'')"
    using unbound_key_stays_consumed [OF sr_new c' u(1), of ?ev] by (simp only: example_keys example_normal key_event.simps) simp
  with c' u show ?thesis by auto
qed

text \<open>When two keys are bound to one action, unbinding one of them makes the controller forget the
  modifiers of the action although the other key still triggers it; the task switcher, which waits
  for the release of these modifiers, then does not see it.\<close>

theorem unbinding_forgets_modifiers:
  assumes "shortcut_reach parse (m, c)"
    "registerKey parse n1 key1 fl1 a c = (None, c1)" "registerKey parse n2 key2 fl2 a c1 = (None, c2)"
    "n1 \<noteq> n2" "normalizedKeyCombinedFor parse key1 \<noteq> normalizedKeyCombinedFor parse key2"
    "unregisterShortcut n1 (m, c2) = Inr (m', c')"
  shows "bindings c' n2 = Some (KeyBinding (normalizedKeyCombinedFor parse key2) a fl2) \<and> modifierForAction a c' = 0"
proof -
  let ?k1 = "normalizedKeyCombinedFor parse key1" and ?k2 = "normalizedKeyCombinedFor parse key2"
  have r1: "shortcut_reach parse (m, c1)" using sr_key [OF assms(1), of n1 key1 fl1 a] assms(2) by simp
  have r2: "shortcut_reach parse (m, c2)" using sr_key [OF r1, of n2 key2 fl2 a] assms(3) by simp
  have ok: "registry_ok c" "registry_ok c1" "registry_ok c2" "system_ok (m, c2)"
    using shortcut_reach_ok [OF assms(1)] shortcut_reach_ok [OF r1] shortcut_reach_ok [OF r2] by (simp_all add: system_ok_def)
  have args: "key_args_ok ?k1 fl1" "key_args_ok ?k2 fl2"
    using assms(2,3) registerKey_invalid [of parse key1 fl1 n1 a c] registerKey_invalid [of parse key2 fl2 n2 a c1] by auto
  have "bindings c1 n1 = Some (KeyBinding ?k1 a fl1)"
    using registerKey_refines(2) [OF ok(1) args(1) assms(2)] by (auto simp: spec_bind_key_def split: if_splits)
  then have b2: "bindings c2 n1 = Some (KeyBinding ?k1 a fl1)" "bindings c2 n2 = Some (KeyBinding ?k2 a fl2)"
    using registerKey_refines(2) [OF ok(2) args(2) assms(3)] assms(4,5)
    by (auto simp: spec_bind_key_def binds_key_def split: if_splits)
  have "qget (deleters c2) n1 = Some (DelKey ?k1 a)"
    using b2(1) bindings_key_iff [OF ok(3)] registry_okD(1) [OF ok(3)] by blast
  then have "actionCombinedMap c' = qdel a (actionCombinedMap c2)"
    using assms(6) by (auto simp: unregisterShortcut_def)
  moreover have "bindings c' = (bindings c2)(n1 := None)"
    using unregisterShortcut_refines [OF ok(4), of n1] assms(6) by auto
  ultimately show ?thesis using b2(2) assms(4) by (simp add: modifierForAction_def)
qed

theorem unbinding_forgets_modifiers_witness:
  "\<exists>c1 c2 m' c'. registerKey example_parse ''cut'' ''Meta+X'' 1 7 newShortcutController = (None, c1)
     \<and> registerKey example_parse ''snip'' ''Ctrl+X'' 1 7 c1 = (None, c2)
     \<and> unregisterShortcut ''cut'' (newGestureManager, c2) = Inr (m', c')
     \<and> bindings c' ''snip'' = Some (KeyBinding 0x04000058 7 1) \<and> modifierForAction 7 c' = 0"
proof -
  obtain c1 where c1: "registerKey example_parse ''cut'' ''Meta+X'' 1 7 newShortcutController = (None, c1)"
    using example_bound by blast
  have r1: "shortcut_reach example_parse (newGestureManager, c1)"
    using sr_key [OF sr_new, of example_parse "''cut''" "''Meta+X''" 1 7] c1 by simp
  have ok: "registry_ok newShortcutController" "registry_ok c1"
    using system_new(1) shortcut_reach_ok [OF r1] by (simp_all add: system_ok_def)
  have args: "key_args_ok (normalizedKeyCombinedFor example_parse ''Meta+X'') 1"
    "key_args_ok (normalizedKeyCombinedFor example_parse ''Ctrl+X'') 1"
    using example_keys by simp_all
  have "bindings newShortcutController n = None" for n by (simp add: bindings_def newShortcutController_def)
  then have "bindings c1 ''snip'' = None"
    using registerKey_refines(2) [OF ok(1) args(1) c1] by (simp add: spec_bind_key_def)
  then obtain c2 where c2: "registerKey example_parse ''snip'' ''Ctrl+X'' 1 7 c1 = (None, c2)"
    using registerKey_refines(2) [OF ok(2) args(2), of "''snip''" 7]
    by (cases "registerKey example_parse ''snip'' ''Ctrl+X'' 1 7 c1") (auto simp: spec_bind_key_def)
  have "shortcut_reach example_parse (newGestureManager, c2)"
    using sr_key [OF r1, of "''snip''" "''Ctrl+X''" 1 7] c2 by simp
  then have "system_ok (newGestureManager, c2)" using shortcut_reach_ok by blast
  from unregisterShortcut_refines [OF this, of "''cut''"] obtain m' c' where
    u: "unregisterShortcut ''cut'' (newGestureManager, c2) = Inr (m', c')" by blast
  have "bindings c' ''snip'' = Some (KeyBinding 0x04000058 7 1) \<and> modifierForAction 7 c' = 0"
    using unbinding_forgets_modifiers [OF sr_new c1 c2 _ _ u] by (simp add: example_keys)
  with c1 c2 u show ?thesis by blast
qed

end
