(* ===== verification/Shortcut_Manager.thy ===== *)
theory Shortcut_Manager
  imports Shortcut_Reach
begin

text \<open>
  src/src/modules/shortcut/shortcutmanager.cpp: the protocol object through which clients bind
  shortcuts. Each session has a socket and a cache of its accepted bindings; only the bindings of
  the active session are in the controller, requests of other sessions wait until their session
  becomes active. Resources and sockets are numbers. What the protocol's generated code and the
  Wayland library provide is the parameter \<open>env\<close>: the parser of key texts, which numbers are actions,
  the numbers of the directions, and the socket of a resource. Events sent to clients are logged.
\<close>

type_synonym socket = nat
type_synonym resource = nat

record protocol_env =
  env_parse :: "string \<Rightarrow> keycomb list"
  env_action :: "action \<Rightarrow> bool"
  env_direction :: "direction \<Rightarrow> 32 word"
  env_socket :: "resource \<Rightarrow> socket"

record key_shortcut =
  ks_flags :: keyflags
  ks_name :: string
  ks_key :: string
  ks_action :: action

record swipe_shortcut =
  ss_name :: string
  ss_finger :: nat
  ss_direction :: direction
  ss_action :: action

record hold_shortcut =
  hs_name :: string
  hs_finger :: nat
  hs_action :: action

record user_shortcuts =
  us_keys :: "key_shortcut list"
  us_swipes :: "swipe_shortcut list"
  us_holds :: "hold_shortcut list"

definition noShortcuts :: user_shortcuts where
  "noShortcuts = \<lparr>us_keys = [], us_swipes = [], us_holds = []\<rparr>"

definition removeShortcut :: "string \<Rightarrow> user_shortcuts \<Rightarrow> user_shortcuts" where
  "removeShortcut name us =
     us\<lparr>us_keys := filter (\<lambda>ks. ks_name ks \<noteq> name) (us_keys us),
        us_swipes := filter (\<lambda>ss. ss_name ss \<noteq> name) (us_swipes us),
        us_holds := filter (\<lambda>hs. hs_name hs \<noteq> name) (us_holds us)\<rparr>"

definition toSwipeDirection :: "protocol_env \<Rightarrow> 32 word \<Rightarrow> direction" where
  "toSwipeDirection env d =
     (if d = env_direction env SwipeDown then SwipeDown
      else if d = env_direction env SwipeLeft then SwipeLeft
      else if d = env_direction env SwipeUp then SwipeUp
      else if d = env_direction env SwipeRight then SwipeRight
      else SwipeInvalid)"

datatype protocol_error = Occupied | NotAcquired

datatype sent_event =
    SendActivated resource string keyflags
  | SendBindFailure resource string bind_error
  | PostError resource protocol_error

record shortcut_manager =
  sm_system :: shortcut_system
  ownerClients :: "socket \<Rightarrow> resource option"
  shortcuts :: "socket \<Rightarrow> user_shortcuts option"
  pendingShortcuts :: "socket \<Rightarrow> user_shortcuts option"
  pendingDeletes :: "socket \<Rightarrow> string list option"
  activeSessionSocket :: "socket option"
  sent :: "sent_event list"

definition newShortcutManager :: shortcut_manager where
  "newShortcutManager =
     \<lparr>sm_system = (newGestureManager, newShortcutController), ownerClients = (\<lambda>_. None), shortcuts = (\<lambda>_. None),
      pendingShortcuts = (\<lambda>_. None), pendingDeletes = (\<lambda>_. None), activeSessionSocket = None, sent = []\<rparr>"

text \<open>\<^verbatim>\<open>m_shortcuts[socket]\<close> and its siblings insert an empty value when there is none.\<close>

definition shortcuts_at :: "(socket \<Rightarrow> user_shortcuts option) \<Rightarrow> socket \<Rightarrow> user_shortcuts" where
  "shortcuts_at f s = (case f s of None \<Rightarrow> noShortcuts | Some us \<Rightarrow> us)"

definition post :: "sent_event list \<Rightarrow> shortcut_manager \<Rightarrow> shortcut_manager" where
  "post es M = M\<lparr>sent := sent M @ es\<rparr>"

section \<open>Registering for a session\<close>

definition sm_registerKey ::
  "protocol_env \<Rightarrow> socket \<Rightarrow> key_shortcut \<Rightarrow> shortcut_manager \<Rightarrow> bind_error option \<times> shortcut_manager" where
  "sm_registerKey env s ks M =
     (if \<not> env_action env (ks_action ks) then (Some InvalidArgument, M)
      else let (m, c) = sm_system M;
               (status, c) = registerKey (env_parse env) (ks_name ks) (ks_key ks) (ks_flags ks) (ks_action ks) c;
               M = M\<lparr>sm_system := (m, c)\<rparr>
           in case status of
                None \<Rightarrow>
                  (let combined = normalizedKeyCombinedFor (env_parse env) (ks_key ks);
                       us = shortcuts_at (shortcuts M) s;
                       keys = filter (\<lambda>x. \<not> (ks_action x = ks_action ks
                                \<and> normalizedKeyCombinedFor (env_parse env) (ks_key x) = combined)) (us_keys us)
                   in (None, M\<lparr>shortcuts := (shortcuts M)(s \<mapsto> us\<lparr>us_keys := keys @ [ks]\<rparr>)\<rparr>))
              | Some e \<Rightarrow> (Some e, M))"

definition sm_registerSwipe ::
  "protocol_env \<Rightarrow> socket \<Rightarrow> swipe_shortcut \<Rightarrow> shortcut_manager \<Rightarrow> (bind_error option \<times> shortcut_manager) result" where
  "sm_registerSwipe env s ss M =
     (if \<not> env_action env (ss_action ss) then Inr (Some InvalidArgument, M)
      else rbind (sc_registerSwipeGesture (ss_name ss) (ss_finger ss) (ss_direction ss) (ss_action ss) (sm_system M))
        (\<lambda>(status, sys).
          let M = M\<lparr>sm_system := sys\<rparr>; us = shortcuts_at (shortcuts M) s in
          Inr (status, if status = None
                       then M\<lparr>shortcuts := (shortcuts M)(s \<mapsto> us\<lparr>us_swipes := us_swipes us @ [ss]\<rparr>)\<rparr> else M)))"

definition sm_registerHold ::
  "protocol_env \<Rightarrow> socket \<Rightarrow> hold_shortcut \<Rightarrow> shortcut_manager \<Rightarrow> (bind_error option \<times> shortcut_manager) result" where
  "sm_registerHold env s hs M =
     (if \<not> env_action env (hs_action hs) then Inr (Some InvalidArgument, M)
      else rbind (sc_registerHoldGesture (hs_name hs) (hs_finger hs) (hs_action hs) (sm_system M))
        (\<lambda>(status, sys).
          let M = M\<lparr>sm_system := sys\<rparr>; us = shortcuts_at (shortcuts M) s in
          Inr (status, if status = None
                       then M\<lparr>shortcuts := (shortcuts M)(s \<mapsto> us\<lparr>us_holds := us_holds us @ [hs]\<rparr>)\<rparr> else M)))"

definition sendActivatedTo :: "socket \<Rightarrow> string \<Rightarrow> keyflags \<Rightarrow> shortcut_manager \<Rightarrow> shortcut_manager" where
  "sendActivatedTo s name fl M =
     (case ownerClients M s of None \<Rightarrow> M | Some res \<Rightarrow> post [SendActivated res name fl] M)"

definition sendBindFailure :: "socket \<Rightarrow> string \<Rightarrow> bind_error \<Rightarrow> shortcut_manager \<Rightarrow> shortcut_manager" where
  "sendBindFailure s name e M =
     (case ownerClients M s of None \<Rightarrow> M | Some res \<Rightarrow> post [SendBindFailure res name e] M)"

definition report :: "socket \<Rightarrow> string \<Rightarrow> bind_error option \<times> shortcut_manager \<Rightarrow> shortcut_manager" where
  "report s name eM = (case fst eM of None \<Rightarrow> snd eM | Some e \<Rightarrow> sendBindFailure s name e (snd eM))"

definition sm_sendActivated :: "string \<Rightarrow> keyflags \<Rightarrow> shortcut_manager \<Rightarrow> shortcut_manager" where
  "sm_sendActivated name fl M =
     (case activeSessionSocket M of None \<Rightarrow> M | Some s \<Rightarrow> sendActivatedTo s name fl M)"

section \<open>Requests of clients\<close>

definition sm_destroy_resource :: "resource \<Rightarrow> shortcut_manager \<Rightarrow> shortcut_manager" where
  "sm_destroy_resource res M =
     M\<lparr>ownerClients := (\<lambda>s. if ownerClients M s = Some res then None else ownerClients M s)\<rparr>"

definition acquire :: "protocol_env \<Rightarrow> resource \<Rightarrow> shortcut_manager \<Rightarrow> shortcut_manager result" where
  "acquire env res M =
     (let s = env_socket env res in
      if ownerClients M s \<noteq> None then Inr (post [PostError res Occupied] M)
      else
        let M = M\<lparr>shortcuts := (shortcuts M)(s := None), pendingShortcuts := (pendingShortcuts M)(s := None),
                  pendingDeletes := (pendingDeletes M)(s := None)\<rparr>
        in rbind (if activeSessionSocket M = Some s
                  then rbind (sc_clear (sm_system M)) (\<lambda>sys. Inr (M\<lparr>sm_system := sys\<rparr>)) else Inr M)
             (\<lambda>M. Inr (M\<lparr>ownerClients := (ownerClients M)(s \<mapsto> res)\<rparr>)))"

definition owned :: "protocol_env \<Rightarrow> resource \<Rightarrow> (socket \<Rightarrow> shortcut_manager \<Rightarrow> shortcut_manager result)
     \<Rightarrow> shortcut_manager \<Rightarrow> shortcut_manager result" where
  "owned env res f M =
     (let s = env_socket env res in
      if ownerClients M s \<noteq> Some res then Inr (post [PostError res NotAcquired] M) else f s M)"

definition bind_key ::
  "protocol_env \<Rightarrow> resource \<Rightarrow> string \<Rightarrow> string \<Rightarrow> 32 word \<Rightarrow> 32 word \<Rightarrow> shortcut_manager \<Rightarrow> shortcut_manager result" where
  "bind_key env res name key_sequence flags a =
     owned env res (\<lambda>s M.
       let ks = \<lparr>ks_flags = flags, ks_name = name, ks_key = key_sequence, ks_action = a\<rparr> in
       if activeSessionSocket M = Some s then Inr (report s name (sm_registerKey env s ks M))
       else let us = shortcuts_at (pendingShortcuts M) s in
            Inr (M\<lparr>pendingShortcuts := (pendingShortcuts M)(s \<mapsto> us\<lparr>us_keys := us_keys us @ [ks]\<rparr>)\<rparr>))"

definition bind_swipe_gesture ::
  "protocol_env \<Rightarrow> resource \<Rightarrow> string \<Rightarrow> nat \<Rightarrow> 32 word \<Rightarrow> 32 word \<Rightarrow> shortcut_manager \<Rightarrow> shortcut_manager result" where
  "bind_swipe_gesture env res name finger d a =
     owned env res (\<lambda>s M.
       let ss = \<lparr>ss_name = name, ss_finger = finger, ss_direction = toSwipeDirection env d, ss_action = a\<rparr> in
       if activeSessionSocket M = Some s
       then rbind (sm_registerSwipe env s ss M) (\<lambda>eM. Inr (report s name eM))
       else let us = shortcuts_at (pendingShortcuts M) s in
            Inr (M\<lparr>pendingShortcuts := (pendingShortcuts M)(s \<mapsto> us\<lparr>us_swipes := us_swipes us @ [ss]\<rparr>)\<rparr>))"

definition bind_hold_gesture ::
  "protocol_env \<Rightarrow> resource \<Rightarrow> string \<Rightarrow> nat \<Rightarrow> 32 word \<Rightarrow> shortcut_manager \<Rightarrow> shortcut_manager result" where
  "bind_hold_gesture env res name finger a =
     owned env res (\<lambda>s M.
       let hs = \<lparr>hs_name = name, hs_finger = finger, hs_action = a\<rparr> in
       if activeSessionSocket M = Some s
       then rbind (sm_registerHold env s hs M) (\<lambda>eM. Inr (report s name eM))
       else let us = shortcuts_at (pendingShortcuts M) s in
            Inr (M\<lparr>pendingShortcuts := (pendingShortcuts M)(s \<mapsto> us\<lparr>us_holds := us_holds us @ [hs]\<rparr>)\<rparr>))"

definition dropShortcut :: "socket \<Rightarrow> string \<Rightarrow> shortcut_manager \<Rightarrow> shortcut_manager result" where
  "dropShortcut s name M =
     rbind (unregisterShortcut name (sm_system M)) (\<lambda>sys.
       Inr (M\<lparr>sm_system := sys, shortcuts := (shortcuts M)(s \<mapsto> removeShortcut name (shortcuts_at (shortcuts M) s))\<rparr>))"

definition unbind :: "protocol_env \<Rightarrow> resource \<Rightarrow> string \<Rightarrow> shortcut_manager \<Rightarrow> shortcut_manager result" where
  "unbind env res name =
     owned env res (\<lambda>s M.
       if activeSessionSocket M \<noteq> Some s
       then Inr (M\<lparr>pendingShortcuts := (pendingShortcuts M)(s \<mapsto> removeShortcut name (shortcuts_at (pendingShortcuts M) s)),
                   pendingDeletes := (pendingDeletes M)(s \<mapsto>
                     (case pendingDeletes M s of None \<Rightarrow> [] | Some ns \<Rightarrow> ns) @ [name])\<rparr>)
       else dropShortcut s name M)"

section \<open>Switching sessions\<close>

definition restoreKey :: "protocol_env \<Rightarrow> key_shortcut \<Rightarrow> shortcut_system \<Rightarrow> shortcut_system" where
  "restoreKey env ks sys =
     (fst sys, snd (registerKey (env_parse env) (ks_name ks) (ks_key ks) (ks_flags ks) (ks_action ks) (snd sys)))"

definition restoreSwipe :: "swipe_shortcut \<Rightarrow> shortcut_system \<Rightarrow> shortcut_system result" where
  "restoreSwipe ss sys =
     rbind (sc_registerSwipeGesture (ss_name ss) (ss_finger ss) (ss_direction ss) (ss_action ss) sys) (\<lambda>es. Inr (snd es))"

definition restoreHold :: "hold_shortcut \<Rightarrow> shortcut_system \<Rightarrow> shortcut_system result" where
  "restoreHold hs sys =
     rbind (sc_registerHoldGesture (hs_name hs) (hs_finger hs) (hs_action hs) sys) (\<lambda>es. Inr (snd es))"

definition restoreSession :: "protocol_env \<Rightarrow> user_shortcuts \<Rightarrow> shortcut_system \<Rightarrow> shortcut_system result" where
  "restoreSession env us sys =
     (let sys = fold (restoreKey env) (us_keys us) sys in
      rbind (rfold restoreSwipe (us_swipes us) sys) (rfold restoreHold (us_holds us)))"

definition applyDeletes :: "socket \<Rightarrow> shortcut_manager \<Rightarrow> shortcut_manager result" where
  "applyDeletes s M =
     (case pendingDeletes M s of
        None \<Rightarrow> Inr M
      | Some names \<Rightarrow> rfold (dropShortcut s) names (M\<lparr>pendingDeletes := (pendingDeletes M)(s := None)\<rparr>))"

definition applyBinds :: "protocol_env \<Rightarrow> socket \<Rightarrow> shortcut_manager \<Rightarrow> shortcut_manager result" where
  "applyBinds env s M =
     (case pendingShortcuts M s of
        None \<Rightarrow> Inr M
      | Some us \<Rightarrow>
          (let M = M\<lparr>pendingShortcuts := (pendingShortcuts M)(s := None)\<rparr>;
               M = fold (\<lambda>ks M. report s (ks_name ks) (sm_registerKey env s ks M)) (us_keys us) M
           in rbind (rfold (\<lambda>ss M. rbind (sm_registerSwipe env s ss M) (\<lambda>eM. Inr (report s (ss_name ss) eM)))
                       (us_swipes us) M)
                (rfold (\<lambda>hs M. rbind (sm_registerHold env s hs M) (\<lambda>eM. Inr (report s (hs_name hs) eM)))
                       (us_holds us))))"

definition onSessionChanged :: "protocol_env \<Rightarrow> socket option \<Rightarrow> shortcut_manager \<Rightarrow> shortcut_manager result" where
  "onSessionChanged env session M =
     (case session of
        None \<Rightarrow> Inr M
      | Some s \<Rightarrow>
          if activeSessionSocket M = Some s then Inr M
          else rbind (sc_clear (sm_system M)) (\<lambda>sys.
               rbind (case shortcuts M s of None \<Rightarrow> Inr sys | Some us \<Rightarrow> restoreSession env us sys) (\<lambda>sys.
               rbind (applyDeletes s (M\<lparr>sm_system := sys, activeSessionSocket := Some s\<rparr>)) (applyBinds env s))))"

end
