(* ===== verification/Shortcut_Sessions.thy ===== *)
theory Shortcut_Sessions
  imports Shortcut_Manager
begin

text \<open>
  The caches of the shortcut manager and the controller agree: what the controller has bound is
  exactly what the active session's cache records, so that a session gets its shortcuts back when it
  becomes active again.
\<close>

section \<open>Caches and bindings\<close>

definition us_assoc :: "protocol_env \<Rightarrow> user_shortcuts \<Rightarrow> (string \<times> binding) list" where
  "us_assoc env us =
     map (\<lambda>ks. (ks_name ks, KeyBinding (normalizedKeyCombinedFor (env_parse env) (ks_key ks)) (ks_action ks) (ks_flags ks))) (us_keys us)
     @ map (\<lambda>ss. (ss_name ss, SwipeBinding (ss_finger ss) (ss_direction ss) (ss_action ss))) (us_swipes us)
     @ map (\<lambda>hs. (hs_name hs, HoldBinding (hs_finger hs) (hs_action hs))) (us_holds us)"

definition represents :: "protocol_env \<Rightarrow> user_shortcuts \<Rightarrow> (string \<Rightarrow> binding option) \<Rightarrow> bool" where
  "represents env us B = (\<forall>n b. B n = Some b \<longleftrightarrow> (n, b) \<in> set (us_assoc env us))"

fun acceptable :: "binding \<Rightarrow> bool" where
  "acceptable (KeyBinding k a fl) = key_args_ok k fl"
| "acceptable (SwipeBinding f d a) = (d \<noteq> SwipeInvalid \<and> f \<noteq> 0)"
| "acceptable (HoldBinding f a) = (f \<noteq> 0)"

fun identity :: "binding \<Rightarrow> binding" where
  "identity (KeyBinding k a fl) = KeyBinding k a 0"
| "identity b = b"

definition consistent :: "(string \<Rightarrow> binding option) \<Rightarrow> bool" where
  "consistent B =
     ((\<forall>n b. B n = Some b \<longrightarrow> acceptable b)
      \<and> (\<forall>n n' b b'. B n = Some b \<and> B n' = Some b' \<and> identity b = identity b' \<longrightarrow> n = n'))"

definition cache_ok :: "protocol_env \<Rightarrow> user_shortcuts \<Rightarrow> bool" where
  "cache_ok env us = (\<exists>B. represents env us B \<and> consistent B)"

lemma binds_key_identity: "binds_key k a (Some b) \<longleftrightarrow> identity b = KeyBinding k a 0"
  by (cases b) (auto simp: binds_key_def)

lemma represents_none [simp]: "represents env noShortcuts (\<lambda>_. None)"
  by (simp add: represents_def us_assoc_def noShortcuts_def)

lemma consistent_none [simp]: "consistent (\<lambda>_. None)"
  by (simp add: consistent_def)

lemma cache_ok_none [simp]: "cache_ok env noShortcuts"
  unfolding cache_ok_def using represents_none consistent_none by blast

lemma represents_unique: "represents env us B \<Longrightarrow> represents env us B' \<Longrightarrow> B = B'"
  unfolding represents_def by (intro ext) (metis not_None_eq)

lemma consistentD:
  assumes "consistent B"
  shows "B n = Some b \<Longrightarrow> acceptable b"
    "B n = Some b \<Longrightarrow> B n' = Some b' \<Longrightarrow> identity b = identity b' \<Longrightarrow> n = n'"
  using assms unfolding consistent_def by blast+

section \<open>Restoring a session\<close>

text \<open>Binding again what belongs to \<open>B\<close>.\<close>

lemma rebind_key:
  assumes "consistent B" "B0 \<subseteq>\<^sub>m B" "B name = Some (KeyBinding k a fl)"
  shows "spec_bind_key name k fl a B0 = (None, B0(name \<mapsto> KeyBinding k a fl))"
proof -
  have sub: "B0 n = Some b \<Longrightarrow> B n = Some b" for n b using assms(2) by (auto simp: map_le_def dom_def)
  have bk: "n = name" if "binds_key k a (B0 n)" for n
  proof (cases "B0 n")
    case None
    with that show ?thesis by (simp add: binds_key_def)
  next
    case (Some b)
    with that have "identity b = identity (KeyBinding k a fl)" by (simp add: binds_key_identity)
    with consistentD(2) [OF assms(1) sub [OF Some] assms(3)] show ?thesis .
  qed
  have "B0 name = None \<or> B0 name = Some (KeyBinding k a fl)" using sub [of name] assms(3) by (cases "B0 name") auto
  then have "\<not> (B0 name \<noteq> None \<and> \<not> binds_key k a (B0 name))" by (auto simp: binds_key_def)
  moreover have "(\<lambda>n. if n = name then Some (KeyBinding k a fl) else if binds_key k a (B0 n) then None else B0 n) =
      B0(name \<mapsto> KeyBinding k a fl)"
    using bk by (intro ext) auto
  ultimately show ?thesis unfolding spec_bind_key_def by (simp only: if_False)
qed

lemma rebind_gesture:
  assumes "consistent B" "B0 \<subseteq>\<^sub>m B" "B name = Some b" "\<nexists>k a fl. b = KeyBinding k a fl" "valid"
  shows "snd (spec_bind_gesture name b valid B0) = B0(name \<mapsto> b)"
proof -
  have sub: "B0 n = Some b \<Longrightarrow> B n = Some b" for n b using assms(2) by (auto simp: map_le_def dom_def)
  show ?thesis
  proof (cases "B0 name")
    case None
    have "n = name" if "B0 n = Some b" for n using consistentD(2) [OF assms(1) sub [OF that] assms(3)] by simp
    then have "\<nexists>n. B0 n = Some b" using None by auto
    with None assms(5) show ?thesis by (simp add: spec_bind_gesture_def)
  next
    case (Some b')
    then have "b' = b" using sub assms(3) by fastforce
    with Some show ?thesis by (auto simp: spec_bind_gesture_def)
  qed
qed

lemma restore_step:
  assumes "B0 \<subseteq>\<^sub>m B" "B name = Some b"
  shows "B0(name \<mapsto> b) \<subseteq>\<^sub>m B"
  using assms by (auto simp: map_le_def)

definition joins :: "(string \<times> binding) list \<Rightarrow> (string \<Rightarrow> binding option) \<Rightarrow> (string \<Rightarrow> binding option) \<Rightarrow> bool" where
  "joins L B0 B' = (\<forall>n b. B' n = Some b \<longleftrightarrow> B0 n = Some b \<or> (n, b) \<in> set L)"

lemma joins_Cons:
  assumes "joins L (B0(n \<mapsto> b)) B'" "B0 \<subseteq>\<^sub>m B" "B n = Some b"
  shows "joins ((n, b) # L) B0 B'"
proof -
  have "B0 n = None \<or> B0 n = Some b" using assms(2,3) by (cases "B0 n") (auto simp: map_le_def dom_def)
  with assms(1) show ?thesis by (fastforce simp: joins_def)
qed

lemma restoreKeys:
  assumes "consistent B"
  shows "system_ok (m, c) \<Longrightarrow> bindings c \<subseteq>\<^sub>m B \<Longrightarrow>
    (\<forall>ks \<in> set kss. B (ks_name ks) = Some (KeyBinding (normalizedKeyCombinedFor (env_parse env) (ks_key ks)) (ks_action ks) (ks_flags ks))) \<Longrightarrow>
    \<exists>c'. fold (restoreKey env) kss (m, c) = (m, c') \<and> system_ok (m, c') \<and> bindings c' \<subseteq>\<^sub>m B
      \<and> joins (map (\<lambda>ks. (ks_name ks, KeyBinding (normalizedKeyCombinedFor (env_parse env) (ks_key ks)) (ks_action ks) (ks_flags ks))) kss)
          (bindings c) (bindings c')"
proof (induction kss arbitrary: c)
  case Nil
  then show ?case by (simp add: joins_def)
next
  case (Cons ks kss)
  let ?k = "normalizedKeyCombinedFor (env_parse env) (ks_key ks)"
  let ?b = "KeyBinding ?k (ks_action ks) (ks_flags ks)"
  obtain e c1 where r: "registerKey (env_parse env) (ks_name ks) (ks_key ks) (ks_flags ks) (ks_action ks) c = (e, c1)"
    by (rule prod.exhaust)
  have b: "B (ks_name ks) = Some ?b" using Cons.prems(3) by simp
  have args: "key_args_ok ?k (ks_flags ks)" using consistentD(1) [OF assms b] by simp
  have ok: "registry_ok c" using Cons.prems(1) by (simp add: system_ok_def)
  have c1: "bindings c1 = (bindings c)(ks_name ks \<mapsto> ?b)"
    using registerKey_refines(2) [OF ok args r] rebind_key [OF assms Cons.prems(2) b] by simp
  have "system_ok (m, c1)" using registerKey_refines(1) [OF ok args r] Cons.prems(1) by (simp add: system_ok_def)
  moreover have sub: "bindings c1 \<subseteq>\<^sub>m B" unfolding c1 by (rule restore_step [OF Cons.prems(2) b])
  ultimately obtain c' where "fold (restoreKey env) kss (m, c1) = (m, c')" "system_ok (m, c')" "bindings c' \<subseteq>\<^sub>m B"
    "joins (map (\<lambda>ks. (ks_name ks, KeyBinding (normalizedKeyCombinedFor (env_parse env) (ks_key ks)) (ks_action ks) (ks_flags ks))) kss)
          (bindings c1) (bindings c')"
    using Cons.IH [of c1] Cons.prems(3) by auto
  moreover have "restoreKey env ks (m, c) = (m, c1)" by (simp add: restoreKey_def r)
  ultimately show ?case using joins_Cons [OF _ Cons.prems(2) b] c1 by auto
qed

lemma restoreSwipes:
  assumes "consistent B"
  shows "system_ok s \<Longrightarrow> bindings (snd s) \<subseteq>\<^sub>m B \<Longrightarrow>
    (\<forall>ss \<in> set sss. B (ss_name ss) = Some (SwipeBinding (ss_finger ss) (ss_direction ss) (ss_action ss))) \<Longrightarrow>
    \<exists>s'. rfold restoreSwipe sss s = Inr s' \<and> system_ok s' \<and> bindings (snd s') \<subseteq>\<^sub>m B
      \<and> joins (map (\<lambda>ss. (ss_name ss, SwipeBinding (ss_finger ss) (ss_direction ss) (ss_action ss))) sss)
          (bindings (snd s)) (bindings (snd s'))"
proof (induction sss arbitrary: s)
  case Nil
  then show ?case by (simp add: joins_def)
next
  case (Cons ss sss)
  let ?b = "SwipeBinding (ss_finger ss) (ss_direction ss) (ss_action ss)"
  let ?v = "ss_direction ss \<noteq> SwipeInvalid \<and> ss_finger ss \<noteq> 0"
  obtain e m1 c1 where r: "sc_registerSwipeGesture (ss_name ss) (ss_finger ss) (ss_direction ss) (ss_action ss) s = Inr (e, m1, c1)"
    "system_ok (m1, c1)" "(e, bindings c1) = spec_bind_gesture (ss_name ss) ?b ?v (bindings (snd s))"
    using sc_registerSwipeGesture_refines [of "fst s" "snd s"] Cons.prems(1) by (metis prod.collapse)
  have b: "B (ss_name ss) = Some ?b" using Cons.prems(3) by simp
  have "?v" using consistentD(1) [OF assms b] by simp
  from rebind_gesture [OF assms Cons.prems(2) b _ this] have c1: "bindings c1 = (bindings (snd s))(ss_name ss \<mapsto> ?b)"
    using r(3) by (metis binding.distinct(1) snd_conv)
  have "bindings c1 \<subseteq>\<^sub>m B" unfolding c1 by (rule restore_step [OF Cons.prems(2) b])
  with Cons.IH [of "(m1, c1)"] Cons.prems(3) r(2) obtain s' where
    "rfold restoreSwipe sss (m1, c1) = Inr s'" "system_ok s'" "bindings (snd s') \<subseteq>\<^sub>m B"
    "joins (map (\<lambda>ss. (ss_name ss, SwipeBinding (ss_finger ss) (ss_direction ss) (ss_action ss))) sss)
          (bindings c1) (bindings (snd s'))" by auto
  moreover have "restoreSwipe ss s = Inr (m1, c1)" by (simp add: restoreSwipe_def r)
  ultimately show ?case using joins_Cons [OF _ Cons.prems(2) b] c1 by auto
qed

lemma restoreHolds:
  assumes "consistent B"
  shows "system_ok s \<Longrightarrow> bindings (snd s) \<subseteq>\<^sub>m B \<Longrightarrow>
    (\<forall>hs \<in> set hss. B (hs_name hs) = Some (HoldBinding (hs_finger hs) (hs_action hs))) \<Longrightarrow>
    \<exists>s'. rfold restoreHold hss s = Inr s' \<and> system_ok s' \<and> bindings (snd s') \<subseteq>\<^sub>m B
      \<and> joins (map (\<lambda>hs. (hs_name hs, HoldBinding (hs_finger hs) (hs_action hs))) hss)
          (bindings (snd s)) (bindings (snd s'))"
proof (induction hss arbitrary: s)
  case Nil
  then show ?case by (simp add: joins_def)
next
  case (Cons hs hss)
  let ?b = "HoldBinding (hs_finger hs) (hs_action hs)"
  obtain e m1 c1 where r: "sc_registerHoldGesture (hs_name hs) (hs_finger hs) (hs_action hs) s = Inr (e, m1, c1)"
    "system_ok (m1, c1)" "(e, bindings c1) = spec_bind_gesture (hs_name hs) ?b (hs_finger hs \<noteq> 0) (bindings (snd s))"
    using sc_registerHoldGesture_refines [of "fst s" "snd s"] Cons.prems(1) by (metis prod.collapse)
  have b: "B (hs_name hs) = Some ?b" using Cons.prems(3) by simp
  have "hs_finger hs \<noteq> 0" using consistentD(1) [OF assms b] by simp
  from rebind_gesture [OF assms Cons.prems(2) b _ this] have c1: "bindings c1 = (bindings (snd s))(hs_name hs \<mapsto> ?b)"
    using r(3) by (metis binding.distinct(3) snd_conv)
  have "bindings c1 \<subseteq>\<^sub>m B" unfolding c1 by (rule restore_step [OF Cons.prems(2) b])
  with Cons.IH [of "(m1, c1)"] Cons.prems(3) r(2) obtain s' where
    "rfold restoreHold hss (m1, c1) = Inr s'" "system_ok s'" "bindings (snd s') \<subseteq>\<^sub>m B"
    "joins (map (\<lambda>hs. (hs_name hs, HoldBinding (hs_finger hs) (hs_action hs))) hss)
          (bindings c1) (bindings (snd s'))" by auto
  moreover have "restoreHold hs s = Inr (m1, c1)" by (simp add: restoreHold_def r)
  ultimately show ?case using joins_Cons [OF _ Cons.prems(2) b] c1 by auto
qed

lemma restoreSession_restores:
  assumes "system_ok s" "bindings (snd s) = (\<lambda>_. None)" "represents env us B" "consistent B"
  shows "\<exists>s'. restoreSession env us s = Inr s' \<and> system_ok s' \<and> bindings (snd s') = B"
proof -
  obtain m c where s: "s = (m, c)" by (cases s)
  have in_B: "(n, b) \<in> set (us_assoc env us) \<Longrightarrow> B n = Some b" for n b using assms(3) by (simp add: represents_def)
  have "bindings c \<subseteq>\<^sub>m B" using assms(2) by (simp add: s map_le_def)
  then obtain c1 where 1: "fold (restoreKey env) (us_keys us) (m, c) = (m, c1)" "system_ok (m, c1)" "bindings c1 \<subseteq>\<^sub>m B"
    "joins (map (\<lambda>ks. (ks_name ks, KeyBinding (normalizedKeyCombinedFor (env_parse env) (ks_key ks)) (ks_action ks) (ks_flags ks))) (us_keys us))
        (bindings c) (bindings c1)"
    using restoreKeys [OF assms(4), of m c "us_keys us" env] assms(1) in_B by (auto simp: s us_assoc_def)
  then obtain s2 where 2: "rfold restoreSwipe (us_swipes us) (m, c1) = Inr s2" "system_ok s2" "bindings (snd s2) \<subseteq>\<^sub>m B"
    "joins (map (\<lambda>ss. (ss_name ss, SwipeBinding (ss_finger ss) (ss_direction ss) (ss_action ss))) (us_swipes us))
        (bindings c1) (bindings (snd s2))"
    using restoreSwipes [OF assms(4), of "(m, c1)" "us_swipes us"] in_B by (auto simp: us_assoc_def)
  then obtain s3 where 3: "rfold restoreHold (us_holds us) s2 = Inr s3" "system_ok s3"
    "joins (map (\<lambda>hs. (hs_name hs, HoldBinding (hs_finger hs) (hs_action hs))) (us_holds us)) (bindings (snd s2)) (bindings (snd s3))"
    using restoreHolds [OF assms(4), of s2 "us_holds us"] in_B by (auto simp: us_assoc_def)
  have "represents env us (bindings (snd s3))"
    using 1(4) 2(4) 3(3) assms(2) by (auto simp: s joins_def represents_def us_assoc_def)
  then have "bindings (snd s3) = B" using represents_unique assms(3) by blast
  then show ?thesis using 1(1) 2(1) 3(1,2) by (simp add: restoreSession_def s)
qed

section \<open>Updating a cache\<close>

lemma assoc_key:
  "set (us_assoc env (us\<lparr>us_keys := filter (\<lambda>x. \<not> (ks_action x = ks_action ks
      \<and> normalizedKeyCombinedFor (env_parse env) (ks_key x) = normalizedKeyCombinedFor (env_parse env) (ks_key ks))) (us_keys us) @ [ks]\<rparr>)) =
   insert (ks_name ks, KeyBinding (normalizedKeyCombinedFor (env_parse env) (ks_key ks)) (ks_action ks) (ks_flags ks))
     {(n, b) \<in> set (us_assoc env us). \<not> binds_key (normalizedKeyCombinedFor (env_parse env) (ks_key ks)) (ks_action ks) (Some b)}"
  by (auto simp: us_assoc_def binds_key_def)

lemma assoc_gesture:
  "set (us_assoc env (us\<lparr>us_swipes := us_swipes us @ [ss]\<rparr>)) =
     insert (ss_name ss, SwipeBinding (ss_finger ss) (ss_direction ss) (ss_action ss)) (set (us_assoc env us))"
  "set (us_assoc env (us\<lparr>us_holds := us_holds us @ [hs]\<rparr>)) =
     insert (hs_name hs, HoldBinding (hs_finger hs) (hs_action hs)) (set (us_assoc env us))"
  by (auto simp: us_assoc_def)

lemma assoc_remove: "set (us_assoc env (removeShortcut name us)) = {(n, b) \<in> set (us_assoc env us). n \<noteq> name}"
  by (auto simp: us_assoc_def removeShortcut_def)

lemma represents_key:
  fixes ks :: key_shortcut
  defines "k \<equiv> \<lambda>env. normalizedKeyCombinedFor (env_parse env) (ks_key ks)"
  assumes rep: "represents env us B" and con: "consistent B" and args: "key_args_ok (k env) (ks_flags ks)"
    and sp: "spec_bind_key (ks_name ks) (k env) (ks_flags ks) (ks_action ks) B = (None, B')"
  shows "represents env (us\<lparr>us_keys := filter (\<lambda>x. \<not> (ks_action x = ks_action ks
      \<and> normalizedKeyCombinedFor (env_parse env) (ks_key x) = k env)) (us_keys us) @ [ks]\<rparr>) B' \<and> consistent B'"
proof -
  let ?kb = "KeyBinding (k env) (ks_action ks) (ks_flags ks)"
  have B': "B' = (\<lambda>n. if n = ks_name ks then Some ?kb else if binds_key (k env) (ks_action ks) (B n) then None else B n)"
    and free: "B (ks_name ks) = None \<or> binds_key (k env) (ks_action ks) (B (ks_name ks))"
    using sp by (auto simp: spec_bind_key_def split: if_splits)
  have "B' n = Some b \<longleftrightarrow> (n, b) = (ks_name ks, ?kb) \<or> B n = Some b \<and> \<not> binds_key (k env) (ks_action ks) (Some b)" for n b
    using free by (auto simp: B')
  then have "represents env (us\<lparr>us_keys := filter (\<lambda>x. \<not> (ks_action x = ks_action ks
      \<and> normalizedKeyCombinedFor (env_parse env) (ks_key x) = k env)) (us_keys us) @ [ks]\<rparr>) B'"
    using rep unfolding represents_def k_def assoc_key by auto
  moreover have "consistent B'"
    unfolding consistent_def
  proof (intro conjI allI impI)
    show "B' n = Some b \<Longrightarrow> acceptable b" for n b
      using consistentD(1) [OF con] args by (auto simp: B' split: if_splits)
    fix n n' b b'
    assume "B' n = Some b \<and> B' n' = Some b' \<and> identity b = identity b'"
    then show "n = n'"
      using consistentD(2) [OF con, of n b n' b'] by (auto simp: B' binds_key_identity split: if_splits)
  qed
  ultimately show ?thesis by blast
qed

lemma consistent_gesture:
  assumes "consistent B" "spec_bind_gesture name b valid B = (None, B')" "valid \<Longrightarrow> acceptable b" "\<nexists>k a fl. b = KeyBinding k a fl"
  shows "consistent B'" "B name = None" "B' = B(name \<mapsto> b)"
proof -
  have B': "B' = B(name \<mapsto> b)" "B name = None" "valid" "\<And>n. B n \<noteq> Some b"
    using assms(2) by (auto simp: spec_bind_gesture_def split: if_splits)
  have other: "c = b" if "identity c = identity b" for c
    using assms(4) that by (cases c; cases b) auto
  show "B name = None" "B' = B(name \<mapsto> b)" using B' by simp_all
  show "consistent B'"
    unfolding consistent_def
  proof (intro conjI allI impI)
    show "B' n = Some c \<Longrightarrow> acceptable c" for n c
      using consistentD(1) [OF assms(1)] assms(3) B' by (auto split: if_splits)
    fix n n' c c'
    assume "B' n = Some c \<and> B' n' = Some c' \<and> identity c = identity c'"
    then have c: "B' n = Some c" "B' n' = Some c'" "identity c = identity c'" by simp_all
    show "n = n'"
    proof (cases "n = name \<or> n' = name")
      case True
      then have "c = b \<or> c' = b" using c(1,2) B'(1) by auto
      then have cb: "c = b" "c' = b" using other [of c] other [of c'] c(3) by auto
      have name: "x = name" if "B' x = Some b" for x using that B'(1,4) by (cases "x = name") simp_all
      show ?thesis using name [of n] name [of n'] c(1,2) cb by simp
    next
      case False
      then show ?thesis using c B'(1) consistentD(2) [OF assms(1), of n c n' c'] by simp
    qed
  qed
qed

lemma represents_insert:
  "represents env us B \<Longrightarrow> B name = None \<Longrightarrow> set (us_assoc env us') = insert (name, b) (set (us_assoc env us)) \<Longrightarrow>
   represents env us' (B(name \<mapsto> b))"
  by (auto simp: represents_def) (metis option.distinct(1))+

lemma represents_remove:
  "represents env us B \<Longrightarrow> represents env (removeShortcut name us) (B(name := None))"
  by (auto simp: represents_def assoc_remove)

lemma consistent_remove: "consistent B \<Longrightarrow> consistent (B(name := None))"
  by (auto simp: consistent_def)

section \<open>The invariant of the manager\<close>

definition manager_ok :: "protocol_env \<Rightarrow> shortcut_manager \<Rightarrow> bool" where
  "manager_ok env M =
     (system_ok (sm_system M) \<and> (\<forall>s. cache_ok env (shortcuts_at (shortcuts M) s))
      \<and> (case activeSessionSocket M of
           None \<Rightarrow> bindings (snd (sm_system M)) = (\<lambda>_. None)
         | Some s \<Rightarrow> represents env (shortcuts_at (shortcuts M) s) (bindings (snd (sm_system M)))))"

lemma manager_okD:
  assumes "manager_ok env M" "activeSessionSocket M = Some s"
  shows "system_ok (sm_system M)" "represents env (shortcuts_at (shortcuts M) s) (bindings (snd (sm_system M)))"
    "consistent (bindings (snd (sm_system M)))"
proof -
  show 1: "system_ok (sm_system M)" "represents env (shortcuts_at (shortcuts M) s) (bindings (snd (sm_system M)))"
    using assms by (simp_all add: manager_ok_def)
  have "cache_ok env (shortcuts_at (shortcuts M) s)" using assms(1) by (simp add: manager_ok_def)
  then show "consistent (bindings (snd (sm_system M)))"
    using 1(2) represents_unique unfolding cache_ok_def by blast
qed

lemma shortcuts_at_upd: "shortcuts_at (f(s \<mapsto> us)) t = (if t = s then us else shortcuts_at f t)"
  "shortcuts_at (f(s := None)) t = (if t = s then noShortcuts else shortcuts_at f t)"
  by (simp_all add: shortcuts_at_def)

lemma manager_okI:
  assumes "manager_ok env M" "activeSessionSocket M = Some s" "system_ok sys"
    "represents env us (bindings (snd sys))" "consistent (bindings (snd sys))"
    "shortcuts M' = (shortcuts M)(s \<mapsto> us)" "sm_system M' = sys" "activeSessionSocket M' = Some s"
  shows "manager_ok env M'"
  using assms by (auto simp: manager_ok_def shortcuts_at_upd cache_ok_def)

definition same_rest :: "shortcut_manager \<Rightarrow> shortcut_manager \<Rightarrow> bool" where
  "same_rest M M' =
     (activeSessionSocket M' = activeSessionSocket M \<and> ownerClients M' = ownerClients M
      \<and> pendingShortcuts M' = pendingShortcuts M \<and> pendingDeletes M' = pendingDeletes M
      \<and> (\<forall>t. activeSessionSocket M \<noteq> Some t \<longrightarrow> shortcuts M' t = shortcuts M t))"

lemma same_rest_refl [simp]: "same_rest M M"
  by (simp add: same_rest_def)

lemma same_rest_trans: "same_rest A B \<Longrightarrow> same_rest B C \<Longrightarrow> same_rest A C"
  by (simp add: same_rest_def)

lemma manager_ok_system:
  assumes "manager_ok env M" "system_ok sys" "bindings (snd sys) = bindings (snd (sm_system M))"
  shows "manager_ok env (M\<lparr>sm_system := sys\<rparr>)"
  using assms by (auto simp: manager_ok_def split: option.splits)

lemma sm_registerKey_ok:
  assumes M: "manager_ok env M" "activeSessionSocket M = Some s" and r: "sm_registerKey env s ks M = (e, M')"
  shows "manager_ok env M' \<and> same_rest M M'"
proof (cases "env_action env (ks_action ks)")
  case False
  then show ?thesis using r M by (simp add: sm_registerKey_def)
next
  case True
  let ?k = "normalizedKeyCombinedFor (env_parse env) (ks_key ks)"
  obtain m c where mc: "sm_system M = (m, c)" by (cases "sm_system M")
  obtain e' c' where c0: "registerKey (env_parse env) (ks_name ks) (ks_key ks) (ks_flags ks) (ks_action ks) c = (e', c')"
    by (rule prod.exhaust)
  have "e' = e" using r True by (cases e') (simp_all add: sm_registerKey_def mc c0 Let_def)
  with c0 have c: "registerKey (env_parse env) (ks_name ks) (ks_key ks) (ks_flags ks) (ks_action ks) c = (e, c')" by simp
  note D = manager_okD [OF M, unfolded mc snd_conv]
  have ok: "registry_ok c" using D(1) by (simp add: system_ok_def)
  show ?thesis
  proof (cases e)
    case None
    let ?us = "shortcuts_at (shortcuts M) s"
    let ?us' = "?us\<lparr>us_keys := filter (\<lambda>x. \<not> (ks_action x = ks_action ks
      \<and> normalizedKeyCombinedFor (env_parse env) (ks_key x) = ?k)) (us_keys ?us) @ [ks]\<rparr>"
    have M': "M' = M\<lparr>sm_system := (m, c'), shortcuts := (shortcuts M)(s \<mapsto> ?us')\<rparr>"
      using r True c None by (simp add: sm_registerKey_def mc Let_def)
    have args: "key_args_ok ?k (ks_flags ks)"
      using c None registerKey_invalid [of "env_parse env" "ks_key ks" "ks_flags ks" "ks_name ks" "ks_action ks" c] by auto
    note ref = registerKey_refines [OF ok args c]
    have "spec_bind_key (ks_name ks) ?k (ks_flags ks) (ks_action ks) (bindings c) = (None, bindings c')"
      using ref(2) None by simp
    note represents_key [OF D(2,3) args this]
    moreover have "system_ok (m, c')" using ref(1) D(1) by (simp add: system_ok_def)
    ultimately have "manager_ok env M'"
      by (intro manager_okI [OF M, of "(m, c')" ?us']) (simp_all add: M' M(2))
    then show ?thesis using M(2) by (simp add: M' same_rest_def)
  next
    case (Some err)
    have M': "M' = M\<lparr>sm_system := (m, c')\<rparr>"
      using r True c Some by (simp add: sm_registerKey_def mc Let_def)
    have "system_ok (m, c') \<and> bindings c' = bindings c"
    proof (cases "key_args_ok ?k (ks_flags ks)")
      case True
      then show ?thesis using registerKey_refines [OF ok True c] Some D(1)
        by (auto simp: spec_bind_key_def system_ok_def split: if_splits)
    next
      case False
      then show ?thesis using registerKey_invalid [OF False, of "ks_name ks" "ks_action ks" c] c D(1) by simp
    qed
    then show ?thesis using manager_ok_system [OF M(1), of "(m, c')"] by (simp add: M' mc same_rest_def)
  qed
qed

text \<open>The two kinds of gestures are registered alike.\<close>

lemma gesture_registered:
  assumes M: "manager_ok env M" "activeSessionSocket M = Some s"
    and r: "system_ok (m', c')" "(e, bindings c') = spec_bind_gesture name b valid (bindings (snd (sm_system M)))"
    and b: "valid \<Longrightarrow> acceptable b" "\<nexists>k a fl. b = KeyBinding k a fl"
    and us: "set (us_assoc env us) = insert (name, b) (set (us_assoc env (shortcuts_at (shortcuts M) s)))"
    and M': "M' = (if e = None then M\<lparr>sm_system := (m', c'), shortcuts := (shortcuts M)(s \<mapsto> us)\<rparr> else M\<lparr>sm_system := (m', c')\<rparr>)"
  shows "manager_ok env M' \<and> same_rest M M'"
proof (cases e)
  case None
  note D = manager_okD [OF M]
  have sp: "spec_bind_gesture name b valid (bindings (snd (sm_system M))) = (None, bindings c')" using r(2) None by simp
  note g = consistent_gesture [OF D(3) sp b]
  have "represents env us (bindings c')" using represents_insert [OF D(2) g(2) us] by (simp only: g(3))
  then have "manager_ok env M'"
    using g(1) r(1) M(2) by (intro manager_okI [OF M, of "(m', c')" us]) (simp_all add: M' None)
  then show ?thesis using M(2) by (simp add: M' None same_rest_def)
next
  case (Some err)
  then have "bindings c' = bindings (snd (sm_system M))" using r(2) by (auto simp: spec_bind_gesture_def split: if_splits)
  then show ?thesis using manager_ok_system [OF M(1), of "(m', c')"] r(1) Some by (simp add: M' same_rest_def)
qed

lemma sm_registerSwipe_ok:
  assumes M: "manager_ok env M" "activeSessionSocket M = Some s"
  shows "\<exists>e M'. sm_registerSwipe env s ss M = Inr (e, M') \<and> manager_ok env M' \<and> same_rest M M'"
proof (cases "env_action env (ss_action ss)")
  case False
  then show ?thesis using M by (simp add: sm_registerSwipe_def)
next
  case True
  let ?us = "shortcuts_at (shortcuts M) s"
  obtain e m' c' where r: "sc_registerSwipeGesture (ss_name ss) (ss_finger ss) (ss_direction ss) (ss_action ss) (sm_system M) = Inr (e, m', c')"
    "system_ok (m', c')" "(e, bindings c') = spec_bind_gesture (ss_name ss) (SwipeBinding (ss_finger ss) (ss_direction ss) (ss_action ss))
       (ss_direction ss \<noteq> SwipeInvalid \<and> ss_finger ss \<noteq> 0) (bindings (snd (sm_system M)))"
    using sc_registerSwipeGesture_refines [of "fst (sm_system M)" "snd (sm_system M)"] manager_okD(1) [OF M] by (metis prod.collapse)
  let ?M = "if e = None then M\<lparr>sm_system := (m', c'), shortcuts := (shortcuts M)(s \<mapsto> ?us\<lparr>us_swipes := us_swipes ?us @ [ss]\<rparr>)\<rparr>
     else M\<lparr>sm_system := (m', c')\<rparr>"
  have "sm_registerSwipe env s ss M = Inr (e, ?M)" using True r(1) by (simp add: sm_registerSwipe_def Let_def)
  moreover have "manager_ok env ?M \<and> same_rest M ?M"
    by (rule gesture_registered [OF M r(2,3) _ _ assoc_gesture(1) refl]) simp_all
  ultimately show ?thesis by blast
qed

lemma sm_registerHold_ok:
  assumes M: "manager_ok env M" "activeSessionSocket M = Some s"
  shows "\<exists>e M'. sm_registerHold env s hs M = Inr (e, M') \<and> manager_ok env M' \<and> same_rest M M'"
proof (cases "env_action env (hs_action hs)")
  case False
  then show ?thesis using M by (simp add: sm_registerHold_def)
next
  case True
  let ?us = "shortcuts_at (shortcuts M) s"
  obtain e m' c' where r: "sc_registerHoldGesture (hs_name hs) (hs_finger hs) (hs_action hs) (sm_system M) = Inr (e, m', c')"
    "system_ok (m', c')" "(e, bindings c') = spec_bind_gesture (hs_name hs) (HoldBinding (hs_finger hs) (hs_action hs))
       (hs_finger hs \<noteq> 0) (bindings (snd (sm_system M)))"
    using sc_registerHoldGesture_refines [of "fst (sm_system M)" "snd (sm_system M)"] manager_okD(1) [OF M] by (metis prod.collapse)
  let ?M = "if e = None then M\<lparr>sm_system := (m', c'), shortcuts := (shortcuts M)(s \<mapsto> ?us\<lparr>us_holds := us_holds ?us @ [hs]\<rparr>)\<rparr>
     else M\<lparr>sm_system := (m', c')\<rparr>"
  have "sm_registerHold env s hs M = Inr (e, ?M)" using True r(1) by (simp add: sm_registerHold_def Let_def)
  moreover have "manager_ok env ?M \<and> same_rest M ?M"
    by (rule gesture_registered [OF M r(2,3) _ _ assoc_gesture(2) refl]) simp_all
  ultimately show ?thesis by blast
qed

lemma dropShortcut_ok:
  assumes M: "manager_ok env M" "activeSessionSocket M = Some s"
  shows "\<exists>M'. dropShortcut s name M = Inr M' \<and> manager_ok env M' \<and> same_rest M M'"
proof -
  note D = manager_okD [OF M]
  obtain m' c' where r: "unregisterShortcut name (sm_system M) = Inr (m', c')" "system_ok (m', c')"
    "bindings c' = (bindings (snd (sm_system M)))(name := None)"
    using unregisterShortcut_refines [of "fst (sm_system M)" "snd (sm_system M)" name] D(1) by auto
  let ?us = "removeShortcut name (shortcuts_at (shortcuts M) s)"
  let ?M = "M\<lparr>sm_system := (m', c'), shortcuts := (shortcuts M)(s \<mapsto> ?us)\<rparr>"
  have "manager_ok env ?M"
    using represents_remove [OF D(2)] consistent_remove [OF D(3)] r(2,3) M(2)
    by (intro manager_okI [OF M, of "(m', c')" ?us]) simp_all
  then show ?thesis using M(2) r(1) by (simp add: dropShortcut_def same_rest_def)
qed

lemma report_ok:
  assumes "manager_ok env M'" "same_rest M M'"
  shows "manager_ok env (report s name (e, M')) \<and> same_rest M (report s name (e, M'))"
  using assms
  by (auto simp: report_def sendBindFailure_def post_def manager_ok_def same_rest_def split: option.splits)

end
