(* ===== verification/Shortcut_Switching.thy ===== *)
theory Shortcut_Switching
  imports Shortcut_Sessions
begin

text \<open>
  The states the shortcut manager reaches by the requests of clients, by input and by switching
  sessions, and the theorems about them.
\<close>

section \<open>The states of the manager\<close>

inductive input_step :: "shortcut_system \<Rightarrow> shortcut_system \<Rightarrow> bool" where
  "input_step (m, c) (m, snd (dispatchKeyEvent ev c))"
| "processSwipeStart n s = Inr s' \<Longrightarrow> input_step s s'"
| "processSwipeUpdate p s = Inr s' \<Longrightarrow> input_step s s'"
| "processSwipeCancel s = Inr s' \<Longrightarrow> input_step s s'"
| "processSwipeEnd s = Inr s' \<Longrightarrow> input_step s s'"
| "processHoldStart n s = Inr s' \<Longrightarrow> input_step s s'"
| "processHoldEnd s = Inr s' \<Longrightarrow> input_step s s'"

lemma input_step_touched: "input_step s s' \<Longrightarrow> slots_ok (fst s) \<Longrightarrow> touched s s'"
proof (induction rule: input_step.induct)
  case (1 m c ev)
  then show ?case using dispatch_core by (simp add: touched_def)
qed (use process_touched in blast)+

lemma input_step_ok:
  assumes "input_step s s'" "system_ok s"
  shows "system_ok s' \<and> bindings (snd s') = bindings (snd s)"
proof -
  have t: "touched s s'" using input_step_touched assms by (simp add: system_ok_def)
  then have "bindings (snd s') = bindings (snd s)"
    by (intro bindings_cong klook_core) (auto simp: touched_def same_core_def)
  with touched_system_ok [OF t assms(2)] show ?thesis by blast
qed

inductive sm_reach :: "protocol_env \<Rightarrow> shortcut_manager \<Rightarrow> bool" for env where
  mr_new: "sm_reach env newShortcutManager"
| mr_acquire: "sm_reach env M \<Longrightarrow> acquire env res M = Inr M' \<Longrightarrow> sm_reach env M'"
| mr_bind_key: "sm_reach env M \<Longrightarrow> bind_key env res name key flags a M = Inr M' \<Longrightarrow> sm_reach env M'"
| mr_bind_swipe: "sm_reach env M \<Longrightarrow> bind_swipe_gesture env res name f d a M = Inr M' \<Longrightarrow> sm_reach env M'"
| mr_bind_hold: "sm_reach env M \<Longrightarrow> bind_hold_gesture env res name f a M = Inr M' \<Longrightarrow> sm_reach env M'"
| mr_unbind: "sm_reach env M \<Longrightarrow> unbind env res name M = Inr M' \<Longrightarrow> sm_reach env M'"
| mr_destroy: "sm_reach env M \<Longrightarrow> sm_reach env (sm_destroy_resource res M)"
| mr_activated: "sm_reach env M \<Longrightarrow> sm_reach env (sm_sendActivated name fl M)"
| mr_session: "sm_reach env M \<Longrightarrow> onSessionChanged env session M = Inr M' \<Longrightarrow> sm_reach env M'"
| mr_input: "sm_reach env M \<Longrightarrow> input_step (sm_system M) s' \<Longrightarrow> sm_reach env (M\<lparr>sm_system := s'\<rparr>)"

lemma manager_ok_new: "manager_ok env newShortcutManager"
  using system_new(1)
  by (simp add: manager_ok_def newShortcutManager_def shortcuts_at_def)
     (simp add: bindings_def [abs_def] newShortcutController_def)

lemma manager_ok_untouched:
  "manager_ok env M \<Longrightarrow> manager_ok env (M\<lparr>pendingShortcuts := p\<rparr>)"
  "manager_ok env M \<Longrightarrow> manager_ok env (M\<lparr>pendingDeletes := d\<rparr>)"
  "manager_ok env M \<Longrightarrow> manager_ok env (M\<lparr>ownerClients := w\<rparr>)"
  "manager_ok env M \<Longrightarrow> manager_ok env (post es M)"
  by (simp_all add: manager_ok_def post_def split: option.splits)

text \<open>Requests of the active session do not wait.\<close>

definition pend_ok :: "shortcut_manager \<Rightarrow> bool" where
  "pend_ok M = (\<forall>s. activeSessionSocket M = Some s \<longrightarrow> pendingShortcuts M s = None \<and> pendingDeletes M s = None)"

definition manager_inv :: "protocol_env \<Rightarrow> shortcut_manager \<Rightarrow> bool" where
  "manager_inv env M = (manager_ok env M \<and> pend_ok M)"

lemma same_rest_pend: "same_rest M M' \<Longrightarrow> pend_ok M \<Longrightarrow> pend_ok M'"
  by (simp add: same_rest_def pend_ok_def)

lemma manager_inv_rest: "manager_ok env M' \<and> same_rest M M' \<Longrightarrow> manager_inv env M \<Longrightarrow> manager_inv env M'"
  by (auto simp: manager_inv_def dest: same_rest_pend)

lemma owned_ok:
  assumes "manager_inv env M" "\<And>s. \<exists>M'. f s M = Inr M' \<and> manager_inv env M'"
  shows "\<exists>M'. owned env res f M = Inr M' \<and> manager_inv env M'"
  using assms manager_ok_untouched(4) by (auto simp: owned_def Let_def manager_inv_def pend_ok_def post_def)

lemma manager_invD: "manager_inv env M \<Longrightarrow> manager_ok env M"
  by (simp add: manager_inv_def)

lemma waiting_ok:
  assumes "manager_inv env M" "activeSessionSocket M \<noteq> Some s"
  shows "manager_inv env (M\<lparr>pendingShortcuts := (pendingShortcuts M)(s \<mapsto> us)\<rparr>)"
    "manager_inv env (M\<lparr>pendingShortcuts := (pendingShortcuts M)(s \<mapsto> us), pendingDeletes := (pendingDeletes M)(s \<mapsto> ns)\<rparr>)"
  using assms manager_ok_untouched(1,2) by (auto simp: manager_inv_def pend_ok_def)

lemma bind_key_ok:
  assumes "manager_inv env M"
  shows "\<exists>M'. bind_key env res name key flags a M = Inr M' \<and> manager_inv env M'"
  unfolding bind_key_def
proof (rule owned_ok [OF assms])
  fix s
  let ?ks = "\<lparr>ks_flags = flags, ks_name = name, ks_key = key, ks_action = a\<rparr>"
  obtain e M' where r: "sm_registerKey env s ?ks M = (e, M')" by (rule prod.exhaust)
  have "activeSessionSocket M = Some s \<Longrightarrow> manager_inv env (report s name (e, M'))"
    using sm_registerKey_ok [OF manager_invD [OF assms] _ r] report_ok [of env M' M s name e] manager_inv_rest assms by blast
  then show "\<exists>M'. (let ks = ?ks in if activeSessionSocket M = Some s then Inr (report s name (sm_registerKey env s ks M))
       else let us = shortcuts_at (pendingShortcuts M) s in
            Inr (M\<lparr>pendingShortcuts := (pendingShortcuts M)(s \<mapsto> us\<lparr>us_keys := us_keys us @ [ks]\<rparr>)\<rparr>)) = Inr M' \<and> manager_inv env M'"
    using waiting_ok(1) [OF assms] r by (simp add: Let_def)
qed

lemma bind_swipe_ok:
  assumes "manager_inv env M"
  shows "\<exists>M'. bind_swipe_gesture env res name f d a M = Inr M' \<and> manager_inv env M'"
  unfolding bind_swipe_gesture_def
proof (rule owned_ok [OF assms])
  fix s
  let ?ss = "\<lparr>ss_name = name, ss_finger = f, ss_direction = toSwipeDirection env d, ss_action = a\<rparr>"
  have "\<exists>M'. rbind (sm_registerSwipe env s ?ss M) (\<lambda>eM. Inr (report s name eM)) = Inr M' \<and> manager_inv env M'"
    if act: "activeSessionSocket M = Some s"
  proof -
    obtain e M' where r: "sm_registerSwipe env s ?ss M = Inr (e, M')" "manager_ok env M'" "same_rest M M'"
      using sm_registerSwipe_ok [OF manager_invD [OF assms] act] by blast
    from manager_inv_rest [OF report_ok [OF r(2,3)] assms] r(1) show ?thesis by simp
  qed
  then show "\<exists>M'. (let ss = ?ss in if activeSessionSocket M = Some s
       then rbind (sm_registerSwipe env s ss M) (\<lambda>eM. Inr (report s name eM))
       else let us = shortcuts_at (pendingShortcuts M) s in
            Inr (M\<lparr>pendingShortcuts := (pendingShortcuts M)(s \<mapsto> us\<lparr>us_swipes := us_swipes us @ [ss]\<rparr>)\<rparr>)) = Inr M' \<and> manager_inv env M'"
    using waiting_ok(1) [OF assms] by (simp add: Let_def)
qed

lemma bind_hold_ok:
  assumes "manager_inv env M"
  shows "\<exists>M'. bind_hold_gesture env res name f a M = Inr M' \<and> manager_inv env M'"
  unfolding bind_hold_gesture_def
proof (rule owned_ok [OF assms])
  fix s
  let ?hs = "\<lparr>hs_name = name, hs_finger = f, hs_action = a\<rparr>"
  have "\<exists>M'. rbind (sm_registerHold env s ?hs M) (\<lambda>eM. Inr (report s name eM)) = Inr M' \<and> manager_inv env M'"
    if act: "activeSessionSocket M = Some s"
  proof -
    obtain e M' where r: "sm_registerHold env s ?hs M = Inr (e, M')" "manager_ok env M'" "same_rest M M'"
      using sm_registerHold_ok [OF manager_invD [OF assms] act] by blast
    from manager_inv_rest [OF report_ok [OF r(2,3)] assms] r(1) show ?thesis by simp
  qed
  then show "\<exists>M'. (let hs = ?hs in if activeSessionSocket M = Some s
       then rbind (sm_registerHold env s hs M) (\<lambda>eM. Inr (report s name eM))
       else let us = shortcuts_at (pendingShortcuts M) s in
            Inr (M\<lparr>pendingShortcuts := (pendingShortcuts M)(s \<mapsto> us\<lparr>us_holds := us_holds us @ [hs]\<rparr>)\<rparr>)) = Inr M' \<and> manager_inv env M'"
    using waiting_ok(1) [OF assms] by (simp add: Let_def)
qed

lemma unbind_ok:
  assumes "manager_inv env M"
  shows "\<exists>M'. unbind env res name M = Inr M' \<and> manager_inv env M'"
  unfolding unbind_def
proof (rule owned_ok [OF assms])
  fix s
  have "\<exists>M'. dropShortcut s name M = Inr M' \<and> manager_inv env M'" if "activeSessionSocket M = Some s"
    using dropShortcut_ok [OF manager_invD [OF assms] that, of name] manager_inv_rest assms by blast
  then show "\<exists>M'. (if activeSessionSocket M \<noteq> Some s
       then Inr (M\<lparr>pendingShortcuts := (pendingShortcuts M)(s \<mapsto> removeShortcut name (shortcuts_at (pendingShortcuts M) s)),
                   pendingDeletes := (pendingDeletes M)(s \<mapsto> (case pendingDeletes M s of None \<Rightarrow> [] | Some ns \<Rightarrow> ns) @ [name])\<rparr>)
       else dropShortcut s name M) = Inr M' \<and> manager_inv env M'"
    using waiting_ok(2) [OF assms] by auto
qed

lemma acquire_ok:
  assumes "manager_inv env M"
  shows "\<exists>M'. acquire env res M = Inr M' \<and> manager_inv env M'"
proof (cases "ownerClients M (env_socket env res) = None")
  case False
  then show ?thesis using manager_ok_untouched(4) assms
    by (simp add: acquire_def Let_def manager_inv_def pend_ok_def post_def)
next
  case True
  let ?s = "env_socket env res"
  let ?M = "M\<lparr>shortcuts := (shortcuts M)(?s := None), pendingShortcuts := (pendingShortcuts M)(?s := None),
                  pendingDeletes := (pendingDeletes M)(?s := None)\<rparr>"
  have M: "manager_ok env M" "pend_ok M" using assms by (simp_all add: manager_inv_def)
  have pend: "pend_ok (?M\<lparr>sm_system := x, ownerClients := w\<rparr>)" "pend_ok (?M\<lparr>ownerClients := w\<rparr>)" for x w
    using M(2) by (auto simp: pend_ok_def)
  show ?thesis
  proof (cases "activeSessionSocket M = Some ?s")
    case active: True
    obtain m' c' where c: "sc_clear (sm_system M) = Inr (m', c')" "system_ok (m', c')" "bindings c' = (\<lambda>_. None)"
      using sc_clear_refines [of "fst (sm_system M)" "snd (sm_system M)"] M(1) by (auto simp: manager_ok_def)
    have "manager_ok env (?M\<lparr>sm_system := (m', c')\<rparr>)"
      using M(1) c active by (simp add: manager_ok_def shortcuts_at_upd)
    then show ?thesis using True active c(1) manager_ok_untouched(3) pend(1)
      by (simp add: acquire_def Let_def manager_inv_def)
  next
    case False
    then have "manager_ok env ?M"
      using M(1) by (auto simp: manager_ok_def shortcuts_at_upd split: option.splits)
    then show ?thesis using True False manager_ok_untouched(3) pend(2)
      by (simp add: acquire_def Let_def manager_inv_def)
  qed
qed

lemma rfold_ok:
  assumes "P M" "\<And>x M. P M \<Longrightarrow> \<exists>M'. f x M = Inr M' \<and> P M'"
  shows "\<exists>M'. rfold f xs M = Inr M' \<and> P M'"
  using assms(1)
proof (induction xs arbitrary: M)
  case Nil
  then show ?case by simp
next
  case (Cons x xs)
  then show ?case using assms(2) [of M x] by auto
qed

lemma applyDeletes_ok:
  assumes "manager_ok env M" "activeSessionSocket M = Some s"
  shows "\<exists>M'. applyDeletes s M = Inr M' \<and> manager_ok env M' \<and> activeSessionSocket M' = Some s
     \<and> ownerClients M' = ownerClients M \<and> pendingShortcuts M' = pendingShortcuts M
     \<and> pendingDeletes M' = (pendingDeletes M)(s := None) \<and> (\<forall>t. t \<noteq> s \<longrightarrow> shortcuts M' t = shortcuts M t)"
proof (cases "pendingDeletes M s")
  case None
  then have "(pendingDeletes M)(s := None) = pendingDeletes M" by (simp add: fun_upd_idem)
  with None show ?thesis using assms by (simp add: applyDeletes_def)
next
  case (Some names)
  let ?M = "M\<lparr>pendingDeletes := (pendingDeletes M)(s := None)\<rparr>"
  let ?P = "\<lambda>M'. manager_ok env M' \<and> same_rest ?M M'"
  have "?P ?M" using assms manager_ok_untouched(2) by simp
  moreover have "\<exists>M''. dropShortcut s name M' = Inr M'' \<and> ?P M''" if "?P M'" for name M'
    using dropShortcut_ok [of env M' s name] that assms(2) same_rest_trans [of ?M M'] by (auto simp: same_rest_def)
  ultimately have "\<exists>M'. rfold (dropShortcut s) names ?M = Inr M' \<and> ?P M'" by (rule rfold_ok)
  then show ?thesis using Some assms(2) by (auto simp: applyDeletes_def same_rest_def)
qed

lemma applyBinds_ok:
  assumes "manager_ok env M" "activeSessionSocket M = Some s"
  shows "\<exists>M'. applyBinds env s M = Inr M' \<and> manager_ok env M' \<and> activeSessionSocket M' = Some s
     \<and> ownerClients M' = ownerClients M \<and> pendingDeletes M' = pendingDeletes M
     \<and> pendingShortcuts M' = (pendingShortcuts M)(s := None) \<and> (\<forall>t. t \<noteq> s \<longrightarrow> shortcuts M' t = shortcuts M t)"
proof (cases "pendingShortcuts M s")
  case None
  then have "(pendingShortcuts M)(s := None) = pendingShortcuts M" by (simp add: fun_upd_idem)
  with None show ?thesis using assms by (simp add: applyBinds_def)
next
  case (Some us)
  let ?M = "M\<lparr>pendingShortcuts := (pendingShortcuts M)(s := None)\<rparr>"
  let ?P = "\<lambda>M'. manager_ok env M' \<and> same_rest ?M M'"
  have act: "?P M' \<Longrightarrow> activeSessionSocket M' = Some s" for M' using assms(2) by (simp add: same_rest_def)
  have key: "?P (report s (ks_name ks) (sm_registerKey env s ks M'))" if pm: "?P M'" for ks M'
  proof -
    obtain e M1 where r: "sm_registerKey env s ks M' = (e, M1)" by (rule prod.exhaust)
    have "?P M1" using sm_registerKey_ok [OF _ act [OF pm] r] pm same_rest_trans by blast
    then show ?thesis using report_ok [of env M1 ?M s _ e] r by simp
  qed
  have swipe: "\<exists>M''. rbind (sm_registerSwipe env s ss M') (\<lambda>eM. Inr (report s (ss_name ss) eM)) = Inr M'' \<and> ?P M''" if pm: "?P M'" for ss M'
  proof -
    obtain e M1 where r: "sm_registerSwipe env s ss M' = Inr (e, M1)" "manager_ok env M1" "same_rest M' M1"
      using sm_registerSwipe_ok [OF _ act [OF pm]] pm by blast
    then have "?P M1" using pm same_rest_trans by blast
    then show ?thesis using report_ok [of env M1 ?M s _ e] r(1) by simp
  qed
  have hold: "\<exists>M''. rbind (sm_registerHold env s hs M') (\<lambda>eM. Inr (report s (hs_name hs) eM)) = Inr M'' \<and> ?P M''" if pm: "?P M'" for hs M'
  proof -
    obtain e M1 where r: "sm_registerHold env s hs M' = Inr (e, M1)" "manager_ok env M1" "same_rest M' M1"
      using sm_registerHold_ok [OF _ act [OF pm]] pm by blast
    then have "?P M1" using pm same_rest_trans by blast
    then show ?thesis using report_ok [of env M1 ?M s _ e] r(1) by simp
  qed
  let ?M1 = "fold (\<lambda>ks M. report s (ks_name ks) (sm_registerKey env s ks M)) (us_keys us) ?M"
  have "?P ?M" using assms manager_ok_untouched(1) by simp
  then have "?P ?M1" by (rule fold_invariant_set) (rule key)
  then have "\<exists>M'. rfold (\<lambda>ss M. rbind (sm_registerSwipe env s ss M) (\<lambda>eM. Inr (report s (ss_name ss) eM))) (us_swipes us) ?M1 = Inr M' \<and> ?P M'"
    by (rule rfold_ok) (rule swipe)
  then obtain M2 where 2: "rfold (\<lambda>ss M. rbind (sm_registerSwipe env s ss M) (\<lambda>eM. Inr (report s (ss_name ss) eM))) (us_swipes us) ?M1 = Inr M2"
    "?P M2" by blast
  have "\<exists>M'. rfold (\<lambda>hs M. rbind (sm_registerHold env s hs M) (\<lambda>eM. Inr (report s (hs_name hs) eM))) (us_holds us) M2 = Inr M' \<and> ?P M'"
    using 2(2) by (rule rfold_ok) (rule hold)
  then obtain M3 where 3: "rfold (\<lambda>hs M. rbind (sm_registerHold env s hs M) (\<lambda>eM. Inr (report s (hs_name hs) eM))) (us_holds us) M2 = Inr M3"
    "?P M3" by blast
  show ?thesis using Some 2(1) 3 assms(2) by (auto simp: applyBinds_def Let_def same_rest_def)
qed

lemma onSessionChanged_ok:
  assumes "manager_inv env M"
  shows "\<exists>M'. onSessionChanged env session M = Inr M' \<and> manager_inv env M' \<and> ownerClients M' = ownerClients M
     \<and> (\<forall>s. session = Some s \<longrightarrow> activeSessionSocket M' = Some s \<and> (\<forall>t. t \<noteq> s \<longrightarrow>
          shortcuts M' t = shortcuts M t \<and> pendingShortcuts M' t = pendingShortcuts M t \<and> pendingDeletes M' t = pendingDeletes M t))"
proof (cases session)
  case None
  then show ?thesis using assms by (simp add: onSessionChanged_def)
next
  case (Some s)
  show ?thesis
  proof (cases "activeSessionSocket M = Some s")
    case True
    then show ?thesis using assms Some by (simp add: onSessionChanged_def)
  next
    case False
    have sys: "system_ok (sm_system M)" using assms by (simp add: manager_inv_def manager_ok_def)
    obtain m1 c1 where 1: "sc_clear (sm_system M) = Inr (m1, c1)" "system_ok (m1, c1)" "bindings c1 = (\<lambda>_. None)"
      using sc_clear_refines [of "fst (sm_system M)" "snd (sm_system M)"] sys by auto
    obtain B where B: "represents env (shortcuts_at (shortcuts M) s) B" "consistent B"
      using assms by (auto simp: manager_inv_def manager_ok_def cache_ok_def)
    obtain s2 where 2: "(case shortcuts M s of None \<Rightarrow> Inr (m1, c1) | Some us \<Rightarrow> restoreSession env us (m1, c1)) = Inr s2"
      "system_ok s2" "bindings (snd s2) = B"
    proof (cases "shortcuts M s")
      case None
      then have "B = (\<lambda>_. None)" using B(1) represents_unique represents_none by (auto simp: shortcuts_at_def)
      then show ?thesis using that [of "(m1, c1)"] None 1 by simp
    next
      case us: (Some us)
      then show ?thesis using that restoreSession_restores [of "(m1, c1)" env us B] 1 B by (auto simp: shortcuts_at_def)
    qed
    let ?M = "M\<lparr>sm_system := s2, activeSessionSocket := Some s\<rparr>"
    have "manager_ok env ?M" using assms 2 B(1) by (simp add: manager_inv_def manager_ok_def)
    then obtain M3 where 3: "applyDeletes s ?M = Inr M3" "manager_ok env M3" "activeSessionSocket M3 = Some s"
      "ownerClients M3 = ownerClients M" "pendingShortcuts M3 = pendingShortcuts M"
      "pendingDeletes M3 = (pendingDeletes M)(s := None)" "\<forall>t. t \<noteq> s \<longrightarrow> shortcuts M3 t = shortcuts M t"
      using applyDeletes_ok [of env ?M s] by auto
    obtain M4 where 4: "applyBinds env s M3 = Inr M4" "manager_ok env M4" "activeSessionSocket M4 = Some s"
      "ownerClients M4 = ownerClients M3" "pendingDeletes M4 = pendingDeletes M3"
      "pendingShortcuts M4 = (pendingShortcuts M3)(s := None)" "\<forall>t. t \<noteq> s \<longrightarrow> shortcuts M4 t = shortcuts M3 t"
      using applyBinds_ok [OF 3(2,3)] by auto
    have "onSessionChanged env session M = Inr M4"
      using Some False 1(1) 2(1) 3(1) 4(1) by (simp add: onSessionChanged_def)
    moreover have "manager_inv env M4" using 3 4 by (simp add: manager_inv_def pend_ok_def)
    ultimately show ?thesis using 3 4 Some by auto
  qed
qed

lemma sm_reach_ok: "sm_reach env M \<Longrightarrow> manager_inv env M"
proof (induction rule: sm_reach.induct)
  case mr_new
  then show ?case using manager_ok_new by (simp add: manager_inv_def pend_ok_def newShortcutManager_def)
next
  case (mr_acquire M res M')
  then show ?case using acquire_ok [of env M res] by auto
next
  case (mr_bind_key M res name key flags a M')
  then show ?case using bind_key_ok [of env M res name key flags a] by auto
next
  case (mr_bind_swipe M res name f d a M')
  then show ?case using bind_swipe_ok [of env M res name f d a] by auto
next
  case (mr_bind_hold M res name f a M')
  then show ?case using bind_hold_ok [of env M res name f a] by auto
next
  case (mr_unbind M res name M')
  then show ?case using unbind_ok [of env M res name] by auto
next
  case (mr_destroy M res)
  then show ?case using manager_ok_untouched(3) by (simp add: sm_destroy_resource_def manager_inv_def pend_ok_def)
next
  case (mr_activated M name fl)
  then show ?case
    using manager_ok_untouched(4)
    by (auto simp: sm_sendActivated_def sendActivatedTo_def manager_inv_def pend_ok_def post_def split: option.splits)
next
  case (mr_session M session M')
  then show ?case using onSessionChanged_ok [of env M session] by auto
next
  case (mr_input M s')
  then show ?case using input_step_ok [of "sm_system M" s'] manager_ok_system [of env M s']
    by (simp add: manager_inv_def pend_ok_def manager_ok_def)
qed

section \<open>Theorems\<close>

text \<open>C7: In every state the shortcut manager reaches, whatever clients request, whichever sessions
  become active and whatever is typed and swiped, the controller has bound exactly what the cache of
  the active session records, and every request returns without a failed assertion.\<close>

theorem active_session_is_bound:
  assumes "sm_reach env M" "activeSessionSocket M = Some s"
  shows "(bindings (snd (sm_system M)) n = Some b \<longleftrightarrow> (n, b) \<in> set (us_assoc env (shortcuts_at (shortcuts M) s)))
     \<and> is_ok (acquire env res M) \<and> is_ok (bind_key env res name key flags a M)
     \<and> is_ok (bind_swipe_gesture env res name f d a M) \<and> is_ok (bind_hold_gesture env res name f a M)
     \<and> is_ok (unbind env res name M) \<and> is_ok (onSessionChanged env session M)"
proof -
  note ok = sm_reach_ok [OF assms(1)]
  have "represents env (shortcuts_at (shortcuts M) s) (bindings (snd (sm_system M)))"
    by (rule manager_okD [OF manager_invD [OF ok] assms(2)])
  moreover have "is_ok (acquire env res M)" using acquire_ok [OF ok, of res] by auto
  moreover have "is_ok (bind_key env res name key flags a M)" using bind_key_ok [OF ok, of res name key flags a] by auto
  moreover have "is_ok (bind_swipe_gesture env res name f d a M)" using bind_swipe_ok [OF ok, of res name f d a] by auto
  moreover have "is_ok (bind_hold_gesture env res name f a M)" using bind_hold_ok [OF ok, of res name f a] by auto
  moreover have "is_ok (unbind env res name M)" using unbind_ok [OF ok, of res name] by auto
  moreover have "is_ok (onSessionChanged env session M)" using onSessionChanged_ok [OF ok, of session] by auto
  ultimately show ?thesis unfolding represents_def by blast
qed

text \<open>A compositor with two sessions, whose resources 0 and 1 belong to the sockets 0 and 1.\<close>

definition example_env :: protocol_env where
  "example_env = \<lparr>env_parse = example_parse, env_action = (\<lambda>a. a < 46),
     env_direction = (\<lambda>d. of_nat (direction_rank d)), env_socket = (\<lambda>res. res)\<rparr>"

lemma example_manager:
  "\<exists>M. sm_reach example_env M \<and> activeSessionSocket M = Some 0
     \<and> bindings (snd (sm_system M)) ''cut'' = Some (KeyBinding 0x10000058 7 1)"
proof -
  obtain M0 where M0: "onSessionChanged example_env (Some 0) newShortcutManager = Inr M0"
    and act: "activeSessionSocket M0 = Some 0" and own: "ownerClients M0 = ownerClients newShortcutManager"
    using onSessionChanged_ok [OF sm_reach_ok [OF mr_new], of example_env "Some 0"] by auto
  have r0: "sm_reach example_env M0" by (rule mr_session [OF mr_new M0])
  have o0: "ownerClients M0 0 = None" by (simp add: own newShortcutManager_def)
  have s0: "system_ok (sm_system M0)"
    using sm_reach_ok [OF r0] by (simp add: manager_inv_def manager_ok_def)
  obtain m1 c1 where c1: "sc_clear (sm_system M0) = Inr (m1, c1)" "system_ok (m1, c1)" "bindings c1 = (\<lambda>_. None)"
    using sc_clear_refines [of "fst (sm_system M0)" "snd (sm_system M0)"] s0 by auto
  define M1 where "M1 = M0\<lparr>shortcuts := (shortcuts M0)(0 := None), pendingShortcuts := (pendingShortcuts M0)(0 := None),
      pendingDeletes := (pendingDeletes M0)(0 := None), sm_system := (m1, c1), ownerClients := (ownerClients M0)(0 \<mapsto> 0)\<rparr>"
  have "acquire example_env 0 M0 = Inr M1"
    using o0 act c1(1) by (simp add: acquire_def example_env_def Let_def M1_def)
  then have r1: "sm_reach example_env M1" by (rule mr_acquire [OF r0])
  have args: "key_args_ok (normalizedKeyCombinedFor example_parse ''Meta+X'') 1" using example_keys by simp
  obtain e c2 where c2: "registerKey example_parse ''cut'' ''Meta+X'' 1 7 c1 = (e, c2)" by (rule prod.exhaust)
  have "registry_ok c1" using c1(2) by (simp add: system_ok_def)
  from registerKey_refines(2) [OF this args c2] have b2: "e = None" "bindings c2 ''cut'' = Some (KeyBinding 0x10000058 7 1)"
    by (simp_all add: c1(3) spec_bind_key_def example_keys)
  obtain M2 where M2: "bind_key example_env 0 ''cut'' ''Meta+X'' 1 7 M1 = Inr M2"
    using bind_key_ok [OF sm_reach_ok [OF r1]] by blast
  have "sm_system M2 = (m1, c2)" "activeSessionSocket M2 = Some 0"
    using M2 act c2 b2(1)
    by (auto simp: bind_key_def owned_def M1_def example_env_def sm_registerKey_def report_def Let_def)
  with mr_bind_key [OF r1 M2] b2(2) show ?thesis by auto
qed

theorem active_session_is_bound_witness:
  "\<exists>M. activeSessionSocket M = Some 0 \<and> ((''cut'', KeyBinding 0x10000058 7 1) \<in> set (us_assoc example_env (shortcuts_at (shortcuts M) 0)))
     \<and> is_ok (unbind example_env 0 ''cut'' M)"
proof -
  obtain M where M: "sm_reach example_env M" "activeSessionSocket M = Some 0"
    "bindings (snd (sm_system M)) ''cut'' = Some (KeyBinding 0x10000058 7 1)"
    using example_manager by blast
  from active_session_is_bound [OF M(1,2), of "''cut''" "KeyBinding 0x10000058 7 1" 0 "''cut''"] M show ?thesis by blast
qed

text \<open>A session gets its shortcuts back: when another session becomes active and then the first
  one again, the controller has exactly the bindings it had before.\<close>

theorem session_round_trip:
  assumes "sm_reach env M" "activeSessionSocket M = Some s" "t \<noteq> s"
  shows "\<exists>M1 M2. onSessionChanged env (Some t) M = Inr M1 \<and> activeSessionSocket M1 = Some t
     \<and> onSessionChanged env (Some s) M1 = Inr M2 \<and> activeSessionSocket M2 = Some s
     \<and> bindings (snd (sm_system M2)) = bindings (snd (sm_system M))"
proof -
  note inv = sm_reach_ok [OF assms(1)]
  note rep = manager_okD(2) [OF manager_invD [OF inv] assms(2)]
  have pend: "pendingShortcuts M s = None" "pendingDeletes M s = None"
    using inv assms(2) by (simp_all add: manager_inv_def pend_ok_def)
  obtain M1 where M1: "onSessionChanged env (Some t) M = Inr M1" "manager_inv env M1" "activeSessionSocket M1 = Some t"
    "shortcuts M1 s = shortcuts M s" "pendingShortcuts M1 s = None" "pendingDeletes M1 s = None"
    using onSessionChanged_ok [OF inv, of "Some t"] assms(3) pend by auto
  obtain M2 where M2: "onSessionChanged env (Some s) M1 = Inr M2" "manager_inv env M2" "activeSessionSocket M2 = Some s"
    using onSessionChanged_ok [OF M1(2), of "Some s"] by auto
  have "shortcuts M2 s = shortcuts M1 s"
    using M2(1) assms(3) M1(3,5,6)
    by (auto simp: onSessionChanged_def applyDeletes_def applyBinds_def elim!: rbind_InrE)
  then have "represents env (shortcuts_at (shortcuts M) s) (bindings (snd (sm_system M2)))"
    using manager_okD(2) [OF manager_invD [OF M2(2)] M2(3)] M1(4) by (simp add: shortcuts_at_def)
  then have "bindings (snd (sm_system M2)) = bindings (snd (sm_system M))" using rep represents_unique by blast
  with M1 M2 show ?thesis by blast
qed

theorem session_round_trip_witness:
  "\<exists>M M1 M2. onSessionChanged example_env (Some 1) M = Inr M1 \<and> onSessionChanged example_env (Some 0) M1 = Inr M2
     \<and> bindings (snd (sm_system M)) ''cut'' = Some (KeyBinding 0x10000058 7 1)
     \<and> bindings (snd (sm_system M2)) ''cut'' = Some (KeyBinding 0x10000058 7 1)"
proof -
  obtain M where M: "sm_reach example_env M" "activeSessionSocket M = Some 0"
    "bindings (snd (sm_system M)) ''cut'' = Some (KeyBinding 0x10000058 7 1)"
    using example_manager by blast
  have "(1 :: nat) \<noteq> 0" by simp
  from session_round_trip [OF M(1,2) this] M(3) show ?thesis by metis
qed

text \<open>A client that has not acquired the manager of its session can change nothing: each of its
  requests to bind or unbind only gets the error back.\<close>

theorem requests_need_acquire:
  assumes "ownerClients M (env_socket env res) \<noteq> Some res"
  shows "bind_key env res name key flags a M = Inr (post [PostError res NotAcquired] M)
     \<and> bind_swipe_gesture env res name f d a M = Inr (post [PostError res NotAcquired] M)
     \<and> bind_hold_gesture env res name f a M = Inr (post [PostError res NotAcquired] M)
     \<and> unbind env res name M = Inr (post [PostError res NotAcquired] M)"
  using assms by (simp add: bind_key_def bind_swipe_gesture_def bind_hold_gesture_def unbind_def owned_def Let_def)

theorem requests_need_acquire_witness:
  "unbind example_env 1 ''cut'' newShortcutManager = Inr (post [PostError 1 NotAcquired] newShortcutManager)"
proof -
  have "ownerClients newShortcutManager (env_socket example_env 1) \<noteq> Some 1" by (simp add: newShortcutManager_def)
  from requests_need_acquire [OF this, of "''cut''"] show ?thesis by blast
qed

end
