(* ===== verification/Shortcut_Capture.thy ===== *)
theory Shortcut_Capture
  imports Shortcut_Controller
begin

text \<open>
  The one-shot capture of src/src/modules/shortcut/shortcutmanager.cpp: a client asks for the next
  key combination typed into one of its surfaces. Capture objects, seats and surfaces are numbers.
  The keyboard focus of each seat and the texts Qt prints for key combinations are parameters.
  \<open>capPending\<close> is \<^verbatim>\<open>m_pending\<close> of each capture object that has not been destroyed.
\<close>

type_synonym capture = nat
type_synonym seat_id = nat
type_synonym surface_id = nat

datatype failed_reason = Busy | NotActive | Aborted | Interrupted

datatype capture_event = Captured capture string | Failed capture failed_reason | InvalidSurface nat

record capture_state =
  pendingCapture :: "capture option"
  pendingSeat :: "seat_id option"
  drainKey :: keycomb
  drainSeat :: "seat_id option"
  pendingSurface :: "surface_id option"
  capPending :: "capture \<Rightarrow> bool option"
  capEvents :: "capture_event list"

definition newCaptureState :: capture_state where
  "newCaptureState =
     \<lparr>pendingCapture = None, pendingSeat = None, drainKey = Key_unknown, drainSeat = None,
      pendingSurface = None, capPending = (\<lambda>_. None), capEvents = []\<rparr>"

definition sendCaptured :: "capture \<Rightarrow> string \<Rightarrow> capture_state \<Rightarrow> capture_state" where
  "sendCaptured i text s =
     s\<lparr>capPending := (capPending s)(i \<mapsto> False), capEvents := capEvents s @ [Captured i text]\<rparr>"

definition sendFailed :: "capture \<Rightarrow> failed_reason \<Rightarrow> capture_state \<Rightarrow> capture_state" where
  "sendFailed i reason s =
     s\<lparr>capPending := (capPending s)(i \<mapsto> False), capEvents := capEvents s @ [Failed i reason]\<rparr>"

definition resetCaptureState :: "capture_state \<Rightarrow> capture option \<times> capture_state" where
  "resetCaptureState s =
     (pendingCapture s, s\<lparr>pendingCapture := None, pendingSeat := None, pendingSurface := None\<rparr>)"

definition onCaptureDestroyed :: "capture \<Rightarrow> capture_state \<Rightarrow> capture_state" where
  "onCaptureDestroyed i s = (if pendingCapture s = Some i then snd (resetCaptureState s) else s)"

definition capture_destroy_resource :: "capture \<Rightarrow> capture_state \<Rightarrow> capture_state" where
  "capture_destroy_resource i s =
     (let s = (if capPending s i = Some True then onCaptureDestroyed i s else s)
      in s\<lparr>capPending := (capPending s)(i := None)\<rparr>)"

definition isCaptureActive :: "capture_state \<Rightarrow> bool" where
  "isCaptureActive s = (pendingCapture s \<noteq> None \<or> drainKey s \<noteq> Key_unknown)"

text \<open>The request: \<open>own\<close> says whether the surface belongs to the client, \<open>surface\<close> is null when it has
  no \<^verbatim>\<open>WSurface\<close>, and \<open>seat_resource\<close> is absent or names a seat, which may not exist.\<close>

definition capture_next_shortcut ::
  "seat_id list \<Rightarrow> (seat_id \<Rightarrow> surface_id option) \<Rightarrow> nat \<Rightarrow> bool \<Rightarrow> surface_id option \<Rightarrow> seat_id option option
     \<Rightarrow> capture \<Rightarrow> capture_state \<Rightarrow> capture_state" where
  "capture_next_shortcut seats focus resource own surface seat_resource i s =
     (if \<not> own then s\<lparr>capEvents := capEvents s @ [InvalidSurface resource]\<rparr>
      else
        let s = s\<lparr>capPending := (capPending s)(i \<mapsto> True)\<rparr> in
        if pendingCapture s \<noteq> None \<or> drainKey s \<noteq> Key_unknown then sendFailed i Busy s
        else
          let requestedSeat = (case seat_resource of
                Some seat \<Rightarrow> seat
              | None \<Rightarrow> List.find (\<lambda>k. focus k = surface) seats);
              focusedSurface = (case requestedSeat of None \<Rightarrow> None | Some k \<Rightarrow> focus k)
          in if focusedSurface = None \<or> focusedSurface \<noteq> surface then sendFailed i NotActive s
             else s\<lparr>pendingCapture := Some i, pendingSeat := requestedSeat, pendingSurface := surface\<rparr>)"

text \<open>The \<^verbatim>\<open>QPointer\<close> to the surface becomes null when the surface is destroyed.\<close>

definition surfaceDestroyed :: "surface_id \<Rightarrow> capture_state \<Rightarrow> capture_state" where
  "surfaceDestroyed x s = (if pendingSurface s = Some x then s\<lparr>pendingSurface := None\<rparr> else s)"

definition failWith :: "failed_reason \<Rightarrow> capture_state \<Rightarrow> capture_state result" where
  "failWith reason s =
     (let (c, s) = resetCaptureState s in rbind (deref c) (\<lambda>i. Inr (sendFailed i reason s)))"

definition captureText :: "string \<Rightarrow> capture_state \<Rightarrow> capture_state result" where
  "captureText text s =
     (let (c, s) = resetCaptureState s in rbind (deref c) (\<lambda>i. Inr (sendCaptured i text s)))"

definition isWinKey :: "keycomb \<Rightarrow> bool" where
  "isWinKey key = (key = Key_Super_L \<or> key = Key_Super_R \<or> key = Key_Meta)"

definition handlePress :: "(keycomb \<Rightarrow> string) \<Rightarrow> keycomb \<Rightarrow> capture_state \<Rightarrow> capture_state result" where
  "handlePress print comb s =
     (let key = key_of comb in
      if isPureModifierKey key then Inr s
      else if isWinKey key then Inr s
      else if isValidShortcutCombination comb
           then captureText (print (normalizeKeyCombination comb))
                  (s\<lparr>drainKey := key, drainSeat := pendingSeat s\<rparr>)
      else failWith Interrupted s)"

definition handleRelease :: "keycomb \<Rightarrow> capture_state \<Rightarrow> capture_state result" where
  "handleRelease comb s =
     (let key = key_of comb in
      if isPureModifierKey key then failWith Interrupted s
      else if isWinKey key
           then (if keyboardModifiers comb AND NOT MetaModifier = 0 then captureText ''Meta'' s
                 else failWith Interrupted s)
      else failWith Interrupted s)"

definition tryHandleCaptureEvent ::
  "(keycomb \<Rightarrow> string) \<Rightarrow> (seat_id \<Rightarrow> surface_id option) \<Rightarrow> seat_id \<Rightarrow> key_event \<Rightarrow> capture_state
     \<Rightarrow> (bool \<times> capture_state) result" where
  "tryHandleCaptureEvent print focus seat ev s =
     (let key = key_of (ke_combination ev) in
      if drainKey s \<noteq> Key_unknown \<and> Some seat = drainSeat s \<and> ke_type ev = KeyReleaseEvent \<and> key = drainKey s
      then Inr (True, s\<lparr>drainKey := Key_unknown, drainSeat := None\<rparr>)
      else if pendingCapture s = None then Inr (False, s)
      else if Some seat \<noteq> pendingSeat s then Inr (False, s)
      else if pendingSurface s = None \<or> focus seat \<noteq> pendingSurface s
           then rbind (failWith Aborted s) (\<lambda>s. Inr (False, s))
      else if ke_type ev \<in> {MouseButtonPress, MouseButtonRelease, WheelEvent}
           then rbind (failWith Interrupted s) (\<lambda>s. Inr (True, s))
      else if ke_type ev \<noteq> KeyPressEvent \<and> ke_type ev \<noteq> KeyReleaseEvent then Inr (False, s)
      else if ke_autoRepeat ev then Inr (True, s)
      else rbind (if ke_type ev = KeyPressEvent then handlePress print (ke_combination ev) s
                  else handleRelease (ke_combination ev) s) (\<lambda>s. Inr (True, s)))"

section \<open>Every capture is answered once\<close>

text \<open>The final events of a capture.\<close>

definition answers :: "capture \<Rightarrow> capture_event list \<Rightarrow> nat" where
  "answers i es = length (filter (\<lambda>e. case e of Captured j _ \<Rightarrow> j = i | Failed j _ \<Rightarrow> j = i | InvalidSurface _ \<Rightarrow> False) es)"

lemma answers_simps [simp]:
  "answers i [] = 0" "answers i (xs @ ys) = answers i xs + answers i ys"
  "answers i [Captured j t] = (if j = i then 1 else 0)" "answers i [Failed j r] = (if j = i then 1 else 0)"
  "answers i [InvalidSurface x] = 0"
  by (simp_all add: answers_def)

text \<open>A request makes a new capture object.\<close>

inductive capture_reach :: "(keycomb \<Rightarrow> string) \<Rightarrow> capture_state \<Rightarrow> bool" for print where
  cr_new: "capture_reach print newCaptureState"
| cr_request: "capture_reach print s \<Longrightarrow> capPending s i = None \<Longrightarrow> answers i (capEvents s) = 0 \<Longrightarrow>
    capture_reach print (capture_next_shortcut seats focus resource own surface seat_resource i s)"
| cr_event: "capture_reach print s \<Longrightarrow> tryHandleCaptureEvent print focus seat ev s = Inr (b, s') \<Longrightarrow> capture_reach print s'"
| cr_surface: "capture_reach print s \<Longrightarrow> capture_reach print (surfaceDestroyed x s)"
| cr_destroy: "capture_reach print s \<Longrightarrow> capture_reach print (capture_destroy_resource i s)"

definition capture_inv :: "capture_state \<Rightarrow> bool" where
  "capture_inv s =
     (\<forall>i. answers i (capEvents s) \<le> 1
        \<and> (capPending s i = Some True \<longleftrightarrow> pendingCapture s = Some i)
        \<and> (capPending s i = Some True \<longrightarrow> answers i (capEvents s) = 0)
        \<and> (capPending s i = Some False \<longrightarrow> answers i (capEvents s) = 1))"

lemma capture_invD:
  assumes "capture_inv s"
  shows "answers i (capEvents s) \<le> 1" "capPending s i = Some True \<longleftrightarrow> pendingCapture s = Some i"
    "pendingCapture s = Some i \<Longrightarrow> answers i (capEvents s) = 0"
    "capPending s i = Some False \<Longrightarrow> answers i (capEvents s) = 1"
  using assms unfolding capture_inv_def by blast+

lemma capture_invI:
  assumes "\<And>i. answers i (capEvents s) \<le> 1" "\<And>i. capPending s i = Some True \<longleftrightarrow> pendingCapture s = Some i"
    "\<And>i. pendingCapture s = Some i \<Longrightarrow> answers i (capEvents s) = 0"
    "\<And>i. capPending s i = Some False \<Longrightarrow> answers i (capEvents s) = 1"
  shows "capture_inv s"
  using assms unfolding capture_inv_def by blast

lemma capture_inv_drain: "capture_inv (s\<lparr>drainKey := k, drainSeat := d\<rparr>) = capture_inv s"
  by (simp add: capture_inv_def)

lemma failWith_answers:
  assumes "capture_inv s" "pendingCapture s = Some i"
  shows "failWith reason s = Inr (sendFailed i reason (snd (resetCaptureState s)))
     \<and> capture_inv (sendFailed i reason (snd (resetCaptureState s)))"
proof -
  have "capPending s j = Some True \<longleftrightarrow> j = i" for j using capture_invD(2) [OF assms(1), of j] assms(2) by auto
  then have "capture_inv (sendFailed i reason (snd (resetCaptureState s)))"
    using capture_invD [OF assms(1)] assms(2)
    by (intro capture_invI) (auto simp: sendFailed_def resetCaptureState_def split: if_splits)
  then show ?thesis using assms(2) by (simp add: failWith_def resetCaptureState_def)
qed

lemma captureText_answers:
  assumes "capture_inv s" "pendingCapture s = Some i"
  shows "captureText text s = Inr (sendCaptured i text (snd (resetCaptureState s)))
     \<and> capture_inv (sendCaptured i text (snd (resetCaptureState s)))"
proof -
  have "capPending s j = Some True \<longleftrightarrow> j = i" for j using capture_invD(2) [OF assms(1), of j] assms(2) by auto
  then have "capture_inv (sendCaptured i text (snd (resetCaptureState s)))"
    using capture_invD [OF assms(1)] assms(2)
    by (intro capture_invI) (auto simp: sendCaptured_def resetCaptureState_def split: if_splits)
  then show ?thesis using assms(2) by (simp add: captureText_def resetCaptureState_def)
qed

lemma request_inv:
  assumes "capture_inv s" "capPending s i = None" "answers i (capEvents s) = 0"
  shows "capture_inv (capture_next_shortcut seats focus resource own surface seat_resource i s)"
proof -
  note D = capture_invD [OF assms(1)]
  have ni: "pendingCapture s \<noteq> Some i" using D(2) [of i] assms(2) by simp
  have failed: "capture_inv (sendFailed i r (s\<lparr>capPending := (capPending s)(i \<mapsto> True)\<rparr>))" for r
    using D assms(3) ni by (intro capture_invI) (auto simp: sendFailed_def split: if_splits)
  have waiting: "pendingCapture s = None \<Longrightarrow>
      capture_inv (s\<lparr>capPending := (capPending s)(i \<mapsto> True), pendingCapture := Some i, pendingSeat := k, pendingSurface := x\<rparr>)" for k x
    using D assms(3) by (intro capture_invI) (auto split: if_splits)
  have refused: "capture_inv (s\<lparr>capEvents := capEvents s @ [InvalidSurface resource]\<rparr>)"
    using assms(1) by (simp add: capture_inv_def)
  show ?thesis
    using failed waiting refused by (simp add: capture_next_shortcut_def Let_def)
qed

lemma handle_ok:
  assumes "capture_inv s" "pendingCapture s \<noteq> None"
  shows "\<exists>s'. handlePress print comb s = Inr s' \<and> capture_inv s'" "\<exists>s'. handleRelease comb s = Inr s' \<and> capture_inv s'"
proof -
  obtain i where i: "pendingCapture s = Some i" using assms(2) by blast
  have "\<exists>s'. captureText tx (s\<lparr>drainKey := k, drainSeat := d\<rparr>) = Inr s' \<and> capture_inv s'" for tx k d
    using captureText_answers [of "s\<lparr>drainKey := k, drainSeat := d\<rparr>" i] assms(1) i by (simp add: capture_inv_drain)
  moreover have "\<exists>s'. captureText tx s = Inr s' \<and> capture_inv s'" for tx using captureText_answers [OF assms(1) i] by blast
  moreover have "\<exists>s'. failWith r s = Inr s' \<and> capture_inv s'" for r using failWith_answers [OF assms(1) i] by blast
  ultimately show "\<exists>s'. handlePress print comb s = Inr s' \<and> capture_inv s'" "\<exists>s'. handleRelease comb s = Inr s' \<and> capture_inv s'"
    using assms(1) by (simp_all add: handlePress_def handleRelease_def Let_def)
qed

lemma tryHandle_ok:
  assumes "capture_inv s"
  shows "\<exists>b s'. tryHandleCaptureEvent print focus seat ev s = Inr (b, s') \<and> capture_inv s'"
proof (cases "pendingCapture s")
  case None
  then show ?thesis using assms by (auto simp: tryHandleCaptureEvent_def Let_def capture_inv_drain)
next
  case (Some i)
  have fail: "\<exists>s'. failWith r s = Inr s' \<and> capture_inv s'" for r using failWith_answers [OF assms Some] by blast
  have press: "\<exists>s'. handlePress print (ke_combination ev) s = Inr s' \<and> capture_inv s'"
    and release: "\<exists>s'. handleRelease (ke_combination ev) s = Inr s' \<and> capture_inv s'"
    using handle_ok [OF assms] Some by simp_all
  show ?thesis
    unfolding tryHandleCaptureEvent_def Let_def
    using assms fail [of Aborted] fail [of Interrupted] press release Some
    by (auto simp: capture_inv_drain)
qed

lemma capture_reach_inv: "capture_reach print s \<Longrightarrow> capture_inv s"
proof (induction rule: capture_reach.induct)
  case cr_new
  then show ?case by (simp add: capture_inv_def newCaptureState_def)
next
  case (cr_request s i seats focus resource own surface seat_resource)
  then show ?case by (simp add: request_inv)
next
  case (cr_event s focus seat ev b s')
  then show ?case using tryHandle_ok [of s print focus seat ev] by auto
next
  case (cr_surface s x)
  then show ?case by (simp add: surfaceDestroyed_def capture_inv_def)
next
  case (cr_destroy s i)
  have "capPending s j = Some True \<longleftrightarrow> pendingCapture s = Some j" for j using capture_invD(2) [OF cr_destroy.IH] .
  then show ?case using cr_destroy.IH
    by (auto simp: capture_inv_def capture_destroy_resource_def onCaptureDestroyed_def resetCaptureState_def Let_def)
qed

text \<open>C20: In every reachable state of the capture protocol each capture has been answered at most once;
  a capture that still exists has had no answer exactly while it is the pending one, and at most one
  is pending; and no input event makes the filter fail.\<close>

theorem captures_answered_once:
  assumes "capture_reach print s"
  shows "answers i (capEvents s) \<le> 1
     \<and> (capPending s i = Some b \<longrightarrow> answers i (capEvents s) = (if b then 0 else 1) \<and> (b \<longleftrightarrow> pendingCapture s = Some i))
     \<and> is_ok (tryHandleCaptureEvent print focus seat ev s)"
proof -
  note inv = capture_reach_inv [OF assms]
  have "is_ok (tryHandleCaptureEvent print focus seat ev s)" using tryHandle_ok [OF inv, of print focus seat ev] by auto
  then show ?thesis using capture_invD [OF inv, of i] by (cases b) auto
qed

theorem captures_answered_once_witness:
  "answers 4 (capEvents (capture_next_shortcut [0] (\<lambda>_. None) 1 True (Some 9) None 4 newCaptureState)) = 1"
proof -
  let ?s = "capture_next_shortcut [0] (\<lambda>_. None) 1 True (Some 9) None 4 newCaptureState"
  have "capture_reach (\<lambda>_. ''x'') ?s" by (rule cr_request [OF cr_new]) (simp_all add: newCaptureState_def)
  moreover have "capPending ?s 4 = Some False"
    by (simp add: capture_next_shortcut_def newCaptureState_def sendFailed_def)
  ultimately show ?thesis using captures_answered_once [of "\<lambda>_. ''x''" ?s 4 False] by simp
qed

lemma zero_is_no_shortcut: "\<not> isValidShortcutCombination 0"
  by (simp add: isValidShortcutCombination_def normalizeKeyCombination_def keyboardModifiers_def key_of_def mkcomb_def
      modifier_defs key_defs Let_def)

lemma valid_normalized: "isValidShortcutCombination (normalizeKeyCombination c) = isValidShortcutCombination c"
  by (simp add: isValidShortcutCombination_def)

text \<open>While a capture waits and its surface has the focus, pressing an ordinary key whose combination
  is a valid shortcut answers the capture with its text, keeps the press and the following release of
  the key from the windows and from the shortcuts, and ends the capture; and the text, when Qt reads
  back what it has printed, is one that the controller accepts.\<close>

theorem captured_key_can_be_bound:
  fixes comb :: keycomb
  defines "k \<equiv> normalizeKeyCombination comb"
  assumes "pendingCapture s = Some i" "pendingSeat s = Some seat" "pendingSurface s = Some x" "focus seat = Some x"
    "isValidShortcutCombination comb" "\<not> isPureModifierKey (key_of comb)" "\<not> isWinKey (key_of comb)"
    "key_of comb \<noteq> Key_unknown" "key_of release = key_of comb"
    "parse (print k) = [k]" "\<not> endsWith (print k) ''+Ctrl''"
  shows "\<exists>s' s''.
      tryHandleCaptureEvent print focus seat \<lparr>ke_type = KeyPressEvent, ke_combination = comb, ke_autoRepeat = False\<rparr> s = Inr (True, s')
      \<and> capEvents s' = capEvents s @ [Captured i (print k)]
      \<and> tryHandleCaptureEvent print focus' seat \<lparr>ke_type = KeyReleaseEvent, ke_combination = release, ke_autoRepeat = r\<rparr> s' = Inr (True, s'')
      \<and> \<not> isCaptureActive s''
      \<and> isValidShortcutCombination (normalizedKeyCombinedFor parse (print k)) \<and> normalizedKeyCombinedFor parse (print k) \<noteq> 0"
proof -
  let ?s' = "sendCaptured i (print k) (snd (resetCaptureState (s\<lparr>drainKey := key_of comb, drainSeat := Some seat\<rparr>)))"
  have 1: "tryHandleCaptureEvent print focus seat \<lparr>ke_type = KeyPressEvent, ke_combination = comb, ke_autoRepeat = False\<rparr> s = Inr (True, ?s')"
    using assms(2-8)
    by (simp add: tryHandleCaptureEvent_def handlePress_def captureText_def resetCaptureState_def k_def Let_def)
  have 2: "tryHandleCaptureEvent print focus' seat \<lparr>ke_type = KeyReleaseEvent, ke_combination = release, ke_autoRepeat = r\<rparr> ?s' =
      Inr (True, ?s'\<lparr>drainKey := Key_unknown, drainSeat := None\<rparr>)"
    using assms(9,10) by (simp add: tryHandleCaptureEvent_def sendCaptured_def resetCaptureState_def Let_def)
  have "normalizedKeyCombinedFor parse (print k) = k"
    using assms(11,12) by (simp add: normalizedKeyCombinedFor_def k_def)
  moreover have "isValidShortcutCombination k" using assms(6) by (simp add: k_def valid_normalized)
  moreover from this have "k \<noteq> 0" using zero_is_no_shortcut by auto
  ultimately show ?thesis using 1 2
    by (intro exI [of _ ?s'] exI [of _ "?s'\<lparr>drainKey := Key_unknown, drainSeat := None\<rparr>"])
       (simp add: sendCaptured_def resetCaptureState_def isCaptureActive_def)
qed

theorem captured_key_can_be_bound_witness:
  "\<exists>s'. tryHandleCaptureEvent (\<lambda>_. ''Meta+X'') (\<lambda>_. Some 9) 0
       \<lparr>ke_type = KeyPressEvent, ke_combination = 0x10000058, ke_autoRepeat = False\<rparr>
       (capture_next_shortcut [0] (\<lambda>_. Some 9) 1 True (Some 9) None 4 newCaptureState) = Inr (True, s')
     \<and> capEvents s' = [Captured 4 ''Meta+X'']"
proof -
  let ?s = "capture_next_shortcut [0] (\<lambda>_. Some 9) 1 True (Some 9) None 4 newCaptureState"
  have s: "pendingCapture ?s = Some 4" "pendingSeat ?s = Some 0" "pendingSurface ?s = Some 9" "capEvents ?s = []"
    by (simp_all add: capture_next_shortcut_def newCaptureState_def)
  have k: "isValidShortcutCombination 0x10000058" "\<not> isPureModifierKey (key_of 0x10000058)" "\<not> isWinKey (key_of 0x10000058)"
    "key_of 0x10000058 \<noteq> Key_unknown"
    by (simp_all add: isValidShortcutCombination_def normalizeKeyCombination_def keyboardModifiers_def key_of_def mkcomb_def
        modifier_defs key_defs Let_def isPureModifierKey_def isWinKey_def)
  have p: "(\<lambda>_. [normalizeKeyCombination 0x10000058]) ((\<lambda>_. ''Meta+X'') (normalizeKeyCombination 0x10000058)) = [normalizeKeyCombination 0x10000058]"
    "\<not> endsWith ((\<lambda>_. ''Meta+X'') (normalizeKeyCombination 0x10000058)) ''+Ctrl''"
    by (simp_all add: endsWith_def)
  from captured_key_can_be_bound [where print = "\<lambda>_. ''Meta+X''" and parse = "\<lambda>_. [normalizeKeyCombination 0x10000058]"
      and focus = "\<lambda>_. Some 9", OF s(1-3) refl k refl p] s(4)
  show ?thesis by (metis append_Nil)
qed

end
