(* ===== verification/XSettings.thy ===== *)
theory XSettings
  imports QMap "HOL-Library.List_Lexorder" "HOL-Library.Char_ord" "HOL-Library.Signed_Division"
begin

text \<open>
  src/src/xsettings/xsettings.cpp: the settings that X11 clients read from a property of the
  settings window, and the encoding of that property. A \<^verbatim>\<open>QByteArray\<close> is a list of characters, an
  \<^verbatim>\<open>int\<close> is an integer in the signed 32 bit range and sums that may leave the range are wrapped by
  \<open>int32\<close>; \<^verbatim>\<open>size_t\<close> sums are taken modulo \<open>2 ^ 64\<close> by \<open>size64\<close>. Reading outside of the array is \<open>Inl OutOfBounds\<close>.
  The byte order of the machine and Qt's text of a floating point number are parameters.
\<close>

type_synonym bytes = "char list"

named_theorems xs_defs \<open>definitions of the codec\<close>

section \<open>Values and keys\<close>

text \<open>The \<^verbatim>\<open>QVariant\<close> values that occur; strings are given by their UTF-8 text. \<open>VColorInvalid\<close> is the colour that
  \<^verbatim>\<open>QColor(r, g, b, a)\<close> makes of components above 255: its components are 0.\<close>

datatype qvariant =
    Invalid
  | VInt int
  | VBool bool
  | VReal real
  | VColor nat nat nat nat
  | VColorInvalid
  | VString bytes
  | VByteArray bytes

text \<open>\<^verbatim>\<open>QVariant::operator==\<close>: numbers of different types are compared by value, other values of
  different types differ.\<close>

fun numeric :: "qvariant \<Rightarrow> real option" where
    "numeric (VInt i) = Some (of_int i)"
  | "numeric (VBool b) = Some (if b then 1 else 0)"
  | "numeric (VReal r) = Some r"
  | "numeric v = None"

definition variant_eq :: "qvariant \<Rightarrow> qvariant \<Rightarrow> bool" where
  "variant_eq v w = (case (numeric v, numeric w) of (Some a, Some b) \<Rightarrow> a = b | _ \<Rightarrow> v = w)"

record xsvalue =
  xv_value :: qvariant
  last_change_serial :: int

definition newXSettingsPropertyValue :: xsvalue where
  "newXSettingsPropertyValue = \<lparr>xv_value = Invalid, last_change_serial = -1\<rparr>"

definition updateValue :: "qvariant \<Rightarrow> int \<Rightarrow> xsvalue \<Rightarrow> bool \<times> xsvalue" where
  "updateValue v ser x =
     (if ser \<le> last_change_serial x then (False, x)
      else (True, x\<lparr>xv_value := v, last_change_serial := ser\<rparr>))"

record xsettings =
  m_settings :: "(bytes, xsvalue) qmap"
  m_serial :: int

definition newXSettings :: xsettings where
  "newXSettings = \<lparr>m_settings = [], m_serial = -1\<rparr>"

definition int32 :: "int \<Rightarrow> int" where
  "int32 n = signed_take_bit 31 n"

definition size64 :: "int \<Rightarrow> int" where
  "size64 n = n mod 2 ^ 64"

datatype XSettingsKey =
    UnknownSetting
  | Xft_DPI
  | Xft_Antialias
  | Xft_Hinting
  | Xft_HintStyle
  | Xft_RGBA
  | Xft_LCDFilter
  | Xcursor_Theme
  | Xcursor_Size
  | Xcursor_ThemeCore
  | Gdk_WindowScalingFactor
  | Gdk_UnscaledDPI
  | Gtk_FontName
  | Gtk_ThemeName
  | Gtk_IconThemeName
  | Gtk_CursorThemeName
  | Gtk_CursorThemeSize
  | Gtk_RecentFilesEnabled
  | Gtk_ShowStatusShapes
  | Gtk_ShowInputMethodMenu
  | Gtk_TimeoutInitial
  | Gtk_TimeoutRepeat
  | Gtk_DecorationLayout
  | Gtk_IMModule
  | Gtk_ShellShowsDesktop
  | Gtk_MenuImages
  | Gtk_EnablePrimaryPaste
  | Gtk_KeynavUseCaret
  | Gtk_ShellShowsAppMenu
  | Gtk_CanChangeAccels
  | Gtk_DialogsUseHeader
  | Gtk_ToolbarStyle
  | Gtk_KeyThemeName
  | Gtk_IMPreeditStyle
  | Gtk_EnableAnimations
  | Gtk_ToolbarIconSize
  | Gtk_IMStatusStyle
  | Gtk_RecentFilesMaxAge
  | Gtk_Modules
  | Gtk_AutoMnemonics
  | Gtk_ColorScheme
  | Gtk_MenuBarAccel
  | Gtk_ColorPalette
  | Gtk_OverlayScrolling
  | Gtk_SessionBusId
  | Gtk_ShowUnicodeMenu
  | Gtk_CursorBlinkTimeout
  | Gtk_ButtonImages
  | Gtk_TitlebarRightClick
  | Gtk_TitlebarDoubleClick
  | Gtk_TitlebarMiddleClick
  | Gtk_MonospaceFontName
  | Gtk_ApplicationPreferDarkTheme
  | Gtk_PrimaryButtonWarpsSlider
  | Net_DndDragThreshold
  | Net_CursorBlinkTime
  | Net_ThemeName
  | Net_DoubleClickTime
  | Net_CursorBlink
  | Net_FallbackIconTheme
  | Net_EnableEventSounds
  | Net_IconThemeName
  | Net_SoundThemeName
  | Net_EnableInputFeedbackSounds
  | Net_PreferDarkTheme

fun toByteArray :: "XSettingsKey \<Rightarrow> bytes" where
    "toByteArray UnknownSetting = []"
  | "toByteArray Xft_DPI = ''Xft/DPI''"
  | "toByteArray Xft_Antialias = ''Xft/Antialias''"
  | "toByteArray Xft_Hinting = ''Xft/Hinting''"
  | "toByteArray Xft_HintStyle = ''Xft/HintStyle''"
  | "toByteArray Xft_RGBA = ''Xft/RGBA''"
  | "toByteArray Xft_LCDFilter = ''Xft/Lcdfilter''"
  | "toByteArray Xcursor_Theme = ''Xcursor/Theme''"
  | "toByteArray Xcursor_Size = ''Xcursor/Size''"
  | "toByteArray Xcursor_ThemeCore = ''Xcursor/ThemeCore''"
  | "toByteArray Gdk_WindowScalingFactor = ''Gdk/WindowScalingFactor''"
  | "toByteArray Gdk_UnscaledDPI = ''Gdk/UnscaledDPI''"
  | "toByteArray Gtk_FontName = ''Gtk/FontName''"
  | "toByteArray Gtk_ThemeName = ''Gtk/ThemeName''"
  | "toByteArray Gtk_IconThemeName = ''Gtk/IconThemeName''"
  | "toByteArray Gtk_CursorThemeName = ''Gtk/CursorThemeName''"
  | "toByteArray Gtk_CursorThemeSize = ''Gtk/CursorThemeSize''"
  | "toByteArray Gtk_RecentFilesEnabled = ''Gtk/RecentFilesEnabled''"
  | "toByteArray Gtk_ShowStatusShapes = ''Gtk/ShowStatusShapes''"
  | "toByteArray Gtk_ShowInputMethodMenu = ''Gtk/ShowInputMethodMenu''"
  | "toByteArray Gtk_TimeoutInitial = ''Gtk/TimeoutInitial''"
  | "toByteArray Gtk_TimeoutRepeat = ''Gtk/TimeoutRepeat''"
  | "toByteArray Gtk_DecorationLayout = ''Gtk/DecorationLayout''"
  | "toByteArray Gtk_IMModule = ''Gtk/IMModule''"
  | "toByteArray Gtk_ShellShowsDesktop = ''Gtk/ShellShowsDesktop''"
  | "toByteArray Gtk_MenuImages = ''Gtk/MenuImages''"
  | "toByteArray Gtk_EnablePrimaryPaste = ''Gtk/EnablePrimaryPaste''"
  | "toByteArray Gtk_KeynavUseCaret = ''Gtk/KeynavUseCaret''"
  | "toByteArray Gtk_ShellShowsAppMenu = ''Gtk/ShellShowsAppMenu''"
  | "toByteArray Gtk_CanChangeAccels = ''Gtk/CanChangeAccels''"
  | "toByteArray Gtk_DialogsUseHeader = ''Gtk/DialogsUseHeader''"
  | "toByteArray Gtk_ToolbarStyle = ''Gtk/ToolbarStyle''"
  | "toByteArray Gtk_KeyThemeName = ''Gtk/KeyThemeName''"
  | "toByteArray Gtk_IMPreeditStyle = ''Gtk/IMPreeditStyle''"
  | "toByteArray Gtk_EnableAnimations = ''Gtk/EnableAnimations''"
  | "toByteArray Gtk_ToolbarIconSize = ''Gtk/ToolbarIconSize''"
  | "toByteArray Gtk_IMStatusStyle = ''Gtk/IMStatusStyle''"
  | "toByteArray Gtk_RecentFilesMaxAge = ''Gtk/RecentFilesMaxAge''"
  | "toByteArray Gtk_Modules = ''Gtk/Modules''"
  | "toByteArray Gtk_AutoMnemonics = ''Gtk/AutoMnemonics''"
  | "toByteArray Gtk_ColorScheme = ''Gtk/ColorScheme''"
  | "toByteArray Gtk_MenuBarAccel = ''Gtk/MenuBarAccel''"
  | "toByteArray Gtk_ColorPalette = ''Gtk/ColorPalette''"
  | "toByteArray Gtk_OverlayScrolling = ''Gtk/OverlayScrolling''"
  | "toByteArray Gtk_SessionBusId = ''Gtk/SessionBusId''"
  | "toByteArray Gtk_ShowUnicodeMenu = ''Gtk/ShowUnicodeMenu''"
  | "toByteArray Gtk_CursorBlinkTimeout = ''Gtk/CursorBlinkTimeout''"
  | "toByteArray Gtk_ButtonImages = ''Gtk/ButtonImages''"
  | "toByteArray Gtk_TitlebarRightClick = ''Gtk/TitlebarRightClick''"
  | "toByteArray Gtk_TitlebarDoubleClick = ''Gtk/TitlebarDoubleClick''"
  | "toByteArray Gtk_TitlebarMiddleClick = ''Gtk/TitlebarMiddleClick''"
  | "toByteArray Gtk_MonospaceFontName = ''Gtk/MonospaceFontName''"
  | "toByteArray Gtk_ApplicationPreferDarkTheme = ''Gtk/ApplicationPreferDarkTheme''"
  | "toByteArray Gtk_PrimaryButtonWarpsSlider = ''Gtk/PrimaryButtonWarpsSlider''"
  | "toByteArray Net_DndDragThreshold = ''Net/DndDragThreshold''"
  | "toByteArray Net_CursorBlinkTime = ''Net/CursorBlinkTime''"
  | "toByteArray Net_ThemeName = ''Net/ThemeName''"
  | "toByteArray Net_DoubleClickTime = ''Net/DoubleClickTime''"
  | "toByteArray Net_CursorBlink = ''Net/CursorBlink''"
  | "toByteArray Net_FallbackIconTheme = ''Net/FallbackIconTheme''"
  | "toByteArray Net_EnableEventSounds = ''Net/EnableEventSounds''"
  | "toByteArray Net_IconThemeName = ''Net/IconThemeName''"
  | "toByteArray Net_SoundThemeName = ''Net/SoundThemeName''"
  | "toByteArray Net_EnableInputFeedbackSounds = ''Net/EnableInputFeedbackSounds''"
  | "toByteArray Net_PreferDarkTheme = ''Net/PreferDarkTheme''"

section \<open>Reading and writing a setting\<close>

definition isEmpty :: "xsettings \<Rightarrow> bool" where
  "isEmpty xs = (m_settings xs = [])"

definition xs_contains :: "bytes \<Rightarrow> xsettings \<Rightarrow> bool" where
  "xs_contains p xs = qhas (m_settings xs) p"

definition getPropertyValue :: "bytes \<Rightarrow> xsettings \<Rightarrow> qvariant" where
  "getPropertyValue p xs = (case qget (m_settings xs) p of None \<Rightarrow> Invalid | Some x \<Rightarrow> xv_value x)"

definition setPropertyValue :: "bytes \<Rightarrow> qvariant \<Rightarrow> xsettings \<Rightarrow> xsettings" where
  "setPropertyValue p v xs =
     (let m = qtouch p newXSettingsPropertyValue (m_settings xs);
          x = qval m p newXSettingsPropertyValue in
      if variant_eq (xv_value x) v then xs\<lparr>m_settings := m\<rparr>
      else if v = Invalid then xs\<lparr>m_settings := m\<rparr>
      else xs\<lparr>m_settings := qput p (snd (updateValue v (int32 (last_change_serial x + 1)) x)) m,
              m_serial := int32 (m_serial xs + 1)\<rparr>)"

definition propertyList :: "xsettings \<Rightarrow> bytes list" where
  "propertyList xs = map fst (m_settings xs)"

section \<open>Integers as bytes\<close>

text \<open>\<open>order\<close> is the byte order of the machine: \<open>True\<close> when the most significant byte comes first.\<close>

fun le_bytes :: "nat \<Rightarrow> nat \<Rightarrow> bytes" where
    "le_bytes 0 n = []"
  | "le_bytes (Suc k) n = char_of (n mod 256) # le_bytes k (n div 256)"

fun le_value :: "bytes \<Rightarrow> nat" where
    "le_value [] = 0"
  | "le_value (c # cs) = of_char c + 256 * le_value cs"

definition put_uint :: "bool \<Rightarrow> nat \<Rightarrow> nat \<Rightarrow> bytes" where
  "put_uint order k n = (if order then rev (le_bytes k n) else le_bytes k n)"

definition get_uint :: "bool \<Rightarrow> bytes \<Rightarrow> nat" where
  "get_uint order bs = le_value (if order then rev bs else bs)"

definition put_int :: "bool \<Rightarrow> int \<Rightarrow> bytes" where
  "put_int order i = put_uint order 4 (nat (i mod 2 ^ 32))"

definition get_int :: "bool \<Rightarrow> bytes \<Rightarrow> int" where
  "get_int order bs = int32 (int (get_uint order bs))"

definition NUL :: char where
  "NUL = CHR 0x00"

section \<open>Encoding\<close>

text \<open>The three types of a setting on the wire: \<^verbatim>\<open>XSettingsTypeInteger\<close>, \<^verbatim>\<open>XSettingsTypeString\<close>, \<^verbatim>\<open>XSettingsTypeColor\<close>.\<close>

datatype XSettingsType = XSettingsTypeInteger | XSettingsTypeString | XSettingsTypeColor

definition type_byte :: "XSettingsType \<Rightarrow> char" where
  "type_byte t = (case t of XSettingsTypeInteger \<Rightarrow> CHR 0x00 | XSettingsTypeString \<Rightarrow> CHR 0x01 | XSettingsTypeColor \<Rightarrow> CHR 0x02)"

fun type_of_value :: "qvariant \<Rightarrow> XSettingsType" where
    "type_of_value (VColor r g b a) = XSettingsTypeColor"
  | "type_of_value VColorInvalid = XSettingsTypeColor"
  | "type_of_value (VInt i) = XSettingsTypeInteger"
  | "type_of_value (VBool b) = XSettingsTypeInteger"
  | "type_of_value v = XSettingsTypeString"

text \<open>The text, the integer and the colour of a value, as \<^verbatim>\<open>toByteArray\<close>, \<^verbatim>\<open>toInt\<close> and \<^verbatim>\<open>qvariant_cast\<close> give
  them for the types they are called on.\<close>

fun toText :: "(real \<Rightarrow> bytes) \<Rightarrow> qvariant \<Rightarrow> bytes" where
    "toText real_text (VString s) = s"
  | "toText real_text (VByteArray s) = s"
  | "toText real_text (VReal r) = real_text r"
  | "toText real_text v = []"

fun toInt :: "qvariant \<Rightarrow> int" where
    "toInt (VInt i) = i"
  | "toInt (VBool b) = (if b then 1 else 0)"
  | "toInt v = 0"

fun toColor :: "qvariant \<Rightarrow> nat \<times> nat \<times> nat \<times> nat" where
    "toColor (VColor r g b a) = (r, g, b, a)"
  | "toColor v = (0, 0, 0, 0)"

definition padding :: "nat \<Rightarrow> bytes" where
  "padding n = replicate (3 - (n + 3) mod 4) NUL"

definition value_data :: "bool \<Rightarrow> (real \<Rightarrow> bytes) \<Rightarrow> qvariant \<Rightarrow> bytes" where
  "value_data order real_text v =
     (case type_of_value v of
        XSettingsTypeInteger \<Rightarrow> put_int order (toInt v)
      | XSettingsTypeColor \<Rightarrow>
          (case toColor v of (r, g, b, a) \<Rightarrow>
             put_uint order 2 r @ put_uint order 2 g @ put_uint order 2 b @ put_uint order 2 a)
      | XSettingsTypeString \<Rightarrow>
          (let s = toText real_text v in
           put_uint order 4 (length s) @ s @ padding (length s)))"

text \<open>\<^verbatim>\<open>append(key.constData())\<close> stops at a zero byte of the key.\<close>

definition put_entry :: "bool \<Rightarrow> (real \<Rightarrow> bytes) \<Rightarrow> bytes \<times> xsvalue \<Rightarrow> bytes" where
  "put_entry order real_text e =
     (case e of (key, value) \<Rightarrow>
        if xv_value value = Invalid then []
        else
          let key_size = length key mod 2 ^ 16 in
          [type_byte (type_of_value (xv_value value)), NUL] @ put_uint order 2 key_size
          @ takeWhile (\<lambda>c. c \<noteq> NUL) key @ padding key_size
          @ put_int order (last_change_serial value) @ value_data order real_text (xv_value value))"

definition depopulateSettings :: "bool \<Rightarrow> (real \<Rightarrow> bytes) \<Rightarrow> xsettings \<Rightarrow> bytes" where
  "depopulateSettings order real_text xs =
     (let number_of_settings = length (filter (\<lambda>e. xv_value (snd e) \<noteq> Invalid) (m_settings xs)) in
      if number_of_settings = 0 then []
      else [if order then CHR 0x01 else CHR 0x00, NUL, NUL, NUL] @ put_int order (m_serial xs)
           @ put_uint order 4 number_of_settings @ concat (map (put_entry order real_text) (m_settings xs)))"

section \<open>Decoding\<close>

definition round_to_nearest_multiple_of_4 :: "int \<Rightarrow> int" where
  "round_to_nearest_multiple_of_4 value =
     (let remainder = value smod 4 in if remainder = 0 then value else value + 4 - remainder)"

text \<open>\<open>Inr None\<close> is the early \<^verbatim>\<open>return\<close> of \<^verbatim>\<open>VALIDATE_LENGTH\<close>. \<open>look n\<close> reads \<open>n\<close> bytes at \<^verbatim>\<open>data + offset + local_offset\<close>,
  where \<^verbatim>\<open>data\<close> is 12 bytes behind the start of the array; addresses wrap like \<^verbatim>\<open>size_t\<close>.\<close>

definition vbind :: "'a option result \<Rightarrow> ('a \<Rightarrow> 'b option result) \<Rightarrow> 'b option result" where
  "vbind m f = rbind m (\<lambda>x. case x of None \<Rightarrow> Inr None | Some a \<Rightarrow> f a)"

definition validate_length :: "bytes \<Rightarrow> int \<Rightarrow> int \<Rightarrow> int \<Rightarrow> unit option result" where
  "validate_length b offset local_offset x =
     (if int (length b) < size64 (offset + local_offset + 12 + x) then Inr None else Inr (Some ()))"

definition look :: "bytes \<Rightarrow> int \<Rightarrow> int \<Rightarrow> nat \<Rightarrow> bytes option result" where
  "look b offset local_offset n =
     (let i = size64 (12 + (offset + local_offset)) in
      if nat i + n \<le> length b then Inr (Some (take n (drop (nat i) b))) else Inl OutOfBounds)"

text \<open>\<^verbatim>\<open>QByteArray(data, n)\<close> with a negative \<open>n\<close> takes the text up to the next zero byte; there is always
  one right after the array.\<close>

definition look_text :: "bytes \<Rightarrow> int \<Rightarrow> int \<Rightarrow> int \<Rightarrow> bytes option result" where
  "look_text b offset local_offset n =
     (if n < 0
      then let i = size64 (12 + (offset + local_offset)) in
           if nat i \<le> length b then Inr (Some (takeWhile (\<lambda>c. c \<noteq> NUL) (drop (nat i) b))) else Inl OutOfBounds
      else look b offset local_offset (nat n))"

definition makeColor :: "nat \<Rightarrow> nat \<Rightarrow> nat \<Rightarrow> nat \<Rightarrow> qvariant" where
  "makeColor r g b a = (if r \<le> 255 \<and> g \<le> 255 \<and> b \<le> 255 \<and> a \<le> 255 then VColor r g b a else VColorInvalid)"

text \<open>The value at \<^verbatim>\<open>data + offset + local_offset\<close> with the offset behind it.\<close>

definition get_value :: "bytes \<Rightarrow> bool \<Rightarrow> char \<Rightarrow> int \<Rightarrow> int \<Rightarrow> (qvariant \<times> int) option result" where
  "get_value b order t offset local_offset =
     (if t = type_byte XSettingsTypeString then
        vbind (validate_length b offset local_offset 4) (\<lambda>_.
        vbind (look b offset local_offset 4) (\<lambda>bs.
        let value_length = get_int order bs; local_offset = int32 (local_offset + 4) in
        vbind (validate_length b offset local_offset value_length) (\<lambda>_.
        vbind (look_text b offset local_offset value_length) (\<lambda>s.
        Inr (Some (VByteArray s, int32 (local_offset + round_to_nearest_multiple_of_4 value_length)))))))
      else if t = type_byte XSettingsTypeInteger then
        vbind (validate_length b offset local_offset 4) (\<lambda>_.
        vbind (look b offset local_offset 4) (\<lambda>bs.
        Inr (Some (VInt (get_int order bs), int32 (local_offset + 4)))))
      else if t = type_byte XSettingsTypeColor then
        vbind (validate_length b offset local_offset (2 * 4)) (\<lambda>_.
        vbind (look b offset local_offset 2) (\<lambda>red.
        vbind (look b offset (int32 (local_offset + 2)) 2) (\<lambda>green.
        vbind (look b offset (int32 (local_offset + 4)) 2) (\<lambda>blue.
        vbind (look b offset (int32 (local_offset + 6)) 2) (\<lambda>alpha.
        Inr (Some (makeColor (get_uint order red) (get_uint order green) (get_uint order blue) (get_uint order alpha),
                   int32 (local_offset + 8))))))))
      else Inr (Some (Invalid, local_offset)))"

definition get_entry :: "bytes \<Rightarrow> bool \<Rightarrow> int \<Rightarrow> (bytes \<times> qvariant \<times> int \<times> int) option result" where
  "get_entry b order offset =
     vbind (validate_length b offset 0 2) (\<lambda>_.
     vbind (look b offset 0 1) (\<lambda>t.
     vbind (validate_length b offset 2 2) (\<lambda>_.
     vbind (look b offset 2 2) (\<lambda>n.
     let name_len = get_uint order n in
     vbind (validate_length b offset 4 (int name_len)) (\<lambda>_.
     vbind (look b offset 4 name_len) (\<lambda>name.
     let local_offset = int32 (4 + round_to_nearest_multiple_of_4 (int name_len)) in
     vbind (validate_length b offset local_offset 4) (\<lambda>_.
     vbind (look b offset local_offset 4) (\<lambda>ser.
     vbind (get_value b order (hd t) offset (int32 (local_offset + 4))) (\<lambda>(value, local_offset).
     Inr (Some (name, value, get_int order ser, local_offset)))))))))))"

text \<open>The loop over the settings. The result is the set of names, or none when the loop returned early.\<close>

fun get_entries ::
  "nat \<Rightarrow> bytes \<Rightarrow> bool \<Rightarrow> int \<Rightarrow> bytes set \<Rightarrow> (bytes, xsvalue) qmap \<Rightarrow> (bytes set option \<times> (bytes, xsvalue) qmap) result" where
    "get_entries 0 b order offset keys m = Inr (Some keys, m)"
  | "get_entries (Suc n) b order offset keys m =
       rbind (get_entry b order offset) (\<lambda>e. case e of
         None \<Rightarrow> Inr (None, m)
       | Some (name, value, ser, local_offset) \<Rightarrow>
           get_entries n b order (size64 (offset + local_offset)) (insert name keys)
             (qput name (snd (updateValue value ser (qval m name newXSettingsPropertyValue))) m))"

definition populateSettings :: "bytes \<Rightarrow> xsettings \<Rightarrow> xsettings result" where
  "populateSettings b xs =
     (if length b < 12 then Inr xs
      else
        let byteOrder = b ! 0 in
        if byteOrder \<noteq> CHR 0x00 \<and> byteOrder \<noteq> CHR 0x01 then Inr xs
        else
          let order = (byteOrder = CHR 0x01);
              xs = xs\<lparr>m_serial := get_int order (take 4 (drop 4 b))\<rparr>;
              number_of_settings = get_uint order (take 4 (drop 8 b)) in
          rbind (get_entries number_of_settings b order 0 {} (m_settings xs)) (\<lambda>(keys, m).
          case keys of
            None \<Rightarrow> Inr (xs\<lparr>m_settings := m\<rparr>)
          | Some keys \<Rightarrow> Inr (xs\<lparr>m_settings := filter (\<lambda>e. fst e \<in> keys) m\<rparr>)))"

section \<open>Integers and padding\<close>

lemma int32_id [simp]: "- (2 ^ 31) \<le> n \<Longrightarrow> n < 2 ^ 31 \<Longrightarrow> int32 n = n"
  by (simp add: int32_def signed_take_bit_int_eq_self)

lemma int32_range: "- (2 ^ 31) \<le> int32 n" "int32 n < 2 ^ 31"
  using signed_take_bit_int_greater_eq_minus_exp [of 31 n] signed_take_bit_int_less_exp [of 31 n]
  by (simp_all add: int32_def)

lemma int32_mod: "int32 (n mod 2 ^ 32) = int32 n"
  using signed_take_bit_take_bit [of 31 32 n] by (simp add: int32_def take_bit_eq_mod)

lemma length_le_bytes [simp]: "length (le_bytes k n) = k"
  by (induction k arbitrary: n) auto

lemma le_value_le_bytes [simp]: "le_value (le_bytes k n) = n mod 256 ^ k"
proof (induction k arbitrary: n)
  case (Suc k)
  have "n mod 256 ^ Suc k = 256 * (n div 256 mod 256 ^ k) + n mod 256"
    by (simp only: power_Suc mod_mult2_eq)
  then show ?case by (simp only: le_bytes.simps le_value.simps Suc.IH of_char_of mod_mod_trivial add.commute)
qed simp

lemma of_char_less: "(of_char c :: nat) < 256"
  using of_char_of [where 'a = nat, of "of_char c"] by (metis char_of_char mod_less_divisor zero_less_numeral)

lemma le_value_less: "le_value bs < 256 ^ length bs"
proof (induction bs)
  case (Cons c cs)
  then have "le_value cs + 1 \<le> 256 ^ length cs" by simp
  have "of_char c + 256 * le_value cs < 256 * (le_value cs + 1)" using of_char_less [of c] by simp
  also have "\<dots> \<le> 256 * 256 ^ length cs" using \<open>le_value cs + 1 \<le> _\<close> by (rule mult_le_mono2)
  finally show ?case by simp
qed simp

lemma length_put_uint [simp]: "length (put_uint order k n) = k"
  by (simp add: put_uint_def)

lemma get_put_uint [simp]: "get_uint order (put_uint order k n) = n mod 256 ^ k"
  by (simp add: put_uint_def get_uint_def)

lemma get_uint_less: "get_uint order bs < 256 ^ length bs"
  using le_value_less [of "rev bs"] le_value_less [of bs] by (simp add: get_uint_def)

lemma length_put_int [simp]: "length (put_int order i) = 4"
  by (simp add: put_int_def)

lemma get_put_int: "get_int order (put_int order i) = int32 i"
proof -
  have n: "nat (i mod 2 ^ 32) < 256 ^ 4" by simp
  have "get_uint order (put_int order i) = nat (i mod 2 ^ 32)"
    unfolding put_int_def get_put_uint by (rule mod_less [OF n])
  then have "int (get_uint order (put_int order i)) = i mod 2 ^ 32" by simp
  then show ?thesis by (simp only: get_int_def int32_mod)
qed

lemma round4_bounds:
  "n \<le> round_to_nearest_multiple_of_4 n" "round_to_nearest_multiple_of_4 n \<le> n + 7"
proof -
  have "n smod 4 < 4" "- 4 < n smod 4" using smod_int_range [where a = n and b = 4] by auto
  then show "n \<le> round_to_nearest_multiple_of_4 n" "round_to_nearest_multiple_of_4 n \<le> n + 7"
    by (auto simp: round_to_nearest_multiple_of_4_def Let_def)
qed

lemma round4_nat: "round_to_nearest_multiple_of_4 (int n) = int (n + length (padding n))"
proof -
  have "3 - (n + 3) mod 4 = (if n mod 4 = 0 then 0 else 4 - n mod 4)"
    by (cases "n mod 4 = 0"; cases "n mod 4 = 1"; cases "n mod 4 = 2"; simp) presburger+
  moreover have "int n mod 4 = int (n mod 4)" by (simp add: zmod_int)
  moreover have "n mod 4 < 4" by simp
  ultimately show ?thesis
    by (simp add: round_to_nearest_multiple_of_4_def padding_def Let_def smod_mod_positive)
qed

section \<open>Reading inside the array\<close>

text \<open>A place in the array is its distance \<open>i\<close> from the start; \<^verbatim>\<open>offset\<close> is 12 less, modulo the size of the
  address space.\<close>

definition offset_of :: "int \<Rightarrow> int" where
  "offset_of i = size64 (i - 12)"

lemma size64_small [simp]: "0 \<le> n \<Longrightarrow> n < 2 ^ 63 \<Longrightarrow> size64 n = n"
  by (simp add: size64_def)

lemma size64_negative: "- (2 ^ 63) < n \<Longrightarrow> n < 0 \<Longrightarrow> 2 ^ 63 < size64 n"
proof -
  assume n: "- (2 ^ 63) < n" "n < 0"
  have "n mod 2 ^ 64 = (n + 2 ^ 64) mod 2 ^ 64" by simp
  also have "\<dots> = n + 2 ^ 64" using n by (intro mod_pos_pos_trivial) auto
  finally show ?thesis using n by (simp add: size64_def)
qed

lemma offset_of_add: "size64 (offset_of i + j) = offset_of (i + j)"
  unfolding offset_of_def size64_def by (simp only: mod_add_left_eq) (simp add: algebra_simps)

lemma offset_sum: "size64 (offset_of i + lo + 12 + x) = size64 (i + lo + x)"
  "size64 (12 + (offset_of i + lo)) = size64 (i + lo)"
proof -
  have "size64 (offset_of i + (lo + 12 + x)) = size64 (i + lo + x)" "size64 (offset_of i + (lo + 12)) = size64 (i + lo)"
    unfolding offset_of_add by (simp_all add: offset_of_def algebra_simps)
  then show "size64 (offset_of i + lo + 12 + x) = size64 (i + lo + x)"
    "size64 (12 + (offset_of i + lo)) = size64 (i + lo)"
    by (simp_all add: algebra_simps)
qed

lemma validate_at:
  assumes "0 \<le> i" "0 \<le> lo" "i + lo \<le> 2 ^ 40" "- (2 ^ 31) \<le> x" "x < 2 ^ 31" "length b < 2 ^ 30"
  shows "validate_length b (offset_of i) lo x =
    (if 0 \<le> i + lo + x \<and> i + lo + x \<le> int (length b) then Inr (Some ()) else Inr None)"
proof (cases "0 \<le> i + lo + x")
  case True
  with assms show ?thesis by (simp add: validate_length_def offset_sum)
next
  case False
  then have "2 ^ 63 < size64 (i + lo + x)"
    using assms by (intro size64_negative) auto
  with False assms show ?thesis by (simp add: validate_length_def offset_sum)
qed

lemma look_at:
  assumes "0 \<le> i" "0 \<le> lo" "i + lo + int n \<le> int (length b)" "length b < 2 ^ 30"
  shows "look b (offset_of i) lo n = Inr (Some (take n (drop (nat (i + lo)) b)))"
proof -
  have "size64 (i + lo) = i + lo" using assms by simp
  with assms show ?thesis by (auto simp: look_def offset_sum Let_def nat_le_iff)
qed

lemma vbind_simps [simp, xs_defs]:
  "vbind (Inr None) f = Inr None" "vbind (Inr (Some a)) f = f a" "vbind (Inl e) f = Inl e"
  by (simp_all add: vbind_def)

text \<open>What a value and an entry of an array never do: they do not read outside of it, and the place
  behind them is not before its start.\<close>

lemma look_text_ok:
  assumes "0 \<le> i" "0 \<le> lo" "i + lo \<le> int (length b)" "i + lo + n \<le> int (length b)" "length b < 2 ^ 30"
  shows "\<exists>s. look_text b (offset_of i) lo n = Inr (Some s)"
proof (cases "n < 0")
  case True
  have "size64 (i + lo) = i + lo" using assms by simp
  with True assms show ?thesis by (simp add: look_text_def offset_sum Let_def nat_le_iff)
next
  case False
  then show ?thesis using look_at [of i lo "nat n" b] assms by (simp add: look_text_def)
qed

lemma get_int_range: "- (2 ^ 31) \<le> get_int order bs" "get_int order bs < 2 ^ 31"
  unfolding get_int_def by (rule int32_range)+

lemma get_value_ok:
  assumes "0 \<le> i" "0 \<le> lo" "lo \<le> 2 ^ 17" "i + lo \<le> int (length b)" "length b < 2 ^ 30"
  shows "get_value b order t (offset_of i) lo = Inr None
    \<or> (\<exists>v lo'. get_value b order t (offset_of i) lo = Inr (Some (v, lo')) \<and> 0 \<le> i + lo' \<and> i + lo' \<le> int (length b) + 7)"
proof -
  have i: "i + lo \<le> 2 ^ 40" "i + (lo + 4) \<le> 2 ^ 40" using assms by simp_all
  have wrap: "int32 (lo + k) = lo + k" if "0 \<le> k" "k \<le> 8" for k using assms that by simp
  note validate = validate_at [OF assms(1,2) i(1) _ _ assms(5)]
  note at = look_at [OF assms(1) _ _ assms(5)]
  consider (string) "t = type_byte XSettingsTypeString" | (integer) "t = type_byte XSettingsTypeInteger"
    | (color) "t = type_byte XSettingsTypeColor"
    | (unknown) "t \<noteq> type_byte XSettingsTypeString" "t \<noteq> type_byte XSettingsTypeInteger" "t \<noteq> type_byte XSettingsTypeColor"
    by blast
  then show ?thesis
  proof cases
    case string
    show ?thesis
    proof (cases "i + lo + 4 \<le> int (length b)")
      case True
      define vl where "vl = get_int order (take 4 (drop (nat (i + lo)) b))"
      have vl: "- (2 ^ 31) \<le> vl" "vl < 2 ^ 31" unfolding vl_def by (rule get_int_range)+
      have at4: "look b (offset_of i) lo 4 = Inr (Some (take 4 (drop (nat (i + lo)) b)))"
        using at [of lo 4] True assms(2) by simp
      have v4: "validate_length b (offset_of i) (lo + 4) vl =
          (if 0 \<le> i + (lo + 4) + vl \<and> i + (lo + 4) + vl \<le> int (length b) then Inr (Some ()) else Inr None)"
        using validate_at [OF assms(1) _ i(2) vl assms(5)] assms(2) by simp
      show ?thesis
      proof (cases "0 \<le> i + (lo + 4) + vl \<and> i + (lo + 4) + vl \<le> int (length b)")
        case ok: True
        obtain s where s: "look_text b (offset_of i) (lo + 4) vl = Inr (Some s)"
          using look_text_ok [of i "lo + 4" b vl] ok True assms by auto
        have r: "0 \<le> i + (lo + 4 + round_to_nearest_multiple_of_4 vl)"
          "i + (lo + 4 + round_to_nearest_multiple_of_4 vl) \<le> int (length b) + 7"
          using ok round4_bounds [of vl] by linarith+
        then have "int32 (lo + 4 + round_to_nearest_multiple_of_4 vl) = lo + 4 + round_to_nearest_multiple_of_4 vl"
          using assms i by simp
        with r string True ok s at4 v4 show ?thesis
          by (simp add: get_value_def validate wrap Let_def flip: vl_def)
      next
        case False
        with string True at4 v4 show ?thesis
          by (simp add: get_value_def validate wrap Let_def flip: vl_def)
      qed
    next
      case False
      then show ?thesis using string by (simp add: get_value_def validate)
    qed
  next
    case integer
    then show ?thesis using assms(2) at [of lo 4]
      by (auto simp: get_value_def validate wrap type_byte_def)
  next
    case color
    then show ?thesis using assms(2) at [of lo 2] at [of "lo + 2" 2] at [of "lo + 4" 2] at [of "lo + 6" 2]
      by (auto simp: get_value_def validate wrap type_byte_def)
  next
    case unknown
    then show ?thesis using assms by (simp add: get_value_def)
  qed
qed

lemma get_entry_ok:
  assumes "0 \<le> i" "i \<le> int (length b) + 7" "length b < 2 ^ 30"
  shows "get_entry b order (offset_of i) = Inr None
    \<or> (\<exists>name v ser lo. get_entry b order (offset_of i) = Inr (Some (name, v, ser, lo)) \<and> 0 \<le> i + lo \<and> i + lo \<le> int (length b) + 7)"
proof -
  have vi: "validate_length b (offset_of i) lo x = (if i + lo + x \<le> int (length b) then Inr (Some ()) else Inr None)"
    if "0 \<le> lo" "lo \<le> 2 ^ 17" "0 \<le> x" "x < 2 ^ 31" for lo x
    using validate_at [of i lo x b] assms that by simp
  note at = look_at [OF assms(1) _ _ assms(3)]
  show ?thesis
  proof (cases "i + 4 \<le> int (length b)")
    case False
    then have "i + 2 \<le> int (length b) \<Longrightarrow> get_entry b order (offset_of i) = Inr None"
      using vi [of 0 2] vi [of 2 2] at [of 0 1] by (simp add: get_entry_def)
    moreover have "\<not> i + 2 \<le> int (length b) \<Longrightarrow> get_entry b order (offset_of i) = Inr None"
      using vi [of 0 2] by (simp add: get_entry_def)
    ultimately show ?thesis by blast
  next
    case True
    define n where "n = get_uint order (take 2 (drop (nat (i + 2)) b))"
    define lo where "lo = 4 + round_to_nearest_multiple_of_4 (int n)"
    have n: "n < 2 ^ 16" using get_uint_less [of order "take 2 (drop (nat (i + 2)) b)"] True assms
      by (simp add: n_def)
    have lo: "0 \<le> lo" "lo \<le> 2 ^ 17 - 8" "int n + 4 \<le> lo" using n round4_bounds [of "int n"] by (simp_all add: lo_def)
    have start: "validate_length b (offset_of i) 0 2 = Inr (Some ())" "validate_length b (offset_of i) 2 2 = Inr (Some ())"
      "\<exists>t. look b (offset_of i) 0 1 = Inr (Some t)" "look b (offset_of i) 2 2 = Inr (Some (take 2 (drop (nat (i + 2)) b)))"
      using True vi [of 0 2] vi [of 2 2] at [of 0 1] at [of 2 2] by simp_all
    show ?thesis
    proof (cases "i + 4 + int n \<le> int (length b) \<and> i + lo + 4 \<le> int (length b)")
      case False
      then show ?thesis
        using start vi [of 4 "int n"] n at [of 4 n] vi [of lo 4] lo
        by (auto simp: get_entry_def Let_def simp flip: n_def lo_def)
    next
      case ok: True
      have wrap: "int32 lo = lo" "int32 (lo + 4) = lo + 4" using lo by simp_all
      obtain t where "look b (offset_of i) 0 1 = Inr (Some t)" using start(3) by blast
      then show ?thesis
        using get_value_ok [of i "lo + 4" b order "hd t"] start vi [of 4 "int n"] n at [of 4 n] vi [of lo 4] at [of lo 4] lo ok assms
        by (auto simp: get_entry_def Let_def wrap simp flip: n_def lo_def)
    qed
  qed
qed

lemma get_entries_ok:
  assumes "0 \<le> i" "i \<le> int (length b) + 7" "length b < 2 ^ 30"
  shows "is_ok (get_entries n b order (offset_of i) keys m)"
  using assms(1,2)
proof (induction n arbitrary: i keys m)
  case (Suc n)
  from get_entry_ok [OF Suc.prems assms(3), of order] show ?case
    using Suc.IH by (auto simp: offset_of_add)
qed simp

text \<open>C22: Decoding a settings property never reads outside of it, whatever its bytes are, negative and
  oversized lengths and truncated entries among them: \<^verbatim>\<open>populateSettings\<close> returns. A property that
  is too short or has no valid byte order changes nothing.\<close>

theorem populate_reads_in_range:
  assumes "length b < 2 ^ 30"
  shows "is_ok (populateSettings b xs)
    \<and> (length b < 12 \<or> b ! 0 \<notin> {CHR 0x00, CHR 0x01} \<longrightarrow> populateSettings b xs = Inr xs)"
proof -
  consider (unchanged) "length b < 12 \<or> b ! 0 \<notin> {CHR 0x00, CHR 0x01}"
    | (decode) "\<not> length b < 12" "b ! 0 \<in> {CHR 0x00, CHR 0x01}" by blast
  then show ?thesis
  proof cases
    case unchanged
    then show ?thesis by (auto simp: populateSettings_def Let_def)
  next
    case decode
    then have "is_ok (get_entries n b order 0 {} m)" for n order m
      using get_entries_ok [of 12 b n order "{}" m] assms by (simp add: offset_of_def)
    then obtain keys m where
      "get_entries (get_uint (b ! 0 = CHR 0x01) (take 4 (drop 8 b))) b (b ! 0 = CHR 0x01) 0 {} (m_settings xs) = Inr (keys, m)"
      by (metis is_ok_simps(2) old.sum.exhaust surj_pair)
    with decode show ?thesis by (cases keys) (auto simp: populateSettings_def Let_def)
  qed
qed

text \<open>A property with one string setting \<open>a\<close> whose length is given as \<open>-1\<close>: the text up to the next
  zero byte is taken.\<close>

definition negative_length_property :: bytes where
  "negative_length_property =
     map char_of [0, 0, 0, 0, 5, 0, 0, 0, 1, 0, 0, 0,  1, 0, 1, 0, 97, 0, 0, 0, 3, 0, 0, 0, 255, 255, 255, 255 :: nat]"

theorem populate_reads_in_range_witness: "is_ok (populateSettings negative_length_property newXSettings)"
  using populate_reads_in_range [of negative_length_property newXSettings] by (simp add: negative_length_property_def)

section \<open>Decoding what was encoded\<close>

text \<open>A key and a value that the encoding can express.\<close>

definition key_ok :: "bytes \<Rightarrow> bool" where
  "key_ok k = (length k < 2 ^ 16 \<and> NUL \<notin> set k)"

fun value_ok :: "qvariant \<Rightarrow> bool" where
    "value_ok (VInt i) = (- (2 ^ 31) \<le> i \<and> i < 2 ^ 31)"
  | "value_ok (VColor r g b a) = (r \<le> 255 \<and> g \<le> 255 \<and> b \<le> 255 \<and> a \<le> 255)"
  | "value_ok v = True"

text \<open>What is left of a value on the wire.\<close>

fun wire :: "(real \<Rightarrow> bytes) \<Rightarrow> qvariant \<Rightarrow> qvariant" where
    "wire real_text (VBool b) = VInt (if b then 1 else 0)"
  | "wire real_text (VString s) = VByteArray s"
  | "wire real_text (VReal r) = VByteArray (real_text r)"
  | "wire real_text VColorInvalid = VColor 0 0 0 0"
  | "wire real_text v = v"

lemma look_in:
  assumes "b = pre @ bs @ post" "i + lo = int (length pre)" "0 \<le> i" "0 \<le> lo" "n = length bs" "length b < 2 ^ 30"
  shows "look b (offset_of i) lo n = Inr (Some bs)"
  using look_at [of i lo n b] assms by simp

lemma validate_in:
  assumes "b = pre @ bs @ post" "i + lo = int (length pre)" "0 \<le> i" "0 \<le> lo" "0 \<le> x" "x \<le> int (length bs)" "length b < 2 ^ 30"
  shows "validate_length b (offset_of i) lo x = Inr (Some ())"
  using validate_at [of i lo x b] assms by simp

lemma get_value_put:
  assumes b: "b = pre @ value_data order real_text v @ post" and place: "i + lo = int (length pre)" "0 \<le> i" "0 \<le> lo"
    and len: "length b < 2 ^ 30" and v: "value_ok v" "v \<noteq> Invalid"
  shows "get_value b order (type_byte (type_of_value v)) (offset_of i) lo
    = Inr (Some (wire real_text v, lo + int (length (value_data order real_text v))))"
proof (cases "type_of_value v")
  case XSettingsTypeInteger
  define d where "d = put_int order (toInt v)"
  have "value_data order real_text v = d" by (simp add: value_data_def XSettingsTypeInteger d_def)
  with b have b: "b = pre @ d @ post" by simp
  have "lo + 4 < 2 ^ 31" using b place len by (simp add: d_def)
  then have wrap: "int32 (lo + 4) = lo + 4" using place by simp
  have "get_int order d = toInt v" "wire real_text v = VInt (toInt v)" using XSettingsTypeInteger v
    by (cases v; simp add: d_def get_put_int)+
  then show ?thesis
    using look_in [OF b place, of 4] validate_in [OF b place, of 4] len \<open>value_data order real_text v = d\<close>
    by (simp add: get_value_def XSettingsTypeInteger type_byte_def wrap) (simp add: d_def)
next
  case XSettingsTypeColor
  obtain r g l a where c: "toColor v = (r, g, l, a)" by (cases "toColor v")
  have le: "r \<le> 255" "g \<le> 255" "l \<le> 255" "a \<le> 255" "wire real_text v = VColor r g l a"
    using XSettingsTypeColor v c by (cases v; simp)+
  let ?u = "put_uint order 2"
  have vd: "value_data order real_text v = ?u r @ ?u g @ ?u l @ ?u a"
    by (simp add: value_data_def XSettingsTypeColor c)
  have small: "lo + 8 < 2 ^ 31" using b place len by (simp add: vd)
  have wrap: "int32 (lo + 2) = lo + 2" "int32 (lo + 4) = lo + 4" "int32 (lo + 6) = lo + 6" "int32 (lo + 8) = lo + 8"
    using small place by simp_all
  have reads: "look b (offset_of i) lo 2 = Inr (Some (?u r))"
    "look b (offset_of i) (lo + 2) 2 = Inr (Some (?u g))"
    "look b (offset_of i) (lo + 4) 2 = Inr (Some (?u l))"
    "look b (offset_of i) (lo + 6) 2 = Inr (Some (?u a))"
    using look_in [of b pre "?u r" "?u g @ ?u l @ ?u a @ post" i lo 2]
      look_in [of b "pre @ ?u r" "?u g" "?u l @ ?u a @ post" i "lo + 2" 2]
      look_in [of b "pre @ ?u r @ ?u g" "?u l" "?u a @ post" i "lo + 4" 2]
      look_in [of b "pre @ ?u r @ ?u g @ ?u l" "?u a" post i "lo + 6" 2] b place len
    by (simp_all add: vd)
  have "get_uint order (?u k) = k" if "k \<le> 255" for k using that by simp
  then show ?thesis
    using reads validate_in [OF b place, of 8] len le
    by (simp add: get_value_def XSettingsTypeColor type_byte_def wrap vd makeColor_def)
next
  case XSettingsTypeString
  define s where "s = toText real_text v"
  let ?n = "put_uint order 4 (length s)"
  have w: "wire real_text v = VByteArray s" using XSettingsTypeString v by (cases v) (simp_all add: s_def)
  have vd: "value_data order real_text v = ?n @ s @ padding (length s)"
    by (simp add: value_data_def XSettingsTypeString s_def Let_def)
  have small: "lo + 4 + int (length s + length (padding (length s))) < 2 ^ 31" using b place len by (simp add: vd)
  then have wrap: "int32 (lo + 4) = lo + 4" using place by simp
  have "length s < 2 ^ 30" using b len by (simp add: vd)
  then have n: "get_int order ?n = int (length s)" by (simp add: get_int_def)
  have "round_to_nearest_multiple_of_4 (int (length s)) = int (length s + length (padding (length s)))" by (rule round4_nat)
  moreover have "look b (offset_of i) lo 4 = Inr (Some ?n)" "validate_length b (offset_of i) lo 4 = Inr (Some ())"
    using look_in [of b pre ?n "s @ padding (length s) @ post" i lo 4]
      validate_in [of b pre ?n "s @ padding (length s) @ post" i lo 4] b place len by (simp_all add: vd)
  moreover have "look b (offset_of i) (lo + 4) (length s) = Inr (Some s)"
    "validate_length b (offset_of i) (lo + 4) (int (length s)) = Inr (Some ())"
    using look_in [of b "pre @ ?n" s "padding (length s) @ post" i "lo + 4" "length s"]
      validate_in [of b "pre @ ?n" s "padding (length s) @ post" i "lo + 4" "int (length s)"] b place len by (simp_all add: vd)
  ultimately show ?thesis
    using small place
    by (simp add: get_value_def XSettingsTypeString wrap n look_text_def w vd Let_def)
qed

lemma get_entry_put:
  assumes b: "b = pre @ put_entry order real_text (k, x) @ post" and i: "i = int (length pre)"
    and len: "length b < 2 ^ 30" and ok: "key_ok k" "value_ok (xv_value x)" "xv_value x \<noteq> Invalid"
    and ser: "- (2 ^ 31) \<le> last_change_serial x" "last_change_serial x < 2 ^ 31"
  shows "get_entry b order (offset_of i) = Inr (Some (k, wire real_text (xv_value x), last_change_serial x,
           int (length (put_entry order real_text (k, x)))))"
proof -
  let ?t = "[type_byte (type_of_value (xv_value x)), NUL]" and ?n = "put_uint order 2 (length k)"
    and ?p = "padding (length k)" and ?s = "put_int order (last_change_serial x)"
    and ?v = "value_data order real_text (xv_value x)"
  have k: "length k mod 65536 = length k" "takeWhile (\<lambda>c. c \<noteq> NUL) k = k"
    using ok(1) by (auto simp: key_ok_def takeWhile_eq_all_conv)
  have pe: "put_entry order real_text (k, x) = ?t @ ?n @ k @ ?p @ ?s @ ?v"
    using ok(3) by (simp add: put_entry_def k Let_def)
  have n: "get_uint order ?n = length k" using ok(1) by (simp add: key_ok_def)
  define lo where "lo = 4 + int (length k + length ?p)"
  have lo: "0 \<le> lo" "lo + 8 < 2 ^ 31" using b len by (simp_all add: lo_def pe)
  then have wrap: "int32 lo = lo" "int32 (lo + 4) = lo + 4" by simp_all
  have r: "4 + round_to_nearest_multiple_of_4 (int (length k)) = lo" by (simp only: round4_nat lo_def)
  have "validate_length b (offset_of i) 0 2 = Inr (Some ())" "look b (offset_of i) 0 1 = Inr (Some [hd ?t])"
    using validate_in [of b pre ?t "?n @ k @ ?p @ ?s @ ?v @ post" i 0 2]
      look_in [of b pre "[hd ?t]" "[NUL] @ ?n @ k @ ?p @ ?s @ ?v @ post" i 0 1] b i len by (simp_all add: pe)
  moreover have "validate_length b (offset_of i) 2 2 = Inr (Some ())" "look b (offset_of i) 2 2 = Inr (Some ?n)"
    using validate_in [of b "pre @ ?t" ?n "k @ ?p @ ?s @ ?v @ post" i 2 2]
      look_in [of b "pre @ ?t" ?n "k @ ?p @ ?s @ ?v @ post" i 2 2] b i len by (simp_all add: pe)
  moreover have "validate_length b (offset_of i) 4 (int (length k)) = Inr (Some ())" "look b (offset_of i) 4 (length k) = Inr (Some k)"
    using validate_in [of b "pre @ ?t @ ?n" k "?p @ ?s @ ?v @ post" i 4 "int (length k)"]
      look_in [of b "pre @ ?t @ ?n" k "?p @ ?s @ ?v @ post" i 4 "length k"] b i len by (simp_all add: pe)
  moreover have "validate_length b (offset_of i) lo 4 = Inr (Some ())" "look b (offset_of i) lo 4 = Inr (Some ?s)"
    using validate_in [of b "pre @ ?t @ ?n @ k @ ?p" ?s "?v @ post" i lo 4]
      look_in [of b "pre @ ?t @ ?n @ k @ ?p" ?s "?v @ post" i lo 4] b i len by (simp_all add: pe lo_def)
  moreover have "get_value b order (hd ?t) (offset_of i) (lo + 4)
      = Inr (Some (wire real_text (xv_value x), lo + 4 + int (length ?v)))"
    using get_value_put [of b "pre @ ?t @ ?n @ k @ ?p @ ?s" order real_text "xv_value x" post i "lo + 4"] b i len ok(2,3)
    by (simp add: pe lo_def)
  moreover have "get_int order ?s = last_change_serial x" using ser by (simp add: get_put_int)
  ultimately show ?thesis
    by (simp add: get_entry_def n k(1) r wrap Let_def flip: lo_def) (simp add: pe lo_def)
qed

text \<open>Decoding the entries of an encoded dictionary stores them one by one.\<close>

definition settings_ok :: "(bytes, xsvalue) qmap \<Rightarrow> bool" where
  "settings_ok m = (\<forall>(k, x)\<in>set m. xv_value x \<noteq> Invalid \<longrightarrow>
     key_ok k \<and> value_ok (xv_value x) \<and> 0 \<le> last_change_serial x \<and> last_change_serial x < 2 ^ 31)"

definition valid_entries :: "(bytes, xsvalue) qmap \<Rightarrow> (bytes, xsvalue) qmap" where
  "valid_entries m = filter (\<lambda>e. xv_value (snd e) \<noteq> Invalid) m"

definition decode_entry ::
  "(real \<Rightarrow> bytes) \<Rightarrow> bytes \<times> xsvalue \<Rightarrow> (bytes, xsvalue) qmap \<Rightarrow> (bytes, xsvalue) qmap" where
  "decode_entry real_text e m =
     qput (fst e) (snd (updateValue (wire real_text (xv_value (snd e))) (last_change_serial (snd e))
       (qval m (fst e) newXSettingsPropertyValue))) m"

lemma get_entries_put:
  assumes "b = pre @ concat (map (put_entry order real_text) es)" "settings_ok es" "length b < 2 ^ 30"
  shows "get_entries (length (valid_entries es)) b order (offset_of (int (length pre))) keys m
    = Inr (Some (keys \<union> fst ` set (valid_entries es)), fold (decode_entry real_text) (valid_entries es) m)"
  using assms(1,2)
proof (induction es arbitrary: pre keys m)
  case (Cons e es)
  obtain k x where e: "e = (k, x)" by (cases e)
  have es: "settings_ok es" using Cons.prems(2) by (simp add: settings_ok_def)
  show ?case
  proof (cases "xv_value x = Invalid")
    case True
    then have "put_entry order real_text e = []" "valid_entries (e # es) = valid_entries es"
      by (simp_all add: e put_entry_def valid_entries_def)
    with Cons.IH [of pre keys m] Cons.prems es show ?thesis by simp
  next
    case False
    let ?pe = "put_entry order real_text (k, x)"
    have "get_entry b order (offset_of (int (length pre)))
        = Inr (Some (k, wire real_text (xv_value x), last_change_serial x, int (length ?pe)))"
      using get_entry_put [of b pre order real_text k x "concat (map (put_entry order real_text) es)" "int (length pre)"]
        Cons.prems assms(3) False by (simp add: e settings_ok_def)
    moreover have "valid_entries (e # es) = (k, x) # valid_entries es" using False by (simp add: e valid_entries_def)
    moreover note Cons.IH [of "pre @ ?pe" "insert k keys" "decode_entry real_text (k, x) m"]
    ultimately show ?thesis using Cons.prems es
      by (simp add: e offset_of_add decode_entry_def)
  qed
qed (simp add: valid_entries_def)

lemma qget_decode_other:
  "p \<notin> fst ` set es \<Longrightarrow> qget (fold (decode_entry real_text) es m) p = qget m p"
  by (induction es arbitrary: m) (auto simp: decode_entry_def)

lemma qget_decode:
  assumes "distinct (map fst es)" "\<forall>e\<in>set es. 0 \<le> last_change_serial (snd e)" "\<forall>e\<in>set es. qget m (fst e) = None" "(p, x) \<in> set es"
  shows "qget (fold (decode_entry real_text) es m) p
    = Some \<lparr>xv_value = wire real_text (xv_value x), last_change_serial = last_change_serial x\<rparr>"
  using assms
proof (induction es arbitrary: m)
  case (Cons e es)
  show ?case
  proof (cases "e = (p, x)")
    case True
    then show ?thesis using Cons.prems
      by (simp add: qget_decode_other) (simp add: decode_entry_def updateValue_def qval_def newXSettingsPropertyValue_def)
  next
    case False
    have "qget (decode_entry real_text e m) (fst e') = None" if "e' \<in> set es" for e'
    proof -
      have "fst e \<noteq> fst e'" using that Cons.prems(1) by (metis distinct.simps(2) image_eqI list.simps(9) list.set_map)
      then show ?thesis using that Cons.prems(3) by (simp add: decode_entry_def)
    qed
    with False Cons show ?thesis by (simp add: Cons.IH)
  qed
qed simp

lemma populate_depopulate:
  assumes m: "qok (m_settings xs)" "settings_ok (m_settings xs)" "valid_entries (m_settings xs) \<noteq> []"
    and ser: "- (2 ^ 31) \<le> m_serial xs" "m_serial xs < 2 ^ 31"
    and len: "length (depopulateSettings order real_text xs) < 2 ^ 30"
  shows "\<exists>ys. populateSettings (depopulateSettings order real_text xs) newXSettings = Inr ys
    \<and> m_serial ys = m_serial xs \<and> (\<forall>p. getPropertyValue p ys = wire real_text (getPropertyValue p xs))"
proof -
  let ?es = "valid_entries (m_settings xs)" and ?body = "concat (map (put_entry order real_text) (m_settings xs))"
  let ?head = "[if order then CHR 0x01 else CHR 0x00, NUL, NUL, NUL]"
  define b where "b = depopulateSettings order real_text xs"
  have b: "b = ?head @ put_int order (m_serial xs) @ put_uint order 4 (length ?es) @ ?body"
    using m(3) by (simp add: b_def depopulateSettings_def valid_entries_def)
  define ys where "ys = newXSettings\<lparr>m_serial := m_serial xs, m_settings :=
    filter (\<lambda>e. fst e \<in> fst ` set ?es) (fold (decode_entry real_text) ?es [])\<rparr>"
  have "length (filter (\<lambda>e. xv_value (snd e) \<noteq> Invalid) es) \<le> length (concat (map (put_entry order real_text) es))" for es
    by (induction es) (auto simp: put_entry_def Let_def split: prod.splits)
  then have "length ?es \<le> length ?body" by (simp add: valid_entries_def)
  then have n: "get_uint order (put_uint order 4 (length ?es)) = length ?es" using len b by (simp flip: b_def)
  have "get_entries (length ?es) b order (offset_of 12) {} [] = Inr (Some (fst ` set ?es), fold (decode_entry real_text) ?es [])"
    using get_entries_put [of b "?head @ put_int order (m_serial xs) @ put_uint order 4 (length ?es)" order real_text
        "m_settings xs" "{}" "[]"] m(2) len b by (simp flip: b_def)
  moreover have "\<not> length b < 12" "b ! 0 = CHR 0x00 \<or> b ! 0 = CHR 0x01" "(b ! 0 = CHR 0x01) = order"
    "take 4 (drop 4 b) = put_int order (m_serial xs)" "take 4 (drop 8 b) = put_uint order 4 (length ?es)"
    by (simp_all add: b)
  moreover have "get_int order (put_int order (m_serial xs)) = m_serial xs" using ser by (simp add: get_put_int)
  moreover have "offset_of 12 = 0" by (simp add: offset_of_def)
  ultimately have "populateSettings b newXSettings = Inr ys"
    using n by (auto simp: populateSettings_def Let_def newXSettings_def ys_def simp del: get_put_uint)
  moreover have "getPropertyValue p ys = wire real_text (getPropertyValue p xs)" for p
  proof -
    have dist: "distinct (map fst ?es)" using qok_distinct [OF m(1)] by (simp add: valid_entries_def distinct_map_filter)
    have filtered: "qget (filter (\<lambda>e. fst e \<in> K) q) p = (if p \<in> K then qget q p else None)" for K and q :: "(bytes, xsvalue) qmap"
      by (induction q) auto
    show ?thesis
    proof (cases "\<exists>x. (p, x) \<in> set ?es")
      case True
      then obtain x where x: "(p, x) \<in> set ?es" by blast
      then have "qget (m_settings xs) p = Some x" using qget_iff_in_set [OF m(1)] by (simp add: valid_entries_def)
      moreover have "qget (fold (decode_entry real_text) ?es []) p
          = Some \<lparr>xv_value = wire real_text (xv_value x), last_change_serial = last_change_serial x\<rparr>"
        using m(2) by (intro qget_decode [OF dist _ _ x]) (auto simp: settings_ok_def valid_entries_def)
      ultimately show ?thesis using x by (force simp: getPropertyValue_def ys_def filtered)
    next
      case False
      then have "getPropertyValue p xs = Invalid"
        using qget_iff_in_set [OF m(1)] by (auto simp: getPropertyValue_def valid_entries_def split: option.splits)
      then show ?thesis using False by (force simp: getPropertyValue_def ys_def filtered)
    qed
  qed
  ultimately show ?thesis by (auto simp: b_def ys_def)
qed

text \<open>Settings made by \<^verbatim>\<open>setPropertyValue\<close>.\<close>

definition set_all :: "(bytes \<times> qvariant) list \<Rightarrow> xsettings" where
  "set_all ups = fold (\<lambda>(p, v). setPropertyValue p v) ups newXSettings"

lemma set_qput_subset: "set (qput p y l) \<subseteq> insert (p, y) (set l)"
  by (induction l) auto

definition xs_entry_ok :: "nat \<Rightarrow> bytes \<times> xsvalue \<Rightarrow> bool" where
  "xs_entry_ok n e = (key_ok (fst e) \<and> value_ok (xv_value (snd e)) \<and> last_change_serial (snd e) < int n
     \<and> (if xv_value (snd e) = Invalid then last_change_serial (snd e) = -1 else 0 \<le> last_change_serial (snd e)))"

definition xs_inv :: "nat \<Rightarrow> xsettings \<Rightarrow> bool" where
  "xs_inv n xs = (qok (m_settings xs) \<and> - (2 ^ 31) \<le> m_serial xs \<and> m_serial xs < 2 ^ 31
     \<and> (\<forall>e\<in>set (m_settings xs). xs_entry_ok n e))"

lemma xs_entry_ok_Suc: "xs_entry_ok n e \<Longrightarrow> xs_entry_ok (Suc n) e"
  by (auto simp: xs_entry_ok_def)

lemma xs_entries_put:
  assumes "\<forall>e\<in>set l. xs_entry_ok n e" "xs_entry_ok n (p, y)"
  shows "\<forall>e\<in>set (qput p y l). xs_entry_ok n e"
  using assms set_qput_subset [of p y l] by blast

lemma setPropertyValue_inv:
  assumes inv: "xs_inv n xs" and p: "key_ok p" "value_ok v" and n: "Suc n < 2 ^ 31"
  shows "xs_inv (Suc n) (setPropertyValue p v xs)"
proof -
  define x where "x = qval (m_settings xs) p newXSettingsPropertyValue"
  define m where "m = qtouch p newXSettingsPropertyValue (m_settings xs)"
  have new: "xs_entry_ok k (p, newXSettingsPropertyValue)" for k
    using p(1) by (simp add: xs_entry_ok_def newXSettingsPropertyValue_def)
  have old: "qok (m_settings xs)" "\<forall>e\<in>set (m_settings xs). xs_entry_ok (Suc n) e" "\<forall>e\<in>set (m_settings xs). xs_entry_ok n e"
    using inv xs_entry_ok_Suc unfolding xs_inv_def by blast+
  have m: "qok m" "\<forall>e\<in>set m. xs_entry_ok (Suc n) e"
    using old(1) xs_entries_put [OF old(2) new] old(2) by (simp_all add: m_def qtouch_def)
  have x: "qval m p newXSettingsPropertyValue = x" by (simp add: m_def x_def)
  have "xs_entry_ok n (p, x)"
    using qget_in_set [of "m_settings xs" p] old(3) new by (auto simp: x_def qval_def split: option.splits)
  then have xb: "- 1 \<le> last_change_serial x" "last_change_serial x < int n"
    by (auto simp: xs_entry_ok_def split: if_splits)
  then have i: "int32 (last_change_serial x + 1) = last_change_serial x + 1" using n by simp
  have "xs_entry_ok (Suc n) (p, snd (updateValue v (last_change_serial x + 1) x))" if "v \<noteq> Invalid"
    using that xb p by (simp add: updateValue_def xs_entry_ok_def)
  then have y: "v \<noteq> Invalid \<Longrightarrow> \<forall>e\<in>set (qput p (snd (updateValue v (last_change_serial x + 1) x)) m). xs_entry_ok (Suc n) e"
    by (rule xs_entries_put [OF m(2)])
  show ?thesis
  proof (cases "variant_eq (xv_value x) v \<or> v = Invalid")
    case True
    then have "setPropertyValue p v xs = xs\<lparr>m_settings := m\<rparr>"
      unfolding setPropertyValue_def m_def [symmetric] x Let_def by auto
    with m inv show ?thesis by (simp add: xs_inv_def)
  next
    case False
    then have "setPropertyValue p v xs = xs\<lparr>m_settings := qput p (snd (updateValue v (last_change_serial x + 1) x)) m,
        m_serial := int32 (m_serial xs + 1)\<rparr>"
      unfolding setPropertyValue_def m_def [symmetric] x Let_def i by auto
    with m y False int32_range [of "m_serial xs + 1"] show ?thesis by (simp add: xs_inv_def)
  qed
qed

lemma set_all_inv:
  assumes "\<forall>(p, v)\<in>set ups. key_ok p \<and> value_ok v" "length ups < 2 ^ 31"
  shows "xs_inv (length ups) (set_all ups)"
  using assms
proof (induction ups rule: rev_induct)
  case Nil
  show ?case by (simp add: set_all_def newXSettings_def xs_inv_def)
next
  case (snoc u ups)
  obtain p v where u: "u = (p, v)" by (cases u)
  have "xs_inv (length ups) (set_all ups)" using snoc by simp
  from setPropertyValue_inv [OF this, of p v] snoc.prems show ?case by (simp add: set_all_def u)
qed

lemma inv_round_trip:
  assumes inv: "xs_inv n xs" "n \<le> 2 ^ 31" and q: "getPropertyValue q xs \<noteq> Invalid"
    and len: "length (depopulateSettings order real_text xs) < 2 ^ 30"
  shows "\<exists>ys. populateSettings (depopulateSettings order real_text xs) newXSettings = Inr ys
    \<and> m_serial ys = m_serial xs \<and> (\<forall>p. getPropertyValue p ys = wire real_text (getPropertyValue p xs))"
proof -
  have ok: "qok (m_settings xs)" using inv by (simp add: xs_inv_def)
  have "settings_ok (m_settings xs)"
    using inv by (force simp: settings_ok_def xs_inv_def xs_entry_ok_def)
  moreover have "valid_entries (m_settings xs) \<noteq> []"
    using q qget_in_set [of "m_settings xs" q]
    by (force simp: getPropertyValue_def valid_entries_def filter_empty_conv split: option.splits)
  ultimately show ?thesis
    using populate_depopulate [OF ok _ _ _ _ len] inv by (simp add: xs_inv_def)
qed

text \<open>C21: What the compositor writes into the settings property reads back: whatever settings have been
  set, in whatever order and on machines of either byte order, decoding the encoded property into
  an empty dictionary gives the same serial and the same value for every name, where a boolean comes
  back as a number and a text as its bytes.\<close>

theorem xsettings_round_trip:
  assumes "\<forall>(p, v)\<in>set ups. key_ok p \<and> value_ok v" "length ups < 2 ^ 31"
    and "getPropertyValue q (set_all ups) \<noteq> Invalid"
    and "length (depopulateSettings order real_text (set_all ups)) < 2 ^ 30"
  shows "\<exists>ys. populateSettings (depopulateSettings order real_text (set_all ups)) newXSettings = Inr ys
    \<and> m_serial ys = m_serial (set_all ups)
    \<and> (\<forall>p. getPropertyValue p ys = wire real_text (getPropertyValue p (set_all ups)))"
  using inv_round_trip [OF set_all_inv [OF assms(1,2)] less_imp_le [OF assms(2)] assms(3,4)] .

text \<open>A theme and a double click time, with a time set twice.\<close>

definition example_settings :: "(bytes \<times> qvariant) list" where
  "example_settings = [(toByteArray Net_DoubleClickTime, VInt 300), (toByteArray Gtk_ThemeName, VString ''deepin''),
     (toByteArray Net_DoubleClickTime, VInt 400)]"

lemma example_settings_encoded:
  "getPropertyValue ''Net/DoubleClickTime'' (set_all example_settings) = VInt 400"
  "length (depopulateSettings False (\<lambda>_. []) (set_all example_settings)) = 80"
  by (simp_all add: example_settings_def set_all_def setPropertyValue_def newXSettings_def qtouch_def qhas_def
      qval_def variant_eq_def updateValue_def newXSettingsPropertyValue_def getPropertyValue_def Let_def
      depopulateSettings_def put_entry_def value_data_def padding_def NUL_def)

theorem xsettings_round_trip_witness:
  "\<exists>ys. populateSettings (depopulateSettings False (\<lambda>_. []) (set_all example_settings)) newXSettings = Inr ys
     \<and> getPropertyValue ''Net/DoubleClickTime'' ys = VInt 400"
proof -
  have "\<forall>(p, v)\<in>set example_settings. key_ok p \<and> value_ok v"
    by (simp add: example_settings_def key_ok_def NUL_def)
  from xsettings_round_trip [OF this, of "''Net/DoubleClickTime''" False "\<lambda>_. []"]
  obtain ys where ys: "populateSettings (depopulateSettings False (\<lambda>_. []) (set_all example_settings)) newXSettings = Inr ys"
    "\<forall>p. getPropertyValue p ys = wire (\<lambda>_. []) (getPropertyValue p (set_all example_settings))"
    using example_settings_encoded by (auto simp: example_settings_def [THEN arg_cong [where f = length]])
  have "getPropertyValue ''Net/DoubleClickTime'' ys = VInt 400"
    by (simp only: ys(2)[rule_format] example_settings_encoded(1) wire.simps)
  with ys(1) show ?thesis by blast
qed

section \<open>The names\<close>

lemma toByteArray_key_ok: "key_ok (toByteArray k)"
  by (cases k) (simp_all add: key_ok_def NUL_def)

end
