(* ===== verification/XResource.thy ===== *)
theory XResource
  imports XSettings
begin

text \<open>
  src/src/xsettings/xresource.cpp: the \<^verbatim>\<open>RESOURCE_MANAGER\<close> property of the root window, a text with
  one line per resource. \<^verbatim>\<open>apply\<close> writes it, \<^verbatim>\<open>reload\<close> reads it. Qt's text of a number that is not an
  integer and of a colour is the parameter \<open>other_text\<close>.
\<close>

section \<open>The resources\<close>

datatype XResourceKey =
    UnknownResource
  | R_Xft_DPI
  | R_Xft_Antialias
  | R_Xft_Hinting
  | R_Xft_HintStyle
  | R_Xft_RGBA
  | R_Xft_LCDFilter
  | R_Xcursor_Theme
  | R_Xcursor_Size
  | R_Xcursor_ThemeCore
  | R_Gtk_FontName
  | R_Gtk_ThemeName
  | R_Gtk_IconThemeName
  | R_Gtk_CursorThemeName
  | R_Gtk_CursorThemeSize
  | R_Gdk_WindowScalingFactor
  | R_Gdk_UnscaledDPI
  | R_Net_ThemeName
  | R_Net_IconThemeName
  | R_Net_SoundThemeName

fun res_toByteArray :: "XResourceKey \<Rightarrow> bytes" where
    "res_toByteArray UnknownResource = []"
  | "res_toByteArray R_Xft_DPI = ''Xft.dpi''"
  | "res_toByteArray R_Xft_Antialias = ''Xft.antialias''"
  | "res_toByteArray R_Xft_Hinting = ''Xft.hinting''"
  | "res_toByteArray R_Xft_HintStyle = ''Xft.hintstyle''"
  | "res_toByteArray R_Xft_RGBA = ''Xft.rgba''"
  | "res_toByteArray R_Xft_LCDFilter = ''Xft.lcdfilter''"
  | "res_toByteArray R_Xcursor_Theme = ''Xcursor.theme''"
  | "res_toByteArray R_Xcursor_Size = ''Xcursor.size''"
  | "res_toByteArray R_Xcursor_ThemeCore = ''Xcursor.theme_core''"
  | "res_toByteArray R_Gtk_FontName = ''Gtk/FontName''"
  | "res_toByteArray R_Gtk_ThemeName = ''Gtk/ThemeName''"
  | "res_toByteArray R_Gtk_IconThemeName = ''Gtk/IconThemeName''"
  | "res_toByteArray R_Gtk_CursorThemeName = ''Gtk/CursorThemeName''"
  | "res_toByteArray R_Gtk_CursorThemeSize = ''Gtk/CursorThemeSize''"
  | "res_toByteArray R_Gdk_WindowScalingFactor = ''Gdk/WindowScalingFactor''"
  | "res_toByteArray R_Gdk_UnscaledDPI = ''Gdk/UnscaledDPI''"
  | "res_toByteArray R_Net_ThemeName = ''Net/ThemeName''"
  | "res_toByteArray R_Net_IconThemeName = ''Net/IconThemeName''"
  | "res_toByteArray R_Net_SoundThemeName = ''Net/SoundThemeName''"

type_synonym xresource = "(bytes, qvariant) qmap"

definition res_isEmpty :: "xresource \<Rightarrow> bool" where
  "res_isEmpty r = (r = [])"

definition res_contains :: "bytes \<Rightarrow> xresource \<Rightarrow> bool" where
  "res_contains p r = qhas r p"

definition res_getPropertyValue :: "bytes \<Rightarrow> xresource \<Rightarrow> qvariant" where
  "res_getPropertyValue p r = (case qget r p of None \<Rightarrow> Invalid | Some v \<Rightarrow> v)"

definition res_setPropertyValue :: "bytes \<Rightarrow> qvariant \<Rightarrow> xresource \<Rightarrow> xresource" where
  "res_setPropertyValue p v r =
     (let r = qtouch p Invalid r in
      if variant_eq (qval r p Invalid) v then r
      else if v = Invalid then r
      else qput p v r)"

definition res_propertyList :: "xresource \<Rightarrow> bytes list" where
  "res_propertyList r = map fst r"

section \<open>Writing\<close>

fun nat_text :: "nat \<Rightarrow> bytes" where
  "nat_text n = (if n < 10 then [char_of (48 + n)] else nat_text (n div 10) @ [char_of (48 + n mod 10)])"

definition int_text :: "int \<Rightarrow> bytes" where
  "int_text i = (if i < 0 then CHR ''-'' # nat_text (nat (- i)) else nat_text (nat i))"

text \<open>\<^verbatim>\<open>QVariant::toString().toUtf8()\<close>.\<close>

fun toUtf8 :: "(qvariant \<Rightarrow> bytes) \<Rightarrow> qvariant \<Rightarrow> bytes" where
    "toUtf8 other_text Invalid = []"
  | "toUtf8 other_text (VString s) = s"
  | "toUtf8 other_text (VByteArray s) = s"
  | "toUtf8 other_text (VInt i) = int_text i"
  | "toUtf8 other_text (VBool b) = (if b then ''true'' else ''false'')"
  | "toUtf8 other_text v = other_text v"

definition NL :: char where "NL = CHR 0x0A"
definition TAB :: char where "TAB = CHR 0x09"

definition res_apply :: "(qvariant \<Rightarrow> bytes) \<Rightarrow> xresource \<Rightarrow> bytes" where
  "res_apply other_text r = concat (map (\<lambda>(key, value). key @ [CHR '':''] @ [TAB] @ toUtf8 other_text value @ [NL]) r)"

section \<open>Reading\<close>

text \<open>\<^verbatim>\<open>QByteArray::trimmed\<close>, \<^verbatim>\<open>split\<close> at a character and \<^verbatim>\<open>replace("\\:", ":")\<close>.\<close>

definition space :: "char \<Rightarrow> bool" where
  "space c = (c \<in> {CHR '' '', CHR 0x09, CHR 0x0A, CHR 0x0B, CHR 0x0C, CHR 0x0D})"

definition trimmed :: "bytes \<Rightarrow> bytes" where
  "trimmed s = rev (dropWhile space (rev (dropWhile space s)))"

definition backslash :: char where "backslash = CHR 0x5C"

fun unescape_colons :: "bytes \<Rightarrow> bytes" where
    "unescape_colons (x # y # xs) =
       (if x = backslash \<and> y = CHR '':'' then CHR '':'' # unescape_colons xs else x # unescape_colons (y # xs))"
  | "unescape_colons xs = xs"

text \<open>The loop that looks for the first colon that is not escaped: \<open>i\<close> is its index, the result \<^verbatim>\<open>pos\<close>.\<close>

fun find_colon :: "nat \<Rightarrow> bool \<Rightarrow> bytes \<Rightarrow> nat option" where
    "find_colon i escaped [] = None"
  | "find_colon i escaped (c # cs) =
       (if c = backslash then find_colon (Suc i) (\<not> escaped) cs
        else if c = CHR '':'' \<and> \<not> escaped then Some i
        else find_colon (Suc i) False cs)"

definition splitXResourceLine :: "bytes \<Rightarrow> bytes \<times> bytes" where
  "splitXResourceLine line =
     (case find_colon 0 False line of
        None \<Rightarrow> (trimmed line, [])
      | Some pos \<Rightarrow> (trimmed (take pos line), unescape_colons (trimmed (drop (pos + 1) line))))"

definition read_line :: "bytes \<Rightarrow> xresource \<Rightarrow> xresource" where
  "read_line line r =
     (if trimmed line = [] then r
      else case splitXResourceLine line of
        (key, value) \<Rightarrow> if key = [] then r else qput key (VString value) r)"

text \<open>\<open>reply\<close> is the text of the property, none when the server sends no reply.\<close>

definition reload :: "bytes option \<Rightarrow> xresource \<Rightarrow> xresource" where
  "reload reply r = (case reply of None \<Rightarrow> [] | Some text \<Rightarrow> fold read_line (split_at NL text) [])"

section \<open>Reading what was written\<close>

definition res_key_ok :: "bytes \<Rightarrow> bool" where
  "res_key_ok k = (k \<noteq> [] \<and> trimmed k = k \<and> NL \<notin> set k \<and> CHR '':'' \<notin> set k \<and> backslash \<notin> set k)"

definition res_text_ok :: "bytes \<Rightarrow> bool" where
  "res_text_ok s = (trimmed s = s \<and> NL \<notin> set s \<and> unescape_colons s = s)"

lemma split_at_Cons_ne: "split_at c xs \<noteq> []"
  by (induction xs) (auto split: list.splits)

lemma split_at_append: "c \<notin> set l \<Longrightarrow> split_at c (l @ c # rest) = l # split_at c rest"
  by (induction l) auto

lemma find_colon_key: "CHR '':'' \<notin> set k \<Longrightarrow> backslash \<notin> set k \<Longrightarrow> find_colon i False (k @ CHR '':'' # s) = Some (i + length k)"
  by (induction k arbitrary: i) (auto simp: backslash_def)

lemma trimmed_Cons_space: "space c \<Longrightarrow> trimmed (c # s) = trimmed s"
  by (simp add: trimmed_def)

lemma trimmed_line:
  assumes "k \<noteq> []" "trimmed k = k"
  shows "trimmed (k @ CHR '':'' # s) \<noteq> []"
proof -
  let ?l = "k @ CHR '':'' # s"
  have "CHR '':'' \<in> set ?l" "\<not> space (CHR '':'')" by (simp_all add: space_def)
  then have "dropWhile space ?l \<noteq> []" by (metis dropWhile_eq_Nil_conv)
  then have "hd (dropWhile space ?l) \<in> set (dropWhile space ?l)" "\<not> space (hd (dropWhile space ?l))"
    by (auto simp: hd_dropWhile)
  then show ?thesis by (metis dropWhile_eq_Nil_conv rev_is_Nil_conv set_rev trimmed_def)
qed

lemma read_line_written:
  assumes "res_key_ok k" "res_text_ok s"
  shows "read_line (k @ CHR '':'' # TAB # s) r = qput k (VString s) r"
proof -
  have "space TAB" by (simp add: space_def TAB_def)
  then have "splitXResourceLine (k @ CHR '':'' # TAB # s) = (k, s)"
    using assms by (simp add: splitXResourceLine_def res_key_ok_def res_text_ok_def find_colon_key trimmed_Cons_space)
  moreover have "trimmed (k @ CHR '':'' # TAB # s) \<noteq> []"
    using assms(1) by (intro trimmed_line) (simp_all add: res_key_ok_def)
  ultimately show ?thesis using assms(1) by (simp add: read_line_def res_key_ok_def)
qed

lemma split_written:
  assumes "\<forall>(k, v)\<in>set r. res_key_ok k \<and> res_text_ok (toUtf8 other_text v)"
  shows "split_at NL (res_apply other_text r)
    = map (\<lambda>(k, v). k @ CHR '':'' # TAB # toUtf8 other_text v) r @ [[]]"
  using assms
proof (induction r)
  case (Cons e r)
  obtain k v where e: "e = (k, v)" by (cases e)
  have "NL \<notin> set (k @ CHR '':'' # TAB # toUtf8 other_text v)"
    using Cons.prems by (auto simp: e res_key_ok_def res_text_ok_def NL_def TAB_def)
  from split_at_append [OF this] Cons show ?case by (simp add: e res_apply_def)
qed (simp add: res_apply_def)

lemma qput_last: "qok (m @ [(k, v)]) \<Longrightarrow> qput k w m = m @ [(k, w)]"
  by (induction m) (auto simp: qok_def)

lemma fold_read_lines:
  assumes "\<forall>(k, v)\<in>set r. res_key_ok k \<and> res_text_ok (toUtf8 other_text v)" "qok r"
  shows "fold read_line (map (\<lambda>(k, v). k @ CHR '':'' # TAB # toUtf8 other_text v) r) []
    = map (\<lambda>(k, v). (k, VString (toUtf8 other_text v))) r"
  using assms
proof (induction r rule: rev_induct)
  case (snoc e r)
  obtain k v where e: "e = (k, v)" by (cases e)
  let ?m = "map (\<lambda>(k, v). (k, VString (toUtf8 other_text v))) r"
  have "qok r" using snoc.prems(2) by (simp add: qok_def sorted_wrt_append)
  moreover have "qok (?m @ [(k, VString (toUtf8 other_text v))])"
    using snoc.prems(2) by (auto simp: e qok_def sorted_wrt_append sorted_wrt_map case_prod_unfold)
  ultimately show ?case using snoc by (simp add: e read_line_written qput_last)
qed simp

text \<open>The resources survive the way through the root window's property: what \<^verbatim>\<open>apply\<close> writes,
  \<^verbatim>\<open>reload\<close> reads back as the same names with the texts of their values, when the names are one word
  without colons and the texts have no line break, no space at their ends and no escaped colon.\<close>

theorem resources_round_trip:
  assumes "qok r" "\<forall>(k, v)\<in>set r. res_key_ok k \<and> res_text_ok (toUtf8 other_text v)"
  shows "reload (Some (res_apply other_text r)) r' = map (\<lambda>(k, v). (k, VString (toUtf8 other_text v))) r"
proof -
  have "read_line [] m = m" for m by (simp add: read_line_def trimmed_def)
  then show ?thesis
    by (simp add: reload_def split_written [OF assms(2)] fold_read_lines [OF assms(2,1)])
qed

lemma int_text_24: "int_text 24 = ''24''"
  by code_simp

theorem resources_round_trip_witness:
  "reload (Some (res_apply (\<lambda>_. []) [(res_toByteArray R_Xcursor_Size, VInt 24), (res_toByteArray R_Xcursor_Theme, VString ''Breeze: dark'')])) []
    = [(''Xcursor.size'', VString ''24''), (''Xcursor.theme'', VString ''Breeze: dark'')]"
  using resources_round_trip [of "[(res_toByteArray R_Xcursor_Size, VInt 24), (res_toByteArray R_Xcursor_Theme, VString ''Breeze: dark'')]"
      "\<lambda>_. []" "[]"]
  by (simp add: qok_def res_key_ok_def res_text_ok_def trimmed_def space_def NL_def backslash_def int_text_24)

text \<open>A text with an escaped colon does not survive: \<^verbatim>\<open>apply\<close> does not escape what \<^verbatim>\<open>reload\<close> unescapes,
  so that a value with a backslash before a colon loses the backslash.\<close>

theorem resource_backslash_lost:
  "reload (Some (res_apply other_text [(''Gtk/FontName'', VString [CHR ''a'', backslash, CHR '':'', CHR ''b''])])) r
    = [(''Gtk/FontName'', VString ''a:b'')]"
proof -
  have "split_at NL (res_apply other_text [(''Gtk/FontName'', VString [CHR ''a'', backslash, CHR '':'', CHR ''b''])])
    = [''Gtk/FontName'' @ CHR '':'' # TAB # [CHR ''a'', backslash, CHR '':'', CHR ''b''], []]"
    by (simp add: res_apply_def NL_def TAB_def backslash_def)
  then show ?thesis
    by (simp add: reload_def read_line_def splitXResourceLine_def trimmed_def space_def TAB_def backslash_def)
qed

end
