(* ===== verification/Setting_Manager.thy ===== *)
theory Setting_Manager
  imports XResource
begin

text \<open>
  src/src/xsettings/settingmanager.cpp: the settings of a session for its X11 clients, kept both as
  X resources and as X settings. Texts are UTF-8; \<open>other_text\<close> and \<open>text_real\<close> are Qt's conversions of
  numbers that are not integers to text and of texts to numbers.
\<close>

record setting_manager =
  stm_resource :: xresource
  stm_settings :: xsettings

definition newSettingManager :: setting_manager where
  "newSettingManager = \<lparr>stm_resource = [], stm_settings = newXSettings\<rparr>"

definition BASE_DPI :: int where "BASE_DPI = 96"
definition XSETTINGS_BASE_DPI_FIXED :: int where "XSETTINGS_BASE_DPI_FIXED = BASE_DPI * 1024"

text \<open>\<^verbatim>\<open>int(d + 0.5)\<close> and \<^verbatim>\<open>int(d - 0.5)\<close> truncate towards zero.\<close>

definition qRound :: "real \<Rightarrow> int" where
  "qRound d = (if 0 \<le> d then \<lfloor>d + 1 / 2\<rfloor> else \<lceil>d - 1 / 2\<rceil>)"

lemma qRound_close: "\<bar>of_int (qRound d) - d\<bar> \<le> 1 / 2"
proof (cases "0 \<le> d")
  case True
  have "of_int \<lfloor>d + 1 / 2\<rfloor> \<le> d + 1 / 2" "d + 1 / 2 < of_int \<lfloor>d + 1 / 2\<rfloor> + 1" by linarith+
  with True show ?thesis unfolding qRound_def abs_le_iff by simp linarith
next
  case False
  have "d - 1 / 2 \<le> of_int \<lceil>d - 1 / 2\<rceil>" "of_int \<lceil>d - 1 / 2\<rceil> < d - 1 / 2 + 1" by linarith+
  with False show ?thesis unfolding qRound_def abs_le_iff by simp linarith
qed

definition toReal :: "(qvariant \<Rightarrow> real) \<Rightarrow> qvariant \<Rightarrow> real" where
  "toReal text_real v = (case numeric v of Some r \<Rightarrow> r | None \<Rightarrow> text_real v)"

definition on_resource :: "XResourceKey \<Rightarrow> qvariant \<Rightarrow> setting_manager \<Rightarrow> setting_manager" where
  "on_resource k v M = M\<lparr>stm_resource := res_setPropertyValue (res_toByteArray k) v (stm_resource M)\<rparr>"

definition on_settings :: "XSettingsKey \<Rightarrow> qvariant \<Rightarrow> setting_manager \<Rightarrow> setting_manager" where
  "on_settings k v M = M\<lparr>stm_settings := setPropertyValue (toByteArray k) v (stm_settings M)\<rparr>"

definition setting :: "XSettingsKey \<Rightarrow> setting_manager \<Rightarrow> qvariant" where
  "setting k M = getPropertyValue (toByteArray k) (stm_settings M)"

definition setGTKTheme :: "bytes \<Rightarrow> setting_manager \<Rightarrow> setting_manager" where
  "setGTKTheme themeName M =
     on_settings Gtk_ThemeName (VString themeName) (on_resource R_Gtk_ThemeName (VString themeName) M)"

definition GTKTheme :: "(qvariant \<Rightarrow> bytes) \<Rightarrow> setting_manager \<Rightarrow> bytes" where
  "GTKTheme other_text M = toUtf8 other_text (setting Gtk_ThemeName M)"

definition setFont :: "bytes \<Rightarrow> setting_manager \<Rightarrow> setting_manager" where
  "setFont name M = on_settings Gtk_FontName (VString name) (on_resource R_Gtk_FontName (VString name) M)"

definition font :: "(qvariant \<Rightarrow> bytes) \<Rightarrow> setting_manager \<Rightarrow> bytes" where
  "font other_text M = toUtf8 other_text (setting Gtk_FontName M)"

definition setIconTheme :: "bytes \<Rightarrow> setting_manager \<Rightarrow> setting_manager" where
  "setIconTheme theme M =
     on_settings Gtk_IconThemeName (VString theme) (on_resource R_Gtk_IconThemeName (VString theme) M)"

definition iconTheme :: "(qvariant \<Rightarrow> bytes) \<Rightarrow> setting_manager \<Rightarrow> bytes" where
  "iconTheme other_text M = toUtf8 other_text (setting Gtk_IconThemeName M)"

definition setSoundTheme :: "bytes \<Rightarrow> setting_manager \<Rightarrow> setting_manager" where
  "setSoundTheme theme M =
     on_settings Net_SoundThemeName (VString theme) (on_resource R_Net_SoundThemeName (VString theme) M)"

definition soundTheme :: "(qvariant \<Rightarrow> bytes) \<Rightarrow> setting_manager \<Rightarrow> bytes" where
  "soundTheme other_text M = toUtf8 other_text (setting Net_SoundThemeName M)"

definition setCursorTheme :: "bytes \<Rightarrow> setting_manager \<Rightarrow> setting_manager" where
  "setCursorTheme theme M =
     on_settings Xcursor_Theme (VString theme) (on_settings Gtk_CursorThemeName (VString theme)
       (on_resource R_Xcursor_Theme (VString theme) (on_resource R_Gtk_CursorThemeName (VString theme) M)))"

definition cursorTheme :: "(qvariant \<Rightarrow> bytes) \<Rightarrow> setting_manager \<Rightarrow> bytes" where
  "cursorTheme other_text M =
     (let theme = setting Gtk_CursorThemeName M in
      if theme \<noteq> Invalid then toUtf8 other_text theme else toUtf8 other_text (setting Xcursor_Theme M))"

definition setCursorSize :: "real \<Rightarrow> setting_manager \<Rightarrow> setting_manager" where
  "setCursorSize value M =
     (let size = VInt (qRound value) in
      on_settings Gtk_CursorThemeSize size (on_settings Xcursor_Size size
        (on_resource R_Gtk_CursorThemeSize size (on_resource R_Xcursor_Size size M))))"

definition cursorSize :: "(qvariant \<Rightarrow> real) \<Rightarrow> setting_manager \<Rightarrow> real" where
  "cursorSize text_real M =
     (let size = setting Xcursor_Size M in
      if size \<noteq> Invalid then toReal text_real size else toReal text_real (setting Gtk_CursorThemeSize M))"

definition setDoubleClickInterval :: "int \<Rightarrow> setting_manager \<Rightarrow> setting_manager" where
  "setDoubleClickInterval interval M = on_settings Net_DoubleClickTime (VInt interval) M"

definition setGlobalScale :: "real \<Rightarrow> setting_manager \<Rightarrow> setting_manager" where
  "setGlobalScale scale M =
     on_settings Xft_DPI (VInt (qRound (scale * of_int XSETTINGS_BASE_DPI_FIXED)))
       (on_settings Gdk_UnscaledDPI (VInt XSETTINGS_BASE_DPI_FIXED)
         (on_settings Gdk_WindowScalingFactor (VInt \<lfloor>scale\<rfloor>)
           (on_resource R_Xft_DPI (VReal (scale * of_int BASE_DPI)) M)))"

definition globalScale :: "(qvariant \<Rightarrow> real) \<Rightarrow> setting_manager \<Rightarrow> real" where
  "globalScale text_real M = toReal text_real (setting Xft_DPI M) / of_int XSETTINGS_BASE_DPI_FIXED"

text \<open>The two properties \<^verbatim>\<open>apply\<close> writes.\<close>

definition stm_apply :: "bool \<Rightarrow> (qvariant \<Rightarrow> bytes) \<Rightarrow> (real \<Rightarrow> bytes) \<Rightarrow> setting_manager \<Rightarrow> bytes \<times> bytes" where
  "stm_apply order other_text real_text M =
     (res_apply other_text (stm_resource M), depopulateSettings order real_text (stm_settings M))"

section \<open>Sequences of changes\<close>

datatype change =
    GTKThemeChange bytes
  | FontChange bytes
  | IconThemeChange bytes
  | SoundThemeChange bytes
  | CursorThemeChange bytes
  | CursorSizeChange real
  | DoubleClickChange int
  | ScaleChange real

fun run_change :: "change \<Rightarrow> setting_manager \<Rightarrow> setting_manager" where
    "run_change (GTKThemeChange s) M = setGTKTheme s M"
  | "run_change (FontChange s) M = setFont s M"
  | "run_change (IconThemeChange s) M = setIconTheme s M"
  | "run_change (SoundThemeChange s) M = setSoundTheme s M"
  | "run_change (CursorThemeChange s) M = setCursorTheme s M"
  | "run_change (CursorSizeChange r) M = setCursorSize r M"
  | "run_change (DoubleClickChange i) M = setDoubleClickInterval i M"
  | "run_change (ScaleChange r) M = setGlobalScale r M"

definition run_changes :: "change list \<Rightarrow> setting_manager" where
  "run_changes cs = fold run_change cs newSettingManager"

text \<open>The numbers that fit their types.\<close>

definition fits :: "int \<Rightarrow> bool" where
  "fits i = (- (2 ^ 31) \<le> i \<and> i < 2 ^ 31)"

fun change_ok :: "change \<Rightarrow> bool" where
    "change_ok (CursorSizeChange r) = fits (qRound r)"
  | "change_ok (DoubleClickChange i) = fits i"
  | "change_ok (ScaleChange r) = (fits (qRound (r * of_int XSETTINGS_BASE_DPI_FIXED)) \<and> fits \<lfloor>r\<rfloor>)"
  | "change_ok c = True"

lemma xs_inv_mono: "xs_inv n xs \<Longrightarrow> n \<le> m \<Longrightarrow> xs_inv m xs"
  by (fastforce simp: xs_inv_def xs_entry_ok_def)

lemma on_settings_inv:
  assumes "xs_inv n (stm_settings M)" "value_ok v" "n < 2 ^ 31 - 1"
  shows "xs_inv (Suc n) (stm_settings (on_settings k v M))"
  using setPropertyValue_inv [OF assms(1) toByteArray_key_ok assms(2), of k] assms(3) by (simp add: on_settings_def)

lemma on_resource_settings [simp]: "stm_settings (on_resource k v M) = stm_settings M"
  by (simp add: on_resource_def)

lemma run_change_inv:
  assumes "xs_inv n (stm_settings M)" "change_ok c" "n + 4 < 2 ^ 31"
  shows "xs_inv (n + 4) (stm_settings (run_change c M))"
proof -
  have step: "\<exists>j \<le> i. xs_inv (n + j) (stm_settings N) \<Longrightarrow> value_ok v \<Longrightarrow> i < 4 \<Longrightarrow>
      \<exists>j \<le> Suc i. xs_inv (n + j) (stm_settings (on_settings q v N))" for i q v N
  proof -
    assume "\<exists>j \<le> i. xs_inv (n + j) (stm_settings N)" "value_ok v" "i < 4"
    then obtain j where "j \<le> i" "xs_inv (n + j) (stm_settings N)" by blast
    with on_settings_inv [OF this(2) \<open>value_ok v\<close>, of q] \<open>i < 4\<close> assms(3)
    show ?thesis by (intro exI [of _ "Suc j"]) simp
  qed
  have start: "\<exists>j \<le> 0. xs_inv (n + j) (stm_settings M)" using assms(1) by simp
  have num: "value_ok (VInt i)" if "fits i" for i using that by (simp add: fits_def)
  have base: "fits XSETTINGS_BASE_DPI_FIXED" by (simp add: XSETTINGS_BASE_DPI_FIXED_def BASE_DPI_def fits_def)
  have relax: "\<exists>j \<le> i. xs_inv (n + j) (stm_settings N) \<Longrightarrow> i \<le> 4 \<Longrightarrow> \<exists>j \<le> 4. xs_inv (n + j) (stm_settings N)" for i N
    by (meson le_trans)
  have "\<exists>j \<le> 4. xs_inv (n + j) (stm_settings (run_change c M))"
  proof (cases c)
    case (ScaleChange r)
    then have ok: "fits (qRound (r * of_int XSETTINGS_BASE_DPI_FIXED))" "fits \<lfloor>r\<rfloor>" using assms(2) by simp_all
    have "\<exists>j \<le> Suc (Suc (Suc 0)). xs_inv (n + j) (stm_settings (run_change c M))"
      unfolding ScaleChange run_change.simps setGlobalScale_def
      by (intro step num ok base) (simp_all add: assms(1))
    then show ?thesis by (rule relax) simp
  next
    case (CursorThemeChange s)
    have "\<exists>j \<le> Suc (Suc 0). xs_inv (n + j) (stm_settings (run_change c M))"
      unfolding CursorThemeChange run_change.simps setCursorTheme_def
      by (intro step) (simp_all add: assms(1))
    then show ?thesis by (rule relax) simp
  next
    case (CursorSizeChange r)
    then have ok: "fits (qRound r)" using assms(2) by simp
    have "\<exists>j \<le> Suc (Suc 0). xs_inv (n + j) (stm_settings (run_change c M))"
      unfolding CursorSizeChange run_change.simps setCursorSize_def Let_def
      by (intro step num ok) (simp_all add: assms(1))
    then show ?thesis by (rule relax) simp
  next
    case (DoubleClickChange i)
    then have ok: "fits i" using assms(2) by simp
    have "\<exists>j \<le> Suc 0. xs_inv (n + j) (stm_settings (run_change c M))"
      unfolding DoubleClickChange run_change.simps setDoubleClickInterval_def
      by (intro step num ok start) simp
    then show ?thesis by (rule relax) simp
  next
    case (GTKThemeChange s)
    have "\<exists>j \<le> Suc 0. xs_inv (n + j) (stm_settings (run_change c M))"
      unfolding GTKThemeChange run_change.simps setGTKTheme_def
      by (intro step) (simp_all add: assms(1))
    then show ?thesis by (rule relax) simp
  next
    case (FontChange s)
    have "\<exists>j \<le> Suc 0. xs_inv (n + j) (stm_settings (run_change c M))"
      unfolding FontChange run_change.simps setFont_def
      by (intro step) (simp_all add: assms(1))
    then show ?thesis by (rule relax) simp
  next
    case (IconThemeChange s)
    have "\<exists>j \<le> Suc 0. xs_inv (n + j) (stm_settings (run_change c M))"
      unfolding IconThemeChange run_change.simps setIconTheme_def
      by (intro step) (simp_all add: assms(1))
    then show ?thesis by (rule relax) simp
  next
    case (SoundThemeChange s)
    have "\<exists>j \<le> Suc 0. xs_inv (n + j) (stm_settings (run_change c M))"
      unfolding SoundThemeChange run_change.simps setSoundTheme_def
      by (intro step) (simp_all add: assms(1))
    then show ?thesis by (rule relax) simp
  qed
  then obtain j where "j \<le> 4" "xs_inv (n + j) (stm_settings (run_change c M))" by blast
  then show ?thesis using xs_inv_mono [of "n + j" _ "n + 4"] by simp
qed

lemma run_changes_inv:
  assumes "\<forall>c\<in>set cs. change_ok c" "length cs < 2 ^ 28"
  shows "xs_inv (4 * length cs) (stm_settings (run_changes cs))"
  using assms
proof (induction cs rule: rev_induct)
  case Nil
  show ?case by (simp add: run_changes_def newSettingManager_def newXSettings_def xs_inv_def)
next
  case (snoc c cs)
  then have "xs_inv (4 * length cs) (stm_settings (run_changes cs))" by simp
  from run_change_inv [OF this, of c] snoc.prems show ?case by (simp add: run_changes_def add.commute)
qed

section \<open>What the clients read\<close>

lemma setting_other: "toByteArray j \<noteq> toByteArray k \<Longrightarrow> setting j (on_settings k v M) = setting j M"
  by (simp add: setting_def on_settings_def getPropertyValue_def setPropertyValue_def Let_def qget_qtouch)

lemma setting_resource [simp]: "setting j (on_resource k v M) = setting j M"
  by (simp add: setting_def)

lemma setting_same:
  assumes "xs_inv n (stm_settings M)" "n < 2 ^ 31 - 1" "v \<noteq> Invalid"
  shows "variant_eq (setting k (on_settings k v M)) v \<and> setting k (on_settings k v M) \<noteq> Invalid"
proof -
  let ?x = "qval (m_settings (stm_settings M)) (toByteArray k) newXSettingsPropertyValue"
  have "\<forall>e\<in>set (m_settings (stm_settings M)). - 1 \<le> last_change_serial (snd e) \<and> last_change_serial (snd e) < int n"
    using assms(1) by (fastforce simp: xs_inv_def xs_entry_ok_def split: if_splits)
  then have "- 1 \<le> last_change_serial ?x \<and> last_change_serial ?x < int n + 1"
    using qget_in_set [of "m_settings (stm_settings M)" "toByteArray k"]
    by (fastforce simp: qval_def newXSettingsPropertyValue_def split: option.splits)
  then have i: "int32 (last_change_serial ?x + 1) = last_change_serial ?x + 1" using assms(2) by simp
  have refl: "variant_eq v v" by (simp add: variant_eq_def split: option.splits)
  have invalid: "\<not> variant_eq Invalid v" using assms(3) by (cases v) (simp_all add: variant_eq_def)
  show ?thesis
  proof (cases "variant_eq (xv_value ?x) v")
    case True
    then have "setting k (on_settings k v M) = xv_value ?x"
      by (auto simp: setting_def on_settings_def getPropertyValue_def setPropertyValue_def Let_def qget_qtouch qhas_iff
          qval_def newXSettingsPropertyValue_def invalid split: option.splits)
    with True invalid show ?thesis by metis
  next
    case False
    then have "setting k (on_settings k v M) = v" using assms(3) i
      by (simp add: setting_def on_settings_def getPropertyValue_def setPropertyValue_def Let_def updateValue_def)
    with refl assms(3) show ?thesis by simp
  qed
qed

lemma setting_text:
  assumes "xs_inv n (stm_settings M)" "n < 2 ^ 31 - 1"
  shows "setting k (on_settings k (VString s) M) = VString s"
  using setting_same [OF assms, of "VString s" k] by (simp add: variant_eq_def split: option.splits)

lemma setting_number:
  assumes "xs_inv n (stm_settings M)" "n < 2 ^ 31 - 1"
  shows "toReal text_real (setting k (on_settings k (VInt i) M)) = of_int i"
  using setting_same [OF assms, of "VInt i" k] by (auto simp: variant_eq_def toReal_def split: option.splits)

text \<open>The settings a change of a text is about.\<close>

fun text_settings :: "change \<Rightarrow> (XSettingsKey \<times> bytes) list" where
    "text_settings (GTKThemeChange s) = [(Gtk_ThemeName, s)]"
  | "text_settings (FontChange s) = [(Gtk_FontName, s)]"
  | "text_settings (IconThemeChange s) = [(Gtk_IconThemeName, s)]"
  | "text_settings (SoundThemeChange s) = [(Net_SoundThemeName, s)]"
  | "text_settings (CursorThemeChange s) = [(Gtk_CursorThemeName, s), (Xcursor_Theme, s)]"
  | "text_settings c = []"

lemma text_settings_set:
  assumes "xs_inv n (stm_settings M)" "n + 4 < 2 ^ 31" "(k, s) \<in> set (text_settings c)"
  shows "setting k (run_change c M) = VString s"
proof (cases c)
  case (CursorThemeChange u)
  let ?N = "on_resource R_Xcursor_Theme (VString u) (on_resource R_Gtk_CursorThemeName (VString u) M)"
  have N: "xs_inv n (stm_settings ?N)" "n < 2 ^ 31 - 1" using assms(1,2) by simp_all
  have N1: "xs_inv (Suc n) (stm_settings (on_settings Gtk_CursorThemeName (VString u) ?N))" "Suc n < 2 ^ 31 - 1"
    using on_settings_inv [OF N(1) _ N(2), of "VString u"] assms(2) by simp_all
  show ?thesis using assms(3)
    by (auto simp: CursorThemeChange setCursorTheme_def setting_text [OF N1] setting_text [OF N] setting_other)
next
  case (GTKThemeChange u)
  with assms show ?thesis using setting_text [of n "on_resource R_Gtk_ThemeName (VString u) M"] by (simp add: setGTKTheme_def)
next
  case (FontChange u)
  with assms show ?thesis using setting_text [of n "on_resource R_Gtk_FontName (VString u) M"] by (simp add: setFont_def)
next
  case (IconThemeChange u)
  with assms show ?thesis using setting_text [of n "on_resource R_Gtk_IconThemeName (VString u) M"] by (simp add: setIconTheme_def)
next
  case (SoundThemeChange u)
  with assms show ?thesis using setting_text [of n "on_resource R_Net_SoundThemeName (VString u) M"] by (simp add: setSoundTheme_def)
qed (use assms in simp_all)

text \<open>The X11 clients of a session get the texts that the session sets: whatever was set before,
  after a change of a theme, of the font or of the cursor theme the property that \<^verbatim>\<open>apply\<close> writes
  decodes to the new text under each of the names the change is about.\<close>

theorem text_settings_reach_clients:
  assumes "\<forall>c\<in>set (cs @ [c]). change_ok c" "length cs < 2 ^ 28" "(k, s) \<in> set (text_settings c)"
    and "length (snd (stm_apply order other_text real_text (run_changes (cs @ [c])))) < 2 ^ 30"
  shows "\<exists>ys. populateSettings (snd (stm_apply order other_text real_text (run_changes (cs @ [c])))) newXSettings = Inr ys
    \<and> getPropertyValue (toByteArray k) ys = VByteArray s"
proof -
  let ?M = "run_changes cs"
  have inv: "xs_inv (4 * length cs) (stm_settings ?M)" "4 * length cs + 4 < 2 ^ 31"
    using run_changes_inv [of cs] assms(1,2) by simp_all
  have M': "run_changes (cs @ [c]) = run_change c ?M" by (simp add: run_changes_def)
  have v: "setting k (run_change c ?M) = VString s" by (rule text_settings_set [OF inv assms(3)])
  have "xs_inv (4 * length cs + 4) (stm_settings (run_change c ?M))"
    using run_change_inv [OF inv(1) _ inv(2), of c] assms(1) by simp
  then obtain ys where ys: "populateSettings (depopulateSettings order real_text (stm_settings (run_change c ?M))) newXSettings = Inr ys"
    "\<forall>p. getPropertyValue p ys = wire real_text (getPropertyValue p (stm_settings (run_change c ?M)))"
    using inv_round_trip [of "4 * length cs + 4" "stm_settings (run_change c ?M)" "toByteArray k" order real_text] inv(2) v assms(4)
    by (auto simp: setting_def M' stm_apply_def)
  have "getPropertyValue (toByteArray k) ys = VByteArray s"
    using v by (simp only: ys(2)[rule_format]) (simp add: setting_def)
  with ys(1) show ?thesis by (simp add: M' stm_apply_def)
qed

theorem text_settings_reach_clients_witness:
  "\<exists>ys. populateSettings (snd (stm_apply True (\<lambda>_. []) (\<lambda>_. []) (run_changes ([DoubleClickChange 400] @ [FontChange ''Sans''])))) newXSettings = Inr ys
     \<and> getPropertyValue ''Gtk/FontName'' ys = VByteArray ''Sans''"
proof -
  have "length (snd (stm_apply True (\<lambda>_. []) (\<lambda>_. []) (run_changes ([DoubleClickChange 400] @ [FontChange ''Sans''])))) < 2 ^ 30"
    by (simp add: run_changes_def setDoubleClickInterval_def setFont_def on_settings_def on_resource_def
        newSettingManager_def stm_apply_def setPropertyValue_def newXSettings_def qtouch_def qhas_def qval_def
        variant_eq_def updateValue_def newXSettingsPropertyValue_def Let_def depopulateSettings_def put_entry_def
        value_data_def padding_def NUL_def)
  from text_settings_reach_clients [OF _ _ _ this, of Gtk_FontName "''Sans''"] show ?thesis by (simp add: fits_def)
qed

text \<open>Scale and cursor size read back: after \<^verbatim>\<open>setGlobalScale\<close> the scale that \<^verbatim>\<open>globalScale\<close> computes from
  the stored dots per inch differs from the one set by at most \<open>1 / 196608\<close>, and \<^verbatim>\<open>cursorSize\<close> is the
  rounded size that \<^verbatim>\<open>setCursorSize\<close> was given.\<close>

theorem scale_reads_back:
  assumes "\<forall>c\<in>set cs. change_ok c" "length cs < 2 ^ 28" "change_ok (ScaleChange scale)" "change_ok (CursorSizeChange v)"
  shows "\<bar>globalScale text_real (setGlobalScale scale (run_changes cs)) - scale\<bar> \<le> 1 / 196608
    \<and> cursorSize text_real (setCursorSize v (run_changes cs)) = of_int (qRound v)"
proof -
  let ?M = "run_changes cs"
  have inv: "xs_inv (4 * length cs) (stm_settings ?M)" "4 * length cs + 4 < 2 ^ 31"
    using run_changes_inv [of cs] assms(1,2) by simp_all
  have base: "XSETTINGS_BASE_DPI_FIXED = 98304" by (simp add: XSETTINGS_BASE_DPI_FIXED_def BASE_DPI_def)
  let ?R = "on_resource R_Xft_DPI (VReal (scale * of_int BASE_DPI)) ?M"
  let ?A = "on_settings Gdk_WindowScalingFactor (VInt \<lfloor>scale\<rfloor>) ?R"
  let ?B = "on_settings Gdk_UnscaledDPI (VInt XSETTINGS_BASE_DPI_FIXED) ?A"
  have A: "xs_inv (Suc (4 * length cs)) (stm_settings ?A)"
    using on_settings_inv [of _ ?R "VInt \<lfloor>scale\<rfloor>"] inv assms(3) by (simp add: fits_def)
  have B: "xs_inv (Suc (Suc (4 * length cs))) (stm_settings ?B)"
    using on_settings_inv [OF A, of "VInt XSETTINGS_BASE_DPI_FIXED"] inv(2) by (simp add: base)
  have g: "globalScale text_real (setGlobalScale scale ?M) = of_int (qRound (scale * 98304)) / 98304"
    using setting_number [OF B, of text_real Xft_DPI] inv(2) by (simp add: globalScale_def setGlobalScale_def base)
  have "\<bar>of_int (qRound (scale * 98304)) - scale * 98304\<bar> \<le> (1 / 2 :: real)"
    by (rule qRound_close)
  then have "\<bar>of_int (qRound (scale * 98304)) / 98304 - scale\<bar> \<le> 1 / 196608" by (simp add: abs_le_iff field_simps)
  moreover
  let ?S = "on_resource R_Gtk_CursorThemeSize (VInt (qRound v)) (on_resource R_Xcursor_Size (VInt (qRound v)) ?M)"
  have "setting Xcursor_Size (setCursorSize v ?M) = setting Xcursor_Size (on_settings Xcursor_Size (VInt (qRound v)) ?S)"
    by (simp add: setCursorSize_def Let_def setting_other)
  then have "cursorSize text_real (setCursorSize v ?M) = of_int (qRound v)"
    using setting_number [of "4 * length cs" ?S text_real Xcursor_Size "qRound v"]
      setting_same [of "4 * length cs" ?S "VInt (qRound v)" Xcursor_Size] inv by (simp add: cursorSize_def)
  ultimately show ?thesis by (simp add: g)
qed

theorem scale_reads_back_witness:
  "\<bar>globalScale (\<lambda>_. 0) (setGlobalScale (5 / 4) (run_changes [FontChange ''Sans''])) - 5 / 4\<bar> \<le> 1 / 196608
     \<and> cursorSize (\<lambda>_. 0) (setCursorSize 24 (run_changes [FontChange ''Sans''])) = 24"
proof -
  have "qRound 24 = 24" "qRound (5 / 4 * of_int XSETTINGS_BASE_DPI_FIXED) = 122880"
    by (simp_all add: qRound_def XSETTINGS_BASE_DPI_FIXED_def BASE_DPI_def floor_eq_iff)
  then show ?thesis
    using scale_reads_back [of "[FontChange ''Sans'']" "5 / 4" 24 "\<lambda>_. 0"] by (simp add: fits_def floor_eq_iff)
qed

end
