(* ===== verification/Qt_Geometry.thy ===== *)
theory Qt_Geometry
  imports Complex_Main
begin

text \<open>
  The rectangles of Qt that window geometry is computed with: \<^verbatim>\<open>QPointF\<close>, \<^verbatim>\<open>QSizeF\<close>, \<^verbatim>\<open>QRectF\<close> and
  \<^verbatim>\<open>QMargins\<close>. A \<^verbatim>\<open>qreal\<close> is a real number, so that Qt's comparison up to rounding errors is equality.
\<close>

named_theorems rect_simps \<open>coordinates of the results of the rectangle operations\<close>

record qpoint =
  px :: real
  py :: real

record qsize =
  sw :: real
  sh :: real

record qrect =
  rx :: real
  ry :: real
  rw :: real
  rh :: real

record qmargins =
  mg_left :: int
  mg_top :: int
  mg_right :: int
  mg_bottom :: int

definition pt :: "real \<Rightarrow> real \<Rightarrow> qpoint" where "pt x y = \<lparr>px = x, py = y\<rparr>"
definition sz :: "real \<Rightarrow> real \<Rightarrow> qsize" where "sz w h = \<lparr>sw = w, sh = h\<rparr>"
definition rect :: "qpoint \<Rightarrow> qsize \<Rightarrow> qrect" where "rect p s = \<lparr>rx = px p, ry = py p, rw = sw s, rh = sh s\<rparr>"
definition nullRect :: qrect where "nullRect = \<lparr>rx = 0, ry = 0, rw = 0, rh = 0\<rparr>"

definition r_left :: "qrect \<Rightarrow> real" where "r_left r = rx r"
definition r_top :: "qrect \<Rightarrow> real" where "r_top r = ry r"
definition r_right :: "qrect \<Rightarrow> real" where "r_right r = rx r + rw r"
definition r_bottom :: "qrect \<Rightarrow> real" where "r_bottom r = ry r + rh r"
definition topLeft :: "qrect \<Rightarrow> qpoint" where "topLeft r = pt (rx r) (ry r)"
definition r_size :: "qrect \<Rightarrow> qsize" where "r_size r = sz (rw r) (rh r)"
definition r_center :: "qrect \<Rightarrow> qpoint" where "r_center r = pt (rx r + rw r / 2) (ry r + rh r / 2)"

definition setLeft :: "real \<Rightarrow> qrect \<Rightarrow> qrect" where "setLeft v r = r\<lparr>rx := v, rw := rw r - (v - rx r)\<rparr>"
definition setTop :: "real \<Rightarrow> qrect \<Rightarrow> qrect" where "setTop v r = r\<lparr>ry := v, rh := rh r - (v - ry r)\<rparr>"
definition setRight :: "real \<Rightarrow> qrect \<Rightarrow> qrect" where "setRight v r = r\<lparr>rw := v - rx r\<rparr>"
definition setBottom :: "real \<Rightarrow> qrect \<Rightarrow> qrect" where "setBottom v r = r\<lparr>rh := v - ry r\<rparr>"
definition moveLeft :: "real \<Rightarrow> qrect \<Rightarrow> qrect" where "moveLeft v r = r\<lparr>rx := v\<rparr>"
definition moveTop :: "real \<Rightarrow> qrect \<Rightarrow> qrect" where "moveTop v r = r\<lparr>ry := v\<rparr>"
definition moveRight :: "real \<Rightarrow> qrect \<Rightarrow> qrect" where "moveRight v r = r\<lparr>rx := v - rw r\<rparr>"
definition moveBottom :: "real \<Rightarrow> qrect \<Rightarrow> qrect" where "moveBottom v r = r\<lparr>ry := v - rh r\<rparr>"
definition moveTopLeft :: "qpoint \<Rightarrow> qrect \<Rightarrow> qrect" where "moveTopLeft p r = r\<lparr>rx := px p, ry := py p\<rparr>"
definition moveCenter :: "qpoint \<Rightarrow> qrect \<Rightarrow> qrect" where
  "moveCenter p r = r\<lparr>rx := px p - rw r / 2, ry := py p - rh r / 2\<rparr>"
definition translated :: "qpoint \<Rightarrow> qrect \<Rightarrow> qrect" where "translated p r = r\<lparr>rx := rx r + px p, ry := ry r + py p\<rparr>"
definition marginsRemoved :: "qmargins \<Rightarrow> qrect \<Rightarrow> qrect" where
  "marginsRemoved m r = \<lparr>rx = rx r + of_int (mg_left m), ry = ry r + of_int (mg_top m),
     rw = rw r - of_int (mg_left m) - of_int (mg_right m), rh = rh r - of_int (mg_top m) - of_int (mg_bottom m)\<rparr>"

definition isValidRect :: "qrect \<Rightarrow> bool" where "isValidRect r = (0 < rw r \<and> 0 < rh r)"
definition isEmptyRect :: "qrect \<Rightarrow> bool" where "isEmptyRect r = (rw r \<le> 0 \<or> rh r \<le> 0)"
definition isNullRect :: "qrect \<Rightarrow> bool" where "isNullRect r = (rw r = 0 \<and> rh r = 0)"
definition isNullPoint :: "qpoint \<Rightarrow> bool" where "isNullPoint p = (px p = 0 \<and> py p = 0)"

text \<open>The ends of the horizontal and the vertical extent, also of rectangles with a negative size.\<close>

definition lo_x :: "qrect \<Rightarrow> real" where "lo_x r = (if rw r < 0 then rx r + rw r else rx r)"
definition hi_x :: "qrect \<Rightarrow> real" where "hi_x r = (if rw r < 0 then rx r else rx r + rw r)"
definition lo_y :: "qrect \<Rightarrow> real" where "lo_y r = (if rh r < 0 then ry r + rh r else ry r)"
definition hi_y :: "qrect \<Rightarrow> real" where "hi_y r = (if rh r < 0 then ry r else ry r + rh r)"

definition r_contains :: "qrect \<Rightarrow> qpoint \<Rightarrow> bool" where
  "r_contains r p = (lo_x r \<noteq> hi_x r \<and> lo_x r \<le> px p \<and> px p \<le> hi_x r
     \<and> lo_y r \<noteq> hi_y r \<and> lo_y r \<le> py p \<and> py p \<le> hi_y r)"

definition r_inter :: "qrect \<Rightarrow> qrect \<Rightarrow> qrect" where
  "r_inter a b =
     (if lo_x a = hi_x a \<or> lo_x b = hi_x b \<or> hi_x b \<le> lo_x a \<or> hi_x a \<le> lo_x b then nullRect
      else if lo_y a = hi_y a \<or> lo_y b = hi_y b \<or> hi_y b \<le> lo_y a \<or> hi_y a \<le> lo_y b then nullRect
      else \<lparr>rx = max (lo_x a) (lo_x b), ry = max (lo_y a) (lo_y b),
            rw = min (hi_x a) (hi_x b) - max (lo_x a) (lo_x b),
            rh = min (hi_y a) (hi_y b) - max (lo_y a) (lo_y b)\<rparr>)"

definition qBound :: "real \<Rightarrow> real \<Rightarrow> real \<Rightarrow> real" where
  "qBound lo v hi = max lo (min v hi)"

lemma pt_simps [simp, rect_simps]: "px (pt x y) = x" "py (pt x y) = y"
  by (simp_all add: pt_def)

lemma sz_simps [simp, rect_simps]: "sw (sz w h) = w" "sh (sz w h) = h"
  by (simp_all add: sz_def)

lemma pt_eq_iff: "(p :: qpoint) = q \<longleftrightarrow> px p = px q \<and> py p = py q"
  by (cases p; cases q) simp

lemma rect_coords [simp, rect_simps]:
  "rx (rect p s) = px p" "ry (rect p s) = py p" "rw (rect p s) = sw s" "rh (rect p s) = sh s"
  by (simp_all add: rect_def)

lemma qrect_eqI: "rx a = rx b \<Longrightarrow> ry a = ry b \<Longrightarrow> rw a = rw b \<Longrightarrow> rh a = rh b \<Longrightarrow> a = (b :: qrect)"
  by (cases a; cases b) simp

lemma rect_topLeft_size [simp]: "rect (topLeft r) (r_size r) = r"
  by (rule qrect_eqI) (simp_all add: topLeft_def r_size_def)

lemma r_size_rect [simp]: "r_size (rect p s) = s" "topLeft (rect p s) = p"
  by (cases s; cases p; simp add: r_size_def topLeft_def sz_def pt_def rect_def)+

lemmas edge_defs = r_left_def r_top_def r_right_def r_bottom_def

lemma moves [rect_simps]:
  "rx (moveLeft v r) = v" "ry (moveLeft v r) = ry r" "rw (moveLeft v r) = rw r" "rh (moveLeft v r) = rh r"
  "rx (moveTop v r) = rx r" "ry (moveTop v r) = v" "rw (moveTop v r) = rw r" "rh (moveTop v r) = rh r"
  "rx (moveRight v r) = v - rw r" "ry (moveRight v r) = ry r" "rw (moveRight v r) = rw r" "rh (moveRight v r) = rh r"
  "rx (moveBottom v r) = rx r" "ry (moveBottom v r) = v - rh r" "rw (moveBottom v r) = rw r" "rh (moveBottom v r) = rh r"
  "rx (translated p r) = rx r + px p" "ry (translated p r) = ry r + py p" "rw (translated p r) = rw r" "rh (translated p r) = rh r"
  by (simp_all add: moveLeft_def moveTop_def moveRight_def moveBottom_def translated_def)

lemma marginsRemoved_coords [rect_simps]:
  "rx (marginsRemoved m r) = rx r + of_int (mg_left m)" "ry (marginsRemoved m r) = ry r + of_int (mg_top m)"
  "rw (marginsRemoved m r) = rw r - of_int (mg_left m) - of_int (mg_right m)"
  "rh (marginsRemoved m r) = rh r - of_int (mg_top m) - of_int (mg_bottom m)"
  by (simp_all add: marginsRemoved_def)

lemma contains_valid:
  "isValidRect r \<Longrightarrow> r_contains r p \<longleftrightarrow> r_left r \<le> px p \<and> px p \<le> r_right r \<and> r_top r \<le> py p \<and> py p \<le> r_bottom r"
  by (auto simp: r_contains_def lo_x_def hi_x_def lo_y_def hi_y_def isValidRect_def edge_defs)

lemma inter_empty_valid:
  assumes "isValidRect a" "isValidRect b"
  shows "isEmptyRect (r_inter a b) \<longleftrightarrow>
    r_right b \<le> r_left a \<or> r_right a \<le> r_left b \<or> r_bottom b \<le> r_top a \<or> r_bottom a \<le> r_top b"
  using assms
  by (auto simp: r_inter_def isEmptyRect_def nullRect_def lo_x_def hi_x_def lo_y_def hi_y_def isValidRect_def edge_defs)

lemma inter_commute: "isEmptyRect (r_inter a b) \<longleftrightarrow> isEmptyRect (r_inter b a)"
  by (simp add: r_inter_def max.commute min.commute disj_ac)

end
