(* ===== verification/Window_Geometry.thy ===== *)
theory Window_Geometry
  imports Workspace_Model Qt_Geometry
begin

text \<open>
  The geometry and the state (normal, maximized, fullscreen, tiled) of windows:
  src/src/surface/surfacewrapper.cpp, with the filters of src/src/core/rootsurfacecontainer.cpp that an
  interactive move or resize puts between a window and its geometry. \<open>gstate\<close> extends the scene of
  wrappers by a record \<open>wgeo\<close> per wrapper, the outputs' places and scales, and one \<open>move_resize\<close> per
  seat. Requests to the client are a log. That a client commits a buffer of a new size is the
  event \<open>commitSize\<close>; the geometry animation runs until the events \<open>onAnimationReady\<close> and
  \<open>onAnimationFinished\<close>.
\<close>

section \<open>State\<close>

type_synonym oid = nat

datatype surface_state = Normal | Maximized | Fullscreen | Tiling

datatype tile_mode =
  TileNone | TileLeft | TileRight | TileMaximize | TileTopLeft | TileTopRight | TileBottomLeft | TileBottomRight

datatype qedge = LeftEdge | TopEdge | RightEdge | BottomEdge

record wgeo =
  geometry :: qrect
  sizeSet :: bool  \<comment> \<open>width and height have been set explicitly\<close>
  normalGeometry :: qrect
  maximizedGeometry :: qrect
  fullscreenGeometry :: qrect
  tilingGeometry :: qrect
  surfaceState :: surface_state
  previousSurfaceState :: surface_state
  appliedSurfaceState :: surface_state
  geometryAnimation :: "qrect option"  \<comment> \<open>its target\<close>
  positionAutomatic :: bool
  hasSurface :: bool
  surfaceItem :: bool
  xdgShell :: bool
  shellInitialized :: bool
  requestedMaximized :: bool
  requestedFullscreen :: bool
  currentMaximized :: bool
  currentFullscreen :: bool
  resizable :: bool
  maximizable :: bool
  visibleDecoration :: bool
  noCornerRadius :: bool
  noTitleBarFlag :: bool
  noDecoration :: bool
  titleBar :: "qsize option"
  onOutputs :: "oid list"
  clientRequstPos :: "qpoint option"
  autoPlaceCursorOffset :: "qpoint option"
  xwaylandPositionFromSurface :: bool

datatype wl_request =
    SetMaximize sid bool
  | SetFullScreen sid bool
  | ResizeTo sid qsize
  | SetResizeing sid bool

record move_resize =
  mr_surface :: "sid option"
  mr_edges :: "qedge set"
  mr_startGeometry :: qrect
  mr_initialPosition :: qpoint
  mr_settingPosition :: bool
  mr_tileMode :: tile_mode
  mr_previewActive :: bool
  mr_innerBorder :: bool
  mr_tileOutput :: "oid option"

record gstate = scene +
  geo :: "sid \<Rightarrow> wgeo"
  requests :: "wl_request list"
  outputPlace :: "oid \<Rightarrow> qrect"
  outputScale :: "oid \<Rightarrow> real"
  outputEnabled :: "oid \<Rightarrow> bool"
  windowDpr :: real
  titleBarSize :: "sid \<Rightarrow> qsize"
  moves :: "(nat \<times> move_resize) list"  \<comment> \<open>the seats with their interactive operation\<close>

definition mod_geo :: "(wgeo \<Rightarrow> wgeo) \<Rightarrow> sid \<Rightarrow> 'a gstate_scheme \<Rightarrow> 'a gstate_scheme" where
  "mod_geo f x s = s\<lparr>geo := (geo s)(x := f (geo s x))\<rparr>"

definition ask :: "wl_request \<Rightarrow> 'a gstate_scheme \<Rightarrow> 'a gstate_scheme" where
  "ask r s = s\<lparr>requests := requests s @ [r]\<rparr>"

definition aboutToRemove :: "'a gstate_scheme \<Rightarrow> sid \<Rightarrow> bool" where
  "aboutToRemove s x = sw_aboutToRemove (wrappers s x)"

definition titlebarGeometry :: "'a gstate_scheme \<Rightarrow> sid \<Rightarrow> qrect" where
  "titlebarGeometry s x = (case titleBar (geo s x) of None \<Rightarrow> nullRect | Some z \<Rightarrow> rect (pt 0 0) z)"

section \<open>The pixel grid\<close>

text \<open>\<^verbatim>\<open>std::round\<close> rounds halves away from zero.\<close>

definition std_round :: "real \<Rightarrow> real" where
  "std_round v = of_int (if 0 \<le> v then \<lfloor>v + 1 / 2\<rfloor> else \<lceil>v - 1 / 2\<rceil>)"

definition getOutputDevicePixelRatio :: "'a gstate_scheme \<Rightarrow> sid \<Rightarrow> qpoint \<Rightarrow> real" where
  "getOutputDevicePixelRatio s x pos =
     (let os = onOutputs (geo s x) in
      if hasSurface (geo s x) \<and> os \<noteq> [] then
        if length os = 1 then outputScale s (hd os)
        else case find (\<lambda>k. outputEnabled s k \<and> r_contains (outputPlace s k) pos) os of
               Some k \<Rightarrow> outputScale s k
             | None \<Rightarrow> windowDpr s
      else windowDpr s)"

definition alignToPixelGrid :: "'a gstate_scheme \<Rightarrow> sid \<Rightarrow> qpoint \<Rightarrow> qpoint" where
  "alignToPixelGrid s x pos =
     (let devicePixelRatio = getOutputDevicePixelRatio s x pos in
      pt (std_round (px pos * devicePixelRatio) / devicePixelRatio)
         (std_round (py pos * devicePixelRatio) / devicePixelRatio))"

definition alignGeometryToPixelGrid :: "'a gstate_scheme \<Rightarrow> sid \<Rightarrow> qrect \<Rightarrow> qrect" where
  "alignGeometryToPixelGrid s x g =
     (let devicePixelRatio = getOutputDevicePixelRatio s x (r_center g);
          f = (\<lambda>v. std_round (v * devicePixelRatio) / devicePixelRatio) in
      rect (pt (f (rx g)) (f (ry g))) (sz (f (rw g)) (f (rh g))))"

section \<open>Changes of the geometry\<close>

definition resize :: "sid \<Rightarrow> qsize \<Rightarrow> bool \<Rightarrow> 'a gstate_scheme \<Rightarrow> bool \<times> 'a gstate_scheme" where
  "resize x z tryExec s =
     (if \<not> surfaceItem (geo s x) then (False, s)
      else if tryExec then (True, s)
      else (True, ask (ResizeTo x z) s))"

definition shouldUpdateNormalGeometry :: "'a gstate_scheme \<Rightarrow> sid \<Rightarrow> bool" where
  "shouldUpdateNormalGeometry s x =
     (let g = geo s x in
      if surfaceState g \<noteq> Normal \<or> geometryAnimation g \<noteq> None then False
      else if \<not> xdgShell g \<or> \<not> hasSurface g then True
      else if \<not> sw_mapped (wrappers s x) then \<not> requestedMaximized g \<and> \<not> requestedFullscreen g
      else \<not> currentMaximized g \<and> \<not> currentFullscreen g)"

definition setNormalGeometry :: "sid \<Rightarrow> qrect \<Rightarrow> 'a gstate_scheme \<Rightarrow> 'a gstate_scheme" where
  "setNormalGeometry x r s = mod_geo (\<lambda>g. g\<lparr>normalGeometry := r\<rparr>) x s"

text \<open>\<^verbatim>\<open>adjustForResize\<close>: the edge opposite to the dragged one stays.\<close>

definition adjustForResize :: "qrect \<Rightarrow> qrect \<Rightarrow> qedge set \<Rightarrow> qrect" where
  "adjustForResize g old edges =
     (let g = (if RightEdge \<in> edges then moveLeft (r_left old) g else g);
          g = (if BottomEdge \<in> edges then moveTop (r_top old) g else g);
          g = (if LeftEdge \<in> edges then moveRight (r_right old) g else g);
          g = (if TopEdge \<in> edges then moveBottom (r_bottom old) g else g)
      in g)"

definition mod_move :: "(move_resize \<Rightarrow> move_resize) \<Rightarrow> nat \<Rightarrow> 'a gstate_scheme \<Rightarrow> 'a gstate_scheme" where
  "mod_move f k s = s\<lparr>moves := map (\<lambda>(j, m). if j = k then (j, f m) else (j, m)) (moves s)\<rparr>"

text \<open>The loop of \<^verbatim>\<open>RootSurfaceContainer::filterSurfaceGeometryChanged\<close> over the seats. \<open>setpos\<close> is
  \<^verbatim>\<open>SurfaceWrapper::setPosition\<close>, which calls back into this function.\<close>

fun filter_seats ::
  "(sid \<Rightarrow> qpoint \<Rightarrow> 'a gstate_scheme \<Rightarrow> 'a gstate_scheme result) \<Rightarrow> sid \<Rightarrow> qrect \<Rightarrow> qrect
     \<Rightarrow> (nat \<times> move_resize) list \<Rightarrow> 'a gstate_scheme \<Rightarrow> (bool \<times> qrect \<times> 'a gstate_scheme) result" where
    "filter_seats setpos x new old [] s = Inr (False, new, s)"
  | "filter_seats setpos x new old ((k, m) # ms) s =
       (if mr_surface m = Some x \<and> mr_edges m \<noteq> {} then
          if mr_settingPosition m then rbind (qassert (r_size new = r_size old)) (\<lambda>_. Inr (True, new, s))
          else
            let adjustedGeo = adjustForResize new old (mr_edges m) in
            if topLeft adjustedGeo \<noteq> topLeft new then
              let s = mod_move (\<lambda>m. m\<lparr>mr_settingPosition := True\<rparr>) k s;
                  alignedPos = alignToPixelGrid s x (topLeft adjustedGeo) in
              rbind (setpos x alignedPos s) (\<lambda>s.
              Inr (False, moveTopLeft alignedPos adjustedGeo, mod_move (\<lambda>m. m\<lparr>mr_settingPosition := False\<rparr>) k s))
            else Inr (False, new, s)
        else filter_seats setpos x new old ms s)"

text \<open>\<^verbatim>\<open>geometryChange\<close> runs after the item has its new geometry. A container without a parent filters
  nothing; the containers of a tree forward to the root.\<close>

definition geometryChange_with ::
  "(sid \<Rightarrow> qpoint \<Rightarrow> 'a gstate_scheme \<Rightarrow> 'a gstate_scheme result) \<Rightarrow> sid \<Rightarrow> qrect \<Rightarrow> qrect
     \<Rightarrow> 'a gstate_scheme \<Rightarrow> 'a gstate_scheme result" where
  "geometryChange_with setpos x new old s =
     rbind (if sw_container (wrappers s x) = None then Inr (False, new, s)
            else filter_seats setpos x new old (moves s) s) (\<lambda>(filtered, new, s).
     if filtered then Inr s
     else
       let s = (if shouldUpdateNormalGeometry s x then setNormalGeometry x new s else s) in
       Inr (if sizeSet (geo s x) then snd (resize x (r_size new) False s) else s))"

definition setPosition_with ::
  "(sid \<Rightarrow> qpoint \<Rightarrow> 'a gstate_scheme \<Rightarrow> 'a gstate_scheme result) \<Rightarrow> sid \<Rightarrow> qpoint
     \<Rightarrow> 'a gstate_scheme \<Rightarrow> 'a gstate_scheme result" where
  "setPosition_with setpos x p s =
     (let old = geometry (geo s x); new = moveTopLeft p old in
      if topLeft old = p then Inr s
      else geometryChange_with setpos x new old (mod_geo (\<lambda>g. g\<lparr>geometry := new\<rparr>) x s))"

text \<open>Two levels of nesting are all there is: the nested call finds the flag set and returns.\<close>

definition setPosition_nested :: "sid \<Rightarrow> qpoint \<Rightarrow> 'a gstate_scheme \<Rightarrow> 'a gstate_scheme result" where
  "setPosition_nested = setPosition_with (\<lambda>_ _ _. Inl OutOfFuel)"

definition setPosition :: "sid \<Rightarrow> qpoint \<Rightarrow> 'a gstate_scheme \<Rightarrow> 'a gstate_scheme result" where
  "setPosition = setPosition_with setPosition_nested"

definition geometryChange :: "sid \<Rightarrow> qrect \<Rightarrow> qrect \<Rightarrow> 'a gstate_scheme \<Rightarrow> 'a gstate_scheme result" where
  "geometryChange = geometryChange_with setPosition_nested"

text \<open>The client commits a buffer of another size.\<close>

definition commitSize :: "sid \<Rightarrow> qsize \<Rightarrow> 'a gstate_scheme \<Rightarrow> 'a gstate_scheme result" where
  "commitSize x z s =
     (let old = geometry (geo s x); new = rect (topLeft old) z in
      if new = old then Inr s
      else geometryChange x new old (mod_geo (\<lambda>g. g\<lparr>geometry := new\<rparr>) x s))"

definition moveNormalGeometryInOutput :: "sid \<Rightarrow> qpoint \<Rightarrow> 'a gstate_scheme \<Rightarrow> 'a gstate_scheme result" where
  "moveNormalGeometryInOutput x position s =
     (let alignedPosition = alignToPixelGrid s x position;
          s = setNormalGeometry x (rect alignedPosition (r_size (normalGeometry (geo s x)))) s in
      if surfaceState (geo s x) \<noteq> Normal then Inr s
      else if geometryAnimation (geo s x) \<noteq> None then
        Inr (mod_geo (\<lambda>g. g\<lparr>geometryAnimation := Some (normalGeometry g)\<rparr>) x s)
      else setPosition x alignedPosition s)"

text \<open>The geometries of the other states follow the output; the state the window is in moves it.\<close>

definition place_at :: "sid \<Rightarrow> qrect \<Rightarrow> 'a gstate_scheme \<Rightarrow> 'a gstate_scheme result" where
  "place_at x r s = rbind (setPosition x (topLeft r) s) (\<lambda>s. Inr (snd (resize x (r_size r) False s)))"

definition setMaximizedGeometry :: "sid \<Rightarrow> qrect \<Rightarrow> 'a gstate_scheme \<Rightarrow> 'a gstate_scheme result" where
  "setMaximizedGeometry x r s =
     (if aboutToRemove s x \<or> maximizedGeometry (geo s x) = r then Inr s
      else
        let s = mod_geo (\<lambda>g. g\<lparr>maximizedGeometry := r\<rparr>) x s in
        if surfaceState (geo s x) = Maximized \<and> geometryAnimation (geo s x) = None then place_at x r s
        else if surfaceState (geo s x) = Maximized then Inr (mod_geo (\<lambda>g. g\<lparr>geometryAnimation := Some r\<rparr>) x s)
        else Inr s)"

definition setFullscreenGeometry :: "sid \<Rightarrow> qrect \<Rightarrow> 'a gstate_scheme \<Rightarrow> 'a gstate_scheme result" where
  "setFullscreenGeometry x r s =
     (if aboutToRemove s x \<or> fullscreenGeometry (geo s x) = r then Inr s
      else
        let s = mod_geo (\<lambda>g. g\<lparr>fullscreenGeometry := r\<rparr>) x s in
        if surfaceState (geo s x) = Fullscreen \<and> geometryAnimation (geo s x) = None then place_at x r s
        else if surfaceState (geo s x) = Fullscreen then Inr (mod_geo (\<lambda>g. g\<lparr>geometryAnimation := Some r\<rparr>) x s)
        else Inr s)"

definition setTilingGeometry :: "sid \<Rightarrow> qrect \<Rightarrow> 'a gstate_scheme \<Rightarrow> 'a gstate_scheme result" where
  "setTilingGeometry x r s =
     (if aboutToRemove s x \<or> tilingGeometry (geo s x) = r then Inr s
      else
        let s = mod_geo (\<lambda>g. g\<lparr>tilingGeometry := r\<rparr>) x s in
        if surfaceState (geo s x) = Tiling then place_at x r s else Inr s)"

definition setPositionAutomatic :: "bool \<Rightarrow> sid \<Rightarrow> 'a gstate_scheme \<Rightarrow> 'a gstate_scheme" where
  "setPositionAutomatic b x s = mod_geo (\<lambda>g. g\<lparr>positionAutomatic := b\<rparr>) x s"

definition setAutoPlaceCursorOffset :: "sid \<Rightarrow> qpoint \<Rightarrow> 'a gstate_scheme \<Rightarrow> 'a gstate_scheme" where
  "setAutoPlaceCursorOffset x p s =
     (if autoPlaceCursorOffset (geo s x) = Some p then s
      else setPositionAutomatic False x (mod_geo (\<lambda>g. g\<lparr>autoPlaceCursorOffset := Some p, clientRequstPos := None\<rparr>) x s))"

definition setClientRequstPos :: "sid \<Rightarrow> qpoint \<Rightarrow> 'a gstate_scheme \<Rightarrow> 'a gstate_scheme" where
  "setClientRequstPos x p s =
     (if clientRequstPos (geo s x) = Some p then s
      else setPositionAutomatic False x (mod_geo (\<lambda>g. g\<lparr>clientRequstPos := Some p, autoPlaceCursorOffset := None\<rparr>) x s))"

section \<open>The state machine\<close>

definition noTitleBar :: "wgeo \<Rightarrow> bool" where
  "noTitleBar g = (surfaceState g = Fullscreen \<or> noTitleBarFlag g \<or> noDecoration g)"

definition updateTitleBar :: "sid \<Rightarrow> 'a gstate_scheme \<Rightarrow> 'a gstate_scheme" where
  "updateTitleBar x s =
     (let g = geo s x in
      if aboutToRemove s x then s
      else if \<not> surfaceItem g then s
      else if noTitleBar g = (titleBar g = None) then s
      else mod_geo (\<lambda>g. g\<lparr>titleBar := (if titleBar g = None then Some (titleBarSize s x) else None)\<rparr>) x s)"

text \<open>The root's filter of state changes: a window that is being resized keeps its state.\<close>

definition stateChangeFiltered :: "'a gstate_scheme \<Rightarrow> sid \<Rightarrow> bool" where
  "stateChangeFiltered s x = (\<exists>(k, m)\<in>set (moves s). mr_surface m = Some x \<and> mr_edges m \<noteq> {})"

definition checkSetSurfaceState :: "'a gstate_scheme \<Rightarrow> sid \<Rightarrow> surface_state \<Rightarrow> bool \<Rightarrow> bool" where
  "checkSetSurfaceState s x newSurfaceState allowRetarget =
     (if aboutToRemove s x then False
      else if geometryAnimation (geo s x) \<noteq> None \<and> \<not> allowRetarget then False
      else if surfaceState (geo s x) = newSurfaceState then False
      else if sw_isSnapMask (wrappers s x) \<and> (newSurfaceState = Maximized \<or> newSurfaceState = Tiling) then False
      else if sw_container (wrappers s x) = None \<or> stateChangeFiltered s x then False
      else True)"

definition setSurfaceStateValue :: "sid \<Rightarrow> surface_state \<Rightarrow> 'a gstate_scheme \<Rightarrow> 'a gstate_scheme" where
  "setSurfaceStateValue x st s =
     (if aboutToRemove s x then s
      else mod_geo (\<lambda>g. g\<lparr>previousSurfaceState := surfaceState g, surfaceState := st\<rparr>) x s)"

definition targetGeometryForState :: "wgeo \<Rightarrow> surface_state \<Rightarrow> qrect" where
  "targetGeometryForState g st =
     (case st of Maximized \<Rightarrow> maximizedGeometry g | Fullscreen \<Rightarrow> fullscreenGeometry g
        | Normal \<Rightarrow> normalGeometry g | Tiling \<Rightarrow> tilingGeometry g)"

definition applyGeometry :: "sid \<Rightarrow> qrect \<Rightarrow> 'a gstate_scheme \<Rightarrow> (bool \<times> 'a gstate_scheme) result" where
  "applyGeometry x target s =
     (if \<not> fst (resize x (r_size target) True s) then Inr (False, s)
      else rbind (setPosition x (alignToPixelGrid s x (topLeft target)) s) (\<lambda>s.
           Inr (True, snd (resize x (r_size target) False s))))"

definition applyShellSurfaceState :: "sid \<Rightarrow> 'a gstate_scheme \<Rightarrow> 'a gstate_scheme" where
  "applyShellSurfaceState x s =
     (let g = geo s x; st = surfaceState g in
      if aboutToRemove s x \<or> appliedSurfaceState g = st then s
      else if \<not> sw_shellSurface (wrappers s x) then mod_geo (\<lambda>g. g\<lparr>appliedSurfaceState := st\<rparr>) x s
      else
        let s = mod_geo (\<lambda>g. g\<lparr>visibleDecoration := (st = Normal),
                    noCornerRadius := (st = Maximized \<or> st = Fullscreen \<or> st = Tiling)\<rparr>) x s;
            s = (case appliedSurfaceState g of
                   Maximized \<Rightarrow> ask (SetMaximize x False) s
                 | Fullscreen \<Rightarrow> ask (SetFullScreen x False) s
                 | _ \<Rightarrow> s);
            s = (case st of
                   Maximized \<Rightarrow> ask (SetMaximize x True) s
                 | Fullscreen \<Rightarrow> ask (SetFullScreen x True) s
                 | _ \<Rightarrow> s);
            s = mod_geo (\<lambda>g. g\<lparr>appliedSurfaceState := st\<rparr>) x s
        in updateVisible x (updateTitleBar x s))"

definition resetXdgToplevelSize :: "sid \<Rightarrow> 'a gstate_scheme \<Rightarrow> 'a gstate_scheme" where
  "resetXdgToplevelSize x s =
     (if sw_type (wrappers s x) = XdgToplevel \<and> sw_shellSurface (wrappers s x) then ask (ResizeTo x (sz 0 0)) s else s)"

definition applySurfaceState :: "sid \<Rightarrow> 'a gstate_scheme \<Rightarrow> (bool \<times> 'a gstate_scheme) result" where
  "applySurfaceState x s =
     (let s = applyShellSurfaceState x s;
          target = targetGeometryForState (geo s x) (surfaceState (geo s x)) in
      if isValidRect target then applyGeometry x target s
      else Inr (True, if surfaceState (geo s x) = Normal then resetXdgToplevelSize x s else s))"

definition abortGeometryAnimation :: "sid \<Rightarrow> 'a gstate_scheme \<Rightarrow> 'a gstate_scheme" where
  "abortGeometryAnimation x s = mod_geo (\<lambda>g. g\<lparr>geometryAnimation := None\<rparr>) x s"

definition startStateChangeAnimation :: "sid \<Rightarrow> qrect \<Rightarrow> 'a gstate_scheme \<Rightarrow> bool \<times> 'a gstate_scheme" where
  "startStateChangeAnimation x target s =
     (if geometryAnimation (geo s x) \<noteq> None then (False, s)
      else (True, mod_geo (\<lambda>g. g\<lparr>geometryAnimation := Some target, xwaylandPositionFromSurface := False\<rparr>) x s))"

definition setSurfaceState :: "sid \<Rightarrow> surface_state \<Rightarrow> 'a gstate_scheme \<Rightarrow> 'a gstate_scheme result" where
  "setSurfaceState x st s =
     (if \<not> checkSetSurfaceState s x st True then Inr s
      else
        let s = setSurfaceStateValue x st (abortGeometryAnimation x s);
            target = targetGeometryForState (geo s x) st in
        if isValidRect target \<and> sw_visible (wrappers s x) then Inr (snd (startStateChangeAnimation x target s))
        else rbind (applySurfaceState x s) (\<lambda>(_, s). Inr s))"

definition setSurfaceStateDirectly :: "sid \<Rightarrow> surface_state \<Rightarrow> 'a gstate_scheme \<Rightarrow> 'a gstate_scheme result" where
  "setSurfaceStateDirectly x st s =
     (if \<not> checkSetSurfaceState s x st False then Inr s
      else rbind (applySurfaceState x (setSurfaceStateValue x st (abortGeometryAnimation x s))) (\<lambda>(_, s). Inr s))"

text \<open>The slots of the geometry animation.\<close>

definition onAnimationReady :: "sid \<Rightarrow> 'a gstate_scheme \<Rightarrow> 'a gstate_scheme result" where
  "onAnimationReady x s =
     rbind (applySurfaceState x s) (\<lambda>(ok, s). Inr (if ok then s else abortGeometryAnimation x s))"

definition onAnimationFinished :: "sid \<Rightarrow> 'a gstate_scheme \<Rightarrow> 'a gstate_scheme result" where
  "onAnimationFinished x s =
     (let s = mod_geo (\<lambda>g. g\<lparr>xwaylandPositionFromSurface := True\<rparr>) x s in
      rbind (qassert (geometryAnimation (geo s x) \<noteq> None)) (\<lambda>_.
      rbind (applySurfaceState x s) (\<lambda>(_, s). Inr (abortGeometryAnimation x s))))"

text \<open>An xdg toplevel that is not mapped takes the state at once, when it is initialized.\<close>

definition unmappedToplevel :: "'a gstate_scheme \<Rightarrow> sid \<Rightarrow> bool" where
  "unmappedToplevel s x =
     (sw_type (wrappers s x) = XdgToplevel \<and> hasSurface (geo s x) \<and> \<not> sw_mapped (wrappers s x))"

definition maximize :: "sid \<Rightarrow> 'a gstate_scheme \<Rightarrow> 'a gstate_scheme result" where
  "maximize x s =
     (if unmappedToplevel s x then
        (if shellInitialized (geo s x) then setSurfaceStateDirectly x Maximized s else Inr s)
      else if surfaceState (geo s x) = Fullscreen \<or> \<not> maximizable (geo s x) then Inr s
      else setSurfaceState x Maximized s)"

definition unmaximize :: "sid \<Rightarrow> 'a gstate_scheme \<Rightarrow> 'a gstate_scheme result" where
  "unmaximize x s =
     (if unmappedToplevel s x then
        (if shellInitialized (geo s x) then setSurfaceStateDirectly x Normal s else Inr s)
      else if surfaceState (geo s x) \<noteq> Maximized then Inr s
      else setSurfaceState x Normal s)"

definition toggleMaximized :: "sid \<Rightarrow> 'a gstate_scheme \<Rightarrow> 'a gstate_scheme result" where
  "toggleMaximized x s = (if surfaceState (geo s x) = Maximized then unmaximize x s else maximize x s)"

definition leaveFullscreen :: "sid \<Rightarrow> 'a gstate_scheme \<Rightarrow> 'a gstate_scheme result" where
  "leaveFullscreen x s =
     (if unmappedToplevel s x then
        (if shellInitialized (geo s x) then setSurfaceStateDirectly x (previousSurfaceState (geo s x)) s else Inr s)
      else if surfaceState (geo s x) \<noteq> Fullscreen then Inr s
      else setSurfaceState x (previousSurfaceState (geo s x)) s)"

definition supportsTileMode :: "wgeo \<Rightarrow> tile_mode \<Rightarrow> bool" where
  "supportsTileMode g mode =
     (case mode of TileNone \<Rightarrow> True | TileMaximize \<Rightarrow> maximizable g | _ \<Rightarrow> resizable g)"

definition cancelTileMode :: "sid \<Rightarrow> 'a gstate_scheme \<Rightarrow> 'a gstate_scheme result" where
  "cancelTileMode x s = setSurfaceStateDirectly x Normal s"

end
