(* ===== verification/Output_Model.thy ===== *)
theory Output_Model
  imports Window_Geometry
begin

text \<open>
  src/src/output/output.h and .cpp: the windows of an output, the zones its panels reserve, and the
  placement of windows. \<open>pstate\<close> extends the state of windows by one \<open>output_rec\<close> per output, the
  properties of layer surfaces and what the placement asks other parts for: the models of
  the workspaces, the cursor, the positions popups want. Mode setting, colours and the copies of a
  mirrored output are left out.
\<close>

section \<open>State\<close>

datatype zone_owner = Shell sid | MenuBar

datatype place_direction = PlaceTopLeft | PlaceBottomRight

datatype arrange_reason = InitialPlacement | ExclusiveZoneChanged | LayerSurfaceRemoved | OutputGeometryChanged

record output_rec =
  o_rect :: qrect  \<comment> \<open>position and size of the output's item\<close>
  o_surfaces :: "sid list"
  o_margin :: "qedge \<Rightarrow> int"
  o_zones :: "qedge \<Rightarrow> (zone_owner \<times> int) list"
  o_direction :: place_direction
  o_positionCache :: "sid \<rightharpoonup> qpoint \<times> qrect"
  o_ratio :: "sid \<rightharpoonup> qpoint"

record layer_props =
  l_initialized :: bool
  l_exclusiveZone :: int
  l_margins :: qmargins
  l_ancher :: "qedge set"
  l_desiredSize :: qsize

record pstate = gstate +
  outs :: "oid \<Rightarrow> output_rec"
  layers :: "sid \<Rightarrow> layer_props"
  workspaceModel :: "int \<Rightarrow> wmodel option"
  windowTitlebarHeight :: real
  cursorPosition :: qpoint
  cursorSize :: "oid \<Rightarrow> qsize option"
  outputAtCursor :: "oid option"
  implicitPosition :: "sid \<Rightarrow> qpoint option"
  cursorRect :: "sid \<Rightarrow> qrect option"  \<comment> \<open>an integer rectangle\<close>
  contentTopLeft :: "sid \<Rightarrow> qpoint"
  surfaceItemPosition :: "sid \<Rightarrow> qpoint"

definition mod_out :: "(output_rec \<Rightarrow> output_rec) \<Rightarrow> oid \<Rightarrow> 'a pstate_scheme \<Rightarrow> 'a pstate_scheme" where
  "mod_out f k s = s\<lparr>outs := (outs s)(k := f (outs s k))\<rparr>"

definition exclusiveZone :: "output_rec \<Rightarrow> qmargins" where
  "exclusiveZone d = \<lparr>mg_left = o_margin d LeftEdge, mg_top = o_margin d TopEdge,
     mg_right = o_margin d RightEdge, mg_bottom = o_margin d BottomEdge\<rparr>"

definition out_geometry :: "'a pstate_scheme \<Rightarrow> oid \<Rightarrow> qrect" where
  "out_geometry s k = o_rect (outs s k)"

definition validGeometry :: "'a pstate_scheme \<Rightarrow> oid \<Rightarrow> qrect" where
  "validGeometry s k = marginsRemoved (exclusiveZone (outs s k)) (out_geometry s k)"

definition tileGeometry :: "'a pstate_scheme \<Rightarrow> oid \<Rightarrow> tile_mode \<Rightarrow> qrect" where
  "tileGeometry s k mode =
     (let area = validGeometry s k;
          half = sz (rw area / 2) (rh area);
          quad = sz (rw area / 2) (rh area / 2)
      in case mode of
           TileNone \<Rightarrow> nullRect
         | TileLeft \<Rightarrow> rect (topLeft area) half
         | TileRight \<Rightarrow> rect (pt (r_left area + rw area / 2) (r_top area)) half
         | TileMaximize \<Rightarrow> area
         | TileTopLeft \<Rightarrow> rect (topLeft area) quad
         | TileTopRight \<Rightarrow> rect (pt (r_left area + rw area / 2) (r_top area)) quad
         | TileBottomLeft \<Rightarrow> rect (pt (r_left area) (r_top area + rh area / 2)) quad
         | TileBottomRight \<Rightarrow> rect (pt (r_left area + rw area / 2) (r_top area + rh area / 2)) quad)"

section \<open>Exclusive zones\<close>

text \<open>The first zone of the owner, searched in the order top, bottom, left, right.\<close>

fun removeZoneFrom :: "qedge list \<Rightarrow> zone_owner \<Rightarrow> output_rec \<Rightarrow> (bool \<times> output_rec) result" where
    "removeZoneFrom [] z d = Inr (False, d)"
  | "removeZoneFrom (e # es) z d =
       (case map_of (o_zones d e) z of
          Some v \<Rightarrow>
            let d = d\<lparr>o_margin := (o_margin d)(e := o_margin d e - v),
                      o_zones := (o_zones d)(e := remove1 (z, v) (o_zones d e))\<rparr> in
            rbind (qassert (0 \<le> o_margin d e)) (\<lambda>_. Inr (True, d))
        | None \<Rightarrow> removeZoneFrom es z d)"

definition removeExclusiveZone :: "zone_owner \<Rightarrow> output_rec \<Rightarrow> (bool \<times> output_rec) result" where
  "removeExclusiveZone z d = removeZoneFrom [TopEdge, BottomEdge, LeftEdge, RightEdge] z d"

definition setExclusiveZone :: "qedge \<Rightarrow> zone_owner \<Rightarrow> int \<Rightarrow> output_rec \<Rightarrow> output_rec result" where
  "setExclusiveZone e z v d =
     rbind (qassert (0 < v)) (\<lambda>_.
     rbind (removeExclusiveZone z d) (\<lambda>(_, d).
     Inr (d\<lparr>o_zones := (o_zones d)(e := o_zones d e @ [(z, v)]), o_margin := (o_margin d)(e := o_margin d e + v)\<rparr>)))"

definition getExclusiveZoneEdge :: "qedge set \<Rightarrow> qedge option" where
  "getExclusiveZoneEdge a =
     (if a = {TopEdge} \<or> a = {TopEdge, LeftEdge, RightEdge} then Some TopEdge
      else if a = {BottomEdge} \<or> a = {BottomEdge, LeftEdge, RightEdge} then Some BottomEdge
      else if a = {LeftEdge} \<or> a = {LeftEdge, TopEdge, BottomEdge} then Some LeftEdge
      else if a = {RightEdge} \<or> a = {RightEdge, TopEdge, BottomEdge} then Some RightEdge
      else None)"

section \<open>Placement of windows\<close>

text \<open>\<^verbatim>\<open>QQuickItem::setSize\<close>.\<close>

definition setSize :: "sid \<Rightarrow> qsize \<Rightarrow> 'a gstate_scheme \<Rightarrow> 'a gstate_scheme result" where
  "setSize x z s =
     (let s = mod_geo (\<lambda>g. g\<lparr>sizeSet := True\<rparr>) x s; old = geometry (geo s x); new = rect (topLeft old) z in
      if new = old then Inr s
      else geometryChange x new old (mod_geo (\<lambda>g. g\<lparr>geometry := new\<rparr>) x s))"

definition clampTitlebar :: "qrect \<Rightarrow> qrect \<Rightarrow> qrect \<Rightarrow> qrect" where
  "clampTitlebar validGeo titlebar candidate =
     (let titlebar = translated (topLeft candidate) titlebar in
      if isEmptyRect (r_inter titlebar validGeo) then
        let candidate =
              (if r_top titlebar < r_top validGeo then moveTop (r_top candidate + r_top validGeo - r_top titlebar) candidate
               else if r_bottom titlebar > r_bottom validGeo
                 then moveBottom (r_bottom candidate - (r_bottom titlebar - r_bottom validGeo)) candidate
               else candidate)
        in (if r_left titlebar < r_left validGeo then moveLeft (r_left candidate + r_left validGeo - r_left titlebar) candidate
            else if r_right titlebar > r_right validGeo
              then moveRight (r_right candidate - (r_right titlebar - r_right validGeo)) candidate
            else candidate)
      else candidate)"

definition titlebarFor :: "'a pstate_scheme \<Rightarrow> sid \<Rightarrow> qrect" where
  "titlebarFor s x =
     (if isValidRect (titlebarGeometry s x) then titlebarGeometry s x
      else rect (pt 0 0) (sz (rw (normalGeometry (geo s x))) (windowTitlebarHeight s)))"

definition moveSurfaceWithTitlebarClamp :: "oid \<Rightarrow> sid \<Rightarrow> qpoint \<Rightarrow> 'a pstate_scheme \<Rightarrow> 'a pstate_scheme result" where
  "moveSurfaceWithTitlebarClamp k x pos s =
     (let normal = normalGeometry (geo s x);
          candidate = clampTitlebar (validGeometry s k) (titlebarFor s x) (rect pos (r_size normal)) in
      if topLeft candidate = topLeft normal then Inr s
      else moveNormalGeometryInOutput x (topLeft candidate) s)"

definition placeUnderCursor :: "oid \<Rightarrow> sid \<Rightarrow> 'a pstate_scheme \<Rightarrow> 'a pstate_scheme result" where
  "placeUnderCursor k x s =
     rbind (deref (sw_ownsOutput (wrappers s x))) (\<lambda>own.
     let cursor = (case cursorSize s own of Some z \<Rightarrow> z | None \<Rightarrow> sz (- 1) (- 1));
         normalGeo = normalGeometry (geo s x);
         offset = (case autoPlaceCursorOffset (geo s x) of Some p \<Rightarrow> p | None \<Rightarrow> pt 0 0);
         normalGeo = moveLeft (px (cursorPosition s) + sw cursor / 2 + px offset - rw (geometry (geo s x)) / 2) normalGeo;
         normalGeo = moveTop (py (cursorPosition s) + sh cursor + py offset) normalGeo
     in moveSurfaceWithTitlebarClamp k x (topLeft normalGeo) s)"

definition placeClientRequstPos :: "oid \<Rightarrow> sid \<Rightarrow> qpoint \<Rightarrow> 'a pstate_scheme \<Rightarrow> 'a pstate_scheme result" where
  "placeClientRequstPos k x p s =
     (let normalGeo = moveTop (py p) (moveLeft (px p) (normalGeometry (geo s x))) in
      moveSurfaceWithTitlebarClamp k x (topLeft normalGeo) s)"

definition placeCentered :: "oid \<Rightarrow> sid \<Rightarrow> 'a pstate_scheme \<Rightarrow> 'a pstate_scheme result" where
  "placeCentered k x s =
     (let validGeo = validGeometry s k;
          normalGeo = moveCenter (r_center validGeo) (normalGeometry (geo s x));
          normalGeo = moveTop (max (r_top normalGeo) (r_top validGeo)) normalGeo;
          normalGeo = moveLeft (max (r_left normalGeo) (r_left validGeo)) normalGeo
      in moveSurfaceWithTitlebarClamp k x (topLeft normalGeo) s)"

definition calculateBottomRightPosition ::
  "qrect \<Rightarrow> qrect \<Rightarrow> qrect \<Rightarrow> qsize \<Rightarrow> place_direction \<Rightarrow> qpoint \<times> place_direction" where
  "calculateBottomRightPosition activeGeo normalGeo validGeo offset dir =
     (let p = pt (r_left activeGeo + sw offset) (r_top activeGeo + sh offset) in
      if px p + rw normalGeo \<le> r_right validGeo \<and> py p + rh normalGeo \<le> r_bottom validGeo then (p, dir)
      else (pt (max (r_left validGeo) (r_right activeGeo - rw normalGeo - sw offset))
               (max (r_top validGeo) (r_bottom activeGeo - rh normalGeo - sh offset)), PlaceTopLeft))"

definition calculateTopLeftPosition ::
  "qrect \<Rightarrow> qrect \<Rightarrow> qrect \<Rightarrow> qsize \<Rightarrow> place_direction \<Rightarrow> qpoint \<times> place_direction" where
  "calculateTopLeftPosition activeGeo normalGeo validGeo offset dir =
     (let p = pt (r_right activeGeo - rw normalGeo - sw offset) (r_bottom activeGeo - rh normalGeo - sh offset) in
      if px p \<ge> r_left validGeo \<and> py p \<ge> r_top validGeo then (p, dir)
      else (pt (min (r_right validGeo - rw normalGeo) (r_left activeGeo + sw offset))
               (min (r_bottom validGeo - rh normalGeo) (r_top activeGeo + sh offset)), PlaceBottomRight))"

definition constrainToValidArea :: "qpoint \<Rightarrow> qsize \<Rightarrow> qrect \<Rightarrow> qpoint" where
  "constrainToValidArea pos z validGeo =
     (let x = max (px pos) (r_left validGeo); x = min x (r_right validGeo - sw z);
          y = max (py pos) (r_top validGeo); y = min y (r_bottom validGeo - sh z)
      in pt x y)"

definition DIFF_APP_OFFSET_FACTOR :: real where "DIFF_APP_OFFSET_FACTOR = 2"
definition SAME_APP_OFFSET_FACTOR :: real where "SAME_APP_OFFSET_FACTOR = 1"

text \<open>The window that a new one is placed next to.\<close>

definition referenceWindow :: "wmodel \<Rightarrow> sid \<Rightarrow> sid option" where
  "referenceWindow m x =
     (if latestActiveSurface m = Some x then activePenultimateWindow m else latestActiveSurface m)"

definition placeSmartCascaded :: "oid \<Rightarrow> sid \<Rightarrow> 'a pstate_scheme \<Rightarrow> 'a pstate_scheme result" where
  "placeSmartCascaded k x s =
     (case workspaceModel s (sw_workspaceId (wrappers s x)) of
        None \<Rightarrow> Inl QAssert
      | Some wpModel \<Rightarrow>
          (case referenceWindow wpModel x of
             None \<Rightarrow> placeCentered k x s
           | Some y \<Rightarrow>
               let validGeo = validGeometry s k;
                   normalGeo = normalGeometry (geo s x);
                   activeGeo = normalGeometry (geo s y);
                   factor = (if sw_appId (wrappers s y) \<noteq> sw_appId (wrappers s x) then DIFF_APP_OFFSET_FACTOR else SAME_APP_OFFSET_FACTOR);
                   bar = titlebarGeometry s y;
                   offset = (if isNullRect bar then windowTitlebarHeight s else rh bar) * factor;
                   (newPos, dir) = (if o_direction (outs s k) = PlaceBottomRight
                     then calculateBottomRightPosition activeGeo normalGeo validGeo (sz offset offset) (o_direction (outs s k))
                     else calculateTopLeftPosition activeGeo normalGeo validGeo (sz offset offset) (o_direction (outs s k)));
                   s = mod_out (\<lambda>d. d\<lparr>o_direction := dir\<rparr>) k s;
                   newPos = constrainToValidArea newPos (r_size normalGeo) validGeo
               in moveSurfaceWithTitlebarClamp k x newPos s))"

section \<open>Popups\<close>

definition POPUP_EDGE_MARGIN :: real where "POPUP_EDGE_MARGIN = 10"

text \<open>\<^verbatim>\<open>QRect::bottomLeft\<close> names the last row of an integer rectangle.\<close>

definition popupDPos :: "'a pstate_scheme \<Rightarrow> sid \<Rightarrow> qpoint option" where
  "popupDPos s x =
     (if sw_type (wrappers s x) = XdgPopup \<and> implicitPosition s x \<noteq> None then implicitPosition s x
      else if sw_type (wrappers s x) = InputPopup then
        (case cursorRect s x of
           Some r \<Rightarrow>
             let dPos = pt (rx r) (ry r + rh r - 1) in
             (case sw_parentSurface (wrappers s x) of
                Some p \<Rightarrow>
                  if sw_shellSurface (wrappers s p)
                  then Some (pt (px dPos - px (contentTopLeft s p)) (py dPos - py (contentTopLeft s p)))
                  else Some dPos
              | None \<Rightarrow> Some dPos)
         | None \<Rightarrow> None)
      else None)"

definition calculateBasePosition :: "'a pstate_scheme \<Rightarrow> sid \<Rightarrow> qpoint \<Rightarrow> qpoint" where
  "calculateBasePosition s x dPos =
     (case sw_parentSurface (wrappers s x) of
        None \<Rightarrow> pt 0 0
      | Some p \<Rightarrow>
          if \<not> surfaceItem (geo s p) then pt 0 0
          else
            let titlebarOffset = (if isNullRect (titlebarGeometry s p) then 0 else rh (titlebarGeometry s p))
            in pt (rx (geometry (geo s p)) + px (surfaceItemPosition s p) + px dPos)
                  (ry (geometry (geo s p)) + py (surfaceItemPosition s p) + py dPos + titlebarOffset))"

definition adjustToOutputBounds :: "qpoint \<Rightarrow> qrect \<Rightarrow> qrect \<Rightarrow> qpoint" where
  "adjustToOutputBounds pos normalGeo outputRect =
     (let x = (if px pos + rw normalGeo > r_right outputRect - POPUP_EDGE_MARGIN
               then r_right outputRect - rw normalGeo - POPUP_EDGE_MARGIN else px pos);
          x = (if x < r_left outputRect + POPUP_EDGE_MARGIN then r_left outputRect + POPUP_EDGE_MARGIN else x);
          y = (if py pos + rh normalGeo > r_bottom outputRect - POPUP_EDGE_MARGIN
               then r_bottom outputRect - rh normalGeo - POPUP_EDGE_MARGIN else py pos);
          y = (if y < r_top outputRect + POPUP_EDGE_MARGIN then r_top outputRect + POPUP_EDGE_MARGIN else y)
      in pt x y)"

definition handleLayerShellPopup :: "sid \<Rightarrow> qrect \<Rightarrow> 'a pstate_scheme \<Rightarrow> 'a pstate_scheme result" where
  "handleLayerShellPopup x normalGeo s =
     (case sw_parentSurface (wrappers s x) of
        None \<Rightarrow> Inr s
      | Some p \<Rightarrow>
          (case sw_ownsOutput (wrappers s p) of
             None \<Rightarrow> Inr s
           | Some k \<Rightarrow>
               (case popupDPos s x of
                  None \<Rightarrow> Inr s
                | Some dPos \<Rightarrow>
                    let pos = calculateBasePosition s x dPos in
                    if isNullPoint pos then Inr s
                    else moveNormalGeometryInOutput x (adjustToOutputBounds pos normalGeo (out_geometry s k)) s)))"

definition handleRegularPopup :: "oid \<Rightarrow> sid \<Rightarrow> qrect \<Rightarrow> oid \<Rightarrow> 'a pstate_scheme \<Rightarrow> 'a pstate_scheme result" where
  "handleRegularPopup k x normalGeo target s =
     (if isEmptyRect normalGeo then Inr s
      else
        (case popupDPos s x of
           None \<Rightarrow> Inr s
         | Some dPos \<Rightarrow>
             let pos = calculateBasePosition s x dPos in
             if isNullPoint pos then Inr s
             else
               let outputRect = out_geometry s target;
                   pos = (if px pos < r_left outputRect then pt (r_left outputRect) (py pos) else pos);
                   pos = (if px pos + rw normalGeo > r_right outputRect
                          then pt (r_right outputRect - rw normalGeo) (py pos) else pos);
                   pos = adjustToOutputBounds pos normalGeo outputRect;
                   s = mod_out (\<lambda>d. d\<lparr>o_positionCache := (o_positionCache d)(x \<mapsto> (pos, moveTopLeft pos normalGeo))\<rparr>) k s
               in moveNormalGeometryInOutput x pos s))"

definition clearPopupCache :: "sid \<Rightarrow> 'a pstate_scheme \<Rightarrow> output_rec \<Rightarrow> output_rec" where
  "clearPopupCache x s d =
     (if sw_type (wrappers s x) = XdgPopup \<or> isInputPopupLike (wrappers s x)
      then d\<lparr>o_positionCache := (o_positionCache d)(x := None)\<rparr> else d)"

definition arrangePopupSurface :: "oid \<Rightarrow> sid \<Rightarrow> 'a pstate_scheme \<Rightarrow> 'a pstate_scheme result" where
  "arrangePopupSurface k x s =
     (case sw_parentSurface (wrappers s x) of
        None \<Rightarrow> Inr s
      | Some p \<Rightarrow>
          let normalGeo = normalGeometry (geo s x) in
          if isEmptyRect normalGeo then Inr s
          else
            let target = (if sw_type (wrappers s x) = XdgPopup then outputAtCursor s
                          else if isInputPopupLike (wrappers s x) then sw_ownsOutput (wrappers s p)
                          else None) in
            (case target of
               None \<Rightarrow> Inr s
             | Some t \<Rightarrow>
                 if sw_type (wrappers s p) = Layer then handleLayerShellPopup x normalGeo s
                 else handleRegularPopup k x normalGeo t s))"

section \<open>Arranging the windows of an output\<close>

definition truncate :: "real \<Rightarrow> int" where
  "truncate v = (if 0 \<le> v then \<lfloor>v\<rfloor> else \<lceil>v\<rceil>)"

text \<open>The place that a window keeps, as a share of the room it has, when the output changes.\<close>

definition positionRatio :: "qrect \<Rightarrow> qrect \<Rightarrow> qpoint" where
  "positionRatio validGeo normalGeo =
     pt (if rw validGeo > rw normalGeo then qBound 0 ((rx normalGeo - rx validGeo) / (rw validGeo - rw normalGeo)) 1 else 1 / 2)
        (if rh validGeo > rh normalGeo then qBound 0 ((ry normalGeo - ry validGeo) / (rh validGeo - rh normalGeo)) 1 else 1 / 2)"

definition positionForRatio :: "qpoint \<Rightarrow> qrect \<Rightarrow> qrect \<Rightarrow> qpoint" where
  "positionForRatio ratio validGeo normalGeo =
     (let pos = pt (rx validGeo + px ratio * (rw validGeo - rw normalGeo)) (ry validGeo + py ratio * (rh validGeo - rh normalGeo));
          minVisibleX = of_int (min 100 (truncate (rw normalGeo * (3 / 10))));
          minVisibleY = of_int (min 100 (truncate (rh normalGeo * (3 / 10))))
      in pt (qBound (r_left validGeo - rw normalGeo + minVisibleX) (px pos) (r_right validGeo - minVisibleX))
            (qBound (r_top validGeo - rh normalGeo + minVisibleY) (py pos) (r_bottom validGeo - minVisibleY)))"

definition placeNonLayerSurface :: "oid \<Rightarrow> sid \<Rightarrow> arrange_reason \<Rightarrow> 'a pstate_scheme \<Rightarrow> 'a pstate_scheme result" where
  "placeNonLayerSurface k x reason s =
     (let validGeo = validGeometry s k; normalGeo = normalGeometry (geo s x); w = wrappers s x in
       if positionAutomatic (geo s x) then
         (if isEmptyRect normalGeo then Inr s
          else
            (case sw_parentSurface w of
               Some p \<Rightarrow>
                 if sw_type w = XdgPopup \<or> sw_type w = InputPopup then arrangePopupSurface k x s
                 else
                   let pg = geometry (geo s p); g = geometry (geo s x);
                       corner = pt (rx pg + (rw pg - rw g) / 2) (ry pg + (rh pg - rh g) / 2) in
                   if sw_ownsOutput (wrappers s p) \<noteq> Some k then moveNormalGeometryInOutput x corner s
                   else moveSurfaceWithTitlebarClamp k x corner s
             | None \<Rightarrow>
                 if reason \<noteq> InitialPlacement then
                   (let constrained = constrainToValidArea (topLeft normalGeo) (r_size normalGeo) validGeo in
                    if constrained \<noteq> topLeft normalGeo then moveSurfaceWithTitlebarClamp k x constrained s else Inr s)
                 else
                   rbind (deref (sw_ownsOutput w)) (\<lambda>own.
                   let outputValidGeometry = validGeometry s own;
                       s = (if rw normalGeo > rw outputValidGeometry \<or> rh normalGeo > rh outputValidGeometry
                            then snd (resize x (r_size outputValidGeometry) False s) else s) in
                   if sw_type w = XdgToplevel \<or> sw_type w = SplashScreen then placeSmartCascaded k x s
                   else placeCentered k x s)))
       else if reason = OutputGeometryChanged then
         (let ratio = (case o_ratio (outs s k) x of Some q \<Rightarrow> q | None \<Rightarrow> positionRatio validGeo normalGeo);
              s = mod_out (\<lambda>d. d\<lparr>o_ratio := (o_ratio d)(x \<mapsto> ratio)\<rparr>) k s
          in moveSurfaceWithTitlebarClamp k x (positionForRatio ratio validGeo normalGeo) s)
       else
         (case clientRequstPos (geo s x) of
            Some p \<Rightarrow> placeClientRequstPos k x p s
          | None \<Rightarrow>
              if autoPlaceCursorOffset (geo s x) \<noteq> None \<and> reason = InitialPlacement then placeUnderCursor k x s
              else if reason = LayerSurfaceRemoved \<or> reason = ExclusiveZoneChanged
                then moveSurfaceWithTitlebarClamp k x (topLeft normalGeo) s
              else Inr s))"

definition arrangeNonLayerSurface :: "oid \<Rightarrow> sid \<Rightarrow> arrange_reason \<Rightarrow> 'a pstate_scheme \<Rightarrow> 'a pstate_scheme result" where
  "arrangeNonLayerSurface k x reason s =
     rbind (qassert (sw_type (wrappers s x) \<noteq> Layer)) (\<lambda>_.
     if sw_isIMCandidatePanel (wrappers s x) then Inr s
     else if sw_type (wrappers s x) = LockScreen then Inr s
     else
       rbind (setFullscreenGeometry x (out_geometry s k) s) (\<lambda>s.
       rbind (setMaximizedGeometry x (validGeometry s k) s) (placeNonLayerSurface k x reason)))"

definition arrangeNonLayerSurfaces :: "oid \<Rightarrow> arrange_reason \<Rightarrow> 'a pstate_scheme \<Rightarrow> 'a pstate_scheme result" where
  "arrangeNonLayerSurfaces k reason s =
     rfold (\<lambda>x s.
       if sw_type (wrappers s x) = Layer \<or> isInputPopupLike (wrappers s x) \<or> \<not> hasInitializeContainer (wrappers s x) then Inr s
       else arrangeNonLayerSurface k x reason s) (o_surfaces (outs s k)) s"

section \<open>Layer surfaces\<close>

definition on_out :: "(output_rec \<Rightarrow> output_rec result) \<Rightarrow> oid \<Rightarrow> 'a pstate_scheme \<Rightarrow> 'a pstate_scheme result" where
  "on_out f k s = rbind (f (outs s k)) (\<lambda>d. Inr (mod_out (\<lambda>_. d) k s))"

definition reserveZone :: "sid \<Rightarrow> layer_props \<Rightarrow> output_rec \<Rightarrow> output_rec result" where
  "reserveZone x l d =
     (if 0 < l_exclusiveZone l then
        (case getExclusiveZoneEdge (l_ancher l) of
           Some e \<Rightarrow> setExclusiveZone e (Shell x) (l_exclusiveZone l) d
         | None \<Rightarrow> Inr d)
      else Inr d)"

definition anchoredGeometry :: "layer_props \<Rightarrow> qrect \<Rightarrow> qrect" where
  "anchoredGeometry l validGeo =
     (let anchor = l_ancher l;
          g = rect (pt 0 0) (l_desiredSize l);
          g = (if LeftEdge \<in> anchor \<and> RightEdge \<in> anchor then (moveLeft (r_left validGeo) g)\<lparr>rw := rw validGeo\<rparr>
               else if LeftEdge \<in> anchor then moveLeft (r_left validGeo) g
               else if RightEdge \<in> anchor then moveRight (r_right validGeo) g
               else moveLeft (r_left validGeo + (rw validGeo - rw g) / 2) g);
          g = (if TopEdge \<in> anchor \<and> BottomEdge \<in> anchor then (moveTop (r_top validGeo) g)\<lparr>rh := rh validGeo\<rparr>
               else if TopEdge \<in> anchor then moveTop (r_top validGeo) g
               else if BottomEdge \<in> anchor then moveBottom (r_bottom validGeo) g
               else moveTop (r_top validGeo + (rh validGeo - rh g) / 2) g)
      in g)"

definition layerArea :: "'a pstate_scheme \<Rightarrow> oid \<Rightarrow> layer_props \<Rightarrow> qrect" where
  "layerArea s k l =
     marginsRemoved (l_margins l) (if l_exclusiveZone l = - 1 then out_geometry s k else validGeometry s k)"

definition arrangeLayerSurface :: "oid \<Rightarrow> sid \<Rightarrow> 'a pstate_scheme \<Rightarrow> 'a pstate_scheme result" where
  "arrangeLayerSurface k x s =
     (let l = layers s x in
      rbind (qassert (sw_shellSurface (wrappers s x))) (\<lambda>_.
      if \<not> l_initialized l then Inr s
      else
        let surfaceGeo = anchoredGeometry l (layerArea s k l) in
        rbind (on_out (reserveZone x l) k s) (\<lambda>s.
        rbind (setSize x (r_size surfaceGeo) s) (\<lambda>s.
        setPosition x (topLeft surfaceGeo) s))))"

definition releaseZones :: "oid \<Rightarrow> 'a pstate_scheme \<Rightarrow> 'a pstate_scheme result" where
  "releaseZones k s =
     rfold (\<lambda>x s.
       if sw_type (wrappers s x) = Layer \<and> sw_shellSurface (wrappers s x)
       then on_out (\<lambda>d. rbind (removeExclusiveZone (Shell x) d) (\<lambda>(_, d). Inr d)) k s else Inr s) (o_surfaces (outs s k)) s"

definition arrangeLayersWith :: "(int \<Rightarrow> bool) \<Rightarrow> oid \<Rightarrow> 'a pstate_scheme \<Rightarrow> 'a pstate_scheme result" where
  "arrangeLayersWith P k s =
     rfold (\<lambda>x s.
       if sw_type (wrappers s x) = Layer then
         rbind (qassert (sw_shellSurface (wrappers s x))) (\<lambda>_.
         if P (l_exclusiveZone (layers s x)) then arrangeLayerSurface k x s else Inr s)
       else Inr s) (o_surfaces (outs s k)) s"

definition arrangeLayerSurfaces :: "oid \<Rightarrow> 'a pstate_scheme \<Rightarrow> 'a pstate_scheme result" where
  "arrangeLayerSurfaces k s =
     (let oldExclusiveZone = exclusiveZone (outs s k) in
      rbind (releaseZones k s) (\<lambda>s.
      rbind (arrangeLayersWith (\<lambda>z. 0 < z) k s) (\<lambda>s.
      rbind (arrangeLayersWith (\<lambda>z. z \<le> 0) k s) (\<lambda>s.
      if oldExclusiveZone \<noteq> exclusiveZone (outs s k) then arrangeNonLayerSurfaces k ExclusiveZoneChanged s
      else Inr s))))"

definition arrangeAllSurfaces :: "oid \<Rightarrow> 'a pstate_scheme \<Rightarrow> 'a pstate_scheme result" where
  "arrangeAllSurfaces k s = rbind (arrangeLayerSurfaces k s) (arrangeNonLayerSurfaces k OutputGeometryChanged)"

section \<open>Surfaces of an output\<close>

text \<open>\<open>layoutSurface\<close> is connected to the size and the container of a surface that is not a layer.\<close>

definition layoutSurface :: "oid \<Rightarrow> sid \<Rightarrow> 'a pstate_scheme \<Rightarrow> 'a pstate_scheme result" where
  "layoutSurface k x s =
     (if \<not> hasInitializeContainer (wrappers s x) then Inr s else arrangeNonLayerSurface k x InitialPlacement s)"

definition out_addSurface :: "oid \<Rightarrow> sid \<Rightarrow> 'a pstate_scheme \<Rightarrow> 'a pstate_scheme result" where
  "out_addSurface k x s =
     rbind (qassert (\<not> hasObject x (o_surfaces (outs s k)))) (\<lambda>_.
     let s = mod_out (\<lambda>d. d\<lparr>o_surfaces := snd (addObject x (o_surfaces d))\<rparr>) k s in
     if sw_type (wrappers s x) = Layer then arrangeLayerSurfaces k s else layoutSurface k x s)"

definition out_removeSurface :: "oid \<Rightarrow> sid \<Rightarrow> 'a pstate_scheme \<Rightarrow> 'a pstate_scheme result" where
  "out_removeSurface k x s =
     (let s = mod_out (clearPopupCache x s) k s;
          s = mod_out (\<lambda>d. d\<lparr>o_ratio := (o_ratio d)(x := None)\<rparr>) k s in
      rbind (qassert (hasObject x (o_surfaces (outs s k)))) (\<lambda>_.
      let s = mod_out (\<lambda>d. d\<lparr>o_surfaces := snd (removeObject x (o_surfaces d))\<rparr>) k s in
      if sw_type (wrappers s x) \<noteq> Layer then Inr s
      else
        rbind (if sw_shellSurface (wrappers s x) then removeExclusiveZone (Shell x) (outs s k) else Inr (False, outs s k))
          (\<lambda>(exclusiveZoneRemoved, d).
        rbind (arrangeLayerSurfaces k (mod_out (\<lambda>_. d) k s)) (\<lambda>s.
        if exclusiveZoneRemoved then arrangeNonLayerSurfaces k LayerSurfaceRemoved s else Inr s))))"

section \<open>The preferred scale\<close>

definition hypot :: "real \<Rightarrow> real \<Rightarrow> real" where
  "hypot a b = sqrt (a\<^sup>2 + b\<^sup>2)"

definition calcPreferredScale :: "real \<Rightarrow> real \<Rightarrow> real \<Rightarrow> real \<Rightarrow> real" where
  "calcPreferredScale widthPx heightPx widthMm heightMm =
     (if widthPx \<le> 0 \<or> heightPx \<le> 0 \<or> widthMm \<le> 0 \<or> heightMm \<le> 0 then 1
      else
        let lenPx = hypot widthPx heightPx; lenMm = hypot widthMm heightMm;
            lenPxStd = hypot 1920 1080; lenMmStd = hypot 477 268;
            a = 158 / 100000;
            fix1 = (lenMm - lenMmStd) * (lenPx / lenPxStd) * a;
            scaleFactor = (lenPx / lenMm) / (lenPxStd / lenMmStd) + fix1
        in std_round (scaleFactor * 4) / 4)"

end
