(* ===== verification/Window_States.thy ===== *)
theory Window_States
  imports Window_Geometry
begin

text \<open>
  What the operations of src/src/surface/surfacewrapper.cpp on geometry and state promise: changes of the
  geometry end after one nested call, an interactive resize keeps the edge opposite to the dragged
  one, and the client is told the state its window has.
\<close>

section \<open>Changing the geometry\<close>

definition moves_idle :: "'a gstate_scheme \<Rightarrow> bool" where
  "moves_idle s = (distinct (map fst (moves s)) \<and> (\<forall>(k, m)\<in>set (moves s). \<not> mr_settingPosition m))"

text \<open>What a change of the geometry of \<open>x\<close> leaves alone: all but its two geometries and the requests to
  resize it.\<close>

definition geometry_only :: "sid \<Rightarrow> 'a gstate_scheme \<Rightarrow> 'a gstate_scheme \<Rightarrow> bool" where
  "geometry_only x s t = (\<exists>g n rs. t = s\<lparr>geo := (geo s)(x := (geo s x)\<lparr>geometry := g, normalGeometry := n\<rparr>),
     requests := requests s @ map (ResizeTo x) rs\<rparr>)"

lemma geometry_only_refl [simp, intro]: "geometry_only x s s"
  unfolding geometry_only_def
  by (rule exI [of _ "geometry (geo s x)"], rule exI [of _ "normalGeometry (geo s x)"], rule exI [of _ "[]"]) simp

lemma geometry_only_trans:
  assumes "geometry_only x s t" "geometry_only x t u"
  shows "geometry_only x s u"
proof -
  obtain g n rs where t: "t = s\<lparr>geo := (geo s)(x := (geo s x)\<lparr>geometry := g, normalGeometry := n\<rparr>),
     requests := requests s @ map (ResizeTo x) rs\<rparr>" using assms(1) unfolding geometry_only_def by blast
  obtain g' n' rs' where u: "u = t\<lparr>geo := (geo t)(x := (geo t x)\<lparr>geometry := g', normalGeometry := n'\<rparr>),
     requests := requests t @ map (ResizeTo x) rs'\<rparr>" using assms(2) unfolding geometry_only_def by blast
  show ?thesis unfolding geometry_only_def
    by (rule exI [of _ g'], rule exI [of _ n'], rule exI [of _ "rs @ rs'"]) (simp add: u t)
qed

lemma geometry_only_frame:
  assumes "geometry_only x s t"
  shows "wrappers t = wrappers s" "moves t = moves s" "outputPlace t = outputPlace s" "outputScale t = outputScale s"
    "outputEnabled t = outputEnabled s" "windowDpr t = windowDpr s" "titleBarSize t = titleBarSize s"
    "y \<noteq> x \<Longrightarrow> geo t y = geo s y" "surfaceState (geo t y) = surfaceState (geo s y)"
    "previousSurfaceState (geo t y) = previousSurfaceState (geo s y)" "appliedSurfaceState (geo t y) = appliedSurfaceState (geo s y)"
    "geometryAnimation (geo t y) = geometryAnimation (geo s y)" "surfaceItem (geo t y) = surfaceItem (geo s y)"
    "onOutputs (geo t y) = onOutputs (geo s y)" "hasSurface (geo t y) = hasSurface (geo s y)"
    "maximizedGeometry (geo t y) = maximizedGeometry (geo s y)" "fullscreenGeometry (geo t y) = fullscreenGeometry (geo s y)"
    "tilingGeometry (geo t y) = tilingGeometry (geo s y)" "aboutToRemove t y = aboutToRemove s y"
    "moves_idle t = moves_idle s" "titleBar (geo t y) = titleBar (geo s y)" "positionAutomatic (geo t y) = positionAutomatic (geo s y)"
    "\<exists>rs. requests t = requests s @ map (ResizeTo x) rs"
  using assms by (auto simp: geometry_only_def aboutToRemove_def moves_idle_def split: if_splits)

lemma geometry_only_steps:
  "geometry_only x s (mod_geo (\<lambda>g. g\<lparr>geometry := r\<rparr>) x s)"
  "geometry_only x s (setNormalGeometry x r s)"
  "geometry_only x s (snd (resize x z b s))"
proof -
  show "geometry_only x s (mod_geo (\<lambda>g. g\<lparr>geometry := r\<rparr>) x s)" unfolding geometry_only_def mod_geo_def
    by (rule exI [of _ r], rule exI [of _ "normalGeometry (geo s x)"], rule exI [of _ "[]"]) simp
  show "geometry_only x s (setNormalGeometry x r s)" unfolding geometry_only_def mod_geo_def setNormalGeometry_def
    by (rule exI [of _ "geometry (geo s x)"], rule exI [of _ r], rule exI [of _ "[]"]) simp
  have "geometry_only x s (ask (ResizeTo x z) s)" unfolding geometry_only_def ask_def
    by (rule exI [of _ "geometry (geo s x)"], rule exI [of _ "normalGeometry (geo s x)"], rule exI [of _ "[z]"]) simp
  then show "geometry_only x s (snd (resize x z b s))" by (simp add: resize_def)
qed

text \<open>What the pixel grid of a window depends on.\<close>

lemma getOutputDevicePixelRatio_cong:
  assumes "outputScale t = outputScale s" "outputEnabled t = outputEnabled s" "outputPlace t = outputPlace s" "windowDpr t = windowDpr s"
    "onOutputs (geo t x) = onOutputs (geo s x)" "hasSurface (geo t x) = hasSurface (geo s x)"
  shows "getOutputDevicePixelRatio t x = getOutputDevicePixelRatio s x"
  by (simp add: fun_eq_iff getOutputDevicePixelRatio_def assms Let_def cong: if_cong option.case_cong)

lemma align_cong:
  assumes "outputScale t = outputScale s" "outputEnabled t = outputEnabled s" "outputPlace t = outputPlace s" "windowDpr t = windowDpr s"
    "onOutputs (geo t x) = onOutputs (geo s x)" "hasSurface (geo t x) = hasSurface (geo s x)"
  shows "alignToPixelGrid t x = alignToPixelGrid s x" "alignGeometryToPixelGrid t x = alignGeometryToPixelGrid s x"
  by (simp_all add: fun_eq_iff alignToPixelGrid_def alignGeometryToPixelGrid_def getOutputDevicePixelRatio_cong [OF assms])

lemma align_geo [simp]:
  "alignToPixelGrid (mod_geo (\<lambda>g. g\<lparr>geometry := r\<rparr>) x s) y = alignToPixelGrid s y"
  by (rule align_cong) (simp_all add: mod_geo_def)

text \<open>The seat whose resize the filter finds.\<close>

definition resizing :: "sid \<Rightarrow> nat \<times> move_resize \<Rightarrow> bool" where
  "resizing x e = (mr_surface (snd e) = Some x \<and> mr_edges (snd e) \<noteq> {})"

definition resizer :: "'a gstate_scheme \<Rightarrow> sid \<Rightarrow> (nat \<times> move_resize) option" where
  "resizer s x = find (resizing x) (moves s)"

lemma filter_seats_none: "find (resizing x) ms = None \<Longrightarrow> filter_seats sp x new old ms s = Inr (False, new, s)"
  by (induction ms) (auto simp: resizing_def split: if_splits)

lemma filter_seats_some:
  "find (resizing x) ms = Some (k, m) \<Longrightarrow> filter_seats sp x new old ms s = filter_seats sp x new old [(k, m)] s"
  by (induction ms) (auto simp: resizing_def split: if_splits)

lemma find_SomeD: "find P ms = Some e \<Longrightarrow> e \<in> set ms \<and> P e"
  by (induction ms) (auto split: if_splits)

lemma find_mod_move:
  assumes "find (resizing x) ms = Some (k, m)" "distinct (map fst ms)" "mr_surface (f m) = mr_surface m" "mr_edges (f m) = mr_edges m"
  shows "find (resizing x) (map (\<lambda>(j, m). if j = k then (j, f m) else (j, m)) ms) = Some (k, f m)"
  using assms(1,2)
proof (induction ms)
  case (Cons e ms)
  obtain j n where e: "e = (j, n)" by (cases e)
  show ?case
  proof (cases "resizing x e")
    case True
    with Cons.prems assms(3,4) show ?thesis by (simp add: e resizing_def)
  next
    case False
    then have "find (resizing x) ms = Some (k, m)" using Cons.prems by simp
    moreover from this have "(k, m) \<in> set ms" using find_SomeD by metis
    then have "j \<noteq> k" using Cons.prems(2) by (force simp: e)
    ultimately show ?thesis using Cons False by (simp add: e)
  qed
qed simp

lemma setPosition_nested_flagged:
  assumes "resizer s x = Some (k, m)" "mr_settingPosition m" "sw_container (wrappers s x) = Some c"
  shows "setPosition_nested x p s = Inr (mod_geo (\<lambda>g. g\<lparr>geometry := moveTopLeft p (geometry (geo s x))\<rparr>) x s)"
proof (cases "topLeft (geometry (geo s x)) = p")
  case True
  then have "moveTopLeft p (geometry (geo s x)) = geometry (geo s x)"
    by (auto intro: qrect_eqI simp: moveTopLeft_def topLeft_def)
  with True show ?thesis by (simp add: setPosition_nested_def setPosition_with_def Let_def mod_geo_def)
next
  case False
  have "r_size (moveTopLeft p (geometry (geo s x))) = r_size (geometry (geo s x))" by (simp add: r_size_def moveTopLeft_def)
  moreover have "mr_surface m = Some x" "mr_edges m \<noteq> {}"
    using find_SomeD [of "resizing x" "moves s" "(k, m)"] assms(1) by (simp_all add: resizer_def resizing_def)
  ultimately show ?thesis
    using False assms
    by (simp add: filter_seats_some [of x "moves s" k m] setPosition_nested_def setPosition_with_def geometryChange_with_def resizer_def mod_geo_def Let_def)
qed

lemma mod_geo_same: "geometry (geo s x) = r \<Longrightarrow> mod_geo (\<lambda>g. g\<lparr>geometry := r\<rparr>) x s = s"
  by (simp add: mod_geo_def fun_upd_idem)

text \<open>The filter corrects the position of a window that is being resized, and nothing else.\<close>

definition corrected :: "'a gstate_scheme \<Rightarrow> sid \<Rightarrow> qedge set \<Rightarrow> qrect \<Rightarrow> qrect \<Rightarrow> qrect" where
  "corrected s x edges new old =
     (let a = adjustForResize new old edges in
      if topLeft a = topLeft new then new else moveTopLeft (alignToPixelGrid s x (topLeft a)) a)"

lemma filter_seats_resizing:
  assumes idle: "moves_idle s" and m: "resizer s x = Some (k, m)" and c: "sw_container (wrappers s x) = Some c"
    and g: "geometry (geo s x) = new"
  shows "filter_seats setPosition_nested x new old (moves s) s
    = Inr (False, corrected s x (mr_edges m) new old, mod_geo (\<lambda>g. g\<lparr>geometry := corrected s x (mr_edges m) new old\<rparr>) x s)"
proof -
  let ?a = "adjustForResize new old (mr_edges m)"
  have f: "find (resizing x) (moves s) = Some (k, m)" and d: "distinct (map fst (moves s))"
    using m idle by (simp_all add: resizer_def moves_idle_def)
  then have mem: "(k, m) \<in> set (moves s)" "mr_surface m = Some x" "mr_edges m \<noteq> {}"
    using find_SomeD [OF f] by (simp_all add: resizing_def)
  then have flag: "\<not> mr_settingPosition m" using idle by (auto simp: moves_idle_def)
  show ?thesis
  proof (cases "topLeft ?a = topLeft new")
    case True
    then show ?thesis using mem flag g
      by (simp add: filter_seats_some [OF f] corrected_def Let_def mod_geo_same)
  next
    case False
    let ?f = "\<lambda>m. m\<lparr>mr_settingPosition := True\<rparr>" and ?h = "\<lambda>m. m\<lparr>mr_settingPosition := False\<rparr>"
    let ?s = "mod_move ?f k s"
    let ?p = "alignToPixelGrid ?s x (topLeft ?a)"
    have al: "alignToPixelGrid ?s x = alignToPixelGrid s x"
      by (rule align_cong) (simp_all add: mod_move_def)
    have "resizer ?s x = Some (k, ?f m)"
      using find_mod_move [OF f d, of ?f] by (simp add: resizer_def mod_move_def)
    from setPosition_nested_flagged [OF this, where p = "alignToPixelGrid ?s x (topLeft ?a)"]
    have nested: "setPosition_nested x ?p ?s = Inr (mod_geo (\<lambda>g. g\<lparr>geometry := moveTopLeft ?p (geometry (geo ?s x))\<rparr>) x ?s)"
      using c by (simp add: mod_move_def)
    have restored: "mod_move ?h k (mod_geo w x ?s) = mod_geo w x s" for w
    proof -
      have "map (\<lambda>(j, m). if j = k then (j, ?h m) else (j, m)) (map (\<lambda>(j, m). if j = k then (j, ?f m) else (j, m)) (moves s)) = moves s"
        using idle by (subst map_map, intro map_idI) (auto simp: moves_idle_def)
      then show ?thesis by (simp add: mod_move_def mod_geo_def)
    qed
    have pos: "moveTopLeft q (geometry (geo ?s x)) = moveTopLeft q ?a" for q
      using g by (auto intro!: qrect_eqI simp: moveTopLeft_def mod_move_def adjustForResize_def Let_def moves)
    show ?thesis
      using False mem flag nested restored
      by (simp add: filter_seats_some [OF f] corrected_def Let_def pos al)
  qed
qed

lemma filter_ok:
  assumes "moves_idle s" "geometry (geo s x) = new"
  shows "\<exists>r. (if sw_container (wrappers s x) = None then Inr (False, new, s)
            else filter_seats setPosition_nested x new old (moves s) s)
     = Inr (False, r, mod_geo (\<lambda>g. g\<lparr>geometry := r\<rparr>) x s)
     \<and> r = (case resizer s x of Some (k, m) \<Rightarrow> if sw_container (wrappers s x) = None then new else corrected s x (mr_edges m) new old | None \<Rightarrow> new)"
proof (cases "sw_container (wrappers s x) = None")
  case True
  then show ?thesis using assms(2) by (auto simp: mod_geo_same split: option.splits)
next
  case False
  then obtain c where c: "sw_container (wrappers s x) = Some c" by blast
  show ?thesis
  proof (cases "resizer s x")
    case None
    then show ?thesis using c assms(2) by (simp add: filter_seats_none resizer_def mod_geo_same)
  next
    case (Some e)
    then show ?thesis using c filter_seats_resizing [OF assms(1) _ c assms(2)] by (cases e) simp
  qed
qed

text \<open>The geometry a window ends with when it is given the geometry \<open>new\<close>.\<close>

definition settled :: "'a gstate_scheme \<Rightarrow> sid \<Rightarrow> qrect \<Rightarrow> qrect \<Rightarrow> qrect" where
  "settled s x new old = (case resizer s x of
     Some (k, m) \<Rightarrow> if sw_container (wrappers s x) = None then new else corrected s x (mr_edges m) new old
   | None \<Rightarrow> new)"

lemma geometryChange_spec:
  assumes "moves_idle s" "geometry (geo s x) = new"
  shows "\<exists>t. geometryChange x new old s = Inr t \<and> geometry_only x s t \<and> geometry (geo t x) = settled s x new old
    \<and> normalGeometry (geo t x) = (if shouldUpdateNormalGeometry s x then settled s x new old else normalGeometry (geo s x))"
proof -
  define r where "r = settled s x new old"
  let ?s = "mod_geo (\<lambda>g. g\<lparr>geometry := r\<rparr>) x s"
  have "(if sw_container (wrappers s x) = None then Inr (False, new, s)
            else filter_seats setPosition_nested x new old (moves s) s) = Inr (False, r, ?s)"
    using filter_ok [OF assms, of old] by (auto simp: r_def settled_def split: option.splits)
  moreover have upd: "shouldUpdateNormalGeometry ?s x = shouldUpdateNormalGeometry s x"
    by (simp add: shouldUpdateNormalGeometry_def mod_geo_def Let_def)
  define u where "u = (if shouldUpdateNormalGeometry s x then setNormalGeometry x r ?s else ?s)"
  define t where "t = (if sizeSet (geo u x) then snd (resize x (r_size r) False u) else u)"
  ultimately have "geometryChange x new old s = Inr t"
    by (simp add: geometryChange_def geometryChange_with_def Let_def u_def t_def upd)
  moreover have "geometry_only x s t"
  proof -
    have "geometry_only x s u"
      unfolding u_def using geometry_only_trans [OF geometry_only_steps(1) geometry_only_steps(2)] geometry_only_steps(1)
      by (cases "shouldUpdateNormalGeometry s x") simp_all
    moreover have "geometry_only x u t"
      unfolding t_def using geometry_only_steps(3) by (cases "sizeSet (geo u x)") simp_all
    ultimately show ?thesis by (rule geometry_only_trans)
  qed
  moreover have "geometry (geo t x) = geometry (geo u x)" "normalGeometry (geo t x) = normalGeometry (geo u x)"
    by (simp_all add: t_def resize_def ask_def)
  moreover have "geometry (geo u x) = r" "normalGeometry (geo u x) = (if shouldUpdateNormalGeometry s x then r else normalGeometry (geo s x))"
    by (simp_all add: u_def setNormalGeometry_def mod_geo_def)
  ultimately show ?thesis by (intro exI [of _ t]) (simp add: r_def)
qed

lemma moves_idle_geo [simp]: "moves_idle (mod_geo f x s) = moves_idle s"
  by (simp add: moves_idle_def mod_geo_def)

lemma resizer_geo [simp]: "resizer (mod_geo f x s) y = resizer s y" "wrappers (mod_geo f x s) = wrappers s"
  by (simp_all add: resizer_def mod_geo_def)

lemma settled_geo [simp]: "settled (mod_geo (\<lambda>g. g\<lparr>geometry := r\<rparr>) x s) y a b = settled s y a b"
  by (cases "resizer s y") (auto simp: settled_def corrected_def Let_def)

lemma setPosition_spec:
  assumes "moves_idle s"
  shows "\<exists>t. setPosition x p s = Inr t \<and> geometry_only x s t
    \<and> geometry (geo t x) = (if topLeft (geometry (geo s x)) = p then geometry (geo s x)
         else settled s x (moveTopLeft p (geometry (geo s x))) (geometry (geo s x)))
    \<and> normalGeometry (geo t x) = (if topLeft (geometry (geo s x)) \<noteq> p \<and> shouldUpdateNormalGeometry s x
         then settled s x (moveTopLeft p (geometry (geo s x))) (geometry (geo s x)) else normalGeometry (geo s x))"
proof (cases "topLeft (geometry (geo s x)) = p")
  case True
  then show ?thesis by (simp add: setPosition_def setPosition_with_def Let_def)
next
  case False
  let ?old = "geometry (geo s x)" and ?new = "moveTopLeft p (geometry (geo s x))"
  let ?s = "mod_geo (\<lambda>g. g\<lparr>geometry := ?new\<rparr>) x s"
  obtain t where t: "geometryChange x ?new ?old ?s = Inr t" "geometry_only x ?s t" "geometry (geo t x) = settled ?s x ?new ?old"
    "normalGeometry (geo t x) = (if shouldUpdateNormalGeometry ?s x then settled ?s x ?new ?old else normalGeometry (geo ?s x))"
    using geometryChange_spec [of ?s x ?new ?old] assms by (auto simp: mod_geo_def moves_idle_def)
  have "settled ?s x a b = settled s x a b" "shouldUpdateNormalGeometry ?s x = shouldUpdateNormalGeometry s x"
    "normalGeometry (geo ?s x) = normalGeometry (geo s x)" for a b
    by simp_all (simp_all add: shouldUpdateNormalGeometry_def mod_geo_def Let_def)
  moreover have "geometry_only x s t" using geometry_only_trans [OF geometry_only_steps(1) t(2)] .
  ultimately show ?thesis using False t
    by (simp add: setPosition_def setPosition_with_def geometryChange_def Let_def)
qed

lemma commitSize_spec:
  assumes "moves_idle s"
  shows "\<exists>t. commitSize x z s = Inr t \<and> geometry_only x s t
    \<and> geometry (geo t x) = (if rect (topLeft (geometry (geo s x))) z = geometry (geo s x) then geometry (geo s x)
         else settled s x (rect (topLeft (geometry (geo s x))) z) (geometry (geo s x)))"
proof (cases "rect (topLeft (geometry (geo s x))) z = geometry (geo s x)")
  case True
  then show ?thesis by (simp add: commitSize_def Let_def)
next
  case False
  let ?old = "geometry (geo s x)" and ?new = "rect (topLeft (geometry (geo s x))) z"
  let ?s = "mod_geo (\<lambda>g. g\<lparr>geometry := ?new\<rparr>) x s"
  obtain t where t: "geometryChange x ?new ?old ?s = Inr t" "geometry_only x ?s t" "geometry (geo t x) = settled ?s x ?new ?old"
    using geometryChange_spec [of ?s x ?new ?old] assms by (auto simp: mod_geo_def moves_idle_def)
  have "settled ?s x a b = settled s x a b" for a b
    by simp
  moreover have "geometry_only x s t" using geometry_only_trans [OF geometry_only_steps(1) t(2)] .
  ultimately show ?thesis using False t by (simp add: commitSize_def Let_def)
qed

section \<open>Interactive resizing\<close>

lemma std_round_int: "std_round (of_int n) = of_int n"
  by (auto simp: std_round_def floor_eq_iff ceiling_eq_iff)

lemma std_round_close: "\<bar>std_round v - v\<bar> \<le> 1 / 2"
proof (cases "0 \<le> v")
  case True
  have "of_int \<lfloor>v + 1 / 2\<rfloor> \<le> v + 1 / 2" "v + 1 / 2 < of_int \<lfloor>v + 1 / 2\<rfloor> + 1" by linarith+
  with True show ?thesis unfolding std_round_def abs_le_iff by simp linarith
next
  case False
  have "v - 1 / 2 \<le> of_int \<lceil>v - 1 / 2\<rceil>" "of_int \<lceil>v - 1 / 2\<rceil> < v - 1 / 2 + 1" by linarith+
  with False show ?thesis unfolding std_round_def abs_le_iff by simp linarith
qed

lemma align_close:
  assumes "0 < getOutputDevicePixelRatio s x p"
  shows "\<bar>px (alignToPixelGrid s x p) - px p\<bar> \<le> 1 / (2 * getOutputDevicePixelRatio s x p)"
    "\<bar>py (alignToPixelGrid s x p) - py p\<bar> \<le> 1 / (2 * getOutputDevicePixelRatio s x p)"
proof -
  let ?d = "getOutputDevicePixelRatio s x p"
  have "\<bar>std_round (v * ?d) / ?d - v\<bar> \<le> 1 / (2 * ?d)" for v
  proof -
    have "\<bar>std_round (v * ?d) / ?d - v\<bar> = \<bar>std_round (v * ?d) - v * ?d\<bar> / ?d"
      using assms by (simp add: field_simps flip: abs_div_pos)
    also have "\<dots> \<le> 1 / 2 / ?d" using std_round_close assms by (intro divide_right_mono) simp_all
    finally show ?thesis by simp
  qed
  then show "\<bar>px (alignToPixelGrid s x p) - px p\<bar> \<le> 1 / (2 * ?d)" "\<bar>py (alignToPixelGrid s x p) - py p\<bar> \<le> 1 / (2 * ?d)"
    by (simp_all add: alignToPixelGrid_def Let_def)
qed

definition on_grid :: "real \<Rightarrow> qpoint \<Rightarrow> bool" where
  "on_grid d p = (px p * d \<in> \<int> \<and> py p * d \<in> \<int>)"

lemma align_on_grid:
  assumes "getOutputDevicePixelRatio s x p \<noteq> 0" "on_grid (getOutputDevicePixelRatio s x p) p"
  shows "alignToPixelGrid s x p = p"
  using assms by (auto simp: alignToPixelGrid_def Let_def on_grid_def pt_eq_iff Ints_def std_round_int nonzero_divide_eq_eq)

text \<open>The sides that stay when edges are dragged.\<close>

definition anchor_x :: "qedge set \<Rightarrow> qrect \<Rightarrow> real" where
  "anchor_x e r = (if LeftEdge \<in> e then r_right r else r_left r)"

definition anchor_y :: "qedge set \<Rightarrow> qrect \<Rightarrow> real" where
  "anchor_y e r = (if TopEdge \<in> e then r_bottom r else r_top r)"

lemma adjustForResize_anchors:
  assumes "rx new = rx old" "ry new = ry old"
  shows "anchor_x e (adjustForResize new old e) = anchor_x e old" "anchor_y e (adjustForResize new old e) = anchor_y e old"
    "rw (adjustForResize new old e) = rw new" "rh (adjustForResize new old e) = rh new"
  using assms by (auto simp: adjustForResize_def anchor_x_def anchor_y_def Let_def edge_defs moves)


section \<open>What the client is told\<close>

text \<open>The state of the window as its client knows it: the last requests.\<close>

definition told_maximized :: "sid \<Rightarrow> wl_request list \<Rightarrow> bool" where
  "told_maximized x rs = fold (\<lambda>r v. case r of SetMaximize y b \<Rightarrow> if y = x then b else v | _ \<Rightarrow> v) rs False"

definition told_fullscreen :: "sid \<Rightarrow> wl_request list \<Rightarrow> bool" where
  "told_fullscreen x rs = fold (\<lambda>r v. case r of SetFullScreen y b \<Rightarrow> if y = x then b else v | _ \<Rightarrow> v) rs False"

lemma told_append [simp]:
  "told_maximized x (rs @ [r]) = (case r of SetMaximize y b \<Rightarrow> if y = x then b else told_maximized x rs | _ \<Rightarrow> told_maximized x rs)"
  "told_fullscreen x (rs @ [r]) = (case r of SetFullScreen y b \<Rightarrow> if y = x then b else told_fullscreen x rs | _ \<Rightarrow> told_fullscreen x rs)"
  by (simp_all add: told_maximized_def told_fullscreen_def split: wl_request.splits)

lemma told_resizes [simp]:
  "told_maximized x (rs @ map (ResizeTo y) zs) = told_maximized x rs"
  "told_fullscreen x (rs @ map (ResizeTo y) zs) = told_fullscreen x rs"
proof (induction zs rule: rev_induct)
  case (snoc z zs)
  { case 1 show ?case using snoc(1) told_append(1) [of x "rs @ map (ResizeTo y) zs" "ResizeTo y z"] by simp }
  { case 2 show ?case using snoc(2) told_append(2) [of x "rs @ map (ResizeTo y) zs" "ResizeTo y z"] by simp }
qed simp_all

definition alive :: "'a gstate_scheme \<Rightarrow> sid \<Rightarrow> bool" where
  "alive s x = (\<not> aboutToRemove s x \<and> sw_shellSurface (wrappers s x))"

text \<open>Client and state agree, apart from the time of an animation.\<close>

definition informed :: "'a gstate_scheme \<Rightarrow> sid \<Rightarrow> bool" where
  "informed s x = (told_maximized x (requests s) = (appliedSurfaceState (geo s x) = Maximized)
     \<and> told_fullscreen x (requests s) = (appliedSurfaceState (geo s x) = Fullscreen))"

definition states_ok :: "'a gstate_scheme \<Rightarrow> sid \<Rightarrow> bool" where
  "states_ok s x = (moves_idle s \<and> alive s x \<and> informed s x
     \<and> (geometryAnimation (geo s x) = None \<longrightarrow> appliedSurfaceState (geo s x) = surfaceState (geo s x))
     \<and> (previousSurfaceState (geo s x) = surfaceState (geo s x) \<longrightarrow> surfaceState (geo s x) = Normal))"

text \<open>What a change of state reads and does not change.\<close>

definition fixed_parts :: "'a gstate_scheme \<Rightarrow> sid \<Rightarrow> bool \<times> bool \<times> bool \<times> bool \<times> bool \<times> qrect \<times> qrect \<times> qrect" where
  "fixed_parts s x =
     (sw_container (wrappers s x) = None, sw_isSnapMask (wrappers s x), sw_type (wrappers s x) = XdgToplevel,
      sw_mapped (wrappers s x), hasSurface (geo s x),
      maximizedGeometry (geo s x), fullscreenGeometry (geo s x), tilingGeometry (geo s x))"

lemma fixed_partsD:
  assumes "fixed_parts t x = fixed_parts s x"
  shows "(sw_container (wrappers t x) = None) = (sw_container (wrappers s x) = None)"
    "sw_isSnapMask (wrappers t x) = sw_isSnapMask (wrappers s x)" "unmappedToplevel t x = unmappedToplevel s x"
    "maximizedGeometry (geo t x) = maximizedGeometry (geo s x)" "fullscreenGeometry (geo t x) = fullscreenGeometry (geo s x)"
    "tilingGeometry (geo t x) = tilingGeometry (geo s x)"
  using assms by (simp_all add: fixed_parts_def unmappedToplevel_def)

text \<open>What stays while a state is applied.\<close>

definition same_state :: "sid \<Rightarrow> 'a gstate_scheme \<Rightarrow> 'a gstate_scheme \<Rightarrow> bool" where
  "same_state x s t = (surfaceState (geo t x) = surfaceState (geo s x)
     \<and> previousSurfaceState (geo t x) = previousSurfaceState (geo s x)
     \<and> geometryAnimation (geo t x) = geometryAnimation (geo s x) \<and> alive t x = alive s x \<and> moves t = moves s
     \<and> fixed_parts t x = fixed_parts s x)"

lemma same_state_trans: "same_state x s t \<Longrightarrow> same_state x t u \<Longrightarrow> same_state x s u"
  by (simp add: same_state_def)

lemma geometry_only_same_state:
  assumes "geometry_only x s t"
  shows "same_state x s t" "informed t x = informed s x" "appliedSurfaceState (geo t x) = appliedSurfaceState (geo s x)"
proof -
  obtain rs where rs: "requests t = requests s @ map (ResizeTo x) rs" using geometry_only_frame(23) [OF assms] by blast
  show "same_state x s t"
    using geometry_only_frame(1,2,9,10,12,15-19) [OF assms] by (simp add: same_state_def alive_def fixed_parts_def)
  show a: "appliedSurfaceState (geo t x) = appliedSurfaceState (geo s x)" by (rule geometry_only_frame(11) [OF assms])
  show "informed t x = informed s x" by (simp add: informed_def rs a)
qed

lemma visible_frame:
  "geo (updateVisible x s) = geo s" "requests (updateVisible x s) = requests s" "moves (updateVisible x s) = moves s"
  "alive (updateVisible x s) y = alive s y" "outputPlace (updateVisible x s) = outputPlace s"
  "sw_container (wrappers (updateVisible x s) y) = sw_container (wrappers s y)"
  "fixed_parts (updateVisible x s) y = fixed_parts s y"
  by (simp_all add: updateVisible_def mod_wrapper_def Let_def alive_def aboutToRemove_def fixed_parts_def)

lemma titleBar_frame:
  "surfaceState (geo (updateTitleBar x s) y) = surfaceState (geo s y)"
  "previousSurfaceState (geo (updateTitleBar x s) y) = previousSurfaceState (geo s y)"
  "appliedSurfaceState (geo (updateTitleBar x s) y) = appliedSurfaceState (geo s y)"
  "geometryAnimation (geo (updateTitleBar x s) y) = geometryAnimation (geo s y)"
  "requests (updateTitleBar x s) = requests s" "moves (updateTitleBar x s) = moves s" "wrappers (updateTitleBar x s) = wrappers s"
  "fixed_parts (updateTitleBar x s) y = fixed_parts s y" "normalGeometry (geo (updateTitleBar x s) y) = normalGeometry (geo s y)"
  by (simp_all add: updateTitleBar_def mod_geo_def Let_def fixed_parts_def)

definition leave_request :: "sid \<Rightarrow> surface_state \<Rightarrow> wl_request list" where
  "leave_request x st = (if st = Maximized then [SetMaximize x False] else if st = Fullscreen then [SetFullScreen x False] else [])"

definition enter_request :: "sid \<Rightarrow> surface_state \<Rightarrow> wl_request list" where
  "enter_request x st = (if st = Maximized then [SetMaximize x True] else if st = Fullscreen then [SetFullScreen x True] else [])"

definition after_requests :: "sid \<Rightarrow> 'a gstate_scheme \<Rightarrow> 'a gstate_scheme" where
  "after_requests x s =
     (let st = surfaceState (geo s x); old = appliedSurfaceState (geo s x) in
      mod_geo (\<lambda>g. g\<lparr>visibleDecoration := (st = Normal), noCornerRadius := (st \<noteq> Normal), appliedSurfaceState := st\<rparr>) x
        (s\<lparr>requests := requests s @ leave_request x old @ enter_request x st\<rparr>))"

lemma corner_states: "(st = Maximized \<or> st = Fullscreen \<or> st = Tiling) = (st \<noteq> Normal)"
  by (cases st) simp_all

lemma applyShell_requests:
  assumes "alive s x" "appliedSurfaceState (geo s x) \<noteq> surfaceState (geo s x)"
  shows "applyShellSurfaceState x s = updateVisible x (updateTitleBar x (after_requests x s))"
proof -
  have b: "\<not> aboutToRemove s x" "sw_shellSurface (wrappers s x)" using assms(1) by (simp_all add: alive_def)
  have off: "(case old of Maximized \<Rightarrow> ask (SetMaximize x False) u | Fullscreen \<Rightarrow> ask (SetFullScreen x False) u | _ \<Rightarrow> u)
      = u\<lparr>requests := requests u @ leave_request x old\<rparr>" for u :: "'a gstate_scheme" and old
    by (cases old) (simp_all add: ask_def leave_request_def)
  have on: "(case st of Maximized \<Rightarrow> ask (SetMaximize x True) u | Fullscreen \<Rightarrow> ask (SetFullScreen x True) u | _ \<Rightarrow> u)
      = u\<lparr>requests := requests u @ enter_request x st\<rparr>" for u :: "'a gstate_scheme" and st
    by (cases st) (simp_all add: ask_def enter_request_def)
  show ?thesis
    using b assms(2) unfolding applyShellSurfaceState_def Let_def off on corner_states
    by (simp add: after_requests_def Let_def mod_geo_def)
qed

lemma told_requests:
  "told_maximized x (rs @ leave_request x a @ enter_request x b) =
     (if b = Maximized then True else if a = Maximized then False else told_maximized x rs)"
  "told_fullscreen x (rs @ leave_request x a @ enter_request x b) =
     (if b = Fullscreen then True else if a = Fullscreen then False else told_fullscreen x rs)"
  by (simp_all add: leave_request_def enter_request_def told_maximized_def told_fullscreen_def)

lemma applyShellSurfaceState_spec:
  assumes "alive s x" "informed s x"
  shows "same_state x s (applyShellSurfaceState x s)" "informed (applyShellSurfaceState x s) x"
    "appliedSurfaceState (geo (applyShellSurfaceState x s) x) = surfaceState (geo s x)"
proof (atomize (full), cases "appliedSurfaceState (geo s x) = surfaceState (geo s x)")
  case True
  then have "applyShellSurfaceState x s = s" by (simp add: applyShellSurfaceState_def Let_def)
  with True assms show "same_state x s (applyShellSurfaceState x s) \<and> informed (applyShellSurfaceState x s) x
      \<and> appliedSurfaceState (geo (applyShellSurfaceState x s) x) = surfaceState (geo s x)"
    by (simp add: same_state_def)
next
  case False
  have t: "applyShellSurfaceState x s = updateVisible x (updateTitleBar x (after_requests x s))"
    by (rule applyShell_requests [OF assms(1) False])
  have "requests (after_requests x s) = requests s @ leave_request x (appliedSurfaceState (geo s x)) @ enter_request x (surfaceState (geo s x))"
    by (simp add: after_requests_def mod_geo_def Let_def)
  moreover have "appliedSurfaceState (geo (after_requests x s) x) = surfaceState (geo s x)"
    by (simp add: after_requests_def mod_geo_def Let_def)
  moreover have "same_state x s (after_requests x s)"
    by (simp add: same_state_def after_requests_def mod_geo_def Let_def alive_def aboutToRemove_def fixed_parts_def)
  ultimately show "same_state x s (applyShellSurfaceState x s) \<and> informed (applyShellSurfaceState x s) x
      \<and> appliedSurfaceState (geo (applyShellSurfaceState x s) x) = surfaceState (geo s x)"
    using assms(2) unfolding t
    by (auto simp: same_state_def informed_def visible_frame titleBar_frame told_requests) (simp_all add: alive_def aboutToRemove_def titleBar_frame)
qed

lemma applyGeometry_spec:
  assumes "moves_idle s"
  shows "\<exists>ok t. applyGeometry x target s = Inr (ok, t) \<and> geometry_only x s t"
proof (cases "fst (resize x (r_size target) True s)")
  case True
  obtain u where u: "setPosition x (alignToPixelGrid s x (topLeft target)) s = Inr u" "geometry_only x s u"
    using setPosition_spec [OF assms] by blast
  have "geometry_only x s (snd (resize x (r_size target) False u))"
    by (rule geometry_only_trans [OF u(2) geometry_only_steps(3)])
  with True u(1) show ?thesis by (auto simp: applyGeometry_def)
next
  case False
  then have "applyGeometry x target s = Inr (False, s)" by (simp add: applyGeometry_def)
  then show ?thesis by blast
qed

lemma same_state_idle: "same_state x s t \<Longrightarrow> moves_idle t = moves_idle s"
  by (simp add: same_state_def moves_idle_def)

lemma resetXdgToplevelSize_only: "geometry_only x s (resetXdgToplevelSize x s)"
proof -
  have "geometry_only x s (ask (ResizeTo x (sz 0 0)) s)" unfolding geometry_only_def ask_def
    by (rule exI [of _ "geometry (geo s x)"], rule exI [of _ "normalGeometry (geo s x)"], rule exI [of _ "[sz 0 0]"]) simp
  then show ?thesis by (simp add: resetXdgToplevelSize_def)
qed

lemma applySurfaceState_spec:
  assumes "moves_idle s" "alive s x" "informed s x"
  shows "\<exists>ok t. applySurfaceState x s = Inr (ok, t) \<and> same_state x s t \<and> informed t x
    \<and> appliedSurfaceState (geo t x) = surfaceState (geo s x)"
proof -
  define u where "u = applyShellSurfaceState x s"
  note u = applyShellSurfaceState_spec [OF assms(2,3), folded u_def]
  have idle: "moves_idle u" using assms(1) same_state_idle [OF u(1)] by simp
  have settle: "same_state x s t \<and> informed t x \<and> appliedSurfaceState (geo t x) = surfaceState (geo s x)"
    if "geometry_only x u t" for t
    using geometry_only_same_state [OF that] same_state_trans [OF u(1)] u(2,3) by simp
  let ?target = "targetGeometryForState (geo u x) (surfaceState (geo u x))"
  show ?thesis
  proof (cases "isValidRect ?target")
    case True
    obtain ok t where "applyGeometry x ?target u = Inr (ok, t)" "geometry_only x u t"
      using applyGeometry_spec [OF idle] by blast
    with True settle show ?thesis by (simp add: applySurfaceState_def Let_def flip: u_def)
  next
    case False
    then show ?thesis using settle [OF resetXdgToplevelSize_only] settle [OF geometry_only_refl]
      by (auto simp: applySurfaceState_def Let_def simp flip: u_def)
  qed
qed

lemma states_okD:
  assumes "states_ok s x"
  shows "moves_idle s" "alive s x" "informed s x"
  using assms by (simp_all add: states_ok_def)

lemma states_ok_geometry:
  assumes "states_ok s x" "geometry_only x s t"
  shows "states_ok t x"
  using assms(1) geometry_only_same_state [OF assms(2)] same_state_idle [of x s t]
  by (simp add: states_ok_def same_state_def)

lemma states_ok_applied:
  assumes "same_state x s t" "informed t x" "appliedSurfaceState (geo t x) = surfaceState (geo s x)" "moves_idle s" "alive s x"
    "previousSurfaceState (geo s x) = surfaceState (geo s x) \<longrightarrow> surfaceState (geo s x) = Normal"
  shows "states_ok t x"
  using assms same_state_idle [OF assms(1)] by (simp add: states_ok_def same_state_def)

text \<open>Taking a new state, before it is applied.\<close>

lemma new_state:
  assumes "states_ok s x" "checkSetSurfaceState s x st b"
    and t: "t = setSurfaceStateValue x st (abortGeometryAnimation x s)"
  shows "surfaceState (geo t x) = st" "previousSurfaceState (geo t x) = surfaceState (geo s x)" "previousSurfaceState (geo t x) \<noteq> st"
    "geometryAnimation (geo t x) = None" "moves_idle t" "alive t x" "informed t x" "wrappers t = wrappers s" "requests t = requests s"
    "appliedSurfaceState (geo t x) = appliedSurfaceState (geo s x)"
  using assms by (auto simp: states_ok_def setSurfaceStateValue_def abortGeometryAnimation_def mod_geo_def alive_def
      aboutToRemove_def informed_def moves_idle_def checkSetSurfaceState_def split: if_splits)

lemma setSurfaceState_ok:
  assumes "states_ok s x"
  shows "\<exists>t. setSurfaceState x st s = Inr t \<and> states_ok t x \<and> (checkSetSurfaceState s x st True \<longrightarrow>
    surfaceState (geo t x) = st \<and> previousSurfaceState (geo t x) = surfaceState (geo s x))"
proof (cases "checkSetSurfaceState s x st True")
  case False
  then show ?thesis using assms by (simp add: setSurfaceState_def)
next
  case True
  define u where "u = setSurfaceStateValue x st (abortGeometryAnimation x s)"
  note u = new_state [OF assms True u_def]
  let ?target = "targetGeometryForState (geo u x) st"
  show ?thesis
  proof (cases "isValidRect ?target \<and> sw_visible (wrappers u x)")
    case anim: True
    let ?t = "snd (startStateChangeAnimation x ?target u)"
    have "states_ok ?t x \<and> surfaceState (geo ?t x) = st \<and> previousSurfaceState (geo ?t x) = surfaceState (geo s x)"
      using u by (simp add: startStateChangeAnimation_def states_ok_def mod_geo_def alive_def aboutToRemove_def informed_def moves_idle_def)
    then show ?thesis using True anim by (simp add: setSurfaceState_def Let_def flip: u_def)
  next
    case direct: False
    obtain ok t where t: "applySurfaceState x u = Inr (ok, t)" "same_state x u t" "informed t x"
      "appliedSurfaceState (geo t x) = surfaceState (geo u x)"
      using applySurfaceState_spec [OF u(5,6,7)] by blast
    have "states_ok t x" using u by (intro states_ok_applied [OF t(2,3,4)]) simp_all
    with t u True direct show ?thesis
      by (auto simp: setSurfaceState_def Let_def same_state_def simp flip: u_def)
  qed
qed

lemma setSurfaceStateDirectly_ok:
  assumes "states_ok s x"
  shows "\<exists>t. setSurfaceStateDirectly x st s = Inr t \<and> states_ok t x \<and> (checkSetSurfaceState s x st False \<longrightarrow>
    surfaceState (geo t x) = st \<and> previousSurfaceState (geo t x) = surfaceState (geo s x) \<and> appliedSurfaceState (geo t x) = st)"
proof (cases "checkSetSurfaceState s x st False")
  case False
  then show ?thesis using assms by (simp add: setSurfaceStateDirectly_def)
next
  case True
  define u where "u = setSurfaceStateValue x st (abortGeometryAnimation x s)"
  note u = new_state [OF assms True u_def]
  obtain ok t where t: "applySurfaceState x u = Inr (ok, t)" "same_state x u t" "informed t x"
    "appliedSurfaceState (geo t x) = surfaceState (geo u x)"
    using applySurfaceState_spec [OF u(5,6,7)] by blast
  have "states_ok t x" using u by (intro states_ok_applied [OF t(2,3,4)]) simp_all
  with t u True show ?thesis
    by (auto simp: setSurfaceStateDirectly_def same_state_def simp flip: u_def)
qed

lemma abort_ok:
  assumes "same_state x s t" "informed t x" "appliedSurfaceState (geo t x) = surfaceState (geo s x)" "states_ok s x"
  shows "states_ok (abortGeometryAnimation x t) x"
  using assms same_state_idle [OF assms(1)]
  by (simp add: states_ok_def abortGeometryAnimation_def mod_geo_def same_state_def alive_def aboutToRemove_def informed_def moves_idle_def)

lemma onAnimationReady_ok:
  assumes "states_ok s x"
  shows "\<exists>t. onAnimationReady x s = Inr t \<and> states_ok t x \<and> appliedSurfaceState (geo t x) = surfaceState (geo t x)"
proof -
  obtain ok t where t: "applySurfaceState x s = Inr (ok, t)" "same_state x s t" "informed t x"
    "appliedSurfaceState (geo t x) = surfaceState (geo s x)"
    using applySurfaceState_spec [OF states_okD [OF assms]] by blast
  have "states_ok t x" using assms by (intro states_ok_applied [OF t(2,3,4)]) (simp_all add: states_ok_def)
  moreover have "states_ok (abortGeometryAnimation x t) x" by (rule abort_ok [OF t(2,3,4) assms])
  ultimately show ?thesis using t by (simp add: onAnimationReady_def same_state_def abortGeometryAnimation_def mod_geo_def)
qed

lemma onAnimationFinished_ok:
  assumes "states_ok s x" "geometryAnimation (geo s x) \<noteq> None"
  shows "\<exists>t. onAnimationFinished x s = Inr t \<and> states_ok t x \<and> appliedSurfaceState (geo t x) = surfaceState (geo s x)
    \<and> surfaceState (geo t x) = surfaceState (geo s x) \<and> geometryAnimation (geo t x) = None"
proof -
  define u where "u = mod_geo (\<lambda>g. g\<lparr>xwaylandPositionFromSurface := True\<rparr>) x s"
  have u: "states_ok u x" "surfaceState (geo u x) = surfaceState (geo s x)" "geometryAnimation (geo u x) \<noteq> None"
    using assms by (auto simp: u_def states_ok_def mod_geo_def alive_def aboutToRemove_def informed_def moves_idle_def)
  obtain ok t where t: "applySurfaceState x u = Inr (ok, t)" "same_state x u t" "informed t x"
    "appliedSurfaceState (geo t x) = surfaceState (geo u x)"
    using applySurfaceState_spec [OF states_okD [OF u(1)]] by blast
  have "onAnimationFinished x s = Inr (abortGeometryAnimation x t)"
    using u(3) t(1) unfolding onAnimationFinished_def Let_def u_def [symmetric] by simp
  moreover have "states_ok (abortGeometryAnimation x t) x" by (rule abort_ok [OF t(2,3,4) u(1)])
  moreover have "surfaceState (geo t x) = surfaceState (geo u x)" using t(2) by (simp add: same_state_def)
  ultimately show ?thesis using t(4) u(2) by (simp add: abortGeometryAnimation_def mod_geo_def)
qed

text \<open>Everything that can happen to a window: requests of the user and the client, the events of its
  animation, new geometries of its output, and changes of anything that is not its state.\<close>

inductive window_reach :: "sid \<Rightarrow> gstate \<Rightarrow> bool" for x where
  wr_start: "\<lbrakk>moves_idle s; alive s x; requests s = []; surfaceState (geo s x) = Normal; previousSurfaceState (geo s x) = Normal;
      appliedSurfaceState (geo s x) = Normal; geometryAnimation (geo s x) = None\<rbrakk> \<Longrightarrow> window_reach x s"
| wr_state: "\<lbrakk>window_reach x s; setSurfaceState x st s = Inr t\<rbrakk> \<Longrightarrow> window_reach x t"
| wr_directly: "\<lbrakk>window_reach x s; setSurfaceStateDirectly x st s = Inr t\<rbrakk> \<Longrightarrow> window_reach x t"
| wr_maximize: "\<lbrakk>window_reach x s; maximize x s = Inr t\<rbrakk> \<Longrightarrow> window_reach x t"
| wr_unmaximize: "\<lbrakk>window_reach x s; unmaximize x s = Inr t\<rbrakk> \<Longrightarrow> window_reach x t"
| wr_leave: "\<lbrakk>window_reach x s; leaveFullscreen x s = Inr t\<rbrakk> \<Longrightarrow> window_reach x t"
| wr_cancelTile: "\<lbrakk>window_reach x s; cancelTileMode x s = Inr t\<rbrakk> \<Longrightarrow> window_reach x t"
| wr_ready: "\<lbrakk>window_reach x s; geometryAnimation (geo s x) \<noteq> None; onAnimationReady x s = Inr t\<rbrakk> \<Longrightarrow> window_reach x t"
| wr_finished: "\<lbrakk>window_reach x s; geometryAnimation (geo s x) \<noteq> None; onAnimationFinished x s = Inr t\<rbrakk> \<Longrightarrow> window_reach x t"
| wr_place: "\<lbrakk>window_reach x s; geometry_only x s t\<rbrakk> \<Longrightarrow> window_reach x t"
| wr_other: "\<lbrakk>window_reach x s; moves_idle t; alive t x; requests t = requests s; surfaceState (geo t x) = surfaceState (geo s x);
      previousSurfaceState (geo t x) = previousSurfaceState (geo s x); appliedSurfaceState (geo t x) = appliedSurfaceState (geo s x);
      (geometryAnimation (geo t x) = None) = (geometryAnimation (geo s x) = None)\<rbrakk> \<Longrightarrow> window_reach x t"

lemma state_operations_ok:
  assumes "states_ok s x"
  shows "\<exists>t. maximize x s = Inr t \<and> states_ok t x" "\<exists>t. unmaximize x s = Inr t \<and> states_ok t x"
    "\<exists>t. leaveFullscreen x s = Inr t \<and> states_ok t x" "\<exists>t. cancelTileMode x s = Inr t \<and> states_ok t x"
    "\<exists>t. toggleMaximized x s = Inr t \<and> states_ok t x"
proof -
  have a: "\<exists>t. setSurfaceState x st s = Inr t \<and> states_ok t x" "\<exists>t. setSurfaceStateDirectly x st s = Inr t \<and> states_ok t x" for st
    using setSurfaceState_ok [OF assms] setSurfaceStateDirectly_ok [OF assms] by blast+
  show m: "\<exists>t. maximize x s = Inr t \<and> states_ok t x" "\<exists>t. unmaximize x s = Inr t \<and> states_ok t x"
    "\<exists>t. leaveFullscreen x s = Inr t \<and> states_ok t x" "\<exists>t. cancelTileMode x s = Inr t \<and> states_ok t x"
    using a assms by (simp_all add: maximize_def unmaximize_def leaveFullscreen_def cancelTileMode_def)
  show "\<exists>t. toggleMaximized x s = Inr t \<and> states_ok t x" using m by (simp add: toggleMaximized_def)
qed

lemma window_reach_ok: "window_reach x s \<Longrightarrow> states_ok s x"
proof (induction rule: window_reach.induct)
  case (wr_start s)
  then show ?case by (simp add: states_ok_def informed_def told_maximized_def told_fullscreen_def)
next
  case (wr_state s st t)
  then show ?case using setSurfaceState_ok [of s x st] by auto
next
  case (wr_directly s st t)
  then show ?case using setSurfaceStateDirectly_ok [of s x st] by auto
next
  case (wr_maximize s t)
  then show ?case using state_operations_ok(1) [of s x] by auto
next
  case (wr_unmaximize s t)
  then show ?case using state_operations_ok(2) [of s x] by auto
next
  case (wr_leave s t)
  then show ?case using state_operations_ok(3) [of s x] by auto
next
  case (wr_cancelTile s t)
  then show ?case using state_operations_ok(4) [of s x] by auto
next
  case (wr_ready s t)
  then show ?case using onAnimationReady_ok [of s x] by auto
next
  case (wr_finished s t)
  then show ?case using onAnimationFinished_ok [of s x] by auto
next
  case (wr_place s t)
  then show ?case using states_ok_geometry by blast
next
  case (wr_other s t)
  then show ?case by (simp add: states_ok_def informed_def)
qed

text \<open>C24: A client knows the state of its window. In every state a window reaches, the client has been
  told maximized or fullscreen exactly according to the state that was applied last, never both; when
  no animation runs the applied state is the current one, and when an animation runs its end
  applies the current state. Every operation returns.\<close>

theorem client_follows_state:
  assumes "window_reach x s"
  shows "told_maximized x (requests s) = (appliedSurfaceState (geo s x) = Maximized)
    \<and> told_fullscreen x (requests s) = (appliedSurfaceState (geo s x) = Fullscreen)
    \<and> (geometryAnimation (geo s x) = None \<longrightarrow> appliedSurfaceState (geo s x) = surfaceState (geo s x))
    \<and> (geometryAnimation (geo s x) \<noteq> None \<longrightarrow> (\<exists>t. onAnimationFinished x s = Inr t
         \<and> surfaceState (geo t x) = surfaceState (geo s x) \<and> appliedSurfaceState (geo t x) = surfaceState (geo s x)
         \<and> told_maximized x (requests t) = (surfaceState (geo s x) = Maximized)))
    \<and> is_ok (setSurfaceState x st s) \<and> is_ok (setSurfaceStateDirectly x st s) \<and> is_ok (toggleMaximized x s)
    \<and> is_ok (leaveFullscreen x s)"
proof -
  note ok = window_reach_ok [OF assms]
  have "geometryAnimation (geo s x) \<noteq> None \<longrightarrow> (\<exists>t. onAnimationFinished x s = Inr t
         \<and> surfaceState (geo t x) = surfaceState (geo s x) \<and> appliedSurfaceState (geo t x) = surfaceState (geo s x)
         \<and> told_maximized x (requests t) = (surfaceState (geo s x) = Maximized))"
    using onAnimationFinished_ok [OF ok] by (auto simp: states_ok_def informed_def)
  moreover have "is_ok (setSurfaceState x st s)" "is_ok (setSurfaceStateDirectly x st s)" "is_ok (toggleMaximized x s)"
    "is_ok (leaveFullscreen x s)"
    using setSurfaceState_ok [OF ok, of st] setSurfaceStateDirectly_ok [OF ok, of st] state_operations_ok(3,5) [OF ok] by auto
  ultimately show ?thesis using ok by (simp add: states_ok_def informed_def)
qed

section \<open>Into fullscreen and back\<close>

text \<open>A window that is not in its normal state keeps its normal geometry.\<close>

lemma setPosition_keeps_normal:
  assumes "moves_idle s" "surfaceState (geo s x) \<noteq> Normal" "setPosition x p s = Inr t"
  shows "normalGeometry (geo t x) = normalGeometry (geo s x)"
proof -
  have "\<not> shouldUpdateNormalGeometry s x" using assms(2) by (simp add: shouldUpdateNormalGeometry_def Let_def)
  then show ?thesis using setPosition_spec [OF assms(1), of x p] assms(3) by auto
qed

lemma resize_keeps_normal: "normalGeometry (geo (snd (resize x z b s)) y) = normalGeometry (geo s y)"
  by (simp add: resize_def ask_def)

lemma applyGeometry_keeps_normal:
  assumes "moves_idle s" "surfaceState (geo s x) \<noteq> Normal" "applyGeometry x r s = Inr (ok, t)"
  shows "normalGeometry (geo t x) = normalGeometry (geo s x)"
proof (cases "fst (resize x (r_size r) True s)")
  case True
  obtain u where u: "setPosition x (alignToPixelGrid s x (topLeft r)) s = Inr u" using setPosition_spec [OF assms(1)] by blast
  with True assms(3) have "t = snd (resize x (r_size r) False u)" by (simp add: applyGeometry_def)
  then show ?thesis using setPosition_keeps_normal [OF assms(1,2) u] by (simp add: resize_keeps_normal)
next
  case False
  then show ?thesis using assms(3) by (simp add: applyGeometry_def)
qed

lemma applyShell_keeps_normal: "normalGeometry (geo (applyShellSurfaceState x s) y) = normalGeometry (geo s y)"
  by (cases "appliedSurfaceState (geo s x)"; cases "surfaceState (geo s x)")
    (simp_all add: applyShellSurfaceState_def Let_def visible_frame titleBar_frame mod_geo_def ask_def)

lemma applySurfaceState_keeps_normal:
  assumes "moves_idle s" "alive s x" "informed s x" "surfaceState (geo s x) \<noteq> Normal" "applySurfaceState x s = Inr (ok, t)"
  shows "normalGeometry (geo t x) = normalGeometry (geo s x)"
proof -
  define u where "u = applyShellSurfaceState x s"
  have same: "same_state x s u" unfolding u_def by (rule applyShellSurfaceState_spec(1) [OF assms(2,3)])
  then have u: "moves_idle u" "surfaceState (geo u x) \<noteq> Normal" "normalGeometry (geo u x) = normalGeometry (geo s x)"
    using assms(1,4) same_state_idle [OF same] by (simp_all add: same_state_def u_def applyShell_keeps_normal)
  show ?thesis
  proof (cases "isValidRect (targetGeometryForState (geo u x) (surfaceState (geo u x)))")
    case True
    then have "applyGeometry x (targetGeometryForState (geo u x) (surfaceState (geo u x))) u = Inr (ok, t)"
      using assms(5) by (simp add: applySurfaceState_def Let_def flip: u_def)
    then show ?thesis using applyGeometry_keeps_normal [OF u(1,2)] u(3) by simp
  next
    case False
    then show ?thesis using assms(5) u by (simp add: applySurfaceState_def Let_def flip: u_def)
  qed
qed

lemma setSurfaceState_frame:
  assumes "states_ok s x" "checkSetSurfaceState s x st True"
  shows "\<exists>t. setSurfaceState x st s = Inr t \<and> states_ok t x \<and> surfaceState (geo t x) = st
    \<and> previousSurfaceState (geo t x) = surfaceState (geo s x) \<and> fixed_parts t x = fixed_parts s x \<and> moves t = moves s
    \<and> (st \<noteq> Normal \<longrightarrow> normalGeometry (geo t x) = normalGeometry (geo s x))"
proof -
  define u where "u = setSurfaceStateValue x st (abortGeometryAnimation x s)"
  note u = new_state [OF assms u_def]
  have f: "fixed_parts u x = fixed_parts s x" "moves u = moves s" "normalGeometry (geo u x) = normalGeometry (geo s x)"
    by (simp_all add: u_def setSurfaceStateValue_def abortGeometryAnimation_def mod_geo_def fixed_parts_def)
  obtain t where t: "setSurfaceState x st s = Inr t" "states_ok t x" "surfaceState (geo t x) = st"
    "previousSurfaceState (geo t x) = surfaceState (geo s x)" using setSurfaceState_ok [OF assms(1), of st] assms(2) by blast
  let ?target = "targetGeometryForState (geo u x) st"
  have "fixed_parts t x = fixed_parts s x \<and> moves t = moves s \<and> (st \<noteq> Normal \<longrightarrow> normalGeometry (geo t x) = normalGeometry (geo s x))"
  proof (cases "isValidRect ?target \<and> sw_visible (wrappers u x)")
    case True
    then have "t = snd (startStateChangeAnimation x ?target u)"
      using t(1) assms(2) by (simp add: setSurfaceState_def Let_def flip: u_def)
    then show ?thesis using f by (simp add: startStateChangeAnimation_def mod_geo_def fixed_parts_def)
  next
    case False
    obtain ok v where v: "applySurfaceState x u = Inr (ok, v)" "same_state x u v"
      using applySurfaceState_spec [OF u(5,6,7)] by blast
    then have "t = v" using t(1) assms(2) False by (simp add: setSurfaceState_def Let_def flip: u_def)
    then show ?thesis using v f u applySurfaceState_keeps_normal [OF u(5,6,7) _ v(1)] by (simp add: same_state_def)
  qed
  with t show ?thesis by blast
qed

lemma checkSetSurfaceState_cong:
  assumes "fixed_parts t x = fixed_parts s x" "moves t = moves s" "alive t x"
  shows "checkSetSurfaceState t x st True = (surfaceState (geo t x) \<noteq> st
     \<and> \<not> (sw_isSnapMask (wrappers s x) \<and> (st = Maximized \<or> st = Tiling))
     \<and> sw_container (wrappers s x) \<noteq> None \<and> \<not> stateChangeFiltered s x)"
  using assms by (auto simp: checkSetSurfaceState_def alive_def fixed_parts_def stateChangeFiltered_def)


section \<open>Leaving fullscreen before the window is mapped\<close>

lemma geometry_only_initialized: "geometry_only x s t \<Longrightarrow> shellInitialized (geo t y) = shellInitialized (geo s y)"
  by (auto simp: geometry_only_def split: if_splits)

lemma applyShell_initialized: "shellInitialized (geo (applyShellSurfaceState x s) y) = shellInitialized (geo s y)"
  by (cases "appliedSurfaceState (geo s x)"; cases "surfaceState (geo s x)")
    (simp_all add: applyShellSurfaceState_def Let_def visible_frame updateTitleBar_def mod_geo_def ask_def)

lemma applySurfaceState_initialized:
  assumes "moves_idle s" "alive s x" "informed s x" "applySurfaceState x s = Inr (ok, t)"
  shows "shellInitialized (geo t y) = shellInitialized (geo s y)"
proof -
  define u where "u = applyShellSurfaceState x s"
  have idle: "moves_idle u"
    using assms(1) same_state_idle [OF applyShellSurfaceState_spec(1) [OF assms(2,3)]] by (simp add: u_def)
  have "geometry_only x u t"
  proof (cases "isValidRect (targetGeometryForState (geo u x) (surfaceState (geo u x)))")
    case True
    then have "applyGeometry x (targetGeometryForState (geo u x) (surfaceState (geo u x))) u = Inr (ok, t)"
      using assms(4) by (simp add: applySurfaceState_def Let_def flip: u_def)
    then show ?thesis using applyGeometry_spec [OF idle, of x "targetGeometryForState (geo u x) (surfaceState (geo u x))"] by auto
  next
    case False
    then have "t = u \<or> t = resetXdgToplevelSize x u"
      using assms(4) by (simp add: applySurfaceState_def Let_def split: if_splits flip: u_def)
    then show ?thesis using resetXdgToplevelSize_only by auto
  qed
  then show ?thesis by (simp add: geometry_only_initialized u_def applyShell_initialized)
qed

lemma setSurfaceStateDirectly_frame:
  assumes "states_ok s x" "checkSetSurfaceState s x st False"
  shows "\<exists>t. setSurfaceStateDirectly x st s = Inr t \<and> states_ok t x \<and> surfaceState (geo t x) = st
    \<and> previousSurfaceState (geo t x) = surfaceState (geo s x) \<and> geometryAnimation (geo t x) = None
    \<and> fixed_parts t x = fixed_parts s x \<and> moves t = moves s \<and> shellInitialized (geo t x) = shellInitialized (geo s x)"
proof -
  define u where "u = setSurfaceStateValue x st (abortGeometryAnimation x s)"
  note u = new_state [OF assms u_def]
  have f: "fixed_parts u x = fixed_parts s x" "moves u = moves s" "shellInitialized (geo u x) = shellInitialized (geo s x)"
    by (simp_all add: u_def setSurfaceStateValue_def abortGeometryAnimation_def mod_geo_def fixed_parts_def)
  obtain ok t where t: "applySurfaceState x u = Inr (ok, t)" "same_state x u t" "informed t x"
    "appliedSurfaceState (geo t x) = surfaceState (geo u x)"
    using applySurfaceState_spec [OF u(5,6,7)] by blast
  have i: "shellInitialized (geo t x) = shellInitialized (geo u x)"
    by (rule applySurfaceState_initialized [OF u(5,6,7) t(1)])
  have "states_ok t x" using u by (intro states_ok_applied [OF t(2,3,4)]) simp_all
  moreover have "setSurfaceStateDirectly x st s = Inr t"
    using assms(2) t(1) by (simp add: setSurfaceStateDirectly_def flip: u_def)
  ultimately show ?thesis using t(2) u f i by (simp add: same_state_def)
qed

lemma check_directly:
  assumes "states_ok s x" "geometryAnimation (geo s x) = None" "\<not> sw_isSnapMask (wrappers s x)"
    "sw_container (wrappers s x) \<noteq> None" "\<not> stateChangeFiltered s x"
  shows "checkSetSurfaceState s x st False = (surfaceState (geo s x) \<noteq> st)"
  using assms by (auto simp: checkSetSurfaceState_def states_ok_def alive_def)

text \<open>Before it is mapped, a toplevel that asks to be maximized, takes that back, and then leaves a
  fullscreen state it never had, is maximized: \<^verbatim>\<open>leaveFullscreen\<close> does not look at the state on the
  path of unmapped windows.\<close>

theorem unmapped_unset_fullscreen_maximizes:
  assumes "window_reach x s" "unmappedToplevel s x" "shellInitialized (geo s x)"
    "surfaceState (geo s x) = Normal" "geometryAnimation (geo s x) = None"
    "\<not> sw_isSnapMask (wrappers s x)" "sw_container (wrappers s x) \<noteq> None" "\<not> stateChangeFiltered s x"
  shows "\<exists>t u v. maximize x s = Inr t \<and> unmaximize x t = Inr u \<and> leaveFullscreen x u = Inr v
    \<and> surfaceState (geo u x) = Normal \<and> surfaceState (geo v x) = Maximized \<and> told_maximized x (requests v)"
proof -
  have step: "\<exists>t. setSurfaceStateDirectly x st a = Inr t \<and> states_ok t x \<and> surfaceState (geo t x) = st
      \<and> previousSurfaceState (geo t x) = surfaceState (geo a x) \<and> geometryAnimation (geo t x) = None
      \<and> fixed_parts t x = fixed_parts s x \<and> moves t = moves s \<and> shellInitialized (geo t x)"
    if "states_ok a x" "geometryAnimation (geo a x) = None" "fixed_parts a x = fixed_parts s x" "moves a = moves s"
      "shellInitialized (geo a x)" "surfaceState (geo a x) \<noteq> st" for a st
  proof -
    have "checkSetSurfaceState a x st False"
      using check_directly [OF that(1,2)] fixed_partsD(1,2) [OF that(3)] assms(6-8) that(4,6)
      by (simp add: stateChangeFiltered_def)
    from setSurfaceStateDirectly_frame [OF that(1) this] show ?thesis using that by auto
  qed
  have un: "unmappedToplevel a x" if "fixed_parts a x = fixed_parts s x" for a
    using fixed_partsD(3) [OF that] assms(2) by simp
  obtain t where t: "setSurfaceStateDirectly x Maximized s = Inr t" "states_ok t x" "surfaceState (geo t x) = Maximized"
    "geometryAnimation (geo t x) = None" "fixed_parts t x = fixed_parts s x" "moves t = moves s" "shellInitialized (geo t x)"
    using step [of s Maximized] window_reach_ok [OF assms(1)] assms by auto
  obtain u where u: "setSurfaceStateDirectly x Normal t = Inr u" "states_ok u x" "surfaceState (geo u x) = Normal"
    "previousSurfaceState (geo u x) = Maximized"
    "geometryAnimation (geo u x) = None" "fixed_parts u x = fixed_parts s x" "moves u = moves s" "shellInitialized (geo u x)"
    using step [of t Normal] t by auto
  obtain v where v: "setSurfaceStateDirectly x Maximized u = Inr v" "states_ok v x" "surfaceState (geo v x) = Maximized"
    "geometryAnimation (geo v x) = None"
    using step [of u Maximized] u by auto
  have "maximize x s = Inr t" "unmaximize x t = Inr u" "leaveFullscreen x u = Inr v"
    using t u v assms(2,3) un [OF t(5)] un [OF u(6)] by (simp_all add: maximize_def unmaximize_def leaveFullscreen_def)
  moreover have "told_maximized x (requests v)" using v(2-4) by (simp add: states_ok_def informed_def)
  ultimately show ?thesis using u v by blast
qed

section \<open>A window on one output\<close>

definition blank_geo :: wgeo where
  "blank_geo = \<lparr>geometry = rect (pt 100 100) (sz 400 300), sizeSet = False, normalGeometry = rect (pt 100 100) (sz 400 300),
     maximizedGeometry = rect (pt 0 0) (sz 1920 1000), fullscreenGeometry = rect (pt 0 0) (sz 1920 1080), tilingGeometry = nullRect,
     surfaceState = Normal, previousSurfaceState = Normal, appliedSurfaceState = Normal, geometryAnimation = None,
     positionAutomatic = True, hasSurface = True, surfaceItem = True, xdgShell = True, shellInitialized = True,
     requestedMaximized = False, requestedFullscreen = False, currentMaximized = False, currentFullscreen = False,
     resizable = True, maximizable = True, visibleDecoration = True, noCornerRadius = False, noTitleBarFlag = False, noDecoration = False,
     titleBar = None, onOutputs = [0], clientRequstPos = None, autoPlaceCursorOffset = None, xwaylandPositionFromSurface = True\<rparr>"

definition lone_window :: "(nat \<times> move_resize) list \<Rightarrow> gstate" where
  "lone_window ms = \<lparr>wrappers = (\<lambda>_. blank_wrapper\<lparr>sw_container := Some 0, sw_mapped := True, sw_visible := True\<rparr>), trace = [],
     geo = (\<lambda>_. blank_geo), requests = [], outputPlace = (\<lambda>_. rect (pt 0 0) (sz 1920 1080)), outputScale = (\<lambda>_. 1),
     outputEnabled = (\<lambda>_. True), windowDpr = 1, titleBarSize = (\<lambda>_. sz 400 40), moves = ms\<rparr>"

definition left_top_resize :: move_resize where
  "left_top_resize = \<lparr>mr_surface = Some 3, mr_edges = {LeftEdge, TopEdge}, mr_startGeometry = rect (pt 100 100) (sz 400 300),
     mr_initialPosition = pt 100 100, mr_settingPosition = False, mr_tileMode = TileNone, mr_previewActive = False,
     mr_innerBorder = False, mr_tileOutput = None\<rparr>"

lemma lone_window_scale: "getOutputDevicePixelRatio (lone_window ms) x p = 1"
  by (simp add: getOutputDevicePixelRatio_def lone_window_def blank_geo_def)

lemma lone_window_reach: "window_reach 3 (lone_window [])"
  by (rule wr_start)
    (simp_all add: lone_window_def blank_geo_def moves_idle_def alive_def aboutToRemove_def blank_wrapper_def)


theorem client_follows_state_witness:
  "is_ok (toggleMaximized 3 (lone_window [])) \<and> \<not> told_maximized 3 (requests (lone_window []))"
  using client_follows_state [OF lone_window_reach, of Maximized] by (simp add: lone_window_def blank_geo_def)


end
