(* ===== verification/Output_Zones.thy ===== *)
theory Output_Zones
  imports Output_Model Window_States
begin

text \<open>
  What the panels of an output reserve (src/src/output/output.cpp): the margins are the sums of the
  zones, after an arrangement they are the zones of the initialized layer surfaces and of the menu
  bar, and windows that keep to the valid geometry do not cover a panel.
\<close>

section \<open>Single zones\<close>

definition all_zones :: "output_rec \<Rightarrow> (zone_owner \<times> int) list" where
  "all_zones d = o_zones d TopEdge @ o_zones d BottomEdge @ o_zones d LeftEdge @ o_zones d RightEdge"

definition zones_ok :: "output_rec \<Rightarrow> bool" where
  "zones_ok d = (distinct (map fst (all_zones d)) \<and> (\<forall>e. \<forall>(z, v)\<in>set (o_zones d e). 0 < v)
     \<and> (\<forall>e. o_margin d e = sum_list (map snd (o_zones d e))))"

definition without :: "zone_owner \<Rightarrow> (zone_owner \<times> int) list \<Rightarrow> (zone_owner \<times> int) list" where
  "without z ps = filter (\<lambda>p. fst p \<noteq> z) ps"

lemma without_idem: "z \<notin> fst ` set ps \<Longrightarrow> without z ps = ps"
  by (auto simp: without_def filter_id_conv)

lemma without_remove1:
  "distinct (map fst ps) \<Longrightarrow> map_of ps z = Some v \<Longrightarrow> remove1 (z, v) ps = without z ps"
proof (induction ps)
  case (Cons p ps)
  then show ?case
    using without_idem [of z ps] by (cases p) (auto simp: without_def split: if_splits)
qed simp

lemma sum_remove1: "p \<in> set ps \<Longrightarrow> sum_list (map snd (remove1 p ps)) = sum_list (map snd ps) - (snd p :: int)"
  by (induction ps) auto

lemma zones_okI:
  "distinct (map fst (all_zones d)) \<Longrightarrow> (\<And>e z v. (z, v) \<in> set (o_zones d e) \<Longrightarrow> 0 < v)
     \<Longrightarrow> (\<And>e. o_margin d e = sum_list (map snd (o_zones d e))) \<Longrightarrow> zones_ok d"
  unfolding zones_ok_def by blast

lemma zones_okD:
  assumes "zones_ok d"
  shows "distinct (map fst (all_zones d))" "(z, v) \<in> set (o_zones d e) \<Longrightarrow> 0 < v"
    "o_margin d e = sum_list (map snd (o_zones d e))"
  using assms unfolding zones_ok_def by blast+

lemma zones_distinct:
  assumes "zones_ok d"
  shows "distinct (map fst (o_zones d e))"
    "e \<noteq> e' \<Longrightarrow> z \<in> fst ` set (o_zones d e) \<Longrightarrow> z \<notin> fst ` set (o_zones d e')"
proof -
  note d = zones_okD(1) [OF assms, unfolded all_zones_def map_append distinct_append set_append set_map]
  show "distinct (map fst (o_zones d e))" using d by (cases e) simp_all
  have i: "A \<inter> (B \<union> C) = {} \<longleftrightarrow> A \<inter> B = {} \<and> A \<inter> C = {}" for A B C :: "zone_owner set" by blast
  have c: "A \<inter> B = {} \<longleftrightarrow> B \<inter> A = {}" for A B :: "zone_owner set" by blast
  have "fst ` set (o_zones d e) \<inter> fst ` set (o_zones d e') = {}" if "e \<noteq> e'"
    using d that unfolding i by (cases e; cases e'; simp only: simp_thms c)
  then show "e \<noteq> e' \<Longrightarrow> z \<in> fst ` set (o_zones d e) \<Longrightarrow> z \<notin> fst ` set (o_zones d e')" by blast
qed

lemma positive_sum: "(\<And>z v. (z, v) \<in> set ps \<Longrightarrow> 0 < v) \<Longrightarrow> 0 \<le> sum_list (map snd ps :: int list)"
proof (rule sum_list_nonneg)
  fix x :: int
  assume pos: "\<And>z v. (z, v) \<in> set ps \<Longrightarrow> 0 < v" and "x \<in> set (map snd ps)"
  then obtain z where "(z, x) \<in> set ps" by auto
  then show "0 \<le> x" using pos less_imp_le by blast
qed

lemma margin_nonneg: "zones_ok d \<Longrightarrow> 0 \<le> o_margin d e"
  using zones_okD(2,3) positive_sum [of "o_zones d e"] by simp

definition zone_only :: "output_rec \<Rightarrow> output_rec \<Rightarrow> bool" where
  "zone_only d d' = (o_rect d' = o_rect d \<and> o_surfaces d' = o_surfaces d \<and> o_direction d' = o_direction d
     \<and> o_positionCache d' = o_positionCache d \<and> o_ratio d' = o_ratio d)"

lemma removeZoneFrom_none:
  "\<forall>e\<in>set es. z \<notin> fst ` set (o_zones d e) \<Longrightarrow> removeZoneFrom es z d = Inr (False, d)"
proof (induction es)
  case (Cons e es)
  then have "map_of (o_zones d e) z = None" by (simp add: map_of_eq_None_iff)
  with Cons show ?case by simp
qed simp

lemma removeZoneFrom_found:
  assumes "zones_ok d" "map_of (o_zones d e) z = Some v" "e \<in> set es"
  shows "removeZoneFrom es z d = Inr (True, d\<lparr>o_margin := (o_margin d)(e := o_margin d e - v),
      o_zones := (o_zones d)(e := without z (o_zones d e))\<rparr>)"
  using assms(3)
proof (induction es)
  case (Cons f es)
  have mem: "(z, v) \<in> set (o_zones d e)" using assms(2) by (rule map_of_SomeD)
  show ?case
  proof (cases "f = e")
    case True
    have "o_margin d e - v = sum_list (map snd (remove1 (z, v) (o_zones d e)))"
      using sum_remove1 [OF mem] zones_okD(3) [OF assms(1)] by simp
    moreover have "0 \<le> sum_list (map snd (remove1 (z, v) (o_zones d e)))"
      by (rule positive_sum) (blast intro: zones_okD(2) [OF assms(1)] set_mp [OF set_remove1_subset])
    ultimately have "0 \<le> o_margin d e - v" by simp
    then show ?thesis
      using True assms(2) without_remove1 [OF zones_distinct(1) [OF assms(1)] assms(2)]
      by (simp add: Let_def fun_upd_def)
  next
    case False
    have "z \<in> fst ` set (o_zones d e)" using mem by force
    then have "map_of (o_zones d f) z = None"
      using zones_distinct(2) [OF assms(1), of e f z] False by (simp add: map_of_eq_None_iff)
    then show ?thesis using Cons False by simp
  qed
qed simp

lemma edges_all: "e \<in> set [TopEdge, BottomEdge, LeftEdge, RightEdge]"
  by (cases e) simp_all

lemma removeExclusiveZone_spec:
  assumes "zones_ok d"
  shows "\<exists>d'. removeExclusiveZone z d = Inr (z \<in> fst ` set (all_zones d), d') \<and> zones_ok d' \<and> zone_only d d'
    \<and> (\<forall>e. o_zones d' e = without z (o_zones d e))"
proof (cases "\<exists>e. z \<in> fst ` set (o_zones d e)")
  case False
  then have "removeExclusiveZone z d = Inr (False, d)"
    unfolding removeExclusiveZone_def by (intro removeZoneFrom_none) simp
  moreover have "z \<notin> fst ` set (all_zones d)" using False by (auto simp: all_zones_def)
  moreover have "without z (o_zones d e) = o_zones d e" for e using False by (intro without_idem) simp
  moreover have "zone_only d d" by (simp add: zone_only_def)
  ultimately show ?thesis using assms by simp
next
  case True
  then obtain e where e: "z \<in> fst ` set (o_zones d e)" by blast
  then obtain v where v: "map_of (o_zones d e) z = Some v"
    by (metis map_of_eq_None_iff not_Some_eq)
  let ?d = "d\<lparr>o_margin := (o_margin d)(e := o_margin d e - v), o_zones := (o_zones d)(e := without z (o_zones d e))\<rparr>"
  have r: "removeExclusiveZone z d = Inr (True, ?d)"
    unfolding removeExclusiveZone_def by (rule removeZoneFrom_found [OF assms v edges_all])
  have z: "o_zones ?d f = without z (o_zones d f)" for f
    using zones_distinct(2) [OF assms _ e, of f] without_idem [of z "o_zones d f"] by auto
  have "sum_list (map snd (without z (o_zones d e))) = sum_list (map snd (o_zones d e)) - v"
    using without_remove1 [OF zones_distinct(1) [OF assms] v] sum_remove1 [OF map_of_SomeD [OF v]] by simp
  moreover have "distinct (map fst (all_zones ?d))"
  proof -
    have "all_zones ?d = filter (\<lambda>p. fst p \<noteq> z) (all_zones d)"
      unfolding all_zones_def z by (simp add: without_def)
    then show ?thesis using assms by (simp add: zones_ok_def distinct_map_filter)
  qed
  moreover have "0 < w" if "(y, w) \<in> set (o_zones ?d f)" for f y w
    using that zones_okD(2) [OF assms] unfolding z by (auto simp: without_def)
  ultimately have "zones_ok ?d" using zones_okD(3) [OF assms] by (intro zones_okI) (auto split: if_splits)
  moreover have "z \<in> fst ` set (all_zones d)" using e by (cases e) (auto simp: all_zones_def)
  moreover have "zone_only d ?d" by (simp add: zone_only_def)
  ultimately show ?thesis using r z by auto
qed

lemma setExclusiveZone_spec:
  assumes "zones_ok d" "0 < v"
  shows "\<exists>d'. setExclusiveZone e z v d = Inr d' \<and> zones_ok d' \<and> zone_only d d'
    \<and> (\<forall>f. o_zones d' f = without z (o_zones d f) @ (if f = e then [(z, v)] else []))"
proof -
  obtain b d1 where d1: "removeExclusiveZone z d = Inr (b, d1)" "zones_ok d1" "zone_only d d1"
    "\<And>f. o_zones d1 f = without z (o_zones d f)"
    using removeExclusiveZone_spec [OF assms(1), of z] by blast
  let ?d = "d1\<lparr>o_zones := (o_zones d1)(e := o_zones d1 e @ [(z, v)]), o_margin := (o_margin d1)(e := o_margin d1 e + v)\<rparr>"
  have z: "o_zones ?d f = without z (o_zones d f) @ (if f = e then [(z, v)] else [])" for f
    by (simp add: d1(4))
  have new: "z \<notin> fst ` set (o_zones d1 f)" for f by (auto simp: d1(4) without_def)
  have "distinct (map fst (all_zones ?d))"
    using zones_okD(1) [OF d1(2)] new unfolding all_zones_def by (cases e) auto
  moreover have "0 < w" if "(y, w) \<in> set (o_zones ?d f)" for f y w
    using that zones_okD(2) [OF d1(2)] assms(2) by (auto split: if_splits)
  moreover have "o_margin ?d f = sum_list (map snd (o_zones ?d f))" for f
    using zones_okD(3) [OF d1(2)] by simp
  ultimately have "zones_ok ?d" by (rule zones_okI)
  moreover have "zone_only d ?d" using d1(3) by (simp add: zone_only_def)
  moreover have "setExclusiveZone e z v d = Inr ?d" using assms(2) d1(1) by (simp add: setExclusiveZone_def)
  ultimately show ?thesis using z by blast
qed

section \<open>Placing one layer surface\<close>

text \<open>What a step on the geometry of \<open>x\<close> leaves alone.\<close>

definition geo_step :: "sid \<Rightarrow> 'a gstate_scheme \<Rightarrow> 'a gstate_scheme \<Rightarrow> bool" where
  "geo_step x s t = (\<exists>g rs. t = s\<lparr>geo := (geo s)(x := g), requests := requests s @ rs\<rparr>)"

lemma geo_step_refl [simp, intro]: "geo_step x s s"
  unfolding geo_step_def by (rule exI [of _ "geo s x"], rule exI [of _ "[]"]) simp

lemma geo_step_trans: "geo_step x s t \<Longrightarrow> geo_step x t u \<Longrightarrow> geo_step x s u"
  unfolding geo_step_def
proof (elim exE)
  fix g rs g' rs'
  assume "t = s\<lparr>geo := (geo s)(x := g), requests := requests s @ rs\<rparr>"
    "u = t\<lparr>geo := (geo t)(x := g'), requests := requests t @ rs'\<rparr>"
  then show "\<exists>g rs. u = s\<lparr>geo := (geo s)(x := g), requests := requests s @ rs\<rparr>"
    by (intro exI [of _ g'] exI [of _ "rs @ rs'"]) simp
qed

lemma geo_stepI: "geometry_only x s t \<Longrightarrow> geo_step x s t" "geo_step x s (mod_geo f x s)"
  unfolding geometry_only_def geo_step_def mod_geo_def by (blast, intro exI [of _ "f (geo s x)"] exI [of _ "[]"], simp)

lemma geo_step_frame:
  assumes "geo_step x s t"
  shows "wrappers t = wrappers s" "moves t = moves s" "resizer t = resizer s" "moves_idle t = moves_idle s"
    "y \<noteq> x \<Longrightarrow> geo t y = geo s y" "outputScale t = outputScale s" "outputEnabled t = outputEnabled s"
    "outputPlace t = outputPlace s" "windowDpr t = windowDpr s" "titleBarSize t = titleBarSize s"
  using assms by (auto simp: geo_step_def resizer_def fun_eq_iff moves_idle_def)

lemma geo_step_pframe:
  fixes s t :: "'a pstate_scheme"
  assumes "geo_step x s t"
  shows "outs t = outs s" "layers t = layers s" "workspaceModel t = workspaceModel s"
    "windowTitlebarHeight t = windowTitlebarHeight s" "cursorPosition t = cursorPosition s" "cursorSize t = cursorSize s"
    "outputAtCursor t = outputAtCursor s" "implicitPosition t = implicitPosition s" "cursorRect t = cursorRect s"
    "contentTopLeft t = contentTopLeft s" "surfaceItemPosition t = surfaceItemPosition s"
  using assms by (auto simp: geo_step_def)

lemma settled_free: "resizer s x = None \<Longrightarrow> settled s x new old = new"
  by (simp add: settled_def)

lemma setSize_spec:
  assumes "moves_idle s" "resizer s x = None"
  shows "\<exists>t. setSize x z s = Inr t \<and> geo_step x s t \<and> geometry (geo t x) = rect (topLeft (geometry (geo s x))) z"
proof -
  define u where "u = mod_geo (\<lambda>g. g\<lparr>sizeSet := True\<rparr>) x s"
  have u: "geo_step x s u" "moves_idle u" "resizer u x = None" "geometry (geo u x) = geometry (geo s x)"
    unfolding u_def using assms by (simp_all only: geo_stepI(2) moves_idle_geo resizer_geo) (simp_all add: mod_geo_def)
  let ?old = "geometry (geo u x)"
  let ?new = "rect (topLeft ?old) z"
  show ?thesis
  proof (cases "?new = ?old")
    case True
    then show ?thesis using u(1,4) by (simp add: setSize_def Let_def flip: u_def)
  next
    case False
    let ?v = "mod_geo (\<lambda>g. g\<lparr>geometry := ?new\<rparr>) x u"
    have v: "resizer ?v x = None" using u(3) by simp
    obtain t where t: "geometryChange x ?new ?old ?v = Inr t" "geometry_only x ?v t" "geometry (geo t x) = settled ?v x ?new ?old"
      using geometryChange_spec [of ?v x ?new ?old] u(2) by (auto simp: mod_geo_def moves_idle_def)
    have "geo_step x s t"
      using geo_step_trans [OF u(1) geo_step_trans [OF geo_stepI(2) geo_stepI(1) [OF t(2)]]] .
    then show ?thesis using t False u(4) settled_free [OF v] by (simp add: setSize_def Let_def flip: u_def)
  qed
qed

lemma setPosition_free:
  assumes "moves_idle s" "resizer s x = None"
  shows "\<exists>t. setPosition x p s = Inr t \<and> geo_step x s t \<and> geometry (geo t x) = rect p (r_size (geometry (geo s x)))"
proof -
  have move: "moveTopLeft q r = rect q (r_size r)" for q r
    by (rule qrect_eqI) (simp_all add: moveTopLeft_def r_size_def)
  obtain t where t: "setPosition x p s = Inr t" "geometry_only x s t" "geometry (geo t x)
      = (if topLeft (geometry (geo s x)) = p then geometry (geo s x)
         else settled s x (moveTopLeft p (geometry (geo s x))) (geometry (geo s x)))"
    using setPosition_spec [OF assms(1)] by blast
  then show ?thesis
    using geo_stepI(1) [OF t(2)] settled_free [OF assms(2)] rect_topLeft_size [of "geometry (geo s x)"]
    by (auto simp: move)
qed

definition layer_ready :: "'a pstate_scheme \<Rightarrow> sid \<Rightarrow> bool" where
  "layer_ready s x = (sw_type (wrappers s x) = Layer \<longrightarrow> sw_shellSurface (wrappers s x) \<and> resizer s x = None)"

text \<open>The zone a layer surface asks for.\<close>

definition zone_of :: "layer_props \<Rightarrow> qedge \<Rightarrow> int" where
  "zone_of l e = (if l_initialized l \<and> 0 < l_exclusiveZone l \<and> getExclusiveZoneEdge (l_ancher l) = Some e
     then l_exclusiveZone l else 0)"

definition entry :: "'a pstate_scheme \<Rightarrow> qedge \<Rightarrow> sid \<Rightarrow> (zone_owner \<times> int) list" where
  "entry s e x = (if sw_type (wrappers s x) = Layer \<and> 0 < zone_of (layers s x) e
     then [(Shell x, zone_of (layers s x) e)] else [])"

lemma entry_cong: "wrappers t = wrappers s \<Longrightarrow> layers t = layers s \<Longrightarrow> entry t e = entry s e"
  by (simp add: entry_def fun_eq_iff)

lemma on_out_Inr: "f (outs s k) = Inr d \<Longrightarrow> on_out f k s = Inr (mod_out (\<lambda>_. d) k s)"
  by (simp add: on_out_def)

lemma mod_out_frame [simp]:
  "outs (mod_out f k s) = (outs s)(k := f (outs s k))" "wrappers (mod_out f k s) = wrappers s" "geo (mod_out f k s) = geo s"
  "layers (mod_out f k s) = layers s" "moves (mod_out f k s) = moves s" "moves_idle (mod_out f k s) = moves_idle s"
  "resizer (mod_out f k s) = resizer s" "requests (mod_out f k s) = requests s" "workspaceModel (mod_out f k s) = workspaceModel s"
  "outputScale (mod_out f k s) = outputScale s" "outputEnabled (mod_out f k s) = outputEnabled s"
  "outputPlace (mod_out f k s) = outputPlace s" "windowDpr (mod_out f k s) = windowDpr s"
  "windowTitlebarHeight (mod_out f k s) = windowTitlebarHeight s"
  by (simp_all add: mod_out_def moves_idle_def resizer_def fun_eq_iff)

lemma reserveZone_spec:
  assumes "zones_ok d" "l_initialized l" "Shell x \<notin> fst ` set (all_zones d)"
  shows "\<exists>d'. reserveZone x l d = Inr d' \<and> zones_ok d' \<and> zone_only d d'
    \<and> (\<forall>e. o_zones d' e = o_zones d e @ (if 0 < zone_of l e then [(Shell x, zone_of l e)] else []))"
proof (cases "\<exists>e. 0 < zone_of l e")
  case True
  then obtain e where e: "0 < l_exclusiveZone l" "getExclusiveZoneEdge (l_ancher l) = Some e"
    by (auto simp: zone_of_def split: if_splits)
  obtain d' where d': "setExclusiveZone e (Shell x) (l_exclusiveZone l) d = Inr d'" "zones_ok d'" "zone_only d d'"
    "\<And>f. o_zones d' f = without (Shell x) (o_zones d f) @ (if f = e then [(Shell x, l_exclusiveZone l)] else [])"
    using setExclusiveZone_spec [OF assms(1) e(1)] by blast
  have "without (Shell x) (o_zones d f) = o_zones d f" for f
    using assms(3) by (intro without_idem) (cases f; auto simp: all_zones_def)
  then have "o_zones d' f = o_zones d f @ (if 0 < zone_of l f then [(Shell x, zone_of l f)] else [])" for f
    using e assms(2) d'(4) [of f] by (auto simp: zone_of_def)
  moreover have "reserveZone x l d = Inr d'" using e d'(1) by (simp add: reserveZone_def)
  ultimately show ?thesis using d' by blast
next
  case False
  then have "reserveZone x l d = Inr d" using assms(2)
    by (auto simp: reserveZone_def zone_of_def split: option.splits if_splits)
  with False assms(1) show ?thesis by (auto simp: zone_only_def)
qed

lemma arrangeLayerSurface_spec:
  assumes "zones_ok (outs s k)" "sw_type (wrappers s x) = Layer" "layer_ready s x" "moves_idle s"
    "Shell x \<notin> fst ` set (all_zones (outs s k))"
  shows "\<exists>t d. arrangeLayerSurface k x s = Inr t \<and> geo_step x (mod_out (\<lambda>_. d) k s) t
    \<and> zones_ok d \<and> zone_only (outs s k) d \<and> (\<forall>e. o_zones d e = o_zones (outs s k) e @ entry s e x)
    \<and> (l_initialized (layers s x) \<longrightarrow> geometry (geo t x) = anchoredGeometry (layers s x) (layerArea s k (layers s x)))"
proof (cases "l_initialized (layers s x)")
  case False
  have "mod_out (\<lambda>_. outs s k) k s = s" by (simp add: mod_out_def)
  with False assms show ?thesis
    by (intro exI [of _ s] exI [of _ "outs s k"])
      (simp add: arrangeLayerSurface_def Let_def layer_ready_def entry_def zone_of_def zone_only_def)
next
  case True
  let ?l = "layers s x"
  let ?g = "anchoredGeometry ?l (layerArea s k ?l)"
  obtain d where d: "reserveZone x ?l (outs s k) = Inr d" "zones_ok d" "zone_only (outs s k) d"
    "\<forall>e. o_zones d e = o_zones (outs s k) e @ (if 0 < zone_of ?l e then [(Shell x, zone_of ?l e)] else [])"
    using reserveZone_spec [OF assms(1) True assms(5)] by blast
  define u where "u = mod_out (\<lambda>_. d) k s"
  have u: "moves_idle u" "resizer u x = None" using assms by (simp_all add: u_def layer_ready_def)
  obtain v where v: "setSize x (r_size ?g) u = Inr v" "geo_step x u v" "r_size (geometry (geo v x)) = r_size ?g"
    using setSize_spec [OF u, of "r_size ?g"] by auto
  have v': "moves_idle v" "resizer v x = None" using geo_step_frame(3,4) [OF v(2)] u by simp_all
  obtain t where t: "setPosition x (topLeft ?g) v = Inr t" "geo_step x v t"
    "geometry (geo t x) = rect (topLeft ?g) (r_size (geometry (geo v x)))"
    using setPosition_free [OF v'] by blast
  have "arrangeLayerSurface k x s = Inr t"
    using True assms(2,3) v(1) t(1) d(1)
    by (simp add: arrangeLayerSurface_def Let_def layer_ready_def on_out_Inr flip: u_def)
  moreover have "geo_step x u t" using v(2) t(2) by (rule geo_step_trans)
  moreover have "geometry (geo t x) = ?g" using t(3) v(3) by simp
  ultimately show ?thesis using d assms(2) by (auto simp: u_def entry_def)
qed

section \<open>Arranging all layer surfaces\<close>

definition env_only :: "'a pstate_scheme \<Rightarrow> 'a pstate_scheme \<Rightarrow> bool" where
  "env_only s t = (\<exists>g r d. t = s\<lparr>geo := g, requests := r, outs := d\<rparr>)"

lemma env_only_refl [simp, intro]: "env_only s s"
  unfolding env_only_def by (rule exI [of _ "geo s"], rule exI [of _ "requests s"], rule exI [of _ "outs s"]) simp

lemma env_only_trans: "env_only s t \<Longrightarrow> env_only t u \<Longrightarrow> env_only s u"
  unfolding env_only_def
proof (elim exE)
  fix g r d g' r' d'
  assume "t = s\<lparr>geo := g, requests := r, outs := d\<rparr>" "u = t\<lparr>geo := g', requests := r', outs := d'\<rparr>"
  then show "\<exists>g r d. u = s\<lparr>geo := g, requests := r, outs := d\<rparr>"
    by (intro exI [of _ g'] exI [of _ r'] exI [of _ d']) simp
qed

lemma env_only_geo_step: "geo_step x s t \<Longrightarrow> env_only s t"
  unfolding env_only_def geo_step_def
proof (elim exE)
  fix g rs assume "t = s\<lparr>geo := (geo s)(x := g), requests := requests s @ rs\<rparr>"
  then show "\<exists>g r d. t = s\<lparr>geo := g, requests := r, outs := d\<rparr>"
    by (intro exI [of _ "(geo s)(x := g)"] exI [of _ "requests s @ rs"] exI [of _ "outs s"]) simp
qed

lemma env_only_mod_out: "env_only s (mod_out f k s)"
  unfolding env_only_def mod_out_def
  by (rule exI [of _ "geo s"], rule exI [of _ "requests s"], rule exI [of _ "(outs s)(k := f (outs s k))"]) simp

lemma env_only_frame:
  assumes "env_only s t"
  shows "wrappers t = wrappers s" "moves t = moves s" "layers t = layers s" "workspaceModel t = workspaceModel s"
    "resizer t = resizer s" "moves_idle t = moves_idle s" "layer_ready t = layer_ready s" "entry t = entry s"
    "windowTitlebarHeight t = windowTitlebarHeight s" "outputScale t = outputScale s" "outputEnabled t = outputEnabled s"
    "outputPlace t = outputPlace s" "windowDpr t = windowDpr s" "outputAtCursor t = outputAtCursor s"
    "cursorPosition t = cursorPosition s" "cursorSize t = cursorSize s"
  using assms by (auto simp: env_only_def resizer_def fun_eq_iff moves_idle_def layer_ready_def entry_def)

text \<open>The area a layer surface is anchored in, from the margins at that time.\<close>

definition area_for :: "qrect \<Rightarrow> (qedge \<Rightarrow> int) \<Rightarrow> layer_props \<Rightarrow> qrect" where
  "area_for r m l = marginsRemoved (l_margins l) (if l_exclusiveZone l = - 1 then r
     else marginsRemoved \<lparr>mg_left = m LeftEdge, mg_top = m TopEdge, mg_right = m RightEdge, mg_bottom = m BottomEdge\<rparr> r)"

lemma layerArea_for: "layerArea s k l = area_for (o_rect (outs s k)) (o_margin (outs s k)) l"
  by (simp add: layerArea_def area_for_def validGeometry_def exclusiveZone_def out_geometry_def)

definition wants :: "'a pstate_scheme \<Rightarrow> (int \<Rightarrow> bool) \<Rightarrow> sid \<Rightarrow> bool" where
  "wants s P x = (sw_type (wrappers s x) = Layer \<and> P (l_exclusiveZone (layers s x)))"

definition placed :: "'a pstate_scheme \<Rightarrow> oid \<Rightarrow> (qedge \<Rightarrow> int) \<Rightarrow> 'a pstate_scheme \<Rightarrow> sid \<Rightarrow> bool" where
  "placed s k m0 t x = (l_initialized (layers s x) \<longrightarrow>
     (\<exists>m. geometry (geo t x) = anchoredGeometry (layers s x) (area_for (o_rect (outs s k)) m (layers s x))
        \<and> (\<forall>e. m0 e \<le> m e \<and> m e + zone_of (layers s x) e \<le> o_margin (outs t k) e)))"

lemma zone_of_nonneg: "0 \<le> zone_of l e"
  by (simp add: zone_of_def)

lemma margin_append:
  assumes "zones_ok d" "zones_ok d'" "o_zones d' e = o_zones d e @ ps"
  shows "o_margin d' e = o_margin d e + sum_list (map snd ps)"
  using zones_okD(3) [OF assms(1), of e] zones_okD(3) [OF assms(2), of e] assms(3) by simp

lemma entry_sum: "sum_list (map snd (entry s e x)) = (if sw_type (wrappers s x) = Layer then zone_of (layers s x) e else 0)"
  using zone_of_nonneg [of "layers s x" e] by (auto simp: entry_def)

definition layer_step :: "(int \<Rightarrow> bool) \<Rightarrow> oid \<Rightarrow> sid \<Rightarrow> 'a pstate_scheme \<Rightarrow> 'a pstate_scheme result" where
  "layer_step P k x s =
     (if sw_type (wrappers s x) = Layer then
        rbind (qassert (sw_shellSurface (wrappers s x))) (\<lambda>_.
        if P (l_exclusiveZone (layers s x)) then arrangeLayerSurface k x s else Inr s)
      else Inr s)"

lemma arrangeLayersWith_steps: "arrangeLayersWith P k s = rfold (layer_step P k) (o_surfaces (outs s k)) s"
  by (simp add: arrangeLayersWith_def layer_step_def [abs_def])

lemma layer_step_spec:
  assumes "zones_ok (outs s k)" "moves_idle s" "layer_ready s x" "wants s P x \<longrightarrow> Shell x \<notin> fst ` set (all_zones (outs s k))"
  shows "\<exists>t. layer_step P k x s = Inr t \<and> env_only s t \<and> zones_ok (outs t k) \<and> zone_only (outs s k) (outs t k)
    \<and> (\<forall>j. j \<noteq> k \<longrightarrow> outs t j = outs s j) \<and> (\<forall>y. y \<noteq> x \<or> \<not> wants s P x \<longrightarrow> geo t y = geo s y)
    \<and> (\<forall>e. o_zones (outs t k) e = o_zones (outs s k) e @ (if wants s P x then entry s e x else []))
    \<and> (wants s P x \<longrightarrow> placed s k (o_margin (outs s k)) t x)"
proof (cases "wants s P x")
  case False
  then have "layer_step P k x s = Inr s"
    using assms(3) by (simp add: layer_step_def layer_ready_def wants_def)
  then show ?thesis using False assms(1) by (simp add: zone_only_def)
next
  case True
  then obtain t d where t: "arrangeLayerSurface k x s = Inr t" "geo_step x (mod_out (\<lambda>_. d) k s) t" "zones_ok d"
    "zone_only (outs s k) d" "\<And>e. o_zones d e = o_zones (outs s k) e @ entry s e x"
    "l_initialized (layers s x) \<longrightarrow> geometry (geo t x) = anchoredGeometry (layers s x) (layerArea s k (layers s x))"
    using arrangeLayerSurface_spec [of s k x] assms by (auto simp: wants_def)
  have "layer_step P k x s = Inr t"
    using True t(1) assms(3) by (simp add: layer_step_def layer_ready_def wants_def)
  moreover have "env_only s t" by (rule env_only_trans [OF env_only_mod_out env_only_geo_step [OF t(2)]])
  moreover have outs: "outs t = (outs s)(k := d)" using geo_step_pframe(1) [OF t(2)] by simp
  moreover have "geo t y = geo s y" if "y \<noteq> x" for y using geo_step_frame(5) [OF t(2) that] by simp
  moreover have "placed s k (o_margin (outs s k)) t x"
    using True t(6) margin_append [OF assms(1) t(3) t(5)] entry_sum [of s _ x] outs
    unfolding placed_def layerArea_for wants_def by auto
  ultimately show ?thesis using True t(3-5) by simp
qed

lemma placed_later:
  assumes "placed s k m0 t x" "geo u x = geo t x" "\<And>e. o_margin (outs t k) e \<le> o_margin (outs u k) e"
  shows "placed s k m0 u x"
  using assms(1) unfolding placed_def assms(2) by (meson assms(3) order_trans)

lemma arrange_phase:
  assumes "zones_ok (outs s k)" "moves_idle s" "\<forall>x\<in>set xs. layer_ready s x" "distinct xs"
    "\<forall>x\<in>set xs. wants s P x \<longrightarrow> Shell x \<notin> fst ` set (all_zones (outs s k))"
  shows "\<exists>t. rfold (layer_step P k) xs s = Inr t \<and> env_only s t \<and> zones_ok (outs t k) \<and> zone_only (outs s k) (outs t k)
    \<and> (\<forall>j. j \<noteq> k \<longrightarrow> outs t j = outs s j) \<and> (\<forall>y. y \<notin> set xs \<or> \<not> wants s P y \<longrightarrow> geo t y = geo s y)
    \<and> (\<forall>e. o_zones (outs t k) e = o_zones (outs s k) e @ concat (map (\<lambda>x. if wants s P x then entry s e x else []) xs))
    \<and> (\<forall>x\<in>set xs. wants s P x \<longrightarrow> placed s k (o_margin (outs s k)) t x)"
  using assms
proof (induction xs arbitrary: s)
  case Nil
  then show ?case by (simp add: zone_only_def)
next
  case (Cons x xs)
  obtain u where u: "layer_step P k x s = Inr u" "env_only s u" "zones_ok (outs u k)" "zone_only (outs s k) (outs u k)"
    "\<And>j. j \<noteq> k \<longrightarrow> outs u j = outs s j" "\<And>y. y \<noteq> x \<or> \<not> wants s P x \<longrightarrow> geo u y = geo s y"
    "\<And>e. o_zones (outs u k) e = o_zones (outs s k) e @ (if wants s P x then entry s e x else [])"
    "wants s P x \<longrightarrow> placed s k (o_margin (outs s k)) u x"
    using layer_step_spec [of s k x P] Cons.prems by (auto simp del: not_None_eq)
  note f = env_only_frame [OF u(2)]
  have w: "wants u P = wants s P" by (simp add: wants_def fun_eq_iff f)
  have fresh: "Shell y \<notin> fst ` set (all_zones (outs u k))" if "y \<in> set xs" "wants s P y" for y
  proof -
    have "y \<noteq> x" "Shell y \<notin> fst ` set (all_zones (outs s k))" using that Cons.prems by auto
    then show ?thesis unfolding all_zones_def u(7) by (auto simp: entry_def)
  qed
  obtain t where t: "rfold (layer_step P k) xs u = Inr t" "env_only u t" "zones_ok (outs t k)" "zone_only (outs u k) (outs t k)"
    "\<And>j. j \<noteq> k \<longrightarrow> outs t j = outs u j" "\<And>y. y \<notin> set xs \<or> \<not> wants u P y \<longrightarrow> geo t y = geo u y"
    "\<And>e. o_zones (outs t k) e = o_zones (outs u k) e @ concat (map (\<lambda>x. if wants u P x then entry u e x else []) xs)"
    "\<And>y. y \<in> set xs \<Longrightarrow> wants u P y \<longrightarrow> placed u k (o_margin (outs u k)) t y"
    using Cons.IH [of u] u(3) Cons.prems fresh unfolding w f(6,7) by (auto simp del: not_None_eq)
  have le1: "o_margin (outs s k) e \<le> o_margin (outs u k) e" for e
    using margin_append [OF Cons.prems(1) u(3) u(7)] entry_sum [of s e x] zone_of_nonneg [of "layers s x" e] by auto
  have le2: "o_margin (outs u k) e \<le> o_margin (outs t k) e" for e
  proof -
    have "0 \<le> sum_list (map snd (concat (map (\<lambda>x. if wants u P x then entry u e x else []) xs)))"
      by (rule positive_sum) (auto simp: entry_def split: if_splits)
    then show ?thesis using margin_append [OF u(3) t(3) t(7)] by simp
  qed
  have rect: "o_rect (outs u k) = o_rect (outs s k)" using u(4) by (simp add: zone_only_def)
  have "placed s k (o_margin (outs s k)) t y" if "y \<in> set (x # xs)" "wants s P y" for y
  proof (cases "y = x")
    case True
    have "geo t x = geo u x" using t(6) [of x] Cons.prems(4) by auto
    then show ?thesis using placed_later [OF _ _ le2, of s "o_margin (outs s k)" x] u(8) that True by simp
  next
    case False
    then have "placed u k (o_margin (outs u k)) t y" using t(8) [of y] that w by simp
    then show ?thesis using le1 unfolding placed_def f(3) rect by (meson order_trans)
  qed
  moreover have "geo t y = geo s y" if "y \<notin> set (x # xs) \<or> \<not> wants s P y" for y
    using that u(6) [of y] t(6) [of y] w by auto
  moreover have "outs t j = outs s j" if "j \<noteq> k" for j using that u(5) [of j] t(5) [of j] by simp
  moreover have "zone_only (outs s k) (outs t k)" using u(4) t(4) by (simp add: zone_only_def)
  moreover have "o_zones (outs t k) e = o_zones (outs s k) e
      @ concat (map (\<lambda>x. if wants s P x then entry s e x else []) (x # xs))" for e
    using t(7) [of e] u(7) [of e] unfolding w f(8) by simp
  ultimately show ?case using u(1) t(1,3) env_only_trans [OF u(2) t(2)] by simp
qed

text \<open>First all layer surfaces of the output give up their zones.\<close>

definition listed_layer :: "'a pstate_scheme \<Rightarrow> sid list \<Rightarrow> zone_owner \<Rightarrow> bool" where
  "listed_layer s xs z = (\<exists>x\<in>set xs. sw_type (wrappers s x) = Layer \<and> sw_shellSurface (wrappers s x) \<and> z = Shell x)"

definition release_step :: "oid \<Rightarrow> sid \<Rightarrow> 'a pstate_scheme \<Rightarrow> 'a pstate_scheme result" where
  "release_step k x s =
     (if sw_type (wrappers s x) = Layer \<and> sw_shellSurface (wrappers s x)
      then on_out (\<lambda>d. rbind (removeExclusiveZone (Shell x) d) (\<lambda>(_, d). Inr d)) k s else Inr s)"

lemma releaseZones_steps: "releaseZones k s = rfold (release_step k) (o_surfaces (outs s k)) s"
  by (simp add: releaseZones_def release_step_def [abs_def])

lemma release_phase:
  assumes "zones_ok (outs s k)"
  shows "\<exists>t. rfold (release_step k) xs s = Inr t \<and> env_only s t \<and> zones_ok (outs t k) \<and> zone_only (outs s k) (outs t k)
    \<and> (\<forall>j. j \<noteq> k \<longrightarrow> outs t j = outs s j) \<and> geo t = geo s \<and> requests t = requests s
    \<and> (\<forall>e. o_zones (outs t k) e = filter (\<lambda>p. \<not> listed_layer s xs (fst p)) (o_zones (outs s k) e))"
  using assms
proof (induction xs arbitrary: s)
  case Nil
  then show ?case by (simp add: zone_only_def listed_layer_def)
next
  case (Cons x xs)
  let ?P = "sw_type (wrappers s x) = Layer \<and> sw_shellSurface (wrappers s x)"
  obtain d where d: "(if ?P then rbind (removeExclusiveZone (Shell x) (outs s k)) (\<lambda>(_, d). Inr d) else Inr (outs s k)) = Inr d"
    "zones_ok d" "zone_only (outs s k) d" "\<And>e. o_zones d e = (if ?P then without (Shell x) (o_zones (outs s k) e) else o_zones (outs s k) e)"
  proof (cases ?P)
    case True
    then show ?thesis using that removeExclusiveZone_spec [OF Cons.prems, of "Shell x"] by auto
  next
    case False
    show ?thesis by (rule that [of "outs s k"]) (use False Cons.prems in \<open>auto simp: zone_only_def\<close>)
  qed
  define u where "u = mod_out (\<lambda>_. d) k s"
  have step: "release_step k x s = Inr u"
  proof (cases ?P)
    case True
    then show ?thesis using d(1) by (simp add: release_step_def on_out_def u_def)
  next
    case False
    then have "d = outs s k" using d(1) by auto
    with False show ?thesis by (auto simp: release_step_def u_def mod_out_def)
  qed
  have e: "env_only s u" unfolding u_def by (rule env_only_mod_out)
  note f = env_only_frame [OF e]
  obtain t where t: "rfold (release_step k) xs u = Inr t" "env_only u t" "zones_ok (outs t k)" "zone_only (outs u k) (outs t k)"
    "\<And>j. j \<noteq> k \<Longrightarrow> outs t j = outs u j" "geo t = geo u" "requests t = requests u"
    "\<And>e. o_zones (outs t k) e = filter (\<lambda>p. \<not> listed_layer u xs (fst p)) (o_zones (outs u k) e)"
    using Cons.IH [of u] d(2) by (auto simp: u_def)
  have "o_zones (outs t k) e = filter (\<lambda>p. \<not> listed_layer s (x # xs) (fst p)) (o_zones (outs s k) e)" for e
    unfolding t(8) by (auto simp: u_def d(4) without_def listed_layer_def filter_filter intro!: filter_cong)
  moreover have "zone_only (outs s k) (outs t k)" using t(4) d(3) by (simp add: zone_only_def u_def)
  moreover have "outs t j = outs s j" if "j \<noteq> k" for j using t(5) [OF that] that by (simp add: u_def)
  moreover have "env_only s t" by (rule env_only_trans [OF e t(2)])
  ultimately show ?case using step t(1,3,6,7) by (simp add: u_def)
qed

end
