(* ===== verification/Output_Windows.thy ===== *)
theory Output_Windows
  imports Output_Zones
begin

text \<open>
  Where an output puts its windows (src/src/output/output.cpp): the title bar stays reachable, new windows
  land in the valid area, popups keep their distance from the edges, and what a window's place
  becomes when its output changes.
\<close>

section \<open>Steps on one window\<close>

definition zones_kept :: "output_rec \<Rightarrow> output_rec \<Rightarrow> bool" where
  "zones_kept d d' = (o_rect d' = o_rect d \<and> o_surfaces d' = o_surfaces d \<and> o_margin d' = o_margin d \<and> o_zones d' = o_zones d)"

definition window_step :: "sid \<Rightarrow> 'a pstate_scheme \<Rightarrow> 'a pstate_scheme \<Rightarrow> bool" where
  "window_step x s t = (env_only s t \<and> (\<forall>y. y \<noteq> x \<longrightarrow> geo t y = geo s y) \<and> (\<forall>j. zones_kept (outs s j) (outs t j)))"

lemma window_step_refl [simp, intro]: "window_step x s s"
  by (simp add: window_step_def zones_kept_def)

lemma window_step_trans: "window_step x s t \<Longrightarrow> window_step x t u \<Longrightarrow> window_step x s u"
  unfolding window_step_def using env_only_trans by (auto simp: zones_kept_def)

lemma window_step_geo: "geo_step x s t \<Longrightarrow> window_step x s t"
  using geo_step_frame(5) [of x s t] geo_step_pframe(1) [of x s t] env_only_geo_step [of x s t]
  by (auto simp: window_step_def zones_kept_def)

lemma window_step_out:
  "(\<And>d. zones_kept d (f d)) \<Longrightarrow> window_step x s (mod_out f k s)"
  using env_only_mod_out [of s f k] by (auto simp: window_step_def) (simp add: zones_kept_def)

lemma window_step_idle: "window_step x s t \<Longrightarrow> moves_idle t = moves_idle s"
  using env_only_frame(6) by (auto simp: window_step_def)

text \<open>A window at rest: it is not being resized, and in its normal state it is as large as its normal
  geometry says.\<close>

definition at_rest :: "'a gstate_scheme \<Rightarrow> sid \<Rightarrow> bool" where
  "at_rest s x = (resizer s x = None
     \<and> (surfaceState (geo s x) = Normal \<longrightarrow> r_size (geometry (geo s x)) = r_size (normalGeometry (geo s x))))"

lemma rect_move: "moveTopLeft p r = rect p (r_size r)"
  by (rule qrect_eqI) (simp_all add: moveTopLeft_def r_size_def)

lemma align_normal [simp]:
  "alignToPixelGrid (setNormalGeometry x r s) y = alignToPixelGrid s y"
  by (rule align_cong) (simp_all add: mod_geo_def setNormalGeometry_def)

lemma moveNormalGeometryInOutput_spec:
  assumes "moves_idle s"
  shows "\<exists>t. moveNormalGeometryInOutput x p s = Inr t \<and> geo_step x s t
    \<and> (at_rest s x \<longrightarrow> normalGeometry (geo t x) = rect (alignToPixelGrid s x p) (r_size (normalGeometry (geo s x))))"
proof -
  let ?p = "alignToPixelGrid s x p"
  let ?r = "rect ?p (r_size (normalGeometry (geo s x)))"
  define u where "u = setNormalGeometry x ?r s"
  have u: "geo_step x s u" "moves_idle u" "normalGeometry (geo u x) = ?r" "geometry (geo u x) = geometry (geo s x)"
    "surfaceState (geo u x) = surfaceState (geo s x)"
    unfolding u_def setNormalGeometry_def using assms by (simp_all only: geo_stepI(2) moves_idle_geo) (simp_all add: mod_geo_def)
  have m: "moveNormalGeometryInOutput x p s = (if surfaceState (geo u x) \<noteq> Normal then Inr u
      else if geometryAnimation (geo u x) \<noteq> None then Inr (mod_geo (\<lambda>g. g\<lparr>geometryAnimation := Some (normalGeometry g)\<rparr>) x u)
      else setPosition x ?p u)"
    by (simp add: moveNormalGeometryInOutput_def Let_def u_def)
  consider "surfaceState (geo u x) \<noteq> Normal" | "surfaceState (geo u x) = Normal" "geometryAnimation (geo u x) \<noteq> None"
    | "surfaceState (geo u x) = Normal" "geometryAnimation (geo u x) = None" by blast
  then show ?thesis
  proof cases
    case 1
    then show ?thesis using u m by simp
  next
    case 2
    let ?t = "mod_geo (\<lambda>g. g\<lparr>geometryAnimation := Some (normalGeometry g)\<rparr>) x u"
    have "geo_step x s ?t" by (rule geo_step_trans [OF u(1) geo_stepI(2)])
    moreover have "normalGeometry (geo ?t x) = ?r" using u(3) by (simp add: mod_geo_def)
    ultimately show ?thesis using 2 m by simp
  next
    case 3
    obtain t where t: "setPosition x ?p u = Inr t" "geometry_only x u t"
      "normalGeometry (geo t x) = (if topLeft (geometry (geo u x)) \<noteq> ?p \<and> shouldUpdateNormalGeometry u x
         then settled u x (moveTopLeft ?p (geometry (geo u x))) (geometry (geo u x)) else normalGeometry (geo u x))"
      using setPosition_spec [OF u(2)] by blast
    have "normalGeometry (geo t x) = ?r" if "at_rest s x"
    proof -
      have "resizer u x = None" using that geo_step_frame(3) [OF u(1)] by (simp add: at_rest_def)
      moreover have "r_size (geometry (geo u x)) = r_size (normalGeometry (geo s x))"
        using that 3(1) u(4,5) by (simp add: at_rest_def)
      ultimately show ?thesis using t(3) u(3) by (simp add: settled_free rect_move)
    qed
    then show ?thesis using 3 m t(1) geo_step_trans [OF u(1) geo_stepI(1) [OF t(2)]] by simp
  qed
qed

section \<open>The title bar\<close>

definition shows_in :: "qrect \<Rightarrow> qrect \<Rightarrow> qpoint \<Rightarrow> bool" where
  "shows_in validGeo bar p = (\<not> isEmptyRect (r_inter (translated p bar) validGeo))"

lemma clampTitlebar_size: "r_size (clampTitlebar v b c) = r_size c"
  by (simp add: clampTitlebar_def Let_def r_size_def moves)

lemma clampTitlebar_keeps: "shows_in v b (topLeft c) \<Longrightarrow> clampTitlebar v b c = c"
  by (simp add: clampTitlebar_def shows_in_def Let_def)

lemma translated_valid: "isValidRect b \<Longrightarrow> isValidRect (translated p b)"
  by (simp add: isValidRect_def moves)

lemma clampTitlebar_shows:
  assumes "isValidRect v" "isValidRect b"
  shows "shows_in v b (topLeft (clampTitlebar v b c))"
proof (cases "shows_in v b (topLeft c)")
  case True
  then show ?thesis by (simp add: clampTitlebar_keeps)
next
  case False
  note e = inter_empty_valid [OF translated_valid [OF assms(2)] assms(1)]
  have s: "0 < rw v" "0 < rh v" "0 < rw b" "0 < rh b" using assms by (simp_all add: isValidRect_def)
  let ?c = "clampTitlebar v b c"
  have ry: "ry ?c = (if ry c + ry b < ry v then ry v - ry b
      else if ry c + ry b + rh b > ry v + rh v then ry v + rh v - rh b - ry b else ry c)"
    using False by (simp add: clampTitlebar_def shows_in_def Let_def moves edge_defs topLeft_def)
  have rx: "rx ?c = (if rx c + rx b < rx v then rx v - rx b
      else if rx c + rx b + rw b > rx v + rw v then rx v + rw v - rw b - rx b else rx c)"
    using False by (simp add: clampTitlebar_def shows_in_def Let_def moves edge_defs topLeft_def)
  have "\<not> (rx v + rw v \<le> rx ?c + rx b \<or> rx ?c + rx b + rw b \<le> rx v \<or> ry v + rh v \<le> ry ?c + ry b \<or> ry ?c + ry b + rh b \<le> ry v)"
    using s unfolding rx ry by (auto split: if_splits)
  then show ?thesis unfolding shows_in_def e by (simp add: edge_defs moves topLeft_def algebra_simps)
qed

lemma titlebarFor_valid:
  "0 < rw (normalGeometry (geo s x)) \<Longrightarrow> 0 < windowTitlebarHeight s \<Longrightarrow> isValidRect (titlebarFor s x)"
  by (simp add: titlebarFor_def isValidRect_def)

definition clamped :: "'a pstate_scheme \<Rightarrow> oid \<Rightarrow> sid \<Rightarrow> qpoint \<Rightarrow> qpoint" where
  "clamped s k x pos =
     topLeft (clampTitlebar (validGeometry s k) (titlebarFor s x) (rect pos (r_size (normalGeometry (geo s x)))))"

text \<open>The place a window ends at: where it is, or on the pixel grid.\<close>

definition ends_at :: "'a pstate_scheme \<Rightarrow> sid \<Rightarrow> qpoint \<Rightarrow> qrect" where
  "ends_at s x p = (if p = topLeft (normalGeometry (geo s x)) then normalGeometry (geo s x)
     else rect (alignToPixelGrid s x p) (r_size (normalGeometry (geo s x))))"

lemma moveSurfaceWithTitlebarClamp_spec:
  assumes "moves_idle s"
  shows "\<exists>t. moveSurfaceWithTitlebarClamp k x pos s = Inr t \<and> geo_step x s t
    \<and> (at_rest s x \<longrightarrow> normalGeometry (geo t x) = ends_at s x (clamped s k x pos))"
proof (cases "clamped s k x pos = topLeft (normalGeometry (geo s x))")
  case True
  then have "moveSurfaceWithTitlebarClamp k x pos s = Inr s"
    by (simp add: moveSurfaceWithTitlebarClamp_def Let_def clamped_def)
  then show ?thesis using True by (simp add: ends_at_def)
next
  case False
  then have "moveSurfaceWithTitlebarClamp k x pos s = moveNormalGeometryInOutput x (clamped s k x pos) s"
    by (simp add: moveSurfaceWithTitlebarClamp_def Let_def clamped_def)
  then show ?thesis using False moveNormalGeometryInOutput_spec [OF assms, of x "clamped s k x pos"] by (simp add: ends_at_def)
qed

text \<open>C26: Wherever a window is to be moved, the title bar remains within reach: the place it is given
  shows a part of the title bar in the valid area of the output, and is the requested one whenever
  that does. The window keeps its size, and nothing but its geometry changes.\<close>

theorem title_bar_stays_reachable:
  assumes "moves_idle s" "at_rest s x" "isValidRect (validGeometry s k)" "isValidRect (titlebarFor s x)"
  shows "\<exists>t p. moveSurfaceWithTitlebarClamp k x pos s = Inr t \<and> shows_in (validGeometry s k) (titlebarFor s x) p
    \<and> (shows_in (validGeometry s k) (titlebarFor s x) pos \<longrightarrow> p = pos)
    \<and> normalGeometry (geo t x) = ends_at s x p \<and> r_size (normalGeometry (geo t x)) = r_size (normalGeometry (geo s x))
    \<and> outs t = outs s \<and> wrappers t = wrappers s \<and> (\<forall>y. y \<noteq> x \<longrightarrow> geo t y = geo s y)"
proof -
  obtain t where t: "moveSurfaceWithTitlebarClamp k x pos s = Inr t" "geo_step x s t"
    "normalGeometry (geo t x) = ends_at s x (clamped s k x pos)"
    using moveSurfaceWithTitlebarClamp_spec [OF assms(1)] assms(2) by blast
  moreover have "shows_in (validGeometry s k) (titlebarFor s x) (clamped s k x pos)"
    unfolding clamped_def by (rule clampTitlebar_shows [OF assms(3,4)])
  moreover have "clamped s k x pos = pos" if "shows_in (validGeometry s k) (titlebarFor s x) pos"
    using that by (simp add: clamped_def clampTitlebar_keeps)
  moreover have "r_size (ends_at s x p) = r_size (normalGeometry (geo s x))" for p by (simp add: ends_at_def)
  ultimately show ?thesis using geo_step_frame(1,5) [OF t(2)] geo_step_pframe(1) [OF t(2)]
    by (intro exI [of _ t] exI [of _ "clamped s k x pos"]) simp
qed

section \<open>The geometries of the other states\<close>

text \<open>What the placement of a window looks at.\<close>

definition layout_kept :: "sid \<Rightarrow> 'a gstate_scheme \<Rightarrow> 'a gstate_scheme \<Rightarrow> bool" where
  "layout_kept x s t = (geo_step x s t \<and> normalGeometry (geo t x) = normalGeometry (geo s x)
     \<and> positionAutomatic (geo t x) = positionAutomatic (geo s x) \<and> titleBar (geo t x) = titleBar (geo s x)
     \<and> clientRequstPos (geo t x) = clientRequstPos (geo s x) \<and> autoPlaceCursorOffset (geo t x) = autoPlaceCursorOffset (geo s x)
     \<and> onOutputs (geo t x) = onOutputs (geo s x) \<and> hasSurface (geo t x) = hasSurface (geo s x)
     \<and> surfaceState (geo t x) = surfaceState (geo s x)
     \<and> (surfaceState (geo s x) = Normal \<longrightarrow> geometry (geo t x) = geometry (geo s x)))"

lemma layout_kept_refl [simp, intro]: "layout_kept x s s"
  by (simp add: layout_kept_def)

lemma layout_kept_trans: "layout_kept x s t \<Longrightarrow> layout_kept x t u \<Longrightarrow> layout_kept x s u"
  unfolding layout_kept_def using geo_step_trans by auto

lemma layout_kept_geo:
  "layout_kept x s (mod_geo (\<lambda>g. g\<lparr>maximizedGeometry := r\<rparr>) x s)"
  "layout_kept x s (mod_geo (\<lambda>g. g\<lparr>fullscreenGeometry := r\<rparr>) x s)"
  "layout_kept x s (mod_geo (\<lambda>g. g\<lparr>geometryAnimation := a\<rparr>) x s)"
  unfolding layout_kept_def by (simp_all only: geo_stepI(2)) (simp_all add: mod_geo_def)

lemma place_at_kept:
  assumes "moves_idle s" "surfaceState (geo s x) \<noteq> Normal"
  shows "\<exists>t. place_at x r s = Inr t \<and> layout_kept x s t"
proof -
  obtain u where u: "setPosition x (topLeft r) s = Inr u" "geometry_only x s u" using setPosition_spec [OF assms(1)] by blast
  let ?t = "snd (resize x (r_size r) False u)"
  have o: "geometry_only x s ?t" by (rule geometry_only_trans [OF u(2) geometry_only_steps(3)])
  have "normalGeometry (geo ?t x) = normalGeometry (geo s x)"
    using setPosition_keeps_normal [OF assms u(1)] by (simp add: resize_keeps_normal)
  moreover have "clientRequstPos (geo ?t x) = clientRequstPos (geo s x)"
    "autoPlaceCursorOffset (geo ?t x) = autoPlaceCursorOffset (geo s x)"
    using o by (auto simp: geometry_only_def split: if_splits)
  ultimately have "layout_kept x s ?t"
    unfolding layout_kept_def using geo_stepI(1) [OF o] geometry_only_frame(9,14,15,21,22) [OF o] assms(2) by simp
  with u(1) show ?thesis by (simp add: place_at_def)
qed

lemma setMaximizedGeometry_kept:
  assumes "moves_idle s"
  shows "\<exists>t. setMaximizedGeometry x r s = Inr t \<and> layout_kept x s t"
proof -
  let ?u = "mod_geo (\<lambda>g. g\<lparr>maximizedGeometry := r\<rparr>) x s"
  have "surfaceState (geo ?u x) = surfaceState (geo s x)" by (simp add: mod_geo_def)
  moreover have "\<exists>t. place_at x r ?u = Inr t \<and> layout_kept x s t" if "surfaceState (geo ?u x) = Maximized"
    using place_at_kept [of ?u x r] layout_kept_trans [OF layout_kept_geo(1)] assms that by auto
  moreover have "layout_kept x s (mod_geo (\<lambda>g. g\<lparr>geometryAnimation := Some r\<rparr>) x ?u)"
    by (rule layout_kept_trans [OF layout_kept_geo(1) layout_kept_geo(3)])
  ultimately show ?thesis using layout_kept_geo(1) by (auto simp: setMaximizedGeometry_def Let_def)
qed

lemma setFullscreenGeometry_kept:
  assumes "moves_idle s"
  shows "\<exists>t. setFullscreenGeometry x r s = Inr t \<and> layout_kept x s t"
proof -
  let ?u = "mod_geo (\<lambda>g. g\<lparr>fullscreenGeometry := r\<rparr>) x s"
  have "surfaceState (geo ?u x) = surfaceState (geo s x)" by (simp add: mod_geo_def)
  moreover have "\<exists>t. place_at x r ?u = Inr t \<and> layout_kept x s t" if "surfaceState (geo ?u x) = Fullscreen"
    using place_at_kept [of ?u x r] layout_kept_trans [OF layout_kept_geo(2)] assms that by auto
  moreover have "layout_kept x s (mod_geo (\<lambda>g. g\<lparr>geometryAnimation := Some r\<rparr>) x ?u)"
    by (rule layout_kept_trans [OF layout_kept_geo(2) layout_kept_geo(3)])
  ultimately show ?thesis using layout_kept_geo(2) by (auto simp: setFullscreenGeometry_def Let_def)
qed

text \<open>So an arrangement starts in a state where all that decides the place of the window is as before.\<close>

definition arranged :: "'a pstate_scheme \<Rightarrow> sid \<Rightarrow> bool" where
  "arranged s x = (sw_type (wrappers s x) \<noteq> Layer \<and> \<not> sw_isIMCandidatePanel (wrappers s x) \<and> sw_type (wrappers s x) \<noteq> LockScreen)"

lemma validGeometry_cong: "zones_kept (outs s k) (outs t k) \<Longrightarrow> validGeometry t k = validGeometry s k"
  by (simp add: validGeometry_def out_geometry_def exclusiveZone_def zones_kept_def)

lemma arrangeNonLayerSurface_places:
  assumes "moves_idle s" "arranged s x"
  shows "\<exists>u. arrangeNonLayerSurface k x reason s = placeNonLayerSurface k x reason u \<and> layout_kept x s u"
proof -
  obtain u where u: "setFullscreenGeometry x (out_geometry s k) s = Inr u" "layout_kept x s u"
    using setFullscreenGeometry_kept [OF assms(1)] by blast
  have g: "geo_step x s u" using u(2) by (simp add: layout_kept_def)
  then have "moves_idle u" using assms(1) geo_step_frame(4) by blast
  then obtain v where v: "setMaximizedGeometry x (validGeometry u k) u = Inr v" "layout_kept x u v"
    using setMaximizedGeometry_kept by blast
  have "outs u = outs s" "outs v = outs u"
    using geo_step_pframe(1) g v(2) by (auto simp: layout_kept_def)
  then have "validGeometry u k = validGeometry s k" "validGeometry v k = validGeometry u k"
    by (simp_all add: validGeometry_def out_geometry_def)
  then have "arrangeNonLayerSurface k x reason s = placeNonLayerSurface k x reason v"
    using assms(2) u(1) v(1)
    by (simp add: arrangeNonLayerSurface_def arranged_def)
  then show ?thesis using layout_kept_trans [OF u(2) v(2)] by blast
qed

section \<open>Every arrangement returns\<close>

definition safe_step :: "sid \<Rightarrow> 'a pstate_scheme \<Rightarrow> 'a pstate_scheme result \<Rightarrow> bool" where
  "safe_step x s r = (\<exists>t. r = Inr t \<and> window_step x s t)"

definition window_ready :: "'a pstate_scheme \<Rightarrow> sid \<Rightarrow> bool" where
  "window_ready s x = (sw_ownsOutput (wrappers s x) \<noteq> None \<and> workspaceModel s (sw_workspaceId (wrappers s x)) \<noteq> None)"

lemma safe_stepI [simp, intro]: "safe_step x s (Inr s)" "window_step x s t \<Longrightarrow> safe_step x s (Inr t)"
  by (auto simp: safe_step_def)

lemma safe_step_after: "window_step x s t \<Longrightarrow> safe_step x t r \<Longrightarrow> safe_step x s r"
  unfolding safe_step_def using window_step_trans by blast

lemma safe_moves:
  assumes "moves_idle s"
  shows "safe_step x s (moveNormalGeometryInOutput x p s)" "safe_step x s (moveSurfaceWithTitlebarClamp k x p s)"
  unfolding safe_step_def
  using moveNormalGeometryInOutput_spec [OF assms, of x p] moveSurfaceWithTitlebarClamp_spec [OF assms, of k x p] window_step_geo
  by blast+

lemma window_step_keeps:
  "window_step x s (mod_out (\<lambda>d. d\<lparr>o_direction := v\<rparr>) k s)"
  "window_step x s (mod_out (\<lambda>d. d\<lparr>o_ratio := f d\<rparr>) k s)"
  "window_step x s (mod_out (\<lambda>d. d\<lparr>o_positionCache := g d\<rparr>) k s)"
  by (rule window_step_out; simp add: zones_kept_def)+

lemma safe_places:
  assumes "moves_idle s"
  shows "safe_step x s (placeCentered k x s)" "safe_step x s (placeClientRequstPos k x q s)"
    "sw_ownsOutput (wrappers s x) \<noteq> None \<Longrightarrow> safe_step x s (placeUnderCursor k x s)"
    "workspaceModel s (sw_workspaceId (wrappers s x)) \<noteq> None \<Longrightarrow> safe_step x s (placeSmartCascaded k x s)"
proof -
  show c: "safe_step x s (placeCentered k x s)" using safe_moves(2) [OF assms] by (simp add: placeCentered_def Let_def)
  show "safe_step x s (placeClientRequstPos k x q s)" using safe_moves(2) [OF assms] by (simp add: placeClientRequstPos_def Let_def)
  show "sw_ownsOutput (wrappers s x) \<noteq> None \<Longrightarrow> safe_step x s (placeUnderCursor k x s)"
    using safe_moves(2) [OF assms] by (auto simp: placeUnderCursor_def Let_def deref_def)
  have d: "safe_step x s (moveSurfaceWithTitlebarClamp k x p (mod_out (\<lambda>d. d\<lparr>o_direction := v\<rparr>) k s))" for v p
    by (rule safe_step_after [OF window_step_keeps(1)], rule safe_moves(2)) (simp add: assms)
  show "workspaceModel s (sw_workspaceId (wrappers s x)) \<noteq> None \<Longrightarrow> safe_step x s (placeSmartCascaded k x s)"
    using c d by (auto simp: placeSmartCascaded_def Let_def split: option.splits prod.splits)
qed

lemma safe_popup:
  assumes "moves_idle s"
  shows "safe_step x s (arrangePopupSurface k x s)"
proof -
  have c: "safe_step x s (moveNormalGeometryInOutput x p (mod_out (\<lambda>d. d\<lparr>o_positionCache := g d\<rparr>) k s))" for g p
    by (rule safe_step_after [OF window_step_keeps(3)], rule safe_moves(1)) (simp add: assms)
  have "safe_step x s (handleLayerShellPopup x n s)" for n
    using safe_moves(1) [OF assms] by (auto simp: handleLayerShellPopup_def Let_def split: option.splits)
  moreover have "safe_step x s (handleRegularPopup k x n t s)" for n t
    using c unfolding handleRegularPopup_def Let_def by (auto split: option.splits)
  ultimately show ?thesis by (auto simp: arrangePopupSurface_def Let_def split: option.splits)
qed

lemma layout_kept_step: "layout_kept x s t \<Longrightarrow> window_step x s t"
  by (simp add: layout_kept_def window_step_geo)

lemma resize_step: "window_step x s (snd (resize x z b s))"
  by (rule window_step_geo [OF geo_stepI(1) [OF geometry_only_steps(3)]])

lemma window_ready_step: "window_step x s t \<Longrightarrow> window_ready t = window_ready s"
  using env_only_frame(1,4) [of s t] by (simp add: window_step_def window_ready_def fun_eq_iff)

lemma placeNonLayerSurface_ok:
  assumes "moves_idle s" "window_ready s x"
  shows "safe_step x s (placeNonLayerSurface k x reason s)"
proof -
  note m = safe_moves [OF assms(1)] and p = safe_places [OF assms(1)] and q = safe_popup [OF assms(1)]
  have r: "safe_step x s (moveSurfaceWithTitlebarClamp k x pos (mod_out (\<lambda>d. d\<lparr>o_ratio := f d\<rparr>) k s))" for f pos
    by (rule safe_step_after [OF window_step_keeps(2)], rule safe_moves(2)) (simp add: assms)
  have z: "safe_step x s (placeSmartCascaded k x (snd (resize x z b s)))" "safe_step x s (placeCentered k x (snd (resize x z b s)))" for z b
  proof -
    have u: "moves_idle (snd (resize x z b s))" "window_ready (snd (resize x z b s)) x"
      by (simp_all add: window_step_idle [OF resize_step] window_ready_step [OF resize_step] assms)
    show "safe_step x s (placeSmartCascaded k x (snd (resize x z b s)))"
      by (rule safe_step_after [OF resize_step safe_places(4) [OF u(1)]]) (use u(2) in \<open>simp add: window_ready_def\<close>)
    show "safe_step x s (placeCentered k x (snd (resize x z b s)))"
      by (rule safe_step_after [OF resize_step safe_places(1) [OF u(1)]])
  qed
  obtain own where own: "sw_ownsOutput (wrappers s x) = Some own" using assms(2) by (auto simp: window_ready_def)
  have ws: "workspaceModel s (sw_workspaceId (wrappers s x)) \<noteq> None" using assms(2) by (simp add: window_ready_def)
  have i: "safe_step x s (if P then r else r')" if "safe_step x s r" "safe_step x s r'" for P r r'
    using that by simp
  show ?thesis
    unfolding placeNonLayerSurface_def Let_def own
    by (intro i) (auto simp: m p own ws q r z deref_def split: option.splits)
qed

lemma arrangeNonLayerSurface_ok:
  assumes "moves_idle s" "sw_type (wrappers s x) \<noteq> Layer" "window_ready s x"
  shows "safe_step x s (arrangeNonLayerSurface k x reason s)"
proof (cases "arranged s x")
  case True
  obtain u where u: "arrangeNonLayerSurface k x reason s = placeNonLayerSurface k x reason u" "layout_kept x s u"
    using arrangeNonLayerSurface_places [OF assms(1) True] by blast
  have w: "window_step x s u" by (rule layout_kept_step [OF u(2)])
  show ?thesis unfolding u(1)
    by (rule safe_step_after [OF w placeNonLayerSurface_ok])
      (use assms window_step_idle [OF w] window_ready_step [OF w] in simp_all)
next
  case False
  then have "arrangeNonLayerSurface k x reason s = Inr s"
    using assms(2) by (auto simp: arrangeNonLayerSurface_def arranged_def)
  then show ?thesis by simp
qed

section \<open>New windows\<close>

definition inside :: "qrect \<Rightarrow> qpoint \<Rightarrow> qsize \<Rightarrow> bool" where
  "inside v p z = (r_left v \<le> px p \<and> px p + sw z \<le> r_right v \<and> r_top v \<le> py p \<and> py p + sh z \<le> r_bottom v)"

definition fits :: "qsize \<Rightarrow> qrect \<Rightarrow> bool" where
  "fits z v = (0 < sw z \<and> sw z \<le> rw v \<and> 0 < sh z \<and> sh z \<le> rh v)"

lemma constrain_inside: "fits z v \<Longrightarrow> inside v (constrainToValidArea p z v) z"
  by (auto simp: constrainToValidArea_def inside_def fits_def Let_def edge_defs)

text \<open>A title bar starts at the window's corner, so it shows when the corner is in the area.\<close>

lemma titlebarFor_corner: "rx (titlebarFor s x) = 0" "ry (titlebarFor s x) = 0"
  by (simp_all add: titlebarFor_def titlebarGeometry_def nullRect_def isValidRect_def split: option.splits)

lemma inside_shows:
  assumes "inside v p z" "fits z v" "isValidRect b" "rx b = 0" "ry b = 0"
  shows "shows_in v b p"
proof -
  have v: "isValidRect v" using assms(2) by (simp add: fits_def isValidRect_def)
  show ?thesis
    unfolding shows_in_def inter_empty_valid [OF translated_valid [OF assms(3)] v]
    using assms by (simp add: edge_defs moves isValidRect_def inside_def fits_def)
qed

lemma clamped_shown: "shows_in (validGeometry s k) (titlebarFor s x) p \<Longrightarrow> clamped s k x p = p"
  by (simp add: clamped_def clampTitlebar_keeps)

lemma kept_layout:
  assumes "layout_kept x s u"
  shows "clamped u k x = clamped s k x" "ends_at u x = ends_at s x" "validGeometry u = validGeometry s" "titlebarFor u x = titlebarFor s x"
    "wrappers u = wrappers s" "workspaceModel u = workspaceModel s" "outs u = outs s"
    "at_rest s x \<Longrightarrow> at_rest u x" "moves_idle u = moves_idle s" "normalGeometry (geo u x) = normalGeometry (geo s x)"
    "positionAutomatic (geo u x) = positionAutomatic (geo s x)"
proof -
  have g: "geo_step x s u" using assms by (simp add: layout_kept_def)
  note f = geo_step_frame [OF g] and pf = geo_step_pframe [OF g]
  show n: "normalGeometry (geo u x) = normalGeometry (geo s x)" using assms by (simp add: layout_kept_def)
  show v: "validGeometry u = validGeometry s" by (simp add: fun_eq_iff validGeometry_def out_geometry_def pf)
  have tb: "titlebarGeometry u x = titlebarGeometry s x" using assms by (simp add: titlebarGeometry_def layout_kept_def)
  show b: "titlebarFor u x = titlebarFor s x" unfolding titlebarFor_def tb n pf(4) by (rule refl)
  show "clamped u k x = clamped s k x" by (simp add: fun_eq_iff clamped_def v b n)
  have "alignToPixelGrid u x = alignToPixelGrid s x"
    using assms by (intro align_cong) (simp_all add: f layout_kept_def)
  then show "ends_at u x = ends_at s x" by (simp add: fun_eq_iff ends_at_def n)
  show "at_rest s x \<Longrightarrow> at_rest u x" using assms f(3) by (simp add: at_rest_def layout_kept_def)
  show "positionAutomatic (geo u x) = positionAutomatic (geo s x)" using assms by (simp add: layout_kept_def)
  show "wrappers u = wrappers s" "workspaceModel u = workspaceModel s" "outs u = outs s" "moves_idle u = moves_idle s"
    by (rule f pf)+
qed

lemma ends_at_out [simp]: "ends_at (mod_out f k s) x = ends_at s x"
proof -
  have "alignToPixelGrid (mod_out f k s) x = alignToPixelGrid s x" by (rule align_cong) simp_all
  then show ?thesis by (simp add: fun_eq_iff ends_at_def)
qed

lemma at_rest_out [simp]: "at_rest (mod_out f k s) x = at_rest s x"
  by (simp add: at_rest_def)

lemma titlebarFor_out [simp]: "titlebarFor (mod_out f k s) x = titlebarFor s x"
  by (simp add: titlebarFor_def titlebarGeometry_def)

lemma move_inside:
  assumes "moves_idle s" "at_rest s x" "isValidRect (titlebarFor s x)" "fits (r_size (normalGeometry (geo s x))) (validGeometry s k)"
    "inside (validGeometry s k) p (r_size (normalGeometry (geo s x)))"
  shows "\<exists>t. moveSurfaceWithTitlebarClamp k x p s = Inr t \<and> normalGeometry (geo t x) = ends_at s x p"
proof -
  have "clamped s k x p = p"
    by (rule clamped_shown, rule inside_shows [OF assms(5,4,3)]) (simp_all add: titlebarFor_corner)
  then show ?thesis using moveSurfaceWithTitlebarClamp_spec [OF assms(1), of k x p] assms(2) by auto
qed

definition lands_inside :: "'a pstate_scheme \<Rightarrow> oid \<Rightarrow> sid \<Rightarrow> 'a pstate_scheme result \<Rightarrow> bool" where
  "lands_inside s k x r = (\<exists>t p. r = Inr t \<and> inside (validGeometry s k) p (r_size (normalGeometry (geo s x)))
     \<and> normalGeometry (geo t x) = ends_at s x p)"

lemma placeCentered_inside:
  assumes "moves_idle s" "at_rest s x" "isValidRect (titlebarFor s x)" "fits (r_size (normalGeometry (geo s x))) (validGeometry s k)"
  shows "lands_inside s k x (placeCentered k x s)"
proof -
  let ?n = "normalGeometry (geo s x)" and ?v = "validGeometry s k"
  let ?p = "pt (max (rx ?v + rw ?v / 2 - rw ?n / 2) (rx ?v)) (max (ry ?v + rh ?v / 2 - rh ?n / 2) (ry ?v))"
  have "placeCentered k x s = moveSurfaceWithTitlebarClamp k x ?p s"
    by (simp add: placeCentered_def Let_def topLeft_def edge_defs moves moveCenter_def r_center_def)
  moreover have "inside ?v ?p (r_size ?n)"
    using assms(4) by (auto simp: inside_def fits_def edge_defs r_size_def field_simps)
  ultimately show ?thesis using move_inside [OF assms, of ?p] by (auto simp: lands_inside_def)
qed

lemma placeSmartCascaded_inside:
  assumes "moves_idle s" "at_rest s x" "isValidRect (titlebarFor s x)" "fits (r_size (normalGeometry (geo s x))) (validGeometry s k)"
    "workspaceModel s (sw_workspaceId (wrappers s x)) = Some m"
  shows "lands_inside s k x (placeSmartCascaded k x s)"
proof (cases "referenceWindow m x")
  case None
  then show ?thesis using placeCentered_inside [OF assms(1-4)] assms(5) by (simp add: placeSmartCascaded_def)
next
  case (Some y)
  let ?n = "normalGeometry (geo s x)" and ?v = "validGeometry s k"
  obtain p d where r: "placeSmartCascaded k x s
      = moveSurfaceWithTitlebarClamp k x (constrainToValidArea p (r_size ?n) ?v) (mod_out (\<lambda>e. e\<lparr>o_direction := d\<rparr>) k s)"
    using Some assms(5) by (simp add: placeSmartCascaded_def Let_def case_prod_beta)
  let ?u = "mod_out (\<lambda>e. e\<lparr>o_direction := d\<rparr>) k s" and ?q = "constrainToValidArea p (r_size ?n) ?v"
  have v: "validGeometry ?u k = ?v" by (rule validGeometry_cong) (simp add: zones_kept_def)
  have i: "inside ?v ?q (r_size ?n)" by (rule constrain_inside [OF assms(4)])
  have "\<exists>t. moveSurfaceWithTitlebarClamp k x ?q ?u = Inr t \<and> normalGeometry (geo t x) = ends_at ?u x ?q"
    by (rule move_inside) (use assms i v in simp_all)
  then show ?thesis using r i by (auto simp: lands_inside_def)
qed

text \<open>C27: A new window without a parent that fits into the valid area of its output is placed inside it,
  whether it is centred or cascaded next to the window that was active before: the arrangement
  returns and the window ends at a place (rounded to the pixel grid) where no part of it leaves
  the area or lies under a panel.\<close>

theorem new_window_inside:
  assumes "moves_idle s" "at_rest s x" "arranged s x" "positionAutomatic (geo s x)" "sw_parentSurface (wrappers s x) = None"
    "sw_ownsOutput (wrappers s x) = Some k" "workspaceModel s (sw_workspaceId (wrappers s x)) \<noteq> None"
    "fits (r_size (normalGeometry (geo s x))) (validGeometry s k)" "isValidRect (titlebarFor s x)"
  shows "\<exists>t p. arrangeNonLayerSurface k x InitialPlacement s = Inr t
    \<and> inside (validGeometry s k) p (r_size (normalGeometry (geo s x))) \<and> normalGeometry (geo t x) = ends_at s x p"
proof -
  obtain u where u: "arrangeNonLayerSurface k x InitialPlacement s = placeNonLayerSurface k x InitialPlacement u" "layout_kept x s u"
    using arrangeNonLayerSurface_places [OF assms(1,3)] by blast
  note f = kept_layout [OF u(2)]
  obtain m where m: "workspaceModel u (sw_workspaceId (wrappers u x)) = Some m" using assms(7) f(5,6) by auto
  have ready: "moves_idle u" "at_rest u x" "isValidRect (titlebarFor u x)" "fits (r_size (normalGeometry (geo u x))) (validGeometry u k)"
    using assms f by simp_all
  have small: "\<not> (rw (normalGeometry (geo u x)) > rw (validGeometry u k) \<or> rh (normalGeometry (geo u x)) > rh (validGeometry u k))"
    "\<not> isEmptyRect (normalGeometry (geo u x))"
    using ready(4) by (auto simp: fits_def r_size_def isEmptyRect_def)
  have "placeNonLayerSurface k x InitialPlacement u
      = (if sw_type (wrappers u x) = XdgToplevel \<or> sw_type (wrappers u x) = SplashScreen then placeSmartCascaded k x u else placeCentered k x u)"
    using small assms(4-6) f(5,11) by (simp add: placeNonLayerSurface_def Let_def deref_def)
  moreover have "lands_inside u k x (placeSmartCascaded k x u)" by (rule placeSmartCascaded_inside [OF ready m])
  moreover have "lands_inside u k x (placeCentered k x u)" by (rule placeCentered_inside [OF ready])
  ultimately have "lands_inside u k x (arrangeNonLayerSurface k x InitialPlacement s)" using u(1) by simp
  then show ?thesis using f by (simp add: lands_inside_def)
qed

section \<open>Popups\<close>

definition within_margins :: "qrect \<Rightarrow> qpoint \<Rightarrow> qsize \<Rightarrow> bool" where
  "within_margins r p z = (r_left r + POPUP_EDGE_MARGIN \<le> px p \<and> px p + sw z \<le> r_right r - POPUP_EDGE_MARGIN
     \<and> r_top r + POPUP_EDGE_MARGIN \<le> py p \<and> py p + sh z \<le> r_bottom r - POPUP_EDGE_MARGIN)"

lemma adjust_within:
  "sw z + 2 * POPUP_EDGE_MARGIN \<le> rw r \<Longrightarrow> sh z + 2 * POPUP_EDGE_MARGIN \<le> rh r \<Longrightarrow> z = r_size n
     \<Longrightarrow> within_margins r (adjustToOutputBounds p n r) z"
  "within_margins r p (r_size n) \<Longrightarrow> adjustToOutputBounds p n r = p"
  "r_left r + POPUP_EDGE_MARGIN \<le> px (adjustToOutputBounds p n r)" "r_top r + POPUP_EDGE_MARGIN \<le> py (adjustToOutputBounds p n r)"
  by (auto simp: within_margins_def adjustToOutputBounds_def Let_def r_size_def edge_defs pt_eq_iff)

text \<open>A popup of a toplevel keeps ten pixels to every edge of the output it opens on when it fits,
  its upper left corner keeps them in any case, and it opens exactly where the client wants it when
  that respects the distance.\<close>

theorem popup_keeps_margins:
  assumes "moves_idle s" "at_rest s x" "sw_type (wrappers s x) = XdgPopup" "sw_parentSurface (wrappers s x) = Some q"
    "sw_type (wrappers s q) \<noteq> Layer" "outputAtCursor s = Some j" "implicitPosition s x = Some d"
    "isValidRect (normalGeometry (geo s x))" "\<not> isNullPoint (calculateBasePosition s x d)"
  shows "\<exists>t p. arrangePopupSurface k x s = Inr t
    \<and> normalGeometry (geo t x) = rect (alignToPixelGrid s x p) (r_size (normalGeometry (geo s x)))
    \<and> r_left (out_geometry s j) + POPUP_EDGE_MARGIN \<le> px p \<and> r_top (out_geometry s j) + POPUP_EDGE_MARGIN \<le> py p
    \<and> (rw (normalGeometry (geo s x)) + 2 * POPUP_EDGE_MARGIN \<le> rw (out_geometry s j)
       \<and> rh (normalGeometry (geo s x)) + 2 * POPUP_EDGE_MARGIN \<le> rh (out_geometry s j)
       \<longrightarrow> within_margins (out_geometry s j) p (r_size (normalGeometry (geo s x))))
    \<and> (within_margins (out_geometry s j) (calculateBasePosition s x d) (r_size (normalGeometry (geo s x)))
       \<longrightarrow> p = calculateBasePosition s x d)"
proof -
  let ?n = "normalGeometry (geo s x)" and ?r = "out_geometry s j" and ?b = "calculateBasePosition s x d"
  let ?b1 = "if px ?b < r_left ?r then pt (r_left ?r) (py ?b) else ?b"
  let ?b2 = "if px ?b1 + rw ?n > r_right ?r then pt (r_right ?r - rw ?n) (py ?b1) else ?b1"
  let ?p = "adjustToOutputBounds ?b2 ?n ?r"
  let ?u = "mod_out (\<lambda>d. d\<lparr>o_positionCache := (o_positionCache d)(x \<mapsto> (?p, moveTopLeft ?p ?n))\<rparr>) k s"
  have dpos: "popupDPos s x = Some d" using assms(3,7) by (simp add: popupDPos_def)
  have e: "\<not> isEmptyRect ?n" using assms(8) by (auto simp: isEmptyRect_def isValidRect_def)
  have "arrangePopupSurface k x s = moveNormalGeometryInOutput x ?p ?u"
    using assms dpos e by (simp add: arrangePopupSurface_def handleRegularPopup_def Let_def)
  moreover obtain t where "moveNormalGeometryInOutput x ?p ?u = Inr t"
    "normalGeometry (geo t x) = rect (alignToPixelGrid ?u x ?p) (r_size (normalGeometry (geo ?u x)))"
    using moveNormalGeometryInOutput_spec [of ?u x ?p] assms(1,2) by auto
  moreover have "alignToPixelGrid ?u x = alignToPixelGrid s x" by (rule align_cong) simp_all
  ultimately have t: "arrangePopupSurface k x s = Inr t" "normalGeometry (geo t x) = rect (alignToPixelGrid s x ?p) (r_size ?n)"
    by simp_all
  have "?b2 = ?b" if "within_margins ?r ?b (r_size ?n)"
    using that by (auto simp: within_margins_def POPUP_EDGE_MARGIN_def r_size_def)
  then have "?p = ?b" if "within_margins ?r ?b (r_size ?n)" using that adjust_within(2) [of ?r ?b ?n] by simp
  moreover have "within_margins ?r ?p (r_size ?n)"
    if "rw ?n + 2 * POPUP_EDGE_MARGIN \<le> rw ?r \<and> rh ?n + 2 * POPUP_EDGE_MARGIN \<le> rh ?r"
    using that by (intro adjust_within(1)) (simp_all add: r_size_def)
  ultimately show ?thesis using t adjust_within(3,4) by (intro exI [of _ t] exI [of _ ?p]) blast
qed

section \<open>Changes of the output\<close>

definition moved :: "sid \<Rightarrow> qpoint \<Rightarrow> 'a gstate_scheme \<Rightarrow> 'a gstate_scheme" where
  "moved x p s = mod_geo (\<lambda>g. g\<lparr>geometry := rect p (r_size (geometry g)), normalGeometry := rect p (r_size (normalGeometry g))\<rparr>) x s"

lemma moved_frame:
  fixes s :: "'a pstate_scheme"
  shows "outs (moved x p s) = outs s" "wrappers (moved x p s) = wrappers s" "moves_idle (moved x p s) = moves_idle s"
    "at_rest (moved x p s) x = at_rest s x" "r_size (normalGeometry (geo (moved x p s) x)) = r_size (normalGeometry (geo s x))"
    "positionAutomatic (geo (moved x p s) x) = positionAutomatic (geo s x)" "titlebarFor (moved x p s) x = titlebarFor s x"
    "alignToPixelGrid (moved x p s) x = alignToPixelGrid s x" "validGeometry (moved x p s) = validGeometry s"
proof -
  show "alignToPixelGrid (moved x p s) x = alignToPixelGrid s x" by (rule align_cong) (simp_all add: moved_def mod_geo_def)
  show "outs (moved x p s) = outs s" by (simp add: moved_def mod_geo_def)
  then show "validGeometry (moved x p s) = validGeometry s" by (simp add: fun_eq_iff validGeometry_def out_geometry_def)
  show "at_rest (moved x p s) x = at_rest s x" by (simp add: at_rest_def moved_def) (simp add: mod_geo_def)
  show "moves_idle (moved x p s) = moves_idle s" "wrappers (moved x p s) = wrappers s" by (simp_all add: moved_def)
qed (simp_all add: moved_def mod_geo_def titlebarFor_def titlebarGeometry_def r_size_def)

lemma positionForRatio_size: "r_size n = r_size n' \<Longrightarrow> positionForRatio q v n = positionForRatio q v n'"
  by (simp add: positionForRatio_def Let_def r_size_def sz_def)

text \<open>Once an output has recorded the place of a window, every later change of the output puts the
  window back to that place, wherever the user has moved it in between: the place does not depend on
  where the window is, and the record stays.\<close>

theorem output_change_forgets_move:
  assumes "moves_idle s" "at_rest s x" "arranged s x" "\<not> positionAutomatic (geo s x)" "o_ratio (outs s k) x = Some q"
  shows "\<exists>c. \<forall>p. \<exists>t. arrangeNonLayerSurface k x OutputGeometryChanged (moved x p s) = Inr t
    \<and> (topLeft (normalGeometry (geo t x)) = c \<or> topLeft (normalGeometry (geo t x)) = alignToPixelGrid s x c)
    \<and> o_ratio (outs t k) x = Some q"
proof -
  let ?n = "normalGeometry (geo s x)" and ?v = "validGeometry s k"
  let ?pos = "positionForRatio q ?v ?n"
  have "\<exists>t. arrangeNonLayerSurface k x OutputGeometryChanged (moved x p s) = Inr t
      \<and> (topLeft (normalGeometry (geo t x)) = clamped s k x ?pos
         \<or> topLeft (normalGeometry (geo t x)) = alignToPixelGrid s x (clamped s k x ?pos))
      \<and> o_ratio (outs t k) x = Some q" for p
  proof -
    let ?m = "moved x p s"
    note mf = moved_frame [of x p s]
    have a: "arranged ?m x" using assms(3) by (simp add: arranged_def mf)
    obtain u where u: "arrangeNonLayerSurface k x OutputGeometryChanged ?m = placeNonLayerSurface k x OutputGeometryChanged u"
      "layout_kept x ?m u"
      using arrangeNonLayerSurface_places [of ?m x] a assms(1) mf(3) by blast
    note f = kept_layout [OF u(2)]
    let ?w = "mod_out (\<lambda>d. d\<lparr>o_ratio := (o_ratio d)(x \<mapsto> q)\<rparr>) k u"
    have same: "positionForRatio q (validGeometry u k) (normalGeometry (geo u x)) = ?pos"
      using positionForRatio_size [of "normalGeometry (geo u x)" ?n] mf(5) f(10) by (simp add: f(3) mf(9))
    have v: "validGeometry ?w k = validGeometry u k" by (rule validGeometry_cong) (simp add: zones_kept_def)
    have clampedEq: "clamped ?w k x r = clamped s k x r" for r
      by (simp add: clamped_def v f mf)
    have r: "o_ratio (outs u k) x = Some q" "\<not> positionAutomatic (geo u x)" using assms(4,5) f(7,11) mf(1,6) by simp_all
    have "placeNonLayerSurface k x OutputGeometryChanged u
        = moveSurfaceWithTitlebarClamp k x (positionForRatio q (validGeometry u k) (normalGeometry (geo u x))) ?w"
      by (simp add: placeNonLayerSurface_def Let_def r)
    then have place: "placeNonLayerSurface k x OutputGeometryChanged u = moveSurfaceWithTitlebarClamp k x ?pos ?w"
      unfolding same .
    obtain t where t: "moveSurfaceWithTitlebarClamp k x ?pos ?w = Inr t" "geo_step x ?w t"
      "normalGeometry (geo t x) = ends_at ?w x (clamped ?w k x ?pos)"
      using moveSurfaceWithTitlebarClamp_spec [of ?w k x ?pos] assms(1,2) f(8,9) mf(3,4) by auto
    have "alignToPixelGrid u x = alignToPixelGrid ?m x"
      using u(2) geo_step_frame [of x ?m u] by (intro align_cong) (simp_all add: layout_kept_def)
    then have al: "alignToPixelGrid u x = alignToPixelGrid s x" using mf(8) by simp
    have "topLeft (normalGeometry (geo t x)) = clamped s k x ?pos
        \<or> topLeft (normalGeometry (geo t x)) = alignToPixelGrid s x (clamped s k x ?pos)"
      unfolding t(3) clampedEq by (simp add: al) (simp add: ends_at_def al)
    moreover have "o_ratio (outs t k) x = Some q" using geo_step_pframe(1) [OF t(2)] by simp
    ultimately show ?thesis using u(1) place t(1) by simp
  qed
  then show ?thesis by blast
qed

text \<open>The place is recorded relative to the output as it is after the change, so that a window does not
  come back when the change is undone: from 1920 to 1280 pixels and back moves it by 552 pixels.\<close>

theorem ratio_does_not_return:
  "let n = rect (pt 760 100) (sz 400 300); small = rect (pt 0 0) (sz 1280 1000); large = rect (pt 0 0) (sz 1920 1000);
       q = positionRatio small n
   in px (positionForRatio q small n) = 760 \<and> 1312 < px (positionForRatio q large n)"
proof -
  have "truncate 120 = 120" "truncate 90 = 90" by (simp_all add: truncate_def)
  then show ?thesis
    by (simp add: positionRatio_def positionForRatio_def Let_def qBound_def edge_defs)
qed

section \<open>Tiles\<close>

definition quarters :: "tile_mode list" where
  "quarters = [TileTopLeft, TileTopRight, TileBottomLeft, TileBottomRight]"

text \<open>The tiles partition the valid area of an output: its four quarters cover it without overlap, a
  half consists of two quarters, the two halves do not overlap, and maximizing takes the whole.\<close>

theorem tiles_partition_valid_area:
  assumes "isValidRect (validGeometry s k)"
  shows "(\<forall>p. r_contains (validGeometry s k) p = (\<exists>m\<in>set quarters. r_contains (tileGeometry s k m) p))
    \<and> (\<forall>m\<in>set quarters. \<forall>m'\<in>set quarters. m \<noteq> m' \<longrightarrow> isEmptyRect (r_inter (tileGeometry s k m) (tileGeometry s k m')))
    \<and> (\<forall>p. r_contains (tileGeometry s k TileLeft) p
           = (r_contains (tileGeometry s k TileTopLeft) p \<or> r_contains (tileGeometry s k TileBottomLeft) p))
    \<and> (\<forall>p. r_contains (tileGeometry s k TileRight) p
           = (r_contains (tileGeometry s k TileTopRight) p \<or> r_contains (tileGeometry s k TileBottomRight) p))
    \<and> isEmptyRect (r_inter (tileGeometry s k TileLeft) (tileGeometry s k TileRight))
    \<and> tileGeometry s k TileMaximize = validGeometry s k \<and> (\<forall>m. m \<noteq> TileNone \<longrightarrow> isValidRect (tileGeometry s k m))"
proof -
  define v where "v = validGeometry s k"
  have pos: "0 < rw v" "0 < rh v" using assms by (simp_all add: v_def isValidRect_def)
  have valid: "isValidRect (tileGeometry s k m)" if "m \<noteq> TileNone" for m
    using that pos by (cases m) (simp_all add: tileGeometry_def Let_def isValidRect_def flip: v_def)
  have valid_v: "isValidRect v" using assms by (simp add: v_def)
  have c: "r_contains (tileGeometry s k m) p = (r_left (tileGeometry s k m) \<le> px p \<and> px p \<le> r_right (tileGeometry s k m)
      \<and> r_top (tileGeometry s k m) \<le> py p \<and> py p \<le> r_bottom (tileGeometry s k m))" if "m \<noteq> TileNone" for m p
    by (rule contains_valid [OF valid [OF that]])
  note co = tileGeometry_def Let_def edge_defs topLeft_def v_def [symmetric]
  have 1: "r_contains v p = (\<exists>m\<in>set quarters. r_contains (tileGeometry s k m) p)" for p
    using pos unfolding contains_valid [OF valid_v] by (simp add: quarters_def c) (auto simp: co)
  have e: "isEmptyRect (r_inter (tileGeometry s k m) (tileGeometry s k m')) = (r_right (tileGeometry s k m') \<le> r_left (tileGeometry s k m)
      \<or> r_right (tileGeometry s k m) \<le> r_left (tileGeometry s k m') \<or> r_bottom (tileGeometry s k m') \<le> r_top (tileGeometry s k m)
      \<or> r_bottom (tileGeometry s k m) \<le> r_top (tileGeometry s k m'))" if "m \<noteq> TileNone" "m' \<noteq> TileNone" for m m'
    by (rule inter_empty_valid [OF valid [OF that(1)] valid [OF that(2)]])
  have 2: "isEmptyRect (r_inter (tileGeometry s k m) (tileGeometry s k m'))" if "m \<in> set quarters" "m' \<in> set quarters" "m \<noteq> m'" for m m'
    using that by (auto simp: quarters_def e) (auto simp: co)
  have 3: "r_contains (tileGeometry s k TileLeft) p
      = (r_contains (tileGeometry s k TileTopLeft) p \<or> r_contains (tileGeometry s k TileBottomLeft) p)" for p
    using pos by (simp add: c) (auto simp: co)
  have 4: "r_contains (tileGeometry s k TileRight) p
      = (r_contains (tileGeometry s k TileTopRight) p \<or> r_contains (tileGeometry s k TileBottomRight) p)" for p
    using pos by (simp add: c) (auto simp: co)
  have 5: "isEmptyRect (r_inter (tileGeometry s k TileLeft) (tileGeometry s k TileRight))" by (simp add: e) (simp add: co)
  have 6: "tileGeometry s k TileMaximize = v" by (simp add: tileGeometry_def v_def Let_def)
  show ?thesis using 1 2 3 4 5 6 valid unfolding v_def by blast
qed

section \<open>The preferred scale\<close>

lemma std_round_mono: "u \<le> v \<Longrightarrow> std_round u \<le> std_round v"
proof -
  assume uv: "u \<le> v"
  consider "0 \<le> u" | "u < 0" "0 \<le> v" | "v < 0" using uv by linarith
  then show ?thesis
  proof cases
    case 1
    then show ?thesis using uv by (simp add: std_round_def floor_mono)
  next
    case 2
    have "\<lceil>u - 1 / 2\<rceil> \<le> 0" "0 \<le> \<lfloor>v + 1 / 2\<rfloor>" using 2 by linarith+
    then have "\<lceil>u - 1 / 2\<rceil> \<le> \<lfloor>v + 1 / 2\<rfloor>" by linarith
    then show ?thesis using 2 by (simp add: std_round_def)
  next
    case 3
    then show ?thesis using uv by (simp add: std_round_def ceiling_mono)
  qed
qed

lemma hypot_pos: "0 < a \<Longrightarrow> 0 < b \<Longrightarrow> 0 < hypot a b"
  by (simp add: hypot_def add_pos_pos)

lemma hypot_mono: "0 \<le> a \<Longrightarrow> a \<le> c \<Longrightarrow> 0 \<le> b \<Longrightarrow> b \<le> d \<Longrightarrow> hypot a b \<le> hypot c d"
  by (simp add: hypot_def add_mono power_mono)

definition scaleFactor :: "real \<Rightarrow> real \<Rightarrow> real" where
  "scaleFactor lenPx lenMm =
     (lenPx / lenMm) / (hypot 1920 1080 / hypot 477 268) + (lenMm - hypot 477 268) * (lenPx / hypot 1920 1080) * (158 / 100000)"

lemma calcPreferredScale_factor:
  "0 < w \<Longrightarrow> 0 < h \<Longrightarrow> 0 < a \<Longrightarrow> 0 < b \<Longrightarrow> calcPreferredScale w h a b = std_round (scaleFactor (hypot w h) (hypot a b) * 4) / 4"
  by (simp add: calcPreferredScale_def scaleFactor_def Let_def)

lemma scaleFactor_mono:
  assumes "0 < lenMm" "lenPx \<le> lenPx'"
  shows "scaleFactor lenPx lenMm \<le> scaleFactor lenPx' lenMm"
proof -
  let ?P = "hypot 1920 1080" and ?S = "hypot 477 268"
  let ?c = "?S / lenMm + (lenMm - ?S) * (158 / 100000)"
  have P: "0 < ?P" and S: "0 < ?S" by (simp_all add: hypot_pos)
  have "?S < 600" unfolding hypot_def by (rule real_less_lsqrt) simp_all
  have "0 \<le> ?c"
  proof (cases "?S \<le> lenMm")
    case True
    then show ?thesis using S assms(1) by simp
  next
    case False
    then have "1 \<le> ?S / lenMm" using assms(1) by (simp add: le_divide_eq)
    moreover have "(?S - lenMm) * (158 / 100000) \<le> 1" using assms(1) \<open>?S < 600\<close> by simp
    moreover have "(lenMm - ?S) * (158 / 100000) = - ((?S - lenMm) * (158 / 100000))"
      by (simp only: minus_mult_left minus_diff_eq)
    ultimately show ?thesis by linarith
  qed
  then have c: "0 \<le> ?c / ?P" using P by (simp only: divide_nonneg_pos)
  have sf: "scaleFactor l lenMm = l * (?c / ?P)" for l
    using P S assms(1) by (simp add: scaleFactor_def field_simps)
  show ?thesis unfolding sf by (rule mult_right_mono [OF assms(2) c])
qed

text \<open>The scale that is preferred for an output is a multiple of a quarter, does not depend on how the
  output is turned, does not shrink when an output of the same size has more pixels, and is 1 for the
  display that counts as standard and for one whose size is not known.\<close>

theorem preferred_scale:
  assumes "0 < a" "0 < b"
  shows "(\<exists>n. calcPreferredScale w h a b = of_int n / 4) \<and> calcPreferredScale w h a b = calcPreferredScale h w b a
    \<and> (0 < w \<and> w \<le> w' \<and> 0 < h \<and> h \<le> h' \<longrightarrow> calcPreferredScale w h a b \<le> calcPreferredScale w' h' a b)
    \<and> calcPreferredScale 1920 1080 477 268 = 1 \<and> calcPreferredScale w h 0 0 = 1"
proof -
  have "\<exists>n. calcPreferredScale w h a b = of_int n / 4"
    by (simp add: calcPreferredScale_def Let_def std_round_def)
  moreover have "calcPreferredScale w h a b = calcPreferredScale h w b a"
    by (simp add: calcPreferredScale_def hypot_def add.commute Let_def)
  moreover have "calcPreferredScale w h a b \<le> calcPreferredScale w' h' a b" if "0 < w" "w \<le> w'" "0 < h" "h \<le> h'"
  proof -
    have "scaleFactor (hypot w h) (hypot a b) \<le> scaleFactor (hypot w' h') (hypot a b)"
      using that assms by (intro scaleFactor_mono hypot_pos hypot_mono) simp_all
    then show ?thesis
      using that assms by (simp add: calcPreferredScale_factor divide_right_mono std_round_mono)
  qed
  moreover have "calcPreferredScale 1920 1080 477 268 = 1"
  proof -
    have "scaleFactor (hypot 1920 1080) (hypot 477 268) = 1"
      using hypot_pos [of 1920 1080] hypot_pos [of 477 268] by (simp add: scaleFactor_def)
    then show ?thesis using std_round_int [of 4] by (simp add: calcPreferredScale_factor)
  qed
  moreover have "calcPreferredScale w h 0 0 = 1" by (simp add: calcPreferredScale_def)
  ultimately show ?thesis by blast
qed

section \<open>A desk\<close>

text \<open>One output of 1920 by 1080 pixels with a window 3, a popup 4 of it, and a panel 9 at the lower edge.\<close>

definition desk :: "sid list \<Rightarrow> bool \<Rightarrow> (sid \<rightharpoonup> qpoint) \<Rightarrow> pstate" where
  "desk xs automatic q = \<lparr>
     wrappers = (\<lambda>i. (blank_wrapper\<lparr>sw_container := Some 0, sw_ownsOutput := Some 0, sw_workspaceId := 0, sw_activeStates := 15\<rparr>)
        \<lparr>sw_type := (if i = 9 then Layer else if i = 4 then XdgPopup else XdgToplevel),
         sw_parentSurface := (if i = 4 then Some 3 else None)\<rparr>),
     trace = [], geo = (\<lambda>_. blank_geo\<lparr>positionAutomatic := automatic\<rparr>), requests = [],
     outputPlace = (\<lambda>_. rect (pt 0 0) (sz 1920 1080)), outputScale = (\<lambda>_. 1),
     outputEnabled = (\<lambda>_. True), windowDpr = 1, titleBarSize = (\<lambda>_. sz 400 40), moves = [],
     outs = (\<lambda>_. \<lparr>o_rect = rect (pt 0 0) (sz 1920 1080), o_surfaces = xs, o_margin = (\<lambda>_. 0), o_zones = (\<lambda>_. []),
        o_direction = PlaceBottomRight, o_positionCache = Map.empty, o_ratio = q\<rparr>),
     layers = (\<lambda>_. \<lparr>l_initialized = True, l_exclusiveZone = 60, l_margins = \<lparr>mg_left = 0, mg_top = 0, mg_right = 0, mg_bottom = 0\<rparr>,
        l_ancher = {BottomEdge, LeftEdge, RightEdge}, l_desiredSize = sz 0 60\<rparr>),
     workspaceModel = (\<lambda>_. Some (newWorkspaceModel 0 [])), windowTitlebarHeight = 40, cursorPosition = pt 200 200,
     cursorSize = (\<lambda>_. None), outputAtCursor = Some 0, implicitPosition = (\<lambda>_. Some (pt 5 20)), cursorRect = (\<lambda>_. None),
     contentTopLeft = (\<lambda>_. pt 0 0), surfaceItemPosition = (\<lambda>_. pt 0 0)\<rparr>"

lemma desk_facts:
  "moves_idle (desk xs a q)" "resizer (desk xs a q) = (\<lambda>_. None)" "at_rest (desk xs a q) x" "x \<noteq> 9 \<Longrightarrow> arranged (desk xs a q) x"
  "validGeometry (desk xs a q) k = rect (pt 0 0) (sz 1920 1080)" "out_geometry (desk xs a q) k = rect (pt 0 0) (sz 1920 1080)"
  "titlebarFor (desk xs a q) x = rect (pt 0 0) (sz 400 40)" "normalGeometry (geo (desk xs a q) x) = rect (pt 100 100) (sz 400 300)"
  "positionAutomatic (geo (desk xs a q) x) = a" "o_ratio (outs (desk xs a q) k) = q"
proof -
  show "validGeometry (desk xs a q) k = rect (pt 0 0) (sz 1920 1080)"
    by (rule qrect_eqI) (simp_all add: validGeometry_def out_geometry_def exclusiveZone_def desk_def marginsRemoved_coords)
qed (simp_all add: desk_def moves_idle_def resizer_def fun_eq_iff at_rest_def blank_geo_def arranged_def out_geometry_def
      titlebarFor_def titlebarGeometry_def nullRect_def isValidRect_def blank_wrapper_def)

lemma desk_valid: "isValidRect (rect (pt 0 0) (sz 1920 1080))" "isValidRect (rect (pt 0 0) (sz 400 40))"
  by (simp_all add: isValidRect_def)

theorem title_bar_stays_reachable_witness:
  "\<exists>t p. moveSurfaceWithTitlebarClamp 0 3 (pt 5000 (- 500)) (desk [] True Map.empty) = Inr t
     \<and> shows_in (rect (pt 0 0) (sz 1920 1080)) (rect (pt 0 0) (sz 400 40)) p"
  using title_bar_stays_reachable [of "desk [] True Map.empty" 3 0 "pt 5000 (- 500)"] desk_valid by (simp add: desk_facts) blast

theorem new_window_inside_witness:
  "\<exists>t p. arrangeNonLayerSurface 0 3 InitialPlacement (desk [] True Map.empty) = Inr t
     \<and> inside (rect (pt 0 0) (sz 1920 1080)) p (sz 400 300)"
proof -
  have "sw_parentSurface (wrappers (desk [] True Map.empty) 3) = None" "sw_ownsOutput (wrappers (desk [] True Map.empty) 3) = Some 0"
    "workspaceModel (desk [] True Map.empty) (sw_workspaceId (wrappers (desk [] True Map.empty) 3)) \<noteq> None"
    "fits (sz 400 300) (rect (pt 0 0) (sz 1920 1080))"
    by (simp_all add: desk_def fits_def)
  then show ?thesis using new_window_inside [of "desk [] True Map.empty" 3 0] desk_valid by (auto simp: desk_facts)
qed

theorem popup_keeps_margins_witness:
  "\<exists>t p. arrangePopupSurface 0 4 (desk [] True Map.empty) = Inr t \<and> r_left (rect (pt 0 0) (sz 1920 1080)) + POPUP_EDGE_MARGIN \<le> px p
     \<and> within_margins (rect (pt 0 0) (sz 1920 1080)) p (sz 400 300)"
proof -
  let ?s = "desk [] True Map.empty"
  have h: "sw_type (wrappers ?s 4) = XdgPopup" "sw_parentSurface (wrappers ?s 4) = Some 3" "sw_type (wrappers ?s 3) \<noteq> Layer"
    "outputAtCursor ?s = Some 0" "implicitPosition ?s 4 = Some (pt 5 20)" "isValidRect (normalGeometry (geo ?s 4))"
    "\<not> isNullPoint (calculateBasePosition ?s 4 (pt 5 20))"
    by (simp_all add: desk_def isValidRect_def blank_geo_def calculateBasePosition_def isNullPoint_def titlebarGeometry_def isNullRect_def nullRect_def)
  show ?thesis
    using popup_keeps_margins [OF desk_facts(1) desk_facts(3) h, of 0] by (auto simp: desk_facts POPUP_EDGE_MARGIN_def)
qed

theorem output_change_forgets_move_witness:
  "\<exists>c. \<forall>p. \<exists>t. arrangeNonLayerSurface 0 3 OutputGeometryChanged (moved 3 p (desk [] False [3 \<mapsto> pt (1 / 2) (1 / 2)])) = Inr t
     \<and> (topLeft (normalGeometry (geo t 3)) = c
        \<or> topLeft (normalGeometry (geo t 3)) = alignToPixelGrid (desk [] False [3 \<mapsto> pt (1 / 2) (1 / 2)]) 3 c)"
  using output_change_forgets_move [of "desk [] False [3 \<mapsto> pt (1 / 2) (1 / 2)]" 3 0 "pt (1 / 2) (1 / 2)"]
  by (simp add: desk_facts) blast

theorem tiles_partition_valid_area_witness:
  "tileGeometry (desk [] True Map.empty) 0 TileMaximize = rect (pt 0 0) (sz 1920 1080)
     \<and> isValidRect (tileGeometry (desk [] True Map.empty) 0 TileTopLeft)"
  using tiles_partition_valid_area [of "desk [] True Map.empty" 0] desk_valid by (simp add: desk_facts)

theorem preferred_scale_witness:
  "calcPreferredScale 1920 1080 600 340 \<le> calcPreferredScale 3840 2160 600 340"
  using preferred_scale [of 600 340 1920 1080 3840 2160] by simp

end
