(* ===== verification/Output_Panels.thy ===== *)
theory Output_Panels
  imports Output_Windows
begin

text \<open>
  The arrangement of an output as a whole (src/src/output/output.cpp): after it the margins are exactly the
  zones that the listed panels and the menu bar reserve, no panel covers the valid geometry, and
  however surfaces come and go no zone is left behind and no assertion fails.
\<close>

section \<open>Arranging the windows\<close>

lemma arrangeNonLayerSurfaces_ok:
  assumes "moves_idle s" "\<forall>x\<in>set xs. sw_type (wrappers s x) \<noteq> Layer \<longrightarrow> window_ready s x"
  shows "\<exists>t. rfold (\<lambda>x s.
       if sw_type (wrappers s x) = Layer \<or> isInputPopupLike (wrappers s x) \<or> \<not> hasInitializeContainer (wrappers s x) then Inr s
       else arrangeNonLayerSurface k x reason s) xs s = Inr t
    \<and> env_only s t \<and> (\<forall>j. zones_kept (outs s j) (outs t j)) \<and> (\<forall>y. sw_type (wrappers s y) = Layer \<longrightarrow> geo t y = geo s y)"
  using assms
proof (induction xs arbitrary: s)
  case Nil
  then show ?case by (simp add: zones_kept_def)
next
  case (Cons x xs)
  let ?skip = "sw_type (wrappers s x) = Layer \<or> isInputPopupLike (wrappers s x) \<or> \<not> hasInitializeContainer (wrappers s x)"
  obtain u where u: "(if ?skip then Inr s else arrangeNonLayerSurface k x reason s) = Inr u" "window_step x s u"
    "sw_type (wrappers s x) = Layer \<longrightarrow> u = s"
    using arrangeNonLayerSurface_ok [of s x k reason] Cons.prems by (cases ?skip) (auto simp: safe_step_def)
  have e: "env_only s u" using u(2) by (simp add: window_step_def)
  note f = env_only_frame [OF e]
  have "moves_idle u" "\<forall>x\<in>set xs. sw_type (wrappers u x) \<noteq> Layer \<longrightarrow> window_ready u x"
    using Cons.prems by (simp_all add: f window_ready_def)
  then obtain t where t: "rfold (\<lambda>x s.
       if sw_type (wrappers s x) = Layer \<or> isInputPopupLike (wrappers s x) \<or> \<not> hasInitializeContainer (wrappers s x) then Inr s
       else arrangeNonLayerSurface k x reason s) xs u = Inr t" "env_only u t" "\<And>j. zones_kept (outs u j) (outs t j)"
     "\<And>y. sw_type (wrappers u y) = Layer \<longrightarrow> geo t y = geo u y" using Cons.IH [of u] by blast
  have "geo t y = geo s y" if "sw_type (wrappers s y) = Layer" for y
    using that t(4) [of y] u(2,3) by (cases "y = x") (auto simp: f window_step_def)
  moreover have "zones_kept (outs s j) (outs t j)" for j
    using t(3) [of j] u(2) by (auto simp: window_step_def zones_kept_def)
  ultimately show ?case using u(1) t(1) env_only_trans [OF e t(2)] by simp
qed

section \<open>The whole arrangement\<close>

definition output_ready :: "'a pstate_scheme \<Rightarrow> oid \<Rightarrow> bool" where
  "output_ready s k = (moves_idle s \<and> zones_ok (outs s k) \<and> distinct (o_surfaces (outs s k))
     \<and> (\<forall>x\<in>set (o_surfaces (outs s k)). layer_ready s x \<and> (sw_type (wrappers s x) \<noteq> Layer \<longrightarrow> window_ready s x)))"

text \<open>What remains when the listed layer surfaces have given up their zones, and what they ask for.\<close>

definition other_zones :: "'a pstate_scheme \<Rightarrow> oid \<Rightarrow> qedge \<Rightarrow> (zone_owner \<times> int) list" where
  "other_zones s k e = filter (\<lambda>p. \<not> listed_layer s (o_surfaces (outs s k)) (fst p)) (o_zones (outs s k) e)"

definition asked_zones :: "'a pstate_scheme \<Rightarrow> oid \<Rightarrow> qedge \<Rightarrow> (zone_owner \<times> int) list" where
  "asked_zones s k e = concat (map (entry s e) (o_surfaces (outs s k)))"

lemma entry_positive: "(if wants s (\<lambda>z. 0 < z) x then entry s e x else []) = entry s e x"
  by (auto simp: wants_def entry_def zone_of_def)

lemma entry_rest: "(if wants s (\<lambda>z. z \<le> 0) x then entry s e x else []) = []"
  by (auto simp: wants_def entry_def zone_of_def)

lemma entry_owner: "(z, v) \<in> set (entry s e x) \<Longrightarrow> z = Shell x \<and> 0 < v \<and> sw_type (wrappers s x) = Layer \<and> 0 < l_exclusiveZone (layers s x)"
  by (auto simp: entry_def zone_of_def split: if_splits)

lemma window_ready_env: "env_only s t \<Longrightarrow> window_ready t = window_ready s"
  using env_only_frame(1,4) [of s t] by (simp add: window_ready_def fun_eq_iff)

lemma arrangeLayerSurfaces_spec:
  assumes "output_ready s k"
  shows "\<exists>t. arrangeLayerSurfaces k s = Inr t \<and> env_only s t \<and> zones_ok (outs t k)
    \<and> o_rect (outs t k) = o_rect (outs s k) \<and> o_surfaces (outs t k) = o_surfaces (outs s k)
    \<and> (\<forall>j. j \<noteq> k \<longrightarrow> zones_kept (outs s j) (outs t j))
    \<and> (\<forall>e. o_zones (outs t k) e = other_zones s k e @ asked_zones s k e)
    \<and> (\<forall>x\<in>set (o_surfaces (outs s k)). sw_type (wrappers s x) = Layer \<and> 0 < l_exclusiveZone (layers s x)
         \<longrightarrow> (\<exists>m0. placed s k m0 t x))"
proof -
  let ?xs = "o_surfaces (outs s k)" and ?pos = "\<lambda>z. (0::int) < z" and ?rest = "\<lambda>z. z \<le> (0::int)"
  have r: "moves_idle s" "zones_ok (outs s k)" "distinct ?xs" "\<forall>x\<in>set ?xs. layer_ready s x"
    "\<forall>x\<in>set ?xs. sw_type (wrappers s x) \<noteq> Layer \<longrightarrow> window_ready s x"
    using assms by (auto simp: output_ready_def)
  obtain a where a: "releaseZones k s = Inr a" "env_only s a" "zones_ok (outs a k)" "zone_only (outs s k) (outs a k)"
    "\<And>j. j \<noteq> k \<Longrightarrow> outs a j = outs s j" "geo a = geo s" "\<And>e. o_zones (outs a k) e = other_zones s k e"
    using release_phase [OF r(2), of ?xs] by (auto simp: releaseZones_steps other_zones_def)
  note fa = env_only_frame [OF a(2)]
  have sa: "o_surfaces (outs a k) = ?xs" using a(4) by (simp add: zone_only_def)
  have wa: "wants a P = wants s P" for P by (simp add: wants_def fun_eq_iff fa)
  have free_a: "\<forall>x\<in>set ?xs. wants a ?pos x \<longrightarrow> Shell x \<notin> fst ` set (all_zones (outs a k))"
    using r(4) unfolding all_zones_def a(7) wa other_zones_def by (auto simp: wants_def listed_layer_def layer_ready_def)
  obtain b where b: "arrangeLayersWith ?pos k a = Inr b" "env_only a b" "zones_ok (outs b k)" "zone_only (outs a k) (outs b k)"
    "\<And>j. j \<noteq> k \<Longrightarrow> outs b j = outs a j"
    "\<And>e. o_zones (outs b k) e = o_zones (outs a k) e @ concat (map (\<lambda>x. if wants a ?pos x then entry a e x else []) ?xs)"
    "\<And>x. x \<in> set ?xs \<Longrightarrow> wants a ?pos x \<longrightarrow> placed a k (o_margin (outs a k)) b x"
    using arrange_phase [OF a(3) _ _ r(3) free_a] r(1,4) by (auto simp: arrangeLayersWith_steps sa fa)
  note fb = env_only_frame [OF b(2)]
  have sb: "o_surfaces (outs b k) = ?xs" using b(4) sa by (simp add: zone_only_def)
  have zb: "o_zones (outs b k) e = other_zones s k e @ asked_zones s k e" for e
    unfolding b(6) a(7) wa fa(8) entry_positive asked_zones_def by (rule refl)
  have free_b: "\<forall>x\<in>set ?xs. wants b ?rest x \<longrightarrow> Shell x \<notin> fst ` set (all_zones (outs b k))"
  proof (intro ballI impI)
    fix x assume x: "x \<in> set ?xs" "wants b ?rest x"
    then have w: "sw_type (wrappers s x) = Layer" "l_exclusiveZone (layers s x) \<le> 0" by (simp_all add: wants_def fa fb)
    have "Shell x \<notin> fst ` set (other_zones s k e)" for e
      using x(1) w(1) r(4) by (auto simp: other_zones_def listed_layer_def layer_ready_def)
    moreover have "Shell x \<notin> fst ` set (asked_zones s k e)" for e
      using w(2) entry_owner by (fastforce simp: asked_zones_def)
    ultimately show "Shell x \<notin> fst ` set (all_zones (outs b k))" unfolding all_zones_def zb by auto
  qed
  obtain c where c: "arrangeLayersWith ?rest k b = Inr c" "env_only b c" "zones_ok (outs c k)" "zone_only (outs b k) (outs c k)"
    "\<And>j. j \<noteq> k \<Longrightarrow> outs c j = outs b j" "\<And>y. \<not> wants b ?rest y \<longrightarrow> geo c y = geo b y"
    "\<And>e. o_zones (outs c k) e = o_zones (outs b k) e @ concat (map (\<lambda>x. if wants b ?rest x then entry b e x else []) ?xs)"
    using arrange_phase [OF b(3) _ _ r(3) free_b] r(1,4) by (auto simp: arrangeLayersWith_steps sb fa fb)
  note fc = env_only_frame [OF c(2)]
  have sc: "o_surfaces (outs c k) = ?xs" using c(4) sb by (simp add: zone_only_def)
  have "concat (map (\<lambda>x. []) ys) = []" for ys :: "sid list" by (induction ys) simp_all
  then have zc: "o_zones (outs c k) e = other_zones s k e @ asked_zones s k e" for e
    unfolding c(7) entry_rest zb by simp
  have ec: "env_only s c" by (rule env_only_trans [OF a(2) env_only_trans [OF b(2) c(2)]])
  note f = env_only_frame [OF ec]
  obtain t where t: "(if exclusiveZone (outs s k) \<noteq> exclusiveZone (outs c k) then arrangeNonLayerSurfaces k ExclusiveZoneChanged c else Inr c) = Inr t"
    "env_only c t" "\<And>j. zones_kept (outs c j) (outs t j)" "\<And>y. sw_type (wrappers c y) = Layer \<longrightarrow> geo t y = geo c y"
  proof (cases "exclusiveZone (outs s k) \<noteq> exclusiveZone (outs c k)")
    case True
    have "moves_idle c" "\<forall>x\<in>set ?xs. sw_type (wrappers c x) \<noteq> Layer \<longrightarrow> window_ready c x"
      using r(1,5) by (simp_all add: f window_ready_env [OF ec])
    then obtain t where "arrangeNonLayerSurfaces k ExclusiveZoneChanged c = Inr t" "env_only c t"
      "\<And>j. zones_kept (outs c j) (outs t j)" "\<And>y. sw_type (wrappers c y) = Layer \<longrightarrow> geo t y = geo c y"
      using arrangeNonLayerSurfaces_ok [of c ?xs k ExclusiveZoneChanged] unfolding arrangeNonLayerSurfaces_def sc by blast
    with True that show ?thesis by simp
  next
    case False
    with that [of c] show ?thesis by (simp add: zones_kept_def)
  qed
  have "arrangeLayerSurfaces k s = Inr t"
    using a(1) b(1) c(1) t(1) by (simp add: arrangeLayerSurfaces_def Let_def)
  moreover have "env_only s t" by (rule env_only_trans [OF ec t(2)])
  moreover have kt: "zones_kept (outs c k) (outs t k)" by (rule t(3))
  moreover have "zones_ok (outs t k)" using c(3) kt by (simp add: zones_ok_def all_zones_def zones_kept_def)
  moreover have "zones_kept (outs s j) (outs t j)" if "j \<noteq> k" for j
    using t(3) [of j] a(5) [OF that] b(5) [OF that] c(5) [OF that] by (simp add: zones_kept_def)
  moreover have "\<exists>m0. placed s k m0 t x" if "x \<in> set ?xs" "sw_type (wrappers s x) = Layer" "0 < l_exclusiveZone (layers s x)" for x
  proof -
    have w: "wants a ?pos x" "\<not> wants b ?rest x" using that by (simp_all add: wants_def fa fb)
    have "placed a k (o_margin (outs a k)) b x" using b(7) [OF that(1)] w(1) by blast
    then have "placed s k (o_margin (outs a k)) b x"
      using a(4) by (simp add: placed_def fa zone_only_def)
    moreover have "geo t x = geo b x" using t(4) [of x] c(6) [of x] w(2) that(2) by (simp add: f)
    moreover have "o_margin (outs t k) e = o_margin (outs b k) e" for e
      using zones_okD(3) [OF b(3), of e] zones_okD(3) [OF c(3), of e] kt zb zc by (simp add: zones_kept_def)
    ultimately show ?thesis using placed_later [of s k _ b x t] by auto
  qed
  ultimately show ?thesis using zc sc a(4) b(4) c(4) by (intro exI [of _ t]) (simp add: zones_kept_def zone_only_def)
qed

lemma sum_concat: "sum_list (map snd (concat ps)) = sum_list (map (\<lambda>p. sum_list (map snd p)) (ps :: (zone_owner \<times> int) list list))"
  by (induction ps) simp_all

lemma asked_sum:
  "sum_list (map snd (asked_zones s k e))
     = (\<Sum>x\<leftarrow>o_surfaces (outs s k). if sw_type (wrappers s x) = Layer then zone_of (layers s x) e else 0)"
  by (simp add: asked_zones_def sum_concat entry_sum comp_def)


section \<open>Panels and windows\<close>

lemma getExclusiveZoneEdge_anchor:
  "getExclusiveZoneEdge a = Some TopEdge \<Longrightarrow> TopEdge \<in> a \<and> BottomEdge \<notin> a"
  "getExclusiveZoneEdge a = Some BottomEdge \<Longrightarrow> BottomEdge \<in> a \<and> TopEdge \<notin> a"
  "getExclusiveZoneEdge a = Some LeftEdge \<Longrightarrow> LeftEdge \<in> a \<and> RightEdge \<notin> a"
  "getExclusiveZoneEdge a = Some RightEdge \<Longrightarrow> RightEdge \<in> a \<and> LeftEdge \<notin> a"
  by (auto simp: getExclusiveZoneEdge_def split: if_splits)

text \<open>How far a panel reaches into the output from its edge: its margin there and its thickness.\<close>

definition reach_of :: "layer_props \<Rightarrow> qedge \<Rightarrow> real" where
  "reach_of l e = (case e of
     TopEdge \<Rightarrow> of_int (mg_top (l_margins l)) + sh (l_desiredSize l)
   | BottomEdge \<Rightarrow> of_int (mg_bottom (l_margins l)) + sh (l_desiredSize l)
   | LeftEdge \<Rightarrow> of_int (mg_left (l_margins l)) + sw (l_desiredSize l)
   | RightEdge \<Rightarrow> of_int (mg_right (l_margins l)) + sw (l_desiredSize l))"

lemma anchored_clear:
  assumes "getExclusiveZoneEdge (l_ancher l) = Some e" "0 < l_exclusiveZone l" "reach_of l e \<le> of_int z"
    and "m e + z \<le> m' e" "g = anchoredGeometry l (area_for r m l)"
    and v: "v = marginsRemoved \<lparr>mg_left = m' LeftEdge, mg_top = m' TopEdge, mg_right = m' RightEdge, mg_bottom = m' BottomEdge\<rparr> r"
    and "isValidRect g" "isValidRect v"
  shows "isEmptyRect (r_inter g v)"
proof -
  have le: "of_int (m e) + of_int z \<le> (of_int (m' e) :: real)" using assms(4) by linarith
  have z: "l_exclusiveZone l \<noteq> - 1" using assms(2) by simp
  show ?thesis
  proof (cases e)
    case TopEdge
    then have "ry g + rh g = ry r + of_int (m TopEdge) + reach_of l TopEdge"
      using getExclusiveZoneEdge_anchor(1) assms(1) z
      by (simp add: assms(5) anchoredGeometry_def area_for_def Let_def moves edge_defs marginsRemoved_coords reach_of_def)
    then show ?thesis unfolding inter_empty_valid [OF assms(7,8)]
      using assms(3) le by (simp add: TopEdge v edge_defs marginsRemoved_coords)
  next
    case BottomEdge
    then have "ry g = ry r + rh r - of_int (m BottomEdge) - reach_of l BottomEdge"
      using getExclusiveZoneEdge_anchor(2) assms(1) z
      by (simp add: assms(5) anchoredGeometry_def area_for_def Let_def moves edge_defs marginsRemoved_coords reach_of_def)
    then show ?thesis unfolding inter_empty_valid [OF assms(7,8)]
      using assms(3) le by (simp add: BottomEdge v edge_defs marginsRemoved_coords)
  next
    case LeftEdge
    then have "rx g + rw g = rx r + of_int (m LeftEdge) + reach_of l LeftEdge"
      using getExclusiveZoneEdge_anchor(3) assms(1) z
      by (simp add: assms(5) anchoredGeometry_def area_for_def Let_def moves edge_defs marginsRemoved_coords reach_of_def)
    then show ?thesis unfolding inter_empty_valid [OF assms(7,8)]
      using assms(3) le by (simp add: LeftEdge v edge_defs marginsRemoved_coords)
  next
    case RightEdge
    then have "rx g = rx r + rw r - of_int (m RightEdge) - reach_of l RightEdge"
      using getExclusiveZoneEdge_anchor(4) assms(1) z
      by (simp add: assms(5) anchoredGeometry_def area_for_def Let_def moves edge_defs marginsRemoved_coords reach_of_def)
    then show ?thesis unfolding inter_empty_valid [OF assms(7,8)]
      using assms(3) le by (simp add: RightEdge v edge_defs marginsRemoved_coords)
  qed
qed


section \<open>Surfaces come and go\<close>

text \<open>Every zone belongs to a listed layer surface or to the menu bar.\<close>

definition no_stale_zones :: "'a pstate_scheme \<Rightarrow> oid \<Rightarrow> bool" where
  "no_stale_zones s k = (\<forall>x. Shell x \<in> fst ` set (all_zones (outs s k)) \<longrightarrow> x \<in> set (o_surfaces (outs s k)) \<and> sw_type (wrappers s x) = Layer)"

definition surfaces_ready :: "'a pstate_scheme \<Rightarrow> bool" where
  "surfaces_ready s = (moves_idle s \<and> (\<forall>x. layer_ready s x \<and> (sw_type (wrappers s x) \<noteq> Layer \<longrightarrow> window_ready s x)))"

definition output_inv :: "'a pstate_scheme \<Rightarrow> oid \<Rightarrow> bool" where
  "output_inv s k = (surfaces_ready s \<and> zones_ok (outs s k) \<and> distinct (o_surfaces (outs s k)) \<and> no_stale_zones s k)"

lemma output_inv_ready: "output_inv s k \<Longrightarrow> output_ready s k"
  by (auto simp: output_inv_def output_ready_def surfaces_ready_def)

lemma surfaces_ready_env: "env_only s t \<Longrightarrow> surfaces_ready t = surfaces_ready s"
  using env_only_frame(1,6,7) [of s t] by (simp add: surfaces_ready_def window_ready_env)

lemma all_zones_mem: "z \<in> fst ` set (all_zones d) \<longleftrightarrow> (\<exists>e. z \<in> fst ` set (o_zones d e))"
proof
  assume "\<exists>e. z \<in> fst ` set (o_zones d e)"
  then obtain e where "z \<in> fst ` set (o_zones d e)" by blast
  then show "z \<in> fst ` set (all_zones d)" by (cases e) (auto simp: all_zones_def)
qed (auto simp: all_zones_def)

lemma output_inv_kept:
  assumes "output_inv s k" "env_only s t" "zones_kept (outs s k) (outs t k)"
  shows "output_inv t k"
  using assms env_only_frame(1) [OF assms(2)] surfaces_ready_env [OF assms(2)]
  by (simp add: output_inv_def no_stale_zones_def zones_ok_def all_zones_def zones_kept_def)

lemma arrangeLayers_inv:
  assumes "output_inv s k"
  shows "\<exists>t. arrangeLayerSurfaces k s = Inr t \<and> output_inv t k \<and> env_only s t \<and> o_surfaces (outs t k) = o_surfaces (outs s k)"
proof -
  obtain t where t: "arrangeLayerSurfaces k s = Inr t" "env_only s t" "zones_ok (outs t k)" "o_surfaces (outs t k) = o_surfaces (outs s k)"
    "\<And>e. o_zones (outs t k) e = other_zones s k e @ asked_zones s k e"
    using arrangeLayerSurfaces_spec [OF output_inv_ready [OF assms]] by blast
  have "x \<in> set (o_surfaces (outs t k)) \<and> sw_type (wrappers t x) = Layer" if own: "Shell x \<in> fst ` set (all_zones (outs t k))" for x
  proof -
    obtain e where "Shell x \<in> fst ` set (other_zones s k e) \<or> Shell x \<in> fst ` set (asked_zones s k e)"
      using own unfolding all_zones_mem t(5) by auto
    then show ?thesis
    proof
      assume "Shell x \<in> fst ` set (other_zones s k e)"
      then have "Shell x \<in> fst ` set (all_zones (outs s k))" unfolding all_zones_mem by (auto simp: other_zones_def)
      then show ?thesis using assms t(4) env_only_frame(1) [OF t(2)] by (simp add: output_inv_def no_stale_zones_def)
    next
      assume "Shell x \<in> fst ` set (asked_zones s k e)"
      then show ?thesis using entry_owner t(4) env_only_frame(1) [OF t(2)] by (fastforce simp: asked_zones_def)
    qed
  qed
  then have "output_inv t k"
    using assms t surfaces_ready_env [OF t(2)] by (simp add: output_inv_def no_stale_zones_def)
  with t show ?thesis by blast
qed

lemma arrangeWindows_inv:
  assumes "output_inv s k"
  shows "\<exists>t. arrangeNonLayerSurfaces k reason s = Inr t \<and> output_inv t k"
proof -
  have r: "moves_idle s" "\<forall>x\<in>set (o_surfaces (outs s k)). sw_type (wrappers s x) \<noteq> Layer \<longrightarrow> window_ready s x"
    using assms by (auto simp: output_inv_def surfaces_ready_def)
  from arrangeNonLayerSurfaces_ok [OF r, of k reason] output_inv_kept [OF assms]
  show ?thesis by (auto simp: arrangeNonLayerSurfaces_def)
qed

lemma ready_layout:
  assumes "surfaces_ready s" "sw_type (wrappers s x) \<noteq> Layer"
  shows "safe_step x s (layoutSurface k x s)"
  using assms arrangeNonLayerSurface_ok [of s x k InitialPlacement] by (auto simp: layoutSurface_def surfaces_ready_def)

lemma safe_inv: "output_inv s k \<Longrightarrow> safe_step x s r \<Longrightarrow> \<exists>t. r = Inr t \<and> output_inv t k"
  unfolding safe_step_def window_step_def using output_inv_kept by blast

lemma output_inv_list:
  assumes "output_inv s k" "distinct xs" "\<forall>x. Shell x \<in> fst ` set (all_zones (outs s k)) \<longrightarrow> x \<in> set xs"
  shows "output_inv (mod_out (\<lambda>d. d\<lparr>o_surfaces := xs\<rparr>) k s) k"
  using assms surfaces_ready_env [OF env_only_mod_out [of s "\<lambda>d. d\<lparr>o_surfaces := xs\<rparr>" k]]
  by (simp add: output_inv_def no_stale_zones_def zones_ok_def all_zones_def)

lemma add_inv:
  assumes "output_inv s k" "x \<notin> set (o_surfaces (outs s k))"
  shows "\<exists>t. out_addSurface k x s = Inr t \<and> output_inv t k"
proof -
  let ?xs = "snd (addObject x (o_surfaces (outs s k)))"
  define u where "u = mod_out (\<lambda>d. d\<lparr>o_surfaces := ?xs\<rparr>) k s"
  have "set ?xs = insert x (set (o_surfaces (outs s k)))" "distinct ?xs"
    using assms by (auto simp: addObject_def hasObject_def output_inv_def)
  then have u: "output_inv u k"
    unfolding u_def using assms(1) by (intro output_inv_list) (auto simp: output_inv_def no_stale_zones_def)
  have "out_addSurface k x s = (if sw_type (wrappers u x) = Layer then arrangeLayerSurfaces k u else layoutSurface k x u)"
    using assms(2) by (simp add: out_addSurface_def Let_def hasObject_def u_def mod_out_def)
  moreover have "\<exists>t. layoutSurface k x u = Inr t \<and> output_inv t k" if "sw_type (wrappers u x) \<noteq> Layer"
    using safe_inv [OF u ready_layout] u that by (simp add: output_inv_def)
  ultimately show ?thesis using arrangeLayers_inv [OF u] by auto
qed

lemma remove_inv:
  assumes "output_inv s k" "x \<in> set (o_surfaces (outs s k))"
  shows "\<exists>t. out_removeSurface k x s = Inr t \<and> output_inv t k"
proof -
  define u where "u = mod_out (\<lambda>d. d\<lparr>o_ratio := (o_ratio d)(x := None)\<rparr>) k (mod_out (clearPopupCache x s) k s)"
  have eu: "env_only s u" unfolding u_def by (rule env_only_trans [OF env_only_mod_out env_only_mod_out])
  note f = env_only_frame [OF eu]
  have "zones_kept (outs s k) (outs u k)" by (simp add: u_def zones_kept_def clearPopupCache_def)
  then have iu: "output_inv u k" using output_inv_kept [OF assms(1) eu] by blast
  have xs: "o_surfaces (outs u k) = o_surfaces (outs s k)" by (simp add: u_def clearPopupCache_def)
  let ?xs = "snd (removeObject x (o_surfaces (outs u k)))"
  define v where "v = mod_out (\<lambda>d. d\<lparr>o_surfaces := snd (removeObject x (o_surfaces d))\<rparr>) k u"
  have v: "v = mod_out (\<lambda>d. d\<lparr>o_surfaces := ?xs\<rparr>) k u" by (simp add: v_def mod_out_def)
  have m: "hasObject x (o_surfaces (outs u k))" using assms(2) xs by (simp add: hasObject_def)
  have ys: "distinct ?xs" "set ?xs = set (o_surfaces (outs s k)) - {x}"
    using iu assms(2) by (auto simp: removeObject_eq output_inv_def xs)
  have ev: "env_only s v" unfolding v_def by (rule env_only_trans [OF eu env_only_mod_out])
  note g = env_only_frame [OF ev]
  have start: "out_removeSurface k x s = (if sw_type (wrappers s x) \<noteq> Layer then Inr v
      else rbind (if sw_shellSurface (wrappers s x) then removeExclusiveZone (Shell x) (outs v k) else Inr (False, outs v k))
        (\<lambda>(exclusiveZoneRemoved, d). rbind (arrangeLayerSurfaces k (mod_out (\<lambda>_. d) k v)) (\<lambda>s.
          if exclusiveZoneRemoved then arrangeNonLayerSurfaces k LayerSurfaceRemoved s else Inr s)))"
    unfolding out_removeSurface_def Let_def u_def [symmetric] v_def [symmetric] using m by (simp add: g)
  show ?thesis
  proof (cases "sw_type (wrappers s x) = Layer")
    case False
    have "x \<noteq> y" if "Shell y \<in> fst ` set (all_zones (outs u k))" for y
      using that iu False by (auto simp: output_inv_def no_stale_zones_def f)
    then have "output_inv v k" unfolding v using iu ys xs
      by (intro output_inv_list) (auto simp: output_inv_def no_stale_zones_def)
    then show ?thesis using start False by simp
  next
    case True
    have sh: "sw_shellSurface (wrappers s x)" using assms(1) True by (simp add: output_inv_def surfaces_ready_def layer_ready_def)
    have zv: "o_zones (outs v k) e = o_zones (outs u k) e" "o_margin (outs v k) e = o_margin (outs u k) e"
      "o_surfaces (outs v k) = ?xs" for e
      by (simp_all add: v)
    have "zones_ok (outs v k)" using iu by (simp add: v output_inv_def zones_ok_def all_zones_def)
    then obtain b d where d: "removeExclusiveZone (Shell x) (outs v k) = Inr (b, d)" "zones_ok d" "zone_only (outs v k) d"
      "\<And>e. o_zones d e = without (Shell x) (o_zones (outs v k) e)" using removeExclusiveZone_spec by blast
    let ?w = "mod_out (\<lambda>_. d) k v"
    have ew: "env_only s ?w" by (rule env_only_trans [OF ev env_only_mod_out])
    have "y \<in> set ?xs \<and> sw_type (wrappers s y) = Layer" if own: "Shell y \<in> fst ` set (all_zones d)" for y
    proof -
      have "y \<noteq> x \<and> Shell y \<in> fst ` set (all_zones (outs u k))"
        using own unfolding all_zones_mem d(4) zv by (auto simp: without_def)
      then show ?thesis using iu ys(2) xs by (auto simp: output_inv_def no_stale_zones_def f)
    qed
    then have "output_inv ?w k"
      using assms(1) d(2,3) ys zv(3) surfaces_ready_env [OF ew]
      by (simp add: output_inv_def no_stale_zones_def zone_only_def g)
    then obtain t where t: "arrangeLayerSurfaces k ?w = Inr t" "output_inv t k" using arrangeLayers_inv by blast
    have "out_removeSurface k x s = (if b then arrangeNonLayerSurfaces k LayerSurfaceRemoved t else Inr t)"
      unfolding start using True sh d(1) t(1) by simp
    then show ?thesis using t(2) arrangeWindows_inv [OF t(2), of LayerSurfaceRemoved] by simp
  qed
qed

lemma arrangeAll_inv:
  assumes "output_inv s k"
  shows "\<exists>t. arrangeAllSurfaces k s = Inr t \<and> output_inv t k"
proof -
  obtain u where u: "arrangeLayerSurfaces k s = Inr u" "output_inv u k" using arrangeLayers_inv [OF assms] by blast
  with arrangeWindows_inv [OF u(2)] show ?thesis by (simp add: arrangeAllSurfaces_def)
qed

text \<open>The states of an output: surfaces come and go, sizes and layer properties change, the menu bar is
  shown and hidden, and everything that is not the output's own state changes freely, as long as its
  layer surfaces have their shell surface and are not being resized by a user, and its windows have an
  output and a workspace.\<close>

inductive output_reach :: "oid \<Rightarrow> pstate \<Rightarrow> bool" for k where
  or_start: "\<lbrakk>surfaces_ready s; o_surfaces (outs s k) = []; \<forall>e. o_zones (outs s k) e = [] \<and> o_margin (outs s k) e = 0\<rbrakk>
    \<Longrightarrow> output_reach k s"
| or_add: "\<lbrakk>output_reach k s; x \<notin> set (o_surfaces (outs s k)); out_addSurface k x s = Inr t\<rbrakk> \<Longrightarrow> output_reach k t"
| or_remove: "\<lbrakk>output_reach k s; x \<in> set (o_surfaces (outs s k)); out_removeSurface k x s = Inr t\<rbrakk> \<Longrightarrow> output_reach k t"
| or_layers: "\<lbrakk>output_reach k s; arrangeLayerSurfaces k s = Inr t\<rbrakk> \<Longrightarrow> output_reach k t"
| or_all: "\<lbrakk>output_reach k s; arrangeAllSurfaces k s = Inr t\<rbrakk> \<Longrightarrow> output_reach k t"
| or_layout: "\<lbrakk>output_reach k s; sw_type (wrappers s x) \<noteq> Layer; layoutSurface k x s = Inr t\<rbrakk> \<Longrightarrow> output_reach k t"
| or_bar: "\<lbrakk>output_reach k s; 0 < v; on_out (setExclusiveZone e MenuBar v) k s = Inr t\<rbrakk> \<Longrightarrow> output_reach k t"
| or_no_bar: "\<lbrakk>output_reach k s; on_out (\<lambda>d. rbind (removeExclusiveZone MenuBar d) (\<lambda>(_, d). Inr d)) k s = Inr t\<rbrakk> \<Longrightarrow> output_reach k t"
| or_other: "\<lbrakk>output_reach k s; outs t k = outs s k; surfaces_ready t;
     \<forall>x. (sw_type (wrappers t x) = Layer) = (sw_type (wrappers s x) = Layer)\<rbrakk> \<Longrightarrow> output_reach k t"

lemma zones_inv:
  assumes "output_inv s k" "zones_ok d" "zone_only (outs s k) d"
    "\<And>x. Shell x \<in> fst ` set (all_zones d) \<Longrightarrow> Shell x \<in> fst ` set (all_zones (outs s k))"
  shows "output_inv (mod_out (\<lambda>_. d) k s) k"
  using assms surfaces_ready_env [OF env_only_mod_out [of s "\<lambda>_. d" k]]
  by (simp add: output_inv_def no_stale_zones_def zone_only_def)

lemma output_reach_inv: "output_reach k s \<Longrightarrow> output_inv s k"
proof (induction rule: output_reach.induct)
  case (or_start s)
  then show ?case by (simp add: output_inv_def zones_ok_def no_stale_zones_def all_zones_def)
next
  case (or_add s x t)
  then show ?case using add_inv [of s k x] by auto
next
  case (or_remove s x t)
  then show ?case using remove_inv [of s k x] by auto
next
  case (or_layers s t)
  then show ?case using arrangeLayers_inv [of s k] by auto
next
  case (or_all s t)
  then show ?case using arrangeAll_inv [of s k] by auto
next
  case (or_layout s x t)
  then have "surfaces_ready s" by (simp add: output_inv_def)
  then show ?case using safe_inv [OF or_layout.IH ready_layout [of s x k]] or_layout.hyps(2,3) by auto
next
  case (or_bar s v e t)
  then obtain d where d: "setExclusiveZone e MenuBar v (outs s k) = Inr d" "zones_ok d" "zone_only (outs s k) d"
    "\<And>f. o_zones d f = without MenuBar (o_zones (outs s k) f) @ (if f = e then [(MenuBar, v)] else [])"
    using setExclusiveZone_spec [of "outs s k" v e MenuBar] by (auto simp: output_inv_def)
  have "Shell x \<in> fst ` set (all_zones (outs s k))" if own: "Shell x \<in> fst ` set (all_zones d)" for x
    using own unfolding all_zones_mem d(4) by (auto simp: without_def split: if_splits)
  then have "output_inv (mod_out (\<lambda>_. d) k s) k" by (intro zones_inv [OF or_bar.IH d(2,3)])
  then show ?case using or_bar.hyps(3) d(1) by (simp add: on_out_def)
next
  case (or_no_bar s t)
  then obtain b d where d: "removeExclusiveZone MenuBar (outs s k) = Inr (b, d)" "zones_ok d" "zone_only (outs s k) d"
    "\<And>f. o_zones d f = without MenuBar (o_zones (outs s k) f)"
    using removeExclusiveZone_spec [of "outs s k" MenuBar] by (auto simp: output_inv_def)
  have "Shell x \<in> fst ` set (all_zones (outs s k))" if own: "Shell x \<in> fst ` set (all_zones d)" for x
    using own unfolding all_zones_mem d(4) by (auto simp: without_def)
  then have "output_inv (mod_out (\<lambda>_. d) k s) k" by (intro zones_inv [OF or_no_bar.IH d(2,3)])
  then show ?case using or_no_bar.hyps(2) d(1) by (simp add: on_out_def)
next
  case (or_other s t)
  then show ?case by (simp add: output_inv_def no_stale_zones_def)
qed


section \<open>The desk with its panel\<close>

lemma desk_ready: "surfaces_ready (desk xs a q)"
  unfolding surfaces_ready_def layer_ready_def window_ready_def
  by (simp add: desk_facts(1,2)) (simp add: desk_def blank_wrapper_def)

lemma desk_reach: "output_reach 0 (desk [] True Map.empty)"
  by (rule or_start [OF desk_ready]) (simp_all add: desk_def)

lemma desk_output_ready: "output_ready (desk [3, 9] True Map.empty) 0"
  using desk_ready [of "[3, 9]" True Map.empty]
  by (simp add: output_ready_def surfaces_ready_def) (simp add: desk_def zones_ok_def all_zones_def)

lemma desk_panel:
  "zone_of (layers (desk xs a q) 9) BottomEdge = 60" "getExclusiveZoneEdge (l_ancher (layers (desk xs a q) 9)) = Some BottomEdge"
proof -
  have "insert BottomEdge {LeftEdge, RightEdge} \<noteq> {TopEdge, LeftEdge, RightEdge}" by auto
  then show "getExclusiveZoneEdge (l_ancher (layers (desk xs a q) 9)) = Some BottomEdge"
    by (simp add: desk_def getExclusiveZoneEdge_def)
  then show "zone_of (layers (desk xs a q) 9) BottomEdge = 60" by (simp add: zone_of_def desk_def)
qed




end
