(* ===== verification/Window_Recursion.thy ===== *)
theory Window_Recursion
  imports Window_States
begin

text \<open>
  \<^verbatim>\<open>SurfaceWrapper::setPosition\<close> and the filter of the root container call each other
  (src/src/surface/surfacewrapper.cpp, src/src/core/rootsurfacecontainer.cpp). The recursion with fuel for any
  depth, and why \<open>setPosition\<close>, which unrolls it twice, is all of it: the flag
  \<^verbatim>\<open>settingPositionFlag\<close> stops it at the second call, whatever the state.
\<close>

fun setPosition_fuel :: "nat \<Rightarrow> sid \<Rightarrow> qpoint \<Rightarrow> 'a gstate_scheme \<Rightarrow> 'a gstate_scheme result" where
    "setPosition_fuel 0 x p s = Inl OutOfFuel"
  | "setPosition_fuel (Suc n) x p s = setPosition_with (setPosition_fuel n) x p s"

lemma filter_finds:
  "find (resizing x) ms = Some (k, m) \<Longrightarrow>
     find (resizing x) (map (\<lambda>(j, m). if j = i then (j, m\<lparr>mr_settingPosition := True\<rparr>) else (j, m)) ms)
       = Some (k, if k = i then m\<lparr>mr_settingPosition := True\<rparr> else m)"
  by (induction ms) (auto simp: resizing_def split: if_splits)

text \<open>A call that finds the flag set does not recurse.\<close>

definition flagged :: "sid \<Rightarrow> 'a gstate_scheme \<Rightarrow> bool" where
  "flagged x s = (\<exists>k m. resizer s x = Some (k, m) \<and> mr_settingPosition m)"

lemma flagged_setPosition:
  assumes "flagged x s"
  shows "setPosition_with f x p s = setPosition_with g x p s" "setPosition_with f x p s \<noteq> Inl OutOfFuel"
proof -
  let ?new = "moveTopLeft p (geometry (geo s x))"
  let ?s = "mod_geo (\<lambda>g. g\<lparr>geometry := ?new\<rparr>) x s"
  obtain k m where m: "find (resizing x) (moves ?s) = Some (k, m)" "mr_settingPosition m"
    using assms by (auto simp: flagged_def resizer_def mod_geo_def)
  have "filter_seats f x new old (moves ?s) ?s = rbind (qassert (r_size new = r_size old)) (\<lambda>_. Inr (True, new, ?s))" for f new old
    using find_SomeD [OF m(1)] m(2) by (simp add: filter_seats_some [OF m(1)] resizing_def)
  moreover have "r_size ?new = r_size (geometry (geo s x))" by (simp add: r_size_def moveTopLeft_def)
  ultimately show "setPosition_with f x p s = setPosition_with g x p s" "setPosition_with f x p s \<noteq> Inl OutOfFuel"
    by (auto simp: setPosition_with_def Let_def geometryChange_with_def)
qed

text \<open>The filter makes at most one call, and the call finds the flag set.\<close>

lemma filter_call:
  assumes "\<And>p t. flagged x t \<Longrightarrow> f x p t = g x p t" "\<And>p t. flagged x t \<Longrightarrow> g x p t \<noteq> Inl OutOfFuel"
  shows "filter_seats f x new old (moves s) s = filter_seats g x new old (moves s) s"
    "filter_seats g x new old (moves s) s \<noteq> Inl OutOfFuel"
proof -
  have "filter_seats f x new old (moves s) s = filter_seats g x new old (moves s) s
    \<and> filter_seats g x new old (moves s) s \<noteq> Inl OutOfFuel"
  proof (cases "find (resizing x) (moves s)")
    case None
    then show ?thesis by (simp add: filter_seats_none)
  next
    case (Some e)
    then obtain k m where m: "find (resizing x) (moves s) = Some (k, m)" by (cases e) simp
    have "flagged x (mod_move (\<lambda>m. m\<lparr>mr_settingPosition := True\<rparr>) k s)"
      using filter_finds [OF m, of k] by (simp add: flagged_def resizer_def mod_move_def)
    note call = assms [OF this]
    have "rbind (g x p (mod_move (\<lambda>m. m\<lparr>mr_settingPosition := True\<rparr>) k s)) (\<lambda>t. Inr (h t)) \<noteq> Inl OutOfFuel"
      for p and h :: "'a gstate_scheme \<Rightarrow> bool \<times> qrect \<times> 'a gstate_scheme"
      using call(2) [of p] by (cases "g x p (mod_move (\<lambda>m. m\<lparr>mr_settingPosition := True\<rparr>) k s)") auto
    then show ?thesis by (auto simp: filter_seats_some [OF m] call(1) qassert_def Let_def)
  qed
  then show "filter_seats f x new old (moves s) s = filter_seats g x new old (moves s) s"
    "filter_seats g x new old (moves s) s \<noteq> Inl OutOfFuel" by simp_all
qed

lemma setPosition_with_call:
  assumes "\<And>p t. flagged x t \<Longrightarrow> f x p t = g x p t" "\<And>p t. flagged x t \<Longrightarrow> g x p t \<noteq> Inl OutOfFuel"
  shows "setPosition_with f x p s = setPosition_with g x p s" "setPosition_with g x p s \<noteq> Inl OutOfFuel"
  using filter_call [of x f g, OF assms] by (simp_all add: setPosition_with_def geometryChange_with_def Let_def rbind_def split: sum.split prod.split) (metis sum.inject(1))+

text \<open>C35: Setting the position of a window terminates in every state, whatever is being resized: the filter's own call of
  setPosition finds the flag it has set and does not call again. Two levels of recursion give the result, more
  levels the same one, and it is never that of a recursion cut short.\<close>

theorem setPosition_terminates:
  "setPosition_fuel (Suc (Suc n)) x p s = setPosition x p s \<and> setPosition x p s \<noteq> Inl OutOfFuel"
proof -
  have eq: "setPosition_fuel (Suc n) y q t = setPosition_with (setPosition_fuel n) y q t" for n y q and t :: "'a gstate_scheme"
    by simp
  have "setPosition_fuel (Suc n) x q t = setPosition_nested x q t" "setPosition_nested x q t \<noteq> Inl OutOfFuel" if "flagged x t" for q and t :: "'a gstate_scheme"
    using flagged_setPosition [OF that] unfolding eq setPosition_nested_def by blast+
  from setPosition_with_call [of x "setPosition_fuel (Suc n)" setPosition_nested, OF this, where p = p and s = s] show ?thesis by (simp add: setPosition_def)
qed

end
