(* ===== verification/Interactive_Move.thy ===== *)
theory Interactive_Move
  imports Output_Model
begin

text \<open>
  Moving and resizing windows interactively: src/src/surface/seatsurfacemanager.cpp with the per-seat
  operations of src/src/core/rootsurfacecontainer.cpp, tiling at the edges, and what keeps a window on
  the screen. The operation of a seat is its \<open>move_resize\<close> in \<open>moves\<close>; \<open>seat_extra\<close> holds the rest of
  its state. Which output is at a point is asked of wlroots and a parameter here.
\<close>

section \<open>State\<close>

record seat_extra =
  x_clampActive :: bool
  x_clampMinW :: real
  x_clampMaxW :: real
  x_clampMinH :: real
  x_clampMaxH :: real
  x_delayRunning :: bool
  x_cursor :: "qpoint option"

record rstate = pstate +
  seats :: "nat \<Rightarrow> seat_extra"
  defaultSeat :: "nat option"
  rootOutputs :: "oid list"
  outputAt :: "qpoint \<Rightarrow> oid option"
  edgeSideTrigger :: real
  edgeTopTrigger :: real
  edgeQuadrantRatio :: real
  edgePreview :: "(qrect \<times> qrect) option"  \<comment> \<open>source and target while it is visible\<close>
  moveResizeFinished :: "sid list"  \<comment> \<open>the signals of finished operations, in their order\<close>
  currentEventSeat :: "nat option"
  lastInteractingSeat :: "sid \<Rightarrow> nat option"
  allSeats :: "nat list"
  primarySeat :: nat
  primaryOutput :: "oid option"
  layoutOutputs :: "oid list"
  popupPosition :: "sid \<Rightarrow> qpoint"

definition mod_seat_extra :: "(seat_extra \<Rightarrow> seat_extra) \<Rightarrow> nat \<Rightarrow> 'a rstate_scheme \<Rightarrow> 'a rstate_scheme" where
  "mod_seat_extra f k s = s\<lparr>seats := (seats s)(k := f (seats s k))\<rparr>"

definition moveOf :: "'a gstate_scheme \<Rightarrow> nat \<Rightarrow> move_resize option" where
  "moveOf s k = map_of (moves s) k"

definition moveContainerOrDefault :: "nat option \<Rightarrow> 'a rstate_scheme \<Rightarrow> nat option" where
  "moveContainerOrDefault seat s =
     (case (case seat of None \<Rightarrow> defaultSeat s | Some k \<Rightarrow> Some k) of
        None \<Rightarrow> None
      | Some k \<Rightarrow> if moveOf s k = None then None else Some k)"

definition cursorOutput :: "'a rstate_scheme \<Rightarrow> nat \<Rightarrow> oid option" where
  "cursorOutput s k = (case x_cursor (seats s k) of None \<Rightarrow> None | Some p \<Rightarrow> outputAt s p)"

section \<open>Keeping a window on the screen\<close>

definition pointToRectMinDistance :: "qpoint \<Rightarrow> qrect \<Rightarrow> real" where
  "pointToRectMinDistance p r =
     (if r_contains r p then 0
      else min (min \<bar>rx r - px p\<bar> \<bar>ry r - py p\<bar>) (min \<bar>r_right r - px p\<bar> \<bar>r_bottom r - py p\<bar>))"

text \<open>The nearest area, or \<open>Inr\<close> when one contains the point; the empty areas are what the assertions in
  the loop exclude.\<close>

fun nearestArea :: "qpoint \<Rightarrow> (real \<times> qrect) option \<Rightarrow> qrect list \<Rightarrow> (qrect option + unit) result" where
    "nearestArea p best [] = Inr (Inl (map_option snd best))"
  | "nearestArea p best (a # as) =
       rbind (qassert (\<not> isEmptyRect a)) (\<lambda>_.
       if r_contains a p then Inr (Inr ())
       else
         let d = pointToRectMinDistance p a in
         nearestArea p (case best of None \<Rightarrow> Some (d, a) | Some (b, _) \<Rightarrow> if d < b then Some (d, a) else best) as)"

definition adjustRectToMakePointVisible :: "qrect \<Rightarrow> qpoint \<Rightarrow> qrect list \<Rightarrow> qrect result" where
  "adjustRectToMakePointVisible r p areas =
     rbind (qassert (r_contains r p)) (\<lambda>_.
     rbind (nearestArea p None areas) (\<lambda>found.
     case found of
       Inr _ \<Rightarrow> Inr r
     | Inl target \<Rightarrow>
         rbind (qassert (case target of None \<Rightarrow> False | Some t \<Rightarrow> \<not> isEmptyRect t)) (\<lambda>_.
         let t = (case target of None \<Rightarrow> nullRect | Some t \<Rightarrow> t);
             r = (if px p < rx t then moveLeft (rx r + rx t - px p) r
                  else if px p > r_right t then moveRight (r_right r + r_right t - px p) r else r);
             r = (if py p < ry t then moveTop (ry r + ry t - py p) r
                  else if py p > r_bottom t then moveBottom (r_bottom r + r_bottom t - py p) r else r)
         in Inr r)))"

text \<open>The first output that the title bar touches decides whether it is above the screen, unless it is not.\<close>

fun lowerTitlebar :: "qrect \<Rightarrow> qrect list \<Rightarrow> qrect \<Rightarrow> qrect" where
    "lowerTitlebar bar [] n = n"
  | "lowerTitlebar bar (r # rs) n =
       (if isEmptyRect (r_inter r bar) then lowerTitlebar bar rs n
        else if r_top bar < r_top r then moveTop (r_top n + r_top r - r_top bar) n
        else lowerTitlebar bar rs n)"

definition minScreenX :: "qrect list \<Rightarrow> real option" where
  "minScreenX rs = (case rs of [] \<Rightarrow> None | _ \<Rightarrow> Some (Min (set (map r_left rs))))"

definition mustVisiblePos :: "qrect list \<Rightarrow> qrect \<Rightarrow> qpoint" where
  "mustVisiblePos rs n =
     (let y = min (r_bottom n) (ry n + 20) in
      if (case minScreenX rs of None \<Rightarrow> True | Some m \<Rightarrow> rx n < m) then pt (max (r_left n) (r_right n - 20)) y
      else pt (min (r_right n) (rx n + 20)) y)"

definition ensureSurfaceNormalPositionValid :: "sid \<Rightarrow> 'a rstate_scheme \<Rightarrow> 'a rstate_scheme result" where
  "ensureSurfaceNormalPositionValid x s =
     (let normalGeo = normalGeometry (geo s x) in
      if sw_type (wrappers s x) = Layer then Inr s
      else if isEmptyRect normalGeo then Inr s
      else if sw_ownsOutput (wrappers s x) = None then Inr s
      else
        let outputRects = map (validGeometry s) (rootOutputs s) in
        rbind (adjustRectToMakePointVisible normalGeo (mustVisiblePos outputRects normalGeo) outputRects) (\<lambda>n.
        let bar = translated (topLeft n) (titlebarGeometry s x);
            n = (if isValidRect bar then lowerTitlebar bar outputRects n else n)
        in moveNormalGeometryInOutput x (topLeft n) s))"

section \<open>Tiling\<close>

definition applyTileMode :: "sid \<Rightarrow> tile_mode \<Rightarrow> oid option \<Rightarrow> 'a rstate_scheme \<Rightarrow> 'a rstate_scheme result" where
  "applyTileMode x mode out s =
     (if mode = TileNone then cancelTileMode x s
      else if \<not> supportsTileMode (geo s x) mode then Inr s
      else if mode = TileMaximize then
        rbind (case out of None \<Rightarrow> Inr s | Some k \<Rightarrow> setMaximizedGeometry x (validGeometry s k) s) (maximize x)
      else
        let g = (case out of None \<Rightarrow> nullRect | Some k \<Rightarrow> tileGeometry s k mode) in
        if \<not> isValidRect g then Inr s
        else rbind (setTilingGeometry x g s) (setSurfaceState x Tiling))"

definition updateEdgeTilePreview :: "tile_mode \<Rightarrow> oid option \<Rightarrow> nat option \<Rightarrow> 'a rstate_scheme \<Rightarrow> 'a rstate_scheme" where
  "updateEdgeTilePreview mode out seat s =
     (case out of
        None \<Rightarrow> s\<lparr>edgePreview := None\<rparr>
      | Some j \<Rightarrow>
          if mode = TileNone then s\<lparr>edgePreview := None\<rparr>
          else
            let g = tileGeometry s j mode in
            if \<not> isValidRect g then s\<lparr>edgePreview := None\<rparr>
            else
              let source = (case moveContainerOrDefault seat s of
                     None \<Rightarrow> nullRect
                   | Some k \<Rightarrow> (case moveOf s k of None \<Rightarrow> nullRect
                       | Some m \<Rightarrow> (case mr_surface m of None \<Rightarrow> nullRect | Some x \<Rightarrow> geometry (geo s x))))
              in s\<lparr>edgePreview := Some (source, g)\<rparr>)"

definition stopEdgeTileDelay :: "nat \<Rightarrow> 'a rstate_scheme \<Rightarrow> 'a rstate_scheme" where
  "stopEdgeTileDelay k s = mod_seat_extra (\<lambda>e. e\<lparr>x_delayRunning := False\<rparr>) k s"

definition startEdgeTileDelay :: "nat \<Rightarrow> 'a rstate_scheme \<Rightarrow> 'a rstate_scheme" where
  "startEdgeTileDelay k s = mod_seat_extra (\<lambda>e. e\<lparr>x_delayRunning := True\<rparr>) k s"

text \<open>The timer fires.\<close>

definition edgeTileTimeout :: "nat \<Rightarrow> 'a rstate_scheme \<Rightarrow> 'a rstate_scheme" where
  "edgeTileTimeout k s =
     (let s = mod_seat_extra (\<lambda>e. e\<lparr>x_delayRunning := False\<rparr>) k s in
      case moveOf s k of
        None \<Rightarrow> s
      | Some m \<Rightarrow>
          if mr_surface m \<noteq> None \<and> mr_edges m = {} \<and> mr_tileMode m \<noteq> TileNone then
            let s = mod_move (\<lambda>m. m\<lparr>mr_previewActive := True\<rparr>) k s in
            updateEdgeTilePreview (mr_tileMode m) (cursorOutput s k) (Some k) s
          else s)"

text \<open>Which tile the cursor asks for.\<close>

definition edgeMode :: "real \<Rightarrow> real \<Rightarrow> real \<Rightarrow> qrect \<Rightarrow> qpoint \<Rightarrow> tile_mode" where
  "edgeMode sideTrigger topTrigger quadRatio area pos =
     (let quadTop = r_top area + rh area * quadRatio;
          quadBottom = r_bottom area - rh area * quadRatio in
      if px pos \<le> r_left area + sideTrigger then
        (if py pos \<le> quadTop then TileTopLeft else if py pos \<ge> quadBottom then TileBottomLeft else TileLeft)
      else if px pos \<ge> r_right area - sideTrigger then
        (if py pos \<le> quadTop then TileTopRight else if py pos \<ge> quadBottom then TileBottomRight else TileRight)
      else if py pos \<le> r_top area + topTrigger then TileMaximize
      else TileNone)"

text \<open>A point beyond the edge, to see whether another output lies there.\<close>

definition samplePoint :: "tile_mode \<Rightarrow> qrect \<Rightarrow> qpoint \<Rightarrow> qpoint" where
  "samplePoint mode area pos =
     (if mode = TileMaximize then pt (px pos) (r_top area - 1)
      else if mode \<in> {TileLeft, TileTopLeft, TileBottomLeft} then pt (r_left area - 1) (py pos)
      else if mode \<in> {TileRight, TileTopRight, TileBottomRight} then pt (r_right area) (py pos)
      else pt 0 0)"

definition detectMode :: "'a rstate_scheme \<Rightarrow> nat \<Rightarrow> move_resize \<Rightarrow> tile_mode \<times> oid option \<times> bool" where
  "detectMode s k m =
     (case mr_surface m of
        None \<Rightarrow> (TileNone, None, False)
      | Some x \<Rightarrow>
          if mr_edges m \<noteq> {} then (TileNone, None, False)
          else
            let pos = (case x_cursor (seats s k) of Some p \<Rightarrow> p | None \<Rightarrow> pt 0 0) in
            (case outputAt s pos of
               None \<Rightarrow> (TileNone, None, False)
             | Some j \<Rightarrow>
                 let area = validGeometry s j;
                     mode = edgeMode (edgeSideTrigger s) (edgeTopTrigger s) (qBound 0 (edgeQuadrantRatio s) (1 / 2)) area pos;
                     mode = (if mode \<noteq> TileNone \<and> \<not> supportsTileMode (geo s x) mode then TileNone else mode);
                     inner = (mode \<noteq> TileNone
                       \<and> (\<exists>l\<in>set (rootOutputs s). l \<noteq> j \<and> r_contains (out_geometry s l) (samplePoint mode area pos)))
                 in (mode, Some j, inner)))"

definition detectEdgeTilingForSeat :: "nat option \<Rightarrow> 'a rstate_scheme \<Rightarrow> 'a rstate_scheme" where
  "detectEdgeTilingForSeat seat s =
     (case moveContainerOrDefault seat s of
        None \<Rightarrow> s
      | Some k \<Rightarrow>
          (case moveOf s k of
             None \<Rightarrow> s
           | Some m \<Rightarrow>
               let (mode, out, inner) = detectMode s k m in
               if mr_tileMode m \<noteq> mode \<or> mr_innerBorder m \<noteq> inner \<or> out \<noteq> mr_tileOutput m then
                 let s = mod_move (\<lambda>m. m\<lparr>mr_tileMode := mode, mr_innerBorder := inner, mr_tileOutput := out\<rparr>) k s;
                     s = stopEdgeTileDelay k s in
                 if mode = TileNone then
                   updateEdgeTilePreview TileNone None None (mod_move (\<lambda>m. m\<lparr>mr_previewActive := False\<rparr>) k s)
                 else if inner then
                   startEdgeTileDelay k (updateEdgeTilePreview TileNone None None (mod_move (\<lambda>m. m\<lparr>mr_previewActive := False\<rparr>) k s))
                 else updateEdgeTilePreview mode out seat (mod_move (\<lambda>m. m\<lparr>mr_previewActive := True\<rparr>) k s)
               else s))"

section \<open>The operation of a seat\<close>

definition idleMove :: "move_resize \<Rightarrow> move_resize" where
  "idleMove m = m\<lparr>mr_surface := None, mr_edges := {}, mr_startGeometry := nullRect, mr_initialPosition := pt 0 0,
     mr_settingPosition := False, mr_tileMode := TileNone, mr_previewActive := False, mr_innerBorder := False, mr_tileOutput := None\<rparr>"

definition endMoveResize :: "nat \<Rightarrow> 'a rstate_scheme \<Rightarrow> 'a rstate_scheme result" where
  "endMoveResize k s =
     (let s = stopEdgeTileDelay k s in
      case moveOf s k of
        None \<Rightarrow> Inr s
      | Some m \<Rightarrow>
          (case mr_surface m of
             None \<Rightarrow> Inr s
           | Some x \<Rightarrow>
               let s = mod_move idleMove k s;
                   s = (if sw_shellSurface (wrappers s x) \<and> shellInitialized (geo s x)
                        then mod_geo (\<lambda>g. g\<lparr>xwaylandPositionFromSurface := True\<rparr>) x (ask (SetResizeing x False) s) else s)
               in rbind (if \<not> mr_previewActive m \<or> mr_tileMode m = TileNone then ensureSurfaceNormalPositionValid x s
                         else applyTileMode x (mr_tileMode m) (cursorOutput s k) s) (\<lambda>s.
                  Inr (s\<lparr>moveResizeFinished := moveResizeFinished s @ [x]\<rparr>))))"

definition beginMoveResize :: "nat \<Rightarrow> sid \<Rightarrow> qedge set \<Rightarrow> 'a rstate_scheme \<Rightarrow> 'a rstate_scheme result" where
  "beginMoveResize k x edges s =
     rbind (case moveOf s k of None \<Rightarrow> Inr s | Some m \<Rightarrow> if mr_surface m \<noteq> None then endMoveResize k s else Inr s) (\<lambda>s.
     rbind (if edges = {} \<and> (surfaceState (geo s x) = Tiling \<or> surfaceState (geo s x) = Maximized)
            then setSurfaceStateDirectly x Normal s else Inr s) (\<lambda>s.
     if surfaceState (geo s x) \<noteq> Normal \<or> geometryAnimation (geo s x) \<noteq> None then Inr s
     else
       let start = geometry (geo s x);
           s = mod_move (\<lambda>m. m\<lparr>mr_surface := Some x, mr_edges := edges, mr_startGeometry := start, mr_settingPosition := False,
                  mr_tileMode := TileNone, mr_previewActive := False, mr_innerBorder := False, mr_tileOutput := None\<rparr>) k s
       in Inr (setPositionAutomatic False x (mod_geo (\<lambda>g. g\<lparr>xwaylandPositionFromSurface := False\<rparr>) x s))))"

definition applyResizeClamp :: "seat_extra \<Rightarrow> qedge set \<Rightarrow> qsize \<Rightarrow> qsize" where
  "applyResizeClamp e edges target =
     (let w = (if LeftEdge \<in> edges \<or> RightEdge \<in> edges then
                 let w = (if x_clampMinW e > 0 then max (sw target) (x_clampMinW e) else sw target)
                 in (if x_clampMaxW e > 0 then min w (x_clampMaxW e) else w)
               else sw target);
          h = (if TopEdge \<in> edges \<or> BottomEdge \<in> edges then
                 let h = (if x_clampMinH e > 0 then max (sh target) (x_clampMinH e) else sh target)
                 in (if x_clampMaxH e > 0 then min h (x_clampMaxH e) else h)
               else sh target)
      in sz w h)"

definition setResizeClamp :: "real \<Rightarrow> real \<Rightarrow> real \<Rightarrow> real \<Rightarrow> nat \<Rightarrow> 'a rstate_scheme \<Rightarrow> 'a rstate_scheme" where
  "setResizeClamp minW maxW minH maxH k s = mod_seat_extra (\<lambda>e. e\<lparr>x_clampActive := True, x_clampMinW := minW,
     x_clampMaxW := maxW, x_clampMinH := minH, x_clampMaxH := maxH\<rparr>) k s"

definition clearResizeClamp :: "nat \<Rightarrow> 'a rstate_scheme \<Rightarrow> 'a rstate_scheme" where
  "clearResizeClamp k s = mod_seat_extra (\<lambda>e. e\<lparr>x_clampActive := False, x_clampMinW := 0,
     x_clampMaxW := 0, x_clampMinH := 0, x_clampMaxH := 0\<rparr>) k s"

definition dragEdges :: "qedge set \<Rightarrow> qpoint \<Rightarrow> qrect \<Rightarrow> qrect" where
  "dragEdges edges delta g =
     (let g = (if LeftEdge \<in> edges then setLeft (r_left g + px delta) g else g);
          g = (if TopEdge \<in> edges then setTop (r_top g + py delta) g else g);
          g = (if RightEdge \<in> edges then setRight (r_right g + px delta) g else g);
          g = (if BottomEdge \<in> edges then setBottom (r_bottom g + py delta) g else g)
      in g)"

definition doMoveResize :: "nat \<Rightarrow> qpoint \<Rightarrow> 'a rstate_scheme \<Rightarrow> 'a rstate_scheme result" where
  "doMoveResize k delta s =
     (case moveOf s k of
        None \<Rightarrow> Inr s
      | Some m \<Rightarrow>
          (case mr_surface m of
             None \<Rightarrow> Inr s
           | Some x \<Rightarrow>
               if mr_edges m \<noteq> {} then
                 let aligned = alignGeometryToPixelGrid s x (dragEdges (mr_edges m) delta (mr_startGeometry m));
                     target = (if x_clampActive (seats s k) then applyResizeClamp (seats s k) (mr_edges m) (r_size aligned) else r_size aligned)
                 in Inr (snd (resize x target False s))
               else
                 let p = pt (rx (mr_startGeometry m) + px delta) (ry (mr_startGeometry m) + py delta)
                 in setPosition x (alignToPixelGrid s x p) s))"

definition cancelMoveResize :: "nat \<Rightarrow> 'a rstate_scheme \<Rightarrow> 'a rstate_scheme result" where
  "cancelMoveResize k s =
     (case moveOf s k of
        None \<Rightarrow> Inr s
      | Some m \<Rightarrow>
          (case mr_surface m of
             None \<Rightarrow> Inr s
           | Some x \<Rightarrow>
               let start = mr_startGeometry m;
                   s = mod_move (\<lambda>m. m\<lparr>mr_tileMode := TileNone, mr_tileOutput := None, mr_previewActive := False, mr_innerBorder := False\<rparr>) k s
               in rbind (if mr_edges m \<noteq> {} then Inr (snd (resize x (r_size (alignGeometryToPixelGrid s x start)) False s))
                         else setPosition x (alignToPixelGrid s x (topLeft start)) s) (endMoveResize k)))"

definition cancelMoveResizeOf :: "nat \<Rightarrow> sid \<Rightarrow> 'a rstate_scheme \<Rightarrow> 'a rstate_scheme result" where
  "cancelMoveResizeOf k x s =
     (case moveOf s k of None \<Rightarrow> Inr s | Some m \<Rightarrow> if mr_surface m \<noteq> Some x then Inr s else endMoveResize k s)"

section \<open>The root container's operations\<close>

text \<open>A window that leaves its tile stays under the cursor at the same ratio.\<close>

definition grabPosition :: "'a gstate_scheme \<Rightarrow> sid \<Rightarrow> qpoint \<Rightarrow> qrect \<Rightarrow> qsize \<Rightarrow> qpoint" where
  "grabPosition s x cursor tiledGeo restoredSize =
     (let fx = (if rw tiledGeo > 0 then (px cursor - r_left tiledGeo) / rw tiledGeo else 0);
          fy = (if rh tiledGeo > 0 then (py cursor - r_top tiledGeo) / rh tiledGeo else 0)
      in alignToPixelGrid s x (pt (px cursor - fx * sw restoredSize) (py cursor - fy * sh restoredSize)))"

definition beginMoveResizeForSeat :: "nat option \<Rightarrow> sid \<Rightarrow> qedge set \<Rightarrow> 'a rstate_scheme \<Rightarrow> 'a rstate_scheme result" where
  "beginMoveResizeForSeat seat x edges s =
     (case moveContainerOrDefault seat s of
        None \<Rightarrow> Inr s
      | Some k \<Rightarrow>
          rbind (case moveOf s k of None \<Rightarrow> Inr s
                 | Some m \<Rightarrow> if mr_surface m \<noteq> None \<and> mr_surface m \<noteq> Some x then endMoveResize k s else Inr s) (\<lambda>s.
          let wasTiled = (edges = {} \<and> (surfaceState (geo s x) = Tiling \<or> surfaceState (geo s x) = Maximized));
              tiledGeo = (if wasTiled then geometry (geo s x) else nullRect) in
          rbind (beginMoveResize k x edges s) (\<lambda>s.
          case x_cursor (seats s k) of
            None \<Rightarrow> Inr s
          | Some cursor \<Rightarrow>
              rbind (if wasTiled \<and> \<not> isEmptyRect tiledGeo \<and> map_option mr_surface (moveOf s k) = Some (Some x) then
                  let restoredSize = (if isValidRect (normalGeometry (geo s x)) then r_size (normalGeometry (geo s x)) else r_size tiledGeo);
                      newPos = grabPosition s x cursor tiledGeo restoredSize in
                  rbind (setPosition x newPos s) (\<lambda>s.
                  Inr (mod_move (\<lambda>m. m\<lparr>mr_startGeometry := rect newPos restoredSize\<rparr>) k s))
                else Inr s) (\<lambda>s.
              Inr (mod_move (\<lambda>m. m\<lparr>mr_initialPosition := cursor\<rparr>) k s)))))"

definition doMoveResizeForSeat :: "nat option \<Rightarrow> qpoint \<Rightarrow> 'a rstate_scheme \<Rightarrow> 'a rstate_scheme result" where
  "doMoveResizeForSeat seat delta s =
     (case moveContainerOrDefault seat s of None \<Rightarrow> Inr s | Some k \<Rightarrow> doMoveResize k delta s)"

definition endMoveResizeForSeat :: "nat option \<Rightarrow> 'a rstate_scheme \<Rightarrow> 'a rstate_scheme result" where
  "endMoveResizeForSeat seat s =
     rbind (case moveContainerOrDefault seat s of None \<Rightarrow> Inr s | Some k \<Rightarrow> endMoveResize k s) (\<lambda>s.
     Inr (updateEdgeTilePreview TileNone None None s))"

definition cancelMoveResizeForSeat :: "nat option \<Rightarrow> 'a rstate_scheme \<Rightarrow> 'a rstate_scheme result" where
  "cancelMoveResizeForSeat seat s =
     rbind (case moveContainerOrDefault seat s of None \<Rightarrow> Inr s | Some k \<Rightarrow> cancelMoveResize k s) (\<lambda>s.
     Inr (updateEdgeTilePreview TileNone None None s))"

definition getMoveResizeSurfaceForSeat :: "nat option \<Rightarrow> 'a rstate_scheme \<Rightarrow> sid option" where
  "getMoveResizeSurfaceForSeat seat s =
     (case moveContainerOrDefault seat s of None \<Rightarrow> None
      | Some k \<Rightarrow> (case moveOf s k of None \<Rightarrow> None | Some m \<Rightarrow> mr_surface m))"

text \<open>\<^verbatim>\<open>RootSurfaceContainer::cancelMoveResize\<close>: the first seat that moves the window.\<close>

definition root_cancelMoveResize :: "sid \<Rightarrow> 'a rstate_scheme \<Rightarrow> 'a rstate_scheme result" where
  "root_cancelMoveResize x s =
     (case find (\<lambda>(k, m). mr_surface m = Some x) (moves s) of None \<Rightarrow> Inr s | Some (k, _) \<Rightarrow> endMoveResize k s)"

definition startMove :: "(sid \<Rightarrow> 'a rstate_scheme \<Rightarrow> 'a rstate_scheme result) \<Rightarrow> sid \<Rightarrow> 'a rstate_scheme \<Rightarrow> 'a rstate_scheme result" where
  "startMove activate x s = rbind (beginMoveResizeForSeat None x {} s) (activate x)"

definition startResize :: "(sid \<Rightarrow> 'a rstate_scheme \<Rightarrow> 'a rstate_scheme result) \<Rightarrow> sid \<Rightarrow> qedge set \<Rightarrow> 'a rstate_scheme
     \<Rightarrow> 'a rstate_scheme result" where
  "startResize activate x edges s =
     rbind (qassert (edges \<noteq> {})) (\<lambda>_.
     if \<not> resizable (geo s x) then Inr s
     else
       rbind (beginMoveResizeForSeat None x edges s) (\<lambda>s.
       rbind (if sw_shellSurface (wrappers s x) then Inr (ask (SetResizeing x True) s) else Inl NullDeref) (activate x)))"

text \<open>Which seat a client's request to move or resize its window belongs to, and the handlers.\<close>

definition determineSeatForRequest :: "sid \<Rightarrow> 'a rstate_scheme \<Rightarrow> nat option" where
  "determineSeatForRequest x s =
     (case currentEventSeat s of
        Some k \<Rightarrow> Some k
      | None \<Rightarrow> (case lastInteractingSeat s x of
          Some k \<Rightarrow> Some k
        | None \<Rightarrow> (case allSeats s of [] \<Rightarrow> None | k # _ \<Rightarrow> Some k)))"

definition moveRequested :: "(sid \<Rightarrow> 'a rstate_scheme \<Rightarrow> 'a rstate_scheme result) \<Rightarrow> sid \<Rightarrow> 'a rstate_scheme
     \<Rightarrow> 'a rstate_scheme result" where
  "moveRequested activate x s =
     (case determineSeatForRequest x s of
        None \<Rightarrow> Inr s
      | Some k \<Rightarrow> rbind (beginMoveResizeForSeat (Some k) x {} s) (activate x))"

definition resizeRequested :: "(sid \<Rightarrow> 'a rstate_scheme \<Rightarrow> 'a rstate_scheme result) \<Rightarrow> sid \<Rightarrow> qedge set \<Rightarrow> 'a rstate_scheme
     \<Rightarrow> 'a rstate_scheme result" where
  "resizeRequested activate x edges s =
     (case determineSeatForRequest x s of
        None \<Rightarrow> Inr s
      | Some k \<Rightarrow>
          rbind (beginMoveResizeForSeat (Some k) x edges s) (\<lambda>s.
          activate x (if sw_shellSurface (wrappers s x) then ask (SetResizeing x True) s else s)))"

definition moveSeatAdded :: "nat \<Rightarrow> 'a rstate_scheme \<Rightarrow> 'a rstate_scheme" where
  "moveSeatAdded k s =
     (if moveOf s k \<noteq> None then s
      else mod_seat_extra (\<lambda>e. e\<lparr>x_clampActive := False, x_clampMinW := 0, x_clampMaxW := 0, x_clampMinH := 0,
             x_clampMaxH := 0, x_delayRunning := False\<rparr>) k
           (s\<lparr>moves := insort_key fst (k, \<lparr>mr_surface = None, mr_edges = {}, mr_startGeometry = nullRect,
             mr_initialPosition = pt 0 0, mr_settingPosition = False, mr_tileMode = TileNone, mr_previewActive = False,
             mr_innerBorder = False, mr_tileOutput = None\<rparr>) (moves s)\<rparr>))"

definition moveSeatRemoved :: "nat \<Rightarrow> 'a rstate_scheme \<Rightarrow> 'a rstate_scheme" where
  "moveSeatRemoved k s = stopEdgeTileDelay k (s\<lparr>moves := filter (\<lambda>(j, _). j \<noteq> k) (moves s)\<rparr>)"

text \<open>The operations on a window end when it goes away, and those on its windows when an output does.\<close>

definition endMovesWhere :: "(sid \<Rightarrow> 'a rstate_scheme \<Rightarrow> bool) \<Rightarrow> 'a rstate_scheme \<Rightarrow> 'a rstate_scheme result" where
  "endMovesWhere P s =
     rfold (\<lambda>k s. case moveOf s k of
         None \<Rightarrow> Inr s
       | Some m \<Rightarrow> (case mr_surface m of None \<Rightarrow> Inr s | Some x \<Rightarrow> if P x s then endMoveResize k s else Inr s))
       (map fst (moves s)) s"

definition removeBySubContainer_moves :: "sid \<Rightarrow> 'a rstate_scheme \<Rightarrow> 'a rstate_scheme result" where
  "removeBySubContainer_moves x = endMovesWhere (\<lambda>y _. y = x)"

definition server_setCursorPosition :: "qpoint \<Rightarrow> 'a rstate_scheme \<Rightarrow> 'a rstate_scheme result" where
  "server_setCursorPosition p s =
     rbind (rfold (\<lambda>k. endMoveResizeForSeat (Some k)) (allSeats s) s) (\<lambda>s.
     Inr (mod_seat_extra (\<lambda>e. e\<lparr>x_cursor := map_option (\<lambda>_. p) (x_cursor e)\<rparr>) (primarySeat s) (s\<lparr>cursorPosition := p\<rparr>)))"

text \<open>\<open>forward\<close> is \<^verbatim>\<open>SurfaceContainer::removeOutput\<close>.\<close>

definition root_removeOutput :: "(oid \<Rightarrow> 'a rstate_scheme \<Rightarrow> 'a rstate_scheme result) \<Rightarrow> oid \<Rightarrow> 'a rstate_scheme
     \<Rightarrow> 'a rstate_scheme result" where
  "root_removeOutput forward j s =
     rbind (forward j (s\<lparr>rootOutputs := snd (removeObject j (rootOutputs s))\<rparr>)) (\<lambda>s.
     rbind (endMovesWhere (\<lambda>x s. sw_ownsOutput (wrappers s x) = Some j) s) (\<lambda>s.
     let s = s\<lparr>layoutOutputs := remove1 j (layoutOutputs s)\<rparr>;
         s = (if primaryOutput s = Some j \<and> layoutOutputs s \<noteq> [] then s\<lparr>primaryOutput := Some (hd (layoutOutputs s))\<rparr> else s) in
     case primaryOutput s of
       None \<Rightarrow> Inr s
     | Some p \<Rightarrow>
         if r_contains (out_geometry s j) (cursorPosition s) then
           let newCursorPos = pt (rx (out_geometry s p) + (px (cursorPosition s) - rx (out_geometry s j)))
                                 (ry (out_geometry s p) + (py (cursorPosition s) - ry (out_geometry s j))) in
           server_setCursorPosition
             (if r_contains (out_geometry s p) newCursorPos then newCursorPos else r_center (out_geometry s p)) s
         else Inr s))"

section \<open>Input events\<close>

text \<open>What \<^verbatim>\<open>CompositorInputFilter::beforeHandleEvent\<close> does with the events of a seat that moves or resizes a
  window; the result tells whether the event ends there.\<close>

datatype drag_event = DragMotion qpoint | DragEscape | DragRelease

definition filterMoveEvent :: "nat \<Rightarrow> drag_event \<Rightarrow> 'a rstate_scheme \<Rightarrow> (bool \<times> 'a rstate_scheme) result" where
  "filterMoveEvent k ev s =
     (case moveOf s k of
        None \<Rightarrow> Inr (False, s)
      | Some m \<Rightarrow>
          (case mr_surface m of
             None \<Rightarrow> Inr (False, s)
           | Some x \<Rightarrow>
               (case ev of
                  DragMotion p \<Rightarrow>
                    rbind (qassert (x_cursor (seats s k) \<noteq> None)) (\<lambda>_.
                    if sw_ownsOutput (wrappers s x) = None then
                      rbind (endMoveResizeForSeat (Some k) s) (\<lambda>s. Inr (False, s))
                    else
                      let delta = pt (px p - px (mr_initialPosition m)) (py p - py (mr_initialPosition m)) in
                      rbind (doMoveResizeForSeat (Some k) delta s) (\<lambda>s.
                      Inr (True, if mr_edges m = {} then detectEdgeTilingForSeat (Some k) s else s)))
                | DragEscape \<Rightarrow> rbind (cancelMoveResizeForSeat (Some k) s) (\<lambda>s. Inr (True, s))
                | DragRelease \<Rightarrow> rbind (endMoveResizeForSeat (Some k) s) (\<lambda>s. Inr (False, s)))))"

section \<open>Moving windows to another output\<close>

definition moveToOutput :: "sid \<Rightarrow> oid \<Rightarrow> 'a rstate_scheme \<Rightarrow> 'a rstate_scheme result" where
  "moveToOutput x k s =
     (if aboutToRemove s x \<or> sw_ownsOutput (wrappers s x) = Some k then Inr s
      else
        rbind (case sw_ownsOutput (wrappers s x) of None \<Rightarrow> Inr s | Some j \<Rightarrow> out_removeSurface j x s) (\<lambda>s.
        out_addSurface k x (mod_wrapper (\<lambda>w. w\<lparr>sw_ownsOutput := Some k\<rparr>) x s)))"

text \<open>\<^verbatim>\<open>Workspace::updateSurfaceOwnsOutput\<close>, and the output a new window begins on.\<close>

definition updateSurfaceOwnsOutput :: "sid \<Rightarrow> 'a rstate_scheme \<Rightarrow> 'a rstate_scheme result" where
  "updateSurfaceOwnsOutput x s =
     (let os = onOutputs (geo s x) in
      if (case sw_ownsOutput (wrappers s x) of Some j \<Rightarrow> j \<in> set os | None \<Rightarrow> False) then Inr s
      else
        (case (if os \<noteq> [] then Some (hd os)
               else if outputAtCursor s \<noteq> None then outputAtCursor s else primaryOutput s) of
           None \<Rightarrow> Inr s
         | Some k \<Rightarrow> moveToOutput x k s))"

definition initialOutput :: "sid \<Rightarrow> 'a rstate_scheme \<Rightarrow> oid option result" where
  "initialOutput x s =
     (let w = wrappers s x;
          found = (case sw_parentSurface w of Some p \<Rightarrow> sw_ownsOutput (wrappers s p) | None \<Rightarrow> outputAtCursor s);
          found = (if found = None then primaryOutput s else found) in
      if sw_type w = XdgPopup \<and> sw_shellSurface w then
        rbind (deref (sw_parentSurface w)) (\<lambda>p.
        if sw_type (wrappers s p) = Layer then Inr found
        else
          let pg = geometry (geo s p); off = surfaceItemPosition s p; q = popupPosition s x in
          Inr (case outputAt s (pt (rx pg + px off + px q) (ry pg + py off + py q)) of Some k \<Rightarrow> Some k | None \<Rightarrow> found))
      else Inr found)"

definition relocated :: "qrect \<Rightarrow> qsize \<Rightarrow> qpoint \<Rightarrow> qpoint" where
  "relocated target z p =
     (let x = (if px p + sw z > r_right target then r_right target - sw z else px p);
          x = (if x < r_left target then r_left target else x);
          y = (if py p + sh z > r_bottom target then r_bottom target - sh z else py p);
          y = (if y < r_top target then r_top target else y)
      in pt x y)"

definition moveSurfacesToOutput :: "sid list \<Rightarrow> oid \<Rightarrow> oid option \<Rightarrow> 'a rstate_scheme \<Rightarrow> 'a rstate_scheme result" where
  "moveSurfacesToOutput xs target source s =
     (let targetGeometry = out_geometry s target in
      rfold (\<lambda>x s.
        let g = geometry (geo s x) in
        if sw_ownsOutput (wrappers s x) = Some target then setPosition x (relocated targetGeometry (r_size g) (topLeft g)) s
        else
          rbind (case source of Some j \<Rightarrow> Inr (out_geometry s j)
                 | None \<Rightarrow> rbind (deref (sw_ownsOutput (wrappers s x))) (\<lambda>j. Inr (out_geometry s j))) (\<lambda>sourceGeometry.
          let c = r_center sourceGeometry; d = r_center targetGeometry;
              newPos = pt (px d + (rx g - px c)) (py d + (ry g - py c)) in
          rbind (moveToOutput x target s) (\<lambda>s. setPosition x (relocated targetGeometry (r_size g) newPos) s))) xs s)"

end
