(* ===== verification/Interactive_Drag.thy ===== *)
theory Interactive_Drag
  imports Interactive_Move Output_Zones
begin

text \<open>
  The state of interactive operations (src/src/surface/seatsurfacemanager.cpp and
  src/src/core/rootsurfacecontainer.cpp): what every operation keeps of it, when an edge is armed for
  tiling, and when the preview of the tile is on the screen.
\<close>

named_theorems move_simps \<open>the operation of a seat after the elementary steps\<close>

section \<open>Frames\<close>

text \<open>What the operations on windows leave alone: the operations of the seats and all that is not about
  windows.\<close>

definition kept :: "'a gstate_scheme \<Rightarrow> 'a gstate_scheme \<Rightarrow> bool" where
  "kept s t = (gstate.more t = gstate.more s \<and> moves t = moves s)"

lemma kept_refl [simp, intro]: "kept s s"
  by (simp add: kept_def)

lemma kept_trans: "kept s t \<Longrightarrow> kept t u \<Longrightarrow> kept s u"
  by (simp add: kept_def)

lemma kept_idle: "kept s t \<Longrightarrow> moves_idle t = moves_idle s"
  by (simp add: kept_def moves_idle_def)

lemma kept_steps [simp, intro]:
  "kept s (mod_geo f x s)" "kept s (ask r s)" "kept s (snd (resize x z b s))" "kept s (setNormalGeometry x q s)"
  "kept s (updateVisible x s)" "kept s (updateTitleBar x s)" "kept s (abortGeometryAnimation x s)"
  "kept s (setSurfaceStateValue x st s)" "kept s (resetXdgToplevelSize x s)" "kept s (setPositionAutomatic b x s)"
  "kept s (snd (startStateChangeAnimation x q s))"
  by (simp_all add: kept_def mod_geo_def ask_def resize_def setNormalGeometry_def updateVisible_def Let_def mod_wrapper_def
      updateTitleBar_def abortGeometryAnimation_def setSurfaceStateValue_def resetXdgToplevelSize_def setPositionAutomatic_def
      startStateChangeAnimation_def)

lemma geometry_only_kept: "geometry_only x s t \<Longrightarrow> kept s t"
  by (auto simp: geometry_only_def kept_def)

lemma setPosition_kept:
  assumes "moves_idle s" "setPosition x p s = Inr t"
  shows "kept s t"
  using setPosition_spec [OF assms(1), of x p] assms(2) geometry_only_kept by auto

lemma applyShellSurfaceState_kept: "kept s (applyShellSurfaceState x s)"
proof -
  have "kept s (mod_geo f x u)" "kept s (ask r u)" "kept s (updateVisible x (updateTitleBar x u))" if "kept s u" for u f r
    using kept_trans [OF that] kept_trans [OF kept_steps(6) kept_steps(5)] kept_steps by blast+
  then show ?thesis
    by (simp add: applyShellSurfaceState_def Let_def split: surface_state.split)
qed

lemma applyGeometry_kept:
  assumes "moves_idle s" "applyGeometry x q s = Inr (ok, t)"
  shows "kept s t"
  using applyGeometry_spec [OF assms(1), of x q] assms(2) geometry_only_kept by auto

lemma applySurfaceState_kept:
  assumes "moves_idle s" "applySurfaceState x s = Inr (ok, t)"
  shows "kept s t"
proof -
  let ?u = "applyShellSurfaceState x s"
  have u: "kept s ?u" by (rule applyShellSurfaceState_kept)
  then have "moves_idle ?u" using assms(1) kept_idle by blast
  then have "kept ?u t"
    using assms(2) applyGeometry_kept [of ?u x _ ok t] by (auto simp: applySurfaceState_def Let_def split: if_splits)
  with u show ?thesis by (rule kept_trans)
qed

lemma taken_kept: "kept s (setSurfaceStateValue x st (abortGeometryAnimation x s))"
  using kept_trans [OF kept_steps(7) kept_steps(8)] .

lemma setSurfaceStateDirectly_kept:
  assumes "moves_idle s" "setSurfaceStateDirectly x st s = Inr t"
  shows "kept s t"
proof -
  let ?u = "setSurfaceStateValue x st (abortGeometryAnimation x s)"
  have "kept ?u t" if "checkSetSurfaceState s x st False"
    using assms that taken_kept [of s x st] applySurfaceState_kept [of ?u x _ t] kept_idle [of s ?u]
    by (auto simp: setSurfaceStateDirectly_def rbind_Inr_iff)
  then show ?thesis using assms(2) kept_trans [OF taken_kept] by (auto simp: setSurfaceStateDirectly_def split: if_splits)
qed

lemma setSurfaceState_kept:
  assumes "moves_idle s" "setSurfaceState x st s = Inr t"
  shows "kept s t"
proof -
  let ?u = "setSurfaceStateValue x st (abortGeometryAnimation x s)"
  have "kept ?u t" if "checkSetSurfaceState s x st True"
    using assms that taken_kept [of s x st] applySurfaceState_kept [of ?u x _ t] kept_idle [of s ?u]
    by (auto simp: setSurfaceState_def Let_def rbind_Inr_iff split: if_splits)
  then show ?thesis using assms(2) kept_trans [OF taken_kept] by (auto simp: setSurfaceState_def split: if_splits)
qed

lemma place_at_frame: "moves_idle s \<Longrightarrow> place_at x q s = Inr t \<Longrightarrow> kept s t"
  using setPosition_kept kept_trans kept_steps(3) by (fastforce simp: place_at_def rbind_Inr_iff)

lemma setGeometries_kept:
  assumes "moves_idle s"
  shows "setMaximizedGeometry x q s = Inr t \<Longrightarrow> kept s t" "setTilingGeometry x q s = Inr t \<Longrightarrow> kept s t"
proof -
  have place: "kept s t" if "place_at x q (mod_geo f x s) = Inr t" for f t
    using that assms kept_trans [OF kept_steps(1)] place_at_frame [of "mod_geo f x s" x q t] by simp
  have geo: "kept s (mod_geo g x (mod_geo f x s))" for f g using kept_trans [OF kept_steps(1) kept_steps(1)] .
  show "setMaximizedGeometry x q s = Inr t \<Longrightarrow> kept s t"
    using place geo by (auto simp: setMaximizedGeometry_def Let_def split: if_splits)
  show "setTilingGeometry x q s = Inr t \<Longrightarrow> kept s t"
    using place by (auto simp: setTilingGeometry_def Let_def split: if_splits)
qed

lemma maximize_frame: "moves_idle s \<Longrightarrow> maximize x s = Inr t \<Longrightarrow> kept s t"
  using setSurfaceState_kept [of s x Maximized t] setSurfaceStateDirectly_kept [of s x Maximized t]
  by (auto simp: maximize_def split: if_splits)

lemma applyTileMode_kept:
  assumes "moves_idle s" "applyTileMode x mode out s = Inr t"
  shows "kept s t"
proof -
  have chain: "kept s t" if "kept s u" "moves_idle u \<Longrightarrow> kept u t" for u
    using that assms(1) kept_idle kept_trans by blast
  show ?thesis
  proof (cases "mode = TileNone \<or> \<not> supportsTileMode (geo s x) mode")
    case True
    then show ?thesis using assms setSurfaceStateDirectly_kept by (auto simp: applyTileMode_def cancelTileMode_def split: if_splits)
  next
    case False
    have "\<exists>u. kept s u \<and> (maximize x u = Inr t \<or> setSurfaceState x Tiling u = Inr t \<or> u = t)"
    proof (cases "mode = TileMaximize")
      case True
      then obtain u where u: "(case out of None \<Rightarrow> Inr s | Some k \<Rightarrow> setMaximizedGeometry x (validGeometry s k) s) = Inr u"
        "maximize x u = Inr t"
        using False assms(2) by (auto simp: applyTileMode_def rbind_Inr_iff)
      then have "kept s u" using setGeometries_kept(1) [OF assms(1)] by (cases out) auto
      with u(2) show ?thesis by blast
    next
      case tile: False
      show ?thesis
      proof (cases "isValidRect (case out of None \<Rightarrow> nullRect | Some k \<Rightarrow> tileGeometry s k mode)")
        case True
        then obtain u where "setTilingGeometry x (case out of None \<Rightarrow> nullRect | Some k \<Rightarrow> tileGeometry s k mode) s = Inr u"
          "setSurfaceState x Tiling u = Inr t"
          using False tile assms(2) by (auto simp: applyTileMode_def Let_def rbind_Inr_iff)
        then show ?thesis using setGeometries_kept(2) [OF assms(1)] by blast
      next
        case invalid: False
        then have "s = t" using False tile assms(2) by (simp add: applyTileMode_def Let_def)
        then show ?thesis by blast
      qed
    qed
    then show ?thesis using chain maximize_frame setSurfaceState_kept by blast
  qed
qed

lemma ensure_kept:
  assumes "moves_idle s" "ensureSurfaceNormalPositionValid x s = Inr t"
  shows "kept s t"
proof -
  have "kept s t" if "moveNormalGeometryInOutput x p s = Inr t" for p
  proof -
    let ?u = "setNormalGeometry x (rect (alignToPixelGrid s x p) (r_size (normalGeometry (geo s x)))) s"
    have u: "kept s ?u" by simp
    then have "moves_idle ?u" using assms(1) kept_idle by blast
    then have "kept ?u t" using that setPosition_kept [of ?u x _ t]
      by (auto simp: moveNormalGeometryInOutput_def Let_def split: if_splits)
    with u show ?thesis by (rule kept_trans)
  qed
  then show ?thesis using assms(2)
    by (auto simp: ensureSurfaceNormalPositionValid_def Let_def rbind_Inr_iff split: if_splits)
qed

section \<open>The operation of a seat\<close>

lemma kept_form:
  assumes "kept s t"
  shows "t = s\<lparr>wrappers := wrappers t, trace := trace t, geo := geo t, requests := requests t, outputPlace := outputPlace t,
    outputScale := outputScale t, outputEnabled := outputEnabled t, windowDpr := windowDpr t, titleBarSize := titleBarSize t\<rparr>"
  using assms by (cases s; cases t) (simp add: kept_def)

lemma kept_rframe:
  fixes s t :: "'a rstate_scheme"
  assumes "kept s t"
  shows "seats t = seats s" "edgePreview t = edgePreview s" "rootOutputs t = rootOutputs s" "outs t = outs s"
    "outputAt t = outputAt s" "moveResizeFinished t = moveResizeFinished s" "defaultSeat t = defaultSeat s"
    "moves t = moves s" "moveOf t = moveOf s" "allSeats t = allSeats s" "cursorPosition t = cursorPosition s"
    "validGeometry t = validGeometry s" "tileGeometry t = tileGeometry s" "cursorOutput t = cursorOutput s"
  by (subst kept_form [OF assms],
      simp add: moveOf_def fun_eq_iff validGeometry_def out_geometry_def tileGeometry_def cursorOutput_def cong: option.case_cong)+

lemma moveOf_mod_move [simp, move_simps]:
  "moveOf (mod_move f k s) j = (if j = k then map_option f (moveOf s k) else moveOf s j)"
proof -
  have "map_of (map (\<lambda>(i, m). if i = k then (i, f m) else (i, m)) ms) j
      = (if j = k then map_option f (map_of ms k) else map_of ms j)" for ms :: "(nat \<times> move_resize) list"
    by (induction ms) auto
  then show ?thesis by (simp add: moveOf_def mod_move_def)
qed

lemma seats_steps [simp, move_simps]:
  "seats (mod_move f k s) = seats s" "moveOf (mod_seat_extra g k s) = moveOf s"
  "seats (mod_seat_extra g k s) = (seats s)(k := g (seats s k))"
  "seats (s\<lparr>edgePreview := v\<rparr>) = seats s" "moveOf (s\<lparr>edgePreview := v\<rparr>) = moveOf s"
  "seats (s\<lparr>moveResizeFinished := w\<rparr>) = seats s" "moveOf (s\<lparr>moveResizeFinished := w\<rparr>) = moveOf s"
  "seats (updateEdgeTilePreview mode out seat s) = seats s" "moveOf (updateEdgeTilePreview mode out seat s) = moveOf s"
  "moves (updateEdgeTilePreview mode out seat s) = moves s" "edgePreview (mod_move f k s) = edgePreview s"
  "edgePreview (mod_seat_extra g k s) = edgePreview s"
  by (simp_all add: mod_move_def mod_seat_extra_def moveOf_def fun_eq_iff updateEdgeTilePreview_def Let_def split: option.split)

text \<open>An edge is armed when the tile under the cursor would be taken on release: that is so as soon as
  it is detected, but at a border between outputs only when the delay is over.\<close>

definition drag_ok :: "seat_extra \<Rightarrow> move_resize \<Rightarrow> bool" where
  "drag_ok e m =
     ((mr_tileMode m \<noteq> TileNone \<longrightarrow> mr_surface m \<noteq> None \<and> mr_edges m = {})
      \<and> mr_previewActive m = (mr_tileMode m \<noteq> TileNone \<and> \<not> x_delayRunning e)
      \<and> (x_delayRunning e \<longrightarrow> mr_innerBorder m)
      \<and> (mr_innerBorder m \<longrightarrow> mr_tileMode m \<noteq> TileNone))"

definition drag_inv :: "'a rstate_scheme \<Rightarrow> bool" where
  "drag_inv s = (moves_idle s \<and> (\<forall>k m. moveOf s k = Some m \<longrightarrow> drag_ok (seats s k) m))"

lemma drag_invD: "drag_inv s \<Longrightarrow> moves_idle s" "drag_inv s \<Longrightarrow> moveOf s k = Some m \<Longrightarrow> drag_ok (seats s k) m"
  by (simp_all add: drag_inv_def)

lemma drag_inv_kept:
  fixes s t :: "'a rstate_scheme"
  assumes "drag_inv s" "kept s t"
  shows "drag_inv t"
  using assms(1) kept_rframe(1,9) [OF assms(2)] kept_idle [OF assms(2)] by (simp add: drag_inv_def)

lemma moves_idle_mod_move:
  "moves_idle s \<Longrightarrow> (\<And>m. mr_settingPosition (f m) \<Longrightarrow> mr_settingPosition m) \<Longrightarrow> moves_idle (mod_move f k s)"
  by (auto simp: moves_idle_def mod_move_def comp_def case_prod_unfold if_distrib cong: if_cong split: if_splits)

lemma moves_idle_steps [simp]:
  "moves_idle (mod_seat_extra g k s) = moves_idle s" "moves_idle (s\<lparr>edgePreview := v\<rparr>) = moves_idle s"
  "moves_idle (s\<lparr>moveResizeFinished := w\<rparr>) = moves_idle s" "moves_idle (updateEdgeTilePreview mode out seat s) = moves_idle s"
  by (simp_all add: moves_idle_def mod_seat_extra_def)

text \<open>A step on one seat, and steps that are about no seat.\<close>

lemma drag_inv_seat:
  assumes "drag_inv s" "\<And>m. mr_settingPosition (f m) \<Longrightarrow> mr_settingPosition m"
    and "\<And>m. moveOf s k = Some m \<Longrightarrow> drag_ok (g (seats s k)) (f m)"
  shows "drag_inv (mod_move f k (mod_seat_extra g k s))" "drag_inv (mod_seat_extra g k (mod_move f k s))"
  using assms moves_idle_mod_move [of s f k] moves_idle_mod_move [of "mod_seat_extra g k s" f k] by (auto simp: drag_inv_def)

lemma drag_inv_moveonly:
  assumes "drag_inv s" "\<And>m. mr_settingPosition (f m) \<Longrightarrow> mr_settingPosition m"
    and "\<And>m. moveOf s k = Some m \<Longrightarrow> drag_ok (seats s k) (f m)"
  shows "drag_inv (mod_move f k s)"
  using assms moves_idle_mod_move [of s f k] by (auto simp: drag_inv_def)

lemma drag_inv_steps [simp]:
  "drag_inv (s\<lparr>edgePreview := v\<rparr>) = drag_inv s" "drag_inv (s\<lparr>moveResizeFinished := w\<rparr>) = drag_inv s"
  "drag_inv (updateEdgeTilePreview mode out seat s) = drag_inv s"
  "drag_inv (mod_seat_extra g k (updateEdgeTilePreview mode out seat s)) = drag_inv (mod_seat_extra g k s)"
  by (simp_all add: drag_inv_def)

lemma idleMove_ok: "drag_ok (e\<lparr>x_delayRunning := False\<rparr>) (idleMove m)"
  by (simp add: drag_ok_def idleMove_def)
section \<open>Every operation keeps it\<close>

lemma no_window_no_delay: "drag_ok e m \<Longrightarrow> mr_surface m = None \<Longrightarrow> \<not> x_delayRunning e"
  by (auto simp: drag_ok_def)

lemma drag_inv_stop:
  assumes "drag_inv s" "\<And>m. moveOf s k = Some m \<Longrightarrow> mr_surface m = None"
  shows "drag_inv (stopEdgeTileDelay k s)"
proof -
  have "drag_ok ((seats s k)\<lparr>x_delayRunning := False\<rparr>) m" if "moveOf s k = Some m" for m
    using no_window_no_delay [of "seats s k" m] drag_invD(2) [OF assms(1) that] assms(2) [OF that] by (auto simp: drag_ok_def)
  then show ?thesis using assms(1) by (auto simp: drag_inv_def stopEdgeTileDelay_def)
qed

definition others_ok :: "nat \<Rightarrow> 'a rstate_scheme \<Rightarrow> bool" where
  "others_ok k s = (moves_idle s \<and> (\<forall>j m. j \<noteq> k \<longrightarrow> moveOf s j = Some m \<longrightarrow> drag_ok (seats s j) m))"

lemma drag_inv_others: "drag_inv s \<Longrightarrow> others_ok k s"
  by (simp add: drag_inv_def others_ok_def)

lemma drag_inv_renewed:
  assumes "others_ok k s" "\<And>m. mr_settingPosition (f m) \<Longrightarrow> mr_settingPosition m"
    and "\<And>m. moveOf s k = Some m \<Longrightarrow> drag_ok (g (seats s k)) (f m)"
  shows "drag_inv (mod_move f k (mod_seat_extra g k s))"
  using assms moves_idle_mod_move [of "mod_seat_extra g k s" f k] by (auto simp: drag_inv_def others_ok_def)

text \<open>What ending an operation does to the seat.\<close>

lemma endMoveResize_spec:
  assumes "others_ok k s" "moveOf s k = Some m" "mr_surface m = Some x" "endMoveResize k s = Inr t"
  shows "\<exists>u. drag_inv u \<and> moveOf u = (moveOf s)(k := Some (idleMove m)) \<and> edgePreview u = edgePreview s
    \<and> seats u = (seats s)(k := (seats s k)\<lparr>x_delayRunning := False\<rparr>)
    \<and> moveResizeFinished u = moveResizeFinished s
    \<and> (if \<not> mr_previewActive m \<or> mr_tileMode m = TileNone then ensureSurfaceNormalPositionValid x u
       else applyTileMode x (mr_tileMode m) (cursorOutput u k) u) = Inr (t\<lparr>moveResizeFinished := moveResizeFinished s\<rparr>)
    \<and> kept u (t\<lparr>moveResizeFinished := moveResizeFinished s\<rparr>)
    \<and> moveResizeFinished t = moveResizeFinished s @ [x] \<and> drag_inv t"
proof -
  let ?s = "mod_move idleMove k (stopEdgeTileDelay k s)"
  have "drag_inv ?s" unfolding stopEdgeTileDelay_def
    using idleMove_ok by (intro drag_inv_renewed [OF assms(1)]) (simp_all add: idleMove_def)
  moreover define u where "u = (if sw_shellSurface (wrappers ?s x) \<and> shellInitialized (geo ?s x)
      then mod_geo (\<lambda>g. g\<lparr>xwaylandPositionFromSurface := True\<rparr>) x (ask (SetResizeing x False) ?s) else ?s)"
  moreover have k: "kept ?s u" unfolding u_def by (simp add: kept_trans [OF kept_steps(2) kept_steps(1)])
  ultimately have u: "drag_inv u" using drag_inv_kept by blast
  have stop: "moveOf (stopEdgeTileDelay k s) = moveOf s" by (simp add: stopEdgeTileDelay_def)
  have "rbind (if \<not> mr_previewActive m \<or> mr_tileMode m = TileNone then ensureSurfaceNormalPositionValid x u
      else applyTileMode x (mr_tileMode m) (cursorOutput u k) u) (\<lambda>s. Inr (s\<lparr>moveResizeFinished := moveResizeFinished s @ [x]\<rparr>)) = Inr t"
    using assms(4) unfolding endMoveResize_def Let_def stop assms(2) option.case assms(3) u_def .
  then obtain v where v: "(if \<not> mr_previewActive m \<or> mr_tileMode m = TileNone then ensureSurfaceNormalPositionValid x u
      else applyTileMode x (mr_tileMode m) (cursorOutput u k) u) = Inr v" "t = v\<lparr>moveResizeFinished := moveResizeFinished v @ [x]\<rparr>"
    by (rule rbind_InrE) simp
  then have v_kept: "kept u v" using ensure_kept applyTileMode_kept drag_invD(1) [OF u] by (auto split: if_splits)
  have fin: "moveResizeFinished v = moveResizeFinished s" "moveResizeFinished u = moveResizeFinished s" "edgePreview u = edgePreview s"
    "seats u = (seats s)(k := (seats s k)\<lparr>x_delayRunning := False\<rparr>)"
    using kept_rframe [OF k] kept_rframe [OF v_kept] by (simp_all add: stopEdgeTileDelay_def mod_seat_extra_def mod_move_def)
  have "moveOf u = (moveOf s)(k := Some (idleMove m))"
    using kept_rframe(9) [OF k] assms(2) by (auto simp: stopEdgeTileDelay_def fun_eq_iff)
  moreover have undo: "t\<lparr>moveResizeFinished := moveResizeFinished s\<rparr> = v" using v(2) fin(1) by (cases v) simp
  moreover have "drag_inv t" using drag_inv_kept [OF u v_kept] v(2) by simp
  moreover have "moveResizeFinished t = moveResizeFinished s @ [x]" using v(2) fin(1) by simp
  ultimately show ?thesis unfolding undo using u v(1) v_kept fin(2-4) by blast
qed

lemma endMoveResize_idle:
  assumes "moveOf s k = None \<or> (\<exists>m. moveOf s k = Some m \<and> mr_surface m = None)" "endMoveResize k s = Inr t"
  shows "t = stopEdgeTileDelay k s"
  using assms by (auto simp: endMoveResize_def Let_def stopEdgeTileDelay_def)

lemma endMoveResize_inv:
  assumes "drag_inv s" "endMoveResize k s = Inr t"
  shows "drag_inv t" "moveOf t k = Some m \<Longrightarrow> mr_surface m = None"
    "j \<noteq> k \<Longrightarrow> moveOf t j = moveOf s j" "edgePreview t = edgePreview s" "(moveOf t k = None) = (moveOf s k = None)"
proof -
  let ?all = "drag_inv t \<and> (\<forall>m. moveOf t k = Some m \<longrightarrow> mr_surface m = None) \<and> (\<forall>j. j \<noteq> k \<longrightarrow> moveOf t j = moveOf s j)
    \<and> edgePreview t = edgePreview s \<and> (moveOf t k = None) = (moveOf s k = None)"
  have ?all
  proof (cases "moveOf s k = None \<or> (\<exists>m. moveOf s k = Some m \<and> mr_surface m = None)")
    case True
    then have "t = stopEdgeTileDelay k s" using assms(2) endMoveResize_idle by blast
    then show ?thesis using drag_inv_stop [OF assms(1), of k] True by (auto simp: stopEdgeTileDelay_def mod_seat_extra_def moveOf_def)
  next
    case False
    then obtain m x where m: "moveOf s k = Some m" "mr_surface m = Some x" by auto
    obtain u where u: "moveOf u = (moveOf s)(k := Some (idleMove m))" "edgePreview u = edgePreview s"
      "kept u (t\<lparr>moveResizeFinished := moveResizeFinished s\<rparr>)" "drag_inv t"
      using endMoveResize_spec [OF drag_inv_others [OF assms(1)] m assms(2)] by blast
    have "moveOf t = moveOf u" "edgePreview t = edgePreview u" using kept_rframe(2,9) [OF u(3)] by simp_all
    then show ?thesis using u m by (auto simp: idleMove_def)
  qed
  then show "drag_inv t" "moveOf t k = Some m \<Longrightarrow> mr_surface m = None" "j \<noteq> k \<Longrightarrow> moveOf t j = moveOf s j"
    "edgePreview t = edgePreview s" "(moveOf t k = None) = (moveOf s k = None)" by auto
qed

lemma setPosition_inv: "drag_inv s \<Longrightarrow> setPosition x p s = Inr t \<Longrightarrow> drag_inv t"
  using setPosition_kept drag_inv_kept drag_invD(1) by blast

text \<open>What beginning one does: nothing to the seat, or the window is on it and no tile is.\<close>

lemma begin_inv:
  assumes "drag_inv s" "beginMoveResize k x edges s = Inr t"
  shows "drag_inv t" "edgePreview t = edgePreview s" "j \<noteq> k \<Longrightarrow> moveOf t j = moveOf s j"
    "moveOf t k = Some m \<Longrightarrow> mr_tileMode m = TileNone \<and> (mr_surface m = None \<or> mr_surface m = Some x \<and> mr_edges m = edges)"
proof -
  let ?take = "\<lambda>start m. m\<lparr>mr_surface := Some x, mr_edges := edges, mr_startGeometry := start, mr_settingPosition := False,
      mr_tileMode := TileNone, mr_previewActive := False, mr_innerBorder := False, mr_tileOutput := None\<rparr>"
  from assms(2) obtain u where u: "(case moveOf s k of None \<Rightarrow> Inr s | Some m \<Rightarrow> if mr_surface m \<noteq> None then endMoveResize k s else Inr s) = Inr u"
    and rest: "rbind (if edges = {} \<and> (surfaceState (geo u x) = Tiling \<or> surfaceState (geo u x) = Maximized)
            then setSurfaceStateDirectly x Normal u else Inr u) (\<lambda>s.
     if surfaceState (geo s x) \<noteq> Normal \<or> geometryAnimation (geo s x) \<noteq> None then Inr s
     else Inr (setPositionAutomatic False x (mod_geo (\<lambda>g. g\<lparr>xwaylandPositionFromSurface := False\<rparr>) x
        (mod_move (?take (geometry (geo s x))) k s)))) = Inr t"
    unfolding beginMoveResize_def Let_def by (rule rbind_InrE)
  from rest obtain v where v: "(if edges = {} \<and> (surfaceState (geo u x) = Tiling \<or> surfaceState (geo u x) = Maximized)
            then setSurfaceStateDirectly x Normal u else Inr u) = Inr v"
    and t: "t = v \<or> t = setPositionAutomatic False x (mod_geo (\<lambda>g. g\<lparr>xwaylandPositionFromSurface := False\<rparr>) x
        (mod_move (?take (geometry (geo v x))) k v))"
    by (rule rbind_InrE) (auto split: if_splits)
  have u1: "drag_inv u" "edgePreview u = edgePreview s" "\<And>m. moveOf u k = Some m \<Longrightarrow> mr_surface m = None"
    "\<And>j. j \<noteq> k \<Longrightarrow> moveOf u j = moveOf s j"
    using u endMoveResize_inv [OF assms(1)] assms(1) by (auto split: option.splits if_splits)
  have uv: "kept u v" using v setSurfaceStateDirectly_kept drag_invD(1) [OF u1(1)] by (auto split: if_splits)
  have v1: "drag_inv v" by (rule drag_inv_kept [OF u1(1) uv])
  have none: "mr_surface m = None" if "moveOf v k = Some m" for m using that u1(3) kept_rframe(9) [OF uv] by simp
  let ?w = "mod_move (?take (geometry (geo v x))) k v"
  have w: "drag_inv ?w"
  proof (rule drag_inv_moveonly [OF v1])
    fix m assume m: "moveOf v k = Some m"
    then have "\<not> x_delayRunning (seats v k)" using no_window_no_delay drag_invD(2) [OF v1] none by blast
    then show "drag_ok (seats v k) (?take (geometry (geo v x)) m)" by (simp add: drag_ok_def)
  qed simp
  have wt: "t = v \<or> kept ?w t" using t kept_trans [OF kept_steps(1) kept_steps(10)] by blast
  have "drag_inv t \<and> edgePreview t = edgePreview s \<and> (\<forall>j. j \<noteq> k \<longrightarrow> moveOf t j = moveOf s j)
    \<and> (\<forall>m. moveOf t k = Some m \<longrightarrow> mr_tileMode m = TileNone \<and> (mr_surface m = None \<or> mr_surface m = Some x \<and> mr_edges m = edges))"
    using wt
  proof
    assume tv: "t = v"
    have "mr_tileMode m = TileNone" if "moveOf v k = Some m" for m
      using drag_invD(2) [OF v1 that] none [OF that] by (auto simp: drag_ok_def)
    then show ?thesis using tv v1 none kept_rframe(2,9) [OF uv] u1 by simp
  next
    assume k: "kept ?w t"
    have "moveOf t = moveOf ?w" "edgePreview t = edgePreview ?w" using kept_rframe(2,9) [OF k] by simp_all
    then show ?thesis using drag_inv_kept [OF w k] kept_rframe(2,9) [OF uv] u1
      by auto
  qed
  then show "drag_inv t" "edgePreview t = edgePreview s" "j \<noteq> k \<Longrightarrow> moveOf t j = moveOf s j"
    "moveOf t k = Some m \<Longrightarrow> mr_tileMode m = TileNone \<and> (mr_surface m = None \<or> mr_surface m = Some x \<and> mr_edges m = edges)"
    by auto
qed
text \<open>Detecting an edge, and the end of the delay.\<close>

lemma detectMode_ok:
  assumes "detectMode s k m = (mode, out, inner)"
  shows "mode \<noteq> TileNone \<Longrightarrow> mr_surface m \<noteq> None \<and> mr_edges m = {}" "inner \<Longrightarrow> mode \<noteq> TileNone"
  using assms by (auto simp: detectMode_def Let_def split: option.splits if_splits)

lemma detect_inv:
  assumes "drag_inv s"
  shows "drag_inv (detectEdgeTilingForSeat seat s)"
proof (cases "moveContainerOrDefault seat s")
  case None
  then show ?thesis using assms by (simp add: detectEdgeTilingForSeat_def)
next
  case (Some k)
  then obtain m where m: "moveOf s k = Some m" by (auto simp: moveContainerOrDefault_def split: option.splits if_splits)
  obtain mode out inner where d: "detectMode s k m = (mode, out, inner)" by (cases "detectMode s k m")
  note ok = detectMode_ok [OF d]
  let ?f = "\<lambda>m. m\<lparr>mr_tileMode := mode, mr_innerBorder := inner, mr_tileOutput := out\<rparr>"
  have one: "drag_inv (mod_move (\<lambda>m. m\<lparr>mr_previewActive := b\<rparr>) k (mod_seat_extra (\<lambda>e. e\<lparr>x_delayRunning := c\<rparr>) k (mod_move ?f k s)))"
    "drag_inv (mod_seat_extra (\<lambda>e. e\<lparr>x_delayRunning := c\<rparr>) k (mod_move (\<lambda>m. m\<lparr>mr_previewActive := b\<rparr>) k (mod_seat_extra (\<lambda>e. e\<lparr>x_delayRunning := False\<rparr>) k (mod_move ?f k s))))"
    if "b = (mode \<noteq> TileNone \<and> \<not> c)" "c \<longrightarrow> inner" for b c
    using assms m ok that unfolding drag_inv_def by (auto simp: drag_ok_def intro!: moves_idle_mod_move)
  consider "mode = TileNone" | "mode \<noteq> TileNone" "inner" | "mode \<noteq> TileNone" "\<not> inner" by blast
  then show ?thesis
  proof cases
    case 1
    then show ?thesis using assms one(1) [of False False] ok
      by (simp add: detectEdgeTilingForSeat_def Some m d Let_def stopEdgeTileDelay_def)
  next
    case 2
    then show ?thesis using assms one(2) [of False True]
      by (simp add: detectEdgeTilingForSeat_def Some m d Let_def stopEdgeTileDelay_def startEdgeTileDelay_def)
  next
    case 3
    then show ?thesis using assms one(1) [of True False]
      by (simp add: detectEdgeTilingForSeat_def Some m d Let_def stopEdgeTileDelay_def)
  qed
qed

lemma timeout_inv:
  assumes "drag_inv s"
  shows "x_delayRunning (seats s k) \<Longrightarrow> drag_inv (edgeTileTimeout k s)"
proof -
  assume run: "x_delayRunning (seats s k)"
  show ?thesis
  proof (cases "moveOf s k")
    case None
    then show ?thesis using assms by (auto simp: edgeTileTimeout_def Let_def drag_inv_def)
  next
    case (Some m)
    then have d: "drag_ok (seats s k) m" using drag_invD(2) [OF assms] by blast
    then have "mr_surface m \<noteq> None \<and> mr_edges m = {} \<and> mr_tileMode m \<noteq> TileNone" using run by (auto simp: drag_ok_def)
    moreover have "drag_inv (mod_move (\<lambda>m. m\<lparr>mr_previewActive := True\<rparr>) k (mod_seat_extra (\<lambda>e. e\<lparr>x_delayRunning := False\<rparr>) k s))"
      using d Some run by (intro drag_inv_seat(1) [OF assms]) (auto simp: drag_ok_def)
    ultimately show ?thesis using Some by (simp add: edgeTileTimeout_def Let_def)
  qed
qed

text \<open>Dragging and cancelling.\<close>

lemma doMoveResize_kept:
  assumes "drag_inv s" "doMoveResize k delta s = Inr t"
  shows "kept s t"
  using assms(2) setPosition_kept [OF drag_invD(1) [OF assms(1)]]
  by (auto simp: doMoveResize_def Let_def split: option.splits if_splits)

lemma cancelMoveResize_steps:
  assumes "moveOf s k = Some m" "mr_surface m = Some x" "cancelMoveResize k s = Inr t" "drag_inv s"
  defines "f \<equiv> \<lambda>m. m\<lparr>mr_tileMode := TileNone, mr_tileOutput := None, mr_previewActive := False, mr_innerBorder := False\<rparr>"
  shows "\<exists>u. kept (mod_move f k s) u \<and> others_ok k u \<and> moveOf u k = Some (f m) \<and> endMoveResize k u = Inr t
    \<and> (mr_edges m = {} \<longrightarrow> setPosition x (alignToPixelGrid (mod_move f k s) x (topLeft (mr_startGeometry m))) (mod_move f k s) = Inr u)"
proof -
  let ?s = "mod_move f k s"
  have idle: "moves_idle ?s"
    unfolding f_def by (rule moves_idle_mod_move [OF drag_invD(1) [OF assms(4)]]) simp
  obtain u where u: "(if mr_edges m \<noteq> {} then Inr (snd (resize x (r_size (alignGeometryToPixelGrid ?s x (mr_startGeometry m))) False ?s))
        else setPosition x (alignToPixelGrid ?s x (topLeft (mr_startGeometry m))) ?s) = Inr u" "endMoveResize k u = Inr t"
    using assms(3) unfolding cancelMoveResize_def Let_def assms(1) option.case assms(2) f_def by (rule rbind_InrE)
  have k: "kept ?s u" using u(1) setPosition_kept [OF idle] by (auto split: if_splits)
  have "moveOf u = moveOf ?s" "seats u = seats ?s" using kept_rframe [OF k] by simp_all
  then have "others_ok k u" "moveOf u k = Some (f m)"
    using assms(1,4) idle kept_idle [OF k] by (auto simp: others_ok_def drag_inv_def)
  with k u show ?thesis by (intro exI [of _ u]) auto
qed

lemma cancelMoveResize_inv:
  assumes "drag_inv s" "cancelMoveResize k s = Inr t"
  shows "drag_inv t" "moveOf t k = Some m \<Longrightarrow> mr_surface m = None"
    "j \<noteq> k \<Longrightarrow> moveOf t j = moveOf s j" "edgePreview t = edgePreview s"
proof -
  have "drag_inv t \<and> (\<forall>m. moveOf t k = Some m \<longrightarrow> mr_surface m = None) \<and> (\<forall>j. j \<noteq> k \<longrightarrow> moveOf t j = moveOf s j)
    \<and> edgePreview t = edgePreview s"
  proof (cases "moveOf s k = None \<or> (\<exists>m. moveOf s k = Some m \<and> mr_surface m = None)")
    case True
    then have "t = s" using assms(2) by (auto simp: cancelMoveResize_def)
    then show ?thesis using assms(1) True by auto
  next
    case False
    then obtain m x where m: "moveOf s k = Some m" "mr_surface m = Some x" by auto
    let ?f = "\<lambda>m. m\<lparr>mr_tileMode := TileNone, mr_tileOutput := None, mr_previewActive := False, mr_innerBorder := False\<rparr>"
    obtain u where u: "kept (mod_move ?f k s) u" "others_ok k u" "moveOf u k = Some (?f m)" "endMoveResize k u = Inr t"
      using cancelMoveResize_steps [OF m assms(2,1)] by blast
    have fm: "mr_surface (?f m) = Some x" using m(2) by simp
    obtain v where v: "moveOf v = (moveOf u)(k := Some (idleMove (?f m)))" "edgePreview v = edgePreview u"
      "kept v (t\<lparr>moveResizeFinished := moveResizeFinished u\<rparr>)" "drag_inv t"
      using endMoveResize_spec [OF u(2,3) fm u(4)] by blast
    have "moveOf t = moveOf v" "edgePreview t = edgePreview v" "moveOf u = moveOf (mod_move ?f k s)" "edgePreview u = edgePreview s"
      using kept_rframe(2,9) [OF v(3)] kept_rframe(2,9) [OF u(1)] by simp_all
    then show ?thesis using v by (auto simp: idleMove_def)
  qed
  then show "drag_inv t" "moveOf t k = Some m \<Longrightarrow> mr_surface m = None"
    "j \<noteq> k \<Longrightarrow> moveOf t j = moveOf s j" "edgePreview t = edgePreview s" by auto
qed
section \<open>The operations of the root container\<close>

lemma container_move: "moveContainerOrDefault seat s = Some k \<Longrightarrow> \<exists>m. moveOf s k = Some m"
  by (auto simp: moveContainerOrDefault_def split: option.splits if_splits)

lemma beginForSeat_inv:
  assumes "drag_inv s" "beginMoveResizeForSeat seat x edges s = Inr t"
  shows "drag_inv t" "edgePreview t = edgePreview s" "moveContainerOrDefault seat s \<noteq> Some j \<Longrightarrow> moveOf t j = moveOf s j"
proof -
  have "drag_inv t \<and> edgePreview t = edgePreview s \<and> (\<forall>j. moveContainerOrDefault seat s \<noteq> Some j \<longrightarrow> moveOf t j = moveOf s j)"
  proof (cases "moveContainerOrDefault seat s")
    case None
    then show ?thesis using assms by (simp add: beginMoveResizeForSeat_def)
  next
    case (Some k)
    from assms(2) obtain u where u: "(case moveOf s k of None \<Rightarrow> Inr s
                 | Some m \<Rightarrow> if mr_surface m \<noteq> None \<and> mr_surface m \<noteq> Some x then endMoveResize k s else Inr s) = Inr u"
      unfolding beginMoveResizeForSeat_def Some option.case by (rule rbind_InrE)
    have u1: "drag_inv u" "edgePreview u = edgePreview s" "\<And>j. j \<noteq> k \<Longrightarrow> moveOf u j = moveOf s j"
      using u endMoveResize_inv(1,3,4) [OF assms(1)] assms(1) by (auto split: option.splits if_splits)
    let ?tiled = "edges = {} \<and> (surfaceState (geo u x) = Tiling \<or> surfaceState (geo u x) = Maximized)"
    from assms(2) u obtain v where v: "beginMoveResize k x edges u = Inr v"
      and t: "(case x_cursor (seats v k) of
            None \<Rightarrow> Inr v
          | Some cursor \<Rightarrow>
              rbind (if ?tiled \<and> \<not> isEmptyRect (if ?tiled then geometry (geo u x) else nullRect) \<and> map_option mr_surface (moveOf v k) = Some (Some x) then
                  (let restoredSize = (if isValidRect (normalGeometry (geo v x)) then r_size (normalGeometry (geo v x)) else r_size (if ?tiled then geometry (geo u x) else nullRect));
                      newPos = grabPosition v x cursor (if ?tiled then geometry (geo u x) else nullRect) restoredSize in
                  rbind (setPosition x newPos v) (\<lambda>s. Inr (mod_move (\<lambda>m. m\<lparr>mr_startGeometry := rect newPos restoredSize\<rparr>) k s)))
                else Inr v) (\<lambda>s. Inr (mod_move (\<lambda>m. m\<lparr>mr_initialPosition := cursor\<rparr>) k s))) = Inr t"
      unfolding beginMoveResizeForSeat_def Some option.case Let_def by (auto elim!: rbind_InrE)
    have v1: "drag_inv v" "edgePreview v = edgePreview s" "\<And>j. j \<noteq> k \<Longrightarrow> moveOf v j = moveOf s j"
      using begin_inv(1,2,3) [OF u1(1) v] u1(2,3) by simp_all
    have set: "drag_inv (mod_move (\<lambda>m. m\<lparr>mr_startGeometry := r\<rparr>) k w)" "drag_inv (mod_move (\<lambda>m. m\<lparr>mr_initialPosition := p\<rparr>) k w)"
      if "drag_inv w" for w r p
      using drag_invD(2) [OF that] by (auto intro!: drag_inv_moveonly [OF that] simp: drag_ok_def)
    have pos: "drag_inv w \<and> edgePreview w = edgePreview s \<and> (\<forall>j. j \<noteq> k \<longrightarrow> moveOf w j = moveOf s j)" if "setPosition x p v = Inr w" for p w
      using setPosition_inv [OF v1(1) that] kept_rframe(2,9) [OF setPosition_kept [OF drag_invD(1) [OF v1(1)] that]] v1(2,3) by simp
    show ?thesis
    proof (cases "x_cursor (seats v k)")
      case None
      then show ?thesis using t v1 \<open>moveContainerOrDefault seat s = Some k\<close> by simp
    next
      case (Some cursor)
      from t [unfolded Some option.case] obtain w where w: "drag_inv w \<and> edgePreview w = edgePreview s \<and> (\<forall>j. j \<noteq> k \<longrightarrow> moveOf w j = moveOf s j)"
        and "t = mod_move (\<lambda>m. m\<lparr>mr_initialPosition := cursor\<rparr>) k w"
      proof (rule rbind_InrE)
        fix w
        assume a: "(if ?tiled \<and> \<not> isEmptyRect (if ?tiled then geometry (geo u x) else nullRect) \<and> map_option mr_surface (moveOf v k) = Some (Some x) then
                  (let restoredSize = (if isValidRect (normalGeometry (geo v x)) then r_size (normalGeometry (geo v x)) else r_size (if ?tiled then geometry (geo u x) else nullRect));
                      newPos = grabPosition v x cursor (if ?tiled then geometry (geo u x) else nullRect) restoredSize in
                  rbind (setPosition x newPos v) (\<lambda>s. Inr (mod_move (\<lambda>m. m\<lparr>mr_startGeometry := rect newPos restoredSize\<rparr>) k s)))
                else Inr v) = Inr w" and b: "Inr (mod_move (\<lambda>m. m\<lparr>mr_initialPosition := cursor\<rparr>) k w) = Inr t"
          and that: "\<And>w. drag_inv w \<and> edgePreview w = edgePreview s \<and> (\<forall>j. j \<noteq> k \<longrightarrow> moveOf w j = moveOf s j) \<Longrightarrow> t = mod_move (\<lambda>m. m\<lparr>mr_initialPosition := cursor\<rparr>) k w \<Longrightarrow> thesis"
        have "w = v \<or> (\<exists>p r z. setPosition x p v = Inr z \<and> w = mod_move (\<lambda>m. m\<lparr>mr_startGeometry := r\<rparr>) k z)"
          using a unfolding Let_def by (auto simp: rbind_Inr_iff split: if_splits)
        then have "drag_inv w \<and> edgePreview w = edgePreview s \<and> (\<forall>j. j \<noteq> k \<longrightarrow> moveOf w j = moveOf s j)"
          using v1 pos by (auto simp: set(1))
        then show thesis using that b by simp
      qed
      then show ?thesis using w \<open>moveContainerOrDefault seat s = Some k\<close> by (simp add: set(2))
    qed
  qed
  then show "drag_inv t" "edgePreview t = edgePreview s" "moveContainerOrDefault seat s \<noteq> Some j \<Longrightarrow> moveOf t j = moveOf s j"
    by auto
qed

lemma endForSeat_inv:
  assumes "drag_inv s" "endMoveResizeForSeat seat s = Inr t"
  shows "drag_inv t" "edgePreview t = None"
  using assms endMoveResize_inv(1) [OF assms(1)]
  by (auto simp: endMoveResizeForSeat_def rbind_Inr_iff updateEdgeTilePreview_def split: option.splits)

lemma cancelForSeat_inv:
  assumes "drag_inv s" "cancelMoveResizeForSeat seat s = Inr t"
  shows "drag_inv t" "edgePreview t = None"
  using assms cancelMoveResize_inv(1) [OF assms(1)]
  by (auto simp: cancelMoveResizeForSeat_def rbind_Inr_iff updateEdgeTilePreview_def split: option.splits)

lemma filterMoveEvent_inv:
  assumes "drag_inv s" "filterMoveEvent k ev s = Inr (b, t)"
  shows "drag_inv t"
proof -
  have "drag_inv u" if "doMoveResizeForSeat (Some k) d s = Inr u" for d u
    using that doMoveResize_kept [OF assms(1)] drag_inv_kept [OF assms(1)] assms(1)
    by (auto simp: doMoveResizeForSeat_def split: option.splits)
  then show ?thesis
    using assms endForSeat_inv(1) [OF assms(1)] cancelForSeat_inv(1) [OF assms(1)]
    by (auto simp: filterMoveEvent_def Let_def rbind_Inr_iff intro!: detect_inv split: option.splits drag_event.splits if_splits)
qed

lemma endMovesWhere_inv:
  assumes "drag_inv s" "endMovesWhere P s = Inr t"
  shows "drag_inv t" "edgePreview t = edgePreview s"
proof -
  have "drag_inv t \<and> edgePreview t = edgePreview s"
  proof (rule rfold_invariant [where P = "\<lambda>t. drag_inv t \<and> edgePreview t = edgePreview s", OF assms(2) [unfolded endMovesWhere_def]])
    fix k u v
    assume u: "drag_inv u \<and> edgePreview u = edgePreview s"
      and v: "(case moveOf u k of None \<Rightarrow> Inr u | Some m \<Rightarrow> (case mr_surface m of None \<Rightarrow> Inr u | Some x \<Rightarrow> if P x u then endMoveResize k u else Inr u)) = Inr v"
    then have "endMoveResize k u = Inr v \<or> v = u" by (auto split: option.splits if_splits)
    then show "drag_inv v \<and> edgePreview v = edgePreview s" using u endMoveResize_inv(1,4) [of u k v] by auto
  qed (simp add: assms(1))
  then show "drag_inv t" "edgePreview t = edgePreview s" by auto
qed

lemma cursorPosition_inv:
  assumes "drag_inv s" "server_setCursorPosition p s = Inr t"
  shows "drag_inv t"
proof -
  obtain u where u: "rfold (\<lambda>k. endMoveResizeForSeat (Some k)) (allSeats s) s = Inr u"
    "t = mod_seat_extra (\<lambda>e. e\<lparr>x_cursor := map_option (\<lambda>_. p) (x_cursor e)\<rparr>) (primarySeat u) (u\<lparr>cursorPosition := p\<rparr>)"
    using assms(2) by (auto simp: server_setCursorPosition_def rbind_Inr_iff)
  have "drag_inv u" using rfold_invariant [where P = drag_inv, OF u(1) assms(1)] endForSeat_inv(1) by blast
  then show ?thesis by (auto simp: u(2) drag_inv_def moves_idle_def mod_seat_extra_def moveOf_def drag_ok_def)
qed

lemma seats_inv:
  assumes "drag_inv s"
  shows "drag_inv (moveSeatAdded k s)" "drag_inv (moveSeatRemoved k s)"
proof -
  have keys: "map_of (filter (\<lambda>(i, _). i \<noteq> k) ms) j = (if j = k then None else map_of ms j)" for ms :: "(nat \<times> move_resize) list" and j
    by (induction ms) auto
  have idle: "distinct (map fst (filter (\<lambda>(i, _). i \<noteq> k) ms))" if "distinct (map fst ms)" for ms :: "(nat \<times> move_resize) list"
    using that by (induction ms) auto
  show "drag_inv (moveSeatRemoved k s)"
    using assms idle by (auto simp: drag_inv_def moveSeatRemoved_def stopEdgeTileDelay_def mod_seat_extra_def moveOf_def keys moves_idle_def split: if_splits)
  have ins: "map_of (insort_key fst (k, m) ms) j = (if j = k then Some m else map_of ms j)"
    "set (insort_key fst (k, m) ms) = insert (k, m) (set ms)" "distinct (map fst (insort_key fst (k, m) ms))"
    if "k \<notin> fst ` set ms" "distinct (map fst ms)" for ms :: "(nat \<times> move_resize) list" and m j
  proof -
    show s: "set (insort_key fst (k, m) ms) = insert (k, m) (set ms)" by (simp add: set_insort_key)
    show "map_of (insort_key fst (k, m) ms) j = (if j = k then Some m else map_of ms j)"
      using that by (induction ms) (auto simp: rev_image_eqI)
    show "distinct (map fst (insort_key fst (k, m) ms))"
      using that by (induction ms) (auto simp: set_insort_key)
  qed
  show "drag_inv (moveSeatAdded k s)"
  proof (cases "moveOf s k")
    case None
    then have k: "k \<notin> fst ` set (moves s)" "distinct (map fst (moves s))"
      using assms by (simp_all add: moveOf_def map_of_eq_None_iff drag_inv_def moves_idle_def)
    show ?thesis using None assms
      by (auto simp: drag_inv_def moveSeatAdded_def mod_seat_extra_def moveOf_def ins(1) [OF k] ins(2) [OF k] ins(3) [OF k] moves_idle_def drag_ok_def split: if_splits)
  next
    case (Some m)
    then show ?thesis using assms by (simp add: moveSeatAdded_def)
  qed
qed
text \<open>All seats end their operations on a window that goes away.\<close>

lemma endMovesWhere_done:
  assumes "drag_inv s" "removeBySubContainer_moves x s = Inr t"
  shows "\<forall>k m. moveOf t k = Some m \<longrightarrow> mr_surface m \<noteq> Some x"
proof -
  let ?f = "\<lambda>k s. case moveOf s k of None \<Rightarrow> Inr s
       | Some m \<Rightarrow> (case mr_surface m of None \<Rightarrow> Inr s | Some y \<Rightarrow> if y = x then endMoveResize k s else Inr s)"
  have "drag_inv v \<and> (\<forall>k m. moveOf v k = Some m \<longrightarrow> mr_surface m = Some x \<longrightarrow> k \<notin> set ks \<and> map_option mr_surface (moveOf u k) = Some (Some x))"
    if "drag_inv u" "rfold ?f ks u = Inr v" for ks u v
    using that
  proof (induction ks arbitrary: u)
    case (Cons k ks)
    then obtain w where w: "?f k u = Inr w" "rfold ?f ks w = Inr v" by (auto elim: rbind_InrE)
    have "drag_inv w \<and> (\<forall>j m. moveOf w j = Some m \<longrightarrow> mr_surface m = Some x \<longrightarrow> j \<noteq> k \<and> moveOf u j = Some m)"
    proof (cases "map_option mr_surface (moveOf u k) = Some (Some x)")
      case True
      then have e: "endMoveResize k u = Inr w" using w(1) by auto
      show ?thesis
      proof (intro conjI allI impI)
        show "drag_inv w" using endMoveResize_inv(1) [OF Cons.prems(1) e] .
      next
        fix j m assume m: "moveOf w j = Some m" "mr_surface m = Some x"
        then show "j \<noteq> k" using endMoveResize_inv(2) [OF Cons.prems(1) e] by auto
        then show "moveOf u j = Some m" using endMoveResize_inv(3) [OF Cons.prems(1) e] m(1) by simp
      qed
    next
      case False
      then have "w = u" using w(1) by (auto split: option.splits if_splits)
      then show ?thesis using False Cons.prems(1) by auto
    qed
    then show ?case using Cons.IH [OF _ w(2)] by fastforce
  qed auto
  from this [OF assms(1), of "map fst (moves s)" t] assms(2)
  have "\<forall>k m. moveOf t k = Some m \<longrightarrow> mr_surface m = Some x \<longrightarrow> k \<notin> set (map fst (moves s)) \<and> moveOf s k \<noteq> None"
    unfolding removeBySubContainer_moves_def endMovesWhere_def by fastforce
  then show ?thesis by (metis moveOf_def domI dom_map_of_conv_image_fst set_map option.exhaust)
qed

section \<open>Everything that can happen\<close>

inductive drag_reach :: "rstate \<Rightarrow> bool" where
  dr_start: "\<lbrakk>distinct (map fst (moves s)); \<And>k m. moveOf s k = Some m \<Longrightarrow> m = idleMove m; \<And>k. \<not> x_delayRunning (seats s k)\<rbrakk>
    \<Longrightarrow> drag_reach s"
| dr_event: "\<lbrakk>drag_reach s; filterMoveEvent k ev s = Inr (b, t)\<rbrakk> \<Longrightarrow> drag_reach t"
| dr_timer: "\<lbrakk>drag_reach s; x_delayRunning (seats s k)\<rbrakk> \<Longrightarrow> drag_reach (edgeTileTimeout k s)"
| dr_begin: "\<lbrakk>drag_reach s; beginMoveResizeForSeat seat x edges s = Inr t\<rbrakk> \<Longrightarrow> drag_reach t"
| dr_end: "\<lbrakk>drag_reach s; endMoveResizeForSeat seat s = Inr t\<rbrakk> \<Longrightarrow> drag_reach t"
| dr_cancel: "\<lbrakk>drag_reach s; cancelMoveResizeForSeat seat s = Inr t\<rbrakk> \<Longrightarrow> drag_reach t"
| dr_gone: "\<lbrakk>drag_reach s; endMovesWhere P s = Inr t\<rbrakk> \<Longrightarrow> drag_reach t"
| dr_cursor: "\<lbrakk>drag_reach s; server_setCursorPosition p s = Inr t\<rbrakk> \<Longrightarrow> drag_reach t"
| dr_seatAdded: "drag_reach s \<Longrightarrow> drag_reach (moveSeatAdded k s)"
| dr_seatRemoved: "drag_reach s \<Longrightarrow> drag_reach (moveSeatRemoved k s)"
| dr_other: "\<lbrakk>drag_reach s; moves t = moves s; \<And>k. x_delayRunning (seats t k) = x_delayRunning (seats s k)\<rbrakk> \<Longrightarrow> drag_reach t"

lemma drag_reach_inv: "drag_reach s \<Longrightarrow> drag_inv s"
proof (induction rule: drag_reach.induct)
  case (dr_start s)
  have idle: "\<not> mr_settingPosition m \<and> mr_tileMode m = TileNone \<and> \<not> mr_previewActive m \<and> \<not> mr_innerBorder m"
    if e: "m = idleMove m" for m
    using arg_cong [OF e, of mr_settingPosition] arg_cong [OF e, of mr_tileMode] arg_cong [OF e, of mr_previewActive]
      arg_cong [OF e, of mr_innerBorder] by (simp add: idleMove_def)
  have "\<not> mr_settingPosition m" if "(k, m) \<in> set (moves s)" for k m
    using idle dr_start(2) [of k m] that dr_start(1) by (simp add: moveOf_def)
  then have "moves_idle s" using dr_start(1) by (auto simp: moves_idle_def)
  moreover have "drag_ok (seats s k) m" if "moveOf s k = Some m" for k m
    using idle dr_start(2) [OF that] dr_start(3) by (simp add: drag_ok_def)
  ultimately show ?case by (simp add: drag_inv_def)
next
  case (dr_other s t)
  then show ?case by (simp add: drag_inv_def moves_idle_def moveOf_def drag_ok_def)
next
  case (dr_event s k ev b t)
  then show ?case using filterMoveEvent_inv by blast
next
  case (dr_timer s k)
  then show ?case using timeout_inv by blast
next
  case (dr_begin s seat x edges t)
  then show ?case using beginForSeat_inv(1) by blast
next
  case (dr_end s seat t)
  then show ?case using endForSeat_inv(1) by blast
next
  case (dr_cancel s seat t)
  then show ?case using cancelForSeat_inv(1) by blast
next
  case (dr_gone s P t)
  then show ?case using endMovesWhere_inv(1) by blast
next
  case (dr_cursor s p t)
  then show ?case using cursorPosition_inv by blast
qed (simp_all add: seats_inv)

text \<open>C11: A tile is detected only while a window is being moved, not while it is resized. Releasing the
  button takes a tile exactly when one is detected and no delay is running, and the delay runs only at
  a border between two outputs.\<close>

theorem edge_armed_when_detected:
  assumes "drag_reach s" "moveOf s k = Some m"
  shows "mr_previewActive m = (mr_tileMode m \<noteq> TileNone \<and> \<not> x_delayRunning (seats s k))
    \<and> (mr_tileMode m \<noteq> TileNone \<longrightarrow> mr_surface m \<noteq> None \<and> mr_edges m = {})
    \<and> (x_delayRunning (seats s k) \<longrightarrow> mr_innerBorder m \<and> mr_tileMode m \<noteq> TileNone)"
  using drag_invD(2) [OF drag_reach_inv [OF assms(1)] assms(2)] by (auto simp: drag_ok_def)
section \<open>The preview\<close>

text \<open>Input, timers and new operations of seats that are free: what happens as long as no window, no output
  and no seat goes away during an operation.\<close>

inductive input_reach :: "rstate \<Rightarrow> bool" where
  ir_start: "\<lbrakk>drag_reach s; edgePreview s = None\<rbrakk> \<Longrightarrow> input_reach s"
| ir_event: "\<lbrakk>input_reach s; filterMoveEvent k ev s = Inr (b, t)\<rbrakk> \<Longrightarrow> input_reach t"
| ir_timer: "\<lbrakk>input_reach s; x_delayRunning (seats s k)\<rbrakk> \<Longrightarrow> input_reach (edgeTileTimeout k s)"
| ir_begin: "\<lbrakk>input_reach s; getMoveResizeSurfaceForSeat seat s = None; beginMoveResizeForSeat seat x edges s = Inr t\<rbrakk>
    \<Longrightarrow> input_reach t"
| ir_other: "\<lbrakk>input_reach s; moves t = moves s; edgePreview t = edgePreview s;
    \<And>k. x_delayRunning (seats t k) = x_delayRunning (seats s k)\<rbrakk> \<Longrightarrow> input_reach t"

definition preview_owned :: "'a rstate_scheme \<Rightarrow> bool" where
  "preview_owned s = (edgePreview s = None \<or> (\<exists>k m. moveOf s k = Some m \<and> mr_previewActive m))"

lemma detect_owned:
  assumes "preview_owned s"
  shows "preview_owned (detectEdgeTilingForSeat seat s)"
proof (cases "moveContainerOrDefault seat s")
  case None
  then show ?thesis using assms by (simp add: detectEdgeTilingForSeat_def)
next
  case (Some k)
  then obtain m where m: "moveOf s k = Some m" using container_move by blast
  obtain mode out inner where d: "detectMode s k m = (mode, out, inner)" by (cases "detectMode s k m")
  have hide: "edgePreview (updateEdgeTilePreview TileNone None None u) = None" for u :: "'a rstate_scheme"
    by (simp add: updateEdgeTilePreview_def)
  show ?thesis
    using assms m hide unfolding preview_owned_def
    by (auto simp: detectEdgeTilingForSeat_def Some d Let_def stopEdgeTileDelay_def startEdgeTileDelay_def intro!: exI [of _ k])
qed

lemma timeout_owned: "preview_owned s \<Longrightarrow> preview_owned (edgeTileTimeout k s)"
  by (auto simp: edgeTileTimeout_def preview_owned_def Let_def split: option.split)

lemma kept_owned:
  fixes s t :: "'a rstate_scheme"
  shows "kept s t \<Longrightarrow> preview_owned s \<Longrightarrow> preview_owned t"
  using kept_rframe(2,9) [of s t] by (simp add: preview_owned_def)

lemma event_owned:
  assumes "drag_inv s" "preview_owned s" "filterMoveEvent k ev s = Inr (b, t)"
  shows "preview_owned t"
proof -
  have "preview_owned u" if "doMoveResizeForSeat (Some k) d s = Inr u" for d u
    using that doMoveResize_kept [OF assms(1)] kept_owned [OF _ assms(2)] assms(2)
    by (auto simp: doMoveResizeForSeat_def split: option.splits)
  moreover have "preview_owned u" if "edgePreview u = None" for u :: "'a rstate_scheme" using that by (simp add: preview_owned_def)
  ultimately show ?thesis
    using assms endForSeat_inv(2) [OF assms(1)] cancelForSeat_inv(2) [OF assms(1)]
    by (auto simp: filterMoveEvent_def Let_def rbind_Inr_iff intro!: detect_owned split: option.splits drag_event.splits if_splits)
qed

lemma begin_owned:
  assumes "drag_inv s" "preview_owned s" "getMoveResizeSurfaceForSeat seat s = None" "beginMoveResizeForSeat seat x edges s = Inr t"
  shows "preview_owned t"
proof (cases "edgePreview s = None")
  case True
  then show ?thesis using beginForSeat_inv(2) [OF assms(1,4)] by (simp add: preview_owned_def)
next
  case False
  then obtain j m where m: "moveOf s j = Some m" "mr_previewActive m" using assms(2) by (auto simp: preview_owned_def)
  then have "mr_surface m \<noteq> None" using drag_invD(2) [OF assms(1)] by (auto simp: drag_ok_def)
  then have "moveContainerOrDefault seat s \<noteq> Some j" using assms(3) m(1) by (auto simp: getMoveResizeSurfaceForSeat_def)
  then have "moveOf t j = Some m" using beginForSeat_inv(3) [OF assms(1,4)] m(1) by simp
  then show ?thesis using m(2) by (auto simp: preview_owned_def)
qed

lemma input_reach_owned: "input_reach s \<Longrightarrow> drag_reach s \<and> preview_owned s"
proof (induction rule: input_reach.induct)
  case (ir_start s)
  then show ?case by (simp add: preview_owned_def)
next
  case (ir_event s k ev b t)
  then show ?case using event_owned [OF drag_reach_inv] dr_event by blast
next
  case (ir_timer s k)
  then show ?case using timeout_owned dr_timer by blast
next
  case (ir_begin s seat x edges t)
  then show ?case using begin_owned [OF drag_reach_inv] dr_begin by blast
next
  case (ir_other s t)
  then show ?case using dr_other [of s t] by (simp add: preview_owned_def moveOf_def)
qed


text \<open>When a window goes away while it is moved with a tile previewed, every seat ends its operation on
  the window, and the preview stays on the screen: only the paths through
  \<^verbatim>\<open>endMoveResizeForSeat\<close> and \<^verbatim>\<open>cancelMoveResizeForSeat\<close> hide it.\<close>

theorem preview_outlives_window:
  assumes "drag_reach s" "edgePreview s = Some q" "removeBySubContainer_moves x s = Inr t"
  shows "edgePreview t = Some q \<and> (\<forall>k m. moveOf t k = Some m \<longrightarrow> mr_surface m \<noteq> Some x)"
  using endMovesWhere_done [OF drag_reach_inv [OF assms(1)] assms(3)] assms(2)
    endMovesWhere_inv(2) [OF drag_reach_inv [OF assms(1)] assms(3) [unfolded removeBySubContainer_moves_def]]
  by auto

end
