(* ===== verification/Interactive_Tiling.thy ===== *)
theory Interactive_Tiling
  imports Interactive_Drag Output_Windows
begin

text \<open>
  Where moved windows end: on the screen after a plain move, in the tile under the cursor after a drop at
  an edge, at their first place after a cancelled move, under the cursor when they leave their tile, and
  inside the output they are moved to (src/src/core/rootsurfacecontainer.cpp and
  src/src/surface/seatsurfacemanager.cpp).
\<close>

section \<open>Staying on the screen\<close>

lemma nearestArea_spec:
  assumes "\<forall>a\<in>set as. \<not> isEmptyRect a"
  shows "nearestArea p best as = Inr (Inr ()) \<and> (\<exists>a\<in>set as. r_contains a p)
    \<or> (\<exists>b. nearestArea p best as = Inr (Inl (map_option snd b))
        \<and> (\<forall>a\<in>set as. \<not> r_contains a p) \<and> (b = None \<longleftrightarrow> best = None \<and> as = []) \<and> (\<forall>d t. b = Some (d, t) \<longrightarrow> t \<in> set as \<or> best = Some (d, t)))"
  using assms
proof (induction as arbitrary: best)
  case (Cons a as)
  show ?case
  proof (cases "r_contains a p")
    case True
    then show ?thesis using Cons.prems by simp
  next
    case False
    let ?d = "pointToRectMinDistance p a"
    let ?best = "case best of None \<Rightarrow> Some (?d, a) | Some (b, _) \<Rightarrow> if ?d < b then Some (?d, a) else best"
    have some: "?best = Some (?d, a) \<or> ?best = best \<and> best \<noteq> None" by (auto split: option.split)
    have step: "nearestArea p best (a # as) = nearestArea p ?best as" using False Cons.prems by (simp add: Let_def)
    have rest: "\<forall>a\<in>set as. \<not> isEmptyRect a" using Cons.prems by simp
    show ?thesis using Cons.IH [OF rest, of ?best] some False unfolding step by fastforce
  qed
qed auto

text \<open>A point of the rectangle after the rectangle has moved.\<close>

definition carried :: "qpoint \<Rightarrow> qrect \<Rightarrow> qrect \<Rightarrow> qpoint" where
  "carried p r r' = pt (rx r' + (px p - rx r)) (ry r' + (py p - ry r))"

lemma pt_coords [simp]: "pt (px p) (py p) = p"
  by (simp add: pt_eq_iff)

lemma adjust_visible:
  assumes "r_contains r p" "as \<noteq> []" "\<forall>a\<in>set as. isValidRect a"
  shows "\<exists>r'. adjustRectToMakePointVisible r p as = Inr r' \<and> r_size r' = r_size r
    \<and> (\<exists>a\<in>set as. r_contains a (carried p r r')) \<and> ((\<exists>a\<in>set as. r_contains a p) \<longrightarrow> r' = r)"
proof -
  have ne: "\<forall>a\<in>set as. \<not> isEmptyRect a" using assms(3) by (auto simp: isEmptyRect_def isValidRect_def)
  consider (inside) a where "nearestArea p None as = Inr (Inr ())" "a \<in> set as" "r_contains a p"
    | (out) t where "nearestArea p None as = Inr (Inl (Some t))" "t \<in> set as" "\<forall>a\<in>set as. \<not> r_contains a p"
    using nearestArea_spec [OF ne, of p None] assms(2) by fastforce
  then show ?thesis
  proof cases
    case inside
    then show ?thesis using assms(1) by (auto simp: adjustRectToMakePointVisible_def carried_def)
  next
    case out
    let ?r1 = "if px p < rx t then moveLeft (rx r + rx t - px p) r
               else if px p > r_right t then moveRight (r_right r + r_right t - px p) r else r"
    let ?r2 = "if py p < ry t then moveTop (ry ?r1 + ry t - py p) ?r1
               else if py p > r_bottom t then moveBottom (r_bottom ?r1 + r_bottom t - py p) ?r1 else ?r1"
    have v: "isValidRect t" using out(2) assms(3) by blast
    have adj: "adjustRectToMakePointVisible r p as = Inr ?r2"
      using assms(1) out(1) ne out(2) by (simp add: adjustRectToMakePointVisible_def Let_def)
    have x: "rx ?r2 = rx ?r1" "ry ?r1 = ry r" "rh ?r1 = rh r" "rw ?r1 = rw r" "r_bottom ?r1 = r_bottom r"
      by (simp_all add: moves edge_defs)
    have px: "rx ?r2 + (px p - rx r) = max (rx t) (min (px p) (r_right t))"
      using v unfolding x by (auto simp: moves edge_defs isValidRect_def)
    have py: "ry ?r2 + (py p - ry r) = max (ry t) (min (py p) (r_bottom t))"
      using v x(2,3) by (auto simp: moves edge_defs isValidRect_def)
    have "r_contains t (carried p r ?r2)"
      unfolding contains_valid [OF v] carried_def pt_simps px py using v by (auto simp: edge_defs isValidRect_def)
    moreover have "r_size ?r2 = r_size r" by (simp add: r_size_def moves)
    ultimately show ?thesis using adj out(2,3) by blast
  qed
qed

lemma minScreenX_Some: "rs \<noteq> [] \<Longrightarrow> \<exists>m. minScreenX rs = Some m"
  by (cases rs) (auto simp: minScreenX_def)

lemma mustVisible_inside:
  assumes "isValidRect n"
  shows "r_contains n (mustVisiblePos rs n)"
  unfolding contains_valid [OF assms] using assms by (auto simp: mustVisiblePos_def Let_def isValidRect_def edge_defs split: option.split)

text \<open>The title bar starts at the upper edge of an area it touches.\<close>

definition bar_at_top :: "qrect \<Rightarrow> qrect \<Rightarrow> bool" where
  "bar_at_top a bar = (\<not> isEmptyRect (r_inter a bar) \<and> r_top bar = r_top a)"

lemma lowerTitlebar_spec:
  assumes "\<forall>a\<in>set rs. isValidRect a" "isValidRect bar" "translated (topLeft n) b = bar"
  shows "r_size (lowerTitlebar bar rs n) = r_size n
    \<and> (lowerTitlebar bar rs n = n \<or> (\<exists>a\<in>set rs. bar_at_top a (translated (topLeft (lowerTitlebar bar rs n)) b)))"
  using assms(1)
proof (induction rs)
  case (Cons a rs)
  show ?case
  proof (cases "\<not> isEmptyRect (r_inter a bar) \<and> r_top bar < r_top a")
    case True
    let ?n = "moveTop (r_top n + r_top a - r_top bar) n"
    have e: "lowerTitlebar bar (a # rs) n = ?n" using True by simp
    have a: "isValidRect a" using Cons.prems by simp
    define q where "q = translated (topLeft ?n) b"
    have c: "rx q = rx bar" "ry q = ry a" "rw q = rw bar" "rh q = rh bar"
      unfolding q_def assms(3) [symmetric] by (simp_all add: moves topLeft_def edge_defs)
    then have v: "isValidRect q" using assms(2) by (simp add: isValidRect_def)
    have "bar_at_top a q"
      using True a assms(2) unfolding bar_at_top_def inter_empty_valid [OF a assms(2)] inter_empty_valid [OF a v]
      by (simp add: edge_defs c isValidRect_def)
    then have "bar_at_top a (translated (topLeft ?n) b)" by (simp add: q_def)
    then show ?thesis unfolding e by (auto simp: r_size_def moves)
  next
    case False
    then have "lowerTitlebar bar (a # rs) n = lowerTitlebar bar rs n" by auto
    then show ?thesis using Cons by auto
  qed
qed simp


text \<open>A window that is reachable: the point that must be visible is in an area, and no area that the title
  bar touches begins below it.\<close>

definition in_reach :: "qrect list \<Rightarrow> qrect \<Rightarrow> qrect \<Rightarrow> bool" where
  "in_reach areas b n = ((\<exists>a\<in>set areas. r_contains a (mustVisiblePos areas n))
     \<and> (\<forall>a\<in>set areas. \<not> isEmptyRect (r_inter a (translated (topLeft n) b)) \<longrightarrow> r_top a \<le> r_top (translated (topLeft n) b)))"

lemma lowerTitlebar_keeps:
  "\<forall>a\<in>set rs. \<not> isEmptyRect (r_inter a bar) \<longrightarrow> r_top a \<le> r_top bar \<Longrightarrow> lowerTitlebar bar rs n = n"
  by (induction rs) auto

lemma ensure_moves:
  assumes "sw_type (wrappers s x) \<noteq> Layer" "sw_ownsOutput (wrappers s x) = Some j"
    "isValidRect (normalGeometry (geo s x))" "rootOutputs s \<noteq> []" "\<forall>j\<in>set (rootOutputs s). isValidRect (validGeometry s j)"
  defines "n \<equiv> normalGeometry (geo s x)"
  defines "areas \<equiv> map (validGeometry s) (rootOutputs s)"
  shows "\<exists>r. ensureSurfaceNormalPositionValid x s = moveNormalGeometryInOutput x (topLeft r) s \<and> r_size r = r_size n
    \<and> ((\<exists>a\<in>set areas. r_contains a (carried (mustVisiblePos areas n) n r))
       \<or> (\<exists>a\<in>set areas. bar_at_top a (translated (topLeft r) (titlebarGeometry s x))))
    \<and> (in_reach areas (titlebarGeometry s x) n \<longrightarrow> r = n)"
proof -
  have as: "areas \<noteq> []" "\<forall>a\<in>set areas. isValidRect a" using assms(4,5) by (auto simp: areas_def)
  have ne: "\<not> isEmptyRect n" using assms(3) by (auto simp: isEmptyRect_def isValidRect_def n_def)
  obtain r1 where r1: "adjustRectToMakePointVisible n (mustVisiblePos areas n) areas = Inr r1" "r_size r1 = r_size n"
    "\<exists>a\<in>set areas. r_contains a (carried (mustVisiblePos areas n) n r1)"
    "(\<exists>a\<in>set areas. r_contains a (mustVisiblePos areas n)) \<longrightarrow> r1 = n"
    using adjust_visible [OF mustVisible_inside as] assms(3) unfolding n_def by blast
  let ?bar = "translated (topLeft r1) (titlebarGeometry s x)"
  define r where "r = (if isValidRect ?bar then lowerTitlebar ?bar areas r1 else r1)"
  have r: "r_size r = r_size n \<and> (r = r1 \<or> (\<exists>a\<in>set areas. bar_at_top a (translated (topLeft r) (titlebarGeometry s x))))"
    using lowerTitlebar_spec [OF as(2) _ refl, of r1 "titlebarGeometry s x"] r1(2) by (simp add: r_def)
  have stay: "r = n" if "in_reach areas (titlebarGeometry s x) n"
  proof -
    have "r1 = n" using that r1(4) by (simp add: in_reach_def)
    then show ?thesis using that lowerTitlebar_keeps [of areas ?bar r1] by (simp add: r_def in_reach_def)
  qed
  have "ensureSurfaceNormalPositionValid x s = moveNormalGeometryInOutput x (topLeft r) s"
    using r1(1) ne assms(1,2) unfolding ensureSurfaceNormalPositionValid_def Let_def areas_def [symmetric] n_def [symmetric] r_def
    by simp
  then show ?thesis using r r1(3) stay by (intro exI [of _ r]) auto
qed


section \<open>Dropping a window at an edge\<close>

text \<open>The state in which an ended operation leaves its window to what follows.\<close>

definition released :: "nat \<Rightarrow> sid \<Rightarrow> 'a rstate_scheme \<Rightarrow> 'a rstate_scheme" where
  "released k x s =
     (let s = mod_move idleMove k (stopEdgeTileDelay k s) in
      if sw_shellSurface (wrappers s x) \<and> shellInitialized (geo s x)
      then mod_geo (\<lambda>g. g\<lparr>xwaylandPositionFromSurface := True\<rparr>) x (ask (SetResizeing x False) s) else s)"

lemma endMoveResize_released:
  assumes "moveOf s k = Some m" "mr_surface m = Some x"
  shows "endMoveResize k s = rbind (if \<not> mr_previewActive m \<or> mr_tileMode m = TileNone then ensureSurfaceNormalPositionValid x (released k x s)
      else applyTileMode x (mr_tileMode m) (cursorOutput (released k x s) k) (released k x s))
      (\<lambda>s. Inr (s\<lparr>moveResizeFinished := moveResizeFinished s @ [x]\<rparr>))"
proof -
  have stop: "moveOf (stopEdgeTileDelay k s) = moveOf s" by (simp add: stopEdgeTileDelay_def)
  show ?thesis unfolding endMoveResize_def Let_def stop assms(1) option.case assms(2) released_def ..
qed

lemma released_kept: "kept (mod_move idleMove k (stopEdgeTileDelay k s)) (released k x s)"
  by (simp add: released_def Let_def kept_trans [OF kept_steps(2) kept_steps(1)])

lemma tiles_cong:
  assumes "outs t = outs s"
  shows "validGeometry t = validGeometry s" "tileGeometry t = tileGeometry s"
proof -
  show v: "validGeometry t = validGeometry s" using assms by (simp add: fun_eq_iff validGeometry_def out_geometry_def)
  show "tileGeometry t = tileGeometry s" by (simp add: fun_eq_iff tileGeometry_def v)
qed

lemma released_facts [simp]:
  "wrappers (released k x s) = wrappers s" "moveOf (released k x s) j = (if j = k then map_option idleMove (moveOf s k) else moveOf s j)"
  "outs (released k x s) = outs s" "cursorOutput (released k x s) = cursorOutput s" "tileGeometry (released k x s) = tileGeometry s"
  "validGeometry (released k x s) = validGeometry s" "rootOutputs (released k x s) = rootOutputs s"
  "edgePreview (released k x s) = edgePreview s" "alignToPixelGrid (released k x s) = alignToPixelGrid s"
  "titlebarGeometry (released k x s) = titlebarGeometry s"
proof -
  let ?u = "mod_move idleMove k (stopEdgeTileDelay k s)"
  note r = kept_rframe [OF released_kept, of k x s]
  have u: "outs ?u = outs s" "rootOutputs ?u = rootOutputs s" "edgePreview ?u = edgePreview s" "cursorOutput ?u = cursorOutput s"
    by (simp_all add: mod_move_def stopEdgeTileDelay_def mod_seat_extra_def cursorOutput_def fun_eq_iff cong: option.case_cong)
  show outs: "outs (released k x s) = outs s" and "cursorOutput (released k x s) = cursorOutput s"
    "rootOutputs (released k x s) = rootOutputs s" "edgePreview (released k x s) = edgePreview s"
    by (simp_all only: r u)
  show "moveOf (released k x s) j = (if j = k then map_option idleMove (moveOf s k) else moveOf s j)"
    using r(9) by (simp add: stopEdgeTileDelay_def)
  show "tileGeometry (released k x s) = tileGeometry s" "validGeometry (released k x s) = validGeometry s"
    using tiles_cong [OF outs] by simp_all
  show "alignToPixelGrid (released k x s) = alignToPixelGrid s"
    by (rule ext, rule align_cong)
      (simp_all add: released_def Let_def mod_geo_def ask_def mod_move_def stopEdgeTileDelay_def mod_seat_extra_def)
qed (simp_all add: released_def Let_def mod_geo_def ask_def mod_move_def stopEdgeTileDelay_def mod_seat_extra_def fun_eq_iff
    titlebarGeometry_def)

lemma released_geo:
  "geo (released k x s) x = (geo s x)\<lparr>xwaylandPositionFromSurface := xwaylandPositionFromSurface (geo (released k x s) x)\<rparr>"
  by (simp add: released_def Let_def mod_geo_def ask_def mod_move_def stopEdgeTileDelay_def mod_seat_extra_def)

lemma released_fields [simp]:
  "surfaceState (geo (released k x s) x) = surfaceState (geo s x)" "previousSurfaceState (geo (released k x s) x) = previousSurfaceState (geo s x)"
  "appliedSurfaceState (geo (released k x s) x) = appliedSurfaceState (geo s x)"
  "geometryAnimation (geo (released k x s) x) = geometryAnimation (geo s x)" "geometry (geo (released k x s) x) = geometry (geo s x)"
  "normalGeometry (geo (released k x s) x) = normalGeometry (geo s x)" "maximizable (geo (released k x s) x) = maximizable (geo s x)"
  "resizable (geo (released k x s) x) = resizable (geo s x)"
  by (subst released_geo, simp)+

lemma released_requests:
  "requests (released k x s) = requests s @ (if sw_shellSurface (wrappers s x) \<and> shellInitialized (geo s x) then [SetResizeing x False] else [])"
  by (simp add: released_def Let_def mod_geo_def ask_def mod_move_def stopEdgeTileDelay_def mod_seat_extra_def)

lemma released_ok:
  assumes "drag_inv s" "moveOf s k = Some m" "states_ok s x"
  shows "states_ok (released k x s) x" "drag_inv (released k x s)"
proof -
  show d: "drag_inv (released k x s)"
    using drag_inv_kept [OF drag_inv_renewed [OF drag_inv_others [OF assms(1)], of idleMove k "\<lambda>e. e\<lparr>x_delayRunning := False\<rparr>"]
        released_kept [unfolded stopEdgeTileDelay_def]] idleMove_ok
    by (simp add: idleMove_def)
  have "informed (released k x s) x = informed s x"
    by (simp add: informed_def released_requests)
  moreover have "alive (released k x s) x = alive s x" by (simp add: alive_def aboutToRemove_def)
  ultimately show "states_ok (released k x s) x"
    using assms(3) drag_invD(1) [OF d] by (simp add: states_ok_def)
qed

text \<open>Taking the geometry of a tile, and the state.\<close>

lemma setTilingGeometry_ok:
  assumes "states_ok s x"
  shows "\<exists>t. setTilingGeometry x q s = Inr t \<and> states_ok t x \<and> tilingGeometry (geo t x) = q
    \<and> surfaceState (geo t x) = surfaceState (geo s x) \<and> wrappers t = wrappers s \<and> moves t = moves s"
proof (cases "tilingGeometry (geo s x) = q")
  case True
  then show ?thesis using assms by (simp add: setTilingGeometry_def)
next
  case False
  let ?u = "mod_geo (\<lambda>g. g\<lparr>tilingGeometry := q\<rparr>) x s"
  have alive: "\<not> aboutToRemove s x" using assms by (simp add: states_ok_def alive_def)
  have u: "states_ok ?u x" "surfaceState (geo ?u x) = surfaceState (geo s x)" "tilingGeometry (geo ?u x) = q" "moves ?u = moves s"
    using assms by (simp_all add: states_ok_def alive_def aboutToRemove_def informed_def) (simp_all add: mod_geo_def)
  show ?thesis
  proof (cases "surfaceState (geo s x) = Tiling")
    case True
    obtain v where v: "setPosition x (topLeft q) ?u = Inr v" "geometry_only x ?u v"
      using setPosition_spec [OF states_okD(1) [OF u(1)]] by blast
    let ?t = "snd (resize x (r_size q) False v)"
    have t: "geometry_only x ?u ?t" by (rule geometry_only_trans [OF v(2) geometry_only_steps(3)])
    have "setTilingGeometry x q s = Inr ?t"
      using False True alive v(1) u(2) by (simp add: setTilingGeometry_def place_at_def Let_def)
    then show ?thesis using states_ok_geometry [OF u(1) t] geometry_only_frame [OF t] u by auto
  next
    case other: False
    then have "setTilingGeometry x q s = Inr ?u" using False alive u(2) by (simp add: setTilingGeometry_def Let_def)
    then show ?thesis using u by simp
  qed
qed

lemma tile_taken:
  assumes "states_ok s x" "sw_container (wrappers s x) \<noteq> None" "\<not> sw_isSnapMask (wrappers s x)" "\<not> stateChangeFiltered s x"
    "mode \<noteq> TileNone" "mode \<noteq> TileMaximize" "supportsTileMode (geo s x) mode" "isValidRect (tileGeometry s j mode)"
  shows "\<exists>t. applyTileMode x mode (Some j) s = Inr t \<and> states_ok t x \<and> surfaceState (geo t x) = Tiling
    \<and> tilingGeometry (geo t x) = tileGeometry s j mode"
proof -
  obtain u where u: "setTilingGeometry x (tileGeometry s j mode) s = Inr u" "states_ok u x" "tilingGeometry (geo u x) = tileGeometry s j mode"
    "wrappers u = wrappers s" "moves u = moves s"
    using setTilingGeometry_ok [OF assms(1)] by blast
  have app: "applyTileMode x mode (Some j) s = setSurfaceState x Tiling u"
    using assms(5-8) u(1) by (simp add: applyTileMode_def Let_def)
  show ?thesis
  proof (cases "surfaceState (geo u x) = Tiling")
    case True
    then show ?thesis using app u by (simp add: setSurfaceState_def checkSetSurfaceState_def)
  next
    case False
    have "checkSetSurfaceState u x Tiling True"
      using False u assms(2-4) by (auto simp: checkSetSurfaceState_def states_ok_def alive_def stateChangeFiltered_def)
    then obtain t where "setSurfaceState x Tiling u = Inr t" "states_ok t x" "surfaceState (geo t x) = Tiling"
      "fixed_parts t x = fixed_parts u x"
      using setSurfaceState_frame [OF u(2)] by metis
    then show ?thesis using app u(3) fixed_partsD(6) by metis
  qed
qed

lemma filtered_moves: "distinct (map fst (moves s)) \<Longrightarrow> stateChangeFiltered s x = (\<exists>k m. moveOf s k = Some m \<and> mr_surface m = Some x \<and> mr_edges m \<noteq> {})"
  by (auto simp: stateChangeFiltered_def moveOf_def)

lemma tile_valid: "isValidRect (validGeometry s j) \<Longrightarrow> mode \<noteq> TileNone \<Longrightarrow> isValidRect (tileGeometry s j mode)"
  by (cases mode) (simp_all add: tileGeometry_def Let_def isValidRect_def)

lemma free_seat:
  assumes "\<And>m. moveOf s k = Some m \<Longrightarrow> mr_surface m = None"
  shows "getMoveResizeSurfaceForSeat (Some k) s = None"
  using assms by (auto simp: getMoveResizeSurfaceForSeat_def moveContainerOrDefault_def split: option.split)

lemma release_unresized:
  assumes "drag_inv s" "moveOf s k = Some m" "states_ok s x"
    and "\<And>i m'. moveOf s i = Some m' \<Longrightarrow> mr_surface m' = Some x \<Longrightarrow> mr_edges m' = {}"
  shows "\<not> stateChangeFiltered (released k x s) x"
proof -
  have "moves_idle (released k x s)" by (rule drag_invD(1) [OF released_ok(2) [OF assms(1-3)]])
  then have "distinct (map fst (moves (released k x s)))" by (simp add: moves_idle_def)
  then show ?thesis using assms(4) by (auto simp: filtered_moves idleMove_def split: if_splits)
qed

lemma end_takes_tile:
  assumes "drag_inv s" "moveOf s k = Some m" "mr_surface m = Some x" "mr_previewActive m" "mr_tileMode m \<noteq> TileMaximize"
    and "states_ok s x" "sw_container (wrappers s x) \<noteq> None" "\<not> sw_isSnapMask (wrappers s x)"
    and "\<forall>i m'. moveOf s i = Some m' \<and> mr_surface m' = Some x \<longrightarrow> mr_edges m' = {}"
    and "supportsTileMode (geo s x) (mr_tileMode m)" "cursorOutput s k = Some j" "isValidRect (validGeometry s j)"
  shows "\<exists>t. endMoveResize k s = Inr t \<and> surfaceState (geo t x) = Tiling \<and> tilingGeometry (geo t x) = tileGeometry s j (mr_tileMode m)"
proof -
  let ?u = "released k x s"
  have mode: "mr_tileMode m \<noteq> TileNone" using drag_invD(2) [OF assms(1,2)] assms(4) by (auto simp: drag_ok_def)
  have "supportsTileMode (geo ?u x) (mr_tileMode m)" using assms(10) by (cases "mr_tileMode m") (simp_all add: supportsTileMode_def)
  then obtain v where v: "applyTileMode x (mr_tileMode m) (Some j) ?u = Inr v" "surfaceState (geo v x) = Tiling"
    "tilingGeometry (geo v x) = tileGeometry ?u j (mr_tileMode m)"
    using tile_taken [OF released_ok(1) [OF assms(1,2,6)] _ _ release_unresized [OF assms(1,2,6)] mode assms(5), of j] assms(7-9,12)
      tile_valid [OF _ mode, of ?u j] by auto
  then have "endMoveResize k s = Inr (v\<lparr>moveResizeFinished := moveResizeFinished v @ [x]\<rparr>)"
    using assms(4,11) mode by (simp add: endMoveResize_released [OF assms(2,3)])
  then show ?thesis using v(2,3) by simp
qed

text \<open>C12: Releasing the button over a detected edge puts the window into the tile under the cursor: the window
  is tiled, with the half or the quarter of the usable area of the cursor's output that the edge stands for, the
  preview is gone and the seat is free again.\<close>

theorem drop_takes_tile:
  assumes "drag_reach s" "moveOf s k = Some m" "mr_surface m = Some x" "mr_previewActive m" "mr_tileMode m \<noteq> TileMaximize"
    and "states_ok s x" "sw_container (wrappers s x) \<noteq> None" "\<not> sw_isSnapMask (wrappers s x)"
    and "\<forall>i m'. moveOf s i = Some m' \<and> mr_surface m' = Some x \<longrightarrow> mr_edges m' = {}"
    and "supportsTileMode (geo s x) (mr_tileMode m)" "cursorOutput s k = Some j" "isValidRect (validGeometry s j)"
  shows "\<exists>t. filterMoveEvent k DragRelease s = Inr (False, t) \<and> surfaceState (geo t x) = Tiling
    \<and> tilingGeometry (geo t x) = tileGeometry s j (mr_tileMode m) \<and> edgePreview t = None
    \<and> getMoveResizeSurfaceForSeat (Some k) t = None"
proof -
  note inv = drag_reach_inv [OF assms(1)]
  obtain v where v: "endMoveResize k s = Inr v" "surfaceState (geo v x) = Tiling" "tilingGeometry (geo v x) = tileGeometry s j (mr_tileMode m)"
    using end_takes_tile [OF inv assms(2-12)] by blast
  let ?t = "updateEdgeTilePreview TileNone None None v"
  have "filterMoveEvent k DragRelease s = Inr (False, ?t)"
    using v(1) assms(2,3) by (simp add: filterMoveEvent_def endMoveResizeForSeat_def moveContainerOrDefault_def)
  moreover have "edgePreview ?t = None" "geo ?t = geo v" by (simp_all add: updateEdgeTilePreview_def)
  moreover have "getMoveResizeSurfaceForSeat (Some k) ?t = None" by (rule free_seat) (use endMoveResize_inv(2) [OF inv v(1)] in simp)
  ultimately show ?thesis using v(2,3) by (intro exI [of _ ?t]) simp
qed

section \<open>Cancelling a move\<close>

text \<open>Motions of the cursor, and the delay at inner borders running out.\<close>

inductive drags :: "nat \<Rightarrow> rstate \<Rightarrow> rstate \<Rightarrow> bool" for k s where
  drags_start: "drags k s s"
| drags_motion: "\<lbrakk>drags k s t; filterMoveEvent k (DragMotion p) t = Inr (b, u)\<rbrakk> \<Longrightarrow> drags k s u"
| drags_timer: "\<lbrakk>drags k s t; x_delayRunning (seats t k)\<rbrakk> \<Longrightarrow> drags k s (edgeTileTimeout k t)"

text \<open>What they leave: the operation, and of the window all but its place.\<close>

definition being_moved :: "nat \<Rightarrow> sid \<Rightarrow> rstate \<Rightarrow> rstate \<Rightarrow> bool" where
  "being_moved k x s t =
     (moves_idle t \<and> (\<exists>m. moveOf t k = Some m \<and> mr_surface m = Some x \<and> mr_edges m = {}
        \<and> mr_startGeometry m = geometry (geo s x))
      \<and> resizer t x = None \<and> wrappers t = wrappers s \<and> outs t = outs s \<and> rootOutputs t = rootOutputs s
      \<and> alignToPixelGrid t x = alignToPixelGrid s x \<and> titlebarGeometry t x = titlebarGeometry s x
      \<and> shouldUpdateNormalGeometry t x = shouldUpdateNormalGeometry s x
      \<and> surfaceState (geo t x) = Normal \<and> geometryAnimation (geo t x) = None
      \<and> r_size (geometry (geo t x)) = r_size (geometry (geo s x))
      \<and> normalGeometry (geo t x) = (if shouldUpdateNormalGeometry s x then geometry (geo t x) else geometry (geo s x)))"

lemma shouldUpdate_cong:
  assumes "geometry_only x s t"
  shows "shouldUpdateNormalGeometry t x = shouldUpdateNormalGeometry s x"
  using assms by (auto simp: geometry_only_def shouldUpdateNormalGeometry_def Let_def)

lemma geometry_only_align: "geometry_only x s t \<Longrightarrow> alignToPixelGrid t x = alignToPixelGrid s x"
  by (rule align_cong) (simp_all add: geometry_only_frame)

lemma r_size_moved [simp]: "r_size (moveTopLeft p r) = r_size r"
  by (simp add: r_size_def moveTopLeft_def)

lemma moved_being_moved:
  assumes "being_moved k x s t" "setPosition x p t = Inr u"
  shows "being_moved k x s u" "geometry (geo u x) = rect p (r_size (geometry (geo s x)))"
proof -
  have t: "moves_idle t" "resizer t x = None" using assms(1) by (simp_all add: being_moved_def)
  have g: "geometry_only x t u" "geometry (geo u x) = (if topLeft (geometry (geo t x)) = p then geometry (geo t x)
      else moveTopLeft p (geometry (geo t x)))"
    "normalGeometry (geo u x) = (if topLeft (geometry (geo t x)) \<noteq> p \<and> shouldUpdateNormalGeometry t x
         then moveTopLeft p (geometry (geo t x)) else normalGeometry (geo t x))"
    using setPosition_spec [OF t(1), of x p] assms(2) by (auto simp: settled_free [OF t(2)])
  have k: "kept t u" by (rule geometry_only_kept [OF g(1)])
  have size: "geometry (geo u x) = rect p (r_size (geometry (geo t x)))" using g(2) by (auto simp: rect_move)
  then show "geometry (geo u x) = rect p (r_size (geometry (geo s x)))" using assms(1) by (simp add: being_moved_def)
  have "titlebarGeometry u x = titlebarGeometry t x" "resizer u x = resizer t x"
    using geometry_only_frame(2,21) [OF g(1)] by (simp_all add: titlebarGeometry_def resizer_def)
  then show "being_moved k x s u"
    using assms(1) g(2,3) size kept_rframe(3,4,9) [OF k] kept_idle [OF k] shouldUpdate_cong [OF g(1)]
      geometry_only_align [OF g(1)] geometry_only_frame(1,9,12) [OF g(1)]
    unfolding being_moved_def by auto
qed

text \<open>Steps on the seat's own state do not matter, as long as they keep the operation.\<close>

definition same_operation :: "move_resize \<Rightarrow> move_resize \<Rightarrow> bool" where
  "same_operation m m' = (mr_surface m' = mr_surface m \<and> mr_edges m' = mr_edges m \<and> mr_startGeometry m' = mr_startGeometry m)"

definition same_windows :: "'a rstate_scheme \<Rightarrow> 'a rstate_scheme \<Rightarrow> bool" where
  "same_windows s t = (geo t = geo s \<and> wrappers t = wrappers s \<and> outs t = outs s \<and> rootOutputs t = rootOutputs s
     \<and> outputScale t = outputScale s \<and> outputEnabled t = outputEnabled s \<and> outputPlace t = outputPlace s \<and> windowDpr t = windowDpr s
     \<and> (\<forall>i. rel_option same_operation (moveOf s i) (moveOf t i)))"

lemma same_windows_refl [simp, intro]: "same_windows s s"
  by (simp add: same_windows_def option.rel_refl same_operation_def)

lemma same_windows_trans:
  assumes "same_windows s t" "same_windows t u"
  shows "same_windows s u"
proof -
  have "rel_option same_operation (moveOf s i) (moveOf u i)" for i
    using assms by (cases "moveOf s i"; cases "moveOf t i"; cases "moveOf u i"; simp add: same_windows_def; metis option.rel_inject(2) option.rel_distinct same_operation_def)
  then show ?thesis using assms by (simp add: same_windows_def)
qed

lemma same_windows_steps:
  "(\<And>m. same_operation m (f m)) \<Longrightarrow> same_windows s (mod_move f k s)"
  "same_windows s (mod_seat_extra g k s)" "same_windows s (updateEdgeTilePreview mode out seat s)"
proof -
  have r: "rel_option same_operation q q" for q by (simp add: option.rel_refl same_operation_def)
  show "same_windows s (mod_seat_extra g k s)" "same_windows s (updateEdgeTilePreview mode out seat s)"
    by (auto simp: same_windows_def r) (auto simp: mod_seat_extra_def updateEdgeTilePreview_def Let_def split: option.split)
  assume "\<And>m. same_operation m (f m)"
  then have "rel_option same_operation q (map_option f q)" for q by (cases q) simp_all
  then show "same_windows s (mod_move f k s)" by (simp add: same_windows_def r) (simp add: mod_move_def)
qed

lemma being_moved_same:
  assumes "being_moved k x s t" "same_windows t u" "moves_idle u"
  shows "being_moved k x s u"
proof -
  have al: "alignToPixelGrid u x = alignToPixelGrid t x" using assms(2) by (intro align_cong) (simp_all add: same_windows_def)
  have free: "resizer v x = None \<longleftrightarrow> (\<forall>i m. moveOf v i = Some m \<longrightarrow> mr_surface m = Some x \<longrightarrow> mr_edges m = {})"
    if "moves_idle v" for v :: rstate
    using that by (auto simp: resizer_def find_None_iff resizing_def moveOf_def moves_idle_def)
  have op: "\<exists>m. moveOf t i = Some m \<and> same_operation m m'" if "moveOf u i = Some m'" for i m'
    using assms(2) that by (cases "moveOf t i") (auto simp: same_windows_def dest: spec [of _ i])
  have "resizer u x = None"
    using assms(1) op unfolding free [OF assms(3)] by (fastforce simp: being_moved_def free same_operation_def)
  moreover obtain m where m: "moveOf t k = Some m" "mr_surface m = Some x" "mr_edges m = {}" "mr_startGeometry m = geometry (geo s x)"
    using assms(1) by (auto simp: being_moved_def)
  then obtain m' where "moveOf u k = Some m'" "same_operation m m'"
    using assms(2) by (cases "moveOf u k") (auto simp: same_windows_def dest: spec [of _ k])
  moreover have "titlebarGeometry u x = titlebarGeometry t x" "shouldUpdateNormalGeometry u x = shouldUpdateNormalGeometry t x"
    using assms(2) by (simp_all add: same_windows_def titlebarGeometry_def shouldUpdateNormalGeometry_def)
  ultimately show ?thesis using assms(1,2) m al assms(3)
    unfolding being_moved_def same_windows_def same_operation_def by auto
qed

lemma detect_same: "same_windows s (detectEdgeTilingForSeat seat s)"
proof -
  have op: "same_operation m (m\<lparr>mr_tileMode := a, mr_innerBorder := b, mr_tileOutput := c\<rparr>)" "same_operation m (m\<lparr>mr_previewActive := d\<rparr>)"
    for m a b c d by (simp_all add: same_operation_def)
  note s = same_windows_steps(1) [of "\<lambda>m. m\<lparr>mr_tileMode := _, mr_innerBorder := _, mr_tileOutput := _\<rparr>", OF op(1)]
    same_windows_steps(1) [of "\<lambda>m. m\<lparr>mr_previewActive := _\<rparr>", OF op(2)] same_windows_steps(2,3)
  show ?thesis
    unfolding detectEdgeTilingForSeat_def stopEdgeTileDelay_def startEdgeTileDelay_def Let_def
    by (auto split: option.split prod.split intro!: s intro: same_windows_trans [OF _ s(1)] same_windows_trans [OF _ s(2)]
        same_windows_trans [OF _ s(3)] same_windows_trans [OF _ s(4)])
qed

lemma timeout_same: "same_windows s (edgeTileTimeout k s)"
proof -
  have op: "same_operation m (m\<lparr>mr_previewActive := d\<rparr>)" for m d by (simp add: same_operation_def)
  note s = same_windows_steps(1) [of "\<lambda>m. m\<lparr>mr_previewActive := _\<rparr>", OF op] same_windows_steps(2,3)
  show ?thesis
    unfolding edgeTileTimeout_def Let_def
    by (auto split: option.split intro!: s intro: same_windows_trans [OF _ s(1)] same_windows_trans [OF _ s(2)] same_windows_trans [OF _ s(3)])
qed

lemma motion_moved:
  assumes "being_moved k x s t" "sw_ownsOutput (wrappers s x) \<noteq> None" "drag_inv t" "filterMoveEvent k (DragMotion p) t = Inr (b, u)"
  shows "being_moved k x s u"
proof -
  obtain m where m: "moveOf t k = Some m" "mr_surface m = Some x" "mr_edges m = {}" using assms(1) by (auto simp: being_moved_def)
  have w: "wrappers t = wrappers s" using assms(1) by (simp add: being_moved_def)
  obtain v q where v: "setPosition x q t = Inr v" "u = detectEdgeTilingForSeat (Some k) v"
    using assms(2,4) m w by (auto simp: filterMoveEvent_def doMoveResizeForSeat_def moveContainerOrDefault_def doMoveResize_def Let_def rbind_Inr_iff)
  have "being_moved k x s v" by (rule moved_being_moved(1) [OF assms(1) v(1)])
  moreover have "drag_inv u" by (rule filterMoveEvent_inv [OF assms(3,4)])
  ultimately show ?thesis using being_moved_same detect_same v(2) drag_invD(1) by blast
qed

lemma drags_moved:
  assumes "drags k s t" "being_moved k x s s" "sw_ownsOutput (wrappers s x) \<noteq> None" "drag_inv s"
  shows "being_moved k x s t \<and> drag_inv t"
  using assms(1)
proof (induction rule: drags.induct)
  case (drags_motion t p b u)
  then show ?case using motion_moved [OF _ assms(3)] filterMoveEvent_inv by blast
next
  case (drags_timer t)
  then show ?case using being_moved_same [OF _ timeout_same] timeout_inv drag_invD(1) by blast
qed (simp add: assms)

lemma stays_put:
  assumes "surfaceState (geo s x) = Normal" "geometryAnimation (geo s x) = None" "geometry (geo s x) = n"
    "normalGeometry (geo s x) = n" "alignToPixelGrid s x (topLeft n) = topLeft n"
  shows "moveNormalGeometryInOutput x (topLeft n) s = Inr s"
proof -
  have "setNormalGeometry x n s = s" using assms(4) by (simp add: setNormalGeometry_def mod_geo_def fun_upd_idem)
  then show ?thesis using assms by (simp add: moveNormalGeometryInOutput_def setPosition_def setPosition_with_def Let_def)
qed

text \<open>The escape key, wherever the window has been moved to.\<close>

lemma escape_restores:
  fixes s t :: rstate and x :: sid
  defines "g \<equiv> geometry (geo s x)"
  assumes "being_moved k x s t" "drag_inv t" "alignToPixelGrid s x (topLeft g) = topLeft g" "isValidRect g"
    "in_reach (map (validGeometry s) (rootOutputs s)) (titlebarGeometry s x) g"
    "sw_type (wrappers s x) \<noteq> Layer" "sw_ownsOutput (wrappers s x) = Some j" "rootOutputs s \<noteq> []"
    "\<forall>j\<in>set (rootOutputs s). isValidRect (validGeometry s j)"
  shows "\<exists>u. filterMoveEvent k DragEscape t = Inr (True, u) \<and> geometry (geo u x) = g \<and> normalGeometry (geo u x) = g
    \<and> surfaceState (geo u x) = Normal \<and> getMoveResizeSurfaceForSeat (Some k) u = None \<and> edgePreview u = None"
proof -
  obtain m where m: "moveOf t k = Some m" "mr_surface m = Some x" "mr_edges m = {}" "mr_startGeometry m = g"
    using assms(2) by (auto simp: being_moved_def g_def)
  let ?f = "\<lambda>m. m\<lparr>mr_tileMode := TileNone, mr_tileOutput := None, mr_previewActive := False, mr_innerBorder := False\<rparr>"
  have "same_windows t (mod_move ?f k t)" by (rule same_windows_steps(1)) (simp add: same_operation_def)
  moreover have "moves_idle (mod_move ?f k t)" by (rule moves_idle_mod_move [OF drag_invD(1) [OF assms(3)]]) simp
  ultimately have f: "being_moved k x s (mod_move ?f k t)" using being_moved_same [OF assms(2)] by blast
  have al: "alignToPixelGrid (mod_move ?f k t) x (topLeft g) = topLeft g" using f assms(4) by (simp add: being_moved_def g_def)
  obtain v where v: "setPosition x (topLeft g) (mod_move ?f k t) = Inr v"
    using setPosition_spec [of "mod_move ?f k t" x "topLeft g"] f unfolding being_moved_def by blast
  note v1 = moved_being_moved [OF f v]
  have geo_v: "geometry (geo v x) = g" "normalGeometry (geo v x) = g" using v1 by (simp_all add: g_def being_moved_def)
  have "kept (mod_move ?f k t) v" by (rule setPosition_kept [OF _ v]) (use f in \<open>simp add: being_moved_def\<close>)
  then have mv: "moveOf v k = Some (?f m)" using m(1) by (simp add: kept_rframe(9))
  let ?w = "released k x v"
  have w: "wrappers v = wrappers s" "outs v = outs s" "rootOutputs v = rootOutputs s" "titlebarGeometry v x = titlebarGeometry s x"
    "alignToPixelGrid v x = alignToPixelGrid s x" "surfaceState (geo v x) = Normal" "geometryAnimation (geo v x) = None"
    using v1(1) by (simp_all add: being_moved_def)
  have areas: "validGeometry ?w = validGeometry s" using tiles_cong(1) [OF w(2)] by simp
  have h: "sw_type (wrappers ?w x) \<noteq> Layer" "sw_ownsOutput (wrappers ?w x) = Some j" "isValidRect (normalGeometry (geo ?w x))"
    "rootOutputs ?w \<noteq> []" "\<forall>j\<in>set (rootOutputs ?w). isValidRect (validGeometry ?w j)"
    using assms(5,7-10) by (simp_all only: released_facts released_fields w geo_v tiles_cong(1) [OF w(2)] not_False_eq_True)
  have "in_reach (map (validGeometry ?w) (rootOutputs ?w)) (titlebarGeometry ?w x) (normalGeometry (geo ?w x))"
    using assms(6) by (simp only: released_facts released_fields w geo_v tiles_cong(1) [OF w(2)])
  then have "ensureSurfaceNormalPositionValid x ?w = moveNormalGeometryInOutput x (topLeft g) ?w"
    using ensure_moves [OF h] unfolding released_fields geo_v by blast
  moreover have "moveNormalGeometryInOutput x (topLeft g) ?w = Inr ?w"
    using stays_put [of ?w x g] geo_v w assms(4) by (simp add: g_def)
  ultimately have stay: "ensureSurfaceNormalPositionValid x ?w = Inr ?w" by simp
  have sx: "mr_surface (?f m) = Some x" using m(2) by simp
  have "endMoveResize k v = Inr (?w\<lparr>moveResizeFinished := moveResizeFinished ?w @ [x]\<rparr>)"
    unfolding endMoveResize_released [OF mv sx] by (simp add: stay)
  then have c: "cancelMoveResize k t = Inr (?w\<lparr>moveResizeFinished := moveResizeFinished ?w @ [x]\<rparr>)"
    using m v al by (simp add: cancelMoveResize_def Let_def)
  let ?u = "updateEdgeTilePreview TileNone None None (?w\<lparr>moveResizeFinished := moveResizeFinished ?w @ [x]\<rparr>)"
  have "filterMoveEvent k DragEscape t = Inr (True, ?u)"
    using c m(1,2) by (simp add: filterMoveEvent_def cancelMoveResizeForSeat_def moveContainerOrDefault_def)
  moreover have "geo ?u = geo ?w" "edgePreview ?u = None" by (simp_all add: updateEdgeTilePreview_def)
  moreover have "getMoveResizeSurfaceForSeat (Some k) ?u = None"
    by (rule free_seat, rule cancelMoveResize_inv(2) [OF assms(3) c]) (simp only: seats_steps)
  ultimately show ?thesis using geo_v w(6) by (intro exI [of _ ?u]) simp
qed

lemma begin_plain_move:
  assumes "drag_inv s" "moveOf s k = Some m" "mr_surface m = None" "surfaceState (geo s x) = Normal" "geometryAnimation (geo s x) = None"
    "x_cursor (seats s k) = Some c" "normalGeometry (geo s x) = geometry (geo s x)"
    "\<And>i m'. moveOf s i = Some m' \<Longrightarrow> mr_surface m' = Some x \<Longrightarrow> mr_edges m' = {}"
    "beginMoveResizeForSeat (Some k) x {} s = Inr t"
  shows "being_moved k x t t" "geometry (geo t x) = geometry (geo s x)" "wrappers t = wrappers s" "outs t = outs s"
    "rootOutputs t = rootOutputs s" "alignToPixelGrid t x = alignToPixelGrid s x" "titlebarGeometry t x = titlebarGeometry s x"
proof -
  let ?take = "\<lambda>m. m\<lparr>mr_surface := Some x, mr_edges := {}, mr_startGeometry := geometry (geo s x), mr_settingPosition := False,
      mr_tileMode := TileNone, mr_previewActive := False, mr_innerBorder := False, mr_tileOutput := None\<rparr>"
  let ?u = "setPositionAutomatic False x (mod_geo (\<lambda>g. g\<lparr>xwaylandPositionFromSurface := False\<rparr>) x (mod_move ?take k s))"
  have seats_u: "seats ?u = seats s" by (simp add: setPositionAutomatic_def mod_geo_def mod_move_def)
  have b: "beginMoveResize k x {} s = Inr ?u" using assms(2-5) by (simp add: beginMoveResize_def Let_def)
  have t: "t = mod_move (\<lambda>m. m\<lparr>mr_initialPosition := c\<rparr>) k ?u"
    using assms(2-6,9) b by (simp add: beginMoveResizeForSeat_def moveContainerOrDefault_def Let_def seats_u)
  have k: "kept (mod_move ?take k s) ?u" using kept_trans [OF kept_steps(1) kept_steps(10)] .
  have mt: "moveOf t i = (if i = k then Some ((?take m)\<lparr>mr_initialPosition := c\<rparr>) else moveOf s i)" for i
    unfolding t by (simp add: kept_rframe(9) [OF k] assms(2))
  have inv: "drag_inv t" by (rule beginForSeat_inv(1) [OF assms(1,9)])
  show w: "wrappers t = wrappers s" and "outs t = outs s" and "rootOutputs t = rootOutputs s"
    and "titlebarGeometry t x = titlebarGeometry s x" and g: "geometry (geo t x) = geometry (geo s x)"
    unfolding t by (simp_all add: mod_move_def mod_geo_def setPositionAutomatic_def titlebarGeometry_def)
  show "alignToPixelGrid t x = alignToPixelGrid s x"
    by (rule align_cong) (simp_all add: t mod_move_def mod_geo_def setPositionAutomatic_def)
  have "normalGeometry (geo t x) = geometry (geo s x)" "surfaceState (geo t x) = Normal" "geometryAnimation (geo t x) = None"
    unfolding t using assms(4,5,7) by (simp_all add: mod_move_def mod_geo_def setPositionAutomatic_def)
  moreover have "resizer t x = None"
  proof -
    have "mr_edges m' = {}" if "(i, m') \<in> set (moves t)" "mr_surface m' = Some x" for i m'
    proof -
      have "moveOf t i = Some m'" using that(1) drag_invD(1) [OF inv] by (simp add: moveOf_def moves_idle_def)
      then show ?thesis using mt [of i] assms(8) [of i m'] that(2) by (auto split: if_splits)
    qed
    then show ?thesis by (auto simp: resizer_def find_None_iff resizing_def)
  qed
  ultimately show "being_moved k x t t"
    using drag_invD(1) [OF inv] mt [of k] g by (simp add: being_moved_def)
qed


section \<open>Moving a window out of its tile\<close>

text \<open>The client's own state lets the normal geometry follow the window.\<close>

definition client_agrees :: "'a gstate_scheme \<Rightarrow> sid \<Rightarrow> bool" where
  "client_agrees s x =
     (let g = geo s x in
      \<not> xdgShell g \<or> \<not> hasSurface g
      \<or> (if sw_mapped (wrappers s x) then \<not> currentMaximized g \<and> \<not> currentFullscreen g
          else \<not> requestedMaximized g \<and> \<not> requestedFullscreen g))"

lemma shouldUpdate_agrees:
  "surfaceState (geo s x) = Normal \<Longrightarrow> geometryAnimation (geo s x) = None \<Longrightarrow> shouldUpdateNormalGeometry s x = client_agrees s x"
  by (auto simp: shouldUpdateNormalGeometry_def client_agrees_def Let_def)

text \<open>What telling the client leaves alone.\<close>

definition place_of :: "'a gstate_scheme \<Rightarrow> sid
    \<Rightarrow> qrect \<times> qrect \<times> bool \<times> bool \<times> surface_state \<times> qrect option \<times> (nat \<times> move_resize) list \<times> oid list \<times> bool" where
  "place_of s x = (let g = geo s x in (geometry g, normalGeometry g, surfaceItem g, client_agrees s x, surfaceState g,
     geometryAnimation g, moves s, onOutputs g, hasSurface g))"

definition scales :: "'a gstate_scheme \<Rightarrow> (oid \<Rightarrow> real) \<times> (oid \<Rightarrow> bool) \<times> (oid \<Rightarrow> qrect) \<times> real" where
  "scales s = (outputScale s, outputEnabled s, outputPlace s, windowDpr s)"

lemma place_align: "place_of t x = place_of s x \<Longrightarrow> scales t = scales s \<Longrightarrow> alignToPixelGrid t x = alignToPixelGrid s x"
  by (rule align_cong) (simp_all add: place_of_def scales_def Let_def)

lemma place_steps:
  "place_of (ask r s) x = place_of s x" "place_of (updateVisible y s) x = place_of s x" "place_of (updateTitleBar y s) x = place_of s x"
  "scales (ask r s) = scales s" "scales (updateVisible y s) = scales s" "scales (updateTitleBar y s) = scales s" "scales (mod_geo f y s) = scales s"
  by (simp_all add: place_of_def client_agrees_def ask_def updateVisible_def mod_wrapper_def updateTitleBar_def mod_geo_def scales_def Let_def)

lemma place_mod_geo:
  "(\<And>g. geometry (f g) = geometry g \<and> normalGeometry (f g) = normalGeometry g \<and> surfaceItem (f g) = surfaceItem g
      \<and> xdgShell (f g) = xdgShell g \<and> hasSurface (f g) = hasSurface g \<and> currentMaximized (f g) = currentMaximized g
      \<and> currentFullscreen (f g) = currentFullscreen g \<and> requestedMaximized (f g) = requestedMaximized g
      \<and> requestedFullscreen (f g) = requestedFullscreen g \<and> surfaceState (f g) = surfaceState g
      \<and> geometryAnimation (f g) = geometryAnimation g \<and> onOutputs (f g) = onOutputs g)
    \<Longrightarrow> place_of (mod_geo f x s) x = place_of s x"
  by (simp add: place_of_def client_agrees_def mod_geo_def Let_def)

lemma applyShell_place: "place_of (applyShellSurfaceState x s) x = place_of s x" "scales (applyShellSurfaceState x s) = scales s"
  by (cases "appliedSurfaceState (geo s x)"; cases "surfaceState (geo s x)";
      simp add: applyShellSurfaceState_def Let_def place_steps place_mod_geo)+

lemma direct_normal:
  assumes "moves_idle s" "resizer s x = None" "checkSetSurfaceState s x Normal False" "surfaceItem (geo s x)"
    "isValidRect (normalGeometry (geo s x))"
  defines "p \<equiv> alignToPixelGrid s x (topLeft (normalGeometry (geo s x)))"
  defines "g \<equiv> geometry (geo s x)"
  shows "\<exists>t. setSurfaceStateDirectly x Normal s = Inr t \<and> kept s t \<and> geometry (geo t x) = rect p (r_size g)
    \<and> normalGeometry (geo t x) = (if topLeft g \<noteq> p \<and> client_agrees s x then rect p (r_size g) else normalGeometry (geo s x))
    \<and> surfaceState (geo t x) = Normal \<and> geometryAnimation (geo t x) = None \<and> resizer t x = None
    \<and> client_agrees t x = client_agrees s x \<and> scales t = scales s \<and> onOutputs (geo t x) = onOutputs (geo s x)
    \<and> hasSurface (geo t x) = hasSurface (geo s x)"
proof -
  let ?u = "setSurfaceStateValue x Normal (abortGeometryAnimation x s)"
  let ?v = "applyShellSurfaceState x ?u"
  have alive: "\<not> aboutToRemove s x" using assms(3) by (simp add: checkSetSurfaceState_def split: if_splits)
  have u: "place_of ?u x = (g, normalGeometry (geo s x), True, client_agrees s x, Normal, None, moves s, onOutputs (geo s x), hasSurface (geo s x))"
    "scales ?u = scales s"
    using alive assms(4) by (simp_all add: place_of_def Let_def setSurfaceStateValue_def abortGeometryAnimation_def mod_geo_def
        client_agrees_def scales_def g_def aboutToRemove_def)
  have v: "place_of ?v x = (g, normalGeometry (geo s x), True, client_agrees s x, Normal, None, moves s, onOutputs (geo s x), hasSurface (geo s x))"
    "scales ?v = scales s"
    using applyShell_place [of x ?u] u by simp_all
  have vf: "geometry (geo ?v x) = g" "normalGeometry (geo ?v x) = normalGeometry (geo s x)" "surfaceItem (geo ?v x)"
    "client_agrees ?v x = client_agrees s x" "surfaceState (geo ?v x) = Normal" "geometryAnimation (geo ?v x) = None" "moves ?v = moves s"
    "onOutputs (geo ?v x) = onOutputs (geo s x)" "hasSurface (geo ?v x) = hasSurface (geo s x)"
    using v(1) by (simp_all add: place_of_def Let_def)
  have al: "alignToPixelGrid ?v x = alignToPixelGrid s x" by (rule align_cong) (use v(2) vf in \<open>simp_all add: scales_def\<close>)
  have idle: "moves_idle ?v" "resizer ?v x = None" using assms(1,2) vf(7) by (simp_all add: moves_idle_def resizer_def)
  obtain w where w: "setPosition x p ?v = Inr w" "geometry_only x ?v w"
    "geometry (geo w x) = (if topLeft g = p then g else moveTopLeft p g)"
    "normalGeometry (geo w x) = (if topLeft g \<noteq> p \<and> client_agrees s x then moveTopLeft p g else normalGeometry (geo s x))"
    using setPosition_spec [OF idle(1), of x p] vf by (auto simp: settled_free [OF idle(2)] shouldUpdate_agrees)
  let ?t = "snd (resize x (r_size (normalGeometry (geo s x))) False w)"
  have gt: "geometry_only x ?v ?t" by (rule geometry_only_trans [OF w(2) geometry_only_steps(3)])
  have "applySurfaceState x ?u = Inr (True, ?t)"
    using w(1) vf assms(5) al by (simp add: applySurfaceState_def Let_def targetGeometryForState_def applyGeometry_def resize_def p_def)
  then have t: "setSurfaceStateDirectly x Normal s = Inr ?t" using assms(3) by (simp add: setSurfaceStateDirectly_def)
  have same: "geometry (geo ?t x) = geometry (geo w x)" "normalGeometry (geo ?t x) = normalGeometry (geo w x)"
    by (simp_all add: resize_def ask_def)
  have "shouldUpdateNormalGeometry ?t x = shouldUpdateNormalGeometry ?v x" by (rule shouldUpdate_cong [OF gt])
  then have ag: "client_agrees ?t x = client_agrees s x"
    using vf geometry_only_frame(9,12) [OF gt] by (simp add: shouldUpdate_agrees)
  have "resizer ?t x = None" using idle(2) geometry_only_frame(2) [OF gt] by (simp add: resizer_def)
  moreover have "scales ?t = scales s" using v(2) geometry_only_frame(3-6) [OF gt] by (simp add: scales_def)
  ultimately show ?thesis
    using t setSurfaceStateDirectly_kept [OF assms(1) t] w(3,4) same ag vf geometry_only_frame(9,12,14,15) [OF gt]
    by (intro exI [of _ ?t]) (auto simp: rect_move)
qed

text \<open>Beginning to move a window that is tiled or maximized.\<close>

lemma begin_from_tile:
  assumes "drag_inv s" "moveOf s k = Some m" "mr_surface m = None" "x_cursor (seats s k) = Some c"
    "surfaceState (geo s x) = Tiling \<or> surfaceState (geo s x) = Maximized" "checkSetSurfaceState s x Normal False"
    "surfaceItem (geo s x)" "isValidRect (normalGeometry (geo s x))" "isValidRect (geometry (geo s x))"
  defines "p \<equiv> alignToPixelGrid s x (topLeft (normalGeometry (geo s x)))"
  defines "g \<equiv> geometry (geo s x)"
  defines "z \<equiv> (if topLeft g \<noteq> p \<and> client_agrees s x then r_size g else r_size (normalGeometry (geo s x)))"
  shows "\<exists>t m'. beginMoveResizeForSeat (Some k) x {} s = Inr t \<and> moveOf t k = Some m' \<and> mr_surface m' = Some x \<and> mr_edges m' = {}
    \<and> mr_startGeometry m' = rect (grabPosition s x c g z) z \<and> geometry (geo t x) = rect (grabPosition s x c g z) (r_size g)
    \<and> surfaceState (geo t x) = Normal"
proof -
  have idle: "moves_idle s" by (rule drag_invD(1) [OF assms(1)])
  have free: "resizer s x = None"
    using assms(6) idle by (auto simp: checkSetSurfaceState_def resizer_def find_None_iff resizing_def stateChangeFiltered_def split: if_splits)
  obtain u where u: "setSurfaceStateDirectly x Normal s = Inr u" "kept s u" "geometry (geo u x) = rect p (r_size g)"
    "normalGeometry (geo u x) = (if topLeft g \<noteq> p \<and> client_agrees s x then rect p (r_size g) else normalGeometry (geo s x))"
    "surfaceState (geo u x) = Normal" "geometryAnimation (geo u x) = None" "resizer u x = None" "scales u = scales s"
    "onOutputs (geo u x) = onOutputs (geo s x)" "hasSurface (geo u x) = hasSurface (geo s x)"
    using direct_normal [OF idle free assms(6-8)] unfolding p_def g_def by blast
  let ?take = "\<lambda>m. m\<lparr>mr_surface := Some x, mr_edges := {}, mr_startGeometry := rect p (r_size g), mr_settingPosition := False,
      mr_tileMode := TileNone, mr_previewActive := False, mr_innerBorder := False, mr_tileOutput := None\<rparr>"
  define v where "v = setPositionAutomatic False x (mod_geo (\<lambda>g. g\<lparr>xwaylandPositionFromSurface := False\<rparr>) x (mod_move ?take k u))"
  have b: "beginMoveResize k x {} s = Inr v"
    using assms(2,3,5) u(1,3,5,6) by (simp add: beginMoveResize_def Let_def v_def)
  have v: "drag_inv v" by (rule begin_inv(1) [OF assms(1) b])
  have kv: "kept (mod_move ?take k u) v" unfolding v_def using kept_trans [OF kept_steps(1) kept_steps(10)] .
  have mu: "moveOf u = moveOf s" "seats u = seats s" using kept_rframe [OF u(2)] by simp_all
  have mv: "moveOf v k = Some (?take m)" "seats v = seats s" using kept_rframe(1,9) [OF kv] mu assms(2) by simp_all
  have vg: "geometry (geo v x) = rect p (r_size g)" "normalGeometry (geo v x) = normalGeometry (geo u x)" "surfaceState (geo v x) = Normal"
    using u(3,5) by (simp_all add: v_def setPositionAutomatic_def mod_geo_def mod_move_def)
  have al: "alignToPixelGrid v x = alignToPixelGrid s x"
    by (rule align_cong) (use u(8-10) in \<open>simp_all add: v_def setPositionAutomatic_def mod_geo_def mod_move_def scales_def\<close>)
  have grab: "grabPosition v x c g z = grabPosition s x c g z" by (simp add: grabPosition_def al)
  have ne: "\<not> isEmptyRect g" using assms(9) by (auto simp: isEmptyRect_def isValidRect_def g_def)
  have size: "isValidRect (normalGeometry (geo v x))" "r_size (normalGeometry (geo v x)) = z"
    using assms(8,9) unfolding vg(2) u(4) z_def by (auto simp: isValidRect_def g_def r_size_def)
  have free_v: "resizer v x = None"
  proof -
    have "mr_edges m' = {}" if "(i, m') \<in> set (moves v)" "mr_surface m' = Some x" for i m'
    proof -
      have "moveOf v i = Some m'" using that(1) drag_invD(1) [OF v] by (simp add: moveOf_def moves_idle_def)
      then have "i = k \<and> m' = ?take m \<or> moveOf s i = Some m'" using kept_rframe(9) [OF kv] mu(1) assms(2) by (auto split: if_splits)
      moreover have "mr_edges m' = {}" if "moveOf s i = Some m'"
        using free that \<open>mr_surface m' = Some x\<close> map_of_SomeD [of "moves s" i m'] by (auto simp: resizer_def find_None_iff resizing_def moveOf_def)
      ultimately show ?thesis by auto
    qed
    then show ?thesis by (auto simp: resizer_def find_None_iff resizing_def)
  qed
  obtain w where w: "setPosition x (grabPosition s x c g z) v = Inr w" "geometry_only x v w"
    "geometry (geo w x) = rect (grabPosition s x c g z) (r_size g)"
    using setPosition_spec [OF drag_invD(1) [OF v], of x "grabPosition s x c g z"] vg(1)
    by (auto simp: settled_free [OF free_v] rect_move)
  let ?t = "mod_move (\<lambda>m. m\<lparr>mr_initialPosition := c\<rparr>) k (mod_move (\<lambda>m. m\<lparr>mr_startGeometry := rect (grabPosition s x c g z) z\<rparr>) k w)"
  have mw: "moveOf w = moveOf v" by (rule kept_rframe(9) [OF geometry_only_kept [OF w(2)]])
  have "beginMoveResizeForSeat (Some k) x {} s = Inr ?t"
    unfolding beginMoveResizeForSeat_def moveContainerOrDefault_def
    using assms(2-5) b mv w(1) ne size grab by (simp add: Let_def g_def)
  moreover have "geo ?t = geo w" by (simp add: mod_move_def)
  moreover have "surfaceState (geo w x) = Normal" using geometry_only_frame(9) [OF w(2)] vg(3) by simp
  ultimately show ?thesis using mw mv(1) w(3) by (intro exI [of _ ?t]) simp
qed

lemma grab_close:
  assumes "\<forall>q. getOutputDevicePixelRatio s x q = d" "0 < d" "isValidRect g"
  shows "\<bar>(px c - px (grabPosition s x c g z)) - (px c - rx g) / rw g * sw z\<bar> \<le> 1 / (2 * d)"
    "\<bar>(py c - py (grabPosition s x c g z)) - (py c - ry g) / rh g * sh z\<bar> \<le> 1 / (2 * d)"
proof -
  let ?q = "pt (px c - (px c - rx g) / rw g * sw z) (py c - (py c - ry g) / rh g * sh z)"
  have q: "grabPosition s x c g z = alignToPixelGrid s x ?q" using assms(3) by (simp add: grabPosition_def edge_defs isValidRect_def)
  have r: "getOutputDevicePixelRatio s x ?q = d" "0 < getOutputDevicePixelRatio s x ?q" using assms(1,2) by simp_all
  show "\<bar>(px c - px (grabPosition s x c g z)) - (px c - rx g) / rw g * sw z\<bar> \<le> 1 / (2 * d)"
    using align_close(1) [OF r(2)] unfolding q r(1) by (simp add: abs_minus_commute algebra_simps)
  show "\<bar>(py c - py (grabPosition s x c g z)) - (py c - ry g) / rh g * sh z\<bar> \<le> 1 / (2 * d)"
    using align_close(2) [OF r(2)] unfolding q r(1) by (simp add: abs_minus_commute algebra_simps)
qed


text \<open>C34: A tiled window does not: its client has the same state tiled or not, so that the normal size is lost
  to the size of the tile on the way. The operation starts from the tile, the window is where
  the tile was, and once the client is as narrow as its normal size again, a cursor that was further to the right
  in the tile is not over the window it drags.\<close>

theorem untiled_window_loses_grab:
  assumes "drag_reach s" "getMoveResizeSurfaceForSeat (Some k) s = None" "moveOf s k = Some m" "x_cursor (seats s k) = Some c"
    and "surfaceState (geo s x) = Tiling" "checkSetSurfaceState s x Normal False" "surfaceItem (geo s x)"
    and "isValidRect (normalGeometry (geo s x))" "isValidRect (geometry (geo s x))" "client_agrees s x"
    and "alignToPixelGrid s x (topLeft (normalGeometry (geo s x))) \<noteq> topLeft (geometry (geo s x))"
    and "alignToPixelGrid s x (topLeft (geometry (geo s x))) = topLeft (geometry (geo s x))"
  shows "\<exists>t m'. beginMoveResizeForSeat (Some k) x {} s = Inr t \<and> surfaceState (geo t x) = Normal
    \<and> moveOf t k = Some m' \<and> mr_surface m' = Some x \<and> mr_startGeometry m' = geometry (geo s x)
    \<and> geometry (geo t x) = geometry (geo s x)
    \<and> (px c > rx (geometry (geo s x)) + rw (normalGeometry (geo s x))
       \<longrightarrow> \<not> r_contains (rect (topLeft (geometry (geo t x))) (r_size (normalGeometry (geo s x)))) c)"
proof -
  have free: "mr_surface m = None" using assms(2,3) by (simp add: getMoveResizeSurfaceForSeat_def moveContainerOrDefault_def)
  let ?g = "geometry (geo s x)" and ?n = "normalGeometry (geo s x)"
  obtain t m' where t: "beginMoveResizeForSeat (Some k) x {} s = Inr t" "moveOf t k = Some m'" "mr_surface m' = Some x"
    "mr_startGeometry m' = rect (grabPosition s x c ?g (r_size ?g)) (r_size ?g)"
    "geometry (geo t x) = rect (grabPosition s x c ?g (r_size ?g)) (r_size ?g)" "surfaceState (geo t x) = Normal"
    using begin_from_tile [OF drag_reach_inv [OF assms(1)] assms(3) free assms(4) disjI1 [OF assms(5)] assms(6-9)] assms(10,11) by auto
  have "pt (px c - (px c - rx ?g) / rw ?g * rw ?g) (py c - (py c - ry ?g) / rh ?g * rh ?g) = topLeft ?g"
    using assms(9) by (simp add: topLeft_def isValidRect_def)
  then have "grabPosition s x c ?g (r_size ?g) = topLeft ?g"
    using assms(9,12) by (simp add: grabPosition_def edge_defs isValidRect_def r_size_def)
  then have g: "mr_startGeometry m' = ?g" "geometry (geo t x) = ?g" using t(4,5) by simp_all
  have "isValidRect (rect (topLeft ?g) (r_size ?n))" using assms(8) by (simp add: isValidRect_def r_size_def)
  then have "\<not> r_contains (rect (topLeft ?g) (r_size ?n)) c" if "px c > rx ?g + rw ?n"
    using that by (simp add: contains_valid edge_defs topLeft_def r_size_def)
  then show ?thesis using t g by (intro exI [of _ t] exI [of _ m']) simp
qed

lemma relocated_inside:
  assumes "sw z \<le> rw target" "sh z \<le> rh target"
  shows "r_left target \<le> px (relocated target z p)" "px (relocated target z p) + sw z \<le> r_right target"
    "r_top target \<le> py (relocated target z p)" "py (relocated target z p) + sh z \<le> r_bottom target"
    "r_left target \<le> px p \<Longrightarrow> px p + sw z \<le> r_right target \<Longrightarrow> px (relocated target z p) = px p"
  using assms by (simp_all add: relocated_def Let_def edge_defs)

end
