(* ===== verification/Interactive_Screen.thy ===== *)
theory Interactive_Screen
  imports Interactive_Tiling
begin

text \<open>
  One screen with one seat and a window: the theorems on interactive moves at concrete states.
\<close>

section \<open>A screen\<close>

definition calm_seat :: "qpoint \<Rightarrow> seat_extra" where
  "calm_seat p = \<lparr>x_clampActive = False, x_clampMinW = 0, x_clampMaxW = 0, x_clampMinH = 0, x_clampMaxH = 0,
     x_delayRunning = False, x_cursor = Some p\<rparr>"

definition no_operation :: move_resize where
  "no_operation = \<lparr>mr_surface = None, mr_edges = {}, mr_startGeometry = nullRect, mr_initialPosition = pt 0 0, mr_settingPosition = False,
     mr_tileMode = TileNone, mr_previewActive = False, mr_innerBorder = False, mr_tileOutput = None\<rparr>"

text \<open>One output of 1920 by 1080 pixels, one seat with its cursor at \<open>p\<close>, and a window as \<open>g\<close> says.\<close>

definition screen :: "move_resize \<Rightarrow> qpoint \<Rightarrow> wgeo \<Rightarrow> rstate" where
  "screen m p g = \<lparr>
     wrappers = (\<lambda>_. blank_wrapper\<lparr>sw_container := Some 0, sw_ownsOutput := Some 0, sw_workspaceId := 0\<rparr>), trace = [],
     geo = (\<lambda>_. blank_geo)(3 := g), requests = [], outputPlace = (\<lambda>_. rect (pt 0 0) (sz 1920 1080)), outputScale = (\<lambda>_. 1),
     outputEnabled = (\<lambda>_. True), windowDpr = 1, titleBarSize = (\<lambda>_. sz 400 40), moves = [(0, m)],
     outs = (\<lambda>_. \<lparr>o_rect = rect (pt 0 0) (sz 1920 1080), o_surfaces = [3], o_margin = (\<lambda>_. 0), o_zones = (\<lambda>_. []),
        o_direction = PlaceBottomRight, o_positionCache = Map.empty, o_ratio = Map.empty\<rparr>),
     layers = (\<lambda>_. \<lparr>l_initialized = True, l_exclusiveZone = 0, l_margins = \<lparr>mg_left = 0, mg_top = 0, mg_right = 0, mg_bottom = 0\<rparr>,
        l_ancher = {BottomEdge}, l_desiredSize = sz 0 60\<rparr>),
     workspaceModel = (\<lambda>_. Some (newWorkspaceModel 0 [])), windowTitlebarHeight = 40, cursorPosition = p,
     cursorSize = (\<lambda>_. None), outputAtCursor = Some 0, implicitPosition = (\<lambda>_. None), cursorRect = (\<lambda>_. None),
     contentTopLeft = (\<lambda>_. pt 0 0), surfaceItemPosition = (\<lambda>_. pt 0 0),
     seats = (\<lambda>_. calm_seat p), defaultSeat = Some 0, rootOutputs = [0], outputAt = (\<lambda>_. Some 0),
     edgeSideTrigger = 20, edgeTopTrigger = 5, edgeQuadrantRatio = 1 / 4, edgePreview = None, moveResizeFinished = [],
     currentEventSeat = None, lastInteractingSeat = (\<lambda>_. None), allSeats = [0], primarySeat = 0, primaryOutput = Some 0,
     layoutOutputs = [0], popupPosition = (\<lambda>_. pt 0 0)\<rparr>"

lemma screen_facts [simp]:
  "moveOf (screen m p g) i = (if i = 0 then Some m else None)" "geo (screen m p g) 3 = g" "moves (screen m p g) = [(0, m)]"
  "rootOutputs (screen m p g) = [0]" "edgePreview (screen m p g) = None"
  "sw_type (wrappers (screen m p g) y) = XdgToplevel" "sw_ownsOutput (wrappers (screen m p g) y) = Some 0"
  "sw_container (wrappers (screen m p g) y) = Some 0" "\<not> sw_isSnapMask (wrappers (screen m p g) y)" "sw_mapped (wrappers (screen m p g) y)"
  "sw_shellSurface (wrappers (screen m p g) y)" "\<not> aboutToRemove (screen m p g) y"
  "outputAt (screen m p g) q = Some 0" "edgeSideTrigger (screen m p g) = 20" "edgeTopTrigger (screen m p g) = 5"
  "edgeQuadrantRatio (screen m p g) = 1 / 4" "requests (screen m p g) = []" "cursorOutput (screen m p g) 0 = Some 0" "defaultSeat (screen m p g) = Some 0"
  "seats (screen m p g) = (\<lambda>_. calm_seat p)" "x_cursor (calm_seat p) = Some p" "\<not> x_delayRunning (calm_seat p)" "\<not> x_clampActive (calm_seat p)"
  by (simp_all add: screen_def moveOf_def blank_wrapper_def aboutToRemove_def cursorOutput_def calm_seat_def)

lemma screen_areas [simp]:
  "validGeometry (screen m p g) k = rect (pt 0 0) (sz 1920 1080)"
  "titleBar g = None \<Longrightarrow> titlebarGeometry (screen m p g) 3 = nullRect"
proof -
  show "validGeometry (screen m p g) k = rect (pt 0 0) (sz 1920 1080)"
    by (rule qrect_eqI) (simp_all add: validGeometry_def out_geometry_def exclusiveZone_def screen_def marginsRemoved_coords)
qed (simp add: titlebarGeometry_def)

lemma screen_scale [simp]: "getOutputDevicePixelRatio (screen m p g) y q = 1"
proof -
  have "outputScale (screen m p g) = (\<lambda>_. 1)" "windowDpr (screen m p g) = 1" by (simp_all add: screen_def)
  then show ?thesis by (auto simp: getOutputDevicePixelRatio_def Let_def split: option.split)
qed

lemma screen_grid [simp]: "px q \<in> \<int> \<Longrightarrow> py q \<in> \<int> \<Longrightarrow> alignToPixelGrid (screen m p g) y q = q"
  by (intro align_on_grid) (simp_all add: screen_scale on_grid_def)

lemma screen_reach: "drag_reach (screen no_operation p g)"
  by (rule dr_start) (auto simp: no_operation_def idleMove_def split: if_splits)

lemma screen_free: "getMoveResizeSurfaceForSeat (Some 0) (screen no_operation p g) = None"
  by (simp add: getMoveResizeSurfaceForSeat_def moveContainerOrDefault_def no_operation_def)

text \<open>The operation while the window is moved, and at the left edge.\<close>

definition moving :: "qrect \<Rightarrow> qpoint \<Rightarrow> move_resize" where
  "moving r p = no_operation\<lparr>mr_surface := Some 3, mr_startGeometry := r, mr_initialPosition := p\<rparr>"

definition at_left_edge :: "qrect \<Rightarrow> qpoint \<Rightarrow> move_resize" where
  "at_left_edge r p = (moving r p)\<lparr>mr_tileMode := TileLeft, mr_previewActive := True, mr_tileOutput := Some 0\<rparr>"

definition begun_geo :: wgeo where
  "begun_geo = blank_geo\<lparr>xwaylandPositionFromSurface := False, positionAutomatic := False\<rparr>"

lemma screen_begin:
  "beginMoveResizeForSeat (Some 0) 3 {} (screen no_operation p blank_geo) = Inr (screen (moving (geometry blank_geo) p) p begun_geo)"
proof -
  have g: "surfaceState blank_geo = Normal" "geometryAnimation blank_geo = None" "positionAutomatic blank_geo" by (simp_all add: blank_geo_def)
  let ?s = "screen no_operation p blank_geo"
  define u where "u = setPositionAutomatic False 3 (mod_geo (\<lambda>g. g\<lparr>xwaylandPositionFromSurface := False\<rparr>) 3
    (mod_move (\<lambda>m. m\<lparr>mr_surface := Some 3, mr_edges := {}, mr_startGeometry := geometry blank_geo, mr_settingPosition := False,
         mr_tileMode := TileNone, mr_previewActive := False, mr_innerBorder := False, mr_tileOutput := None\<rparr>) 0 ?s))"
  have b: "beginMoveResize 0 3 {} ?s = Inr u" using g by (simp add: beginMoveResize_def Let_def no_operation_def u_def)
  have "seats u 0 = calm_seat p" by (simp add: u_def setPositionAutomatic_def mod_geo_def mod_move_def)
  then have "beginMoveResizeForSeat (Some 0) 3 {} ?s = Inr (mod_move (\<lambda>m. m\<lparr>mr_initialPosition := p\<rparr>) 0 u)"
    using g b by (simp add: beginMoveResizeForSeat_def moveContainerOrDefault_def Let_def no_operation_def)
  moreover have "mod_move (\<lambda>m. m\<lparr>mr_initialPosition := p\<rparr>) 0 u = screen (moving (geometry blank_geo) p) p begun_geo"
    by (simp add: u_def mod_move_def mod_geo_def setPositionAutomatic_def moving_def no_operation_def begun_geo_def screen_def)
  ultimately show ?thesis by simp
qed

lemma screen_moving: "drag_reach (screen (moving (geometry blank_geo) p) p begun_geo)"
  by (rule dr_begin [OF screen_reach screen_begin])

definition in_tile :: wgeo where
  "in_tile = blank_geo\<lparr>geometry := rect (pt 0 0) (sz 960 1080), surfaceState := Tiling, appliedSurfaceState := Tiling\<rparr>"

definition in_maximized :: wgeo where
  "in_maximized = blank_geo\<lparr>geometry := rect (pt 0 0) (sz 1920 1080), surfaceState := Maximized, appliedSurfaceState := Maximized,
     currentMaximized := True\<rparr>"


text \<open>The window is dragged to the left edge of the screen.\<close>

definition at_edge :: rstate where
  "at_edge = (screen (at_left_edge (geometry blank_geo) (pt 10 540)) (pt 10 540) begun_geo)
     \<lparr>edgePreview := Some (rect (pt 100 100) (sz 400 300), rect (pt 0 0) (sz 960 1080))\<rparr>"

lemma at_edge_facts [simp]:
  "moveOf at_edge i = (if i = 0 then Some (at_left_edge (geometry blank_geo) (pt 10 540)) else None)" "geo at_edge 3 = begun_geo"
  "moves at_edge = [(0, at_left_edge (geometry blank_geo) (pt 10 540))]" "seats at_edge i = calm_seat (pt 10 540)"
  "edgePreview at_edge = Some (rect (pt 100 100) (sz 400 300), rect (pt 0 0) (sz 960 1080))"
  "sw_container (wrappers at_edge y) = Some 0" "\<not> sw_isSnapMask (wrappers at_edge y)" "cursorOutput at_edge 0 = Some 0" "requests at_edge = []"
  by (simp_all add: at_edge_def screen_def moveOf_def cursorOutput_def calm_seat_def blank_wrapper_def)

lemma screen_dragged:
  "filterMoveEvent 0 (DragMotion (pt 10 540)) (screen (moving (geometry blank_geo) (pt 10 540)) (pt 10 540) begun_geo) = Inr (True, at_edge)"
proof -
  define m g where "m = moving (geometry blank_geo) (pt 10 540)" and "g = begun_geo"
  have g: "geometry g = rect (pt 100 100) (sz 400 300)" "supportsTileMode g TileLeft" "surfaceState g = Normal" "geometryAnimation g = None"
    by (simp_all add: g_def begun_geo_def blank_geo_def supportsTileMode_def)
  let ?s = "screen m (pt 10 540) g"
  have m: "mr_surface m = Some 3" "mr_edges m = {}" "mr_startGeometry m = rect (pt 100 100) (sz 400 300)"
    "mr_initialPosition m = pt 10 540" "mr_tileMode m = TileNone" "\<not> mr_innerBorder m"
    by (simp_all add: m_def moving_def no_operation_def blank_geo_def)
  have "alignToPixelGrid ?s 3 (pt 100 100) = pt 100 100" by (rule screen_grid) simp_all
  then have "setPosition 3 (alignToPixelGrid ?s 3 (pt 100 100)) ?s = Inr ?s"
    using g(1) by (simp add: setPosition_def setPosition_with_def topLeft_def Let_def)
  then have d: "doMoveResizeForSeat (Some 0) (pt 0 0) ?s = Inr ?s"
    by (simp add: doMoveResizeForSeat_def moveContainerOrDefault_def doMoveResize_def m)
  have mode: "detectMode ?s 0 m = (TileLeft, Some 0, False)"
    using g(2) by (simp add: detectMode_def m edgeMode_def qBound_def edge_defs Let_def)
  have tile: "\<And>m p g. tileGeometry (screen m p g) 0 TileLeft = rect (pt 0 0) (sz 960 1080)" "isValidRect (rect (pt 0 0) (sz 960 1080))"
    by (simp_all add: tileGeometry_def topLeft_def edge_defs isValidRect_def)
  define v where "v = mod_move (\<lambda>m. m\<lparr>mr_previewActive := True\<rparr>) 0 (stopEdgeTileDelay 0
    (mod_move (\<lambda>m. m\<lparr>mr_tileMode := TileLeft, mr_innerBorder := False, mr_tileOutput := Some 0\<rparr>) 0 ?s))"
  have v: "v = screen (at_left_edge (geometry blank_geo) (pt 10 540)) (pt 10 540) g"
    by (simp add: v_def mod_move_def stopEdgeTileDelay_def mod_seat_extra_def m_def at_left_edge_def moving_def no_operation_def
        calm_seat_def fun_eq_iff screen_def)
  have "updateEdgeTilePreview TileLeft (Some 0) (Some 0) v = at_edge"
    unfolding v at_edge_def using tile g(1)
    by (simp add: updateEdgeTilePreview_def moveContainerOrDefault_def Let_def at_left_edge_def moving_def g_def)
  moreover have "filterMoveEvent 0 (DragMotion (pt 10 540)) ?s = Inr (True, updateEdgeTilePreview TileLeft (Some 0) (Some 0) v)"
    using m by (simp add: filterMoveEvent_def d detectEdgeTilingForSeat_def moveContainerOrDefault_def mode Let_def v_def)
  ultimately show ?thesis by (simp add: m_def g_def)
qed

lemma at_edge_reach: "drag_reach at_edge"
  by (rule dr_event [OF screen_moving screen_dragged])

lemma at_edge_ok: "states_ok at_edge 3" "\<forall>i m'. moveOf at_edge i = Some m' \<and> mr_surface m' = Some 3 \<longrightarrow> mr_edges m' = {}"
  "mr_surface (at_left_edge r p) = Some 3" "mr_previewActive (at_left_edge r p)" "mr_tileMode (at_left_edge r p) = TileLeft"
  "supportsTileMode begun_geo TileLeft" "isValidRect (validGeometry at_edge 0)" "tileGeometry at_edge 0 TileLeft = rect (pt 0 0) (sz 960 1080)"
proof -
  have o: "outs at_edge = outs (screen no_operation (pt 0 0) begun_geo)" by (simp add: at_edge_def screen_def)
  show "isValidRect (validGeometry at_edge 0)" "tileGeometry at_edge 0 TileLeft = rect (pt 0 0) (sz 960 1080)"
    unfolding tiles_cong [OF o] by (simp_all add: tileGeometry_def topLeft_def edge_defs isValidRect_def)
  show "states_ok at_edge 3"
    by (simp add: states_ok_def moves_idle_def alive_def aboutToRemove_def informed_def told_maximized_def told_fullscreen_def) (simp add: at_edge_def screen_def begun_geo_def blank_geo_def
        at_left_edge_def moving_def no_operation_def blank_wrapper_def)
qed (auto simp: at_left_edge_def moving_def no_operation_def supportsTileMode_def begun_geo_def blank_geo_def)

theorem edge_armed_when_detected_witness:
  "mr_previewActive (at_left_edge (geometry blank_geo) (pt 10 540))
     = (mr_tileMode (at_left_edge (geometry blank_geo) (pt 10 540)) \<noteq> TileNone \<and> \<not> x_delayRunning (calm_seat (pt 10 540)))"
  using edge_armed_when_detected [OF at_edge_reach, of 0 "at_left_edge (geometry blank_geo) (pt 10 540)"] by auto

lemma at_edge_drop:
  defines "m \<equiv> at_left_edge (geometry blank_geo) (pt 10 540)"
  shows "moveOf at_edge 0 = Some m" "mr_surface m = Some 3" "mr_previewActive m" "mr_tileMode m \<noteq> TileMaximize" "states_ok at_edge 3"
    "sw_container (wrappers at_edge 3) \<noteq> None" "\<not> sw_isSnapMask (wrappers at_edge 3)"
    "\<forall>i m'. moveOf at_edge i = Some m' \<and> mr_surface m' = Some 3 \<longrightarrow> mr_edges m' = {}"
    "supportsTileMode (geo at_edge 3) (mr_tileMode m)" "cursorOutput at_edge 0 = Some 0" "isValidRect (validGeometry at_edge 0)"
  unfolding m_def by (simp, simp add: at_edge_ok, simp add: at_edge_ok, simp add: at_edge_ok, rule at_edge_ok, simp, simp, rule at_edge_ok,
    simp add: at_edge_ok, simp, rule at_edge_ok)

theorem drop_takes_tile_witness:
  "\<exists>t. filterMoveEvent 0 DragRelease at_edge = Inr (False, t) \<and> surfaceState (geo t 3) = Tiling
     \<and> tilingGeometry (geo t 3) = rect (pt 0 0) (sz 960 1080) \<and> edgePreview t = None"
  using drop_takes_tile [OF at_edge_reach at_edge_drop] unfolding at_edge_ok(5,8) by blast

theorem preview_outlives_window_witness:
  "\<exists>t. removeBySubContainer_moves 3 at_edge = Inr t \<and> edgePreview t = edgePreview at_edge \<and> edgePreview t \<noteq> None
     \<and> (\<forall>k m. moveOf t k = Some m \<longrightarrow> mr_surface m \<noteq> Some 3)"
proof -
  obtain t where "endMoveResize 0 at_edge = Inr t"
    using end_takes_tile [OF drag_reach_inv [OF at_edge_reach] at_edge_drop] by blast
  then have t: "removeBySubContainer_moves 3 at_edge = Inr t"
    by (simp add: removeBySubContainer_moves_def endMovesWhere_def at_edge_ok(3))
  show ?thesis using preview_outlives_window [OF at_edge_reach at_edge_facts(5) t] t by auto
qed



theorem untiled_window_loses_grab_witness:
  "\<exists>t. beginMoveResizeForSeat (Some 0) 3 {} (screen no_operation (pt 900 10) in_tile) = Inr t \<and> surfaceState (geo t 3) = Normal
     \<and> geometry (geo t 3) = rect (pt 0 0) (sz 960 1080) \<and> \<not> r_contains (rect (pt 0 0) (sz 400 300)) (pt 900 10)"
proof -
  let ?s = "screen no_operation (pt 900 10) in_tile"
  have m: "moveOf ?s 0 = Some no_operation" "x_cursor (seats ?s 0) = Some (pt 900 10)" by simp_all
  have g: "surfaceState (geo ?s 3) = Tiling" "surfaceItem (geo ?s 3)"
    "isValidRect (normalGeometry (geo ?s 3))" "isValidRect (geometry (geo ?s 3))" "client_agrees ?s 3"
    by (simp_all add: in_tile_def blank_geo_def isValidRect_def client_agrees_def)
  have c: "checkSetSurfaceState ?s 3 Normal False"
    by (simp add: checkSetSurfaceState_def stateChangeFiltered_def in_tile_def blank_geo_def no_operation_def)
  have r: "geometry (geo ?s 3) = rect (pt 0 0) (sz 960 1080)" "normalGeometry (geo ?s 3) = rect (pt 100 100) (sz 400 300)"
    by (simp_all add: in_tile_def blank_geo_def)
  have a: "alignToPixelGrid ?s 3 (topLeft (normalGeometry (geo ?s 3))) \<noteq> topLeft (geometry (geo ?s 3))"
    "alignToPixelGrid ?s 3 (topLeft (geometry (geo ?s 3))) = topLeft (geometry (geo ?s 3))"
    unfolding r by (simp_all add: topLeft_def pt_eq_iff)
  show ?thesis
    using untiled_window_loses_grab [OF screen_reach screen_free m g(1) c g(2-5) a] unfolding r by (fastforce simp: topLeft_def r_size_def)
qed


end
