(* ===== verification/Seat_Manager.thy ===== *)
theory Seat_Manager
  imports QMap "HOL-Library.List_Lexorder" "HOL-Library.Char_ord"
begin

text \<open>
  src/src/seat/seatmanager.cpp: the seats of the compositor, the rules that give input devices to seats,
  and the configuration file. The parts of \<^verbatim>\<open>WSeat\<close>, \<^verbatim>\<open>WCursor\<close> and \<^verbatim>\<open>WServer\<close> (src/waylib) that keep
  the devices of a seat are modelled with it. Seats are numbers; a seat object that is
  deleted leaves \<open>objects\<close>. Regular expressions are Qt's and parameters, as is which per-seat configurations
  are initialized.
\<close>

section \<open>Texts\<close>

text \<open>\<^verbatim>\<open>QString::arg\<close>: every place marker with the lowest number is replaced. A marker is a percent sign, perhaps
  an L, and one or two digits; \<open>place_marker\<close> gives its number and its length without the percent sign.\<close>

definition digit_value :: "char \<Rightarrow> nat option" where
  "digit_value c = (if CHR ''0'' \<le> c \<and> c \<le> CHR ''9'' then Some (of_char c - 48) else None)"

definition two_digits :: "string \<Rightarrow> (nat \<times> nat) option" where
  "two_digits cs =
     (case cs of
        [] \<Rightarrow> None
      | c # ds \<Rightarrow>
          (case digit_value c of
             None \<Rightarrow> None
           | Some n \<Rightarrow>
               (case ds of
                  [] \<Rightarrow> Some (n, 1)
                | d # _ \<Rightarrow> (case digit_value d of None \<Rightarrow> Some (n, 1) | Some k \<Rightarrow> Some (10 * n + k, 2)))))"

definition place_marker :: "string \<Rightarrow> (nat \<times> nat) option" where
  "place_marker cs =
     (case cs of
        [] \<Rightarrow> None
      | c # ds \<Rightarrow> if c = CHR ''L'' then map_option (\<lambda>(n, k). (n, Suc k)) (two_digits ds) else two_digits cs)"

function marker_numbers :: "string \<Rightarrow> nat list" where
    "marker_numbers [] = []"
  | "marker_numbers (c # cs) =
       (case if c = CHR ''%'' then place_marker cs else None of
          None \<Rightarrow> marker_numbers cs
        | Some (n, k) \<Rightarrow> n # marker_numbers (drop k cs))"
  by pat_completeness auto
termination by (relation "measure length") auto

function replace_marker :: "nat \<Rightarrow> string \<Rightarrow> string \<Rightarrow> string" where
    "replace_marker i t [] = []"
  | "replace_marker i t (c # cs) =
       (case if c = CHR ''%'' then place_marker cs else None of
          None \<Rightarrow> c # replace_marker i t cs
        | Some (n, k) \<Rightarrow> (if n = i then t else c # take k cs) @ replace_marker i t (drop k cs))"
  by pat_completeness auto
termination by (relation "measure (\<lambda>(_, _, cs). length cs)") auto

definition qarg :: "string \<Rightarrow> string \<Rightarrow> string" where
  "qarg s t = (if marker_numbers s = [] then s else replace_marker (Min (set (marker_numbers s))) t s)"

section \<open>Devices, seats and cursors\<close>

type_synonym did = nat
type_synonym wseat = nat

datatype device_type = DevUnknow | DevKeyboard | DevPointer | DevTouch | DevTablet | DevTabletPad | DevSwitch

definition type_digit :: "device_type \<Rightarrow> string" where
  "type_digit t = (case t of DevUnknow \<Rightarrow> ''0'' | DevKeyboard \<Rightarrow> ''1'' | DevPointer \<Rightarrow> ''2'' | DevTouch \<Rightarrow> ''3''
     | DevTablet \<Rightarrow> ''4'' | DevTabletPad \<Rightarrow> ''5'' | DevSwitch \<Rightarrow> ''6'')"

record input_device =
  dv_name :: string
  dv_type :: device_type
  dv_path :: string
  dv_virtual :: bool

datatype cursor = SharedCursor | SeatCursor wseat

record wseat_rec =
  st_name :: string
  st_devices :: "did list"
  st_touch :: "did list"
  st_attached :: bool
  st_handle :: bool
  st_cursor :: "cursor option"
  st_focusWindow :: bool
  st_filter :: bool

datatype seat_signal = SeatAdded wseat | SeatRemoved wseat | DeviceReassigned did wseat wseat
  | DeviceAdded did | DeviceRemoved did | DeviceAssigned did

record seat_state =
  sm_seats :: "(string, wseat) qmap"
  sm_rules :: "(string, string list) qmap"
  sm_default :: "wseat option"
  sm_cache :: "did \<Rightarrow> wseat option option"
  sm_pending :: "(string \<times> wseat) list"  \<comment> \<open>seats that wait for their configuration\<close>
  sm_signals :: "seat_signal list"
  objects :: "wseat \<Rightarrow> wseat_rec option"
  nextSeat :: nat
  device :: "did \<Rightarrow> input_device"
  deviceSeat :: "did \<Rightarrow> wseat option"
  qtDevice :: "did \<Rightarrow> bool"
  cursorDevices :: "cursor \<Rightarrow> did list"
  cursorSeat :: "cursor \<Rightarrow> wseat option"
  serverRunning :: bool
  configReady :: "string \<Rightarrow> bool"
  regexValid :: "string \<Rightarrow> bool"
  regexMatch :: "string \<Rightarrow> string \<Rightarrow> bool"

definition with_seat :: "wseat \<Rightarrow> seat_state \<Rightarrow> wseat_rec result" where
  "with_seat k s = deref (objects s k)"

definition mod_wseat :: "(wseat_rec \<Rightarrow> wseat_rec) \<Rightarrow> wseat \<Rightarrow> seat_state \<Rightarrow> seat_state" where
  "mod_wseat f k s = s\<lparr>objects := (objects s)(k := map_option f (objects s k))\<rparr>"

definition sm_emit :: "seat_signal \<Rightarrow> seat_state \<Rightarrow> seat_state" where
  "sm_emit e s = s\<lparr>sm_signals := sm_signals s @ [e]\<rparr>"

definition deviceList :: "seat_state \<Rightarrow> wseat \<Rightarrow> did list" where
  "deviceList s k = (case objects s k of None \<Rightarrow> [] | Some w \<Rightarrow> st_devices w)"

text \<open>\<^verbatim>\<open>WCursor\<close>.\<close>

definition cursor_attachInputDevice :: "cursor \<Rightarrow> did \<Rightarrow> seat_state \<Rightarrow> seat_state result" where
  "cursor_attachInputDevice c d s =
     (if dv_type (device s d) \<notin> {DevPointer, DevTouch, DevTablet} then Inr s
      else
        rbind (qassert (d \<notin> set (cursorDevices s c))) (\<lambda>_.
        Inr (s\<lparr>cursorDevices := (cursorDevices s)(c := cursorDevices s c @ [d])\<rparr>)))"

definition cursor_detachInputDevice :: "cursor \<Rightarrow> did \<Rightarrow> seat_state \<Rightarrow> seat_state" where
  "cursor_detachInputDevice c d s = s\<lparr>cursorDevices := (cursorDevices s)(c := remove1 d (cursorDevices s c))\<rparr>"

text \<open>\<^verbatim>\<open>WSeat\<close> and its private part.\<close>

definition seatp_attachInputDevice :: "did \<Rightarrow> wseat \<Rightarrow> seat_state \<Rightarrow> seat_state" where
  "seatp_attachInputDevice d k s = s\<lparr>deviceSeat := (deviceSeat s)(d := Some k), qtDevice := (qtDevice s)(d := True)\<rparr>"

definition seatp_detachInputDevice :: "did \<Rightarrow> wseat \<Rightarrow> seat_state \<Rightarrow> seat_state result" where
  "seatp_detachInputDevice d k s =
     rbind (with_seat k s) (\<lambda>w.
     let t = dv_type (device s d);
         s = (case st_cursor w of Some c \<Rightarrow> if t = DevPointer then cursor_detachInputDevice c d s else s | None \<Rightarrow> s);
         s = (if t = DevTouch then mod_wseat (\<lambda>w. w\<lparr>st_touch := remove1 d (st_touch w)\<rparr>) k s else s) in
     rbind (if t = DevKeyboard \<and> \<not> dv_virtual (device s d) \<and> \<not> st_handle w then Inl NullDeref else Inr ()) (\<lambda>_.
     rbind (qassert (qtDevice s d)) (\<lambda>_.
     Inr (s\<lparr>qtDevice := (qtDevice s)(d := False)\<rparr>))))"

definition seat_attachInputDevice :: "did \<Rightarrow> wseat \<Rightarrow> seat_state \<Rightarrow> seat_state result" where
  "seat_attachInputDevice d k s =
     rbind (qassert (deviceSeat s d = None)) (\<lambda>_.
     rbind (with_seat k s) (\<lambda>w.
     let s = mod_wseat (\<lambda>w. w\<lparr>st_devices := st_devices w @ [d]\<rparr>) k s in
     rbind (if st_handle w then
              let s = seatp_attachInputDevice d k s in
              (case st_cursor w of Some c \<Rightarrow> cursor_attachInputDevice c d s | None \<Rightarrow> Inr s)
            else Inr s) (\<lambda>s.
     Inr (if dv_type (device s d) = DevTouch then mod_wseat (\<lambda>w. w\<lparr>st_touch := st_touch w @ [d]\<rparr>) k s else s))))"

definition seat_detachInputDevice :: "did \<Rightarrow> wseat \<Rightarrow> seat_state \<Rightarrow> seat_state result" where
  "seat_detachInputDevice d k s =
     (if d \<notin> set (deviceList s k) then Inr s
      else
        let s = mod_wseat (\<lambda>w. w\<lparr>st_devices := remove1 d (st_devices w)\<rparr>) k s;
            s = s\<lparr>deviceSeat := (deviceSeat s)(d := None)\<rparr>
        in seatp_detachInputDevice d k s)"

definition seat_setCursor :: "cursor option \<Rightarrow> wseat \<Rightarrow> seat_state \<Rightarrow> seat_state result" where
  "seat_setCursor c k s =
     rbind (with_seat k s) (\<lambda>w.
     if st_cursor w = c then Inr s
     else
       rbind (qassert (case c of None \<Rightarrow> True | Some c \<Rightarrow> cursorSeat s c = None)) (\<lambda>_.
       let s = (case st_cursor w of None \<Rightarrow> s
                | Some b \<Rightarrow> (fold (cursor_detachInputDevice b) (st_devices w) s)\<lparr>cursorSeat := (cursorSeat s)(b := None)\<rparr>);
           s = mod_wseat (\<lambda>w. w\<lparr>st_cursor := c\<rparr>) k s in
       case c of
         None \<Rightarrow> Inr s
       | Some c \<Rightarrow>
           if st_handle w then
             rfold (cursor_attachInputDevice c) (st_devices w) (s\<lparr>cursorSeat := (cursorSeat s)(c := Some k)\<rparr>)
           else Inr s))"

definition seat_create :: "wseat \<Rightarrow> seat_state \<Rightarrow> seat_state result" where
  "seat_create k s =
     rbind (with_seat k s) (\<lambda>w.
     let s = mod_wseat (\<lambda>w. w\<lparr>st_handle := True\<rparr>) k s in
     rbind (rfold (\<lambda>d s.
              let s = seatp_attachInputDevice d k s in
              case st_cursor w of Some c \<Rightarrow> cursor_attachInputDevice c d s | None \<Rightarrow> Inr s) (st_devices w) s) (\<lambda>s.
     Inr (case st_cursor w of Some c \<Rightarrow> s\<lparr>cursorSeat := (cursorSeat s)(c := Some k)\<rparr> | None \<Rightarrow> s)))"

definition seat_destroy :: "wseat \<Rightarrow> seat_state \<Rightarrow> seat_state result" where
  "seat_destroy k s =
     (let s = s\<lparr>deviceSeat := (\<lambda>d. if d \<in> set (deviceList s k) then None else deviceSeat s d)\<rparr>;
          s = mod_wseat (\<lambda>w. w\<lparr>st_devices := []\<rparr>) k s in
      rbind (seat_setCursor None k s) (\<lambda>s. Inr (mod_wseat (\<lambda>w. w\<lparr>st_handle := False\<rparr>) k s)))"

definition server_attach :: "wseat \<Rightarrow> seat_state \<Rightarrow> seat_state result" where
  "server_attach k s =
     rbind (with_seat k s) (\<lambda>w.
     rbind (qassert (\<not> st_attached w)) (\<lambda>_.
     let s = mod_wseat (\<lambda>w. w\<lparr>st_attached := True\<rparr>) k s in
     if serverRunning s then seat_create k s else Inr s))"

definition server_detach :: "wseat \<Rightarrow> seat_state \<Rightarrow> seat_state result" where
  "server_detach k s =
     rbind (with_seat k s) (\<lambda>w.
     if \<not> st_attached w then Inr s
     else
       let s = mod_wseat (\<lambda>w. w\<lparr>st_attached := False\<rparr>) k s in
       if serverRunning s then seat_destroy k s else Inr s)"

definition delete_seat :: "wseat \<Rightarrow> seat_state \<Rightarrow> seat_state result" where
  "delete_seat k s =
     rbind (rfold (\<lambda>d. seatp_detachInputDevice d k) (deviceList s k) s) (\<lambda>s.
     Inr (s\<lparr>objects := (objects s)(k := None)\<rparr>))"

section \<open>Seats\<close>

definition seat0 :: string where "seat0 = ''seat0''"

definition announce :: "string \<times> wseat \<Rightarrow> seat_state \<Rightarrow> seat_state" where
  "announce e s = sm_emit (SeatAdded (snd e)) (s\<lparr>sm_seats := qput (fst e) (snd e) (sm_seats s)\<rparr>)"

definition new_seat :: "string \<Rightarrow> wseat_rec" where
  "new_seat name = \<lparr>st_name = name, st_devices = [], st_touch = [], st_attached = False, st_handle = False, st_cursor = None,
     st_focusWindow = False, st_filter = False\<rparr>"

text \<open>A seat is known only when its configuration is there, or has failed.\<close>

definition createSeat :: "string \<Rightarrow> bool \<Rightarrow> seat_state \<Rightarrow> wseat \<times> seat_state" where
  "createSeat name isFallback s =
     (case qget (sm_seats s) name of
        Some k \<Rightarrow> (k, s)
      | None \<Rightarrow>
          let k = nextSeat s;
              s = s\<lparr>objects := (objects s)(k \<mapsto> new_seat name), nextSeat := Suc k\<rparr>;
              s = (if isFallback then s\<lparr>sm_default := Some k\<rparr> else s) in
          (k, if configReady s name then announce (name, k) s
              else s\<lparr>sm_pending := sm_pending s @ [(name, k)]\<rparr>))"

text \<open>The configuration of a seat is initialized or fails: the seats waiting for it are announced.\<close>

definition configInitialized :: "string \<Rightarrow> seat_state \<Rightarrow> seat_state" where
  "configInitialized name s =
     fold announce (filter (\<lambda>e. fst e = name) (sm_pending s))
       (s\<lparr>configReady := (configReady s)(name := True), sm_pending := filter (\<lambda>e. fst e \<noteq> name) (sm_pending s)\<rparr>)"

definition clearDeviceCache :: "did \<Rightarrow> seat_state \<Rightarrow> seat_state" where
  "clearDeviceCache d s = s\<lparr>sm_cache := (sm_cache s)(d := None)\<rparr>"

section \<open>Rules\<close>

definition deviceRules :: "string \<Rightarrow> seat_state \<Rightarrow> string list" where
  "deviceRules name s = qval (sm_rules s) name []"

definition addDeviceRule :: "string \<Rightarrow> string \<Rightarrow> seat_state \<Rightarrow> seat_state" where
  "addDeviceRule name rule s =
     (if name = [] \<or> rule = [] \<or> \<not> qhas (sm_seats s) name \<or> \<not> regexValid s rule then s
      else if rule \<in> set (qval (sm_rules s) name []) then s
      else s\<lparr>sm_rules := qput name (qval (sm_rules s) name [] @ [rule]) (sm_rules s)\<rparr>)"

definition removeDeviceRule :: "string \<Rightarrow> string \<Rightarrow> seat_state \<Rightarrow> seat_state" where
  "removeDeviceRule name rule s =
     (if \<not> qhas (sm_rules s) name \<or> \<not> regexValid s rule then s
      else
        let rules = remove1 rule (qval (sm_rules s) name []) in
        s\<lparr>sm_rules := (if rules = [] then qdel name (sm_rules s) else qput name rules (sm_rules s))\<rparr>)"

definition deviceInfo :: "input_device \<Rightarrow> string" where
  "deviceInfo v = qarg (qarg ''%1:%2'' (type_digit (dv_type v))) (dv_name v)"

definition deviceInfoWithPath :: "input_device \<Rightarrow> string" where
  "deviceInfoWithPath v = qarg (qarg (qarg ''%1:%2|%3'' (type_digit (dv_type v))) (dv_name v)) (dv_path v)"

definition matchesDevice :: "did \<Rightarrow> string list \<Rightarrow> seat_state \<Rightarrow> bool" where
  "matchesDevice d rules s =
     (\<exists>r\<in>set rules. regexMatch s r (deviceInfo (device s d)) \<or> regexMatch s r (deviceInfoWithPath (device s d)))"

definition seatName :: "seat_state \<Rightarrow> wseat \<Rightarrow> string" where
  "seatName s k = (case objects s k of None \<Rightarrow> [] | Some w \<Rightarrow> st_name w)"

definition deviceMatchesSeat :: "did \<Rightarrow> wseat \<Rightarrow> seat_state \<Rightarrow> bool" where
  "deviceMatchesSeat d k s =
     (case qget (sm_rules s) (seatName s k) of None \<Rightarrow> False | Some rules \<Rightarrow> matchesDevice d rules s)"

text \<open>The seat that has the device, in the order of the names.\<close>

definition holder :: "did \<Rightarrow> seat_state \<Rightarrow> wseat option" where
  "holder d s = find (\<lambda>k. d \<in> set (deviceList s k)) (map snd (sm_seats s))"

definition findSeatForDevice :: "did \<Rightarrow> seat_state \<Rightarrow> wseat option" where
  "findSeatForDevice d s =
     (case holder d s of
        Some k \<Rightarrow> Some k
      | None \<Rightarrow>
          (case find (\<lambda>k. Some k \<noteq> sm_default s \<and> deviceMatchesSeat d k s) (map snd (sm_seats s)) of
             Some k \<Rightarrow> Some k
           | None \<Rightarrow>
               (case sm_default s of
                  None \<Rightarrow> None
                | Some f \<Rightarrow>
                    let hasRules = (qval (sm_rules s) (seatName s f) [] \<noteq> []) in
                    if hasRules \<and> deviceMatchesSeat d f s then Some f
                    else if \<not> hasRules then Some f
                    else None)))"

section \<open>Devices\<close>

definition assignDeviceToSeat :: "did \<Rightarrow> string \<Rightarrow> seat_state \<Rightarrow> seat_state result" where
  "assignDeviceToSeat d name s =
     (let attach = (\<lambda>s. case qget (sm_seats s) name of
            Some k \<Rightarrow> seat_attachInputDevice d k s
          | None \<Rightarrow> (case sm_default s of Some k \<Rightarrow> seat_attachInputDevice d k s | None \<Rightarrow> Inr s)) in
      case holder d s of
        None \<Rightarrow> attach s
      | Some k \<Rightarrow> if seatName s k = name then Inr s else rbind (seat_detachInputDevice d k s) attach)"

definition autoAssignDevice :: "did \<Rightarrow> seat_state \<Rightarrow> (wseat option \<times> seat_state) result" where
  "autoAssignDevice d s =
     (case holder d s of
        Some k \<Rightarrow> Inr (Some k, s)
      | None \<Rightarrow>
          (case findSeatForDevice d s of
             Some k \<Rightarrow> rbind (seat_attachInputDevice d k s) (\<lambda>s. Inr (Some k, s))
           | None \<Rightarrow>
               (case sm_default s of
                  Some k \<Rightarrow> rbind (seat_attachInputDevice d k s) (\<lambda>s. Inr (Some k, s))
                | None \<Rightarrow> Inr (None, s))))"

definition removeSeat :: "string \<Rightarrow> seat_state \<Rightarrow> seat_state result" where
  "removeSeat name s =
     (case qget (sm_seats s) name of
        None \<Rightarrow> Inr s
      | Some k \<Rightarrow>
          let s = s\<lparr>sm_seats := qdel name (sm_seats s)\<rparr>;
              s = (if sm_default s = Some k
                   then s\<lparr>sm_default := (case sm_seats s of [] \<Rightarrow> None | e # _ \<Rightarrow> Some (snd e))\<rparr> else s) in
          rbind (rfold (\<lambda>d s.
              rbind (seat_detachInputDevice d k s) (\<lambda>s.
              let s = clearDeviceCache d s in
              if sm_seats s = [] then Inr s
              else rbind (autoAssignDevice d s) (\<lambda>(j, s).
                   Inr (case j of None \<Rightarrow> s | Some j \<Rightarrow> sm_emit (DeviceReassigned d k j) s)))) (deviceList s k) s) (\<lambda>s.
          rbind (server_detach k s) (\<lambda>s.
          rbind (delete_seat k (sm_emit (SeatRemoved k) s)) (\<lambda>s.
          Inr (s\<lparr>sm_rules := qdel name (sm_rules s)\<rparr>)))))"

definition removeSeatObject :: "wseat \<Rightarrow> seat_state \<Rightarrow> seat_state result" where
  "removeSeatObject k s =
     (case find (\<lambda>e. snd e = k) (sm_seats s) of
        None \<Rightarrow> Inr s
      | Some e \<Rightarrow> if fst e = [] then Inr s else removeSeat (fst e) s)"

text \<open>\<open>primary\<close> is the seat given to \<^verbatim>\<open>assignDevice\<close> for devices no seat takes.\<close>

definition assignDevice :: "did \<Rightarrow> wseat option \<Rightarrow> seat_state \<Rightarrow> seat_state result" where
  "assignDevice d primary s =
     rbind (autoAssignDevice d s) (\<lambda>(assigned, s).
     rbind (if assigned = None then
              (case primary of
                 None \<Rightarrow> Inr (None, s)
               | Some p \<Rightarrow>
                   rbind (with_seat p s) (\<lambda>w.
                   if st_handle w then rbind (seat_attachInputDevice d p s) (\<lambda>s. Inr (Some p, s)) else Inr (None, s)))
            else Inr (assigned, s)) (\<lambda>(assigned, s).
     case assigned of
       None \<Rightarrow> Inr s
     | Some k \<Rightarrow>
         rbind (with_seat k s) (\<lambda>w.
         rbind (if dv_type (device s d) = DevPointer \<and> st_cursor w = None
                then seat_setCursor (Some (SeatCursor k)) k s else Inr s) (\<lambda>s.
         let s = (if dv_type (device s d) = DevKeyboard \<and> \<not> st_focusWindow w
                  then mod_wseat (\<lambda>w. w\<lparr>st_focusWindow := True\<rparr>) k s else s) in
         Inr (sm_emit (DeviceAssigned d) (s\<lparr>sm_cache := (sm_cache s)(d \<mapsto> Some k)\<rparr>))))))"

definition getSeatForDevice :: "did \<Rightarrow> seat_state \<Rightarrow> wseat option \<times> seat_state" where
  "getSeatForDevice d s =
     (case sm_cache s d of
        Some k \<Rightarrow> (k, s)
      | None \<Rightarrow> let k = findSeatForDevice d s in (k, s\<lparr>sm_cache := (sm_cache s)(d \<mapsto> k)\<rparr>))"

definition getSeatForEvent :: "did option \<Rightarrow> seat_state \<Rightarrow> wseat option" where
  "getSeatForEvent dev s =
     (case dev of None \<Rightarrow> sm_default s
      | Some d \<Rightarrow> (case deviceSeat s d of Some k \<Rightarrow> Some k | None \<Rightarrow> sm_default s))"

text \<open>The backend's devices: added ones are given to \<^verbatim>\<open>assignDevice\<close> by the server.\<close>

definition inputAdded :: "wseat option \<Rightarrow> did \<Rightarrow> seat_state \<Rightarrow> seat_state result" where
  "inputAdded primary d s = assignDevice d primary (sm_emit (DeviceAdded d) s)"

definition inputRemoved :: "did \<Rightarrow> seat_state \<Rightarrow> seat_state result" where
  "inputRemoved d s =
     (let s = clearDeviceCache d s in
      rbind (case holder d s of None \<Rightarrow> Inr s | Some k \<Rightarrow> seat_detachInputDevice d k s) (\<lambda>s.
      Inr (sm_emit (DeviceRemoved d) s)))"

definition assignExistingDevices :: "wseat option \<Rightarrow> did list \<Rightarrow> seat_state \<Rightarrow> seat_state result" where
  "assignExistingDevices primary = rfold (inputAdded primary)"

section \<open>Configuration\<close>

text \<open>JSON values as Qt has them; the accessors of \<^verbatim>\<open>QJsonValue\<close> give a default for a value of another kind.\<close>

datatype json = JNull | JBool bool | JNum real | JStr string | JArr "json list" | JObj "(string \<times> json) list"

definition jget :: "json \<Rightarrow> string \<Rightarrow> json option" where
  "jget v key = (case v of JObj es \<Rightarrow> qget es key | _ \<Rightarrow> None)"

definition jval :: "json \<Rightarrow> string \<Rightarrow> json" where
  "jval v key = (case jget v key of None \<Rightarrow> JNull | Some w \<Rightarrow> w)"

definition toString :: "json \<Rightarrow> string" where
  "toString v = (case v of JStr t \<Rightarrow> t | _ \<Rightarrow> [])"

definition toBool :: "json \<Rightarrow> bool" where
  "toBool v = (case v of JBool b \<Rightarrow> b | _ \<Rightarrow> False)"

definition toArray :: "json \<Rightarrow> json list" where
  "toArray v = (case v of JArr vs \<Rightarrow> vs | _ \<Rightarrow> [])"

definition isArray :: "json \<Rightarrow> bool" where
  "isArray v = (case v of JArr _ \<Rightarrow> True | _ \<Rightarrow> False)"

definition isObject :: "json \<Rightarrow> bool" where
  "isObject v = (case v of JObj _ \<Rightarrow> True | _ \<Rightarrow> False)"

definition isString :: "json \<Rightarrow> bool" where
  "isString v = (case v of JStr _ \<Rightarrow> True | _ \<Rightarrow> False)"

definition loadSeat :: "json \<Rightarrow> seat_state \<Rightarrow> seat_state" where
  "loadSeat v s =
     (let name = toString (jval v ''name'') in
      fold (\<lambda>r. addDeviceRule name (toString r)) (toArray (jval v ''deviceRules''))
        (snd (createSeat name (toBool (jval v ''fallback'')) s)))"

definition loadConfig :: "json \<Rightarrow> seat_state \<Rightarrow> seat_state result" where
  "loadConfig config s =
     (let old = map snd (sm_seats s) in
      rbind (rfold (\<lambda>k s. rbind (server_detach k s) (\<lambda>s. delete_seat k (sm_emit (SeatRemoved k) s))) old
               (s\<lparr>sm_seats := [], sm_rules := [], sm_default := None\<rparr>)) (\<lambda>s.
      let s = fold loadSeat (toArray (jval config ''seats'')) s;
          s = (if sm_seats s = [] then snd (createSeat seat0 True s) else s) in
      Inr (case sm_default s of
             Some _ \<Rightarrow> s
           | None \<Rightarrow> (case sm_seats s of [] \<Rightarrow> s | e # _ \<Rightarrow> s\<lparr>sm_default := Some (snd e)\<rparr>))))"

fun validSeats :: "bool \<Rightarrow> json list \<Rightarrow> bool" where
    "validSeats hasFallback [] = True"
  | "validSeats hasFallback (v # vs) =
       (if \<not> isObject v then False
        else if \<not> (case jget v ''name'' of None \<Rightarrow> False | Some n \<Rightarrow> isString n) then False
        else if toBool (jval v ''fallback'') \<and> hasFallback then False
        else if (case jget v ''deviceRules'' of None \<Rightarrow> False | Some r \<Rightarrow> \<not> isArray r) then False
        else validSeats (hasFallback \<or> toBool (jval v ''fallback'')) vs)"

definition validateConfig :: "json \<Rightarrow> bool" where
  "validateConfig config =
     (case jget config ''seats'' of None \<Rightarrow> False | Some v \<Rightarrow> isArray v \<and> validSeats False (toArray v))"

text \<open>\<open>document\<close> is what Qt parses the file into, \<open>None\<close> when it cannot be read or parsed.\<close>

definition loadConfigFromFile :: "json option \<Rightarrow> seat_state \<Rightarrow> (bool \<times> seat_state) result" where
  "loadConfigFromFile document s =
     (case document of
        None \<Rightarrow> Inr (False, s)
      | Some config \<Rightarrow>
          if \<not> isObject config then Inr (False, s)
          else if \<not> validateConfig config then Inr (False, s)
          else rbind (loadConfig config s) (\<lambda>s. Inr (True, s)))"

definition saveConfig :: "seat_state \<Rightarrow> json" where
  "saveConfig s = JObj [(''seats'', JArr (map (\<lambda>(name, k).
     JObj [(''deviceRules'', JArr (map JStr (deviceRules name s))), (''fallback'', JBool (Some k = sm_default s)), (''name'', JStr name)])
     (sm_seats s)))]"

definition ensureDefaultDeviceRules :: "string \<Rightarrow> seat_state \<Rightarrow> seat_state" where
  "ensureDefaultDeviceRules name s =
     (if deviceRules name s \<noteq> [] then s
      else fold (\<lambda>t. addDeviceRule name (qarg ''%1:.*'' (type_digit t))) [DevKeyboard, DevPointer, DevTouch] s)"

definition initializeDefaultSeat :: "seat_state \<Rightarrow> seat_state" where
  "initializeDefaultSeat s =
     (if sm_seats s \<noteq> [] then s else ensureDefaultDeviceRules seat0 (snd (createSeat seat0 True s)))"

definition initializeFromConfig :: "json option \<Rightarrow> seat_state \<Rightarrow> (wseat option \<times> seat_state) result" where
  "initializeFromConfig document s =
     rbind (loadConfigFromFile document s) (\<lambda>(_, s).
     let s = (if sm_seats s = [] then initializeDefaultSeat s else s);
         primary = (case sm_default s of Some k \<Rightarrow> Some k | None \<Rightarrow> (case sm_seats s of [] \<Rightarrow> None | e # _ \<Rightarrow> Some (snd e))) in
     case primary of
       None \<Rightarrow> Inr (None, s)
     | Some p \<Rightarrow>
         let s = ensureDefaultDeviceRules (seatName s p) s in
         rbind (if serverRunning s then
                  rfold (\<lambda>k s. rbind (with_seat k s) (\<lambda>w. if st_attached w then Inr s else server_attach k s)) (map snd (sm_seats s)) s
                else Inr s) (\<lambda>s.
         Inr (Some p, s)))"

definition setupSeat :: "wseat \<Rightarrow> seat_state \<Rightarrow> seat_state result" where
  "setupSeat k s =
     rbind (with_seat k s) (\<lambda>w.
     if \<not> st_handle w then Inr s
     else
       rbind (if st_cursor w \<noteq> None then Inr s
              else seat_setCursor (Some (if st_name w = seat0 then SharedCursor else SeatCursor k)) k s) (\<lambda>s.
       Inr (mod_wseat (\<lambda>w. w\<lparr>st_focusWindow := True, st_filter := True\<rparr>) k s)))"

definition setupAllSeats :: "seat_state \<Rightarrow> seat_state result" where
  "setupAllSeats s = rfold setupSeat (map snd (sm_seats s)) s"

end
