(* ===== verification/Seat_Objects.thy ===== *)
theory Seat_Objects
  imports Seat_Manager
begin

text \<open>
  What the operations of one seat object leave alone (src/src/seat/seatmanager.cpp and \<^verbatim>\<open>WSeat\<close> of
  src/waylib): the manager's own lists, every other seat object and the name of the seat.
\<close>

definition obj_frame :: "wseat \<Rightarrow> seat_state \<Rightarrow> seat_state \<Rightarrow> bool" where
  "obj_frame k s t =
     (sm_seats t = sm_seats s \<and> sm_rules t = sm_rules s \<and> sm_default t = sm_default s \<and> sm_pending t = sm_pending s
      \<and> sm_cache t = sm_cache s \<and> sm_signals t = sm_signals s
      \<and> nextSeat t = nextSeat s \<and> device t = device s \<and> configReady t = configReady s \<and> regexValid t = regexValid s
      \<and> regexMatch t = regexMatch s \<and> serverRunning t = serverRunning s
      \<and> (\<forall>j. j \<noteq> k \<longrightarrow> objects t j = objects s j) \<and> map_option st_name (objects t k) = map_option st_name (objects s k))"

lemma obj_frame_refl [simp, intro]: "obj_frame k s s"
  by (simp add: obj_frame_def)

lemma obj_frame_trans: "obj_frame k s t \<Longrightarrow> obj_frame k t u \<Longrightarrow> obj_frame k s u"
  by (simp add: obj_frame_def)

lemma obj_frame_fields:
  assumes "obj_frame k s t"
  shows "sm_seats t = sm_seats s" "sm_rules t = sm_rules s" "sm_default t = sm_default s" "sm_pending t = sm_pending s"
    "sm_cache t = sm_cache s" "nextSeat t = nextSeat s" "device t = device s" "configReady t = configReady s"
    "regexValid t = regexValid s" "regexMatch t = regexMatch s" "serverRunning t = serverRunning s"
    "j \<noteq> k \<Longrightarrow> objects t j = objects s j" "objects t j = None \<longleftrightarrow> objects s j = None" "seatName t j = seatName s j"
proof -
  have o: "map_option st_name (objects t j) = map_option st_name (objects s j)"
    using assms by (cases "j = k") (simp_all add: obj_frame_def)
  then show "objects t j = None \<longleftrightarrow> objects s j = None" by (metis option.map_disc_iff)
  show "seatName t j = seatName s j" using o by (cases "objects t j"; cases "objects s j") (simp_all add: seatName_def)
qed (use assms in \<open>simp_all add: obj_frame_def\<close>)

lemma frame_mod [intro]: "(\<And>w. st_name (f w) = st_name w) \<Longrightarrow> obj_frame k s (mod_wseat f k s)"
  by (simp add: obj_frame_def mod_wseat_def option.map_comp o_def)

lemma frame_steps [intro]:
  "obj_frame k s (cursor_detachInputDevice c d s)" "obj_frame k s (seatp_attachInputDevice d j s)"
  "obj_frame k s (s\<lparr>cursorSeat := f\<rparr>)" "obj_frame k s (s\<lparr>deviceSeat := g\<rparr>)" "obj_frame k s (s\<lparr>qtDevice := q\<rparr>)"
  "obj_frame k s (s\<lparr>cursorDevices := h\<rparr>)"
  by (simp_all add: obj_frame_def cursor_detachInputDevice_def seatp_attachInputDevice_def)

lemma frame_cursor_attach: "cursor_attachInputDevice c d s = Inr t \<Longrightarrow> obj_frame k s t"
  by (auto simp: cursor_attachInputDevice_def rbind_Inr_iff split: if_splits)

lemma frame_rfold:
  assumes "rfold f xs s = Inr t" "\<And>x s t. f x s = Inr t \<Longrightarrow> obj_frame k s t"
  shows "obj_frame k s t"
  using rfold_invariant [where P = "obj_frame k s", OF assms(1)] assms(2) obj_frame_trans by blast

lemma frame_fold: "(\<And>x s. obj_frame k s (f x s)) \<Longrightarrow> obj_frame k s (fold f xs s)"
  using fold_invariant_set [where P = "obj_frame k s"] obj_frame_trans by blast

lemma frame_detachp:
  assumes "seatp_detachInputDevice d k s = Inr t"
  shows "obj_frame k s t"
proof -
  obtain w where w: "with_seat k s = Inr w" using assms by (auto simp: seatp_detachInputDevice_def elim: rbind_InrE)
  define u where "u = (case st_cursor w of Some c \<Rightarrow> if dv_type (device s d) = DevPointer then cursor_detachInputDevice c d s else s | None \<Rightarrow> s)"
  define v where "v = (if dv_type (device s d) = DevTouch then mod_wseat (\<lambda>w. w\<lparr>st_touch := remove1 d (st_touch w)\<rparr>) k u else u)"
  have u: "obj_frame k s u" unfolding u_def by (auto split: option.split)
  have "obj_frame k u v" unfolding v_def by (auto intro!: frame_mod)
  then have v: "obj_frame k s v" using u obj_frame_trans by blast
  have "t = v\<lparr>qtDevice := (qtDevice v)(d := False)\<rparr>"
    using assms unfolding seatp_detachInputDevice_def w rbind_simps Let_def u_def [symmetric] v_def [symmetric]
    by (elim rbind_InrE) simp
  then show ?thesis using obj_frame_trans [OF v frame_steps(5)] by simp
qed

lemma frame_attach:
  assumes "seat_attachInputDevice d k s = Inr t"
  shows "obj_frame k s t"
proof -
  obtain w where w: "with_seat k s = Inr w" using assms by (auto simp: seat_attachInputDevice_def elim!: rbind_InrE)
  let ?u = "mod_wseat (\<lambda>w. w\<lparr>st_devices := st_devices w @ [d]\<rparr>) k s"
  obtain v where v: "(if st_handle w then
              let s = seatp_attachInputDevice d k ?u in
              (case st_cursor w of Some c \<Rightarrow> cursor_attachInputDevice c d s | None \<Rightarrow> Inr s)
            else Inr ?u) = Inr v"
    "t = (if dv_type (device v d) = DevTouch then mod_wseat (\<lambda>w. w\<lparr>st_touch := st_touch w @ [d]\<rparr>) k v else v)"
    using assms w by (auto simp: seat_attachInputDevice_def Let_def rbind_Inr_iff)
  have "obj_frame k s ?u" by (rule frame_mod) simp
  moreover have "obj_frame k ?u v"
    using v(1) obj_frame_trans [OF frame_steps(2) frame_cursor_attach] by (auto simp: Let_def split: if_splits option.splits)
  moreover have "obj_frame k v t" unfolding v(2) by (auto intro!: frame_mod)
  ultimately show ?thesis using obj_frame_trans by blast
qed

lemma frame_detach:
  assumes "seat_detachInputDevice d k s = Inr t"
  shows "obj_frame k s t"
proof (cases "d \<in> set (deviceList s k)")
  case True
  let ?u = "mod_wseat (\<lambda>w. w\<lparr>st_devices := remove1 d (st_devices w)\<rparr>) k s"
  have "seatp_detachInputDevice d k (?u\<lparr>deviceSeat := (deviceSeat ?u)(d := None)\<rparr>) = Inr t"
    using assms True by (simp add: seat_detachInputDevice_def Let_def)
  then have "obj_frame k (?u\<lparr>deviceSeat := (deviceSeat ?u)(d := None)\<rparr>) t" by (rule frame_detachp)
  moreover have "obj_frame k s ?u" by (rule frame_mod) simp
  ultimately show ?thesis using obj_frame_trans frame_steps(4) by blast
qed (use assms in \<open>simp add: seat_detachInputDevice_def\<close>)

lemma frame_setCursor:
  assumes "seat_setCursor c k s = Inr t"
  shows "obj_frame k s t"
proof -
  obtain w where w: "with_seat k s = Inr w" using assms by (auto simp: seat_setCursor_def elim!: rbind_InrE)
  show ?thesis
  proof (cases "st_cursor w = c")
    case False
    let ?a = "case st_cursor w of None \<Rightarrow> s
                | Some b \<Rightarrow> (fold (cursor_detachInputDevice b) (st_devices w) s)\<lparr>cursorSeat := (cursorSeat s)(b := None)\<rparr>"
    let ?b = "mod_wseat (\<lambda>w. w\<lparr>st_cursor := c\<rparr>) k ?a"
    have a: "obj_frame k s ?a"
      using obj_frame_trans [OF frame_fold [OF frame_steps(1)] frame_steps(3)] by (auto split: option.split)
    have "obj_frame k ?a ?b" by (rule frame_mod) simp
    then have b: "obj_frame k s ?b" using a obj_frame_trans by blast
    have t: "(case c of None \<Rightarrow> Inr ?b
       | Some c \<Rightarrow> if st_handle w then rfold (cursor_attachInputDevice c) (st_devices w) (?b\<lparr>cursorSeat := (cursorSeat ?b)(c := Some k)\<rparr>)
           else Inr ?b) = Inr t"
      using assms w False by (auto simp: seat_setCursor_def Let_def rbind_Inr_iff)
    have "obj_frame k ?b t"
      using t obj_frame_trans [OF frame_steps(3) frame_rfold [OF _ frame_cursor_attach]]
      by (auto split: option.splits if_splits)
    then show ?thesis using b obj_frame_trans by blast
  qed (use assms w in \<open>auto simp: seat_setCursor_def\<close>)
qed

lemma frame_create:
  assumes "seat_create k s = Inr t"
  shows "obj_frame k s t"
proof -
  obtain w where w: "with_seat k s = Inr w" using assms by (auto simp: seat_create_def elim!: rbind_InrE)
  let ?u = "mod_wseat (\<lambda>w. w\<lparr>st_handle := True\<rparr>) k s"
  let ?f = "\<lambda>d s. case st_cursor w of Some c \<Rightarrow> cursor_attachInputDevice c d (seatp_attachInputDevice d k s) | None \<Rightarrow> Inr (seatp_attachInputDevice d k s)"
  obtain v where v: "rfold ?f (st_devices w) ?u = Inr v"
    "t = (case st_cursor w of Some c \<Rightarrow> v\<lparr>cursorSeat := (cursorSeat v)(c := Some k)\<rparr> | None \<Rightarrow> v)"
    using assms w by (auto simp: seat_create_def Let_def rbind_Inr_iff)
  have "obj_frame k s ?u" by (rule frame_mod) simp
  moreover have "obj_frame k ?u v"
  proof (rule frame_rfold [OF v(1)])
    fix d s t assume "?f d s = Inr t"
    then show "obj_frame k s t" using obj_frame_trans [OF frame_steps(2) frame_cursor_attach] by (auto split: option.splits)
  qed
  moreover have "obj_frame k v t" unfolding v(2) by (auto split: option.split)
  ultimately show ?thesis using obj_frame_trans by blast
qed

lemma frame_destroy:
  assumes "seat_destroy k s = Inr t"
  shows "obj_frame k s t"
proof -
  let ?a = "s\<lparr>deviceSeat := (\<lambda>d. if d \<in> set (deviceList s k) then None else deviceSeat s d)\<rparr>"
  let ?b = "mod_wseat (\<lambda>w. w\<lparr>st_devices := []\<rparr>) k ?a"
  obtain v where v: "seat_setCursor None k ?b = Inr v" "t = mod_wseat (\<lambda>w. w\<lparr>st_handle := False\<rparr>) k v"
    using assms by (auto simp: seat_destroy_def Let_def rbind_Inr_iff)
  have "obj_frame k s ?a" by (rule frame_steps)
  moreover have "obj_frame k ?a ?b" by (rule frame_mod) simp
  moreover have "obj_frame k ?b v" by (rule frame_setCursor [OF v(1)])
  moreover have "obj_frame k v t" unfolding v(2) by (rule frame_mod) simp
  ultimately show ?thesis using obj_frame_trans by blast
qed

lemma frame_server:
  "server_attach k s = Inr t \<Longrightarrow> obj_frame k s t" "server_detach k s = Inr t \<Longrightarrow> obj_frame k s t"
proof -
  have m: "obj_frame k s (mod_wseat (\<lambda>w. w\<lparr>st_attached := b\<rparr>) k s)" for b by (rule frame_mod) simp
  show "server_attach k s = Inr t \<Longrightarrow> obj_frame k s t"
    using m [of True] obj_frame_trans [OF m [of True] frame_create] by (auto simp: server_attach_def Let_def rbind_Inr_iff split: if_splits)
  show "server_detach k s = Inr t \<Longrightarrow> obj_frame k s t"
    using m [of False] obj_frame_trans [OF m [of False] frame_destroy] by (auto simp: server_detach_def Let_def rbind_Inr_iff split: if_splits)
qed

lemma frame_setup:
  assumes "setupSeat k s = Inr t"
  shows "obj_frame k s t"
proof -
  obtain w where w: "with_seat k s = Inr w" using assms by (auto simp: setupSeat_def elim!: rbind_InrE)
  show ?thesis
  proof (cases "st_handle w")
    case True
    then obtain u where u: "st_cursor w \<noteq> None \<and> u = s \<or> seat_setCursor (Some (if st_name w = seat0 then SharedCursor else SeatCursor k)) k s = Inr u"
      "t = mod_wseat (\<lambda>w. w\<lparr>st_focusWindow := True, st_filter := True\<rparr>) k u"
      using assms w by (auto simp: setupSeat_def rbind_Inr_iff split: if_splits)
    have "obj_frame k s u" using u(1) frame_setCursor by auto
    moreover have "obj_frame k u t" unfolding u(2) by (rule frame_mod) simp
    ultimately show ?thesis using obj_frame_trans by blast
  qed (use assms w in \<open>auto simp: setupSeat_def\<close>)
qed

end
