(* ===== verification/Seat_Config.thy ===== *)
theory Seat_Config
  imports Seat_Objects
begin

text \<open>
  The configuration of the seats (src/src/seat/seatmanager.cpp): what is saved is what is loaded, and what
  happens to a seat whose own configuration is not there yet when the file is loaded.
\<close>

section \<open>Creating seats and rules\<close>

lemma ready_kept [simp]:
  "configReady (snd (createSeat n f s)) = configReady s" "configReady (addDeviceRule n r s) = configReady s"
  "regexValid (snd (createSeat n f s)) = regexValid s" "regexValid (addDeviceRule n r s) = regexValid s"
  by (simp_all add: createSeat_def addDeviceRule_def announce_def sm_emit_def Let_def split: option.split)

lemma rule_kept [simp]:
  "sm_seats (addDeviceRule n r s) = sm_seats s" "sm_default (addDeviceRule n r s) = sm_default s" "objects (addDeviceRule n r s) = objects s"
  "sm_pending (addDeviceRule n r s) = sm_pending s" "nextSeat (addDeviceRule n r s) = nextSeat s"
  by (simp_all add: addDeviceRule_def)

text \<open>Adding rules one after the other to a seat that has none gives the valid ones, each once.\<close>

definition validRules :: "seat_state \<Rightarrow> string list \<Rightarrow> bool" where
  "validRules s rs = (distinct rs \<and> (\<forall>r\<in>set rs. r \<noteq> [] \<and> regexValid s r))"

lemma add_rules:
  assumes "n \<noteq> []" "qhas (sm_seats s) n" "validRules s (deviceRules n s @ rs)"
  shows "fold (addDeviceRule n) rs s = s\<lparr>sm_rules := (if rs = [] then sm_rules s else qput n (deviceRules n s @ rs) (sm_rules s))\<rparr>"
  using assms(3)
proof (induction rs rule: rev_induct)
  case (snoc r rs)
  let ?t = "s\<lparr>sm_rules := (if rs = [] then sm_rules s else qput n (deviceRules n s @ rs) (sm_rules s))\<rparr>"
  have ih: "fold (addDeviceRule n) rs s = ?t" using snoc by (simp add: validRules_def)
  have rules: "qval (sm_rules ?t) n [] = deviceRules n s @ rs" by (simp add: deviceRules_def)
  have put: "qput n v (qput n w m) = qput n v m" for v w and m :: "(string, string list) qmap"
    by (induction m) auto
  show ?case
    using snoc.prems assms(1,2) rules unfolding fold_append o_apply ih
    by (simp add: addDeviceRule_def validRules_def put)
qed simp

section \<open>Saving and loading\<close>

text \<open>What every operation keeps of the seats and their rules.\<close>

definition config_ok :: "seat_state \<Rightarrow> bool" where
  "config_ok s =
     (qok (sm_seats s) \<and> distinct (map snd (sm_seats s))
      \<and> (\<forall>n rs. qget (sm_rules s) n = Some rs \<longrightarrow> rs \<noteq> [] \<and> n \<noteq> [] \<and> qhas (sm_seats s) n \<and> validRules s rs)
      \<and> (\<forall>k. sm_default s = Some k \<longrightarrow> k \<in> snd ` set (sm_seats s)) \<and> (sm_default s = None \<longrightarrow> sm_seats s = []))"

definition savedSeat :: "seat_state \<Rightarrow> string \<times> wseat \<Rightarrow> json" where
  "savedSeat s e = JObj [(''deviceRules'', JArr (map JStr (deviceRules (fst e) s))), (''fallback'', JBool (Some (snd e) = sm_default s)),
     (''name'', JStr (fst e))]"

lemma saveConfig_map: "saveConfig s = JObj [(''seats'', JArr (map (savedSeat s) (sm_seats s)))]"
  by (simp add: saveConfig_def savedSeat_def case_prod_beta)

lemma savedSeat_fields:
  "isObject (savedSeat s e)" "jget (savedSeat s e) ''name'' = Some (JStr (fst e))"
  "toBool (jval (savedSeat s e) ''fallback'') = (Some (snd e) = sm_default s)"
  "jget (savedSeat s e) ''deviceRules'' = Some (JArr (map JStr (deviceRules (fst e) s)))"
  by (simp_all add: savedSeat_def isObject_def jget_def jval_def toBool_def)

lemma qput_above: "\<forall>e\<in>set m. fst e < n \<Longrightarrow> qput n v m = m @ [(n, v)]"
  by (induction m) auto

lemma qget_notin: "n \<notin> fst ` set m \<Longrightarrow> qget m n = None"
  by (induction m) auto

lemma loadSeat_saved:
  "loadSeat (savedSeat s (n, k)) u = fold (addDeviceRule n) (deviceRules n s) (snd (createSeat n (Some k = sm_default s) u))"
  by (simp add: loadSeat_def savedSeat_def jval_def jget_def toString_def toBool_def toArray_def fold_map o_def)

lemma createSeat_new:
  fixes f :: bool
  assumes "\<forall>e\<in>set (sm_seats u). fst e < n" "configReady u n"
  defines "v \<equiv> snd (createSeat n f u)"
  shows "sm_seats v = sm_seats u @ [(n, nextSeat u)]" "sm_rules v = sm_rules u" "nextSeat v = Suc (nextSeat u)"
    "sm_default v = (if f then Some (nextSeat u) else sm_default u)" "sm_pending v = sm_pending u"
    "objects v = (objects u)(nextSeat u \<mapsto> new_seat n)"
proof -
  have "n \<notin> fst ` set (sm_seats u)" using assms(1) by auto
  then have "qget (sm_seats u) n = None" by (rule qget_notin)
  then show "sm_seats v = sm_seats u @ [(n, nextSeat u)]" "sm_rules v = sm_rules u" "nextSeat v = Suc (nextSeat u)"
    "sm_default v = (if f then Some (nextSeat u) else sm_default u)" "sm_pending v = sm_pending u"
    "objects v = (objects u)(nextSeat u \<mapsto> new_seat n)"
    using assms(1,2) by (simp_all add: v_def createSeat_def Let_def announce_def sm_emit_def qput_above)
qed

text \<open>The state after the first entries of a saved configuration.\<close>

definition loaded :: "seat_state \<Rightarrow> (string \<times> wseat) list \<Rightarrow> seat_state \<Rightarrow> bool" where
  "loaded s ps u =
     (map fst (sm_seats u) = map fst ps \<and> distinct (map snd (sm_seats u)) \<and> (\<forall>e\<in>set (sm_seats u). snd e < nextSeat u)
      \<and> (\<forall>n. deviceRules n u = (if n \<in> fst ` set ps then deviceRules n s else []))
      \<and> (\<forall>n k. (n, k) \<in> set ps \<longrightarrow> (Some k = sm_default s) = (qget (sm_seats u) n = sm_default u))
      \<and> ((\<exists>n k. (n, k) \<in> set ps \<and> Some k = sm_default s) = (sm_default u \<noteq> None)) \<and> (\<forall>k. sm_default u = Some k \<longrightarrow> k < nextSeat u)
      \<and> configReady u = (\<lambda>_. True) \<and> regexValid u = regexValid s)"

lemma snd_unique: "distinct (map snd m) \<Longrightarrow> (a, k) \<in> set m \<Longrightarrow> (b, k) \<in> set m \<Longrightarrow> a = b"
  by (induction m) force+

lemma loaded_step:
  assumes "config_ok s" "loaded s ps u" "\<forall>e\<in>set ps. fst e < n" "(n, k) \<in> set (sm_seats s)" "set ps \<subseteq> set (sm_seats s)"
  shows "loaded s (ps @ [(n, k)]) (loadSeat (savedSeat s (n, k)) u)"
proof -
  have "map fst (sm_seats u) = map fst ps" using assms(2) by (simp add: loaded_def)
  from arg_cong [OF this, of set] have fst_u: "fst ` set (sm_seats u) = fst ` set ps" by simp
  then have less: "\<forall>e\<in>set (sm_seats u). fst e < n" using assms(3) by force
  have ready: "configReady u n" "configReady u = (\<lambda>_. True)" "regexValid u = regexValid s" using assms(2) by (simp_all add: loaded_def)
  define v where "v = snd (createSeat n (Some k = sm_default s) u)"
  note v = createSeat_new [OF less ready(1), of "Some k = sm_default s", folded v_def]
  have none: "deviceRules n v = []" using assms(2,3) v(2) by (auto simp: loaded_def deviceRules_def)
  have rules: "deviceRules n s \<noteq> [] \<Longrightarrow> n \<noteq> [] \<and> validRules v (deviceRules n s)"
    using assms(1) ready(3) by (auto simp: config_ok_def deviceRules_def qval_def validRules_def v_def split: option.splits)
  define w where "w = loadSeat (savedSeat s (n, k)) u"
  have w: "w = v\<lparr>sm_rules := (if deviceRules n s = [] then sm_rules v else qput n (deviceRules n s) (sm_rules v))\<rparr>"
  proof (cases "deviceRules n s = []")
    case False
    then show ?thesis
      using add_rules [of n v "deviceRules n s"] rules none v(1) by (simp add: w_def loadSeat_saved v_def [symmetric] qhas_set)
  qed (simp add: w_def loadSeat_saved v_def)
  have dr: "deviceRules m w = (if m = n then deviceRules n s else deviceRules m u)" for m
    using none by (cases "deviceRules n s = []") (auto simp: w deviceRules_def v(2))
  have seats: "sm_seats w = sm_seats u @ [(n, nextSeat u)]" "nextSeat w = Suc (nextSeat u)"
    "sm_default w = (if Some k = sm_default s then Some (nextSeat u) else sm_default u)"
    "configReady w = (\<lambda>_. True)" "regexValid w = regexValid s"
    using v ready by (simp_all add: w) (simp_all add: v_def)
  have get: "qget (sm_seats w) m = (if m = n then Some (nextSeat u) else qget (sm_seats u) m)" for m
  proof -
    have "sm_seats w = qput n (nextSeat u) (sm_seats u)" using less seats(1) by (simp add: qput_above)
    then show ?thesis by simp
  qed
  have old: "qget (sm_seats u) m \<noteq> Some (nextSeat u)" for m
  proof
    assume "qget (sm_seats u) m = Some (nextSeat u)"
    then have "(m, nextSeat u) \<in> set (sm_seats u)" by (rule qget_in_set)
    then show False using assms(2) by (auto simp: loaded_def)
  qed
  have once: "Some k' = sm_default s \<longleftrightarrow> False" if "(n', k') \<in> set ps" "Some k = sm_default s" for n' k'
  proof -
    have "(n', k') \<in> set (sm_seats s)" "n' \<noteq> n" using that(1) assms(3,5) by auto
    then show ?thesis using assms(1,4) that(2) snd_unique [of "sm_seats s" n k n'] by (auto simp: config_ok_def)
  qed
  show ?thesis
    unfolding w_def [symmetric] loaded_def
  proof (intro conjI)
    show "map fst (sm_seats w) = map fst (ps @ [(n, k)])" using assms(2) seats(1) by (simp add: loaded_def)
    show "distinct (map snd (sm_seats w))" using assms(2) seats(1) by (auto simp: loaded_def)
    show "\<forall>e\<in>set (sm_seats w). snd e < nextSeat w" using assms(2) seats(1,2) by (auto simp: loaded_def)
    show "\<forall>m. deviceRules m w = (if m \<in> fst ` set (ps @ [(n, k)]) then deviceRules m s else [])"
      using assms(2) dr by (auto simp: loaded_def)
    show "\<forall>m k'. (m, k') \<in> set (ps @ [(n, k)]) \<longrightarrow> (Some k' = sm_default s) = (qget (sm_seats w) m = sm_default w)"
    proof (intro allI impI)
      fix m k' assume "(m, k') \<in> set (ps @ [(n, k)])"
      then consider "m = n" "k' = k" | "(m, k') \<in> set ps" by auto
      then show "(Some k' = sm_default s) = (qget (sm_seats w) m = sm_default w)"
      proof cases
        case 1
        then show ?thesis using assms(2) by (auto simp: get seats(3) loaded_def)
      next
        case 2
        then have "m \<noteq> n" using assms(3) by auto
        then show ?thesis using 2 assms(2) once old by (auto simp: get seats(3) loaded_def)
      qed
    qed
    show "(\<exists>m k'. (m, k') \<in> set (ps @ [(n, k)]) \<and> Some k' = sm_default s) = (sm_default w \<noteq> None)"
      using assms(2) by (auto simp: loaded_def seats(3))
    show "\<forall>k. sm_default w = Some k \<longrightarrow> k < nextSeat w" using assms(2) by (auto simp: loaded_def seats(2,3))
    show "configReady w = (\<lambda>_. True)" "regexValid w = regexValid s" by (rule seats)+
  qed
qed

lemma loaded_all:
  assumes "config_ok s" "loaded s [] u" "qok (ps @ qs)" "set (ps @ qs) \<subseteq> set (sm_seats s)"
  shows "loaded s ps (fold loadSeat (map (savedSeat s) ps) u)"
  using assms(3,4)
proof (induction ps arbitrary: qs rule: rev_induct)
  case (snoc e ps)
  obtain n k where e: "e = (n, k)" by (cases e)
  have "loaded s ps (fold loadSeat (map (savedSeat s) ps) u)" using snoc.IH [of "e # qs"] snoc.prems by simp
  moreover have "\<forall>e\<in>set ps. fst e < n" using snoc.prems(1) by (auto simp: qok_def sorted_wrt_append e)
  ultimately show ?case using loaded_step [OF assms(1)] snoc.prems(2) by (simp add: e)
qed (simp add: assms(2))


section \<open>Seats whose configuration is late\<close>

definition named_seats :: "seat_state \<Rightarrow> bool" where
  "named_seats s = (\<forall>e\<in>set (sm_seats s) \<union> set (sm_pending s). snd e < nextSeat s \<and> (\<exists>w. objects s (snd e) = Some w \<and> st_name w = fst e))"

definition bare_seats :: "string \<Rightarrow> seat_state \<Rightarrow> bool" where
  "bare_seats n s = (\<forall>k w. objects s k = Some w \<and> st_name w = n \<longrightarrow> \<not> st_attached w \<and> \<not> st_handle w)"

definition waiting :: "string \<Rightarrow> seat_state \<Rightarrow> bool" where
  "waiting n s = (named_seats s \<and> bare_seats n s \<and> \<not> qhas (sm_seats s) n \<and> \<not> qhas (sm_rules s) n \<and> \<not> configReady s n)"

lemma waiting_createSeat:
  assumes "waiting n s"
  shows "waiting n (snd (createSeat m f s))"
proof (cases "qget (sm_seats s) m")
  case None
  define u where "u = s\<lparr>objects := (objects s)(nextSeat s \<mapsto> new_seat m), nextSeat := Suc (nextSeat s), sm_default := (if f then Some (nextSeat s) else sm_default s)\<rparr>"
  have c: "snd (createSeat m f s) = (if configReady s m then announce (m, nextSeat s) u else u\<lparr>sm_pending := sm_pending u @ [(m, nextSeat s)]\<rparr>)"
    using None by (simp add: createSeat_def Let_def u_def)
  have old: "objects u (snd e) = objects s (snd e)" if "e \<in> set (sm_seats s) \<union> set (sm_pending s)" for e
    using that assms by (auto simp: u_def waiting_def named_seats_def dest!: bspec [of _ _ e])
  have names: "snd e < nextSeat u \<and> (\<exists>w. objects u (snd e) = Some w \<and> st_name w = fst e)"
    if "e \<in> insert (m, nextSeat s) (set (sm_seats s) \<union> set (sm_pending s))" for e
  proof (cases "e = (m, nextSeat s)")
    case False
    then have "e \<in> set (sm_seats s) \<union> set (sm_pending s)" using that by blast
    then have "snd e < nextSeat s \<and> (\<exists>w. objects s (snd e) = Some w \<and> st_name w = fst e)" "objects u (snd e) = objects s (snd e)"
      using assms old unfolding waiting_def named_seats_def by blast+
    then show ?thesis by (simp add: u_def)
  qed (simp add: u_def new_seat_def)
  have bare: "bare_seats n u" using assms by (auto simp: bare_seats_def waiting_def u_def new_seat_def)
  have u: "sm_seats u = sm_seats s" "sm_pending u = sm_pending s" "sm_rules u = sm_rules s" "configReady u = configReady s" by (simp_all add: u_def)
  show ?thesis
  proof (cases "configReady s m")
    case True
    then have "m \<noteq> n" using assms by (auto simp: waiting_def)
    have "set (qput m (nextSeat s) q) \<subseteq> insert (m, nextSeat s) (set q)" for q
      by (induction q) auto
    then have "named_seats (announce (m, nextSeat s) u)"
      using names unfolding named_seats_def announce_def sm_emit_def by (auto simp: u) blast
    moreover have "bare_seats n (announce (m, nextSeat s) u)" using bare by (simp add: bare_seats_def announce_def sm_emit_def)
    ultimately show ?thesis using True \<open>m \<noteq> n\<close> assms unfolding c waiting_def by (simp add: announce_def sm_emit_def u)
  next
    case False
    have "named_seats (u\<lparr>sm_pending := sm_pending u @ [(m, nextSeat s)]\<rparr>)" using names unfolding named_seats_def by (auto simp: u)
    moreover have "bare_seats n (u\<lparr>sm_pending := sm_pending u @ [(m, nextSeat s)]\<rparr>)" using bare by (simp add: bare_seats_def)
    ultimately show ?thesis using False assms unfolding c waiting_def by (simp add: u)
  qed
qed (use assms in \<open>simp add: createSeat_def\<close>)

lemma waiting_rule: "waiting n s \<Longrightarrow> waiting n (addDeviceRule m r s)"
  by (auto simp: addDeviceRule_def waiting_def named_seats_def bare_seats_def)

lemma waiting_default [simp]: "waiting n (s\<lparr>sm_default := q\<rparr>) = waiting n s"
  by (simp add: waiting_def named_seats_def bare_seats_def)

lemma waiting_rules: "waiting n s \<Longrightarrow> waiting n (fold (\<lambda>r. addDeviceRule m (g r)) rs s)"
  by (rule fold_invariant_set [where P = "waiting n"]) (simp_all add: waiting_rule)

lemma waiting_load: "waiting n s \<Longrightarrow> waiting n (fold loadSeat vs s)"
  by (rule fold_invariant_set [where P = "waiting n"]) (simp_all add: loadSeat_def Let_def waiting_rules waiting_createSeat)

lemma waiting_frame:
  assumes "waiting n s" "obj_frame k s t" "seatName s k \<noteq> n"
  shows "waiting n t"
proof -
  note f = obj_frame_fields [OF assms(2)]
  have obj: "map_option st_name (objects t j) = map_option st_name (objects s j)" for j
    using assms(2) by (cases "j = k") (simp_all add: obj_frame_def)
  have "\<exists>w. objects t j = Some w \<and> st_name w = m" if "objects s j = Some w'" "st_name w' = m" for j m w'
    using obj [of j] that by auto
  then have "named_seats t" using assms(1) unfolding waiting_def named_seats_def f by blast
  moreover have "bare_seats n t"
    unfolding bare_seats_def
  proof (intro allI impI)
    fix j w assume w: "objects t j = Some w \<and> st_name w = n"
    then have "seatName s j = n" using f(14) [of j] by (simp add: seatName_def)
    then have "objects s j = Some w" using f(12) w assms(3) by (cases "j = k") auto
    then show "\<not> st_attached w \<and> \<not> st_handle w" using assms(1) w by (auto simp: waiting_def bare_seats_def)
  qed
  ultimately show ?thesis using assms(1) by (simp add: waiting_def f)
qed

lemma waiting_seats:
  assumes "rfold f ks s = Inr t" "waiting n s" "set ks \<subseteq> snd ` set (sm_seats s)" "\<And>k s t. f k s = Inr t \<Longrightarrow> obj_frame k s t"
  shows "waiting n t"
  using assms(1-3)
proof (induction ks arbitrary: s)
  case (Cons k ks)
  obtain u where u: "f k s = Inr u" "rfold f ks u = Inr t" using Cons.prems(1) by (auto elim: rbind_InrE)
  obtain m where m: "(m, k) \<in> set (sm_seats s)" using Cons.prems(3) by auto
  then have "m \<noteq> n" using Cons.prems(2) by (force simp: waiting_def qhas_set)
  moreover have "seatName s k = m" using Cons.prems(2) m by (force simp: waiting_def named_seats_def seatName_def)
  ultimately have "waiting n u" using waiting_frame [OF Cons.prems(2) assms(4) [OF u(1)]] by simp
  then show ?case using Cons.IH [OF u(2)] Cons.prems(3) obj_frame_fields(1) [OF assms(4) [OF u(1)]] by simp
qed simp

lemma waiting_initialized:
  assumes "waiting n s" "sm_seats s = []" "sm_rules s = []" "initializeFromConfig document s = Inr (p, t)"
  shows "waiting n t"
proof -
  obtain b u where u: "loadConfigFromFile document s = Inr (b, u)"
    using assms(4) by (auto simp: initializeFromConfig_def elim!: rbind_InrE)
  have "waiting n u"
  proof (cases "u = s")
    case False
    then obtain config where c: "loadConfig config s = Inr u"
      using u by (auto simp: loadConfigFromFile_def rbind_Inr_iff split: option.splits if_splits)
    let ?a = "s\<lparr>sm_seats := [], sm_rules := [], sm_default := None\<rparr>"
    let ?b = "fold loadSeat (toArray (jval config ''seats'')) ?a"
    let ?c = "if sm_seats ?b = [] then snd (createSeat seat0 True ?b) else ?b"
    have "waiting n ?a" using assms(1) unfolding waiting_def named_seats_def bare_seats_def by auto
    then have "waiting n ?b" by (rule waiting_load)
    then have w: "waiting n ?c" using waiting_createSeat by auto
    have "u = ?c \<or> (\<exists>q. u = ?c\<lparr>sm_default := q\<rparr>)"
      using c by (auto simp: loadConfig_def assms(2) Let_def split: option.splits list.splits if_splits)
    then show ?thesis using w by (elim disjE exE) (simp_all only: waiting_default)
  qed (use assms(1) in simp)
  have default: "waiting n (ensureDefaultDeviceRules m v)" if "waiting n v" for m v
    using that unfolding ensureDefaultDeviceRules_def by (simp add: waiting_rule)
  define v where "v = (if sm_seats u = [] then initializeDefaultSeat u else u)"
  have v: "waiting n v" using \<open>waiting n u\<close> default waiting_createSeat by (auto simp: v_def initializeDefaultSeat_def)
  define primary where "primary = (case sm_default v of Some k \<Rightarrow> Some k | None \<Rightarrow> (case sm_seats v of [] \<Rightarrow> None | e # _ \<Rightarrow> Some (snd e)))"
  let ?f = "\<lambda>k s. rbind (with_seat k s) (\<lambda>x. if st_attached x then Inr s else server_attach k s)"
  let ?w = "\<lambda>q. ensureDefaultDeviceRules (seatName v q) v"
  have init: "(case primary of None \<Rightarrow> Inr (None, v)
     | Some q \<Rightarrow> rbind (if serverRunning (?w q) then rfold ?f (map snd (sm_seats (?w q))) (?w q) else Inr (?w q)) (\<lambda>s. Inr (Some q, s))) = Inr (p, t)"
    using assms(4) unfolding initializeFromConfig_def u rbind_simps Let_def case_prod_conv v_def [symmetric] primary_def [symmetric] .
  show ?thesis
  proof (cases primary)
    case (Some q)
    have w: "waiting n (?w q)" by (rule default [OF v])
    have "(if serverRunning (?w q) then rfold ?f (map snd (sm_seats (?w q))) (?w q) else Inr (?w q)) = Inr t"
      using init Some by (auto simp: rbind_Inr_iff)
    moreover have "obj_frame k s t" if "?f k s = Inr t" for k s t
      using that frame_server(1) by (auto elim!: rbind_InrE split: if_splits)
    ultimately show ?thesis
      using w waiting_seats [of ?f "map snd (sm_seats (?w q))" "?w q" t n] by (auto split: if_splits)
  qed (use init v in simp)
qed

lemma announce_frame [simp]:
  "objects (fold announce es s) = objects s" "sm_rules (fold announce es s) = sm_rules s"
  "qhas (sm_seats (fold announce es s)) n = (n \<in> fst ` set es \<or> qhas (sm_seats s) n)"
  by (induction es arbitrary: s) (auto simp: announce_def sm_emit_def)

text \<open>C40: A seat of the configuration file whose own configuration is not initialized yet when the file is loaded never
  works: it becomes known once its configuration is there, but then its device rules are lost, it is not attached to the
  server, and no device is given to it by a rule.\<close>

theorem late_configuration_loses_rules:
  assumes "sm_seats s = []" "sm_pending s = []" "sm_rules s = []" "objects s = (\<lambda>_. None)" "\<not> configReady s n"
    and "initializeFromConfig document s = Inr (p, t)" "setupAllSeats t = Inr u"
  shows "(qhas (sm_seats (configInitialized n u)) n \<longleftrightarrow> n \<in> fst ` set (sm_pending u))
    \<and> deviceRules n (configInitialized n u) = []
    \<and> (\<forall>k w. objects (configInitialized n u) k = Some w \<and> st_name w = n \<longrightarrow> \<not> st_attached w \<and> \<not> st_handle w)
    \<and> (\<forall>k d. seatName (configInitialized n u) k = n \<longrightarrow> \<not> deviceMatchesSeat d k (configInitialized n u))"
proof -
  have "waiting n s" using assms(1-5) by (simp add: waiting_def named_seats_def bare_seats_def)
  then have "waiting n t" using waiting_initialized assms(1,3,6) by blast
  then have u: "waiting n u" using waiting_seats [OF assms(7) [unfolded setupAllSeats_def]] frame_setup by simp
  have rules: "qget (sm_rules (configInitialized n u)) n = None" using u by (simp add: configInitialized_def waiting_def qget_None_iff)
  have "qhas (sm_seats (configInitialized n u)) n \<longleftrightarrow> n \<in> fst ` set (sm_pending u)"
    using u by (auto simp: configInitialized_def waiting_def)
  moreover have "objects (configInitialized n u) = objects u" by (simp add: configInitialized_def)
  ultimately show ?thesis
    using u rules unfolding waiting_def bare_seats_def by (auto simp: deviceRules_def qval_def deviceMatchesSeat_def)
qed

end
