(* ===== verification/Seat_Devices.thy ===== *)
theory Seat_Devices
  imports Seat_Config
begin

text \<open>
  The devices of the seats (src/src/seat/seatmanager.cpp): every device is at one seat, which its rules
  and its history decide; what happens to the devices of a seat that goes away.
\<close>

section \<open>The invariant\<close>

text \<open>\<open>X\<close> are the seats that are being removed: alive and no longer registered.\<close>

definition registered :: "seat_state \<Rightarrow> wseat set" where
  "registered s = snd ` set (sm_seats s)"

definition live_seat :: "seat_state \<Rightarrow> wseat \<Rightarrow> bool" where
  "live_seat s k = (\<exists>w. objects s k = Some w \<and> st_attached w \<and> st_handle w
     \<and> (case st_cursor w of
          None \<Rightarrow> cursorDevices s (SeatCursor k) = [] \<and> cursorSeat s (SeatCursor k) = None
        | Some c \<Rightarrow> (c = SharedCursor \<or> c = SeatCursor k) \<and> cursorSeat s c = Some k \<and> distinct (cursorDevices s c)
            \<and> (\<forall>d\<in>set (cursorDevices s c). dv_type (device s d) = DevPointer \<and> d \<in> set (st_devices w)
                 \<or> dv_type (device s d) \<in> {DevTouch, DevTablet})))"

definition seats_ok :: "wseat set \<Rightarrow> seat_state \<Rightarrow> bool" where
  "seats_ok X s =
     (qok (sm_seats s) \<and> distinct (map snd (sm_seats s)) \<and> sm_pending s = [] \<and> serverRunning s
      \<and> (\<forall>n k. (n, k) \<in> set (sm_seats s) \<longrightarrow> seatName s k = n)
      \<and> (\<forall>k. objects s k \<noteq> None \<longleftrightarrow> k \<in> registered s \<union> X) \<and> X \<inter> registered s = {}
      \<and> (\<forall>k\<in>registered s \<union> X. live_seat s k)
      \<and> (\<forall>n rs. qget (sm_rules s) n = Some rs \<longrightarrow> rs \<noteq> [] \<and> n \<noteq> [] \<and> (qhas (sm_seats s) n \<or> (\<exists>k\<in>X. seatName s k = n)) \<and> validRules s rs)
      \<and> (\<forall>k. sm_default s = Some k \<longrightarrow> k \<in> registered s) \<and> (sm_default s = None \<longrightarrow> sm_seats s = [])
      \<and> (\<forall>d k. deviceSeat s d = Some k \<longleftrightarrow> d \<in> set (deviceList s k)) \<and> (\<forall>k. distinct (deviceList s k))
      \<and> (\<forall>d. deviceSeat s d \<noteq> None \<longrightarrow> qtDevice s d))"

lemma seats_ok_config: "seats_ok {} s \<Longrightarrow> config_ok s"
  by (auto simp: seats_ok_def config_ok_def registered_def)

lemma seats_okD:
  assumes "seats_ok X s"
  shows "deviceSeat s d = Some k \<longleftrightarrow> d \<in> set (deviceList s k)" "distinct (deviceList s k)" "deviceSeat s d \<noteq> None \<Longrightarrow> qtDevice s d"
    "k \<in> registered s \<union> X \<Longrightarrow> live_seat s k" "objects s k \<noteq> None \<longleftrightarrow> k \<in> registered s \<union> X"
    "sm_default s = Some k \<Longrightarrow> k \<in> registered s" "sm_default s = None \<Longrightarrow> sm_seats s = []"
  using assms unfolding seats_ok_def by blast+

lemma live_seatE:
  assumes "live_seat s k"
  obtains w where "objects s k = Some w" "with_seat k s = Inr w" "deviceList s k = st_devices w" "st_handle w" "st_attached w"
  using assms by (auto simp: live_seat_def with_seat_def deviceList_def)

lemma mod_wseat_fields [simp]:
  "deviceSeat (mod_wseat f k s) = deviceSeat s" "qtDevice (mod_wseat f k s) = qtDevice s" "cursorSeat (mod_wseat f k s) = cursorSeat s"
  "cursorDevices (mod_wseat f k s) = cursorDevices s" "device (mod_wseat f k s) = device s" "sm_seats (mod_wseat f k s) = sm_seats s"
  "objects (mod_wseat f k s) j = (if j = k then map_option f (objects s k) else objects s j)"
  by (simp_all add: mod_wseat_def)

lemma find_holder:
  assumes "k \<in> set ks" "P k" "\<And>j. P j \<Longrightarrow> j = k"
  shows "find P ks = Some k"
proof (cases "find P ks")
  case None
  then show ?thesis using assms(1,2) by (auto simp: find_None_iff)
next
  case (Some j)
  then show ?thesis using find_in_set [OF Some] assms(3) by simp
qed

lemma listed_alive: "d \<in> set (deviceList s k) \<Longrightarrow> objects s k \<noteq> None"
  by (cases "objects s k") (auto simp: deviceList_def)

text \<open>The search for the seat of a device finds what the device says.\<close>

lemma holder_seat:
  assumes "seats_ok X s" "\<forall>k\<in>X. deviceSeat s d \<noteq> Some k"
  shows "holder d s = deviceSeat s d"
proof (cases "deviceSeat s d")
  case None
  have none: "d \<notin> set (deviceList s k)" for k using seats_okD(1) [OF assms(1), of d k] None by simp
  have "find (\<lambda>k. d \<in> set (deviceList s k)) ks = None" for ks by (induction ks) (simp_all add: none)
  then show ?thesis using None by (simp add: holder_def)
next
  case (Some k)
  have iff: "d \<in> set (deviceList s j) \<longleftrightarrow> j = k" for j using seats_okD(1) [OF assms(1), of d j] Some by auto
  then have "d \<in> set (deviceList s k)" by simp
  then have "objects s k \<noteq> None" by (rule listed_alive)
  then have "k \<in> registered s" using seats_okD(5) [OF assms(1), of k] assms(2) Some by auto
  then have "k \<in> set (map snd (sm_seats s))" by (simp add: registered_def)
  then have "find (\<lambda>k. d \<in> set (deviceList s k)) (map snd (sm_seats s)) = Some k" by (rule find_holder) (simp_all add: iff)
  then show ?thesis using Some by (simp add: holder_def)
qed

section \<open>Attaching and detaching\<close>

lemma live_seat_other:
  assumes "live_seat s j" "objects t j = objects s j" "device t = device s"
    "\<And>c. cursorSeat s c = Some j \<or> c = SeatCursor j \<Longrightarrow> cursorDevices t c = cursorDevices s c \<and> cursorSeat t c = cursorSeat s c"
  shows "live_seat t j"
proof -
  obtain w where w: "objects s j = Some w" using assms(1) by (auto simp: live_seat_def)
  show ?thesis using assms(1) w assms(4) by (cases "st_cursor w") (auto simp: live_seat_def assms(2,3))
qed

text \<open>What attaching and detaching leave of the seat and of the cursors.\<close>

lemma seatp_detach_result:
  assumes "with_seat k s = Inr w" "st_handle w" "qtDevice s d"
  shows "\<exists>t. seatp_detachInputDevice d k s = Inr t \<and> deviceSeat t = deviceSeat s \<and> qtDevice t = (qtDevice s)(d := False)
    \<and> cursorSeat t = cursorSeat s
    \<and> objects t = (objects s)(k \<mapsto> w\<lparr>st_touch := (if dv_type (device s d) = DevTouch then remove1 d (st_touch w) else st_touch w)\<rparr>)
    \<and> cursorDevices t = (case st_cursor w of
         Some c \<Rightarrow> if dv_type (device s d) = DevPointer then (cursorDevices s)(c := remove1 d (cursorDevices s c)) else cursorDevices s
       | None \<Rightarrow> cursorDevices s)"
proof -
  define u where "u = (case st_cursor w of Some c \<Rightarrow> if dv_type (device s d) = DevPointer then cursor_detachInputDevice c d s else s | None \<Rightarrow> s)"
  define v where "v = (if dv_type (device s d) = DevTouch then mod_wseat (\<lambda>w. w\<lparr>st_touch := remove1 d (st_touch w)\<rparr>) k u else u)"
  have w: "objects s k = Some w" using assms(1) by (simp add: with_seat_def)
  have u: "objects u = objects s" "deviceSeat u = deviceSeat s" "qtDevice u = qtDevice s" "cursorSeat u = cursorSeat s"
    "cursorDevices u = (case st_cursor w of
         Some c \<Rightarrow> if dv_type (device s d) = DevPointer then (cursorDevices s)(c := remove1 d (cursorDevices s c)) else cursorDevices s
       | None \<Rightarrow> cursorDevices s)"
    by (auto simp: u_def cursor_detachInputDevice_def split: option.split)
  have v: "objects v = (objects s)(k \<mapsto> w\<lparr>st_touch := (if dv_type (device s d) = DevTouch then remove1 d (st_touch w) else st_touch w)\<rparr>)"
    "deviceSeat v = deviceSeat s" "qtDevice v = qtDevice s" "cursorSeat v = cursorSeat s" "cursorDevices v = cursorDevices u"
    using w by (auto simp: v_def mod_wseat_def u fun_upd_idem)
  have "seatp_detachInputDevice d k s = Inr (v\<lparr>qtDevice := (qtDevice v)(d := False)\<rparr>)"
    unfolding seatp_detachInputDevice_def assms(1) rbind_simps Let_def u_def [symmetric] v_def [symmetric] using assms(2,3) v(3) by simp
  then show ?thesis using v u(5) by simp
qed

lemma detach_ok:
  assumes ok: "seats_ok X s" and d: "deviceSeat s d = Some k"
  shows "\<exists>t. seat_detachInputDevice d k s = Inr t \<and> seats_ok X t \<and> deviceSeat t = (deviceSeat s)(d := None)
    \<and> obj_frame k s t \<and> deviceList t k = remove1 d (deviceList s k)"
proof -
  have dl: "d \<in> set (deviceList s k)" using seats_okD(1) [OF ok] d by blast
  then have "objects s k \<noteq> None" by (rule listed_alive)
  then have kX: "k \<in> registered s \<union> X" using seats_okD(5) [OF ok] by blast
  then have live: "live_seat s k" using seats_okD(4) [OF ok] by blast
  then obtain w where w: "objects s k = Some w" "deviceList s k = st_devices w" "st_handle w" "st_attached w" using live_seatE by metis
  define u where "u = (mod_wseat (\<lambda>w. w\<lparr>st_devices := remove1 d (st_devices w)\<rparr>) k s)\<lparr>deviceSeat := (deviceSeat s)(d := None)\<rparr>"
  let ?w = "w\<lparr>st_devices := remove1 d (st_devices w)\<rparr>"
  have u: "with_seat k u = Inr ?w" "objects u = (objects s)(k \<mapsto> ?w)" "qtDevice u = qtDevice s" "deviceSeat u = (deviceSeat s)(d := None)"
    "device u = device s" "cursorDevices u = cursorDevices s" "cursorSeat u = cursorSeat s"
    using w(1) by (simp_all add: u_def mod_wseat_def with_seat_def)
  have qt: "qtDevice u d" using seats_okD(3) [OF ok] d by (simp add: u(3))
  have "st_handle ?w" using w(3) by simp
  from seatp_detach_result [OF u(1) this qt] obtain t where t': "seatp_detachInputDevice d k u = Inr t" "deviceSeat t = deviceSeat u"
    "qtDevice t = (qtDevice u)(d := False)" "cursorSeat t = cursorSeat u"
    "objects t = (objects u)(k \<mapsto> ?w\<lparr>st_touch := (if dv_type (device u d) = DevTouch then remove1 d (st_touch ?w) else st_touch ?w)\<rparr>)"
    "cursorDevices t = (case st_cursor ?w of
         Some c \<Rightarrow> if dv_type (device u d) = DevPointer then (cursorDevices u)(c := remove1 d (cursorDevices u c)) else cursorDevices u
       | None \<Rightarrow> cursorDevices u)" by blast
  have t: "seatp_detachInputDevice d k u = Inr t" "deviceSeat t = (deviceSeat s)(d := None)" "qtDevice t = (qtDevice s)(d := False)"
    "cursorSeat t = cursorSeat s"
    "objects t = (objects s)(k \<mapsto> ?w\<lparr>st_touch := (if dv_type (device s d) = DevTouch then remove1 d (st_touch w) else st_touch w)\<rparr>)"
    "cursorDevices t = (case st_cursor w of
         Some c \<Rightarrow> if dv_type (device s d) = DevPointer then (cursorDevices s)(c := remove1 d (cursorDevices s c)) else cursorDevices s
       | None \<Rightarrow> cursorDevices s)"
    using t' by (simp_all add: u cong: option.case_cong if_cong)
  have det: "seat_detachInputDevice d k s = Inr t" using dl t(1) by (simp add: seat_detachInputDevice_def Let_def u_def)
  have f: "obj_frame k s t" by (rule frame_detach [OF det])
  note ff = obj_frame_fields [OF f]
  have dlist: "deviceList t j = (if j = k then remove1 d (deviceList s k) else deviceList s j)" for j
    using t(5) w(2) by (simp add: deviceList_def)
  have other: "d \<notin> set (deviceList s j)" if "j \<noteq> k" for j using that d seats_okD(1) [OF ok] by (metis option.inject)
  have dist: "distinct (deviceList s j)" for j by (rule seats_okD(2) [OF ok])
  have lives: "live_seat t j" if "live_seat s j" for j
  proof (cases "j = k")
    case True
    then show ?thesis
      using live w(1) dist [of k] w(2) unfolding live_seat_def t(4-6) ff(7)
      by (auto split: option.splits)
  next
    case False
    then have obj: "objects t j = objects s j" by (simp add: t(5))
    have "cursorDevices t c = cursorDevices s c" if "cursorSeat s c = Some j \<or> c = SeatCursor j" for c
      using that live w(1) False unfolding t(6) live_seat_def by (auto split: option.splits)
    then show ?thesis using live_seat_other [OF that obj ff(7)] by (simp add: t(4))
  qed
  have "seats_ok X t"
    using ok lives dist other unfolding seats_ok_def registered_def ff(1-4,9,11,13,14) t(2,3) dlist validRules_def
    by (auto split: if_splits)
  then show ?thesis using det t(2) f dlist by auto
qed

text \<open>Attaching a device that no seat has.\<close>

lemma cursor_attach_result:
  assumes "d \<notin> set (cursorDevices s c) \<or> dv_type (device s d) \<notin> {DevPointer, DevTouch, DevTablet}"
  shows "cursor_attachInputDevice c d s = Inr (s\<lparr>cursorDevices := (cursorDevices s)(c := cursorDevices s c
    @ (if dv_type (device s d) \<in> {DevPointer, DevTouch, DevTablet} then [d] else []))\<rparr>)"
  using assms by (auto simp: cursor_attachInputDevice_def)

text \<open>The only way attaching can fail is a touch device or tablet that the cursor still lists.\<close>

lemma attach_result:
  assumes ok: "seats_ok X s" and d: "deviceSeat s d = None" and k: "k \<in> registered s \<union> X"
    and free: "\<forall>w c. objects s k = Some w \<and> st_cursor w = Some c \<longrightarrow> d \<notin> set (cursorDevices s c)"
  shows "\<exists>t w. seat_attachInputDevice d k s = Inr t \<and> objects s k = Some w \<and> deviceSeat t = (deviceSeat s)(d \<mapsto> k) \<and> qtDevice t = (qtDevice s)(d := True)
    \<and> cursorSeat t = cursorSeat s
    \<and> objects t = (objects s)(k \<mapsto> w\<lparr>st_devices := st_devices w @ [d],
         st_touch := (if dv_type (device s d) = DevTouch then st_touch w @ [d] else st_touch w)\<rparr>)
    \<and> cursorDevices t = (case st_cursor w of None \<Rightarrow> cursorDevices s
       | Some c \<Rightarrow> (cursorDevices s)(c := cursorDevices s c @ (if dv_type (device s d) \<in> {DevPointer, DevTouch, DevTablet} then [d] else [])))"
proof -
  obtain w where w: "objects s k = Some w" "with_seat k s = Inr w" "st_handle w" using live_seatE [OF seats_okD(4) [OF ok k]] by metis
  define u where "u = seatp_attachInputDevice d k (mod_wseat (\<lambda>w. w\<lparr>st_devices := st_devices w @ [d]\<rparr>) k s)"
  have u: "objects u = (objects s)(k \<mapsto> w\<lparr>st_devices := st_devices w @ [d]\<rparr>)" "deviceSeat u = (deviceSeat s)(d \<mapsto> k)"
    "qtDevice u = (qtDevice s)(d := True)" "cursorSeat u = cursorSeat s" "cursorDevices u = cursorDevices s" "device u = device s"
    using w(1) by (auto simp: u_def seatp_attachInputDevice_def)
  define v where "v = (case st_cursor w of None \<Rightarrow> u | Some c \<Rightarrow> u\<lparr>cursorDevices := (cursorDevices u)(c := cursorDevices u c
    @ (if dv_type (device u d) \<in> {DevPointer, DevTouch, DevTablet} then [d] else []))\<rparr>)"
  have "(case st_cursor w of Some c \<Rightarrow> cursor_attachInputDevice c d u | None \<Rightarrow> Inr u) = Inr v"
    using free w(1) cursor_attach_result [of d u] by (auto simp: v_def u split: option.split)
  then have "seat_attachInputDevice d k s = Inr (if dv_type (device v d) = DevTouch then mod_wseat (\<lambda>w. w\<lparr>st_touch := st_touch w @ [d]\<rparr>) k v else v)"
    unfolding seat_attachInputDevice_def using d w(2,3) by (simp add: u_def [symmetric])
  moreover have "objects v = objects u" "deviceSeat v = deviceSeat u" "qtDevice v = qtDevice u" "cursorSeat v = cursorSeat u" "device v = device s"
    "cursorDevices v = (case st_cursor w of None \<Rightarrow> cursorDevices s
       | Some c \<Rightarrow> (cursorDevices s)(c := cursorDevices s c @ (if dv_type (device s d) \<in> {DevPointer, DevTouch, DevTablet} then [d] else [])))"
    by (auto simp: v_def u split: option.split)
  ultimately show ?thesis using w(1) u by (auto simp: fun_upd_idem)
qed

lemma attach_refused:
  assumes ok: "seats_ok X s" and k: "k \<in> registered s \<union> X" and w: "objects s k = Some w" "st_cursor w = Some c" "d \<in> set (cursorDevices s c)"
  shows "seat_attachInputDevice d k s = Inl QAssert"
proof -
  have live: "live_seat s k" by (rule seats_okD(4) [OF ok k])
  then have h: "with_seat k s = Inr w" "st_handle w" using live_seatE [OF live] w(1) by (metis option.inject)+
  have t: "dv_type (device s d) \<in> {DevPointer, DevTouch, DevTablet}" using live w by (auto simp: live_seat_def)
  define u where "u = seatp_attachInputDevice d k (mod_wseat (\<lambda>w. w\<lparr>st_devices := st_devices w @ [d]\<rparr>) k s)"
  have "cursorDevices u = cursorDevices s" "device u = device s" by (simp_all add: u_def seatp_attachInputDevice_def)
  then have "cursor_attachInputDevice c d u = Inl QAssert" using t w(3) by (simp add: cursor_attachInputDevice_def)
  then show ?thesis using h w(2) by (cases "deviceSeat s d") (simp_all add: seat_attachInputDevice_def u_def [symmetric])
qed

lemma attach_ok:
  assumes ok: "seats_ok X s" and k: "k \<in> registered s \<union> X" and att: "seat_attachInputDevice d k s = Inr t"
  shows "seats_ok X t" "deviceSeat s d = None" "deviceSeat t = (deviceSeat s)(d \<mapsto> k)" "obj_frame k s t"
    "deviceList t j = (if j = k then deviceList s k @ [d] else deviceList s j)" "cursorDevices t b = cursorDevices s b @ (if d \<in> set (cursorDevices t b) then [d] else []) \<or> d \<in> set (cursorDevices s b)"
    "st_cursor (the (objects t k)) = st_cursor (the (objects s k))"
proof -
  show none: "deviceSeat s d = None" using att by (auto simp: seat_attachInputDevice_def elim: rbind_InrE)
  have free: "\<forall>w c. objects s k = Some w \<and> st_cursor w = Some c \<longrightarrow> d \<notin> set (cursorDevices s c)"
    using attach_refused [OF ok k] att by fastforce
  obtain w where w: "objects s k = Some w" and t: "deviceSeat t = (deviceSeat s)(d \<mapsto> k)" "qtDevice t = (qtDevice s)(d := True)"
    "cursorSeat t = cursorSeat s" "objects t = (objects s)(k \<mapsto> w\<lparr>st_devices := st_devices w @ [d],
         st_touch := (if dv_type (device s d) = DevTouch then st_touch w @ [d] else st_touch w)\<rparr>)"
    "cursorDevices t = (case st_cursor w of None \<Rightarrow> cursorDevices s
       | Some c \<Rightarrow> (cursorDevices s)(c := cursorDevices s c @ (if dv_type (device s d) \<in> {DevPointer, DevTouch, DevTablet} then [d] else [])))"
    using attach_result [OF ok none k free] att by auto
  show f: "obj_frame k s t" by (rule frame_attach [OF att])
  note ff = obj_frame_fields [OF f]
  show dlist: "deviceList t j = (if j = k then deviceList s k @ [d] else deviceList s j)" for j
    using w by (simp add: deviceList_def t(4))
  show "deviceSeat t = (deviceSeat s)(d \<mapsto> k)" by (rule t)
  show "st_cursor (the (objects t k)) = st_cursor (the (objects s k))" by (simp add: t(4) w)
  show "cursorDevices t b = cursorDevices s b @ (if d \<in> set (cursorDevices t b) then [d] else []) \<or> d \<in> set (cursorDevices s b)"
    unfolding t(5) by (auto split: option.split)
  have live: "live_seat s k" by (rule seats_okD(4) [OF ok k])
  have lives: "live_seat t j" if j: "live_seat s j" for j
  proof (cases "j = k")
    case True
    then show ?thesis
      using live w free unfolding live_seat_def t(3-5) ff(7) by (auto split: option.splits)
  next
    case False
    then have obj: "objects t j = objects s j" by (simp add: t(4))
    have "cursorDevices t c = cursorDevices s c" if "cursorSeat s c = Some j \<or> c = SeatCursor j" for c
      using that live w False unfolding t(5) live_seat_def by (auto split: option.splits)
    then show ?thesis using live_seat_other [OF j obj ff(7)] by (simp add: t(3))
  qed
  have new: "d \<notin> set (deviceList s j)" for j using seats_okD(1) [OF ok, of d j] none by simp
  have dist: "distinct (deviceList s j)" for j by (rule seats_okD(2) [OF ok])
  show "seats_ok X t"
    using ok lives dist new unfolding seats_ok_def registered_def ff(1-4,9,11,13,14) t(1,2) dlist validRules_def
    by (auto split: if_splits)
qed

section \<open>The operations\<close>

lemma ok_update:
  "seats_ok X (s\<lparr>sm_cache := f\<rparr>) = seats_ok X s" "seats_ok X (sm_emit e s) = seats_ok X s"
  "registered (s\<lparr>sm_cache := f\<rparr>) = registered s" "registered (sm_emit e s) = registered s"
proof -
  have l: "live_seat (s\<lparr>sm_cache := f\<rparr>) = live_seat s" "live_seat (sm_emit e s) = live_seat s" for f e
    by (simp_all add: live_seat_def sm_emit_def fun_eq_iff cong: option.case_cong)
  show "registered (s\<lparr>sm_cache := f\<rparr>) = registered s" "registered (sm_emit e s) = registered s"
    by (simp_all add: registered_def sm_emit_def)
  show "seats_ok X (s\<lparr>sm_cache := f\<rparr>) = seats_ok X s" "seats_ok X (sm_emit e s) = seats_ok X s"
    unfolding seats_ok_def l by (simp_all add: registered_def seatName_def deviceList_def sm_emit_def validRules_def)
qed

lemma frame_registered: "obj_frame k s t \<Longrightarrow> registered t = registered s"
  by (simp add: registered_def obj_frame_def)

lemma find_seat_registered: "find P (map snd (sm_seats s)) = Some k \<Longrightarrow> k \<in> registered s"
  using find_in_set by (fastforce simp: registered_def)

lemma autoAssign_ok:
  assumes ok: "seats_ok X s" and X: "\<forall>k\<in>X. deviceSeat s d \<noteq> Some k" and r: "autoAssignDevice d s = Inr (j, t)"
  shows "seats_ok X t \<and> (\<forall>k. j = Some k \<longrightarrow> k \<in> registered s) \<and> deviceSeat t = (deviceSeat s)(d := j) \<and> sm_seats t = sm_seats s
    \<and> (\<forall>k. Some k \<noteq> j \<longrightarrow> objects t k = objects s k) \<and> (\<forall>k. seatName t k = seatName s k) \<and> sm_rules t = sm_rules s \<and> sm_default t = sm_default s
    \<and> sm_cache t = sm_cache s \<and> device t = device s \<and> (j = None \<longleftrightarrow> sm_default s = None \<and> deviceSeat s d = None)"
proof -
  have h: "holder d s = deviceSeat s d" by (rule holder_seat [OF ok X])
  have attach: ?thesis if a: "seat_attachInputDevice d k s = Inr t" "j = Some k" "k \<in> registered s" "deviceSeat s d = None" "sm_default s \<noteq> None" for k
  proof -
    have k: "k \<in> registered s \<union> X" using a(3) by simp
    note o = attach_ok [OF ok k a(1)]
    note f = obj_frame_fields [OF o(4)]
    show ?thesis using o(1,3) a(2-5) f by simp
  qed
  show ?thesis
  proof (cases "deviceSeat s d")
    case (Some k)
    then have e: "j = Some k" "t = s" using r h by (simp_all add: autoAssignDevice_def)
    have "d \<in> set (deviceList s k)" using seats_okD(1) [OF ok] Some by blast
    then have "objects s k \<noteq> None" by (rule listed_alive)
    then have "k \<in> registered s" using seats_okD(5) [OF ok, of k] X Some by auto
    then show ?thesis using ok e Some by (simp add: fun_upd_idem)
  next
    case None
    show ?thesis
    proof (cases "findSeatForDevice d s")
      case found: (Some k)
      have reg: "k \<in> registered s"
        using found None h find_seat_registered seats_okD(6) [OF ok] by (auto simp: findSeatForDevice_def Let_def split: option.splits if_splits)
      then have "sm_seats s \<noteq> []" by (auto simp: registered_def)
      then have "sm_default s \<noteq> None" using seats_okD(7) [OF ok] by blast
      moreover have "seat_attachInputDevice d k s = Inr t" "j = Some k"
        using r found None h by (auto simp: autoAssignDevice_def rbind_Inr_iff)
      ultimately show ?thesis using attach reg None by blast
    next
      case no: None
      show ?thesis
      proof (cases "sm_default s")
        case (Some k)
        then have "seat_attachInputDevice d k s = Inr t" "j = Some k"
          using r no None h by (auto simp: autoAssignDevice_def rbind_Inr_iff)
        then show ?thesis using attach seats_okD(6) [OF ok Some] None Some by blast
      next
        case nodef: None
        then have "j = None" "t = s" using r no None h by (simp_all add: autoAssignDevice_def)
        then show ?thesis using ok None nodef by (simp add: fun_upd_idem)
      qed
    qed
  qed
qed

text \<open>Where a device without a seat goes: to the first other seat, in the order of the names, with a rule that
  matches, or else to the fallback seat, whatever the rules of that seat say.\<close>

definition rule_policy :: "did \<Rightarrow> seat_state \<Rightarrow> wseat option" where
  "rule_policy d s =
     (case find (\<lambda>k. Some k \<noteq> sm_default s \<and> deviceMatchesSeat d k s) (map snd (sm_seats s)) of Some k \<Rightarrow> Some k | None \<Rightarrow> sm_default s)"

lemma rule_policy_registered: "seats_ok X s \<Longrightarrow> rule_policy d s = Some k \<Longrightarrow> k \<in> registered s"
  using find_seat_registered seats_okD(6) by (auto simp: rule_policy_def split: option.splits)

lemma autoAssign_policy:
  assumes ok: "seats_ok X s" and X: "\<forall>k\<in>X. deviceSeat s d \<noteq> Some k" and none: "deviceSeat s d = None"
  shows "autoAssignDevice d s = (case rule_policy d s of None \<Rightarrow> Inr (None, s) | Some k \<Rightarrow> rbind (seat_attachInputDevice d k s) (\<lambda>s. Inr (Some k, s)))"
  using holder_seat [OF ok X] none
  by (auto simp: autoAssignDevice_def findSeatForDevice_def rule_policy_def Let_def split: option.split)

end
