(* ===== verification/Seat_Start.thy ===== *)
theory Seat_Start
  imports Seat_Devices
begin

text \<open>
  The seats when the compositor starts (src/src/seat/seatmanager.cpp): loading the configuration, attaching the
  seats to the server and giving them cursors always succeeds and leaves the seats in order.
\<close>

section \<open>Starting\<close>

definition fresh_seats :: "seat_state \<Rightarrow> bool" where
  "fresh_seats s =
     (sm_seats s = [] \<and> sm_rules s = [] \<and> sm_default s = None \<and> sm_pending s = [] \<and> objects s = (\<lambda>_. None)
      \<and> deviceSeat s = (\<lambda>_. None) \<and> cursorDevices s = (\<lambda>_. []) \<and> cursorSeat s = (\<lambda>_. None)
      \<and> serverRunning s \<and> configReady s = (\<lambda>_. True))"

text \<open>Seats without devices and cursors, while they are created and attached to the server.\<close>

definition plain_seat :: "string \<Rightarrow> wseat_rec \<Rightarrow> bool" where
  "plain_seat n w = (st_name w = n \<and> st_devices w = [] \<and> st_cursor w = None \<and> st_handle w = st_attached w)"

definition starting :: "seat_state \<Rightarrow> bool" where
  "starting s =
     (qok (sm_seats s) \<and> distinct (map snd (sm_seats s)) \<and> sm_pending s = [] \<and> serverRunning s \<and> configReady s = (\<lambda>_. True)
      \<and> (\<forall>n k. (n, k) \<in> set (sm_seats s) \<longrightarrow> k < nextSeat s \<and> (\<exists>w. objects s k = Some w \<and> plain_seat n w))
      \<and> (\<forall>k. objects s k \<noteq> None \<longrightarrow> k \<in> registered s)
      \<and> (\<forall>n rs. qget (sm_rules s) n = Some rs \<longrightarrow> rs \<noteq> [] \<and> n \<noteq> [] \<and> qhas (sm_seats s) n \<and> validRules s rs)
      \<and> (\<forall>k. sm_default s = Some k \<longrightarrow> k \<in> registered s)
      \<and> deviceSeat s = (\<lambda>_. None) \<and> cursorDevices s = (\<lambda>_. []) \<and> cursorSeat s = (\<lambda>_. None))"

lemma fresh_starting: "fresh_seats s \<Longrightarrow> starting s"
  by (simp add: fresh_seats_def starting_def)

lemma qput_set: "\<not> qhas m k \<Longrightarrow> set (qput k v m) = insert (k, v) (set m) \<and> distinct (map snd (qput k v m)) = (v \<notin> snd ` set m \<and> distinct (map snd m))"
  by (induction m) (auto simp: qhas_iff split: if_splits)

lemma starting_createSeat:
  assumes s: "starting s"
  shows "starting (snd (createSeat n f s)) \<and> sm_seats (snd (createSeat n f s)) \<noteq> []"
proof (cases "qget (sm_seats s) n")
  case None
  then have new: "\<not> qhas (sm_seats s) n" by (simp add: qhas_iff)
  let ?k = "nextSeat s"
  define t where "t = snd (createSeat n f s)"
  have t: "sm_seats t = qput n ?k (sm_seats s)" "objects t = (objects s)(?k \<mapsto> new_seat n)" "nextSeat t = Suc ?k" "sm_rules t = sm_rules s"
    "sm_default t = (if f then Some ?k else sm_default s)" "sm_pending t = sm_pending s" "serverRunning t = serverRunning s"
    "configReady t = configReady s" "deviceSeat t = deviceSeat s" "cursorDevices t = cursorDevices s" "cursorSeat t = cursorSeat s"
    "regexValid t = regexValid s"
    using s None by (simp_all add: t_def createSeat_def Let_def announce_def sm_emit_def starting_def)
  have fresh: "?k \<notin> snd ` set (sm_seats s)" using s by (force simp: starting_def)
  have set: "set (sm_seats t) = insert (n, ?k) (set (sm_seats s))" "distinct (map snd (sm_seats t))"
    using qput_set [OF new, of ?k] fresh s by (auto simp: t(1) starting_def)
  have seat: "k < nextSeat t \<and> (\<exists>w. objects t k = Some w \<and> plain_seat m w)" if "(m, k) \<in> set (sm_seats t)" for m k
  proof (cases "(m, k) = (n, ?k)")
    case False
    then have "(m, k) \<in> set (sm_seats s)" using that set(1) by auto
    then have "k < ?k \<and> (\<exists>w. objects s k = Some w \<and> plain_seat m w)" using s unfolding starting_def by blast
    then show ?thesis by (simp add: t(2,3))
  qed (simp add: t(2,3) plain_seat_def new_seat_def)
  have "starting t"
    unfolding starting_def
  proof (intro conjI)
    show "\<forall>m k. (m, k) \<in> set (sm_seats t) \<longrightarrow> k < nextSeat t \<and> (\<exists>w. objects t k = Some w \<and> plain_seat m w)" using seat by blast
    show "\<forall>k. objects t k \<noteq> None \<longrightarrow> k \<in> registered t" using s set(1) by (auto simp: starting_def registered_def t(2))
    show "\<forall>k. sm_default t = Some k \<longrightarrow> k \<in> registered t" using s set(1) by (auto simp: starting_def registered_def t(5))
    show "\<forall>m rs. qget (sm_rules t) m = Some rs \<longrightarrow> rs \<noteq> [] \<and> m \<noteq> [] \<and> qhas (sm_seats t) m \<and> validRules t rs"
      using s by (auto simp: starting_def t(1,4,12) validRules_def)
  qed (use s set(2) in \<open>simp_all add: starting_def t\<close>)
  moreover have "sm_seats t \<noteq> []" using set(1) by auto
  ultimately show ?thesis by (simp add: t_def)
next
  case (Some k)
  then have "snd (createSeat n f s) = s" "sm_seats s \<noteq> []" by (auto simp: createSeat_def)
  then show ?thesis using s by simp
qed

lemma starting_rule: "starting s \<Longrightarrow> starting (addDeviceRule n r s)"
proof -
  assume s: "starting s"
  show "starting (addDeviceRule n r s)"
  proof (cases "addDeviceRule n r s = s")
    case False
    then have c: "n \<noteq> []" "r \<noteq> []" "qhas (sm_seats s) n" "regexValid s r" "r \<notin> set (qval (sm_rules s) n [])"
      and e: "addDeviceRule n r s = s\<lparr>sm_rules := qput n (qval (sm_rules s) n [] @ [r]) (sm_rules s)\<rparr>"
      by (simp_all add: addDeviceRule_def split: if_splits)
    have "validRules s (qval (sm_rules s) n [] @ [r])"
    proof (cases "qget (sm_rules s) n")
      case (Some rs)
      then have "validRules s rs" using s unfolding starting_def by blast
      then show ?thesis using c Some by (simp add: validRules_def qval_def)
    qed (use c in \<open>simp add: validRules_def qval_def\<close>)
    then show ?thesis using s c unfolding e starting_def by (simp add: registered_def validRules_def)
  qed (use s in simp)
qed

lemma starting_rules: "starting s \<Longrightarrow> starting (fold (\<lambda>r. addDeviceRule n (g r)) rs s)"
  by (rule fold_invariant_set [where P = starting]) (simp_all add: starting_rule)

lemma starting_load: "starting s \<Longrightarrow> starting (fold loadSeat vs s)"
  by (rule fold_invariant_set [where P = starting]) (simp_all add: loadSeat_def Let_def starting_rules starting_createSeat)

lemma starting_default: "starting s \<Longrightarrow> q = None \<or> (\<exists>k\<in>registered s. q = Some k) \<Longrightarrow> starting (s\<lparr>sm_default := q\<rparr>)"
  by (auto simp: starting_def registered_def validRules_def)

text \<open>After the configuration is loaded there is a seat, and one of them is the fallback.\<close>

lemma starting_loaded:
  assumes "fresh_seats s"
  shows "\<exists>b t. loadConfigFromFile document s = Inr (b, t) \<and> starting t \<and> (if b then sm_seats t \<noteq> [] \<and> sm_default t \<noteq> None else t = s)"
proof (cases "\<exists>config. document = Some config \<and> isObject config \<and> validateConfig config")
  case True
  then obtain config where c: "document = Some config" "isObject config" "validateConfig config" by blast
  have e: "s\<lparr>sm_seats := [], sm_rules := [], sm_default := None\<rparr> = s" "sm_seats s = []" using assms by (simp_all add: fresh_seats_def)
  define a where "a = fold loadSeat (toArray (jval config ''seats'')) s"
  define b where "b = (if sm_seats a = [] then snd (createSeat seat0 True a) else a)"
  define t where "t = (case sm_default b of Some _ \<Rightarrow> b | None \<Rightarrow> (case sm_seats b of [] \<Rightarrow> b | e # _ \<Rightarrow> b\<lparr>sm_default := Some (snd e)\<rparr>))"
  have "starting a" unfolding a_def by (rule starting_load [OF fresh_starting [OF assms]])
  then have b: "starting b" "sm_seats b \<noteq> []" using starting_createSeat by (auto simp: b_def)
  have t: "starting t \<and> sm_seats t \<noteq> [] \<and> sm_default t \<noteq> None"
    using b starting_default [OF b(1)] by (auto simp: t_def registered_def split: option.split list.split)
  have "loadConfig config s = Inr t"
    unfolding loadConfig_def e Let_def list.map rfold.simps rbind_simps unfolding a_def [symmetric] unfolding b_def [symmetric]
    unfolding t_def [symmetric] ..
  then show ?thesis using c t by (intro exI [of _ True] exI [of _ t]) (simp add: loadConfigFromFile_def)
next
  case False
  then show ?thesis using fresh_starting [OF assms] by (auto simp: loadConfigFromFile_def split: option.split)
qed

text \<open>Attaching the seats to the server, and giving them cursors.\<close>

lemma server_attach_plain:
  assumes "starting s" "k \<in> registered s" "objects s k = Some w"
  shows "(\<not> st_attached w \<longrightarrow> server_attach k s = Inr (s\<lparr>objects := (objects s)(k \<mapsto> w\<lparr>st_attached := True, st_handle := True\<rparr>)\<rparr>))"
proof
  assume a: "\<not> st_attached w"
  obtain n where "(n, k) \<in> set (sm_seats s)" using assms(2) by (auto simp: registered_def)
  then have w: "st_devices w = []" "st_cursor w = None" and run: "serverRunning s"
    using assms(1,3) by (force simp: starting_def plain_seat_def)+
  define u where "u = mod_wseat (\<lambda>w. w\<lparr>st_attached := True\<rparr>) k s"
  define w' where "w' = w\<lparr>st_attached := True\<rparr>"
  have u: "with_seat k u = Inr w'" "serverRunning u" using assms(3) run by (simp_all add: u_def w'_def with_seat_def) (simp add: mod_wseat_def)
  have "seat_create k u = Inr (mod_wseat (\<lambda>w. w\<lparr>st_handle := True\<rparr>) k u)"
    unfolding seat_create_def u(1) using w by (simp add: w'_def Let_def)
  then have "server_attach k s = Inr (mod_wseat (\<lambda>w. w\<lparr>st_handle := True\<rparr>) k u)"
    using assms(3) a u(2) by (simp add: server_attach_def with_seat_def u_def [symmetric])
  moreover have "mod_wseat (\<lambda>w. w\<lparr>st_handle := True\<rparr>) k u = s\<lparr>objects := (objects s)(k \<mapsto> w\<lparr>st_attached := True, st_handle := True\<rparr>)\<rparr>"
    using assms(3) by (simp add: u_def mod_wseat_def)
  ultimately show "server_attach k s = Inr (s\<lparr>objects := (objects s)(k \<mapsto> w\<lparr>st_attached := True, st_handle := True\<rparr>)\<rparr>)" by simp
qed

lemma starting_handled:
  assumes "starting s" "objects s k = Some w"
  shows "starting (s\<lparr>objects := (objects s)(k \<mapsto> w\<lparr>st_attached := True, st_handle := True\<rparr>)\<rparr>)"
proof -
  let ?t = "s\<lparr>objects := (objects s)(k \<mapsto> w\<lparr>st_attached := True, st_handle := True\<rparr>)\<rparr>"
  have seat: "j < nextSeat s \<and> (\<exists>v. objects ?t j = Some v \<and> plain_seat m v)" if j: "(m, j) \<in> set (sm_seats s)" for m j
  proof -
    have "j < nextSeat s \<and> (\<exists>v. objects s j = Some v \<and> plain_seat m v)" using assms(1) j unfolding starting_def by blast
    then show ?thesis using assms(2) by (cases "j = k") (auto simp: plain_seat_def)
  qed
  show ?thesis
    using assms seat unfolding starting_def registered_def validRules_def by (auto simp del: fun_upd_apply) (auto split: if_splits)
qed

definition handled :: "seat_state \<Rightarrow> wseat \<Rightarrow> bool" where
  "handled s k = (\<exists>w. objects s k = Some w \<and> st_handle w \<and> st_attached w)"

lemma attach_all:
  assumes "starting s" "set ks \<subseteq> registered s"
  shows "\<exists>t. rfold (\<lambda>k s. rbind (with_seat k s) (\<lambda>w. if st_attached w then Inr s else server_attach k s)) ks s = Inr t
    \<and> starting t \<and> sm_seats t = sm_seats s \<and> sm_default t = sm_default s \<and> (\<forall>k. k \<in> set ks \<or> handled s k \<longrightarrow> handled t k)"
  using assms
proof (induction ks arbitrary: s)
  case (Cons k ks)
  obtain n where n: "(n, k) \<in> set (sm_seats s)" using Cons.prems(2) by (auto simp: registered_def)
  then obtain w where w: "objects s k = Some w" "plain_seat n w" using Cons.prems(1) unfolding starting_def by blast
  define u where "u = (if st_attached w then s else s\<lparr>objects := (objects s)(k \<mapsto> w\<lparr>st_attached := True, st_handle := True\<rparr>)\<rparr>)"
  have "k \<in> registered s" using Cons.prems(2) by simp
  then have step: "rbind (with_seat k s) (\<lambda>w. if st_attached w then Inr s else server_attach k s) = Inr u"
    using server_attach_plain [OF Cons.prems(1) _ w(1)] w(1) by (simp add: with_seat_def u_def)
  have u: "starting u" "sm_seats u = sm_seats s" "sm_default u = sm_default s" "registered u = registered s"
    using Cons.prems(1) starting_handled [OF Cons.prems(1) w(1)] by (simp_all add: u_def registered_def)
  have h: "handled u k" "handled s j \<Longrightarrow> handled u j" for j
    using w by (auto simp: u_def handled_def plain_seat_def)
  show ?case
    using Cons.IH [OF u(1)] Cons.prems(2) u(2-4) h step by (auto simp: u(4))
qed simp

lemma initialize_returns:
  assumes "fresh_seats s"
  shows "\<exists>p t. initializeFromConfig document s = Inr (Some p, t) \<and> starting t \<and> p \<in> registered t \<and> sm_default t \<noteq> None
    \<and> (\<forall>k\<in>registered t. handled t k)"
proof -
  obtain b u where u: "loadConfigFromFile document s = Inr (b, u)" "starting u" "if b then sm_seats u \<noteq> [] \<and> sm_default u \<noteq> None else u = s"
    using starting_loaded [OF assms] by blast
  define v where "v = (if sm_seats u = [] then initializeDefaultSeat u else u)"
  have rules: "starting (ensureDefaultDeviceRules m w) \<and> sm_seats (ensureDefaultDeviceRules m w) = sm_seats w
      \<and> sm_default (ensureDefaultDeviceRules m w) = sm_default w" if "starting w" for m w
    using that by (simp add: ensureDefaultDeviceRules_def starting_rule)
  have v: "starting v \<and> sm_seats v \<noteq> [] \<and> sm_default v \<noteq> None"
  proof (cases "sm_seats u = []")
    case True
    then have "sm_default (snd (createSeat seat0 True u)) \<noteq> None"
      using u(2) by (simp add: createSeat_def Let_def announce_def sm_emit_def)
    then show ?thesis using True starting_createSeat [OF u(2)] rules by (simp add: v_def initializeDefaultSeat_def)
  next
    case False
    then show ?thesis using u(2,3) assms by (auto simp: v_def fresh_seats_def split: if_splits)
  qed
  then obtain q where q: "sm_default v = Some q" by auto
  define w where "w = ensureDefaultDeviceRules (seatName v q) v"
  have w: "starting w" "sm_seats w = sm_seats v" "sm_default w = Some q" using rules v q by (simp_all add: w_def)
  have reg: "q \<in> registered v" using v q unfolding starting_def by blast
  obtain t where t: "rfold (\<lambda>k s. rbind (with_seat k s) (\<lambda>w. if st_attached w then Inr s else server_attach k s)) (map snd (sm_seats w)) w = Inr t"
    "starting t" "sm_seats t = sm_seats w" "sm_default t = sm_default w" "\<forall>k. k \<in> set (map snd (sm_seats w)) \<or> handled w k \<longrightarrow> handled t k"
    using attach_all [OF w(1), of "map snd (sm_seats w)"] by (auto simp: registered_def)
  have run: "serverRunning w" using w(1) by (simp add: starting_def)
  have "initializeFromConfig document s = Inr (Some q, t)"
    unfolding initializeFromConfig_def u(1) rbind_simps case_prod_conv Let_def v_def [symmetric] q option.case w_def [symmetric]
    using run t(1) by simp
  moreover have "\<forall>k\<in>registered t. handled t k" using t(3,5) by (auto simp: registered_def)
  moreover have "q \<in> registered t" using reg w(2) t(3) by (simp add: registered_def)
  ultimately show ?thesis using t(2,4) w(3) by (intro exI [of _ q] exI [of _ t]) simp
qed

text \<open>A seat as it is before any device is there.\<close>

lemma started_ok:
  assumes "starting s" "\<forall>k\<in>registered s. handled s k" "sm_default s \<noteq> None"
  shows "seats_ok {} s"
proof -
  have name: "seatName s k = n" and none: "deviceList s k = []" if "(n, k) \<in> set (sm_seats s)" for n k
    using that assms(1) unfolding starting_def by (force simp: seatName_def plain_seat_def deviceList_def)+
  have empty: "deviceList s k = []" for k
  proof (cases "objects s k")
    case (Some w)
    then have "k \<in> registered s" using assms(1) by (auto simp: starting_def)
    then show ?thesis using none by (auto simp: registered_def)
  qed (simp add: deviceList_def)
  have live: "live_seat s k" if k: "k \<in> registered s" for k
  proof -
    obtain n where "(n, k) \<in> set (sm_seats s)" using k by (auto simp: registered_def)
    then obtain w where "objects s k = Some w" "plain_seat n w" using assms(1) unfolding starting_def by blast
    moreover have "handled s k" using assms(2) k by blast
    moreover have "cursorDevices s = (\<lambda>_. [])" "cursorSeat s = (\<lambda>_. None)" using assms(1) by (simp_all add: starting_def)
    ultimately show ?thesis by (auto simp: live_seat_def handled_def plain_seat_def)
  qed
  have "objects s k \<noteq> None" if "k \<in> registered s" for k using live [OF that] by (auto simp: live_seat_def)
  moreover have "k \<in> registered s" if "objects s k \<noteq> None" for k using assms(1) that unfolding starting_def by blast
  ultimately have alive: "objects s k \<noteq> None \<longleftrightarrow> k \<in> registered s" for k by blast
  show ?thesis
    using assms(1,3) name live unfolding seats_ok_def empty alive by (auto simp: starting_def)
qed

lemma setup_one:
  assumes "seats_ok {} s" "k \<in> registered s" "deviceSeat s = (\<lambda>_. None)" "cursorDevices s = (\<lambda>_. [])"
    and "st_cursor (the (objects s k)) = None" "c = SharedCursor \<or> c = SeatCursor k" "cursorSeat s c = None"
  shows "\<exists>t. seat_setCursor (Some c) k s = Inr t \<and> seats_ok {} t \<and> deviceSeat t = (\<lambda>_. None) \<and> cursorDevices t = (\<lambda>_. [])
    \<and> cursorSeat t = (cursorSeat s)(c \<mapsto> k) \<and> sm_seats t = sm_seats s \<and> (\<forall>j. j \<noteq> k \<longrightarrow> objects t j = objects s j) \<and> (\<forall>j. seatName t j = seatName s j)"
proof -
  have live: "live_seat s k" using seats_okD(4) [OF assms(1)] assms(2) by simp
  then obtain w where w: "objects s k = Some w" "with_seat k s = Inr w" "deviceList s k = st_devices w" "st_handle w" "st_attached w" by (rule live_seatE)
  have "\<not> d \<in> set (deviceList s k)" for d using seats_okD(1) [OF assms(1), of d k] assms(3) by simp
  then have nodev: "st_devices w = []" unfolding w(3) [symmetric] by (cases "deviceList s k") auto
  define t where "t = (mod_wseat (\<lambda>w. w\<lparr>st_cursor := Some c\<rparr>) k s)\<lparr>cursorSeat := (cursorSeat s)(c := Some k)\<rparr>"
  have set: "seat_setCursor (Some c) k s = Inr t"
    using w assms(5,7) nodev by (simp add: seat_setCursor_def Let_def t_def)
  have f: "obj_frame k s t" by (rule frame_setCursor [OF set])
  note ff = obj_frame_fields [OF f]
  have t: "deviceSeat t = deviceSeat s" "cursorDevices t = cursorDevices s" "cursorSeat t = (cursorSeat s)(c := Some k)" "qtDevice t = qtDevice s"
    "objects t = (objects s)(k \<mapsto> w\<lparr>st_cursor := Some c\<rparr>)"
    using w(1) by (auto simp: t_def mod_wseat_def)
  have dl: "deviceList t j = deviceList s j" for j using w(1) by (simp add: deviceList_def t(5))
  have lives: "live_seat t j" if j: "live_seat s j" for j
  proof (cases "j = k")
    case True
    then show ?thesis using w assms(4,6) by (simp add: live_seat_def t)
  next
    case False
    then have "objects t j = objects s j" by (simp add: t(5))
    moreover have "cursorSeat t b = cursorSeat s b" if "cursorSeat s b = Some j \<or> b = SeatCursor j" for b
      using that assms(6,7) False by (auto simp: t(3))
    ultimately show ?thesis using live_seat_other [OF j _ ff(7)] by (simp add: t(2))
  qed
  have "seats_ok {} t"
    using assms(1) lives unfolding seats_ok_def registered_def ff(1-4,9,11,13,14) t(1,4) dl validRules_def by auto
  then show ?thesis using set t(1-3) assms(3,4) ff by (intro exI [of _ t]) simp
qed

lemma live_seat_mod:
  assumes "live_seat s j" "\<And>w. st_attached (f w) = st_attached w" "\<And>w. st_handle (f w) = st_handle w" "\<And>w. st_cursor (f w) = st_cursor w"
    "\<And>w. st_devices (f w) = st_devices w"
  shows "live_seat (mod_wseat f k s) j"
proof -
  obtain w where "objects s j = Some w" using assms(1) by (auto simp: live_seat_def)
  then show ?thesis using assms(1) by (cases "st_cursor w") (auto simp: live_seat_def assms(2-5))
qed

lemma seats_ok_mod:
  assumes "seats_ok X s" "\<And>w. st_attached (f w) = st_attached w" "\<And>w. st_handle (f w) = st_handle w" "\<And>w. st_cursor (f w) = st_cursor w"
    "\<And>w. st_devices (f w) = st_devices w" "\<And>w. st_name (f w) = st_name w"
  shows "seats_ok X (mod_wseat f k s)"
proof -
  have same: "seatName (mod_wseat f k s) j = seatName s j" "deviceList (mod_wseat f k s) j = deviceList s j" for j
    using assms(5,6) by (auto simp: seatName_def deviceList_def split: option.split)
  have lives: "live_seat (mod_wseat f k s) j" if "live_seat s j" for j by (rule live_seat_mod [OF that assms(2-5)])
  have "objects (mod_wseat f k s) j \<noteq> None \<longleftrightarrow> objects s j \<noteq> None" for j by simp
  moreover have "sm_rules (mod_wseat f k s) = sm_rules s" "sm_default (mod_wseat f k s) = sm_default s"
    "sm_pending (mod_wseat f k s) = sm_pending s" "serverRunning (mod_wseat f k s) = serverRunning s"
    "regexValid (mod_wseat f k s) = regexValid s" "registered (mod_wseat f k s) = registered s" by (simp_all add: mod_wseat_def registered_def)
  ultimately show ?thesis using assms(1) lives unfolding seats_ok_def same validRules_def by auto
qed

lemma setup_all:
  assumes "seats_ok {} s" "set ks \<subseteq> registered s" "distinct ks" "deviceSeat s = (\<lambda>_. None)" "cursorDevices s = (\<lambda>_. [])"
    and "\<forall>k\<in>set ks. st_cursor (the (objects s k)) = None"
    and "\<forall>c. cursorSeat s c \<noteq> None \<longrightarrow> (\<forall>k\<in>set ks. c \<noteq> (if seatName s k = seat0 then SharedCursor else SeatCursor k))"
  shows "\<exists>t. rfold setupSeat ks s = Inr t \<and> seats_ok {} t \<and> sm_seats t = sm_seats s"
  using assms
proof (induction ks arbitrary: s)
  case (Cons k ks)
  let ?c = "if seatName s k = seat0 then SharedCursor else SeatCursor k"
  have k: "k \<in> registered s" using Cons.prems(2) by simp
  have live: "live_seat s k" using seats_okD(4) [OF Cons.prems(1)] k by simp
  then obtain w where w: "objects s k = Some w" "with_seat k s = Inr w" "st_handle w" by (rule live_seatE) simp
  have name: "seatName s k = st_name w" by (simp add: seatName_def w(1))
  have nocur: "st_cursor w = None" using Cons.prems(6) w(1) by simp
  have free: "cursorSeat s ?c = None" using Cons.prems(7) by (cases "cursorSeat s ?c") auto
  have cur: "st_cursor (the (objects s k)) = None" "?c = SharedCursor \<or> ?c = SeatCursor k" using w(1) nocur by simp_all
  obtain u where u: "seat_setCursor (Some ?c) k s = Inr u" "seats_ok {} u" "deviceSeat u = (\<lambda>_. None)" "cursorDevices u = (\<lambda>_. [])"
    "cursorSeat u = (cursorSeat s)(?c \<mapsto> k)" "sm_seats u = sm_seats s" "\<forall>j. j \<noteq> k \<longrightarrow> objects u j = objects s j"
    "\<forall>j. seatName u j = seatName s j"
    using setup_one [OF Cons.prems(1) k Cons.prems(4,5) cur free] by blast
  define v where "v = mod_wseat (\<lambda>w. w\<lparr>st_focusWindow := True, st_filter := True\<rparr>) k u"
  have step: "setupSeat k s = Inr v"
    using u(1) w(3) nocur unfolding setupSeat_def w(2) name by (simp add: v_def)
  have same: "seatName v j = seatName u j" "deviceList v j = deviceList u j" for j
    by (auto simp: v_def seatName_def deviceList_def split: option.split)
  have ok: "seats_ok {} v" unfolding v_def by (rule seats_ok_mod [OF u(2)]) simp_all
  have rest: "deviceSeat v = (\<lambda>_. None)" "cursorDevices v = (\<lambda>_. [])" "sm_seats v = sm_seats s" "registered v = registered s"
    "cursorSeat v = (cursorSeat s)(?c \<mapsto> k)" using u by (simp_all add: v_def registered_def)
  have obj: "objects v j = objects s j" if "j \<in> set ks" for j using that Cons.prems(3) u(7) by (auto simp: v_def)
  have nm: "seatName v j = seatName s j" for j using u(8) same(1) by simp
  have inj: "seatName s j \<noteq> seatName s k" if "j \<in> set ks" for j
  proof -
    from that Cons.prems(2) obtain a b where "(a, j) \<in> set (sm_seats s)" "(b, k) \<in> set (sm_seats s)" by (auto simp: registered_def)
    moreover have "j \<noteq> k" using that Cons.prems(3) by auto
    moreover have "qok (sm_seats s)" "\<forall>n k. (n, k) \<in> set (sm_seats s) \<longrightarrow> seatName s k = n" using Cons.prems(1) by (simp_all add: seats_ok_def)
    ultimately show ?thesis using qget_iff_in_set by (metis option.inject)
  qed
  have "\<exists>t. rfold setupSeat ks v = Inr t \<and> seats_ok {} t \<and> sm_seats t = sm_seats v"
  proof (rule Cons.IH [OF ok])
    show "set ks \<subseteq> registered v" "distinct ks" using Cons.prems(2,3) rest by simp_all
    show "deviceSeat v = (\<lambda>_. None)" "cursorDevices v = (\<lambda>_. [])" by (rule rest)+
    show "\<forall>k\<in>set ks. st_cursor (the (objects v k)) = None" using Cons.prems(6) obj by simp
    show "\<forall>c. cursorSeat v c \<noteq> None \<longrightarrow> (\<forall>k\<in>set ks. c \<noteq> (if seatName v k = seat0 then SharedCursor else SeatCursor k))"
      using Cons.prems(3,7) inj by (auto simp: rest(5) nm split: if_splits)
  qed
  then show ?case using step rest(3) by simp
qed simp

text \<open>The compositor always starts with its seats in order.\<close>

lemma started:
  assumes "fresh_seats s"
  shows "\<exists>p t u. initializeFromConfig document s = Inr (Some p, t) \<and> setupAllSeats t = Inr u \<and> seats_ok {} u \<and> p \<in> registered u"
proof -
  obtain p t where t: "initializeFromConfig document s = Inr (Some p, t)" "starting t" "p \<in> registered t" "sm_default t \<noteq> None"
    "\<forall>k\<in>registered t. handled t k" using initialize_returns [OF assms] by blast
  have ok: "seats_ok {} t" by (rule started_ok [OF t(2,5,4)])
  have cur: "st_cursor (the (objects t k)) = None" if "k \<in> registered t" for k
  proof -
    from that obtain n where "(n, k) \<in> set (sm_seats t)" by (auto simp: registered_def)
    then show ?thesis using t(2) by (force simp: starting_def plain_seat_def)
  qed
  have "\<exists>u. rfold setupSeat (map snd (sm_seats t)) t = Inr u \<and> seats_ok {} u \<and> sm_seats u = sm_seats t"
    using t(2) cur by (intro setup_all [OF ok]) (auto simp: starting_def registered_def)
  then obtain u where "rfold setupSeat (map snd (sm_seats t)) t = Inr u" "seats_ok {} u" "sm_seats u = sm_seats t" by blast
  then show ?thesis using t(1,3) by (intro exI [of _ p] exI [of _ t] exI [of _ u]) (simp add: setupAllSeats_def registered_def)
qed

end
