(* ===== verification/Seat_Lifecycle.thy ===== *)
theory Seat_Lifecycle
  imports Seat_Start
begin

text \<open>
  The seats while the compositor runs (src/src/seat/seatmanager.cpp): devices that come and go or are given to
  another seat, rules that change, seats that go away.
\<close>

section \<open>Devices that come and go\<close>

definition points :: "seat_state \<Rightarrow> did \<Rightarrow> bool" where
  "points s d = (dv_type (device s d) \<in> {DevPointer, DevTouch, DevTablet})"

lemma cursor_attach_all:
  assumes "distinct ds" "set ds \<inter> set (cursorDevices s c) = {}"
  shows "rfold (cursor_attachInputDevice c) ds s = Inr (s\<lparr>cursorDevices := (cursorDevices s)(c := cursorDevices s c @ filter (points s) ds)\<rparr>)"
  using assms
proof (induction ds arbitrary: s)
  case (Cons d ds)
  define u where "u = s\<lparr>cursorDevices := (cursorDevices s)(c := cursorDevices s c @ (if points s d then [d] else []))\<rparr>"
  have step: "cursor_attachInputDevice c d s = Inr u"
    using cursor_attach_result [of d s c] Cons.prems(2) by (simp add: points_def u_def)
  have pt: "points u = points s" by (simp add: points_def fun_eq_iff u_def)
  have free: "distinct ds" "set ds \<inter> set (cursorDevices u c) = {}" using Cons.prems by (auto simp: u_def)
  have rest: "rfold (cursor_attachInputDevice c) ds u = Inr (u\<lparr>cursorDevices := (cursorDevices u)(c := cursorDevices u c @ filter (points s) ds)\<rparr>)"
    by (rule Cons.IH [OF free, unfolded pt])
  have fg: "(cursorDevices u)(c := cursorDevices u c @ filter (points s) ds)
      = (cursorDevices s)(c := cursorDevices s c @ filter (points s) (d # ds))" by (auto simp: u_def)
  have "u\<lparr>cursorDevices := f\<rparr> = s\<lparr>cursorDevices := f\<rparr>" for f by (simp add: u_def)
  then have "rfold (cursor_attachInputDevice c) ds u = Inr (s\<lparr>cursorDevices := (cursorDevices s)(c := cursorDevices s c @ filter (points s) (d # ds))\<rparr>)"
    unfolding rest fg by (rule arg_cong)
  then show ?case unfolding rfold.simps step rbind_simps .
qed simp

text \<open>The cursor that the first pointer brings.\<close>

lemma first_cursor:
  assumes ok: "seats_ok {} s" and k: "k \<in> registered s" and w: "objects s k = Some w" "st_cursor w = None"
  shows "\<exists>t. seat_setCursor (Some (SeatCursor k)) k s = Inr t \<and> seats_ok {} t \<and> deviceSeat t = deviceSeat s \<and> obj_frame k s t
    \<and> (\<forall>j. deviceList t j = deviceList s j)"
proof -
  have live: "live_seat s k" using seats_okD(4) [OF ok] k by simp
  then have h: "st_handle w" "st_attached w" "cursorDevices s (SeatCursor k) = []" "cursorSeat s (SeatCursor k) = None"
    using w by (auto simp: live_seat_def)
  let ?u = "(mod_wseat (\<lambda>w. w\<lparr>st_cursor := Some (SeatCursor k)\<rparr>) k s)\<lparr>cursorSeat := (cursorSeat s)(SeatCursor k := Some k)\<rparr>"
  have dist: "distinct (st_devices w)" using seats_okD(2) [OF ok, of k] w(1) by (simp add: deviceList_def)
  define t where "t = ?u\<lparr>cursorDevices := (cursorDevices s)(SeatCursor k := filter (points s) (st_devices w))\<rparr>"
  have "points ?u = points s" by (simp add: points_def fun_eq_iff)
  then have "rfold (cursor_attachInputDevice (SeatCursor k)) (st_devices w) ?u = Inr t"
    using cursor_attach_all [OF dist, of ?u "SeatCursor k"] h(3) by (simp add: t_def)
  then have set: "seat_setCursor (Some (SeatCursor k)) k s = Inr t"
    using w h by (simp add: seat_setCursor_def with_seat_def Let_def)
  have f: "obj_frame k s t" by (rule frame_setCursor [OF set])
  note ff = obj_frame_fields [OF f]
  have t: "deviceSeat t = deviceSeat s" "qtDevice t = qtDevice s" "objects t = (objects s)(k \<mapsto> w\<lparr>st_cursor := Some (SeatCursor k)\<rparr>)"
    "cursorSeat t = (cursorSeat s)(SeatCursor k := Some k)"
    "cursorDevices t = (cursorDevices s)(SeatCursor k := filter (points s) (st_devices w))"
    using w(1) by (auto simp: t_def mod_wseat_def)
  have dl: "deviceList t j = deviceList s j" for j using w(1) by (simp add: deviceList_def t(3))
  have lives: "live_seat t j" if j: "live_seat s j" for j
  proof (cases "j = k")
    case True
    then show ?thesis using w h dist unfolding live_seat_def t(3-5) ff(7) by (auto simp: points_def)
  next
    case False
    then have "objects t j = objects s j" by (simp add: t(3))
    moreover have "cursorDevices t c = cursorDevices s c \<and> cursorSeat t c = cursorSeat s c" if "cursorSeat s c = Some j \<or> c = SeatCursor j" for c
      using that h(4) False by (auto simp: t(4,5))
    ultimately show ?thesis by (rule live_seat_other [OF j _ ff(7)])
  qed
  have "seats_ok {} t"
    using ok lives unfolding seats_ok_def registered_def ff(1-4,9,11,13,14) t(1,2) dl validRules_def by auto
  then show ?thesis using set t(1) f dl by (intro exI [of _ t]) simp
qed

text \<open>What \<^verbatim>\<open>assignDevice\<close> does after a seat has been found.\<close>

lemma assignDevice_ok:
  assumes ok: "seats_ok {} s" and some: "sm_seats s \<noteq> []" and r: "assignDevice d p s = Inr t"
  shows "seats_ok {} t \<and> sm_seats t = sm_seats s \<and> sm_rules t = sm_rules s \<and> sm_default t = sm_default s \<and> device t = device s
    \<and> (\<exists>k\<in>registered s. (\<exists>u. autoAssignDevice d s = Inr (Some k, u)) \<and> deviceSeat t = (deviceSeat s)(d \<mapsto> k) \<and> sm_cache t d = Some (Some k))"
proof -
  obtain j u where u: "autoAssignDevice d s = Inr (j, u)" using r by (auto simp: assignDevice_def elim!: rbind_InrE)
  note a = autoAssign_ok [OF ok _ u]
  have "j \<noteq> None" using a seats_okD(7) [OF ok] some by auto
  then obtain k where k: "j = Some k" by auto
  then have reg: "k \<in> registered s" "seats_ok {} u" "k \<in> registered u" using a by (auto simp: registered_def)
  have "live_seat u k" using seats_okD(4) [OF reg(2)] reg(3) by simp
  then obtain w where w: "objects u k = Some w" "with_seat k u = Inr w" by (rule live_seatE)
  obtain v where v: "(if dv_type (device u d) = DevPointer \<and> st_cursor w = None then seat_setCursor (Some (SeatCursor k)) k u else Inr u) = Inr v"
    "t = sm_emit (DeviceAssigned d) ((if dv_type (device v d) = DevKeyboard \<and> \<not> st_focusWindow w then mod_wseat (\<lambda>w. w\<lparr>st_focusWindow := True\<rparr>) k v else v)
      \<lparr>sm_cache := (sm_cache (if dv_type (device v d) = DevKeyboard \<and> \<not> st_focusWindow w then mod_wseat (\<lambda>w. w\<lparr>st_focusWindow := True\<rparr>) k v else v))(d \<mapsto> Some k)\<rparr>)"
    using r u k w(2) by (auto simp: assignDevice_def Let_def rbind_Inr_iff)
  have v1: "seats_ok {} v" "deviceSeat v = deviceSeat u" "obj_frame k u v"
    using v(1) first_cursor [OF reg(2,3) w(1)] reg(2) by (auto split: if_splits)
  define x where "x = (if dv_type (device v d) = DevKeyboard \<and> \<not> st_focusWindow w then mod_wseat (\<lambda>w. w\<lparr>st_focusWindow := True\<rparr>) k v else v)"
  have x: "seats_ok {} x" "deviceSeat x = deviceSeat v" "obj_frame k v x"
    using seats_ok_mod [OF v1(1)] v1(1) by (auto simp: x_def intro!: frame_mod)
  have t: "t = sm_emit (DeviceAssigned d) (x\<lparr>sm_cache := (sm_cache x)(d \<mapsto> Some k)\<rparr>)" unfolding x_def by (rule v(2))
  note f = obj_frame_fields [OF obj_frame_trans [OF v1(3) x(3)]]
  have "seats_ok {} t" using x(1) by (simp add: t ok_update)
  moreover have "sm_seats t = sm_seats s" "sm_rules t = sm_rules s" "sm_default t = sm_default s" "device t = device s"
    "deviceSeat t = (deviceSeat s)(d \<mapsto> k)" "sm_cache t d = Some (Some k)"
    using a f x(2) v1(2) k by (simp_all add: t sm_emit_def)
  ultimately show ?thesis using u k reg(1) by auto
qed

lemma no_seats_no_devices:
  assumes "seats_ok {} s" "sm_seats s = []"
  shows "objects s k = None" "deviceSeat s d = None" "sm_default s = None"
proof -
  show o: "objects s k = None" for k using seats_okD(5) [OF assms(1), of k] assms(2) by (auto simp: registered_def)
  show "deviceSeat s d = None"
  proof (cases "deviceSeat s d")
    case (Some k)
    then show ?thesis using seats_okD(1) [OF assms(1), of d k] o [of k] by (simp add: deviceList_def)
  qed
  show "sm_default s = None" using seats_okD(6) [OF assms(1)] assms(2) by (cases "sm_default s") (auto simp: registered_def)
qed

lemma assignDevice_seats_ok:
  assumes ok: "seats_ok {} s" and r: "assignDevice d p s = Inr t"
  shows "seats_ok {} t"
proof (cases "sm_seats s = []")
  case True
  note e = no_seats_no_devices [OF ok True]
  have "holder d s = None" by (simp add: holder_def True)
  then have "autoAssignDevice d s = Inr (None, s)"
    by (simp add: autoAssignDevice_def findSeatForDevice_def e True)
  then have "t = s" using r by (auto simp: assignDevice_def with_seat_def e split: option.splits)
  then show ?thesis using ok by simp
qed (use assignDevice_ok [OF ok _ r] in blast)

text \<open>Only touch devices and tablets can be refused.\<close>

lemma attach_free:
  assumes ok: "seats_ok X s" and k: "k \<in> registered s \<union> X" and none: "deviceSeat s d = None"
    and type: "dv_type (device s d) \<notin> {DevTouch, DevTablet}"
  shows "\<exists>t. seat_attachInputDevice d k s = Inr t"
proof -
  have "d \<notin> set (cursorDevices s c)" if w: "objects s k = Some w" "st_cursor w = Some c" for w c
  proof
    assume "d \<in> set (cursorDevices s c)"
    then have "d \<in> set (st_devices w)" using seats_okD(4) [OF ok k] w type unfolding live_seat_def by auto
    then have "d \<in> set (deviceList s k)" using w by (simp add: deviceList_def)
    then show False using seats_okD(1) [OF ok, of d k] none by simp
  qed
  then show ?thesis using attach_result [OF ok none k] by blast
qed

lemma assignDevice_returns:
  assumes ok: "seats_ok {} s" and some: "sm_seats s \<noteq> []" and none: "deviceSeat s d = None"
    and type: "dv_type (device s d) \<notin> {DevTouch, DevTablet}"
  shows "\<exists>t. assignDevice d p s = Inr t"
proof -
  have "sm_default s \<noteq> None" using seats_okD(7) [OF ok] some by blast
  then have "rule_policy d s \<noteq> None" by (auto simp: rule_policy_def split: option.split)
  then obtain k where k: "rule_policy d s = Some k" by blast
  have reg: "k \<in> registered s" by (rule rule_policy_registered [OF ok k])
  then obtain u where u: "seat_attachInputDevice d k s = Inr u" using attach_free [OF ok _ none type] by blast
  have auto: "autoAssignDevice d s = Inr (Some k, u)" using autoAssign_policy [OF ok _ none] k u by simp
  have k': "k \<in> registered s \<union> {}" using reg by simp
  note o = attach_ok [OF ok k' u]
  have ru: "k \<in> registered u" using reg frame_registered [OF o(4)] by simp
  have "live_seat u k" using seats_okD(4) [OF o(1)] ru by blast
  then obtain w where w: "objects u k = Some w" "with_seat k u = Inr w" by (rule live_seatE)
  show ?thesis
  proof (cases "dv_type (device u d) = DevPointer \<and> st_cursor w = None")
    case True
    then obtain v where "seat_setCursor (Some (SeatCursor k)) k u = Inr v" using first_cursor [OF o(1) ru w(1)] by blast
    then show ?thesis using True w by (simp add: assignDevice_def auto Let_def)
  next
    case False
    then show ?thesis using w by (auto simp: assignDevice_def auto Let_def)
  qed
qed

lemma rule_policy_emit [simp]: "rule_policy d (sm_emit e s) = rule_policy d s"
  by (simp add: rule_policy_def deviceMatchesSeat_def matchesDevice_def seatName_def sm_emit_def cong: option.case_cong)

lemma emit_kept [simp]:
  "deviceSeat (sm_emit e s) = deviceSeat s" "sm_seats (sm_emit e s) = sm_seats s" "device (sm_emit e s) = device s"
  "sm_cache (sm_emit e s) = sm_cache s" "sm_default (sm_emit e s) = sm_default s"
  by (simp_all add: sm_emit_def)

text \<open>C37: A device that appears while no seat has it goes to the first seat, in the order of the names, that is not the
  fallback and has a rule for it, and else to the fallback seat; from then on its events and the device cache name that
  seat, every other device stays where it is, and only a touch device or a tablet can make the assignment fail.\<close>

theorem device_follows_rules:
  assumes "seats_ok {} s" "sm_seats s \<noteq> []" "deviceSeat s d = None"
  shows "(dv_type (device s d) \<notin> {DevTouch, DevTablet} \<longrightarrow> (\<exists>t. inputAdded p d s = Inr t))
    \<and> (\<forall>t. inputAdded p d s = Inr t \<longrightarrow>
         (\<exists>k\<in>registered s. rule_policy d s = Some k \<and> deviceSeat t = (deviceSeat s)(d \<mapsto> k)
            \<and> getSeatForEvent (Some d) t = Some k \<and> fst (getSeatForDevice d t) = Some k) \<and> seats_ok {} t)"
proof (intro conjI impI allI)
  let ?s = "sm_emit (DeviceAdded d) s"
  have ok: "seats_ok {} ?s" using assms(1) by (simp add: ok_update)
  have some: "sm_seats ?s \<noteq> []" and none: "deviceSeat ?s d = None" using assms(2,3) by simp_all
  show "\<exists>t. inputAdded p d s = Inr t" if "dv_type (device s d) \<notin> {DevTouch, DevTablet}"
    using assignDevice_returns [OF ok some none] that by (simp add: inputAdded_def)
  fix t assume "inputAdded p d s = Inr t"
  then have r: "assignDevice d p ?s = Inr t" by (simp add: inputAdded_def)
  note a = assignDevice_ok [OF ok some r]
  then show "seats_ok {} t" by blast
  obtain k u where k: "k \<in> registered ?s" "autoAssignDevice d ?s = Inr (Some k, u)" "deviceSeat t = (deviceSeat ?s)(d \<mapsto> k)"
    "sm_cache t d = Some (Some k)" using a by blast
  have pol: "autoAssignDevice d ?s = (case rule_policy d ?s of None \<Rightarrow> Inr (None, ?s) | Some k \<Rightarrow> rbind (seat_attachInputDevice d k ?s) (\<lambda>s. Inr (Some k, s)))"
    by (rule autoAssign_policy [OF ok _ none]) simp
  have "rule_policy d ?s = Some k"
  proof (cases "rule_policy d ?s")
    case None
    then show ?thesis using pol k(2) by simp
  next
    case (Some j)
    then have "rbind (seat_attachInputDevice d j ?s) (\<lambda>s. Inr (Some j, s)) = Inr (Some k, u)" using pol k(2) by simp
    then show ?thesis using Some by (auto elim!: rbind_InrE)
  qed
  then show "\<exists>k\<in>registered s. rule_policy d s = Some k \<and> deviceSeat t = (deviceSeat s)(d \<mapsto> k)
      \<and> getSeatForEvent (Some d) t = Some k \<and> fst (getSeatForDevice d t) = Some k"
    using k by (auto simp: getSeatForEvent_def getSeatForDevice_def ok_update)
qed

lemma inputRemoved_ok:
  assumes ok: "seats_ok {} s"
  shows "\<exists>t. inputRemoved d s = Inr t \<and> seats_ok {} t \<and> deviceSeat t = (deviceSeat s)(d := None) \<and> sm_cache t d = None \<and> sm_seats t = sm_seats s"
proof -
  let ?s = "clearDeviceCache d s"
  have ok': "seats_ok {} ?s" using ok by (simp add: clearDeviceCache_def ok_update)
  have h: "holder d ?s = deviceSeat s d" using holder_seat [OF ok'] by (simp add: clearDeviceCache_def)
  show ?thesis
  proof (cases "deviceSeat s d")
    case None
    then have "inputRemoved d s = Inr (sm_emit (DeviceRemoved d) ?s)" using h by (simp add: inputRemoved_def)
    then show ?thesis using ok' None by (simp add: ok_update fun_upd_idem) (simp add: clearDeviceCache_def fun_upd_idem)
  next
    case (Some k)
    then have "deviceSeat ?s d = Some k" by (simp add: clearDeviceCache_def)
    then obtain t where t: "seat_detachInputDevice d k ?s = Inr t" "seats_ok {} t" "deviceSeat t = (deviceSeat ?s)(d := None)" "obj_frame k ?s t"
      using detach_ok [OF ok'] by blast
    then have "inputRemoved d s = Inr (sm_emit (DeviceRemoved d) t)" using h Some by (simp add: inputRemoved_def)
    then show ?thesis using t(2,3) obj_frame_fields(1,5) [OF t(4)] by (simp add: ok_update) (simp add: clearDeviceCache_def)
  qed
qed

text \<open>Giving a device to a seat by name.\<close>

lemma assignDeviceToSeat_ok:
  assumes ok: "seats_ok {} s" and r: "assignDeviceToSeat d n s = Inr t"
  shows "seats_ok {} t \<and> sm_cache t = sm_cache s
    \<and> (\<forall>k. qget (sm_seats s) n = Some k \<longrightarrow> deviceSeat t = (deviceSeat s)(d \<mapsto> k))"
proof -
  let ?at = "\<lambda>s. case qget (sm_seats s) n of Some k \<Rightarrow> seat_attachInputDevice d k s
          | None \<Rightarrow> (case sm_default s of Some k \<Rightarrow> seat_attachInputDevice d k s | None \<Rightarrow> Inr s)"
  have attach: "seats_ok {} t \<and> sm_cache t = sm_cache u \<and> (\<forall>k. qget (sm_seats u) n = Some k \<longrightarrow> deviceSeat t = (deviceSeat u)(d \<mapsto> k))"
    if ok: "seats_ok {} u" and a: "?at u = Inr t" for u
  proof -
    have k: "?thesis" if "k \<in> registered u" "seat_attachInputDevice d k u = Inr t" "qget (sm_seats u) n = Some k \<or> qget (sm_seats u) n = None" for k
    proof -
      have k: "k \<in> registered u \<union> {}" using that(1) by simp
      note o = attach_ok [OF ok k that(2)]
      show ?thesis using o(1,3) obj_frame_fields(5) [OF o(4)] that(3) by auto
    qed
    have "j \<in> registered u" if "qget (sm_seats u) n = Some j" for j using qget_in_set [OF that] by (force simp: registered_def)
    then show ?thesis using a k ok seats_okD(6) [OF ok] by (auto split: option.splits)
  qed
  have h: "holder d s = deviceSeat s d" by (rule holder_seat [OF ok]) simp
  show ?thesis
  proof (cases "deviceSeat s d")
    case None
    then show ?thesis using attach [OF ok] r h by (simp add: assignDeviceToSeat_def)
  next
    case (Some k)
    obtain u where u: "seat_detachInputDevice d k s = Inr u" "seats_ok {} u" "deviceSeat u = (deviceSeat s)(d := None)" "obj_frame k s u"
      using detach_ok [OF ok Some] by blast
    note f = obj_frame_fields [OF u(4)]
    show ?thesis
    proof (cases "seatName s k = n")
      case True
      have "d \<in> set (deviceList s k)" using seats_okD(1) [OF ok] Some by blast
      then have "k \<in> registered s" using seats_okD(5) [OF ok, of k] listed_alive by blast
      then have "(n, k) \<in> set (sm_seats s)" using ok True unfolding seats_ok_def registered_def by auto
      then have "qget (sm_seats s) n = Some k" using ok by (simp add: seats_ok_def qget_iff_in_set)
      then show ?thesis using r h Some True ok by (auto simp: assignDeviceToSeat_def fun_upd_idem)
    next
      case False
      then show ?thesis using attach [OF u(2)] r h Some u f by (simp add: assignDeviceToSeat_def)
    qed
  qed
qed

text \<open>Rules.\<close>

lemma seats_okI:
  assumes "qok (sm_seats s)" "distinct (map snd (sm_seats s))" "sm_pending s = []" "serverRunning s"
    and "\<And>n k. (n, k) \<in> set (sm_seats s) \<Longrightarrow> seatName s k = n"
    and "\<And>k. objects s k \<noteq> None \<longleftrightarrow> k \<in> registered s \<union> X" "X \<inter> registered s = {}"
    and "\<And>k. k \<in> registered s \<union> X \<Longrightarrow> live_seat s k"
    and "\<And>n rs. qget (sm_rules s) n = Some rs \<Longrightarrow> rs \<noteq> [] \<and> n \<noteq> [] \<and> (qhas (sm_seats s) n \<or> (\<exists>k\<in>X. seatName s k = n)) \<and> validRules s rs"
    and "\<And>k. sm_default s = Some k \<Longrightarrow> k \<in> registered s" "sm_default s = None \<Longrightarrow> sm_seats s = []"
    and "\<And>d k. deviceSeat s d = Some k \<longleftrightarrow> d \<in> set (deviceList s k)" "\<And>k. distinct (deviceList s k)"
    and "\<And>d. deviceSeat s d \<noteq> None \<Longrightarrow> qtDevice s d"
  shows "seats_ok X s"
  unfolding seats_ok_def using assms by simp

lemma seats_ok_parts:
  assumes "seats_ok X s"
  shows "qok (sm_seats s)" "distinct (map snd (sm_seats s))" "sm_pending s = []" "serverRunning s"
    "(n, k) \<in> set (sm_seats s) \<Longrightarrow> seatName s k = n" "X \<inter> registered s = {}"
  using assms by (simp_all add: seats_ok_def)

lemma seats_ok_rules:
  assumes "seats_ok X s"
    and "\<forall>n rs. qget m n = Some rs \<longrightarrow> rs \<noteq> [] \<and> n \<noteq> [] \<and> (qhas (sm_seats s) n \<or> (\<exists>k\<in>X. seatName s k = n)) \<and> validRules s rs"
  shows "seats_ok X (s\<lparr>sm_rules := m\<rparr>)"
proof -
  have "live_seat (s\<lparr>sm_rules := m\<rparr>) = live_seat s" by (simp add: live_seat_def fun_eq_iff cong: option.case_cong)
  moreover have "registered (s\<lparr>sm_rules := m\<rparr>) = registered s" by (simp add: registered_def)
  moreover have "seatName (s\<lparr>sm_rules := m\<rparr>) = seatName s" "deviceList (s\<lparr>sm_rules := m\<rparr>) = deviceList s"
    "validRules (s\<lparr>sm_rules := m\<rparr>) = validRules s"
    by (simp_all add: seatName_def deviceList_def validRules_def fun_eq_iff)
  ultimately show ?thesis using assms unfolding seats_ok_def by simp
qed

lemma seats_ok_rulesD:
  "seats_ok X s \<Longrightarrow> qget (sm_rules s) n = Some rs \<Longrightarrow>
    rs \<noteq> [] \<and> n \<noteq> [] \<and> (qhas (sm_seats s) n \<or> (\<exists>k\<in>X. seatName s k = n)) \<and> validRules s rs"
  by (simp add: seats_ok_def)

lemma addDeviceRule_ok:
  assumes ok: "seats_ok {} s"
  shows "seats_ok {} (addDeviceRule n r s)"
proof (cases "addDeviceRule n r s = s")
  case False
  then have c: "n \<noteq> []" "r \<noteq> []" "qhas (sm_seats s) n" "regexValid s r" "r \<notin> set (qval (sm_rules s) n [])"
    and e: "addDeviceRule n r s = s\<lparr>sm_rules := qput n (qval (sm_rules s) n [] @ [r]) (sm_rules s)\<rparr>"
    by (simp_all add: addDeviceRule_def split: if_splits)
  have "validRules s (qval (sm_rules s) n [] @ [r])"
  proof (cases "qget (sm_rules s) n")
    case (Some rs)
    then show ?thesis using seats_ok_rulesD [OF ok Some] c by (simp add: validRules_def qval_def)
  qed (use c in \<open>simp add: validRules_def qval_def\<close>)
  then show ?thesis unfolding e using c seats_ok_rulesD [OF ok] by (intro seats_ok_rules [OF ok]) auto
qed (use ok in simp)

lemma validRules_remove1: "validRules s rs \<Longrightarrow> validRules s (remove1 r rs)"
  using set_remove1_subset [of r rs] by (auto simp: validRules_def)

lemma removeDeviceRule_ok:
  assumes ok: "seats_ok {} s"
  shows "seats_ok {} (removeDeviceRule n r s)"
proof (cases "\<not> qhas (sm_rules s) n \<or> \<not> regexValid s r")
  case False
  then obtain rs where rs: "qget (sm_rules s) n = Some rs" by (auto simp: qhas_iff)
  have e: "removeDeviceRule n r s = s\<lparr>sm_rules := (if remove1 r rs = [] then qdel n (sm_rules s) else qput n (remove1 r rs) (sm_rules s))\<rparr>"
    using False rs by (simp add: removeDeviceRule_def qval_def)
  show ?thesis unfolding e using seats_ok_rulesD [OF ok] rs validRules_remove1 by (intro seats_ok_rules [OF ok]) auto
qed (use ok in \<open>simp add: removeDeviceRule_def\<close>)

section \<open>Removing a seat\<close>

lemma qdel_set: "set (qdel n m) = {e \<in> set m. fst e \<noteq> n}"
  by (auto simp: qdel_def)

text \<open>The seat leaves the registry; its devices are still there.\<close>

lemma unregister_ok:
  assumes ok: "seats_ok {} s" and k: "qget (sm_seats s) n = Some k"
  defines "u \<equiv> s\<lparr>sm_seats := qdel n (sm_seats s)\<rparr>"
  defines "v \<equiv> (if sm_default u = Some k then u\<lparr>sm_default := (case sm_seats u of [] \<Rightarrow> None | e # _ \<Rightarrow> Some (snd e))\<rparr> else u)"
  shows "seats_ok {k} v" "registered v = registered s - {k}" "seatName v k = n" "deviceSeat v = deviceSeat s" "deviceList v = deviceList s"
    "sm_seats v = qdel n (sm_seats s)" "device v = device s"
proof -
  have dist: "distinct (map snd (sm_seats s))" and qk: "qok (sm_seats s)" using ok by (simp_all add: seats_ok_def)
  have nk: "(n, k) \<in> set (sm_seats s)" using qget_in_set [OF k] .
  have only: "snd e = k \<longleftrightarrow> fst e = n" if "e \<in> set (sm_seats s)" for e
  proof
    show "fst e = n" if "snd e = k" using snd_unique [OF dist, of "fst e" k n] \<open>e \<in> set (sm_seats s)\<close> nk that by (cases e) simp
    show "snd e = k" if "fst e = n" using that \<open>e \<in> set (sm_seats s)\<close> k qget_iff_in_set [OF qk, of n "snd e"] by (cases e) simp
  qed
  have seats: "sm_seats v = qdel n (sm_seats s)" by (simp add: u_def v_def)
  have v: "objects v = objects s" "sm_rules v = sm_rules s" "deviceSeat v = deviceSeat s" "qtDevice v = qtDevice s" "sm_pending v = sm_pending s"
    "serverRunning v = serverRunning s" "regexValid v = regexValid s" "cursorSeat v = cursorSeat s" "cursorDevices v = cursorDevices s"
    "device v = device s" by (simp_all add: u_def v_def)
  show "sm_seats v = qdel n (sm_seats s)" "deviceSeat v = deviceSeat s" "device v = device s" by (rule seats v)+
  show dl: "deviceList v = deviceList s" by (simp add: deviceList_def v fun_eq_iff)
  have sn: "seatName v = seatName s" by (simp add: seatName_def v fun_eq_iff)
  show name: "seatName v k = n" using ok nk unfolding sn seats_ok_def by blast
  show reg: "registered v = registered s - {k}" using only by (auto simp: registered_def seats qdel_set image_iff)
  have live: "live_seat v = live_seat s" by (simp add: live_seat_def v fun_eq_iff cong: option.case_cong)
  have ks: "k \<in> registered s" using nk by (force simp: registered_def)
  have def1: "j \<in> registered v" if "sm_default v = Some j" for j
  proof (cases "sm_default s = Some k")
    case True
    then have "sm_default v = (case sm_seats v of [] \<Rightarrow> None | e # _ \<Rightarrow> Some (snd e))" by (simp add: u_def v_def)
    then show ?thesis using that by (auto simp: registered_def split: list.splits)
  next
    case False
    then have "sm_default s = Some j" using that by (simp add: u_def v_def)
    then have "j \<in> registered s" "j \<noteq> k" using False seats_okD(6) [OF ok, of j] by simp_all
    then show ?thesis unfolding reg by simp
  qed
  have def2: "sm_seats v = []" if "sm_default v = None"
  proof (cases "sm_default s = Some k")
    case True
    then have "sm_default v = (case sm_seats v of [] \<Rightarrow> None | e # _ \<Rightarrow> Some (snd e))" by (simp add: u_def v_def)
    then show ?thesis using that by (auto split: list.splits)
  next
    case False
    then have "sm_default s = None" using that by (simp add: u_def v_def)
    then show ?thesis using seats_okD(7) [OF ok] seats by (simp add: qdel_def)
  qed
  show "seats_ok {k} v"
  proof (rule seats_okI)
    show "distinct (map snd (sm_seats v))" using dist unfolding seats qdel_def by (rule distinct_map_filter)
    show "qok (sm_seats v)" using qk by (simp add: seats)
    show "seatName v j = m" if "(m, j) \<in> set (sm_seats v)" for m j
      using that seats_ok_parts(5) [OF ok] unfolding seats qdel_set sn by simp
    show "rs \<noteq> [] \<and> m \<noteq> [] \<and> (qhas (sm_seats v) m \<or> (\<exists>k\<in>{k}. seatName v k = m)) \<and> validRules v rs" if "qget (sm_rules v) m = Some rs" for m rs
      using that seats_ok_rulesD [OF ok, of m rs] name by (simp add: v seats validRules_def)
    show "objects v j \<noteq> None \<longleftrightarrow> j \<in> registered v \<union> {k}" for j using seats_okD(5) [OF ok, of j] ks by (auto simp: v reg)
    show "live_seat v j" if "j \<in> registered v \<union> {k}" for j using that seats_okD(4) [OF ok, of j] ks unfolding live reg by blast
    show "sm_pending v = []" "serverRunning v" using seats_ok_parts(3,4) [OF ok] by (simp_all add: v)
    show "{k} \<inter> registered v = {}" by (simp add: reg)
    show "deviceSeat v d = Some j \<longleftrightarrow> d \<in> set (deviceList v j)" "distinct (deviceList v j)" for d j
      using seats_okD(1,2) [OF ok] by (simp_all add: v dl)
    show "qtDevice v d" if "deviceSeat v d \<noteq> None" for d using that seats_okD(3) [OF ok, of d] by (simp add: v)
  qed (use def1 def2 in blast)+
qed

text \<open>One device of the seat that goes away.\<close>

definition hand_over :: "wseat \<Rightarrow> did \<Rightarrow> seat_state \<Rightarrow> seat_state result" where
  "hand_over k d s =
     rbind (seat_detachInputDevice d k s) (\<lambda>s.
     let s = clearDeviceCache d s in
     if sm_seats s = [] then Inr s
     else rbind (autoAssignDevice d s) (\<lambda>(j, s).
          Inr (case j of None \<Rightarrow> s | Some j \<Rightarrow> sm_emit (DeviceReassigned d k j) s)))"

definition moved_off :: "wseat \<Rightarrow> did list \<Rightarrow> seat_state \<Rightarrow> seat_state \<Rightarrow> bool" where
  "moved_off k ds s t =
     (seats_ok {k} t \<and> sm_seats t = sm_seats s \<and> (\<forall>j. seatName t j = seatName s j) \<and> device t = device s
      \<and> (\<forall>d. d \<notin> set ds \<longrightarrow> deviceSeat t d = deviceSeat s d)
      \<and> (\<forall>d\<in>set ds. if sm_seats s = [] then deviceSeat t d = None else \<exists>j\<in>registered s. deviceSeat t d = Some j))"

lemma hand_over_ok:
  assumes ok: "seats_ok {k} s" and d: "deviceSeat s d = Some k" and r: "hand_over k d s = Inr t"
  shows "moved_off k [d] s t"
proof -
  obtain u where u: "seat_detachInputDevice d k s = Inr u" "seats_ok {k} u" "deviceSeat u = (deviceSeat s)(d := None)" "obj_frame k s u"
    using detach_ok [OF ok d] by blast
  note f = obj_frame_fields [OF u(4)]
  let ?v = "clearDeviceCache d u"
  have v: "seats_ok {k} ?v" using u(2) by (simp add: clearDeviceCache_def ok_update)
  have vf: "sm_seats ?v = sm_seats s" "deviceSeat ?v = (deviceSeat s)(d := None)" "device ?v = device s" "seatName ?v j = seatName s j" for j
    using f u(3) by (simp_all add: clearDeviceCache_def seatName_def)
  show ?thesis
  proof (cases "sm_seats s = []")
    case True
    then have "t = ?v" using r u(1) vf(1) by (simp add: hand_over_def Let_def)
    then show ?thesis using v vf True by (simp add: moved_off_def)
  next
    case False
    then obtain j w where w: "autoAssignDevice d ?v = Inr (j, w)" "t = (case j of None \<Rightarrow> w | Some j \<Rightarrow> sm_emit (DeviceReassigned d k j) w)"
      using r u(1) vf(1) by (auto simp: hand_over_def Let_def elim!: rbind_InrE)
    have X: "\<forall>k\<in>{k}. deviceSeat ?v d \<noteq> Some k" by (simp add: vf(2))
    note a = autoAssign_ok [OF v X w(1)]
    have "sm_default ?v \<noteq> None" using seats_okD(7) [OF v] False vf(1) by metis
    then obtain i where i: "j = Some i" using a by auto
    have sn: "seatName (sm_emit e w) = seatName w" for e by (simp add: seatName_def sm_emit_def fun_eq_iff)
    have "i \<in> registered s" using a i vf(1) by (simp add: registered_def)
    then show ?thesis using a vf False by (simp add: moved_off_def w(2) i ok_update sn)
  qed
qed

lemma hand_over_all:
  assumes "seats_ok {k} s" "\<forall>d\<in>set ds. deviceSeat s d = Some k" "distinct ds" "rfold (hand_over k) ds s = Inr t"
  shows "moved_off k ds s t"
  using assms
proof (induction ds arbitrary: s)
  case Nil
  then show ?case by (simp add: moved_off_def)
next
  case (Cons d ds)
  obtain u where u: "hand_over k d s = Inr u" "rfold (hand_over k) ds u = Inr t" using Cons.prems(4) by (auto elim: rbind_InrE)
  have m: "moved_off k [d] s u" using hand_over_ok [OF Cons.prems(1) _ u(1)] Cons.prems(2) by simp
  have "deviceSeat u e = deviceSeat s e" if "e \<in> set ds" for e using m that Cons.prems(3) by (auto simp: moved_off_def)
  then have "\<forall>e\<in>set ds. deviceSeat u e = Some k" using Cons.prems(2) by simp
  then have "moved_off k ds u t" using Cons.IH [of u] m Cons.prems(3) u(2) by (simp add: moved_off_def)
  moreover have "registered u = registered s" using m by (simp add: moved_off_def registered_def)
  ultimately show ?case using m Cons.prems(3) unfolding moved_off_def by (auto split: if_splits)
qed

lemma hand_over_returns:
  assumes ok: "seats_ok {k} s" and d: "deviceSeat s d = Some k" and type: "dv_type (device s d) \<notin> {DevTouch, DevTablet}"
  shows "\<exists>t. hand_over k d s = Inr t"
proof -
  obtain u where u: "seat_detachInputDevice d k s = Inr u" "seats_ok {k} u" "deviceSeat u = (deviceSeat s)(d := None)" "obj_frame k s u"
    using detach_ok [OF ok d] by blast
  note f = obj_frame_fields [OF u(4)]
  let ?v = "clearDeviceCache d u"
  have v: "seats_ok {k} ?v" using u(2) by (simp add: clearDeviceCache_def ok_update)
  have vf: "deviceSeat ?v d = None" "device ?v = device s" using f u(3) by (simp_all add: clearDeviceCache_def)
  have X: "\<forall>k\<in>{k}. deviceSeat ?v d \<noteq> Some k" by (simp add: vf(1))
  have pol: "autoAssignDevice d ?v = (case rule_policy d ?v of None \<Rightarrow> Inr (None, ?v) | Some k \<Rightarrow> rbind (seat_attachInputDevice d k ?v) (\<lambda>s. Inr (Some k, s)))"
    by (rule autoAssign_policy [OF v X vf(1)])
  have "\<exists>r. autoAssignDevice d ?v = Inr r"
  proof (cases "rule_policy d ?v")
    case None
    then show ?thesis using pol by simp
  next
    case (Some j)
    then have "j \<in> registered ?v" using rule_policy_registered [OF v] by blast
    then obtain w where "seat_attachInputDevice d j ?v = Inr w" using attach_free [OF v _ vf(1)] type vf(2) by auto
    then show ?thesis using pol Some by simp
  qed
  then obtain j w where "autoAssignDevice d ?v = Inr (j, w)" by auto
  then show ?thesis using u(1) by (cases "sm_seats ?v = []") (simp_all add: hand_over_def Let_def)
qed

lemma hand_over_all_returns:
  assumes "seats_ok {k} s" "\<forall>d\<in>set ds. deviceSeat s d = Some k \<and> dv_type (device s d) \<notin> {DevTouch, DevTablet}" "distinct ds"
  shows "\<exists>t. rfold (hand_over k) ds s = Inr t"
  using assms
proof (induction ds arbitrary: s)
  case (Cons d ds)
  obtain u where u: "hand_over k d s = Inr u" using hand_over_returns [OF Cons.prems(1)] Cons.prems(2) by auto
  have m: "moved_off k [d] s u" using hand_over_ok [OF Cons.prems(1) _ u] Cons.prems(2) by simp
  have "deviceSeat u e = deviceSeat s e" if "e \<in> set ds" for e using m that Cons.prems(3) by (auto simp: moved_off_def)
  moreover have "seats_ok {k} u" "device u = device s" using m by (simp_all add: moved_off_def)
  ultimately have "\<exists>t. rfold (hand_over k) ds u = Inr t" using Cons.IH [of u] Cons.prems(2,3) by simp
  then show ?case using u by simp
qed simp

text \<open>The empty seat is taken from the server and deleted.\<close>

lemma drop_seat:
  assumes ok: "seats_ok {k} s" and empty: "deviceList s k = []" and name: "seatName s k = n"
  shows "\<exists>t. rbind (server_detach k s) (\<lambda>s. rbind (delete_seat k (sm_emit (SeatRemoved k) s)) (\<lambda>s. Inr (s\<lparr>sm_rules := qdel n (sm_rules s)\<rparr>))) = Inr t
    \<and> seats_ok {} t \<and> deviceSeat t = deviceSeat s \<and> sm_seats t = sm_seats s"
proof -
  have "live_seat s k" using seats_okD(4) [OF ok] by simp
  then obtain w where w: "objects s k = Some w" "with_seat k s = Inr w" "st_handle w" "st_attached w" "st_devices w = []"
    using empty by (metis live_seatE)
  have run: "serverRunning s" using ok by (simp add: seats_ok_def)
  define u where "u = mod_wseat (\<lambda>w. w\<lparr>st_devices := []\<rparr>) k ((mod_wseat (\<lambda>w. w\<lparr>st_attached := False\<rparr>) k s)\<lparr>deviceSeat := deviceSeat s\<rparr>)"
  let ?w = "w\<lparr>st_attached := False\<rparr>"
  have u: "with_seat k u = Inr ?w" "objects u = (objects s)(k \<mapsto> ?w)" "deviceSeat u = deviceSeat s"
    using w by (auto simp: u_def with_seat_def)
  define v where "v = mod_wseat (\<lambda>w. w\<lparr>st_cursor := None\<rparr>) k
    (case st_cursor w of None \<Rightarrow> u | Some b \<Rightarrow> u\<lparr>cursorSeat := (cursorSeat u)(b := None)\<rparr>)"
  have v: "seat_setCursor None k u = Inr (if st_cursor w = None then u else v)"
    using w(5) by (auto simp: seat_setCursor_def u(1) v_def Let_def)
  define x where "x = mod_wseat (\<lambda>w. w\<lparr>st_handle := False\<rparr>) k (if st_cursor w = None then u else v)"
  have "seat_destroy k (mod_wseat (\<lambda>w. w\<lparr>st_attached := False\<rparr>) k s) = Inr x"
  proof -
    have "deviceList (mod_wseat (\<lambda>w. w\<lparr>st_attached := False\<rparr>) k s) k = []" using w by (simp add: deviceList_def)
    then show ?thesis unfolding seat_destroy_def Let_def using v by (simp add: u_def [symmetric] x_def)
  qed
  moreover have "serverRunning (mod_wseat (\<lambda>w. w\<lparr>st_attached := False\<rparr>) k s)" using run by (simp add: mod_wseat_def)
  ultimately have det: "server_detach k s = Inr x" using w by (simp add: server_detach_def Let_def)
  have f: "obj_frame k s x" by (rule frame_server(2) [OF det])
  note ff = obj_frame_fields [OF f]
  have xo: "\<exists>y. objects x k = Some y \<and> st_devices y = []"
    using u(2) w(5) by (auto simp: x_def v_def split: option.split)
  have xs: "deviceSeat x = deviceSeat s" "qtDevice x = qtDevice s" "cursorDevices x = cursorDevices s"
    "cursorSeat x = (case st_cursor w of None \<Rightarrow> cursorSeat s | Some b \<Rightarrow> (cursorSeat s)(b := None))"
    by (auto simp: x_def v_def u_def split: option.split)
  define t where "t = (sm_emit (SeatRemoved k) x)\<lparr>objects := (objects x)(k := None), sm_rules := qdel n (sm_rules x)\<rparr>"
  have del: "delete_seat k (sm_emit (SeatRemoved k) x) = Inr ((sm_emit (SeatRemoved k) x)\<lparr>objects := (objects x)(k := None)\<rparr>)"
    using xo by (auto simp: delete_seat_def deviceList_def sm_emit_def)
  have t: "sm_seats t = sm_seats s" "sm_default t = sm_default s" "sm_pending t = sm_pending s" "serverRunning t = serverRunning s"
    "regexValid t = regexValid s" "sm_rules t = qdel n (sm_rules s)" "deviceSeat t = deviceSeat s" "qtDevice t = qtDevice s"
    "cursorDevices t = cursorDevices s" "device t = device s"
    "cursorSeat t = (case st_cursor w of None \<Rightarrow> cursorSeat s | Some b \<Rightarrow> (cursorSeat s)(b := None))"
    by (simp_all add: t_def sm_emit_def ff xs)
  have obj: "objects t j = (if j = k then None else objects s j)" for j using ff(12) by (simp add: t_def)
  have nk: "k \<notin> registered s" using ok by (simp add: seats_ok_def)
  have dl: "deviceList t j = deviceList s j" for j using empty by (simp add: deviceList_def obj)
  have sn: "seatName t j = seatName s j" if "j \<noteq> k" for j using that by (simp add: seatName_def obj)
  have reg: "registered t = registered s" by (simp add: registered_def t(1))
  have lives: "live_seat t j" if j: "j \<in> registered s" for j
  proof -
    have l: "live_seat s j" using seats_okD(4) [OF ok] j by blast
    have jk: "j \<noteq> k" using j nk by blast
    then have "objects t j = objects s j" by (simp add: obj)
    moreover have "cursorDevices t c = cursorDevices s c \<and> cursorSeat t c = cursorSeat s c" if "cursorSeat s c = Some j \<or> c = SeatCursor j" for c
    proof (cases "st_cursor w")
      case (Some b)
      have "live_seat s k" using seats_okD(4) [OF ok] by simp
      then have "(b = SharedCursor \<or> b = SeatCursor k) \<and> cursorSeat s b = Some k" using w(1) Some by (auto simp: live_seat_def)
      then show ?thesis using that jk by (auto simp: t Some)
    qed (simp add: t)
    ultimately show ?thesis by (rule live_seat_other [OF l _ t(10)])
  qed
  have rules: "rs \<noteq> [] \<and> m \<noteq> [] \<and> qhas (sm_seats t) m \<and> validRules t rs" if "qget (sm_rules t) m = Some rs" for m rs
    using that seats_ok_rulesD [OF ok, of m rs] name by (auto simp: t validRules_def split: if_splits)
  have names: "seatName t j = m" if "(m, j) \<in> set (sm_seats t)" for m j
  proof -
    have "j \<noteq> k" using that nk by (auto simp: t(1) registered_def image_iff)
    then show ?thesis using that ok sn by (simp add: seats_ok_def t(1))
  qed
  have objs: "objects t j \<noteq> None \<longleftrightarrow> j \<in> registered t" for j using seats_okD(5) [OF ok, of j] nk by (auto simp: obj reg)
  have "seats_ok {} t"
    by (rule seats_okI)
      (use lives rules names objs seats_ok_parts [OF ok] seats_okD(1-3,6,7) [OF ok] in \<open>simp_all add: reg dl t(1-4,7,8)\<close>)
  moreover have "rbind (server_detach k s) (\<lambda>s. rbind (delete_seat k (sm_emit (SeatRemoved k) s)) (\<lambda>s. Inr (s\<lparr>sm_rules := qdel n (sm_rules s)\<rparr>))) = Inr t"
    by (simp add: det del t_def) (simp add: sm_emit_def)
  ultimately show ?thesis using t by blast
qed

lemma removeSeat_unfold:
  assumes "qget (sm_seats s) n = Some k"
  defines "u \<equiv> s\<lparr>sm_seats := qdel n (sm_seats s)\<rparr>"
  defines "v \<equiv> (if sm_default u = Some k then u\<lparr>sm_default := (case sm_seats u of [] \<Rightarrow> None | e # _ \<Rightarrow> Some (snd e))\<rparr> else u)"
  shows "removeSeat n s = rbind (rfold (hand_over k) (deviceList v k) v) (\<lambda>s. rbind (server_detach k s) (\<lambda>s.
     rbind (delete_seat k (sm_emit (SeatRemoved k) s)) (\<lambda>s. Inr (s\<lparr>sm_rules := qdel n (sm_rules s)\<rparr>))))"
  unfolding removeSeat_def assms(1) option.case Let_def u_def [symmetric] v_def [symmetric]
  by (simp add: hand_over_def [abs_def] Let_def)

lemma removeSeat_known:
  assumes ok: "seats_ok {} s" and k: "qget (sm_seats s) n = Some k"
  shows "(\<forall>d\<in>set (deviceList s k). dv_type (device s d) \<notin> {DevTouch, DevTablet}) \<Longrightarrow> \<exists>t. removeSeat n s = Inr t"
    "removeSeat n s = Inr t \<Longrightarrow> seats_ok {} t \<and> sm_seats t = qdel n (sm_seats s) \<and> registered t = registered s - {k}
       \<and> (\<forall>d. deviceSeat s d \<noteq> Some k \<longrightarrow> deviceSeat t d = deviceSeat s d)
       \<and> (\<forall>d. deviceSeat s d = Some k \<longrightarrow> (if sm_seats t = [] then deviceSeat t d = None else \<exists>j\<in>registered t. deviceSeat t d = Some j))"
proof -
  define u where "u = s\<lparr>sm_seats := qdel n (sm_seats s)\<rparr>"
  define v where "v = (if sm_default u = Some k then u\<lparr>sm_default := (case sm_seats u of [] \<Rightarrow> None | e # _ \<Rightarrow> Some (snd e))\<rparr> else u)"
  note v = unregister_ok [OF ok k, folded u_def, folded v_def]
  have unf: "removeSeat n s = rbind (rfold (hand_over k) (deviceList v k) v) (\<lambda>s. rbind (server_detach k s) (\<lambda>s.
     rbind (delete_seat k (sm_emit (SeatRemoved k) s)) (\<lambda>s. Inr (s\<lparr>sm_rules := qdel n (sm_rules s)\<rparr>))))"
    using removeSeat_unfold [OF k] unfolding u_def v_def .
  have at: "deviceSeat v d = Some k \<longleftrightarrow> d \<in> set (deviceList v k)" for d by (rule seats_okD(1) [OF v(1)])
  have dist: "distinct (deviceList v k)" by (rule seats_okD(2) [OF v(1)])
  have drop: "\<exists>t. rbind (server_detach k w) (\<lambda>s. rbind (delete_seat k (sm_emit (SeatRemoved k) s)) (\<lambda>s. Inr (s\<lparr>sm_rules := qdel n (sm_rules s)\<rparr>))) = Inr t
      \<and> seats_ok {} t \<and> deviceSeat t = deviceSeat w \<and> sm_seats t = sm_seats v" if m: "moved_off k (deviceList v k) v w" for w
  proof -
    have nk: "k \<notin> registered v" using v(2) by simp
    have "deviceSeat w d \<noteq> Some k" for d
      using m at nk unfolding moved_off_def by (cases "d \<in> set (deviceList v k)") (auto split: if_splits)
    moreover have wok: "seats_ok {k} w" using m by (simp add: moved_off_def)
    ultimately have "deviceList w k = []" using seats_okD(1) [OF wok, of _ k] by (cases "deviceList w k") auto
    moreover have "seatName w k = n" "sm_seats w = sm_seats v" using m v(3) by (simp_all add: moved_off_def)
    ultimately show ?thesis using drop_seat [OF wok] by metis
  qed
  show "\<exists>t. removeSeat n s = Inr t" if "\<forall>d\<in>set (deviceList s k). dv_type (device s d) \<notin> {DevTouch, DevTablet}"
  proof -
    have "\<forall>d\<in>set (deviceList v k). deviceSeat v d = Some k \<and> dv_type (device v d) \<notin> {DevTouch, DevTablet}" using that at v(5,7) by simp
    then obtain w where w: "rfold (hand_over k) (deviceList v k) v = Inr w" using hand_over_all_returns [OF v(1) _ dist] by blast
    have "\<forall>d\<in>set (deviceList v k). deviceSeat v d = Some k" using at by simp
    then have "moved_off k (deviceList v k) v w" using hand_over_all [OF v(1) _ dist w] by blast
    then show ?thesis using drop [of w] w unf by auto
  qed
  assume r: "removeSeat n s = Inr t"
  obtain w where w: "rfold (hand_over k) (deviceList v k) v = Inr w" using r unf by (auto elim: rbind_InrE)
  have "\<forall>d\<in>set (deviceList v k). deviceSeat v d = Some k" using at by simp
  then have m: "moved_off k (deviceList v k) v w" using hand_over_all [OF v(1) _ dist w] by blast
  then have t: "seats_ok {} t" "deviceSeat t = deviceSeat w" "sm_seats t = sm_seats v" using drop [OF m] r unf w by auto
  have reg: "registered t = registered v" by (simp add: registered_def t(3))
  have stay: "deviceSeat t d = deviceSeat s d" if "deviceSeat s d \<noteq> Some k" for d
    using that m at [of d] v(4) t(2) by (simp add: moved_off_def)
  have go: "if sm_seats t = [] then deviceSeat t d = None else \<exists>j\<in>registered t. deviceSeat t d = Some j" if "deviceSeat s d = Some k" for d
  proof -
    have "d \<in> set (deviceList v k)" using that at v(4) by simp
    then show ?thesis using m unfolding moved_off_def t reg by blast
  qed
  show "seats_ok {} t \<and> sm_seats t = qdel n (sm_seats s) \<and> registered t = registered s - {k}
       \<and> (\<forall>d. deviceSeat s d \<noteq> Some k \<longrightarrow> deviceSeat t d = deviceSeat s d)
       \<and> (\<forall>d. deviceSeat s d = Some k \<longrightarrow> (if sm_seats t = [] then deviceSeat t d = None else \<exists>j\<in>registered t. deviceSeat t d = Some j))"
    using t(1) t(3) [unfolded v(6)] reg [unfolded v(2)] stay go by blast
qed

lemma removeSeat_ok:
  assumes "seats_ok {} s" "removeSeat n s = Inr t"
  shows "seats_ok {} t"
proof (cases "qget (sm_seats s) n")
  case None
  then show ?thesis using assms by (simp add: removeSeat_def)
next
  case (Some k)
  then show ?thesis using removeSeat_known(2) [OF assms(1) Some assms(2)] by simp
qed


section \<open>Every run\<close>

inductive seat_reach :: "seat_state \<Rightarrow> bool" where
  start: "fresh_seats s \<Longrightarrow> initializeFromConfig document s = Inr (p, t) \<Longrightarrow> setupAllSeats t = Inr u \<Longrightarrow> seat_reach u"
| added: "seat_reach s \<Longrightarrow> inputAdded p d s = Inr t \<Longrightarrow> seat_reach t"
| removed: "seat_reach s \<Longrightarrow> inputRemoved d s = Inr t \<Longrightarrow> seat_reach t"
| moved: "seat_reach s \<Longrightarrow> assignDeviceToSeat d n s = Inr t \<Longrightarrow> seat_reach t"
| rule_added: "seat_reach s \<Longrightarrow> seat_reach (addDeviceRule n r s)"
| rule_removed: "seat_reach s \<Longrightarrow> seat_reach (removeDeviceRule n r s)"
| looked_up: "seat_reach s \<Longrightarrow> seat_reach (snd (getSeatForDevice d s))"
| seat_removed: "seat_reach s \<Longrightarrow> removeSeat n s = Inr t \<Longrightarrow> seat_reach t"
| seat_deleted: "seat_reach s \<Longrightarrow> removeSeatObject k s = Inr t \<Longrightarrow> seat_reach t"

lemma seat_reach_ok: "seat_reach s \<Longrightarrow> seats_ok {} s"
proof (induction rule: seat_reach.induct)
  case (start s document p t u)
  then show ?case using started [OF start(1), of document] by auto
next
  case (added s p d t)
  then show ?case using assignDevice_seats_ok [of "sm_emit (DeviceAdded d) s"] by (simp add: inputAdded_def ok_update)
next
  case (removed s d t)
  then show ?case using inputRemoved_ok [OF removed(3), of d] by auto
next
  case (seat_deleted s k t)
  then show ?case using removeSeat_ok by (auto simp: removeSeatObject_def split: option.splits if_splits)
next
  case (looked_up s d)
  then show ?case by (simp add: getSeatForDevice_def Let_def ok_update split: option.split)
qed (use assignDeviceToSeat_ok removeSeat_ok addDeviceRule_ok removeDeviceRule_ok in blast)+


section \<open>What goes wrong\<close>

text \<open>Giving a device to another seat leaves the device cache as it was: lookups and events then name different seats.\<close>

lemma reassigned_device_keeps_cache:
  assumes "seats_ok {} s" "sm_cache s d = Some (Some i)" "qget (sm_seats s) n = Some k" "assignDeviceToSeat d n s = Inr t"
  shows "fst (getSeatForDevice d t) = Some i \<and> getSeatForEvent (Some d) t = Some k"
  using assignDeviceToSeat_ok [OF assms(1,4)] assms(2,3) by (simp add: getSeatForDevice_def getSeatForEvent_def)

text \<open>A touch device or tablet stays in the list of a cursor it was once attached to, so that it cannot come back to the
  seat of that cursor.\<close>

lemma touch_device_cannot_return:
  assumes ok: "seats_ok {} s" and k: "k \<in> registered s" and w: "objects s k = Some w" "st_cursor w = Some c"
    and d: "deviceSeat s d = Some k" "dv_type (device s d) \<in> {DevTouch, DevTablet}" "d \<in> set (cursorDevices s c)"
    and t: "seat_detachInputDevice d k s = Inr t"
  shows "seat_attachInputDevice d k t = Inl QAssert"
proof -
  obtain t' where t': "seat_detachInputDevice d k s = Inr t'" "seats_ok {} t'" "obj_frame k s t'" using detach_ok [OF ok d(1)] by blast
  then have e: "t' = t" using t by simp
  have dl: "d \<in> set (deviceList s k)" using seats_okD(1) [OF ok] d(1) by blast
  have h: "st_handle w" using seats_okD(4) [OF ok, of k] k w(1) by (auto simp: live_seat_def)
  define u where "u = (mod_wseat (\<lambda>w. w\<lparr>st_devices := remove1 d (st_devices w)\<rparr>) k s)\<lparr>deviceSeat := (deviceSeat s)(d := None)\<rparr>"
  let ?w = "w\<lparr>st_devices := remove1 d (st_devices w)\<rparr>"
  have u: "with_seat k u = Inr ?w" "qtDevice u d" "device u = device s" "cursorDevices u = cursorDevices s" "objects u k = Some ?w"
    using w(1) seats_okD(3) [OF ok] d(1) by (simp_all add: u_def mod_wseat_def with_seat_def)
  have "seatp_detachInputDevice d k u = Inr t" using t dl by (simp add: seat_detachInputDevice_def Let_def u_def)
  moreover have "st_handle ?w" using h by simp
  ultimately have tt: "cursorDevices t = (case st_cursor ?w of
         Some c \<Rightarrow> if dv_type (device u d) = DevPointer then (cursorDevices u)(c := remove1 d (cursorDevices u c)) else cursorDevices u
       | None \<Rightarrow> cursorDevices u)"
    "objects t = (objects u)(k \<mapsto> ?w\<lparr>st_touch := (if dv_type (device u d) = DevTouch then remove1 d (st_touch ?w) else st_touch ?w)\<rparr>)"
    using seatp_detach_result [OF u(1) _ u(2)] by auto
  have "cursorDevices t c = cursorDevices s c" using d(2) w(2) by (auto simp: tt(1) u)
  then have "d \<in> set (cursorDevices t c)" using d(3) by simp
  moreover have "\<exists>y. objects t k = Some y \<and> st_cursor y = Some c" using w(2) by (simp add: tt(2))
  moreover have "k \<in> registered t \<union> {}" using k frame_registered [OF t'(3)] e by simp
  ultimately show ?thesis using attach_refused [of "{}" t k] t'(2) e by blast
qed

end
