(* ===== verification/Seat_Examples.thy ===== *)
theory Seat_Examples
  imports Seat_Lifecycle
begin

text \<open>
  A compositor with two seats, where the theorems about the seats (src/src/seat/seatmanager.cpp) are applied.
\<close>

section \<open>A machine with two seats\<close>

definition no_seats :: seat_state where
  "no_seats = \<lparr>sm_seats = [], sm_rules = [], sm_default = None, sm_cache = (\<lambda>_. None), sm_pending = [], sm_signals = [],
     objects = (\<lambda>_. None), nextSeat = 0,
     device = (\<lambda>d. \<lparr>dv_name = (if d = 7 then ''mouse'' else ''keyboard''), dv_type = (if d = 7 then DevPointer else DevKeyboard),
                     dv_path = ''/dev/input/event'', dv_virtual = False\<rparr>),
     deviceSeat = (\<lambda>_. None), qtDevice = (\<lambda>_. False), cursorDevices = (\<lambda>_. []), cursorSeat = (\<lambda>_. None),
     serverRunning = True, configReady = (\<lambda>_. True), regexValid = (\<lambda>_. True), regexMatch = (=)\<rparr>"

definition example_seat :: "string \<Rightarrow> cursor \<Rightarrow> did list \<Rightarrow> wseat_rec" where
  "example_seat name c ds = \<lparr>st_name = name, st_devices = ds, st_touch = [], st_attached = True, st_handle = True, st_cursor = Some c,
     st_focusWindow = True, st_filter = True\<rparr>"

definition two_seats :: "did list \<Rightarrow> seat_state" where
  "two_seats ds = no_seats\<lparr>sm_seats := [(''guest'', 1), (''seat0'', 0)], sm_rules := [(''guest'', [''2:mouse''])], sm_default := Some 0,
     objects := [0 \<mapsto> example_seat ''seat0'' SharedCursor [], 1 \<mapsto> example_seat ''guest'' (SeatCursor 1) ds], nextSeat := 2,
     deviceSeat := (\<lambda>d. if d \<in> set ds then Some 1 else None), qtDevice := (\<lambda>d. d \<in> set ds),
     cursorDevices := (\<lambda>_. [])(SeatCursor 1 := filter (\<lambda>d. d = 7) ds), cursorSeat := [SharedCursor \<mapsto> 0, SeatCursor 1 \<mapsto> 1]\<rparr>"

lemma two_seats_ok: "distinct ds \<Longrightarrow> seats_ok {} (two_seats ds)"
  by (rule seats_okI)
    (auto simp: two_seats_def no_seats_def example_seat_def registered_def live_seat_def deviceList_def seatName_def validRules_def
       qok_def qhas_def split: if_splits)

lemma mouse_info: "deviceInfo (device (two_seats ds) 7) = ''2:mouse''"
  by (simp add: two_seats_def no_seats_def deviceInfo_def type_digit_def) code_simp

lemma mouse_policy: "rule_policy 7 (two_seats ds) = Some 1"
  using mouse_info [of ds]
  by (simp add: rule_policy_def deviceMatchesSeat_def matchesDevice_def seatName_def two_seats_def no_seats_def example_seat_def)

lemma device_follows_rules_witness:
  "\<exists>t. inputAdded None 7 (two_seats [3]) = Inr t \<and> getSeatForEvent (Some 7) t = Some 1 \<and> deviceSeat t 3 = Some 1"
proof -
  have "sm_seats (two_seats [3]) \<noteq> []" "deviceSeat (two_seats [3]) 7 = None" "deviceSeat (two_seats [3]) 3 = Some 1"
    "dv_type (device (two_seats [3]) 7) \<notin> {DevTouch, DevTablet}" by (simp_all add: two_seats_def no_seats_def)
  then show ?thesis using device_follows_rules [OF two_seats_ok, of "[3]" 7 None] mouse_policy [of "[3]"] by auto
qed



definition two_seat_file :: json where
  "two_seat_file = JObj [(''seats'', JArr [
     JObj [(''deviceRules'', JArr [JStr ''2:mouse'']), (''fallback'', JBool False), (''name'', JStr ''guest'')],
     JObj [(''deviceRules'', JArr []), (''fallback'', JBool True), (''name'', JStr ''seat0'')]])]"

definition late_guest :: seat_state where
  "late_guest = no_seats\<lparr>configReady := (\<lambda>n. n = ''seat0'')\<rparr>"

lemma late_guest_starts:
  "case initializeFromConfig (Some two_seat_file) late_guest of
     Inl _ \<Rightarrow> False
   | Inr (p, t) \<Rightarrow> (case setupAllSeats t of Inl _ \<Rightarrow> False | Inr u \<Rightarrow> map fst (sm_pending u) = [''guest''])"
  by code_simp

lemma late_configuration_loses_rules_witness:
  "\<exists>p t u. initializeFromConfig (Some two_seat_file) late_guest = Inr (p, t) \<and> setupAllSeats t = Inr u
    \<and> qhas (sm_seats (configInitialized ''guest'' u)) ''guest'' \<and> deviceRules ''guest'' (configInitialized ''guest'' u) = []"
proof -
  have s: "sm_seats late_guest = []" "sm_pending late_guest = []" "sm_rules late_guest = []" "objects late_guest = (\<lambda>_. None)"
    "\<not> configReady late_guest ''guest''" by (simp_all add: late_guest_def no_seats_def)
  obtain p t where i: "initializeFromConfig (Some two_seat_file) late_guest = Inr (p, t)"
    "case setupAllSeats t of Inl _ \<Rightarrow> False | Inr u \<Rightarrow> map fst (sm_pending u) = [''guest'']"
    using late_guest_starts by (auto split: sum.splits prod.splits)
  obtain u where r: "setupAllSeats t = Inr u" "map fst (sm_pending u) = [''guest'']"
    using i(2) by (cases "setupAllSeats t") auto
  from r(2) have "''guest'' \<in> fst ` set (sm_pending u)" by (metis list.set_intros(1) set_map)
  then show ?thesis using late_configuration_loses_rules [OF s i(1) r(1)] i(1) r(1) by blast
qed


end
