(* ===== verification/Spec2Isabelle.thy ===== *)
theory Spec2Isabelle
  imports Focus_Switch Gesture_Toggle Shortcut_Switching Shortcut_Capture Setting_Manager Output_Panels
    Window_Recursion Interactive_Screen Seat_Examples
begin

text \<open>
  A verification library for the Treeland compositor (src/src/): which surface is in which list,
  on which workspace and with which focus, how the touchpad's movements become gestures, and how
  keys and gestures are bound to actions.

  \<^bold>\<open>The program and its parts.\<close> Treeland is a Wayland compositor on Qt. Every client window is a
  \<^verbatim>\<open>SurfaceWrapper\<close> (surface/surfacewrapper.cpp); containers (surface/surfacecontainer.cpp) form a
  tree whose root is \<^verbatim>\<open>RootSurfaceContainer\<close> (core/rootsurfacecontainer.cpp) and hand every surface
  up to it. The container \<^verbatim>\<open>Workspace\<close> (workspace/workspace.cpp) distributes windows over
  \<^verbatim>\<open>WorkspaceModel\<close> objects (workspace/workspacemodel.cpp), each with the history of its activations,
  and drives a \<^verbatim>\<open>WorkspaceAnimationController\<close>. \<^verbatim>\<open>FocusController\<close> (core/focuscontroller.cpp) decides
  which window is active; one \<^verbatim>\<open>SeatSurfaceManager\<close> per seat (surface/seatsurfacemanager.cpp) stores
  the active window and the keyboard focus; \<^verbatim>\<open>ShowDesktop\<close> minimizes and restores. Touchpad events go
  from \<^verbatim>\<open>GestureManager\<close> (input/gesturemanager.cpp) through \<^verbatim>\<open>GestureRecognizer\<close> to the gestures, whose
  signals run callbacks. \<^verbatim>\<open>ShortcutController\<close> (modules/shortcut/shortcutcontroller.cpp) binds keys and
  gestures to actions for \<^verbatim>\<open>ShortcutManagerV3\<close> (shortcutmanager.cpp), which serves the clients of
  several sessions and the capture of a key combination.

  \<^bold>\<open>Theories, by part.\<close>
    \<^item> \<open>Treeland_Prelude\<close>: results of computations that can fail an assertion, dereference null or
      run out of fuel (\<open>fault + 'a\<close> with \<open>rbind\<close>); Qt's \<^verbatim>\<open>QList\<close>; the collections of simplification
      rules. \<open>QMap\<close>: Qt's ordered dictionary.
    \<^item> \<open>Surface_Model\<close>: the state of a window and its setters, the modal search, signals as a log.
    \<^item> \<open>Surface_Container\<close>: \<^verbatim>\<open>ObjectListModel\<close>, \<^verbatim>\<open>SurfaceFilterModel\<close>, the container tree. The locale
      \<open>list_model\<close> is the contract of a list of surfaces.
    \<^item> \<open>Workspace_Model\<close>, \<open>Workspace_Animation\<close>: one workspace; the animation controller with its
      reachable states.
    \<^item> \<open>Workspace\<close>, \<open>Workspace_Surfaces\<close>: adding, moving and removing surfaces. \<open>Workspace_Switch\<close>,
      \<open>Workspace_Config\<close>: switching, creating, removing, reordering, reloading, preview, task switcher.
      These take the activation of a window as an argument.
    \<^item> \<open>Seat_Surfaces\<close>, \<open>Focus\<close>: seats and the focus controller with the slots of \<^verbatim>\<open>ShellHandler\<close> it
      triggers. \<open>Focus_Activation\<close>: what activation does. \<open>Focus_Switch\<close>: the workspace switch with
      the activation of the focus controller supplied for the argument.
    \<^item> \<open>Gestures\<close>, \<open>Gesture_Recognizer\<close>, \<open>Gesture_Manager\<close>, \<open>Gesture_Toggle\<close>: from the single gesture to
      the effect of a whole swipe on a switch.
    \<^item> \<open>Shortcut_Keys\<close>, \<open>Shortcut_Controller\<close>: key combinations and bindings. \<open>Shortcut_Registry\<close>: the
      abstract dictionary from names to bindings and the simulation. \<open>Shortcut_Reach\<close>: reachable
      states. \<open>Shortcut_Manager\<close>, \<open>Shortcut_Sessions\<close>, \<open>Shortcut_Switching\<close>: the protocol, the caches
      of the sessions and their agreement with the controller. \<open>Shortcut_Capture\<close>: the capture.
    \<^item> \<open>XSettings\<close>, \<open>XResource\<close>, \<open>Setting_Manager\<close> (xsettings/): the property of settings that X11 clients
      read, with its decoder, the resource text of the root window, and the manager that writes both.
    \<^item> \<open>Qt_Geometry\<close>: Qt's points, sizes and rectangles. \<open>Window_Geometry\<close>: the geometries and the state
      of a window (surface/surfacewrapper.cpp) with the root's filters. \<open>Window_States\<close>: what its
      operations promise.
    \<^item> \<open>Output_Model\<close> (output/output.cpp): the surfaces of an output, the zones panels reserve, arrangement,
      placement and popups. \<open>Output_Zones\<close>, \<open>Output_Panels\<close>: the margins and the panels. \<open>Output_Windows\<close>:
      where windows go.
    \<^item> \<open>Interactive_Move\<close>: moving and resizing windows, with tiling at the edges (surface/seatsurfacemanager.cpp,
      core/rootsurfacecontainer.cpp, input/compositorinputfilter.cpp). \<open>Interactive_Drag\<close>: the states that input,
      timers, windows, outputs and seats lead to. \<open>Interactive_Tiling\<close>: where a moved window ends.
      \<open>Interactive_Screen\<close>: a screen on which the theorems are applied. \<open>Window_Recursion\<close>: the mutual
      recursion of \<^verbatim>\<open>setPosition\<close> and the root's filter ends.
    \<^item> \<open>Seat_Manager\<close> (seat/seatmanager.cpp, waylib): seats, their devices and cursors, the rules that give
      devices to seats, the configuration file. \<open>Seat_Objects\<close>: what the operations of one seat leave alone.
      \<open>Seat_Config\<close>: saving and loading. \<open>Seat_Devices\<close>: the invariant, attaching and detaching. \<open>Seat_Start\<close>,
      \<open>Seat_Lifecycle\<close>: every run from the start on. \<open>Seat_Examples\<close>: a machine with two seats.

  \<^bold>\<open>Modelling.\<close> Objects are numbers and the state is a record that maps them to their fields; a
  method is a function from the state to the state (or to a result). A failed \<^verbatim>\<open>Q_ASSERT\<close> is
  \<open>Inl QAssert\<close>, a call on a null pointer \<open>Inl NullDeref\<close>, a read outside
  of an array \<open>Inl OutOfBounds\<close>. Signals are appended to a log, and a
  connected slot is called where the signal is emitted. \<^verbatim>\<open>qreal\<close> is \<open>real\<close> and its
  comparisons are exact (Qt compares points and rectangles fuzzily); key combinations and
  flags are words of the width they have in Qt. Code outside src/ is a parameter: Qt's parser and
  printer of key sequences, the numbers of the generated protocol code, the socket of a client.

  \<^bold>\<open>Fuel.\<close> Three recursions over windows are bounded by fuel: the modal search and the walk to the
  owner of a popup (by the depth of the tree of windows) and \<open>moveSurfaceTo\<close> (one more than the number
  of windows that are not yet on the target). The theorems on them show that this fuel gives a
  result, never that a result is right if there is one. \<open>perform\<close> of \<open>Focus\<close> counts the
  nesting of calls between focus controller, surfaces and shell handler.

  \<^bold>\<open>What is shown.\<close> Lists and containers: filtered views are exact, the tree lists a surface in exactly
  the container and its ancestors. Workspaces: every listed window is hidden with its workspace,
  moving takes the family along, removing and reloading lose no window. Focus: at most one active
  window, the keyboard by priority, popups give it back, switching activates the remembered window.
  Gestures: the recognizer never fails, a swipe triggers exactly the gestures of its direction, the
  switch stays consistent. Shortcuts: the controller refines a dictionary, events trigger exactly the
  bound actions, the bindings are those of the active session, captures are answered once.
  X settings: encoding and decoding are inverse, decoding stays inside the property, every setter
  reaches the clients. Windows: an interactive resize keeps the opposite edges, the client knows the
  state of its window, fullscreen can be left.
  Outputs: margins are the sums of zones and never leak, panels do not cover the valid area, new windows
  land in it, title bars stay within reach, tiles partition it.
  Interactive moves: a tile is detected only while a window is moved and taken exactly when it is armed, the
  escape key restores the window, a drop tiles it, and a moved window stays within reach.
  Seats: every device is at one seat, which its rules decide and which its events name, a seat that is removed hands
  its devices over, and the saved configuration is the one that is loaded.
  Several theorems state behaviour that the code does not mean to have: a history that keeps a window
  which has moved away and the assertion it leads to, a slide that forgets the running one, a preview
  slot that survives its window, a swipe that turns around and leaves its switch in progress, a key
  that stays consumed after it is unbound, an unmapped window that leaving fullscreen maximizes, a
  window that jumps back when its output changes, a preview that outlives the window it was shown for, and a
  tiled window that is lost from under the cursor when it is dragged, and a seat that loses its rules because its
  configuration is late.

  \<^bold>\<open>Not modelled.\<close> Rendering and decoration, the QML scene and the pictures of its animations, the waylib and
  wlroots wrappers, the configuration of outputs, the login and lock screens, and the protocol
  modules other than shortcuts: they are glue to libraries outside src/ or only forward requests.
  The outputs a window is on (\<^verbatim>\<open>updateSurfaceOutputs\<close>, which asks wlroots) are not modelled.
\<close>

end
